(* ===== verification/JsonGuard.thy ===== *)
theory JsonGuard
  imports Prelude
begin

text \<open>
  The journal's JSON guard: \<open>_validate_json\<close> of \<open>voice/native-bridge/task_store.py\<close>. A payload is
  traversed with an explicit stack under a node and a depth budget, every field name is checked
  against credential-shaped words, and the canonical encoding is bounded. Shown here: the loop
  terminates and accepts exactly the payloads a recursive reference predicate describes, so no
  credential-shaped field name enters the journal at any depth.
\<close>

section \<open>JSON values\<close>

text \<open>
  The Python values a payload is made of. A finite float is represented by its \<open>repr\<close>, which is
  all the code uses of it; \<open>JNonFinite\<close> is \<open>nan\<close> or an infinity and \<open>JOther\<close> any other object.
  A dict is the list of its items in insertion order.
\<close>

datatype json =
    JNull
  | JBool bool
  | JInt int
  | JFloat pystr
  | JNonFinite
  | JStr pystr
  | JList "json list"
  | JDict "(pystr \<times> json) list"
  | JOther

definition dict_get :: "pystr \<Rightarrow> (pystr \<times> 'v) list \<Rightarrow> 'v option" where
  "dict_get k items = map_of items k"

section \<open>Canonical encoding\<close>

text \<open>\<open>json.dumps(value, sort_keys=True, separators=(",", ":"), ensure_ascii=False)\<close>.\<close>

fun digits_of :: "nat \<Rightarrow> pystr" where
  "digits_of n = (if n < 10 then [48 + n] else digits_of (n div 10) @ [48 + n mod 10])"

declare digits_of.simps [simp del]

lemma digits_of_digit [simp]: "n < 10 \<Longrightarrow> digits_of n = [48 + n]"
  by (simp add: digits_of.simps)

definition int_repr :: "int \<Rightarrow> pystr" where
  "int_repr i = (if i < 0 then lit ''-'' @ digits_of (nat (- i)) else digits_of (nat i))"

definition hex_digit :: "nat \<Rightarrow> nat" where
  "hex_digit d = (if d < 10 then 48 + d else 87 + d)"

definition escape_char :: "nat \<Rightarrow> pystr" where
  "escape_char c =
     (if c = 34 then lit [CHR 0x5C, CHR 0x22]
      else if c = 92 then lit [CHR 0x5C, CHR 0x5C]
      else if c = 10 then lit [CHR 0x5C, CHR ''n'']
      else if c = 13 then lit [CHR 0x5C, CHR ''r'']
      else if c = 9 then lit [CHR 0x5C, CHR ''t'']
      else if c = 8 then lit [CHR 0x5C, CHR ''b'']
      else if c = 12 then lit [CHR 0x5C, CHR ''f'']
      else if c < 32 then lit [CHR 0x5C, CHR ''u'', CHR ''0'', CHR ''0''] @ [hex_digit (c div 16), hex_digit (c mod 16)]
      else [c])"

definition quoted :: "pystr \<Rightarrow> pystr" where
  "quoted s = [34] @ concat (map escape_char s) @ [34]"

definition render_object :: "(pystr \<times> pystr) list \<Rightarrow> pystr" where
  "render_object items =
     lit ''{'' @ join (lit '','') (map (\<lambda>(k, v). quoted k @ lit '':'' @ v) (sort_key fst items)) @ lit ''}''"

primrec dumps :: "json \<Rightarrow> pystr" where
  "dumps JNull = lit ''null''"
| "dumps (JBool b) = (if b then lit ''true'' else lit ''false'')"
| "dumps (JInt i) = int_repr i"
| "dumps (JFloat r) = r"
| "dumps JNonFinite = []"
| "dumps (JStr s) = quoted s"
| "dumps (JList xs) = lit ''['' @ join (lit '','') (map dumps xs) @ lit '']''"
| "dumps (JDict kvs) = render_object (map (map_prod id dumps) kvs)"
| "dumps JOther = []"

text \<open>\<open>json.dumps\<close> raises on a non-finite float (\<open>allow_nan=False\<close>), on a foreign object and, as every conversion of
  an integer to text, on an integer of more than 4300 digits.\<close>

primrec encodable :: "json \<Rightarrow> bool" where
  "encodable JNull = True"
| "encodable (JBool b) = True"
| "encodable (JInt i) = (length (digits_of (nat \<bar>i\<bar>)) \<le> 4300)"
| "encodable (JFloat r) = True"
| "encodable JNonFinite = False"
| "encodable (JStr s) = True"
| "encodable (JList xs) = list_all id (map encodable xs)"
| "encodable (JDict kvs) = list_all snd (map (map_prod id encodable) kvs)"
| "encodable JOther = False"

section \<open>Field names\<close>

definition credential_parts :: "pystr list" where
  "credential_parts = map lit
     [''apikey'', ''bearer'', ''cookie'', ''credential'', ''csrf'', ''password'', ''passwd'',
      ''secret'', ''sessionid'', ''token'', ''authorization'', ''authentication'',
      ''privatekey'', ''accesskey'', ''authheader'', ''authkey'']"

definition ascii_lower :: "nat \<Rightarrow> nat" where
  "ascii_lower c = (if 65 \<le> c \<and> c \<le> 90 then c + 32 else c)"

definition ascii_alnum :: "nat \<Rightarrow> bool" where
  "ascii_alnum c \<longleftrightarrow> 48 \<le> c \<and> c \<le> 57 \<or> 65 \<le> c \<and> c \<le> 90 \<or> 97 \<le> c \<and> c \<le> 122"

definition printable_name :: "pystr \<Rightarrow> bool" where
  "printable_name key \<longleftrightarrow> key \<noteq> [] \<and> length key \<le> 128 \<and> list_all (\<lambda>c. c < 128) key
     \<and> \<not> list_ex is_control key"

definition normalized_name :: "pystr \<Rightarrow> pystr" where
  "normalized_name key = filter ascii_alnum (map ascii_lower key)"

definition credential_shaped :: "pystr \<Rightarrow> bool" where
  "credential_shaped key \<longleftrightarrow>
     list_ex (\<lambda>part. sublist part (normalized_name key)) credential_parts
     \<or> suffix (lit ''auth'') (normalized_name key)"

definition name_ok :: "pystr \<Rightarrow> bool" where
  "name_ok key \<longleftrightarrow> printable_name key \<and> \<not> credential_shaped key"

section \<open>The traversal\<close>

definition max_json_depth :: nat where "max_json_depth = 32"
definition max_json_nodes :: nat where "max_json_nodes = 2048"

text \<open>
  The stack of \<open>(item, depth)\<close> pairs has its top at the head: Python appends the children in
  order and pops the last one. The result is the message of the raised \<open>StoreInvalid\<close>, if any.
\<close>

function scan_json :: "nat \<Rightarrow> (json \<times> nat) list \<Rightarrow> nat \<Rightarrow> string option" where
  "scan_json limit [] nodes = None"
| "scan_json limit ((item, depth) # stack) nodes =
     (let n = Suc nodes in
      if max_json_nodes < n \<or> max_json_depth < depth then Some ''payload too complex''
      else case item of
        JDict kvs \<Rightarrow>
          if int max_json_nodes - int n - int (length stack) < int (length kvs) then Some ''payload too complex''
          else if \<not> list_all (\<lambda>(k, v). name_ok k) kvs then Some ''invalid payload''
          else scan_json limit (rev (map (\<lambda>(k, v). (v, Suc depth)) kvs) @ stack) n
      | JList xs \<Rightarrow>
          if int max_json_nodes - int n - int (length stack) < int (length xs) then Some ''payload too complex''
          else scan_json limit (rev (map (\<lambda>v. (v, Suc depth)) xs) @ stack) n
      | JOther \<Rightarrow> Some ''invalid payload''
      | JStr s \<Rightarrow> if limit < length s then Some ''payload too large'' else scan_json limit stack n
      | _ \<Rightarrow> scan_json limit stack n)"
  by pat_completeness auto
termination
  by (relation "measure (\<lambda>(limit, stack, nodes). Suc max_json_nodes - nodes)")
     (auto simp: Let_def)

declare scan_json.simps(2) [simp del]

definition validate_json :: "json \<Rightarrow> nat \<Rightarrow> string + pystr" where
  "validate_json value limit =
     (case scan_json limit [(value, 0)] 0 of
        Some message \<Rightarrow> Inl message
      | None \<Rightarrow>
          if \<not> encodable value then Inl ''invalid payload''
          else if limit < length (dumps value) then Inl ''payload too large''
          else Inr (dumps value))"

section \<open>Reference predicate\<close>

text \<open>Number of values in a payload, and the recursive conditions at a given depth.\<close>

primrec node_count :: "json \<Rightarrow> nat" where
  "node_count JNull = 1"
| "node_count (JBool b) = 1"
| "node_count (JInt i) = 1"
| "node_count (JFloat r) = 1"
| "node_count JNonFinite = 1"
| "node_count (JStr s) = 1"
| "node_count (JList xs) = Suc (sum_list (map node_count xs))"
| "node_count (JDict kvs) = Suc (sum_list (map snd (map (map_prod id node_count) kvs)))"
| "node_count JOther = 1"

primrec well_shaped :: "json \<Rightarrow> nat \<Rightarrow> nat \<Rightarrow> bool" where
  "well_shaped JNull = (\<lambda>limit depth. depth \<le> max_json_depth)"
| "well_shaped (JBool b) = (\<lambda>limit depth. depth \<le> max_json_depth)"
| "well_shaped (JInt i) = (\<lambda>limit depth. depth \<le> max_json_depth)"
| "well_shaped (JFloat r) = (\<lambda>limit depth. depth \<le> max_json_depth)"
| "well_shaped JNonFinite = (\<lambda>limit depth. depth \<le> max_json_depth)"
| "well_shaped (JStr s) = (\<lambda>limit depth. depth \<le> max_json_depth \<and> length s \<le> limit)"
| "well_shaped (JList xs) = (\<lambda>limit depth. depth \<le> max_json_depth
     \<and> list_all (\<lambda>p. p limit (Suc depth)) (map well_shaped xs))"
| "well_shaped (JDict kvs) = (\<lambda>limit depth. depth \<le> max_json_depth
     \<and> list_all (\<lambda>(k, p). name_ok k \<and> p limit (Suc depth)) (map (map_prod id well_shaped) kvs))"
| "well_shaped JOther = (\<lambda>limit depth. False)"

lemma node_count_pos [simp]: "0 < node_count v"
  by (cases v) auto

lemma sum_list_ge_length: "(\<And>x. x \<in> set xs \<Longrightarrow> 0 < f x) \<Longrightarrow> length xs \<le> sum_list (map f xs)" for f :: "'a \<Rightarrow> nat"
  by (induction xs) (fastforce simp: Suc_le_eq add_less_le_mono)+

definition stack_nodes :: "(json \<times> nat) list \<Rightarrow> nat" where
  "stack_nodes stack = sum_list (map (\<lambda>(v, d). node_count v) stack)"

lemma stack_nodes_simps [simp]:
  "stack_nodes [] = 0" "stack_nodes ((v, d) # st) = node_count v + stack_nodes st"
  "stack_nodes (a @ b) = stack_nodes a + stack_nodes b" "stack_nodes (rev a) = stack_nodes a"
  by (simp_all add: stack_nodes_def rev_map [symmetric] sum_list_rev)

lemma stack_nodes_map [simp]:
  "stack_nodes (map (\<lambda>v. (v, d)) xs) = sum_list (map node_count xs)"
  "stack_nodes (map (\<lambda>(k, v). (v, d)) kvs) = sum_list (map (node_count \<circ> snd) kvs)"
  by (induction xs) (simp_all, induction kvs, auto)

lemma length_le_stack_nodes: "length st \<le> stack_nodes st"
  unfolding stack_nodes_def by (rule sum_list_ge_length) auto

abbreviation stack_ok :: "nat \<Rightarrow> (json \<times> nat) list \<Rightarrow> bool" where
  "stack_ok limit stack \<equiv> list_all (\<lambda>(v, d). well_shaped v limit d) stack"

section \<open>The loop and the reference predicate agree\<close>

lemma well_shaped_depth: "well_shaped v limit d \<Longrightarrow> d \<le> max_json_depth"
  by (cases v) auto

lemma list_all_well_shaped_items:
  "list_all (\<lambda>(k, p). name_ok k \<and> p limit d) (map (map_prod id well_shaped) kvs)
     \<longleftrightarrow> list_all (\<lambda>(k, v). name_ok k) kvs \<and> stack_ok limit (map (\<lambda>(k, v). (v, d)) kvs)"
  by (induction kvs) auto

lemma list_all_well_shaped_list:
  "list_all (\<lambda>p. p limit d) (map well_shaped xs) \<longleftrightarrow> stack_ok limit (map (\<lambda>v. (v, d)) xs)"
  by (induction xs) auto

lemma sum_node_items: "sum_list (map snd (map (map_prod id node_count) kvs)) = sum_list (map (node_count \<circ> snd) kvs)"
  by (induction kvs) auto

lemma items_le_nodes:
  "length kvs \<le> sum_list (map (node_count \<circ> snd) kvs)" "length xs \<le> sum_list (map node_count xs)"
  by (rule sum_list_ge_length, simp)+

text \<open>
  The early size test of the loop never rejects a payload that fits: the children about to be
  pushed are counted in the remaining nodes anyway.
\<close>

lemma scan_json_iff:
  "scan_json limit stack nodes = None
     \<longleftrightarrow> (stack = [] \<or> nodes + stack_nodes stack \<le> max_json_nodes) \<and> stack_ok limit stack"
proof (induction limit stack nodes rule: scan_json.induct)
  case (1 limit nodes)
  then show ?case by simp
next
  case (2 limit item depth stack nodes)
  have len: "length stack \<le> stack_nodes stack" by (rule length_le_stack_nodes)
  obtain k where pos: "node_count item = Suc k"
    using node_count_pos [of item] by (cases "node_count item") auto
  show ?case
  proof (cases "max_json_nodes < Suc nodes \<or> max_json_depth < depth")
    case True
    with len pos show ?thesis
      by (auto simp: scan_json.simps(2) dest: well_shaped_depth)
  next
    case False
    show ?thesis
    proof (cases item)
      case (JDict kvs)
      with 2 False len items_le_nodes(1)[of kvs] show ?thesis
        by (auto simp: scan_json.simps(2) list_all_well_shaped_items sum_node_items Let_def)
    next
      case (JList xs)
      with 2 False len items_le_nodes(2)[of xs] show ?thesis
        by (auto simp: scan_json.simps(2) list_all_well_shaped_list Let_def)
    qed (use 2 False len in \<open>auto simp: scan_json.simps(2) Let_def\<close>)
  qed
qed

lemma scan_json_top: "scan_json limit [(v, 0)] 0 = None \<longleftrightarrow> node_count v \<le> max_json_nodes \<and> well_shaped v limit 0"
  by (simp add: scan_json_iff)

lemma validate_json_Inr_iff:
  "validate_json v limit = Inr enc \<longleftrightarrow>
     node_count v \<le> max_json_nodes \<and> well_shaped v limit 0 \<and> encodable v
     \<and> length (dumps v) \<le> limit \<and> enc = dumps v"
proof (cases "scan_json limit [(v, 0)] 0")
  case None
  with scan_json_top [of limit v] show ?thesis
    by (auto simp: validate_json_def)
next
  case (Some m)
  with scan_json_top [of limit v] show ?thesis
    by (auto simp: validate_json_def)
qed

lemma validate_json_Inr_D: "validate_json v limit = Inr enc \<Longrightarrow> enc = dumps v"
  by (simp add: validate_json_Inr_iff)

section \<open>Field names anywhere in a payload\<close>

text \<open>All field names of a payload, at every depth.\<close>

primrec field_names :: "json \<Rightarrow> pystr list" where
  "field_names JNull = []"
| "field_names (JBool b) = []"
| "field_names (JInt i) = []"
| "field_names (JFloat r) = []"
| "field_names JNonFinite = []"
| "field_names (JStr s) = []"
| "field_names (JList xs) = concat (map field_names xs)"
| "field_names (JDict kvs) = concat (map (\<lambda>(k, ns). k # ns) (map (map_prod id field_names) kvs))"
| "field_names JOther = []"

lemma well_shaped_names:
  "well_shaped v limit d \<Longrightarrow> k \<in> set (field_names v) \<Longrightarrow> name_ok k"
proof (induction v arbitrary: d)
  case (JList xs)
  then show ?case by (fastforce simp: list_all_iff)
next
  case (JDict kvs)
  from JDict.prems(2) obtain k' w where kw: "(k', w) \<in> set kvs" "k = k' \<or> k \<in> set (field_names w)"
    by auto
  from JDict.prems(1) kw(1) have "name_ok k'" "well_shaped w limit (Suc d)"
    by (fastforce simp: list_all_iff)+
  with kw JDict.IH [of "(k', w)" w "Suc d"] show ?case by auto
qed auto

text \<open>C30. The JSON guard accepts a payload exactly when it has at most 2048 nodes, nesting depth
  at most 32, only clean field names and bounded strings, finite numbers, integers of at most 4300 digits and no
  foreign objects, and an encoding within the limit; the value it returns is that canonical encoding. This is the iterative
  traversal with its early size tests against the recursive description.\<close>

theorem validate_json_accepts_exactly:
  "(\<exists>enc. validate_json v limit = Inr enc) \<longleftrightarrow>
     node_count v \<le> max_json_nodes \<and> well_shaped v limit 0 \<and> encodable v
     \<and> length (dumps v) \<le> limit"
  by (simp add: validate_json_Inr_iff)

text \<open>A payload that passes the guard has no credential-shaped field name at any depth: no name
  whose letters and digits, in lower case, contain one of the reserved words or end in \<open>auth\<close>,
  whatever separators or case hide it.\<close>

theorem validated_payload_has_no_credential_name:
  assumes "validate_json v limit = Inr enc" and "k \<in> set (field_names v)"
  shows "\<not> credential_shaped k \<and> k \<noteq> [] \<and> length k \<le> 128"
  using assms well_shaped_names [of v limit 0 k]
  by (auto simp: validate_json_Inr_iff name_ok_def printable_name_def)

theorem validated_payload_has_no_credential_name_witness:
  "\<not> credential_shaped (lit ''text'') \<and> lit ''text'' \<noteq> [] \<and> length (lit ''text'') \<le> 128"
proof -
  let ?v = "JDict [(lit ''reply'', JList [JDict [(lit ''text'', JStr (lit ''ok''))]])]"
  have "validate_json ?v 100 = Inr (dumps ?v)" by code_simp
  moreover have "lit ''text'' \<in> set (field_names ?v)" by code_simp
  ultimately show ?thesis by (rule validated_payload_has_no_credential_name)
qed

lemma hidden_credential_names_rejected:
  "validate_json (JList [JDict [(lit ''X-Auth Token'', JNull)]]) 1000 = Inl ''invalid payload''"
  "validate_json (JDict [(lit ''Proxy_Auth'', JNull)]) 1000 = Inl ''invalid payload''"
  by code_simp+

end
