(* ===== verification/BusinessTasks.thy ===== *)
theory BusinessTasks
  imports JsonGuard
begin

text \<open>
  Identities of call-scoped business tasks, \<open>voice/native-bridge/business_tasks.py\<close>: the store's
  exceptions, bounded identifiers, and the validation a \<open>Scope\<close> and an \<open>Agent\<close> run when they are
  constructed. Arguments are typed, so the source's \<open>isinstance\<close> rejections of other Python types
  have no counterpart here.
\<close>

datatype store_error =
    StoreConflict string
  | StoreCapacity string
  | StoreDenied string
  | StoreInvalid string
  | IntegrityError  \<comment> \<open>raised by SQLite for a violated \<open>PRIMARY KEY\<close> or \<open>UNIQUE\<close>\<close>

definition bounded_identifier :: "bool \<Rightarrow> pystr \<Rightarrow> store_error + pystr" where
  "bounded_identifier optional value =
     (if 128 < length value \<or> (\<not> optional \<and> value = []) then Inl (StoreInvalid ''invalid identifier'')
      else if list_ex is_control value then Inl (StoreInvalid ''invalid identifier'')
      else Inr value)"

abbreviation identifier_ok :: "pystr \<Rightarrow> bool" where
  "identifier_ok v \<equiv> is_ok (bounded_identifier False v)"

record scope =
  scope_id :: pystr
  call_id :: pystr
  call_generation :: int
  instance_id :: pystr
  assistant_id :: pystr
  principal_id :: pystr

record agent =
  agent_alias :: pystr
  agent_id :: pystr
  agent_revision :: pystr
  agent_capabilities :: "(pystr \<times> bool) list"
  agent_name :: pystr
  agent_description :: pystr
  agent_intents :: "pystr list"
  agent_routing_aliases :: "pystr list"

text \<open>\<open>Scope.__post_init__\<close>: the first failing check decides.\<close>

definition scope_post_init :: "scope \<Rightarrow> store_error + scope" where
  "scope_post_init s =
     (if \<not> list_all identifier_ok [scope_id s, call_id s, instance_id s, assistant_id s]
      then Inl (StoreInvalid ''invalid identifier'')
      else if \<not> is_ok (bounded_identifier True (principal_id s)) then Inl (StoreInvalid ''invalid identifier'')
      else if call_generation s < 0 then Inl (StoreInvalid ''invalid call generation'')
      else Inr s)"

text \<open>
  \<open>Agent.__post_init__\<close>. \<open>strip\<close> and \<open>casefold\<close> are Python's string methods on arbitrary Unicode
  text; they are arguments of the definition.
\<close>

definition agent_post_init :: "(pystr \<Rightarrow> pystr) \<Rightarrow> (pystr \<Rightarrow> pystr) \<Rightarrow> agent \<Rightarrow> store_error + agent" where
  "agent_post_init strip casefold a =
     (if \<not> list_all identifier_ok [agent_alias a, agent_id a, agent_revision a]
      then Inl (StoreInvalid ''invalid identifier'')
      else if agent_capabilities a = [] then Inl (StoreInvalid ''invalid capabilities'')
      else if \<not> list_all (identifier_ok \<circ> fst) (agent_capabilities a) then Inl (StoreInvalid ''invalid identifier'')
      else if 80 < length (agent_name a) \<or> list_ex is_control (agent_name a)
           \<or> 400 < length (agent_description a) \<or> list_ex is_control (agent_description a)
      then Inl (StoreInvalid ''invalid agent description'')
      else if 16 < length (agent_intents a)
           \<or> list_ex (\<lambda>v. v = [] \<or> 64 < length v \<or> list_ex is_control v) (agent_intents a)
      then Inl (StoreInvalid ''invalid agent intents'')
      else if 16 < length (agent_routing_aliases a)
           \<or> list_ex (\<lambda>v. strip v = [] \<or> 80 < length v \<or> list_ex is_control v) (agent_routing_aliases a)
           \<or> \<not> distinct (map casefold (agent_routing_aliases a))
      then Inl (StoreInvalid ''invalid routing aliases'')
      else Inr a)"

lemma bounded_identifier_Inr_iff:
  "bounded_identifier opt v = Inr w \<longleftrightarrow> w = v \<and> length v \<le> 128 \<and> (opt \<or> v \<noteq> []) \<and> \<not> list_ex is_control v"
  by (auto simp: bounded_identifier_def)

lemma identifier_ok_iff: "identifier_ok v \<longleftrightarrow> v \<noteq> [] \<and> length v \<le> 128 \<and> \<not> list_ex is_control v"
  by (auto simp: bounded_identifier_Inr_iff)

end
