(* ===== verification/TaskStore.thy ===== *)
theory TaskStore
  imports BusinessTasks
begin

text \<open>
  The durable task journal, \<open>voice/native-bridge/task_store.py\<close>. The SQLite database is a record of
  tables, each the list of its rows in \<open>rowid\<close> order; a method is a function from the database to
  \<open>Inl\<close> of the raised exception (the transaction is rolled back, so there is no new database) or
  \<open>Inr\<close> of the returned value and the committed database. Fresh identifiers (\<open>_new_id\<close>) and
  timestamps (\<open>_now\<close>) are arguments. Columns that hold JSON text hold the canonical encoding;
  \<open>capabilities\<close> and \<open>receipt\<close>, which the code decodes again, hold the items of the dict. The
  \<open>fingerprint\<close> column, a digest of the payload column of the same row, is not repeated.
  \<open>CREATE TABLE\<close>, pragmas and the additive migration are the initial state \<open>init_db\<close>.
\<close>

section \<open>Tables\<close>

datatype task_state =
    Queued | Running | AwaitingInput | Succeeded | Failed | TaskCancelled | CancelRequested | OutcomeUnknown

datatype dispatch_state =
    Unsubmitted | Submitted | Suspended | OpCancelled | Settled | Unknown

record scope_row =
  sc_id :: pystr
  sc_call :: pystr
  sc_generation :: int
  sc_instance :: pystr
  sc_assistant :: pystr
  sc_principal :: pystr
  sc_attached :: bool

record task_row =
  tk_id :: pystr
  tk_scope :: pystr
  tk_alias :: pystr
  tk_agent :: pystr
  tk_revision :: pystr
  tk_capabilities :: "(pystr \<times> bool) list"
  tk_objective :: pystr
  tk_version :: nat
  tk_state :: task_state
  tk_question :: "pystr option"
  tk_result :: nat
  tk_created :: pystr
  tk_updated :: pystr

record op_row =
  op_id :: pystr
  op_task :: pystr
  op_utterance :: pystr
  op_version :: nat
  op_kind :: pystr
  op_text :: pystr
  op_voice :: pystr
  op_payload :: pystr
  op_state :: dispatch_state
  op_request :: "pystr option"
  op_execution :: "pystr option"
  op_receipt :: "(pystr \<times> json) list option"
  op_replies :: "pystr option"
  op_evidence :: "pystr option"
  op_outcome :: "task_state option"
  op_reason :: "pystr option"
  op_created :: pystr
  op_submitted :: "pystr option"
  op_settled :: "pystr option"

record inbox_row =
  in_event :: pystr
  in_op :: pystr
  in_type :: pystr
  in_payload :: pystr

record event_row =
  ev_seq :: nat
  ev_id :: pystr
  ev_task :: pystr
  ev_op :: "pystr option"
  ev_type :: pystr
  ev_version :: nat
  ev_payload :: pystr
  ev_source :: pystr

record command_row =
  cm_id :: pystr
  cm_task :: pystr
  cm_scope :: pystr
  cm_text :: pystr

record question_row =
  q_scope :: pystr
  q_task :: pystr
  q_text :: pystr
  q_source :: pystr
  q_version :: nat
  q_id :: pystr

record dispatch_row =
  od_op :: pystr
  od_task_ref :: pystr
  od_command :: pystr
  od_sequence :: int

record owned_event_row =
  oe_op :: pystr
  oe_seq :: int
  oe_event :: pystr

record db =
  scopes :: "scope_row list"
  tasks :: "task_row list"
  operations :: "op_row list"
  inbox :: "inbox_row list"
  events :: "event_row list"
  commands :: "command_row list"
  questions :: "question_row list"
  dispatches :: "dispatch_row list"
  owned_events :: "owned_event_row list"

definition init_db :: db where
  "init_db = \<lparr>scopes = [], tasks = [], operations = [], inbox = [], events = [], commands = [],
     questions = [], dispatches = [], owned_events = []\<rparr>"

type_synonym 'r outcome = "store_error + 'r \<times> db"

section \<open>Shared helpers\<close>

definition guard_json :: "json \<Rightarrow> nat \<Rightarrow> store_error + pystr" where
  "guard_json value limit = (case validate_json value limit of Inl m \<Rightarrow> Inl (StoreInvalid m) | Inr enc \<Rightarrow> Inr enc)"

definition ref_char :: "nat \<Rightarrow> bool" where
  "ref_char c \<longleftrightarrow> ascii_alnum c \<or> c \<in> {95, 46, 58, 45}"

text \<open>\<open>[A-Za-z0-9][A-Za-z0-9_.:-]{0,127}\<close>\<close>

definition is_ref :: "pystr \<Rightarrow> bool" where
  "is_ref v \<longleftrightarrow> v \<noteq> [] \<and> ascii_alnum (hd v) \<and> list_all ref_char (tl v) \<and> length v \<le> 128"

definition receipt_ref :: "bool \<Rightarrow> pystr \<Rightarrow> store_error + pystr" where
  "receipt_ref optional v =
     (if optional \<and> v = [] then Inr v
      else if \<not> is_ref v then Inl (StoreInvalid ''invalid receipt reference'') else Inr v)"

definition add_event ::
  "pystr \<Rightarrow> pystr option \<Rightarrow> pystr \<Rightarrow> nat \<Rightarrow> json \<Rightarrow> pystr \<Rightarrow> pystr \<Rightarrow> db \<Rightarrow> store_error + db" where
  "add_event tid oid ty version payload source eid d =
     (case guard_json payload 16384 of
        Inl e \<Rightarrow> Inl e
      | Inr encoded \<Rightarrow>
          if eid \<in> ev_id ` set (events d) then Inl IntegrityError
          else Inr (d\<lparr>events := events d @ [\<lparr>ev_seq = Suc (length (events d)), ev_id = eid, ev_task = tid,
                 ev_op = oid, ev_type = ty, ev_version = version, ev_payload = encoded, ev_source = source\<rparr>]\<rparr>))"

definition store_source :: pystr where "store_source = lit ''store''"

definition find_task :: "pystr \<Rightarrow> db \<Rightarrow> task_row option" where
  "find_task tid d = row_by tk_id tid (tasks d)"

definition find_op :: "pystr \<Rightarrow> db \<Rightarrow> op_row option" where
  "find_op oid d = row_by op_id oid (operations d)"

definition find_scope :: "pystr \<Rightarrow> db \<Rightarrow> scope_row option" where
  "find_scope sid d = row_by sc_id sid (scopes d)"

definition task_row :: "pystr \<Rightarrow> pystr \<Rightarrow> db \<Rightarrow> store_error + task_row" where
  "task_row tid sid d =
     (case find_task tid d of
        None \<Rightarrow> Inl (StoreDenied ''task unavailable'')
      | Some t \<Rightarrow> if tk_scope t \<noteq> sid then Inl (StoreDenied ''task unavailable'') else Inr t)"

definition scope_attached :: "pystr \<Rightarrow> db \<Rightarrow> bool" where
  "scope_attached sid d = (case find_scope sid d of None \<Rightarrow> False | Some s \<Rightarrow> sc_attached s)"

text \<open>A task snapshot is the task's row with the row of its scope, an operation snapshot its row.\<close>

type_synonym task_snap = "task_row \<times> scope_row option"

definition task_snapshot :: "db \<Rightarrow> task_row \<Rightarrow> task_snap" where
  "task_snapshot d t = (t, find_scope (tk_scope t) d)"

definition snapshot_of :: "pystr \<Rightarrow> db \<Rightarrow> task_snap option" where
  "snapshot_of tid d = map_option (task_snapshot d) (find_task tid d)"

definition update_task :: "pystr \<Rightarrow> (task_row \<Rightarrow> task_row) \<Rightarrow> db \<Rightarrow> db" where
  "update_task tid f d = d\<lparr>tasks := update_where (\<lambda>t. tk_id t = tid) f (tasks d)\<rparr>"

definition update_op :: "pystr \<Rightarrow> (op_row \<Rightarrow> op_row) \<Rightarrow> db \<Rightarrow> db" where
  "update_op oid f d = d\<lparr>operations := update_where (\<lambda>r. op_id r = oid) f (operations d)\<rparr>"

definition drop_questions :: "(question_row \<Rightarrow> bool) \<Rightarrow> db \<Rightarrow> db" where
  "drop_questions P d = d\<lparr>questions := filter (\<lambda>q. \<not> P q) (questions d)\<rparr>"

text \<open>\<open>INSERT OR REPLACE INTO scope_questions\<close>: the primary key is the scope.\<close>

definition put_question :: "question_row \<Rightarrow> db \<Rightarrow> db" where
  "put_question q d = d\<lparr>questions := filter (\<lambda>r. q_scope r \<noteq> q_scope q) (questions d) @ [q]\<rparr>"

definition op_in_scope :: "db \<Rightarrow> pystr \<Rightarrow> op_row \<Rightarrow> bool" where
  "op_in_scope d sid w = (case find_task (op_task w) d of None \<Rightarrow> False | Some t \<Rightarrow> tk_scope t = sid)"

definition current_question :: "pystr \<Rightarrow> db \<Rightarrow> question_row option" where
  "current_question sid d = (if scope_attached sid d then row_by q_scope sid (questions d) else None)"

definition question :: "pystr \<Rightarrow> db \<Rightarrow> store_error + question_row option" where
  "question sid d =
     (case bounded_identifier False sid of Inl e \<Rightarrow> Inl e | Inr _ \<Rightarrow> Inr (current_question sid d))"

section \<open>Creating tasks\<close>

definition same_binding :: "scope_row \<Rightarrow> scope \<Rightarrow> bool" where
  "same_binding r s \<longleftrightarrow> sc_call r = call_id s \<and> sc_generation r = call_generation s
     \<and> sc_instance r = instance_id s \<and> sc_assistant r = assistant_id s \<and> sc_principal r = principal_id s"

text \<open>The scope part of \<open>create_task\<close>: insert the scope, or require the same binding and attachment.\<close>

definition new_scope_row :: "scope \<Rightarrow> scope_row" where
  "new_scope_row s = \<lparr>sc_id = scope_id s, sc_call = call_id s, sc_generation = call_generation s,
     sc_instance = instance_id s, sc_assistant = assistant_id s, sc_principal = principal_id s, sc_attached = True\<rparr>"

definition bind_scope :: "scope \<Rightarrow> db \<Rightarrow> store_error + db" where
  "bind_scope s d =
     (case find_scope (scope_id s) d of
        None \<Rightarrow> Inr (d\<lparr>scopes := scopes d @ [new_scope_row s]\<rparr>)
      | Some r \<Rightarrow> if \<not> same_binding r s then Inl (StoreConflict ''scope binding conflict'')
                  else if \<not> sc_attached r then Inl (StoreDenied ''scope detached'') else Inr d)"

definition scope_task_count :: "pystr \<Rightarrow> db \<Rightarrow> nat" where
  "scope_task_count sid d = length (filter (\<lambda>t. tk_scope t = sid) (tasks d))"

definition capabilities_json :: "(pystr \<times> bool) list \<Rightarrow> json" where
  "capabilities_json caps = JDict (map (map_prod id JBool) caps)"

definition new_task_row :: "scope \<Rightarrow> agent \<Rightarrow> pystr \<Rightarrow> pystr \<Rightarrow> pystr \<Rightarrow> task_row" where
  "new_task_row s a objective identifier now =
     \<lparr>tk_id = identifier, tk_scope = scope_id s, tk_alias = agent_alias a, tk_agent = agent_id a,
      tk_revision = agent_revision a, tk_capabilities = agent_capabilities a, tk_objective = objective,
      tk_version = 0, tk_state = Queued, tk_question = None, tk_result = 0,
      tk_created = now, tk_updated = now\<rparr>"

definition create_task ::
  "scope \<Rightarrow> agent \<Rightarrow> pystr \<Rightarrow> pystr option \<Rightarrow> pystr \<Rightarrow> pystr \<Rightarrow> pystr \<Rightarrow> db \<Rightarrow> task_snap outcome" where
  "create_task s a objective given_id now new_id event_id d =
     (if objective = [] \<or> 4000 < length objective then Inl (StoreInvalid ''invalid objective'')
      else case (case given_id of None \<Rightarrow> Inr new_id | Some i \<Rightarrow> bounded_identifier False i) of
        Inl e \<Rightarrow> Inl e
      | Inr identifier \<Rightarrow>
     (case guard_json (capabilities_json (agent_capabilities a)) 4096 of
        Inl e \<Rightarrow> Inl e
      | Inr _ \<Rightarrow>
     (case bind_scope s d of
        Inl e \<Rightarrow> Inl e
      | Inr d1 \<Rightarrow>
          if 8 \<le> scope_task_count (scope_id s) d1 then Inl (StoreCapacity ''task capacity reached'')
          else if identifier \<in> tk_id ` set (tasks d1) then Inl (StoreConflict ''task identity conflict'')
          else
            let t = new_task_row s a objective identifier now in
            case add_event identifier None (lit ''task_created'') 0 (JDict [(lit ''objective'', JStr objective)])
                   store_source event_id (d1\<lparr>tasks := tasks d1 @ [t]\<rparr>) of
              Inl e \<Rightarrow> Inl e
            | Inr d2 \<Rightarrow> Inr (task_snapshot d2 t, d2))))"

section \<open>Reads\<close>

definition get_task :: "pystr \<Rightarrow> pystr \<Rightarrow> db \<Rightarrow> store_error + task_snap" where
  "get_task tid sid d = (case task_row tid sid d of Inl e \<Rightarrow> Inl e | Inr t \<Rightarrow> Inr (task_snapshot d t))"

definition list_tasks :: "pystr \<Rightarrow> db \<Rightarrow> store_error + task_snap list" where
  "list_tasks sid d =
     (case bounded_identifier False sid of
        Inl e \<Rightarrow> Inl e
      | Inr _ \<Rightarrow> Inr (map (task_snapshot d)
          (sort_key (\<lambda>t. (tk_created t, tk_id t)) (filter (\<lambda>t. tk_scope t = sid) (tasks d)))))"

definition scope_operations :: "pystr \<Rightarrow> db \<Rightarrow> store_error + op_row list" where
  "scope_operations sid d =
     (case bounded_identifier False sid of
        Inl e \<Rightarrow> Inl e
      | Inr _ \<Rightarrow> Inr (filter (op_in_scope d sid) (operations d)))"

definition pending :: "pystr \<Rightarrow> db \<Rightarrow> store_error + op_row list" where
  "pending sid d =
     (case bounded_identifier False sid of
        Inl e \<Rightarrow> Inl e
      | Inr _ \<Rightarrow> Inr (filter (\<lambda>r. op_in_scope d sid r \<and> scope_attached sid d \<and> op_state r = Unsubmitted)
                       (operations d)))"

definition has_unresolved :: "db \<Rightarrow> bool" where
  "has_unresolved d = list_ex (\<lambda>r. op_state r \<in> {Submitted, Unknown}) (operations d)"

definition events_after :: "pystr \<Rightarrow> pystr \<Rightarrow> int \<Rightarrow> db \<Rightarrow> store_error + event_row list" where
  "events_after tid sid after d =
     (if after < 0 then Inl (StoreInvalid ''invalid event cursor'')
      else case task_row tid sid d of
        Inl e \<Rightarrow> Inl e
      | Inr _ \<Rightarrow> Inr (filter (\<lambda>e. ev_task e = tid \<and> after < int (ev_seq e)) (events d)))"

text \<open>
  \<open>routing_checkpoint\<close>: per task its identity, version, whether it is closed, its agent binding,
  sorted capabilities, open question and the latest operation (a later row overwrites an earlier one).
\<close>

definition closed_states :: "task_state list" where
  "closed_states = [Succeeded, Failed, TaskCancelled, CancelRequested, OutcomeUnknown]"

record task_mark =
  tm_id :: pystr
  tm_version :: nat
  tm_closed :: bool
  tm_binding :: "pystr \<times> pystr \<times> pystr"
  tm_capabilities :: "(pystr \<times> bool) list"
  tm_question :: "pystr option"
  tm_latest :: "(pystr \<times> nat) option"

record checkpoint =
  cp_scope_id :: pystr
  cp_scope :: "scope_row option"
  cp_tasks :: "task_mark list"
  cp_question :: "question_row option"

definition latest_operation :: "pystr \<Rightarrow> op_row list \<Rightarrow> (pystr \<times> nat) option" where
  "latest_operation tid rows =
     map_option (\<lambda>r. (op_id r, op_version r)) (row_by op_task tid (rev rows))"

definition mark_task :: "op_row list \<Rightarrow> task_row \<Rightarrow> task_mark" where
  "mark_task rows t =
     \<lparr>tm_id = tk_id t, tm_version = tk_version t, tm_closed = tk_state t \<in> set closed_states,
      tm_binding = (tk_alias t, tk_agent t, tk_revision t),
      tm_capabilities = sort_key fst (tk_capabilities t), tm_question = tk_question t,
      tm_latest = latest_operation (tk_id t) rows\<rparr>"

definition routing_checkpoint :: "pystr \<Rightarrow> db \<Rightarrow> store_error + checkpoint" where
  "routing_checkpoint sid d =
     (case bounded_identifier False sid of
        Inl e \<Rightarrow> Inl e
      | Inr _ \<Rightarrow>
          Inr \<lparr>cp_scope_id = sid, cp_scope = find_scope sid d,
               cp_tasks = map (mark_task (filter (op_in_scope d sid) (operations d)))
                 (sort_key (\<lambda>t. (tk_created t, tk_id t)) (filter (\<lambda>t. tk_scope t = sid) (tasks d))),
               cp_question = current_question sid d\<rparr>)"

text \<open>
  \<open>_check_preconditions\<close>: an expected checkpoint, if given, must still hold; \<open>authority\<close>, if given,
  is the answer of the coordinator's callback inside the transaction.
\<close>

definition check_preconditions :: "pystr \<Rightarrow> checkpoint option \<Rightarrow> bool option \<Rightarrow> db \<Rightarrow> store_error option" where
  "check_preconditions sid expected authority d =
     (case (case expected of
              None \<Rightarrow> None
            | Some c \<Rightarrow> (case routing_checkpoint sid d of
                Inl e \<Rightarrow> Some e
              | Inr c' \<Rightarrow> if c \<noteq> c' then Some (StoreConflict ''routing checkpoint changed'') else None)) of
        Some e \<Rightarrow> Some e
      | None \<Rightarrow> if authority = Some False then Some (StoreConflict ''routing authority changed'') else None)"

section \<open>Accepting utterances\<close>

definition business_kinds :: "pystr list" where
  "business_kinds = map lit [''continue_task'', ''amend_task'', ''new_task'', ''cancel_task'']"

definition voice_keys :: "pystr list" where
  "voice_keys = map lit [''language'', ''assistant_id'', ''profile'']"

definition voice_json :: "(pystr \<times> pystr) list \<Rightarrow> json" where
  "voice_json ctx = JDict (map (map_prod id JStr) ctx)"

definition question_json :: "question_row option \<Rightarrow> json" where
  "question_json q = (case q of None \<Rightarrow> JNull | Some r \<Rightarrow>
     JDict [(lit ''scope_id'', JStr (q_scope r)), (lit ''task_id'', JStr (q_task r)), (lit ''text'', JStr (q_text r)),
            (lit ''source'', JStr (q_source r)), (lit ''context_version'', JInt (int (q_version r))),
            (lit ''question_id'', JStr (q_id r))])"

definition open_states :: "dispatch_state list" where
  "open_states = [Unsubmitted, Submitted, Suspended, Unknown]"

definition open_count :: "pystr \<Rightarrow> db \<Rightarrow> nat" where
  "open_count sid d = length (filter (\<lambda>r. op_in_scope d sid r \<and> op_state r \<in> set open_states) (operations d))"

definition capability :: "pystr \<Rightarrow> task_row \<Rightarrow> bool" where
  "capability kind t = (case dict_get kind (tk_capabilities t) of None \<Rightarrow> False | Some b \<Rightarrow> b)"

text \<open>The commit half of \<open>accept\<close>, after every check: version bump, new row, event, question consumed.\<close>

definition accept_commit ::
  "task_row \<Rightarrow> pystr \<Rightarrow> pystr \<Rightarrow> pystr \<Rightarrow> pystr \<Rightarrow> (pystr \<times> pystr) list \<Rightarrow> pystr \<Rightarrow> pystr \<Rightarrow> pystr \<Rightarrow> pystr \<Rightarrow> db
     \<Rightarrow> op_row outcome" where
  "accept_commit t sid utterance text kind ctx encoded_ctx now new_id event_id d =
     (let version = Suc (tk_version t); tid = tk_id t in
      case guard_json (JDict [(lit ''kind'', JStr kind), (lit ''text'', JStr text),
             (lit ''voice_context'', voice_json ctx), (lit ''context_version'', JInt (int version))]) 16384 of
        Inl e \<Rightarrow> Inl e
      | Inr payload \<Rightarrow>
          if new_id \<in> op_id ` set (operations d) then Inl IntegrityError
          else
            let r = \<lparr>op_id = new_id, op_task = tid, op_utterance = utterance, op_version = version, op_kind = kind,
                     op_text = text, op_voice = encoded_ctx, op_payload = payload, op_state = Unsubmitted,
                     op_request = None, op_execution = None, op_receipt = None, op_replies = None,
                     op_evidence = None, op_outcome = None, op_reason = None, op_created = now,
                     op_submitted = None, op_settled = None\<rparr>;
                d1 = update_task tid (\<lambda>t. t\<lparr>tk_version := version, tk_updated := now\<rparr>) d;
                d2 = d1\<lparr>operations := operations d1 @ [r]\<rparr>;
                answered = (case current_question sid d2 of
                    None \<Rightarrow> None
                  | Some q \<Rightarrow> if q_task q \<noteq> tid \<or> q_version q \<noteq> tk_version t then None else Some q)
            in case add_event tid (Some new_id) (lit ''utterance_accepted'') version
                      (JDict [(lit ''kind'', JStr kind), (lit ''text'', JStr text),
                              (lit ''answered_question'', question_json answered)]) store_source event_id d2 of
                 Inl e \<Rightarrow> Inl e
               | Inr d3 \<Rightarrow>
                   Inr (r, update_task tid (\<lambda>t. t\<lparr>tk_question := None\<rparr>)
                             (drop_questions (\<lambda>q. q_scope q = sid \<and> q_task q = tid) d3)))"

definition accept ::
  "pystr \<Rightarrow> pystr \<Rightarrow> pystr \<Rightarrow> pystr \<Rightarrow> pystr \<Rightarrow> (pystr \<times> pystr) list option \<Rightarrow> checkpoint option \<Rightarrow> bool option
     \<Rightarrow> pystr \<Rightarrow> pystr \<Rightarrow> pystr \<Rightarrow> db \<Rightarrow> op_row outcome" where
  "accept tid sid utterance text kind voice expected authority now new_id event_id d =
     (let ctx = (case voice of None \<Rightarrow> [] | Some c \<Rightarrow> c) in
      if \<not> identifier_ok utterance then Inl (StoreInvalid ''invalid identifier'')
      else if kind \<notin> set business_kinds \<or> text = [] \<or> 4000 < length text then Inl (StoreInvalid ''invalid utterance'')
      else if \<not> list_all (\<lambda>(k, v). k \<in> set voice_keys) ctx then Inl (StoreInvalid ''invalid voice context'')
      else if list_ex (\<lambda>(k, v). v = [] \<or> 128 < length v) ctx then Inl (StoreInvalid ''invalid voice context'')
      else case guard_json (voice_json ctx) 512 of
        Inl e \<Rightarrow> Inl e
      | Inr encoded_ctx \<Rightarrow>
     (case task_row tid sid d of
        Inl e \<Rightarrow> Inl e
      | Inr t \<Rightarrow>
          if utterance \<in> cm_id ` set (commands d) then Inl (StoreConflict ''utterance identity conflict'')
          else if (case dict_get (lit ''assistant_id'') ctx of
                     None \<Rightarrow> False
                   | Some v \<Rightarrow> (case find_scope sid d of None \<Rightarrow> True | Some s \<Rightarrow> v \<noteq> sc_assistant s))
          then Inl (StoreInvalid ''invalid voice context'')
          else case row_by op_utterance utterance (operations d) of
            Some r \<Rightarrow>
              if op_task r = tid \<and> op_kind r = kind \<and> op_text r = text \<and> op_voice r = encoded_ctx then Inr (r, d)
              else Inl (StoreConflict ''utterance identity conflict'')
          | None \<Rightarrow>
             (case check_preconditions sid expected authority d of
                Some e \<Rightarrow> Inl e
              | None \<Rightarrow>
                  if \<not> capability kind t then Inl (StoreDenied ''agent capability unavailable'')
                  else if \<not> scope_attached sid d then Inl (StoreDenied ''scope detached'')
                  else if tk_state t \<in> set closed_states then Inl (StoreConflict ''task is terminal'')
                  else if 32 \<le> open_count sid d then Inl (StoreCapacity ''pending capacity reached'')
                  else accept_commit t sid utterance text kind ctx encoded_ctx now new_id event_id d)))"

text \<open>\<open>accept_new_task\<close>: creation and first utterance in one transaction, or the recorded retry.\<close>

definition accept_new_task ::
  "scope \<Rightarrow> agent \<Rightarrow> pystr \<Rightarrow> pystr \<Rightarrow> (pystr \<times> pystr) list option \<Rightarrow> checkpoint option \<Rightarrow> bool option
     \<Rightarrow> pystr \<Rightarrow> pystr \<Rightarrow> pystr \<Rightarrow> pystr \<Rightarrow> pystr \<Rightarrow> db \<Rightarrow> op_row outcome" where
  "accept_new_task s a utterance text voice expected authority now task_id create_event op_id' accept_event d =
     (case row_by op_utterance utterance (operations d) of
        Some r \<Rightarrow>
         (case task_row (op_task r) (scope_id s) d of
            Inl e \<Rightarrow> Inl e
          | Inr t \<Rightarrow>
              if (tk_alias t, tk_agent t, tk_revision t) \<noteq> (agent_alias a, agent_id a, agent_revision a)
              then Inl (StoreConflict ''agent binding conflict'')
              else accept (tk_id t) (scope_id s) utterance text (lit ''new_task'') voice None None now op_id' accept_event d)
      | None \<Rightarrow>
         (case check_preconditions (scope_id s) expected authority d of
            Some e \<Rightarrow> Inl e
          | None \<Rightarrow>
             (case create_task s a text None now task_id create_event d of
                Inl e \<Rightarrow> Inl e
              | Inr (snap, d1) \<Rightarrow>
                  accept (tk_id (fst snap)) (scope_id s) utterance text (lit ''new_task'') voice None None now op_id' accept_event d1)))"

end
