(* ===== verification/TaskStoreOps.thy ===== *)
theory TaskStoreOps
  imports TaskStore
begin

text \<open>
  The remaining methods of \<open>voice/native-bridge/task_store.py\<close>: open questions, cancellation, the
  dispatch claim, observation, settlement, receipts, owned dispatches, reconciliation of an unknown
  outcome, detachment and restart recovery. Same conventions as in \<open>TaskStore\<close>.
\<close>

section \<open>Questions and cancellation\<close>

definition note_question ::
  "pystr \<Rightarrow> pystr \<Rightarrow> pystr \<Rightarrow> pystr \<Rightarrow> nat option \<Rightarrow> pystr \<Rightarrow> db \<Rightarrow> bool outcome" where
  "note_question tid sid text source version new_id d =
     (if text = [] \<or> 4000 < length text \<or> source \<notin> {lit ''backend'', lit ''greeting''}
      then Inl (StoreInvalid ''invalid question'')
      else case task_row tid sid d of
        Inl e \<Rightarrow> Inl e
      | Inr t \<Rightarrow>
          if \<not> scope_attached (tk_scope t) d then Inl (StoreDenied ''scope detached'')
          else if tk_state t \<in> set closed_states then Inl (StoreConflict ''task cannot accept a question'')
          else if version \<noteq> None \<and> version \<noteq> Some (tk_version t) then Inr (False, d)
          else
            let d1 = update_task tid (\<lambda>t. t\<lparr>tk_question := Some text\<rparr>)
                       (put_question \<lparr>q_scope = sid, q_task = tid, q_text = text, q_source = source,
                          q_version = tk_version t, q_id = new_id\<rparr> d)
            in case add_event tid None (lit ''question_noted'') (tk_version t)
                      (JDict [(lit ''text'', JStr text), (lit ''source'', JStr source)]) store_source new_id d1 of
                 Inl e \<Rightarrow> Inl e
               | Inr d2 \<Rightarrow> Inr (True, d2))"

definition finished_states :: "task_state list" where
  "finished_states = [Succeeded, Failed, TaskCancelled, OutcomeUnknown]"

fun state_name :: "task_state \<Rightarrow> pystr" where
  "state_name Queued = lit ''queued''"
| "state_name Running = lit ''running''"
| "state_name AwaitingInput = lit ''awaiting_input''"
| "state_name Succeeded = lit ''succeeded''"
| "state_name Failed = lit ''failed''"
| "state_name TaskCancelled = lit ''cancelled''"
| "state_name CancelRequested = lit ''cancel_requested''"
| "state_name OutcomeUnknown = lit ''outcome_unknown''"

definition was_dispatched :: "pystr \<Rightarrow> db \<Rightarrow> bool" where
  "was_dispatched tid d = list_ex (\<lambda>r. op_task r = tid \<and> op_submitted r \<noteq> None) (operations d)"

definition cancel_pending ::
  "pystr \<Rightarrow> pystr \<Rightarrow> pystr \<Rightarrow> pystr \<Rightarrow> checkpoint option \<Rightarrow> bool option \<Rightarrow> pystr \<Rightarrow> pystr \<Rightarrow> db
     \<Rightarrow> task_snap option outcome" where
  "cancel_pending tid sid command text expected authority now event_id d =
     (if \<not> identifier_ok command then Inl (StoreInvalid ''invalid identifier'')
      else if text = [] \<or> 4000 < length text then Inl (StoreInvalid ''invalid command'')
      else case task_row tid sid d of
        Inl e \<Rightarrow> Inl e
      | Inr t \<Rightarrow>
         (case row_by cm_id command (commands d) of
            Some c \<Rightarrow>
              if (cm_task c, cm_scope c, cm_text c) \<noteq> (tid, sid, text) then Inl (StoreConflict ''command identity conflict'')
              else Inr (snapshot_of tid d, d)
          | None \<Rightarrow>
             (case check_preconditions sid expected authority d of
                Some e \<Rightarrow> Inl e
              | None \<Rightarrow>
                  if command \<in> op_utterance ` set (operations d) then Inl (StoreConflict ''command identity conflict'')
                  else if \<not> scope_attached sid d then Inl (StoreDenied ''scope detached'')
                  else if tk_state t \<in> set finished_states then Inl (StoreConflict ''task is terminal'')
                  else
                    let dispatched = was_dispatched tid d;
                        state = (if dispatched then CancelRequested else TaskCancelled);
                        ostate = (if dispatched then Suspended else OpCancelled);
                        version = Suc (tk_version t);
                        d1 = d\<lparr>commands := commands d @ [\<lparr>cm_id = command, cm_task = tid, cm_scope = sid, cm_text = text\<rparr>],
                               operations := update_where (\<lambda>r. op_task r = tid \<and> op_state r = Unsubmitted)
                                               (\<lambda>r. r\<lparr>op_state := ostate\<rparr>) (operations d)\<rparr>;
                        d2 = update_task tid (\<lambda>t. t\<lparr>tk_state := state, tk_version := version, tk_question := None,
                                                   tk_updated := now\<rparr>) d1;
                        d3 = drop_questions (\<lambda>q. q_scope q = sid \<and> q_task q = tid) d2
                    in case add_event tid None (lit ''cancel_pending'') version
                              (JDict [(lit ''command_id'', JStr command), (lit ''text'', JStr text),
                                      (lit ''state'', JStr (state_name state))]) store_source event_id d3 of
                         Inl e \<Rightarrow> Inl e
                       | Inr d4 \<Rightarrow> Inr (snapshot_of tid d4, d4))))"

section \<open>The dispatch claim\<close>

definition dispatch :: "pystr \<Rightarrow> pystr \<Rightarrow> pystr \<Rightarrow> db \<Rightarrow> op_row option outcome" where
  "dispatch oid now event_id d =
     (if \<not> identifier_ok oid then Inl (StoreInvalid ''invalid identifier'')
      else case find_op oid d of
        None \<Rightarrow> Inl (StoreDenied ''operation unavailable'')
      | Some r \<Rightarrow>
         (case find_task (op_task r) d of
            None \<Rightarrow> Inl (StoreDenied ''operation unavailable'')  \<comment> \<open>the inner join has no row\<close>
          | Some t \<Rightarrow>
              if \<not> scope_attached (tk_scope t) d then Inl (StoreDenied ''scope detached'')
              else if op_state r \<noteq> Unsubmitted then Inl (StoreConflict ''operation already claimed'')
              else if tk_state t \<in> set closed_states then Inl (StoreConflict ''task is terminal'')
              else if has_unresolved d then Inl (StoreConflict ''execution unresolved'')
              else
                let d1 = update_op oid (\<lambda>r. r\<lparr>op_state := Submitted, op_submitted := Some now\<rparr>) d;
                    d2 = update_task (op_task r) (\<lambda>t. t\<lparr>tk_state := Running, tk_updated := now\<rparr>) d1
                in case add_event (op_task r) (Some oid) (lit ''operation_submitted'') (op_version r)
                          (JDict [(lit ''dispatch_state'', JStr (lit ''submitted''))]) store_source event_id d2 of
                     Inl e \<Rightarrow> Inl e
                   | Inr d3 \<Rightarrow> Inr (find_op oid d3, d3)))"

section \<open>Observation and settlement\<close>

definition reserved_types :: "pystr list" where
  "reserved_types = map lit [''task_created'', ''utterance_accepted'', ''operation_submitted'', ''operation_settled'',
     ''outcome_unknown'', ''receipt_recorded'', ''operation_reconciled'']"

definition observe :: "pystr \<Rightarrow> pystr \<Rightarrow> pystr \<Rightarrow> json \<Rightarrow> db \<Rightarrow> bool outcome" where
  "observe oid event_id event_type payload d =
     (if \<not> list_all identifier_ok [oid, event_id, event_type] then Inl (StoreInvalid ''invalid identifier'')
      else if event_type \<in> set reserved_types then Inl (StoreInvalid ''reserved event type'')
      else case guard_json payload 16384 of
        Inl e \<Rightarrow> Inl e
      | Inr encoded \<Rightarrow>
         (case find_op oid d of
            None \<Rightarrow> Inl (StoreDenied ''operation unavailable'')
          | Some r \<Rightarrow>
             (case row_by in_event event_id (inbox d) of
                Some p \<Rightarrow>
                  if (in_op p, in_type p, in_payload p) = (oid, event_type, encoded) then Inr (False, d)
                  else Inl (StoreConflict ''callback identity conflict'')
              | None \<Rightarrow>
                 (case add_event (op_task r) (Some oid) event_type (op_version r) payload (lit ''executor'') event_id
                         (d\<lparr>inbox := inbox d @ [\<lparr>in_event = event_id, in_op = oid, in_type = event_type, in_payload = encoded\<rparr>]\<rparr>) of
                    Inl e \<Rightarrow> Inl e
                  | Inr d1 \<Rightarrow> Inr (True, d1)))))"

definition terminal_outcomes :: "task_state list" where
  "terminal_outcomes = [AwaitingInput, Succeeded, Failed, TaskCancelled, OutcomeUnknown]"

definition replies_json :: "pystr list \<Rightarrow> json" where
  "replies_json replies = JList (map JStr replies)"

definition replies_ok :: "pystr list \<Rightarrow> bool" where
  "replies_ok replies \<longleftrightarrow> length replies \<le> 32 \<and> list_all (\<lambda>r. length r \<le> 4000) replies"

text \<open>The question a settlement leaves open, and what happens to the scope's question row.\<close>

definition settle_question ::
  "task_state \<Rightarrow> pystr list \<Rightarrow> op_row \<Rightarrow> task_row \<Rightarrow> question_row option \<Rightarrow> pystr option" where
  "settle_question result replies r t binding =
     (let asked = (if result = AwaitingInput \<and> replies \<noteq> [] then Some (last replies) else None) in
      case binding of
        None \<Rightarrow> asked
      | Some b \<Rightarrow>
          if result = AwaitingInput \<and> q_task b = op_task r
             \<and> (op_version r < q_version b
                \<or> (replies = [] \<and> q_version b = op_version r \<and> op_version r = tk_version t))
          then Some (q_text b) else asked)"

definition settle_questions ::
  "task_state \<Rightarrow> task_state \<Rightarrow> op_row \<Rightarrow> task_row \<Rightarrow> question_row option \<Rightarrow> pystr option \<Rightarrow> pystr \<Rightarrow> db \<Rightarrow> db" where
  "settle_questions result state r t binding q settlement_id d =
     (if result \<noteq> AwaitingInput then drop_questions (\<lambda>b. q_task b = op_task r) d
      else if state = AwaitingInput \<and> op_version r = tk_version t \<and> scope_attached (tk_scope t) d
              \<and> (case binding of None \<Rightarrow> True | Some b \<Rightarrow> q_task b = op_task r)
      then (case q of
              Some (c # cs) \<Rightarrow>
                put_question \<lparr>q_scope = tk_scope t, q_task = op_task r, q_text = c # cs, q_source = lit ''backend'',
                  q_version = op_version r,
                  q_id = (case binding of None \<Rightarrow> settlement_id
                          | Some b \<Rightarrow> if c # cs = q_text b then q_id b else settlement_id)\<rparr> d
            | _ \<Rightarrow> drop_questions (\<lambda>b. q_task b = op_task r) d)
      else d)"

definition settle_commit ::
  "op_row \<Rightarrow> task_row \<Rightarrow> task_state \<Rightarrow> pystr list \<Rightarrow> json \<Rightarrow> pystr \<Rightarrow> pystr \<Rightarrow> pystr \<Rightarrow> pystr \<Rightarrow> db \<Rightarrow> task_snap option outcome" where
  "settle_commit r t result replies evidence encoded_replies encoded_evidence now settlement_id d =
     (let d1 = update_op (op_id r) (\<lambda>r. r\<lparr>op_state := Settled, op_replies := Some encoded_replies,
                 op_evidence := Some encoded_evidence, op_outcome := Some result, op_settled := Some now\<rparr>) d;
          state = (if tk_state t = CancelRequested \<and> result = AwaitingInput then CancelRequested else result);
          binding = row_by q_scope (tk_scope t) (questions d);
          q = settle_question result replies r t binding;
          d2 = update_task (op_task r) (\<lambda>t. t\<lparr>tk_state := state, tk_question := q, tk_result := Suc (tk_result t),
                 tk_updated := now\<rparr>) d1;
          d3 = settle_questions result state r t binding q settlement_id d2
      in case add_event (op_task r) (Some (op_id r)) (lit ''operation_settled'') (op_version r)
                (JDict [(lit ''outcome'', JStr (state_name result)), (lit ''replies'', replies_json replies),
                        (lit ''evidence'', evidence)]) store_source settlement_id d3 of
           Inl e \<Rightarrow> Inl e
         | Inr d4 \<Rightarrow> Inr (snapshot_of (op_task r) d4, d4))"

definition settle ::
  "pystr \<Rightarrow> pystr list \<Rightarrow> pystr \<Rightarrow> json option \<Rightarrow> pystr \<Rightarrow> pystr \<Rightarrow> db \<Rightarrow> task_snap option outcome" where
  "settle oid replies result_name evidence now settlement_id d =
     (if \<not> identifier_ok oid then Inl (StoreInvalid ''invalid identifier'')
      else case List.find (\<lambda>s. state_name s = result_name) terminal_outcomes of
        None \<Rightarrow> Inl (StoreInvalid ''invalid outcome'')
      | Some result \<Rightarrow>
          if result = OutcomeUnknown then Inl (StoreInvalid ''invalid outcome'')
          else if result = TaskCancelled then Inl (StoreDenied ''authoritative cancellation unavailable'')
          else if \<not> replies_ok replies then Inl (StoreInvalid ''invalid replies'')
          else
            let ev = (case evidence of None \<Rightarrow> JDict [] | Some v \<Rightarrow> v) in
            case guard_json (replies_json replies) 16384 of
              Inl e \<Rightarrow> Inl e
            | Inr encoded_replies \<Rightarrow>
           (case guard_json ev 16384 of
              Inl e \<Rightarrow> Inl e
            | Inr encoded_evidence \<Rightarrow>
           (case find_op oid d of
              None \<Rightarrow> Inl (StoreDenied ''operation unavailable'')
            | Some r \<Rightarrow>
                if op_state r = Settled then
                  if (op_replies r, op_evidence r, op_outcome r) = (Some encoded_replies, Some encoded_evidence, Some result)
                  then Inr (snapshot_of (op_task r) d, d)
                  else Inl (StoreConflict ''settlement conflict'')
                else if op_state r \<noteq> Submitted then Inl (StoreConflict ''operation not submitted'')
                else case find_task (op_task r) d of
                  None \<Rightarrow> Inl IntegrityError  \<comment> \<open>excluded by the foreign key\<close>
                | Some t \<Rightarrow>
                    if tk_state t \<in> set finished_states then Inl (StoreConflict ''task is terminal'')
                    else settle_commit r t result replies ev encoded_replies encoded_evidence now settlement_id d)))"

section \<open>Receipts\<close>

definition receipt_keys :: "pystr list" where
  "receipt_keys = map lit [''status'', ''task_ref'', ''operation_ref'', ''request_ref'', ''execution_ref'']"

definition receipt_statuses :: "pystr list" where
  "receipt_statuses = map lit [''accepted'', ''queued'', ''submitted'', ''succeeded'', ''failed'', ''cancelled'', ''outcome_unknown'']"

definition receipt_item_error :: "pystr \<Rightarrow> json \<Rightarrow> store_error option" where
  "receipt_item_error k v =
     (if k = lit ''status'' then
        (if v \<in> JStr ` set receipt_statuses then None else Some (StoreInvalid ''invalid receipt status''))
      else case v of JStr s \<Rightarrow> (if is_ref s then None else Some (StoreInvalid ''invalid receipt reference''))
           | _ \<Rightarrow> Some (StoreInvalid ''invalid receipt reference''))"

fun first_error :: "'e option list \<Rightarrow> 'e option" where
  "first_error [] = None"
| "first_error (Some e # es) = Some e"
| "first_error (None # es) = first_error es"

text \<open>\<open>{**previous, **receipt}\<close>: an existing key keeps its place, a new one is appended.\<close>

definition dict_merge :: "(pystr \<times> 'v) list \<Rightarrow> (pystr \<times> 'v) list \<Rightarrow> (pystr \<times> 'v) list" where
  "dict_merge a b =
     map (\<lambda>(k, v). (k, case dict_get k b of None \<Rightarrow> v | Some w \<Rightarrow> w)) a
       @ filter (\<lambda>(k, v). dict_get k a = None) b"

definition str_of :: "json option \<Rightarrow> pystr" where
  "str_of v = (case v of Some (JStr s) \<Rightarrow> s | _ \<Rightarrow> [])"

definition or_else :: "pystr \<Rightarrow> pystr \<Rightarrow> pystr" where
  "or_else a b = (if a = [] then b else a)"

definition opt_str :: "pystr option \<Rightarrow> pystr" where
  "opt_str v = (case v of None \<Rightarrow> [] | Some s \<Rightarrow> s)"

text \<open>The merge half of \<open>record_receipt\<close>: bind once, add only missing references and fields.\<close>

definition receipt_commit ::
  "op_row \<Rightarrow> pystr \<Rightarrow> pystr \<Rightarrow> (pystr \<times> json) list \<Rightarrow> pystr \<Rightarrow> db \<Rightarrow> op_row option outcome" where
  "receipt_commit r req exe rc event_id d =
     (let previous = (case op_receipt r of None \<Rightarrow> [] | Some v \<Rightarrow> v) in
      if list_ex (\<lambda>(k, v). dict_get k previous \<noteq> None \<and> dict_get k previous \<noteq> Some v) rc
      then Inl (StoreConflict ''receipt binding conflict'')
      else
        let merged = dict_merge previous rc;
            req' = or_else (opt_str (op_request r)) req;
            exe' = or_else (opt_str (op_execution r)) exe
        in case guard_json (JDict merged) 2048 of
             Inl e \<Rightarrow> Inl e
           | Inr _ \<Rightarrow>
               if (opt_str (op_request r), opt_str (op_execution r), previous) = (req', exe', merged)
               then Inr (Some r, d)
               else case add_event (op_task r) (Some (op_id r)) (lit ''receipt_recorded'') (op_version r)
                           (JDict [(lit ''request_ref'', JStr req'), (lit ''execution_ref'', JStr exe'),
                                   (lit ''receipt'', JDict merged)]) store_source event_id
                           (update_op (op_id r) (\<lambda>r. r\<lparr>op_request := Some req', op_execution := Some exe',
                              op_receipt := Some merged\<rparr>) d) of
                      Inl e \<Rightarrow> Inl e
                    | Inr d2 \<Rightarrow> Inr (find_op (op_id r) d2, d2))"

definition record_receipt ::
  "pystr \<Rightarrow> pystr \<Rightarrow> pystr \<Rightarrow> (pystr \<times> json) list option \<Rightarrow> pystr \<Rightarrow> db \<Rightarrow> op_row option outcome" where
  "record_receipt oid request_ref execution_ref receipt event_id d =
     (let rc = (case receipt of None \<Rightarrow> [] | Some v \<Rightarrow> v) in
      if \<not> identifier_ok oid then Inl (StoreInvalid ''invalid identifier'')
      else if \<not> is_ok (receipt_ref True request_ref) \<or> \<not> is_ok (receipt_ref True execution_ref)
      then Inl (StoreInvalid ''invalid receipt reference'')
      else if \<not> list_all (\<lambda>(k, v). k \<in> set receipt_keys) rc then Inl (StoreInvalid ''invalid receipt'')
      else case first_error (map (\<lambda>(k, v). receipt_item_error k v) rc) of
        Some e \<Rightarrow> Inl e
      | None \<Rightarrow>
          let req = or_else request_ref (str_of (dict_get (lit ''request_ref'') rc));
              exe = or_else execution_ref (str_of (dict_get (lit ''execution_ref'') rc))
          in if list_ex (\<lambda>(k, v). dict_get k rc \<noteq> None \<and> dict_get k rc \<noteq> Some (JStr v))
                  [(lit ''request_ref'', req), (lit ''execution_ref'', exe)]
             then Inl (StoreConflict ''receipt reference conflict'')
             else case find_op oid d of
               None \<Rightarrow> Inl (StoreDenied ''operation unavailable'')
             | Some r \<Rightarrow>
                 if op_state r \<notin> {Submitted, Unknown, Settled} then Inl (StoreConflict ''operation not submitted'')
                 else if list_ex (\<lambda>(old, new). opt_str old \<noteq> [] \<and> new \<noteq> [] \<and> opt_str old \<noteq> new)
                        [(op_request r, req), (op_execution r, exe)]
                 then Inl (StoreConflict ''receipt reference conflict'')
                 else receipt_commit r req exe rc event_id d)"

section \<open>Owned dispatches\<close>

type_synonym binding_snap = "op_row \<times> task_snap option \<times> (pystr \<times> pystr) option"

definition executor_binding :: "pystr \<Rightarrow> db \<Rightarrow> store_error + binding_snap" where
  "executor_binding oid d =
     (if \<not> identifier_ok oid then Inl (StoreInvalid ''invalid identifier'')
      else case find_op oid d of
        None \<Rightarrow> Inl (StoreDenied ''operation unavailable'')
      | Some r \<Rightarrow> Inr (r, snapshot_of (op_task r) d,
          map_option (\<lambda>b. (od_task_ref b, od_command b)) (row_by od_op oid (dispatches d))))"

definition record_owned_dispatch :: "pystr \<Rightarrow> pystr \<Rightarrow> json \<Rightarrow> db \<Rightarrow> binding_snap outcome" where
  "record_owned_dispatch oid task_ref command d =
     (if \<not> is_ref task_ref then Inl (StoreInvalid ''invalid receipt reference'')
      else case guard_json command 8192 of
        Inl e \<Rightarrow> Inl e
      | Inr encoded \<Rightarrow>
         (case executor_binding oid d of
            Inl e \<Rightarrow> Inl e
          | Inr snap \<Rightarrow>
             (case row_by od_op oid (dispatches d) of
                Some b \<Rightarrow>
                  if (od_task_ref b, od_command b) \<noteq> (task_ref, encoded) then Inl (StoreConflict ''owned dispatch binding conflict'')
                  else Inr (snap, d)
              | None \<Rightarrow>
                  if op_state (fst snap) \<noteq> Unsubmitted then Inl (StoreConflict ''operation already claimed'')
                  else
                    let d1 = d\<lparr>dispatches := dispatches d @ [\<lparr>od_op = oid, od_task_ref = task_ref, od_command = encoded,
                                 od_sequence = 0\<rparr>]\<rparr>
                    in case executor_binding oid d1 of Inl e \<Rightarrow> Inl e | Inr s \<Rightarrow> Inr (s, d1))))"

record owned_event =
  wv_event :: pystr
  wv_sequence :: int
  wv_task :: pystr
  wv_operation :: pystr
  wv_version :: int
  wv_status :: pystr
  wv_text :: pystr

definition owned_statuses :: "pystr list" where
  "owned_statuses = map lit [''queued'', ''submitted'', ''awaiting_input'', ''succeeded'', ''failed'', ''cancelled'', ''outcome_unknown'']"

definition owned_event_json :: "owned_event \<Rightarrow> json" where
  "owned_event_json e = JDict [(lit ''event_id'', JStr (wv_event e)), (lit ''sequence'', JInt (wv_sequence e)),
     (lit ''task_id'', JStr (wv_task e)), (lit ''operation_id'', JStr (wv_operation e)),
     (lit ''context_version'', JInt (wv_version e)), (lit ''status'', JStr (wv_status e)), (lit ''text'', JStr (wv_text e))]"

text \<open>The event's fields are typed; its other checks are the code's.\<close>

definition observe_owned :: "pystr \<Rightarrow> owned_event \<Rightarrow> db \<Rightarrow> bool outcome" where
  "observe_owned oid e d =
     (if wv_sequence e < 1 \<or> wv_status e \<notin> set owned_statuses \<or> 4000 < length (wv_text e)
      then Inl (StoreInvalid ''invalid owned event'')
      else if \<not> list_all is_ref [wv_event e, wv_task e, wv_operation e] then Inl (StoreInvalid ''invalid receipt reference'')
      else case executor_binding oid d of
        Inl err \<Rightarrow> Inl err
      | Inr (r, snap, binding) \<Rightarrow>
          if Some (wv_task e) \<noteq> map_option fst binding \<or> wv_operation e \<noteq> oid \<or> wv_version e \<noteq> int (op_version r)
          then Inl (StoreConflict ''owned event correlation mismatch'')
          else if list_ex (\<lambda>p. oe_op p = oid \<and> oe_seq p = wv_sequence e \<and> oe_event p \<noteq> wv_event e) (owned_events d)
          then Inl (StoreConflict ''owned event sequence conflict'')
          else case observe oid (wv_event e) (lit ''owned_observation'') (owned_event_json e) d of
            Inl err \<Rightarrow> Inl err
          | Inr (False, d1) \<Rightarrow> Inr (False, d1)
          | Inr (True, d1) \<Rightarrow>
              if list_ex (\<lambda>p. oe_event p = wv_event e \<or> (oe_op p = oid \<and> oe_seq p = wv_sequence e)) (owned_events d1)
              then Inl IntegrityError
              else
                let d2 = d1\<lparr>owned_events := owned_events d1 @ [\<lparr>oe_op = oid, oe_seq = wv_sequence e, oe_event = wv_event e\<rparr>]\<rparr>;
                    cursor = (case row_by od_op oid (dispatches d) of None \<Rightarrow> 0 | Some b \<Rightarrow> od_sequence b)
                in if wv_sequence e \<le> cursor then Inr (False, d2)
                   else Inr (case snap of None \<Rightarrow> False
                               | Some (t, s) \<Rightarrow> (case s of None \<Rightarrow> False | Some sc \<Rightarrow> sc_attached sc) \<and> tk_version t = op_version r,
                             d2\<lparr>dispatches := update_where (\<lambda>b. od_op b = oid) (\<lambda>b. b\<lparr>od_sequence := wv_sequence e\<rparr>) (dispatches d2)\<rparr>))"

section \<open>Unknown outcomes, detachment, recovery\<close>

record evidence =
  rv_source :: pystr
  rv_observer :: pystr
  rv_observation :: pystr
  rv_task :: pystr
  rv_operation :: pystr
  rv_version :: int
  rv_outcome :: pystr
  rv_request :: "pystr option"
  rv_execution :: "pystr option"

definition evidence_json :: "evidence \<Rightarrow> json" where
  "evidence_json e = JDict ([(lit ''source'', JStr (rv_source e)), (lit ''observer_ref'', JStr (rv_observer e)),
      (lit ''observation_ref'', JStr (rv_observation e)), (lit ''task_id'', JStr (rv_task e)),
      (lit ''operation_id'', JStr (rv_operation e)), (lit ''context_version'', JInt (rv_version e)),
      (lit ''outcome'', JStr (rv_outcome e))]
    @ (case rv_request e of None \<Rightarrow> [] | Some v \<Rightarrow> [(lit ''request_ref'', JStr v)])
    @ (case rv_execution e of None \<Rightarrow> [] | Some v \<Rightarrow> [(lit ''execution_ref'', JStr v)]))"

definition suspend_pending :: "pystr \<Rightarrow> db \<Rightarrow> db" where
  "suspend_pending tid d = d\<lparr>operations := update_where (\<lambda>r. op_task r = tid \<and> op_state r = Unsubmitted)
     (\<lambda>r. r\<lparr>op_state := Suspended\<rparr>) (operations d)\<rparr>"

definition ref_unbound :: "pystr option \<Rightarrow> pystr option \<Rightarrow> bool" where
  "ref_unbound stored given = (case given of None \<Rightarrow> False | Some v \<Rightarrow> opt_str stored = [] \<or> opt_str stored \<noteq> v)"

text \<open>The writes of \<open>reconcile_unknown\<close>, after its correlation checks.\<close>

definition reconcile_commit ::
  "op_row \<Rightarrow> task_state \<Rightarrow> pystr \<Rightarrow> evidence \<Rightarrow> pystr list \<Rightarrow> pystr \<Rightarrow> pystr \<Rightarrow> pystr \<Rightarrow> pystr \<Rightarrow> db
     \<Rightarrow> op_row option outcome" where
  "reconcile_commit r result result_name e replies encoded_replies encoded_evidence now event_id d =
     (let d1 = update_op (op_id r) (\<lambda>r. r\<lparr>op_state := Settled, op_outcome := Some result,
                 op_evidence := Some encoded_evidence, op_replies := Some encoded_replies, op_settled := Some now\<rparr>) d;
          d2 = update_task (op_task r) (\<lambda>t. t\<lparr>tk_state := result, tk_question := None,
                 tk_result := Suc (tk_result t), tk_updated := now\<rparr>) d1;
          d3 = suspend_pending (op_task r) (drop_questions (\<lambda>q. q_task q = op_task r) d2)
      in case add_event (op_task r) (Some (op_id r)) (lit ''operation_reconciled'') (op_version r)
                (JDict [(lit ''outcome'', JStr result_name), (lit ''evidence'', evidence_json e),
                        (lit ''replies'', replies_json replies)]) (lit ''reconciliation'') event_id d3 of
           Inl err \<Rightarrow> Inl err
         | Inr d4 \<Rightarrow> Inr (find_op (op_id r) d4, d4))"

definition reconcile_unknown ::
  "pystr \<Rightarrow> pystr \<Rightarrow> evidence \<Rightarrow> pystr list option \<Rightarrow> pystr \<Rightarrow> pystr \<Rightarrow> db \<Rightarrow> op_row option outcome" where
  "reconcile_unknown oid result_name e replies_arg now event_id d =
     (if \<not> identifier_ok oid then Inl (StoreInvalid ''invalid identifier'')
      else case List.find (\<lambda>s. state_name s = result_name) [Succeeded, Failed, TaskCancelled] of
        None \<Rightarrow> Inl (StoreInvalid ''invalid reconciliation evidence'')
      | Some result \<Rightarrow>
          let replies = (case replies_arg of None \<Rightarrow> [] | Some v \<Rightarrow> v) in
          if rv_source e \<notin> {lit ''operator'', lit ''authority''} \<or> rv_outcome e \<noteq> result_name
          then Inl (StoreInvalid ''invalid reconciliation evidence'')
          else if \<not> list_all is_ref ([rv_observer e, rv_observation e, rv_task e, rv_operation e]
                    @ (case rv_request e of None \<Rightarrow> [] | Some v \<Rightarrow> [v])
                    @ (case rv_execution e of None \<Rightarrow> [] | Some v \<Rightarrow> [v]))
          then Inl (StoreInvalid ''invalid receipt reference'')
          else if \<not> replies_ok replies then Inl (StoreInvalid ''invalid replies'')
          else case guard_json (replies_json replies) 16384 of
            Inl err \<Rightarrow> Inl err
          | Inr encoded_replies \<Rightarrow>
         (case guard_json (evidence_json e) 4096 of
            Inl err \<Rightarrow> Inl err
          | Inr encoded_evidence \<Rightarrow>
         (case find_op oid d of
            None \<Rightarrow> Inl (StoreDenied ''operation unavailable'')
          | Some r \<Rightarrow>
              if (rv_operation e, rv_task e, rv_version e) \<noteq> (oid, op_task r, int (op_version r))
              then Inl (StoreConflict ''reconciliation correlation mismatch'')
              else if (rv_request e = None \<and> rv_execution e = None)
                   \<or> ref_unbound (op_request r) (rv_request e) \<or> ref_unbound (op_execution r) (rv_execution e)
              then Inl (StoreConflict ''reconciliation reference mismatch'')
              else if op_state r = Settled then
                if (op_outcome r, op_evidence r, op_replies r) \<noteq> (Some result, Some encoded_evidence, Some encoded_replies)
                then Inl (StoreConflict ''reconciliation conflict'') else Inr (Some r, d)
              else if op_state r \<noteq> Unknown then Inl (StoreConflict ''operation is not unknown'')
              else
                reconcile_commit r result result_name e replies encoded_replies encoded_evidence now event_id d)))"

text \<open>The writes shared by \<open>mark_unknown\<close> and \<open>recover\<close>.\<close>

definition set_unknown :: "op_row \<Rightarrow> pystr \<Rightarrow> pystr \<Rightarrow> pystr \<Rightarrow> db \<Rightarrow> store_error + db" where
  "set_unknown r reason now event_id d =
     add_event (op_task r) (Some (op_id r)) (lit ''outcome_unknown'') (op_version r)
       (JDict [(lit ''reason_code'', JStr reason)]) store_source event_id
       (drop_questions (\<lambda>q. q_task q = op_task r)
         (update_task (op_task r) (\<lambda>t. t\<lparr>tk_state := OutcomeUnknown, tk_question := None, tk_updated := now\<rparr>)
           (update_op (op_id r) (\<lambda>r. r\<lparr>op_state := Unknown, op_reason := Some reason\<rparr>) d)))"

definition mark_unknown :: "pystr \<Rightarrow> pystr \<Rightarrow> pystr \<Rightarrow> pystr \<Rightarrow> db \<Rightarrow> unit outcome" where
  "mark_unknown oid reason now event_id d =
     (if \<not> list_all identifier_ok [oid, reason] then Inl (StoreInvalid ''invalid identifier'')
      else case find_op oid d of
        None \<Rightarrow> Inl (StoreDenied ''operation unavailable'')
      | Some r \<Rightarrow>
          if op_state r = Unknown \<and> op_reason r = Some reason then Inr ((), d)
          else if op_state r \<noteq> Submitted then Inl (StoreConflict ''operation not submitted'')
          else case set_unknown r reason now event_id d of Inl e \<Rightarrow> Inl e | Inr d1 \<Rightarrow> Inr ((), d1))"

definition detach_scope :: "pystr \<Rightarrow> db \<Rightarrow> unit outcome" where
  "detach_scope sid d =
     (if \<not> identifier_ok sid then Inl (StoreInvalid ''invalid identifier'')
      else
        let d1 = d\<lparr>scopes := update_where (\<lambda>s. sc_id s = sid) (\<lambda>s. s\<lparr>sc_attached := False\<rparr>) (scopes d)\<rparr>;
            d2 = drop_questions (\<lambda>q. q_scope q = sid) d1
        in Inr ((), d2\<lparr>operations := update_where (\<lambda>r. op_state r = Unsubmitted \<and> op_in_scope d2 sid r)
                        (\<lambda>r. r\<lparr>op_state := Suspended\<rparr>) (operations d2)\<rparr>))"

text \<open>\<open>recover\<close>: \<open>now\<close> and \<open>fresh\<close> give the timestamp and the event identifier used for a row.\<close>

fun recover_rows :: "op_row list \<Rightarrow> (pystr \<Rightarrow> pystr) \<Rightarrow> (pystr \<Rightarrow> pystr) \<Rightarrow> db \<Rightarrow> store_error + db" where
  "recover_rows [] now fresh d = Inr d"
| "recover_rows (r # rows) now fresh d =
     (case set_unknown r (lit ''process_restart'') (now (op_id r)) (fresh (op_id r)) d of
        Inl e \<Rightarrow> Inl e
      | Inr d1 \<Rightarrow> recover_rows rows now fresh d1)"

definition recover :: "(pystr \<Rightarrow> pystr) \<Rightarrow> (pystr \<Rightarrow> pystr) \<Rightarrow> db \<Rightarrow> nat outcome" where
  "recover now fresh d =
     (let rows = filter (\<lambda>r. op_state r = Submitted) (operations d) in
      case recover_rows rows now fresh d of Inl e \<Rightarrow> Inl e | Inr d1 \<Rightarrow> Inr (length rows, d1))"

end
