(* ===== verification/TaskStoreEffects.thy ===== *)
theory TaskStoreEffects
  imports TaskStoreOps
begin

text \<open>
  What a successful journal method did: for every method, the guards that held and the new database
  in terms of the old one. The step relation \<open>journal_step\<close> collects the mutating methods. The
  invariants of the journal are proved over these facts only.
\<close>

section \<open>Events\<close>

text \<open>The tables the invariants read, given explicitly.\<close>

definition core_is :: "db \<Rightarrow> scope_row list \<Rightarrow> task_row list \<Rightarrow> op_row list \<Rightarrow> question_row list \<Rightarrow> command_row list \<Rightarrow> bool" where
  "core_is d S T W Q C \<longleftrightarrow> scopes d = S \<and> tasks d = T \<and> operations d = W \<and> questions d = Q \<and> commands d = C"

lemma add_event_InrD:
  "add_event tid oid ty ver payload src eid d = Inr d' \<Longrightarrow>
     core_is d' (scopes d) (tasks d) (operations d) (questions d) (commands d)
     \<and> inbox d' = inbox d \<and> dispatches d' = dispatches d \<and> owned_events d' = owned_events d"
  by (auto simp: core_is_def add_event_def split: sum.splits if_splits)

text \<open>The event table only grows, its sequence numbers are contiguous from 1 and event ids are unique.\<close>

definition events_ok :: "db \<Rightarrow> bool" where
  "events_ok d \<longleftrightarrow> map ev_seq (events d) = [1..<Suc (length (events d))] \<and> distinct (map ev_id (events d))"

definition log_extends :: "db \<Rightarrow> db \<Rightarrow> bool" where
  "log_extends d d' \<longleftrightarrow> (\<exists>new. events d' = events d @ new)"

lemma add_event_log:
  "add_event tid oid ty ver payload src eid d = Inr d' \<Longrightarrow> log_extends d d' \<and> (events_ok d \<longrightarrow> events_ok d')"
  by (auto simp: add_event_def log_extends_def events_ok_def split: sum.splits if_splits)

lemma log_extends_refl [simp]: "log_extends d d"
  by (simp add: log_extends_def)

lemma log_extends_trans: "log_extends a b \<Longrightarrow> log_extends b c \<Longrightarrow> log_extends a c"
  by (auto simp: log_extends_def)

section \<open>Lookups\<close>

lemma task_row_InrD: "task_row tid sid d = Inr t \<Longrightarrow> find_task tid d = Some t \<and> tk_scope t = sid \<and> tk_id t = tid"
  by (auto simp: task_row_def find_task_def split: option.splits if_splits dest: row_by_SomeD)

lemma find_taskD: "find_task tid d = Some t \<Longrightarrow> t \<in> set (tasks d) \<and> tk_id t = tid"
  unfolding find_task_def by (rule row_by_SomeD)

lemma find_opD: "find_op oid d = Some r \<Longrightarrow> r \<in> set (operations d) \<and> op_id r = oid"
  unfolding find_op_def by (rule row_by_SomeD)

lemma has_unresolved_iff: "has_unresolved d \<longleftrightarrow> (\<exists>r\<in>set (operations d). op_state r \<in> {Submitted, Unknown})"
  by (simp add: has_unresolved_def list_ex_iff)

lemmas store_updates = update_task_def update_op_def drop_questions_def put_question_def suspend_pending_def

lemmas store_splits = if_splits sum.splits option.splits prod.splits

section \<open>Effects\<close>

lemma bind_scope_InrD:
  "bind_scope s d = Inr d1 \<Longrightarrow>
     (d1 = d \<and> scope_attached (scope_id s) d) \<or>
     (find_scope (scope_id s) d = None \<and> d1 = d\<lparr>scopes := scopes d @ [new_scope_row s]\<rparr>)"
  by (auto simp: bind_scope_def scope_attached_def split: option.splits if_splits)

lemma create_task_effect:
  assumes "create_task s a objective given now new_id eid d = Inr (x, d')"
  shows "\<exists>d1 t. bind_scope s d = Inr d1 \<and> scope_task_count (scope_id s) d1 < 8
     \<and> tk_id t \<notin> tk_id ` set (tasks d1) \<and> tk_scope t = scope_id s \<and> tk_version t = 0 \<and> tk_state t = Queued
     \<and> tk_question t = None \<and> fst x = t
     \<and> core_is d' (scopes d1) (tasks d1 @ [t]) (operations d1) (questions d1) (commands d1)"
  using assms
  by (auto simp: create_task_def Let_def not_le new_task_row_def task_snapshot_def core_is_def
           split: if_splits sum.splits option.splits dest!: add_event_InrD)

lemma accept_commit_effect:
  assumes "accept_commit t sid utterance text kind ctx enc now new_id eid d = Inr (r, d')"
  shows "op_id r \<notin> op_id ` set (operations d) \<and> op_task r = tk_id t \<and> op_utterance r = utterance
     \<and> op_version r = Suc (tk_version t) \<and> op_state r = Unsubmitted \<and> op_submitted r = None
     \<and> op_kind r = kind \<and> op_text r = text \<and> op_voice r = enc
     \<and> core_is d' (scopes d)
         (update_where (\<lambda>u. tk_id u = tk_id t)
            (\<lambda>u. u\<lparr>tk_version := Suc (tk_version t), tk_updated := now, tk_question := None\<rparr>) (tasks d))
         (operations d @ [r]) (filter (\<lambda>q. \<not> (q_scope q = sid \<and> q_task q = tk_id t)) (questions d)) (commands d)"
  using assms
  by (auto simp: accept_commit_def Let_def store_updates update_where_def core_is_def
           split: if_splits sum.splits dest!: add_event_InrD)

lemma accept_effect:
  assumes "accept tid sid utterance text kind voice expected authority now new_id eid d = Inr (r, d')"
  shows "(d' = d \<and> r \<in> set (operations d) \<and> op_utterance r = utterance \<and> op_task r = tid \<and> op_kind r = kind \<and> op_text r = text)
     \<or> (\<exists>t ctx enc. find_task tid d = Some t \<and> tk_scope t = sid \<and> tk_id t = tid
          \<and> utterance \<notin> cm_id ` set (commands d) \<and> utterance \<notin> op_utterance ` set (operations d)
          \<and> scope_attached sid d \<and> tk_state t \<notin> set closed_states \<and> capability kind t \<and> open_count sid d < 32
          \<and> accept_commit t sid utterance text kind ctx enc now new_id eid d = Inr (r, d'))"
  using assms
  by (auto simp: accept_def Let_def not_le row_by_None_iff
           split: if_splits sum.splits option.splits dest: task_row_InrD row_by_SomeD)

lemma note_question_effect:
  assumes "note_question tid sid text source ver new_id d = Inr (b, d')"
  shows "(d' = d \<and> \<not> b) \<or> (b \<and> (\<exists>t. find_task tid d = Some t \<and> tk_scope t = sid \<and> tk_id t = tid \<and> scope_attached sid d
     \<and> tk_state t \<notin> set closed_states \<and> text \<noteq> []
     \<and> core_is d' (scopes d) (update_where (\<lambda>u. tk_id u = tid) (\<lambda>u. u\<lparr>tk_question := Some text\<rparr>) (tasks d))
          (operations d)
          (filter (\<lambda>r. q_scope r \<noteq> sid) (questions d)
             @ [\<lparr>q_scope = sid, q_task = tid, q_text = text, q_source = source, q_version = tk_version t, q_id = new_id\<rparr>])
          (commands d)))"
  using assms
  by (auto simp: note_question_def Let_def store_updates core_is_def
           split: if_splits sum.splits dest!: add_event_InrD task_row_InrD)

definition cancel_state :: "pystr \<Rightarrow> db \<Rightarrow> task_state" where
  "cancel_state tid d = (if was_dispatched tid d then CancelRequested else TaskCancelled)"

definition cancel_op_state :: "pystr \<Rightarrow> db \<Rightarrow> dispatch_state" where
  "cancel_op_state tid d = (if was_dispatched tid d then Suspended else OpCancelled)"

lemma cancel_pending_effect:
  assumes "cancel_pending tid sid command text expected authority now eid d = Inr (x, d')"
  shows "(d' = d \<and> command \<in> cm_id ` set (commands d)) \<or> (\<exists>t c. find_task tid d = Some t \<and> tk_scope t = sid \<and> tk_id t = tid \<and> scope_attached sid d
     \<and> tk_state t \<notin> set finished_states \<and> cm_id c = command
     \<and> command \<notin> cm_id ` set (commands d) \<and> command \<notin> op_utterance ` set (operations d)
     \<and> core_is d' (scopes d)
          (update_where (\<lambda>u. tk_id u = tid)
             (\<lambda>u. u\<lparr>tk_state := cancel_state tid d, tk_version := Suc (tk_version t), tk_question := None, tk_updated := now\<rparr>) (tasks d))
          (update_where (\<lambda>r. op_task r = tid \<and> op_state r = Unsubmitted) (\<lambda>r. r\<lparr>op_state := cancel_op_state tid d\<rparr>) (operations d))
          (filter (\<lambda>q. \<not> (q_scope q = sid \<and> q_task q = tid)) (questions d))
          (commands d @ [c]))"
  using assms
  by (auto simp: cancel_pending_def Let_def store_updates row_by_None_iff core_is_def cancel_state_def cancel_op_state_def
           split: if_splits sum.splits option.splits dest!: add_event_InrD task_row_InrD dest: row_by_Some_key)

lemma dispatch_effect:
  assumes "dispatch oid now eid d = Inr (x, d')"
  shows "\<exists>r t. find_op oid d = Some r \<and> find_task (op_task r) d = Some t \<and> scope_attached (tk_scope t) d
     \<and> op_state r = Unsubmitted \<and> tk_state t \<notin> set closed_states \<and> \<not> has_unresolved d
     \<and> core_is d' (scopes d)
         (update_where (\<lambda>u. tk_id u = op_task r) (\<lambda>u. u\<lparr>tk_state := Running, tk_updated := now\<rparr>) (tasks d))
         (update_where (\<lambda>r. op_id r = oid) (\<lambda>r. r\<lparr>op_state := Submitted, op_submitted := Some now\<rparr>) (operations d))
         (questions d) (commands d)"
  using assms
  by (auto simp: dispatch_def Let_def store_updates core_is_def split: if_splits sum.splits option.splits dest!: add_event_InrD)

lemma observe_effect:
  assumes "observe oid eid ty payload d = Inr (b, d')"
  shows "(d' = d \<and> \<not> b) \<or> (b \<and> eid \<notin> in_event ` set (inbox d)
     \<and> (\<exists>row. in_event row = eid \<and> in_op row = oid \<and> inbox d' = inbox d @ [row])
     \<and> core_is d' (scopes d) (tasks d) (operations d) (questions d) (commands d)
     \<and> dispatches d' = dispatches d \<and> owned_events d' = owned_events d)"
  using assms
  by (auto simp: observe_def row_by_None_iff core_is_def split: if_splits sum.splits option.splits dest!: add_event_InrD)

lemma terminal_outcomes_name:
  "List.find (\<lambda>s. state_name s = n) terminal_outcomes = Some r \<Longrightarrow> r \<noteq> OutcomeUnknown \<Longrightarrow> r \<noteq> TaskCancelled
     \<Longrightarrow> r \<in> {AwaitingInput, Succeeded, Failed} \<and> state_name r = n"
  by (drule find_SomeD) (auto simp: terminal_outcomes_def)

lemma settle_effect:
  assumes "settle oid replies result_name ev now sid d = Inr (x, d')"
  shows "(d' = d \<and> (\<exists>r. find_op oid d = Some r \<and> op_state r = Settled))
    \<or> (\<exists>r t result evj enc1 enc2. find_op oid d = Some r \<and> find_task (op_task r) d = Some t \<and> op_state r = Submitted
         \<and> tk_state t \<notin> set finished_states \<and> result \<in> {AwaitingInput, Succeeded, Failed} \<and> state_name result = result_name
         \<and> settle_commit r t result replies evj enc1 enc2 now sid d = Inr (x, d'))"
  using assms
  unfolding settle_def Let_def
  by (auto simp del: insert_iff split: if_splits sum.splits option.splits dest!: terminal_outcomes_name)

lemma settle_commit_effect:
  assumes "settle_commit r t result replies evj enc1 enc2 now sid d = Inr (x, d')"
  defines "state \<equiv> (if tk_state t = CancelRequested \<and> result = AwaitingInput then CancelRequested else result)"
  defines "binding \<equiv> row_by q_scope (tk_scope t) (questions d)"
  defines "q \<equiv> settle_question result replies r t binding"
  shows "core_is d' (scopes d)
     (update_where (\<lambda>u. tk_id u = op_task r) (\<lambda>u. u\<lparr>tk_state := state, tk_question := q, tk_result := Suc (tk_result u), tk_updated := now\<rparr>) (tasks d))
     (update_where (\<lambda>w. op_id w = op_id r) (\<lambda>w. w\<lparr>op_state := Settled, op_replies := Some enc1, op_evidence := Some enc2,
         op_outcome := Some result, op_settled := Some now\<rparr>) (operations d))
     (questions (settle_questions result state r t binding q sid d)) (commands d)"
  using assms
  by (auto simp: settle_commit_def settle_questions_def Let_def store_updates core_is_def scope_attached_def find_scope_def
           split: if_splits sum.splits option.splits list.splits dest!: add_event_InrD)

definition with_receipt :: "op_row \<Rightarrow> pystr \<Rightarrow> pystr \<Rightarrow> (pystr \<times> json) list \<Rightarrow> op_row \<Rightarrow> op_row" where
  "with_receipt r req exe rc w = w\<lparr>op_request := Some (or_else (opt_str (op_request r)) req),
     op_execution := Some (or_else (opt_str (op_execution r)) exe),
     op_receipt := Some (dict_merge (case op_receipt r of None \<Rightarrow> [] | Some v \<Rightarrow> v) rc)\<rparr>"

lemma receipt_commit_effect:
  assumes "receipt_commit r req exe rc eid d = Inr (x, d')"
  shows "d' = d \<or> core_is d' (scopes d) (tasks d)
         (update_where (\<lambda>w. op_id w = op_id r) (with_receipt r req exe rc) (operations d))
         (questions d) (commands d)"
  using assms
  by (auto simp: receipt_commit_def Let_def store_updates core_is_def with_receipt_def[abs_def]
           split: if_splits sum.splits dest!: add_event_InrD)

lemma record_receipt_effect:
  assumes "record_receipt oid req exe rc eid d = Inr (x, d')"
  shows "\<exists>r req' exe' rc'. find_op oid d = Some r \<and> op_state r \<in> {Submitted, Unknown, Settled}
     \<and> receipt_commit r req' exe' rc' eid d = Inr (x, d')"
  using assms unfolding record_receipt_def Let_def
  by (auto split: if_splits option.splits)

lemma record_owned_dispatch_effect:
  assumes "record_owned_dispatch oid ref command d = Inr (x, d')"
  shows "d' = d \<or> (oid \<notin> od_op ` set (dispatches d)
     \<and> (\<exists>b. od_op b = oid \<and> od_sequence b = 0 \<and> dispatches d' = dispatches d @ [b])
     \<and> core_is d' (scopes d) (tasks d) (operations d) (questions d) (commands d))"
  using assms
  by (auto simp: record_owned_dispatch_def Let_def row_by_None_iff core_is_def split: if_splits sum.splits option.splits)

lemma executor_binding_InrD:
  "executor_binding oid d = Inr (r, snap, b) \<Longrightarrow> find_op oid d = Some r \<and> snap = snapshot_of (op_task r) d
     \<and> b = map_option (\<lambda>b. (od_task_ref b, od_command b)) (row_by od_op oid (dispatches d))"
  by (auto simp: executor_binding_def split: if_splits option.splits)

lemma observe_owned_core:
  assumes "observe_owned oid e d = Inr (b, d')"
  shows "core_is d' (scopes d) (tasks d) (operations d) (questions d) (commands d)"
  using assms
  by (auto simp: observe_owned_def Let_def core_is_def split: if_splits sum.splits prod.splits bool.splits dest!: observe_effect)

definition unknown_tasks :: "op_row \<Rightarrow> pystr \<Rightarrow> task_row list \<Rightarrow> task_row list" where
  "unknown_tasks r now T = update_where (\<lambda>u. tk_id u = op_task r) (\<lambda>u. u\<lparr>tk_state := OutcomeUnknown, tk_question := None, tk_updated := now\<rparr>) T"

definition unknown_ops :: "op_row \<Rightarrow> pystr \<Rightarrow> op_row list \<Rightarrow> op_row list" where
  "unknown_ops r reason W = update_where (\<lambda>w. op_id w = op_id r) (\<lambda>w. w\<lparr>op_state := Unknown, op_reason := Some reason\<rparr>) W"

lemma set_unknown_effect:
  "set_unknown r reason now eid d = Inr d' \<Longrightarrow>
     core_is d' (scopes d) (unknown_tasks r now (tasks d)) (unknown_ops r reason (operations d))
       (filter (\<lambda>q. q_task q \<noteq> op_task r) (questions d)) (commands d)"
  by (auto simp: set_unknown_def store_updates core_is_def unknown_tasks_def unknown_ops_def dest!: add_event_InrD)

lemma mark_unknown_effect:
  assumes "mark_unknown oid reason now eid d = Inr (x, d')"
  shows "d' = d \<or> (\<exists>r. find_op oid d = Some r \<and> op_state r = Submitted \<and> set_unknown r reason now eid d = Inr d')"
  using assms by (auto simp: mark_unknown_def split: if_splits sum.splits option.splits)

lemma reconcile_commit_effect:
  assumes "reconcile_commit r result result_name e replies enc2 enc1 now eid d = Inr (x, d')"
  shows "core_is d' (scopes d)
         (update_where (\<lambda>u. tk_id u = op_task r) (\<lambda>u. u\<lparr>tk_state := result, tk_question := None, tk_result := Suc (tk_result u), tk_updated := now\<rparr>) (tasks d))
         (update_where (\<lambda>w. op_task w = op_task r \<and> op_state w = Unsubmitted) (\<lambda>w. w\<lparr>op_state := Suspended\<rparr>)
           (update_where (\<lambda>w. op_id w = op_id r) (\<lambda>w. w\<lparr>op_state := Settled, op_outcome := Some result, op_evidence := Some enc1,
              op_replies := Some enc2, op_settled := Some now\<rparr>) (operations d)))
         (filter (\<lambda>q. q_task q \<noteq> op_task r) (questions d)) (commands d)"
  using assms
  by (auto simp: reconcile_commit_def Let_def store_updates core_is_def split: sum.splits dest!: add_event_InrD)

lemma reconcile_unknown_effect:
  assumes "reconcile_unknown oid result_name e replies now eid d = Inr (x, d')"
  shows "d' = d \<or> (\<exists>r result replies' enc1 enc2. find_op oid d = Some r \<and> op_state r = Unknown
     \<and> result \<in> {Succeeded, Failed, TaskCancelled} \<and> state_name result = result_name
     \<and> rv_task e = op_task r \<and> rv_operation e = oid \<and> rv_version e = int (op_version r) \<and> rv_outcome e = result_name
     \<and> reconcile_commit r result result_name e replies' enc1 enc2 now eid d = Inr (x, d'))"
proof -
  obtain result where res: "List.find (\<lambda>s. state_name s = result_name) [Succeeded, Failed, TaskCancelled] = Some result"
    using assms unfolding reconcile_unknown_def by (simp del: List.find.simps split: if_splits option.splits)
  have in_res: "result \<in> {Succeeded, Failed, TaskCancelled}" "state_name result = result_name"
    using find_SomeD [OF res] by simp_all
  obtain enc1 enc2 r where r: "find_op oid d = Some r" "op_state r = Settled \<and> d' = d \<or> op_state r = Unknown
      \<and> rv_task e = op_task r \<and> rv_operation e = oid \<and> rv_version e = int (op_version r) \<and> rv_outcome e = result_name
      \<and> reconcile_commit r result result_name e (case replies of None \<Rightarrow> [] | Some v \<Rightarrow> v) enc1 enc2 now eid d = Inr (x, d')"
    using assms unfolding reconcile_unknown_def Let_def res
    by (simp del: List.find.simps split: if_splits sum.splits option.splits prod.splits; blast)
  then show ?thesis using in_res by blast
qed

lemma detach_scope_effect:
  assumes "detach_scope sid d = Inr (x, d')"
  shows "core_is d' (update_where (\<lambda>s. sc_id s = sid) (\<lambda>s. s\<lparr>sc_attached := False\<rparr>) (scopes d)) (tasks d)
     (update_where (\<lambda>r. op_state r = Unsubmitted \<and> op_in_scope d sid r) (\<lambda>r. r\<lparr>op_state := Suspended\<rparr>) (operations d))
     (filter (\<lambda>q. q_scope q \<noteq> sid) (questions d)) (commands d)"
  using assms
  by (auto simp: detach_scope_def Let_def store_updates core_is_def op_in_scope_def find_task_def split: if_splits)

end
