(* ===== verification/TaskStoreSteps.thy ===== *)
theory TaskStoreSteps
  imports TaskStoreEffects
begin

text \<open>
  The abstract contract of the journal. \<open>core_step\<close> says what one committed change may do to the
  tables of scopes, tasks, operations, questions and commands, and under which condition;
  \<open>journal_step\<close> is the step relation of the code's methods. Every committed method call is a sequence
  of abstract steps, so the invariants of the next theory are proved over the abstract relation.
\<close>

section \<open>The abstract steps\<close>

inductive core_step :: "db \<Rightarrow> db \<Rightarrow> bool" where
  stutter: "core_is d' (scopes d) (tasks d) (operations d) (questions d) (commands d) \<Longrightarrow> core_step d d'"
| bind: "\<lbrakk>sc_id s \<notin> sc_id ` set (scopes d); sc_attached s;
      core_is d' (scopes d @ [s]) (tasks d) (operations d) (questions d) (commands d)\<rbrakk> \<Longrightarrow> core_step d d'"
| create: "\<lbrakk>scope_attached (tk_scope t) d; scope_task_count (tk_scope t) d < 8; tk_id t \<notin> tk_id ` set (tasks d);
      tk_state t = Queued; tk_version t = 0; tk_question t = None;
      core_is d' (scopes d) (tasks d @ [t]) (operations d) (questions d) (commands d)\<rbrakk> \<Longrightarrow> core_step d d'"
| accepted: "\<lbrakk>t \<in> set (tasks d); scope_attached (tk_scope t) d; tk_state t \<notin> set closed_states;
      open_count (tk_scope t) d < 32; op_utterance r \<notin> cm_id ` set (commands d);
      op_utterance r \<notin> op_utterance ` set (operations d); op_id r \<notin> op_id ` set (operations d);
      op_task r = tk_id t; op_version r = Suc (tk_version t); op_state r = Unsubmitted; op_submitted r = None;
      core_is d' (scopes d)
         (update_where (\<lambda>u. tk_id u = tk_id t)
            (\<lambda>u. u\<lparr>tk_version := Suc (tk_version t), tk_updated := now, tk_question := None\<rparr>) (tasks d))
         (operations d @ [r]) (filter (\<lambda>q. \<not> (q_scope q = tk_scope t \<and> q_task q = tk_id t)) (questions d)) (commands d)\<rbrakk>
      \<Longrightarrow> core_step d d'"
| asked: "\<lbrakk>t \<in> set (tasks d); scope_attached (tk_scope t) d; tk_state t \<notin> set closed_states;
      q_scope q = tk_scope t; q_task q = tk_id t; q_version q = tk_version t;
      core_is d' (scopes d) (update_where (\<lambda>u. tk_id u = tk_id t) (\<lambda>u. u\<lparr>tk_question := Some (q_text q)\<rparr>) (tasks d))
          (operations d) (filter (\<lambda>r. q_scope r \<noteq> tk_scope t) (questions d) @ [q]) (commands d)\<rbrakk> \<Longrightarrow> core_step d d'"
| cancelled: "\<lbrakk>t \<in> set (tasks d); tk_state t \<notin> set finished_states; cm_id c \<notin> cm_id ` set (commands d);
      cm_id c \<notin> op_utterance ` set (operations d);
      core_is d' (scopes d)
          (update_where (\<lambda>u. tk_id u = tk_id t)
             (\<lambda>u. u\<lparr>tk_state := cancel_state (tk_id t) d, tk_version := Suc (tk_version t), tk_question := None, tk_updated := now\<rparr>) (tasks d))
          (update_where (\<lambda>r. op_task r = tk_id t \<and> op_state r = Unsubmitted) (\<lambda>r. r\<lparr>op_state := cancel_op_state (tk_id t) d\<rparr>) (operations d))
          (filter (\<lambda>q. \<not> (q_scope q = tk_scope t \<and> q_task q = tk_id t)) (questions d))
          (commands d @ [c])\<rbrakk> \<Longrightarrow> core_step d d'"
| dispatched: "\<lbrakk>r \<in> set (operations d); t \<in> set (tasks d); tk_id t = op_task r; scope_attached (tk_scope t) d;
      op_state r = Unsubmitted; tk_state t \<notin> set closed_states; \<not> has_unresolved d;
      core_is d' (scopes d)
         (update_where (\<lambda>u. tk_id u = op_task r) (\<lambda>u. u\<lparr>tk_state := Running, tk_updated := now\<rparr>) (tasks d))
         (update_where (\<lambda>w. op_id w = op_id r) (\<lambda>w. w\<lparr>op_state := Submitted, op_submitted := Some now\<rparr>) (operations d))
         (questions d) (commands d)\<rbrakk> \<Longrightarrow> core_step d d'"
| settled: "\<lbrakk>r \<in> set (operations d); t \<in> set (tasks d); tk_id t = op_task r; op_state r = Submitted;
      tk_state t \<notin> set finished_states; result \<in> {AwaitingInput, Succeeded, Failed};
      state = (if tk_state t = CancelRequested \<and> result = AwaitingInput then CancelRequested else result);
      binding = row_by q_scope (tk_scope t) (questions d); q = settle_question result replies r t binding;
      core_is d' (scopes d)
         (update_where (\<lambda>u. tk_id u = op_task r) (\<lambda>u. u\<lparr>tk_state := state, tk_question := q, tk_result := Suc (tk_result u), tk_updated := now\<rparr>) (tasks d))
         (update_where (\<lambda>w. op_id w = op_id r) (\<lambda>w. w\<lparr>op_state := Settled, op_replies := Some enc1, op_evidence := Some enc2,
             op_outcome := Some result, op_settled := Some now\<rparr>) (operations d))
         (questions (settle_questions result state r t binding q sid d)) (commands d)\<rbrakk> \<Longrightarrow> core_step d d'"
| receipted: "core_is d' (scopes d) (tasks d)
         (update_where (\<lambda>w. op_id w = op_id r) (with_receipt r req exe rc) (operations d)) (questions d) (commands d)
      \<Longrightarrow> core_step d d'"
| lost: "\<lbrakk>r \<in> set (operations d); op_state r = Submitted;
      core_is d' (scopes d) (unknown_tasks r now (tasks d)) (unknown_ops r reason (operations d))
       (filter (\<lambda>q. q_task q \<noteq> op_task r) (questions d)) (commands d)\<rbrakk> \<Longrightarrow> core_step d d'"
| reconciled: "\<lbrakk>r \<in> set (operations d); op_state r = Unknown; result \<in> {Succeeded, Failed, TaskCancelled};
      core_is d' (scopes d)
         (update_where (\<lambda>u. tk_id u = op_task r) (\<lambda>u. u\<lparr>tk_state := result, tk_question := None, tk_result := Suc (tk_result u), tk_updated := now\<rparr>) (tasks d))
         (update_where (\<lambda>w. op_task w = op_task r \<and> op_state w = Unsubmitted) (\<lambda>w. w\<lparr>op_state := Suspended\<rparr>)
           (update_where (\<lambda>w. op_id w = op_id r) (\<lambda>w. w\<lparr>op_state := Settled, op_outcome := Some result, op_evidence := Some enc1,
              op_replies := Some enc2, op_settled := Some now\<rparr>) (operations d)))
         (filter (\<lambda>q. q_task q \<noteq> op_task r) (questions d)) (commands d)\<rbrakk> \<Longrightarrow> core_step d d'"
| detached: "core_is d' (update_where (\<lambda>s. sc_id s = sid) (\<lambda>s. s\<lparr>sc_attached := False\<rparr>) (scopes d)) (tasks d)
     (update_where (\<lambda>r. op_state r = Unsubmitted \<and> op_in_scope d sid r) (\<lambda>r. r\<lparr>op_state := Suspended\<rparr>) (operations d))
     (filter (\<lambda>q. q_scope q \<noteq> sid) (questions d)) (commands d) \<Longrightarrow> core_step d d'"

abbreviation core_steps :: "db \<Rightarrow> db \<Rightarrow> bool" where
  "core_steps \<equiv> core_step\<^sup>*\<^sup>*"

lemma core_step_refl: "core_step d d"
  by (rule stutter) (simp add: core_is_def)

section \<open>The code's steps\<close>

inductive journal_step :: "db \<Rightarrow> db \<Rightarrow> bool" where
  step_create: "create_task s a obj given now nid eid d = Inr (x1, d') \<Longrightarrow> journal_step d d'"
| step_accept: "accept tid sid u text kind voice ex au now nid eid d = Inr (x2, d') \<Longrightarrow> journal_step d d'"
| step_accept_new: "accept_new_task s a u text voice ex au now tid ce oid ae d = Inr (x3, d') \<Longrightarrow> journal_step d d'"
| step_note: "note_question tid sid text src ver nid d = Inr (x4, d') \<Longrightarrow> journal_step d d'"
| step_cancel: "cancel_pending tid sid cmd text ex au now eid d = Inr (x5, d') \<Longrightarrow> journal_step d d'"
| step_dispatch: "dispatch oid now eid d = Inr (x6, d') \<Longrightarrow> journal_step d d'"
| step_observe: "observe oid eid ty payload d = Inr (x7, d') \<Longrightarrow> journal_step d d'"
| step_settle: "settle oid replies res ev now eid d = Inr (x8, d') \<Longrightarrow> journal_step d d'"
| step_receipt: "record_receipt oid req exe rc eid d = Inr (x9, d') \<Longrightarrow> journal_step d d'"
| step_owned: "record_owned_dispatch oid ref cmdj d = Inr (x10, d') \<Longrightarrow> journal_step d d'"
| step_observe_owned: "observe_owned oid we d = Inr (x11, d') \<Longrightarrow> journal_step d d'"
| step_reconcile: "reconcile_unknown oid res rv replies' now eid d = Inr (x12, d') \<Longrightarrow> journal_step d d'"
| step_mark: "mark_unknown oid reason now eid d = Inr (x13, d') \<Longrightarrow> journal_step d d'"
| step_detach: "detach_scope sid d = Inr (x14, d') \<Longrightarrow> journal_step d d'"
| step_recover: "recover nows fresh d = Inr (x15, d') \<Longrightarrow> journal_step d d'"

abbreviation reachable :: "db \<Rightarrow> bool" where
  "reachable d \<equiv> journal_step\<^sup>*\<^sup>* init_db d"

section \<open>Simulation\<close>

lemma core_is_chain: "core_is d' S T W Q C \<Longrightarrow> scopes d' = S \<and> tasks d' = T \<and> operations d' = W \<and> questions d' = Q \<and> commands d' = C"
  by (simp add: core_is_def)

lemma bind_core:
  assumes "bind_scope s d = Inr d1"
  shows "core_step d d1" "scope_attached (scope_id s) d1"
proof -
  note eff = bind_scope_InrD [OF assms]
  show "core_step d d1"
  proof (cases "d1 = d")
    case True then show ?thesis by (simp add: core_step_refl)
  next
    case False
    with eff have "find_scope (scope_id s) d = None" "d1 = d\<lparr>scopes := scopes d @ [new_scope_row s]\<rparr>" by auto
    then show ?thesis
      by (intro bind [of "new_scope_row s"]) (auto simp: find_scope_def row_by_None_iff new_scope_row_def core_is_def)
  qed
  show "scope_attached (scope_id s) d1"
    using eff by (auto simp: scope_attached_def find_scope_def new_scope_row_def)
qed

lemma create_core:
  assumes "create_task s a obj given now nid eid d = Inr (x, d')"
  shows "core_steps d d'"
proof -
  from create_task_effect [OF assms] obtain d1 t where e: "bind_scope s d = Inr d1"
    and t: "scope_task_count (scope_id s) d1 < 8" "tk_id t \<notin> tk_id ` set (tasks d1)" "tk_scope t = scope_id s"
      "tk_version t = 0" "tk_state t = Queued" "tk_question t = None"
      "core_is d' (scopes d1) (tasks d1 @ [t]) (operations d1) (questions d1) (commands d1)"
    by auto
  have c: "core_step d1 d'"
    using t bind_core(2) [OF e] by (intro create [of t]) auto
  show ?thesis using bind_core(1) [OF e] c by (meson r_into_rtranclp rtranclp.rtrancl_into_rtrancl)
qed

lemma accept_core:
  assumes "accept tid sid u text kind voice ex au now nid eid d = Inr (x, d')"
  shows "core_step d d'"
  using accept_effect [OF assms]
proof
  assume "\<exists>t ctx enc. find_task tid d = Some t \<and> tk_scope t = sid \<and> tk_id t = tid
          \<and> u \<notin> cm_id ` set (commands d) \<and> u \<notin> op_utterance ` set (operations d)
          \<and> scope_attached sid d \<and> tk_state t \<notin> set closed_states \<and> capability kind t \<and> open_count sid d < 32
          \<and> accept_commit t sid u text kind ctx enc now nid eid d = Inr (x, d')"
  then obtain t ctx enc where g: "t \<in> set (tasks d)" "tk_scope t = sid" "tk_id t = tid"
    "u \<notin> cm_id ` set (commands d)" "u \<notin> op_utterance ` set (operations d)" "scope_attached sid d"
    "tk_state t \<notin> set closed_states" "open_count sid d < 32"
    and c: "accept_commit t sid u text kind ctx enc now nid eid d = Inr (x, d')"
    by (auto dest: find_taskD)
  from accept_commit_effect [OF c] g show ?thesis
    by (intro accepted [of t d x d' now]) auto
qed (simp add: core_step_refl)

lemma accept_new_core:
  assumes "accept_new_task s a u text voice ex au now tid ce oid ae d = Inr (x, d')"
  shows "core_steps d d'"
  using assms
  by (auto simp: accept_new_task_def split: option.splits sum.splits if_splits
           dest!: accept_core create_core intro: rtranclp.rtrancl_into_rtrancl)

lemma note_core: "note_question tid sid text src ver nid d = Inr (x, d') \<Longrightarrow> core_step d d'"
  apply (drule note_question_effect)
  apply (elim disjE conjE exE)
   apply (simp add: core_step_refl)
  subgoal for t
    by (rule asked [of t d "\<lparr>q_scope = sid, q_task = tid, q_text = text, q_source = src, q_version = tk_version t, q_id = nid\<rparr>"])
      (auto dest: find_taskD)
  done

lemma cancel_core: "cancel_pending tid sid cmd text ex au now eid d = Inr (x, d') \<Longrightarrow> core_step d d'"
  apply (drule cancel_pending_effect)
  apply (elim disjE conjE exE)
   apply (simp add: core_step_refl)
  subgoal for t c by (rule cancelled [of t d c d' now]) (auto dest: find_taskD)
  done

lemma dispatch_core: "dispatch oid now eid d = Inr (x, d') \<Longrightarrow> core_step d d'"
  apply (drule dispatch_effect)
  apply (elim conjE exE)
  subgoal for r t by (rule dispatched [of r d t d' now]) (auto dest: find_taskD find_opD)
  done

lemma settle_core:
  assumes "settle oid replies res ev now sid d = Inr (x, d')"
  shows "core_step d d'"
  using settle_effect [OF assms]
proof (elim disjE conjE exE)
  fix r t result evj enc1 enc2
  assume g: "find_op oid d = Some r" "find_task (op_task r) d = Some t" "op_state r = Submitted"
      "tk_state t \<notin> set finished_states" "result \<in> {AwaitingInput, Succeeded, Failed}"
    and c: "settle_commit r t result replies evj enc1 enc2 now sid d = Inr (x, d')"
  show ?thesis
    by (rule settled [OF _ _ _ _ _ _ refl refl refl settle_commit_effect [OF c]])
      (use g find_opD [OF g(1)] find_taskD [OF g(2)] in auto)
qed (simp add: core_step_refl)

lemma receipt_core: "record_receipt oid req exe rc eid d = Inr (x, d') \<Longrightarrow> core_step d d'"
  by (drule record_receipt_effect) (auto dest!: receipt_commit_effect intro: core_step_refl receipted)

lemma owned_core: "record_owned_dispatch oid ref cmdj d = Inr (x, d') \<Longrightarrow> core_step d d'"
  by (drule record_owned_dispatch_effect) (auto intro: core_step_refl stutter)

lemma observe_core: "observe oid eid ty payload d = Inr (x, d') \<Longrightarrow> core_step d d'"
  by (drule observe_effect) (auto intro: core_step_refl stutter)

lemma observe_owned_step: "observe_owned oid we d = Inr (x, d') \<Longrightarrow> core_step d d'"
  by (drule observe_owned_core) (rule stutter)

lemma set_unknown_core:
  assumes "set_unknown r reason now eid d = Inr d'" "r \<in> set (operations d)" "op_state r = Submitted"
  shows "core_step d d'"
  using assms(2,3) set_unknown_effect [OF assms(1)] by (rule lost)

lemma mark_core: "mark_unknown oid reason now eid d = Inr (x, d') \<Longrightarrow> core_step d d'"
  by (drule mark_unknown_effect) (auto intro: core_step_refl set_unknown_core dest: find_opD)

lemma reconcile_core:
  assumes "reconcile_unknown oid res rv replies now eid d = Inr (x, d')"
  shows "core_step d d'"
  using reconcile_unknown_effect [OF assms]
proof (elim disjE conjE exE)
  fix r result rs enc1 enc2
  assume g: "find_op oid d = Some r" "op_state r = Unknown" "result \<in> {Succeeded, Failed, TaskCancelled}"
    and c: "reconcile_commit r result res rv rs enc1 enc2 now eid d = Inr (x, d')"
  show ?thesis
    by (rule reconciled [OF _ _ _ reconcile_commit_effect [OF c]]) (use g find_opD [OF g(1)] in auto)
qed (simp add: core_step_refl)

lemma detach_core: "detach_scope sid d = Inr (x, d') \<Longrightarrow> core_step d d'"
  by (drule detach_scope_effect) (rule detached)

lemma recover_rows_core:
  assumes "recover_rows rows nows fresh d = Inr d'" "set rows \<subseteq> set (operations d)"
    "\<forall>r\<in>set rows. op_state r = Submitted" "distinct (map op_id rows)"
  shows "core_steps d d'"
  using assms
proof (induction rows arbitrary: d)
  case (Cons r rows)
  from Cons.prems(1) obtain d1 where d1: "set_unknown r (lit ''process_restart'') (nows (op_id r)) (fresh (op_id r)) d = Inr d1"
    and rest: "recover_rows rows nows fresh d1 = Inr d'"
    by (auto split: sum.splits)
  have ops: "operations d1 = unknown_ops r (lit ''process_restart'') (operations d)"
    using set_unknown_effect [OF d1] by (simp add: core_is_def)
  have sub: "set rows \<subseteq> set (operations d1)"
  proof
    fix w assume w: "w \<in> set rows"
    with Cons.prems(4) have "op_id w \<noteq> op_id r" by (auto simp: image_iff)
    moreover have "w \<in> set (operations d)" using w Cons.prems(2) by auto
    ultimately show "w \<in> set (operations d1)"
      by (force simp: ops unknown_ops_def set_update_where image_iff)
  qed
  have "core_step d d1" using Cons.prems by (intro set_unknown_core [OF d1]) auto
  moreover have "core_steps d1 d'"
    using Cons.prems by (intro Cons.IH [OF rest sub]) auto
  ultimately show ?case by (rule converse_rtranclp_into_rtranclp)
qed simp

text \<open>Every committed method call is a sequence of abstract steps (recovery needs unique operation ids).\<close>

lemma journal_step_core:
  assumes "journal_step d d'" "distinct (map op_id (operations d))"
  shows "core_steps d d'"
  using assms
proof (cases rule: journal_step.cases)
  case (step_recover nows fresh n)
  then have "recover_rows (filter (\<lambda>r. op_state r = Submitted) (operations d)) nows fresh d = Inr d'"
    by (auto simp: recover_def Let_def split: sum.splits)
  then show ?thesis
    by (rule recover_rows_core) (auto simp: assms(2) distinct_map_filter)
qed (auto dest: create_core accept_core accept_new_core note_core cancel_core dispatch_core observe_core settle_core
       receipt_core owned_core observe_owned_step reconcile_core mark_core detach_core)

end
