(* ===== verification/TaskStoreInv.thy ===== *)
theory TaskStoreInv
  imports TaskStoreSteps
begin

text \<open>
  The invariants of the task journal, preserved by every abstract step and so by every method.
\<close>

section \<open>The invariant\<close>

definition keys_ok :: "db \<Rightarrow> bool" where
  "keys_ok d \<longleftrightarrow> distinct (map sc_id (scopes d)) \<and> distinct (map tk_id (tasks d)) \<and> distinct (map op_id (operations d))
     \<and> distinct (map q_scope (questions d)) \<and> distinct (map cm_id (commands d)) \<and> distinct (map op_utterance (operations d))
     \<and> cm_id ` set (commands d) \<inter> op_utterance ` set (operations d) = {}"

definition refs_ok :: "db \<Rightarrow> bool" where
  "refs_ok d \<longleftrightarrow> op_task ` set (operations d) \<subseteq> tk_id ` set (tasks d) \<and> tk_scope ` set (tasks d) \<subseteq> sc_id ` set (scopes d)"

text \<open>How an operation and its task go together.\<close>

definition pair_ok :: "op_row \<Rightarrow> task_row \<Rightarrow> bool" where
  "pair_ok r t \<longleftrightarrow> op_version r \<le> tk_version t
     \<and> (op_state r = Submitted \<longrightarrow> tk_state t \<in> {Running, CancelRequested})
     \<and> (op_state r = Unknown \<longrightarrow> tk_state t = OutcomeUnknown)
     \<and> (op_state r = Unsubmitted \<longrightarrow> tk_state t \<notin> {TaskCancelled, CancelRequested})"

definition pairs_ok :: "db \<Rightarrow> bool" where
  "pairs_ok d \<longleftrightarrow> (\<forall>r\<in>set (operations d). \<forall>t\<in>set (tasks d). op_task r = tk_id t \<longrightarrow> pair_ok r t)"

definition single_flight :: "db \<Rightarrow> bool" where
  "single_flight d \<longleftrightarrow> (\<forall>r\<in>set (operations d). \<forall>r'\<in>set (operations d).
     op_state r \<in> {Submitted, Unknown} \<longrightarrow> op_state r' \<in> {Submitted, Unknown} \<longrightarrow> op_id r = op_id r')"

definition submitted_ok :: "db \<Rightarrow> bool" where
  "submitted_ok d \<longleftrightarrow> (\<forall>r\<in>set (operations d). (op_submitted r \<noteq> None) = (op_state r \<in> {Submitted, Unknown, Settled}))"

definition capacity_ok :: "db \<Rightarrow> bool" where
  "capacity_ok d \<longleftrightarrow> (\<forall>sid. scope_task_count sid d \<le> 8 \<and> open_count sid d \<le> 32)"

definition attached :: "pystr \<Rightarrow> db \<Rightarrow> bool" where
  "attached sid d \<longleftrightarrow> (\<exists>s\<in>set (scopes d). sc_id s = sid \<and> sc_attached s)"

definition detached_ok :: "db \<Rightarrow> bool" where
  "detached_ok d \<longleftrightarrow> (\<forall>r\<in>set (operations d). \<forall>t\<in>set (tasks d). op_task r = tk_id t \<longrightarrow> op_state r = Unsubmitted
     \<longrightarrow> attached (tk_scope t) d)"

definition question_ok :: "db \<Rightarrow> question_row \<Rightarrow> bool" where
  "question_ok d q \<longleftrightarrow> attached (q_scope q) d \<and> (\<exists>t\<in>set (tasks d). tk_id t = q_task q \<and> tk_scope t = q_scope q
     \<and> tk_version t = q_version q \<and> tk_question t = Some (q_text q) \<and> tk_state t \<notin> set closed_states)"

definition questions_ok :: "db \<Rightarrow> bool" where
  "questions_ok d \<longleftrightarrow> (\<forall>q\<in>set (questions d). question_ok d q)"

definition journal_ok :: "db \<Rightarrow> bool" where
  "journal_ok d \<longleftrightarrow> keys_ok d \<and> refs_ok d \<and> pairs_ok d \<and> single_flight d \<and> submitted_ok d \<and> capacity_ok d
     \<and> detached_ok d \<and> questions_ok d"

section \<open>Keys and references\<close>

lemma in_update_where:
  "x \<in> set (update_where P f rows) \<longleftrightarrow> (\<exists>r\<in>set rows. x = (if P r then f r else r))"
  by (auto simp: set_update_where)

lemma key_image_update_where:
  "(\<And>r. P r \<Longrightarrow> key (f r) = key r) \<Longrightarrow> key ` set (update_where P f rows) = key ` set rows"
  unfolding set_update_where image_image by (rule image_cong) auto

lemma distinct_map_same:
  "distinct (map key rows) \<Longrightarrow> r \<in> set rows \<Longrightarrow> r' \<in> set rows \<Longrightarrow> key r = key r' \<Longrightarrow> r = r'"
  by (auto simp: distinct_map inj_on_def)

lemma settle_questions_rest [simp]:
  "scopes (settle_questions a b r t bi q s d) = scopes d" "tasks (settle_questions a b r t bi q s d) = tasks d"
  "operations (settle_questions a b r t bi q s d) = operations d" "commands (settle_questions a b r t bi q s d) = commands d"
  by (auto simp: settle_questions_def store_updates split: option.splits list.splits)

lemma settle_questions_set:
  "questions (settle_questions result state r t binding q sid d) =
     (if result \<noteq> AwaitingInput then filter (\<lambda>b. q_task b \<noteq> op_task r) (questions d)
      else if state = AwaitingInput \<and> op_version r = tk_version t \<and> scope_attached (tk_scope t) d
              \<and> (case binding of None \<Rightarrow> True | Some b \<Rightarrow> q_task b = op_task r)
      then (case q of Some (c # cs) \<Rightarrow> filter (\<lambda>b. q_scope b \<noteq> tk_scope t) (questions d) @
              [\<lparr>q_scope = tk_scope t, q_task = op_task r, q_text = c # cs, q_source = lit ''backend'',
                q_version = op_version r, q_id = (case binding of None \<Rightarrow> sid | Some b \<Rightarrow> if c # cs = q_text b then q_id b else sid)\<rparr>]
            | _ \<Rightarrow> filter (\<lambda>b. q_task b \<noteq> op_task r) (questions d))
      else questions d)"
proof (cases q)
  case None then show ?thesis by (simp add: settle_questions_def store_updates)
next
  case (Some v)
  then show ?thesis by (cases v) (simp_all add: settle_questions_def store_updates)
qed

lemma distinct_put: "distinct (map key rows) \<Longrightarrow> k = key q \<Longrightarrow> distinct (map key (filter (\<lambda>r. key r \<noteq> k) rows @ [q]))"
  by (auto simp: distinct_map inj_on_def)

lemma distinct_settle_questions:
  "distinct (map q_scope (questions d)) \<Longrightarrow> distinct (map q_scope (questions (settle_questions a b r t bi q s d)))"
  unfolding settle_questions_set
  by (auto simp: distinct_map inj_on_def split: option.splits list.splits)

lemmas update_simps = map_update_where key_image_update_where with_receipt_def unknown_tasks_def unknown_ops_def

lemma scope_attachedD: "scope_attached sid d \<Longrightarrow> attached sid d"
  by (auto simp: scope_attached_def attached_def find_scope_def split: option.splits dest!: row_by_SomeD)

lemma scope_attached_iff: "keys_ok d \<Longrightarrow> scope_attached sid d \<longleftrightarrow> attached sid d"
  by (auto simp: scope_attached_def attached_def find_scope_def keys_ok_def row_by_unique
     split: option.splits dest!: row_by_SomeD dest: row_by_NoneD distinct_map_same)

lemma attachedD: "attached sid d \<Longrightarrow> sid \<in> sc_id ` set (scopes d)"
  by (auto simp: attached_def)

lemma keys_step: "core_step d d' \<Longrightarrow> keys_ok d \<Longrightarrow> keys_ok d'"
  by (induction rule: core_step.induct)
    (auto simp: keys_ok_def core_is_def update_simps distinct_map_filter distinct_put distinct_settle_questions)

lemma refs_step: "core_step d d' \<Longrightarrow> refs_ok d \<Longrightarrow> refs_ok d'"
  by (induction rule: core_step.induct)
    (auto simp: refs_ok_def core_is_def update_simps dest!: scope_attachedD attachedD)


section \<open>Operations in flight\<close>

lemma same_op: "keys_ok d \<Longrightarrow> r \<in> set (operations d) \<Longrightarrow> r' \<in> set (operations d) \<Longrightarrow> op_id r = op_id r' \<Longrightarrow> r = r'"
  by (auto simp: keys_ok_def dest: distinct_map_same)

lemma same_task: "keys_ok d \<Longrightarrow> t \<in> set (tasks d) \<Longrightarrow> t' \<in> set (tasks d) \<Longrightarrow> tk_id t = tk_id t' \<Longrightarrow> t = t'"
  by (auto simp: keys_ok_def dest: distinct_map_same)

lemma single_flightD:
  "single_flight d \<Longrightarrow> keys_ok d \<Longrightarrow> r \<in> set (operations d) \<Longrightarrow> r' \<in> set (operations d) \<Longrightarrow> op_state r \<in> {Submitted, Unknown}
     \<Longrightarrow> op_state r' \<in> {Submitted, Unknown} \<Longrightarrow> r = r'"
  unfolding single_flight_def by (meson same_op)

lemma pairs_okD: "pairs_ok d \<Longrightarrow> r \<in> set (operations d) \<Longrightarrow> t \<in> set (tasks d) \<Longrightarrow> op_task r = tk_id t \<Longrightarrow> pair_ok r t"
  by (simp add: pairs_ok_def)

lemma cancel_op_state_cases: "cancel_op_state tid d = Suspended \<or> cancel_op_state tid d = OpCancelled"
  by (simp add: cancel_op_state_def)

lemma cancel_op_state_neq [simp]:
  "cancel_op_state tid d \<noteq> Submitted" "cancel_op_state tid d \<noteq> Unknown" "cancel_op_state tid d \<noteq> Unsubmitted"
  "cancel_op_state tid d \<noteq> Settled"
  by (simp_all add: cancel_op_state_def)

text \<open>What one step may do to an operation; \<open>c\<close> is the operation the step claims, if the journal is \<open>free\<close>.\<close>

definition evolves :: "bool \<Rightarrow> pystr \<Rightarrow> op_row \<Rightarrow> op_row \<Rightarrow> bool" where
  "evolves free c r r' \<longleftrightarrow> op_id r' = op_id r \<and> op_task r' = op_task r \<and> op_utterance r' = op_utterance r
     \<and> op_version r' = op_version r \<and> op_payload r' = op_payload r
     \<and> op_kind r' = op_kind r \<and> op_text r' = op_text r \<and> op_voice r' = op_voice r
     \<and> (op_state r' = op_state r \<and> op_submitted r' = op_submitted r
        \<or> op_state r = Unsubmitted \<and> op_state r' \<in> {Suspended, OpCancelled} \<and> op_submitted r' = op_submitted r
        \<or> op_state r = Unsubmitted \<and> op_state r' = Submitted \<and> op_submitted r' \<noteq> None \<and> free \<and> op_id r = c
        \<or> op_state r = Submitted \<and> op_state r' \<in> {Settled, Unknown} \<and> op_submitted r' = op_submitted r
        \<or> op_state r = Unknown \<and> op_state r' = Settled \<and> op_submitted r' = op_submitted r)"

definition fresh_op :: "op_row \<Rightarrow> bool" where
  "fresh_op r \<longleftrightarrow> op_state r = Unsubmitted \<and> op_submitted r = None"

definition ops_evolve :: "bool \<Rightarrow> pystr \<Rightarrow> op_row list \<Rightarrow> op_row list \<Rightarrow> bool" where
  "ops_evolve free c W W' \<longleftrightarrow> (\<forall>r'\<in>set W'. (\<exists>r\<in>set W. evolves free c r r') \<or> fresh_op r' \<and> op_id r' \<notin> op_id ` set W)"

lemma evolves_refl [simp]: "evolves b c r r"
  by (simp add: evolves_def)

lemma ops_evolve_refl [simp]: "ops_evolve b c W W"
  by (auto simp: ops_evolve_def intro: evolves_refl)

lemma ops_evolve_add: "fresh_op r \<Longrightarrow> op_id r \<notin> op_id ` set W \<Longrightarrow> ops_evolve b c W (W @ [r])"
  by (auto simp: ops_evolve_def intro: evolves_refl)

lemma ops_evolve_update:
  assumes "\<And>r. r \<in> set W \<Longrightarrow> P r \<Longrightarrow> evolves b c r (f r)"
  shows "ops_evolve b c W (update_where P f W)"
  unfolding ops_evolve_def
proof (intro ballI disjI1)
  fix r' assume "r' \<in> set (update_where P f W)"
  then obtain r where "r \<in> set W" "r' = (if P r then f r else r)" by (auto simp: in_update_where)
  then show "\<exists>r\<in>set W. evolves b c r r'" using assms by (intro bexI [of _ r]) auto
qed

lemma in_double_update:
  assumes "w' \<in> set (update_where Q g (update_where P f W))" "\<And>w. \<not> Q (f w)"
  obtains w where "w \<in> set W" "w' = (if P w then f w else if Q w then g w else w)"
proof -
  from assms(1) obtain v where v: "v \<in> set (update_where P f W)" "w' = (if Q v then g v else v)"
    by (auto simp: in_update_where [where P = Q])
  from v(1) obtain w where "w \<in> set W" "v = (if P w then f w else w)"
    by (auto simp: in_update_where)
  then show thesis using v(2) assms(2) by (intro that [of w]) auto
qed

lemma reconciled_evolve:
  assumes "keys_ok d" "r \<in> set (operations d)" "op_state r = Unknown"
    and f: "\<And>w. op_state w = Unknown \<Longrightarrow> evolves b c w (f w) \<and> op_state (f w) = Settled"
    and g: "\<And>w. op_state w = Unsubmitted \<Longrightarrow> evolves b c w (g w)"
  shows "ops_evolve b c (operations d) (update_where (\<lambda>w. op_task w = op_task r \<and> op_state w = Unsubmitted) g
           (update_where (\<lambda>w. op_id w = op_id r) f (operations d)))"
  unfolding ops_evolve_def
proof (intro ballI disjI1)
  fix w' assume "w' \<in> set (update_where (\<lambda>w. op_task w = op_task r \<and> op_state w = Unsubmitted) g
           (update_where (\<lambda>w. op_id w = op_id r) f (operations d)))"
  then obtain w where w: "w \<in> set (operations d)"
    and w': "w' = (if op_id w = op_id r then f w else if op_task w = op_task r \<and> op_state w = Unsubmitted then g w else w)"
    using f same_op [OF assms(1,2)] assms(3)
    by (fastforce simp: in_update_where split: if_splits)
  show "\<exists>w\<in>set (operations d). evolves b c w w'"
    using w w' f [of w] g [of w] same_op [OF assms(1,2) w] assms(3) by (intro bexI [OF _ w]) auto
qed

lemma ops_evolve_step:
  assumes "core_step d d'" "keys_ok d"
  shows "\<exists>c. ops_evolve (\<not> has_unresolved d) c (operations d) (operations d')"
  using assms
proof (cases rule: core_step.cases)
  case (accepted t r now)
  then show ?thesis by (auto simp: core_is_def fresh_op_def intro!: ops_evolve_add)
next
  case (cancelled t c now)
  have "ops_evolve (\<not> has_unresolved d) [] (operations d) (operations d')"
    using cancelled cancel_op_state_cases [of "tk_id t" d]
    by (auto simp: core_is_def evolves_def intro!: ops_evolve_update)
  then show ?thesis ..
next
  case (dispatched r t now)
  have "ops_evolve (\<not> has_unresolved d) (op_id r) (operations d) (operations d')"
    using dispatched by (auto simp: core_is_def evolves_def intro!: ops_evolve_update dest: same_op [OF assms(2) _ dispatched(1)])
  then show ?thesis ..
next
  case (settled r t result state binding q replies now enc2 enc1 sid)
  have "ops_evolve (\<not> has_unresolved d) [] (operations d) (operations d')"
    unfolding core_is_chain [OF settled(10), THEN conjunct2, THEN conjunct2, THEN conjunct1]
    using settled(4) by (auto simp: evolves_def intro!: ops_evolve_update dest: same_op [OF assms(2) _ settled(1)])
  then show ?thesis ..
next
  case (receipted r req exe rc)
  then show ?thesis by (auto simp: core_is_def evolves_def with_receipt_def intro!: ops_evolve_update)
next
  case (lost r now reason)
  have "ops_evolve (\<not> has_unresolved d) [] (operations d) (operations d')"
    using lost by (auto simp: core_is_def evolves_def unknown_ops_def intro!: ops_evolve_update dest: same_op [OF assms(2) _ lost(1)])
  then show ?thesis ..
next
  case (reconciled r result now enc2 enc1)
  have "ops_evolve (\<not> has_unresolved d) [] (operations d) (operations d')"
    unfolding core_is_chain [OF reconciled(4), THEN conjunct2, THEN conjunct2, THEN conjunct1]
    by (rule reconciled_evolve [OF assms(2) reconciled(1,2)]) (auto simp: evolves_def)
  then show ?thesis ..
next
  case (detached sid)
  then show ?thesis by (auto simp: core_is_def evolves_def intro!: ops_evolve_update)
qed (auto simp: core_is_def)

lemma submitted_step:
  assumes "core_step d d'" "keys_ok d" "submitted_ok d"
  shows "submitted_ok d'"
proof -
  obtain c where "ops_evolve (\<not> has_unresolved d) c (operations d) (operations d')"
    using ops_evolve_step [OF assms(1,2)] ..
  then show ?thesis using assms(3)
    unfolding submitted_ok_def ops_evolve_def fresh_op_def evolves_def by (smt (verit) insert_iff empty_iff dispatch_state.distinct)
qed

lemma single_flight_step:
  assumes "core_step d d'" "keys_ok d" "single_flight d"
  shows "single_flight d'"
proof -
  obtain c where c: "ops_evolve (\<not> has_unresolved d) c (operations d) (operations d')"
    using ops_evolve_step [OF assms(1,2)] ..
  have origin: "\<exists>r\<in>set (operations d). op_id r = op_id r' \<and> (op_state r \<in> {Submitted, Unknown} \<or> \<not> has_unresolved d \<and> op_id r = c)"
    if r': "r' \<in> set (operations d')" "op_state r' \<in> {Submitted, Unknown}" for r'
  proof -
    have "(\<exists>r\<in>set (operations d). evolves (\<not> has_unresolved d) c r r') \<or> fresh_op r'"
      using c r'(1) by (auto simp: ops_evolve_def)
    then show ?thesis using r'(2) by (auto simp: evolves_def fresh_op_def)
  qed
  show ?thesis
    unfolding single_flight_def
    using origin assms(3) by (metis has_unresolved_iff single_flight_def)
qed

section \<open>Operations and their tasks\<close>

lemma pairs_touch:
  assumes "keys_ok d" "pairs_ok d" "t \<in> set (tasks d)"
    and T: "tasks d' = update_where (\<lambda>u. tk_id u = tk_id t) f (tasks d)" "\<And>u. tk_id u = tk_id t \<Longrightarrow> tk_id (f u) = tk_id u"
    and W: "\<And>r'. r' \<in> set (operations d') \<Longrightarrow> \<exists>r\<in>set (operations d). op_task r' = op_task r
              \<and> (op_task r \<noteq> tk_id t \<longrightarrow> r' = r) \<and> (op_task r = tk_id t \<longrightarrow> pair_ok r' (f t))"
  shows "pairs_ok d'"
  unfolding pairs_ok_def
proof (intro ballI impI)
  fix r' t' assume r': "r' \<in> set (operations d')" and t': "t' \<in> set (tasks d')" and e: "op_task r' = tk_id t'"
  obtain r where r: "r \<in> set (operations d)" "op_task r' = op_task r" "op_task r \<noteq> tk_id t \<longrightarrow> r' = r"
      "op_task r = tk_id t \<longrightarrow> pair_ok r' (f t)"
    using W [OF r'] by blast
  obtain u where u: "u \<in> set (tasks d)" "t' = (if tk_id u = tk_id t then f u else u)"
    using t' by (auto simp: T(1) in_update_where)
  show "pair_ok r' t'"
  proof (cases "tk_id u = tk_id t")
    case True
    then show ?thesis using same_task [OF assms(1) u(1) assms(3)] r u e T(2) by simp
  next
    case False
    then show ?thesis using r u e pairs_okD [OF assms(2) r(1) u(1)] by simp
  qed
qed

definition task_kept :: "task_row \<Rightarrow> task_row \<Rightarrow> bool" where
  "task_kept t' t \<longleftrightarrow> tk_id t' = tk_id t \<and> tk_version t' = tk_version t \<and> tk_state t' = tk_state t"

definition op_kept :: "op_row \<Rightarrow> op_row \<Rightarrow> bool" where
  "op_kept r' r \<longleftrightarrow> op_task r' = op_task r \<and> op_version r' = op_version r \<and> (op_state r' = op_state r \<or> op_state r' = Suspended)"

lemma kept_simps [simp]:
  "task_kept t t" "op_kept r r" "task_kept (u\<lparr>tk_question := x\<rparr>) t = task_kept u t"
  "op_kept (r\<lparr>op_state := Suspended\<rparr>) r" "op_kept (with_receipt w a b c r) r"
  by (simp_all add: task_kept_def op_kept_def with_receipt_def)

lemma kept_bex:
  "t \<in> A \<Longrightarrow> \<exists>u\<in>A. task_kept t u" "t \<in> A \<Longrightarrow> \<exists>u\<in>A. task_kept (t\<lparr>tk_question := x\<rparr>) u"
  "r \<in> B \<Longrightarrow> \<exists>w\<in>B. op_kept r w"
  "r \<in> B \<Longrightarrow> \<exists>w\<in>B. op_kept (r\<lparr>op_state := Suspended\<rparr>) w" "r \<in> B \<Longrightarrow> \<exists>w\<in>B. op_kept (with_receipt v a b c r) w"
  by (rule bexI [rotated], assumption, simp)+

lemma pairs_same:
  assumes "pairs_ok d"
    and "\<And>t'. t' \<in> set (tasks d') \<Longrightarrow> \<exists>t\<in>set (tasks d). task_kept t' t"
    and "\<And>r'. r' \<in> set (operations d') \<Longrightarrow> \<exists>r\<in>set (operations d). op_kept r' r"
  shows "pairs_ok d'"
  unfolding pairs_ok_def
proof (intro ballI impI)
  fix r' t' assume a: "r' \<in> set (operations d')" "t' \<in> set (tasks d')" "op_task r' = tk_id t'"
  from assms(2) [OF a(2)] assms(3) [OF a(1)] obtain r t where "r \<in> set (operations d)" "op_kept r' r"
    "t \<in> set (tasks d)" "task_kept t' t" by blast
  moreover have "pair_ok r t"
    using pairs_okD [OF assms(1)] calculation a(3) by (simp add: op_kept_def task_kept_def)
  ultimately show "pair_ok r' t'" by (auto simp: pair_ok_def op_kept_def task_kept_def)
qed

lemma pairs_step:
  assumes "core_step d d'" and k: "keys_ok d" and rf: "refs_ok d" and p: "pairs_ok d" and sf: "single_flight d"
    and sub: "submitted_ok d"
  shows "pairs_ok d'"
  using assms(1)
proof (cases rule: core_step.cases)
  case (create t)
  then have "op_task r \<noteq> tk_id t" if "r \<in> set (operations d)" for r
    using rf that unfolding refs_ok_def by (metis imageI subsetD)
  then show ?thesis using p create by (auto simp: core_is_def pairs_ok_def)
next
  case (accepted t r now)
  let ?f = "\<lambda>u. u\<lparr>tk_version := Suc (tk_version t), tk_updated := now, tk_question := None\<rparr>"
  show ?thesis unfolding pairs_ok_def
  proof (intro ballI impI)
    fix r' t' assume r': "r' \<in> set (operations d')" and t': "t' \<in> set (tasks d')" and e: "op_task r' = tk_id t'"
    obtain u where u: "u \<in> set (tasks d)" "t' = (if tk_id u = tk_id t then ?f u else u)"
      using t' by (auto simp: core_is_chain [OF accepted(12)] in_update_where)
    show "pair_ok r' t'"
    proof (cases "r' = r")
      case True
      then have "u = t" using same_task [OF k u(1) accepted(1)] u e accepted(8) by (auto split: if_splits)
      then show ?thesis using True accepted(3,9,10) u by (auto simp: pair_ok_def closed_states_def)
    next
      case False
      then have "r' \<in> set (operations d)" using r' by (simp add: core_is_chain [OF accepted(12)])
      then have "pair_ok r' u" using e u pairs_okD [OF p] by (auto split: if_splits)
      then show ?thesis using u same_task [OF k u(1) accepted(1)] by (auto simp: pair_ok_def)
    qed
  qed
next
  case (asked t q)
  then show ?thesis by (intro pairs_same [OF p]) (auto simp: core_is_def in_update_where intro: kept_bex)
next
  case (cancelled t c now)
  have sent: "was_dispatched (tk_id t) d" if "r \<in> set (operations d)" "op_task r = tk_id t" "op_state r = Submitted" for r
    using sub that by (auto simp: was_dispatched_def list_ex_iff submitted_ok_def)
  have old: "pair_ok r t" if "r \<in> set (operations d)" "op_task r = tk_id t" for r
    using p that cancelled(1) by (auto dest: pairs_okD)
  note T = core_is_chain [OF cancelled(5), THEN conjunct2, THEN conjunct1]
  show ?thesis
  proof (rule pairs_touch [OF k p cancelled(1) T])
    fix w' assume "w' \<in> set (operations d')"
    then obtain w where w: "w \<in> set (operations d)" and w': "w' = (if op_task w = tk_id t \<and> op_state w = Unsubmitted
        then w\<lparr>op_state := cancel_op_state (tk_id t) d\<rparr> else w)"
      by (auto simp: core_is_chain [OF cancelled(5)] in_update_where)
    show "\<exists>v\<in>set (operations d). op_task w' = op_task v \<and> (op_task v \<noteq> tk_id t \<longrightarrow> w' = v)
       \<and> (op_task v = tk_id t \<longrightarrow> pair_ok w' (t\<lparr>tk_state := cancel_state (tk_id t) d, tk_version := Suc (tk_version t),
            tk_question := None, tk_updated := now\<rparr>))"
      using w' sent [OF w] old [OF w] cancelled(2)
      by (intro bexI [OF _ w]) (auto simp: pair_ok_def cancel_state_def finished_states_def)
  qed auto
next
  case (dispatched r t now)
  have old: "pair_ok w t" if "w \<in> set (operations d)" "op_task w = tk_id t" for w
    using p that dispatched(2) by (auto dest: pairs_okD)
  note T = core_is_chain [OF dispatched(8), THEN conjunct2, THEN conjunct1, folded dispatched(3)]
  show ?thesis
  proof (rule pairs_touch [OF k p dispatched(2) T])
    fix w' assume "w' \<in> set (operations d')"
    then obtain w where w: "w \<in> set (operations d)" and w': "w' = (if op_id w = op_id r then w\<lparr>op_state := Submitted, op_submitted := Some now\<rparr> else w)"
      by (auto simp: core_is_chain [OF dispatched(8)] in_update_where)
    have rr: "op_id w = op_id r \<Longrightarrow> w = r" using same_op [OF k w dispatched(1)] .
    show "\<exists>v\<in>set (operations d). op_task w' = op_task v \<and> (op_task v \<noteq> tk_id t \<longrightarrow> w' = v)
       \<and> (op_task v = tk_id t \<longrightarrow> pair_ok w' (t\<lparr>tk_state := Running, tk_updated := now\<rparr>))"
      using w w' rr old [OF w] dispatched(3,7)
      by (intro bexI [OF _ w]) (auto simp: pair_ok_def has_unresolved_iff)
  qed auto
next
  case (settled r t result state binding q replies now enc2 enc1 sid)
  have other: "op_state w \<notin> {Submitted, Unknown}" if "w \<in> set (operations d)" "op_id w \<noteq> op_id r" for w
    using that settled(1,4) sf unfolding single_flight_def by blast
  have old: "pair_ok w t" if "w \<in> set (operations d)" "op_task w = tk_id t" for w
    using p that settled(2) by (auto dest: pairs_okD)
  note T = core_is_chain [OF settled(10), THEN conjunct2, THEN conjunct1, folded settled(3)]
  show ?thesis
  proof (rule pairs_touch [OF k p settled(2) T])
    fix w' assume "w' \<in> set (operations d')"
    then obtain w where w: "w \<in> set (operations d)" and w': "w' = (if op_id w = op_id r then
        w\<lparr>op_state := Settled, op_replies := Some enc1, op_evidence := Some enc2, op_outcome := Some result, op_settled := Some now\<rparr> else w)"
      by (auto simp: core_is_chain [OF settled(10)] in_update_where)
    have rr: "op_id w = op_id r \<Longrightarrow> w = r" using same_op [OF k w settled(1)] .
    show "\<exists>v\<in>set (operations d). op_task w' = op_task v \<and> (op_task v \<noteq> tk_id t \<longrightarrow> w' = v)
       \<and> (op_task v = tk_id t \<longrightarrow> pair_ok w' (t\<lparr>tk_state := state, tk_question := q, tk_result := Suc (tk_result t), tk_updated := now\<rparr>))"
      using w w' rr other [OF w] old [OF w] settled(3,6,7)
      by (intro bexI [OF _ w]) (auto simp: pair_ok_def)
  qed auto
next
  case (receipted r req exe rc)
  then show ?thesis by (intro pairs_same [OF p]) (auto simp: core_is_def in_update_where intro: kept_bex)
next
  case (lost r now reason)
  obtain t where t: "t \<in> set (tasks d)" "tk_id t = op_task r" using rf lost(1) by (force simp: refs_ok_def)
  have other: "op_state w \<notin> {Submitted, Unknown}" if "w \<in> set (operations d)" "op_id w \<noteq> op_id r" for w
    using that lost(1,2) sf unfolding single_flight_def by blast
  have old: "pair_ok w t" if "w \<in> set (operations d)" "op_task w = tk_id t" for w
    using p that t by (auto dest: pairs_okD)
  note T = core_is_chain [OF lost(3), THEN conjunct2, THEN conjunct1, unfolded unknown_tasks_def, folded t(2)]
  show ?thesis
  proof (rule pairs_touch [OF k p t(1) T])
    fix w' assume "w' \<in> set (operations d')"
    then obtain w where w: "w \<in> set (operations d)" and w': "w' = (if op_id w = op_id r then w\<lparr>op_state := Unknown, op_reason := Some reason\<rparr> else w)"
      by (auto simp: core_is_chain [OF lost(3)] in_update_where unknown_ops_def)
    have rr: "op_id w = op_id r \<Longrightarrow> w = r" using same_op [OF k w lost(1)] .
    show "\<exists>v\<in>set (operations d). op_task w' = op_task v \<and> (op_task v \<noteq> tk_id t \<longrightarrow> w' = v)
       \<and> (op_task v = tk_id t \<longrightarrow> pair_ok w' (t\<lparr>tk_state := OutcomeUnknown, tk_question := None, tk_updated := now\<rparr>))"
      using w w' rr other [OF w] old [OF w] t(2)
      by (intro bexI [OF _ w]) (auto simp: pair_ok_def)
  qed auto
next
  case (reconciled r result now enc2 enc1)
  obtain t where t: "t \<in> set (tasks d)" "tk_id t = op_task r" using rf reconciled(1) by (force simp: refs_ok_def)
  have other: "op_state w \<notin> {Submitted, Unknown}" if "w \<in> set (operations d)" "op_id w \<noteq> op_id r" for w
    using that reconciled(1,2) sf unfolding single_flight_def by blast
  have old: "pair_ok w t" if "w \<in> set (operations d)" "op_task w = tk_id t" for w
    using p that t by (auto dest: pairs_okD)
  note T = core_is_chain [OF reconciled(4), THEN conjunct2, THEN conjunct1, folded t(2)]
  show ?thesis
  proof (rule pairs_touch [OF k p t(1) T])
    fix w' assume "w' \<in> set (operations d')"
    then obtain w where w: "w \<in> set (operations d)" and w': "w' = (if op_id w = op_id r then w\<lparr>op_state := Settled,
        op_outcome := Some result, op_evidence := Some enc1, op_replies := Some enc2, op_settled := Some now\<rparr>
        else if op_task w = op_task r \<and> op_state w = Unsubmitted then w\<lparr>op_state := Suspended\<rparr> else w)"
      unfolding core_is_chain [OF reconciled(4), THEN conjunct2, THEN conjunct2, THEN conjunct1]
      by (rule in_double_update) auto
    have rr: "op_id w = op_id r \<Longrightarrow> w = r" using same_op [OF k w reconciled(1)] .
    show "\<exists>v\<in>set (operations d). op_task w' = op_task v \<and> (op_task v \<noteq> tk_id t \<longrightarrow> w' = v)
       \<and> (op_task v = tk_id t \<longrightarrow> pair_ok w' (t\<lparr>tk_state := result, tk_question := None, tk_result := Suc (tk_result t), tk_updated := now\<rparr>))"
      using w w' rr other [OF w] old [OF w] t(2)
      by (intro bexI [OF _ w]) (auto simp: pair_ok_def)
  qed auto
next
  case (detached sid)
  then show ?thesis by (intro pairs_same [OF p]) (auto simp: core_is_def in_update_where intro: kept_bex)
qed (use p in \<open>auto simp: core_is_def pairs_ok_def\<close>)

end
