(* ===== verification/TaskStoreInv2.thy ===== *)
theory TaskStoreInv2
  imports TaskStoreInv
begin

text \<open>Second half of the journal invariants: capacities, detached scopes and open questions.\<close>

section \<open>Capacities\<close>

text \<open>The identities and scopes of the tasks, which only creation changes.\<close>

definition task_keys :: "db \<Rightarrow> (pystr \<times> pystr) list" where
  "task_keys d = map (\<lambda>t. (tk_id t, tk_scope t)) (tasks d)"

lemma op_in_scope_keys:
  "op_in_scope d sid w \<longleftrightarrow> (case row_by fst (op_task w) (task_keys d) of None \<Rightarrow> False | Some (i, s) \<Rightarrow> s = sid)"
proof -
  have m: "row_by fst k (map (\<lambda>t. (tk_id t, tk_scope t)) T) = map_option (\<lambda>t. (tk_id t, tk_scope t)) (row_by tk_id k T)" for k T
    by (induction T) auto
  show ?thesis unfolding op_in_scope_def find_task_def task_keys_def m by (simp split: option.split)
qed

lemma op_in_scope_same: "task_keys d' = task_keys d \<Longrightarrow> op_in_scope d' = op_in_scope d"
  by (simp add: op_in_scope_keys fun_eq_iff)

lemma task_count_keys: "scope_task_count sid d = length (filter (\<lambda>p. snd p = sid) (task_keys d))"
  by (simp add: scope_task_count_def task_keys_def filter_map comp_def)

lemma task_keys_step:
  "core_step d d' \<Longrightarrow> task_keys d' = task_keys d \<or>
     (\<exists>t. tasks d' = tasks d @ [t] \<and> operations d' = operations d \<and> scopes d' = scopes d \<and> questions d' = questions d
        \<and> tk_id t \<notin> tk_id ` set (tasks d) \<and> scope_task_count (tk_scope t) d < 8 \<and> attached (tk_scope t) d)"
  by (induction rule: core_step.induct)
    (auto simp: core_is_def task_keys_def unknown_tasks_def map_update_where dest: scope_attachedD)

lemma op_in_scope_create:
  assumes "tasks d' = tasks d @ [t]" "op_task w \<in> tk_id ` set (tasks d)"
  shows "op_in_scope d' sid w = op_in_scope d sid w"
  using assms(2) by (auto simp: op_in_scope_def find_task_def assms(1) row_by_None_iff split: option.split)

lemma op_in_scope_iff:
  assumes "keys_ok d"
  shows "op_in_scope d sid w \<longleftrightarrow> (\<exists>t\<in>set (tasks d). tk_id t = op_task w \<and> tk_scope t = sid)"
proof (cases "find_task (op_task w) d")
  case None
  then have "op_task w \<notin> tk_id ` set (tasks d)" by (simp add: find_task_def row_by_None_iff)
  then show ?thesis by (auto simp: op_in_scope_def None image_iff)
next
  case (Some t)
  then have t: "t \<in> set (tasks d)" "tk_id t = op_task w" by (auto dest: find_taskD)
  then have "u = t" if "u \<in> set (tasks d)" "tk_id u = op_task w" for u
    using same_task [OF assms that(1) t(1)] that(2) by simp
  then have "(\<exists>u\<in>set (tasks d). tk_id u = op_task w \<and> tk_scope u = sid) \<longleftrightarrow> tk_scope t = sid"
    using t by metis
  then show ?thesis by (simp add: op_in_scope_def Some)
qed

lemma length_filter_update_le:
  "(\<And>r. r \<in> set rows \<Longrightarrow> P r \<Longrightarrow> Q (f r) \<Longrightarrow> Q r) \<Longrightarrow> length (filter Q (update_where P f rows)) \<le> length (filter Q rows)"
  by (induction rows) (auto simp: le_SucI)

lemma open_count_le:
  assumes "task_keys d' = task_keys d" "operations d' = update_where P f (operations d)"
    and "\<And>w. P w \<Longrightarrow> op_task (f w) = op_task w"
    and "\<And>w. w \<in> set (operations d) \<Longrightarrow> P w \<Longrightarrow> op_state (f w) \<in> set open_states \<Longrightarrow> op_state w \<in> set open_states"
  shows "open_count sid d' \<le> open_count sid d"
proof -
  have "op_in_scope d sid (f w) = op_in_scope d sid w" if "P w" for w
    using assms(3) [OF that] by (simp add: op_in_scope_def)
  then show ?thesis
    unfolding open_count_def assms(2) op_in_scope_same [OF assms(1)]
    by (intro length_filter_update_le) (use assms(4) in auto)
qed

lemma double_update:
  assumes "\<And>w. P w \<Longrightarrow> \<not> Q (f w)"
  shows "update_where Q g (update_where P f W) = update_where (\<lambda>w. P w \<or> Q w) (\<lambda>w. if P w then f w else g w) W"
  using assms by (auto simp: update_where_def)

definition ops_shrink :: "db \<Rightarrow> db \<Rightarrow> bool" where
  "ops_shrink d d' \<longleftrightarrow> (\<exists>P f. operations d' = update_where P f (operations d) \<and> task_keys d' = task_keys d
        \<and> (\<forall>w. op_task (f w) = op_task w \<and> op_id (f w) = op_id w)
        \<and> (\<forall>w\<in>set (operations d). P w \<longrightarrow> op_state (f w) \<in> set open_states \<longrightarrow> op_state w \<in> set open_states))"

lemma ops_shrinkI:
  assumes "operations d' = update_where P f (operations d)" "task_keys d' = task_keys d" "\<And>w. op_task (f w) = op_task w \<and> op_id (f w) = op_id w"
    "\<And>w. w \<in> set (operations d) \<Longrightarrow> P w \<Longrightarrow> op_state (f w) \<in> set open_states \<Longrightarrow> op_state w \<in> set open_states"
  shows "A \<or> ops_shrink d d' \<or> B"
  unfolding ops_shrink_def using assms by blast

lemma ops_step_cases:
  assumes "core_step d d'" "keys_ok d"
  shows "operations d' = operations d \<or>
     ops_shrink d d' \<or>
     (\<exists>t r. t \<in> set (tasks d) \<and> scope_attached (tk_scope t) d \<and> open_count (tk_scope t) d < 32 \<and> op_task r = tk_id t
        \<and> op_state r = Unsubmitted \<and> operations d' = operations d @ [r] \<and> task_keys d' = task_keys d)"
  using assms(1)
proof (cases rule: core_step.cases)
  case (accepted t r now)
  then show ?thesis by (intro disjI2) (auto simp: core_is_def task_keys_def map_update_where)
next
  case (cancelled t c now)
  then show ?thesis
    by (intro ops_shrinkI [OF core_is_chain [OF cancelled(5), THEN conjunct2, THEN conjunct2, THEN conjunct1]])
      (auto simp: core_is_def task_keys_def map_update_where open_states_def)
next
  case (dispatched r t now)
  then show ?thesis
    by (intro ops_shrinkI [OF core_is_chain [OF dispatched(8), THEN conjunct2, THEN conjunct2, THEN conjunct1]])
      (auto simp: core_is_def task_keys_def map_update_where open_states_def dest: same_op [OF assms(2) _ dispatched(1)])
next
  case (settled r t result state binding q replies now enc2 enc1 sid')
  then show ?thesis
    by (intro ops_shrinkI [OF core_is_chain [OF settled(10), THEN conjunct2, THEN conjunct2, THEN conjunct1]])
      (auto simp: core_is_def task_keys_def map_update_where open_states_def)
next
  case (receipted r req exe rc)
  then show ?thesis
    by (intro ops_shrinkI [OF core_is_chain [OF receipted, THEN conjunct2, THEN conjunct2, THEN conjunct1]])
      (auto simp: core_is_def task_keys_def with_receipt_def)
next
  case (lost r now reason)
  then show ?thesis
    by (intro ops_shrinkI [OF core_is_chain [OF lost(3), THEN conjunct2, THEN conjunct2, THEN conjunct1, unfolded unknown_ops_def]])
      (auto simp: core_is_def task_keys_def map_update_where unknown_tasks_def open_states_def dest: same_op [OF assms(2) _ lost(1)])
next
  case (reconciled r result now enc2 enc1)
  have "operations d' = update_where (\<lambda>w. op_id w = op_id r \<or> op_task w = op_task r \<and> op_state w = Unsubmitted)
     (\<lambda>w. if op_id w = op_id r then w\<lparr>op_state := Settled, op_outcome := Some result, op_evidence := Some enc1,
              op_replies := Some enc2, op_settled := Some now\<rparr> else w\<lparr>op_state := Suspended\<rparr>) (operations d)"
    unfolding core_is_chain [OF reconciled(4), THEN conjunct2, THEN conjunct2, THEN conjunct1]
    by (rule double_update) simp
  moreover have "task_keys d' = task_keys d"
    using reconciled(4) by (simp add: core_is_def task_keys_def map_update_where)
  ultimately show ?thesis
    by (rule ops_shrinkI) (auto simp: open_states_def)
next
  case (detached s)
  then show ?thesis
    by (intro ops_shrinkI [OF core_is_chain [OF detached, THEN conjunct2, THEN conjunct2, THEN conjunct1]])
      (auto simp: core_is_def task_keys_def open_states_def)
qed (auto simp: core_is_def)

lemma open_count_step:
  assumes "core_step d d'" and k: "keys_ok d" and rf: "refs_ok d"
  shows "open_count sid d' \<le> open_count sid d \<or>
     operations d' \<noteq> operations d \<and> open_count sid d' = Suc (open_count sid d) \<and> open_count sid d < 32"
proof -
  have keep: "open_count sid d' \<le> open_count sid d" if same: "operations d' = operations d"
    using task_keys_step [OF assms(1)]
  proof
    assume "task_keys d' = task_keys d"
    from op_in_scope_same [OF this] show ?thesis by (simp add: open_count_def same)
  next
    assume "\<exists>t. tasks d' = tasks d @ [t] \<and> operations d' = operations d \<and> scopes d' = scopes d \<and> questions d' = questions d
        \<and> tk_id t \<notin> tk_id ` set (tasks d) \<and> scope_task_count (tk_scope t) d < 8 \<and> attached (tk_scope t) d"
    then obtain t where t: "tasks d' = tasks d @ [t]" by blast
    have "op_in_scope d' sid w = op_in_scope d sid w" if "w \<in> set (operations d)" for w
      using that rf by (intro op_in_scope_create [of d' d t] t) (auto simp: refs_ok_def)
    then have "filter (\<lambda>r. op_in_scope d' sid r \<and> op_state r \<in> set open_states) (operations d) =
       filter (\<lambda>r. op_in_scope d sid r \<and> op_state r \<in> set open_states) (operations d)"
      by (intro filter_cong) auto
    then show ?thesis by (simp add: open_count_def same)
  qed
  from ops_step_cases [OF assms(1) k] show ?thesis
  proof (elim disjE)
    assume "ops_shrink d d'"
    then obtain P f where "operations d' = update_where P f (operations d)" "task_keys d' = task_keys d"
      "\<And>w. op_task (f w) = op_task w"
      "\<And>w. w \<in> set (operations d) \<Longrightarrow> P w \<Longrightarrow> op_state (f w) \<in> set open_states \<Longrightarrow> op_state w \<in> set open_states"
      unfolding ops_shrink_def by blast
    then show ?thesis by (intro disjI1) (rule open_count_le)
  next
    assume "\<exists>t r. t \<in> set (tasks d) \<and> scope_attached (tk_scope t) d \<and> open_count (tk_scope t) d < 32 \<and> op_task r = tk_id t
        \<and> op_state r = Unsubmitted \<and> operations d' = operations d @ [r] \<and> task_keys d' = task_keys d"
    then obtain t r where t: "t \<in> set (tasks d)" "open_count (tk_scope t) d < 32" "op_task r = tk_id t" "op_state r = Unsubmitted"
        "operations d' = operations d @ [r]" and tk: "task_keys d' = task_keys d" by blast
    have "op_in_scope d sid r \<Longrightarrow> sid = tk_scope t"
      using t(1,3) same_task [OF k _ t(1)] by (auto simp: op_in_scope_iff [OF k])
    then show ?thesis
      using t by (auto simp: open_count_def op_in_scope_same [OF tk] open_states_def)
  qed (use keep in simp)
qed

lemma capacity_step:
  assumes "core_step d d'" and k: "keys_ok d" and rf: "refs_ok d" and c: "capacity_ok d"
  shows "capacity_ok d'"
  unfolding capacity_ok_def
proof (intro allI conjI)
  fix sid
  have old: "scope_task_count sid d \<le> 8" "open_count sid d \<le> 32" using c by (auto simp: capacity_ok_def)
  show "scope_task_count sid d' \<le> 8"
    using task_keys_step [OF assms(1)]
  proof
    assume "task_keys d' = task_keys d"
    then show ?thesis using old(1) by (simp add: task_count_keys)
  qed (use old(1) in \<open>auto simp: scope_task_count_def\<close>)
  show "open_count sid d' \<le> 32"
    using open_count_step [OF assms(1) k rf, of sid] old(2) by auto
qed

section \<open>Detached scopes\<close>

lemma unsubmitted_origin:
  assumes "core_step d d'" "keys_ok d" "r' \<in> set (operations d')" "op_state r' = Unsubmitted"
  shows "(\<exists>r\<in>set (operations d). op_state r = Unsubmitted \<and> op_task r = op_task r')
     \<or> (\<exists>t\<in>set (tasks d). tk_id t = op_task r' \<and> attached (tk_scope t) d)"
proof -
  obtain c where c: "ops_evolve (\<not> has_unresolved d) c (operations d) (operations d')"
    using ops_evolve_step [OF assms(1,2)] ..
  show ?thesis
  proof (cases "\<exists>r\<in>set (operations d). evolves (\<not> has_unresolved d) c r r'")
    case True
    then obtain r where "r \<in> set (operations d)" "evolves (\<not> has_unresolved d) c r r'" by blast
    moreover from this(2) assms(4) have "op_state r = Unsubmitted \<and> op_task r = op_task r'" by (auto simp: evolves_def)
    ultimately show ?thesis by blast
  next
    case False
    then have "op_id r' \<notin> op_id ` set (operations d)" using c assms(3) by (auto simp: ops_evolve_def)
    then have new: "\<not> (\<exists>r\<in>set (operations d). op_id r = op_id r')" by (auto simp: image_iff)
    from ops_step_cases [OF assms(1,2)] show ?thesis
    proof (elim disjE exE conjE)
      fix t r assume "t \<in> set (tasks d)" "scope_attached (tk_scope t) d" "op_task r = tk_id t" "operations d' = operations d @ [r]"
      then show ?thesis using new assms(3) scope_attachedD by force
    next
      assume "operations d' = operations d"
      then show ?thesis using new assms(3) by auto
    next
      assume "ops_shrink d d'"
      then have "op_id r' \<in> op_id ` set (operations d)"
        unfolding ops_shrink_def using assms(3) by (auto simp: in_update_where)
      then show ?thesis using new by (auto simp: image_iff)
    qed
  qed
qed

lemma tasks_origin:
  assumes "core_step d d'" "t' \<in> set (tasks d')"
  shows "(\<exists>t\<in>set (tasks d). tk_id t = tk_id t' \<and> tk_scope t = tk_scope t')
     \<or> tk_id t' \<notin> tk_id ` set (tasks d) \<and> attached (tk_scope t') d"
  using task_keys_step [OF assms(1)]
proof
  assume same: "task_keys d' = task_keys d"
  have "(tk_id t', tk_scope t') \<in> set (task_keys d')" using assms(2) by (simp add: task_keys_def)
  then have "(tk_id t', tk_scope t') \<in> (\<lambda>t. (tk_id t, tk_scope t)) ` set (tasks d)"
    unfolding same by (simp add: task_keys_def)
  then obtain t where "t \<in> set (tasks d)" "tk_id t = tk_id t'" "tk_scope t = tk_scope t'" by (elim imageE) simp
  then show ?thesis by blast
qed (use assms(2) in auto)

lemma in_updateI: "r \<in> set rows \<Longrightarrow> (if P r then f r else r) \<in> set (update_where P f rows)"
  by (auto simp: in_update_where)

lemma attached_step:
  assumes "core_step d d'" "attached sid d"
  shows "attached sid d' \<or> (\<forall>r\<in>set (operations d'). op_state r = Unsubmitted \<longrightarrow> \<not> op_in_scope d sid r)
      \<and> (\<forall>q\<in>set (questions d'). q_scope q \<noteq> sid)"
  using assms(1)
proof (cases rule: core_step.cases)
  case (detached s)
  show ?thesis
  proof (cases "s = sid")
    case True
    have "\<not> op_in_scope d sid r'" if r': "r' \<in> set (operations d')" "op_state r' = Unsubmitted" for r'
    proof -
      obtain r where r: "r' = (if op_state r = Unsubmitted \<and> op_in_scope d s r then r\<lparr>op_state := Suspended\<rparr> else r)"
        using r'(1) unfolding core_is_chain [OF detached, THEN conjunct2, THEN conjunct2, THEN conjunct1] in_update_where by blast
      then show ?thesis using r'(2) True by (cases "op_state r = Unsubmitted \<and> op_in_scope d s r") auto
    qed
    moreover have "\<forall>q\<in>set (questions d'). q_scope q \<noteq> sid" using True by (simp add: core_is_chain [OF detached])
    ultimately show ?thesis by blast
  next
    case False
    obtain a where a: "a \<in> set (scopes d)" "sc_id a = sid" "sc_attached a" using assms(2) by (auto simp: attached_def)
    have "a \<in> set (scopes d')"
      using in_updateI [OF a(1), of "\<lambda>c. sc_id c = s" "\<lambda>c. c\<lparr>sc_attached := False\<rparr>"] a(2) False
      by (simp add: core_is_chain [OF detached])
    then show ?thesis using a by (auto simp: attached_def)
  qed
qed (use assms(2) in \<open>auto simp: core_is_def attached_def\<close>)

lemma detached_step:
  assumes "core_step d d'" and k: "keys_ok d" and rf: "refs_ok d" and dt: "detached_ok d"
  shows "detached_ok d'"
  unfolding detached_ok_def
proof (intro ballI impI)
  fix r' t' assume r': "r' \<in> set (operations d')" and t': "t' \<in> set (tasks d')" and e: "op_task r' = tk_id t'"
    and st: "op_state r' = Unsubmitted"
  have mem: "op_task r' \<in> tk_id ` set (tasks d)"
    using unsubmitted_origin [OF assms(1) k r' st] rf unfolding refs_ok_def by (metis imageI subsetD)
  then obtain t where t: "t \<in> set (tasks d)" "tk_id t = op_task r'" "tk_scope t = tk_scope t'"
    using tasks_origin [OF assms(1) t'] e by auto
  have "attached (tk_scope t) d"
    using unsubmitted_origin [OF assms(1) k r' st]
  proof
    assume "\<exists>r\<in>set (operations d). op_state r = Unsubmitted \<and> op_task r = op_task r'"
    then show ?thesis using dt t unfolding detached_ok_def by metis
  next
    assume "\<exists>t\<in>set (tasks d). tk_id t = op_task r' \<and> attached (tk_scope t) d"
    then show ?thesis using same_task [OF k _ t(1)] t(2) by auto
  qed
  moreover have "op_in_scope d (tk_scope t) r'" using t by (auto simp: op_in_scope_iff [OF k])
  ultimately show "attached (tk_scope t') d'"
    using attached_step [OF assms(1), of "tk_scope t"] r' st t(3) by auto
qed

section \<open>Questions\<close>

lemma question_okD:
  assumes "keys_ok d" "question_ok d q" "t \<in> set (tasks d)" "tk_id t = q_task q"
  shows "tk_scope t = q_scope q" "tk_version t = q_version q" "tk_question t = Some (q_text q)" "tk_state t \<notin> set closed_states"
proof -
  obtain u where "u \<in> set (tasks d)" "tk_id u = q_task q" "tk_scope u = q_scope q \<and> tk_version u = q_version q
      \<and> tk_question u = Some (q_text q) \<and> tk_state u \<notin> set closed_states"
    using assms(2) unfolding question_ok_def by blast
  moreover have "u = t" using same_task [OF assms(1) calculation(1) assms(3)] calculation(2) assms(4) by simp
  ultimately show "tk_scope t = q_scope q" "tk_version t = q_version q" "tk_question t = Some (q_text q)"
    "tk_state t \<notin> set closed_states" by simp_all
qed

text \<open>A question survives a change of other tasks, or one that keeps what it reads.\<close>

lemma question_other:
  assumes "question_ok d q" "tasks d' = update_where (\<lambda>u. tk_id u = tid) f (tasks d)" "q_task q \<noteq> tid" "attached (q_scope q) d'"
  shows "question_ok d' q"
proof -
  obtain t where "t \<in> set (tasks d)" "tk_id t = q_task q" "tk_scope t = q_scope q \<and> tk_version t = q_version q
      \<and> tk_question t = Some (q_text q) \<and> tk_state t \<notin> set closed_states"
    using assms(1) unfolding question_ok_def by blast
  then show ?thesis
    unfolding question_ok_def using assms(3,4) in_updateI [of t "tasks d" "\<lambda>u. tk_id u = tid" f]
    by (intro conjI bexI [of _ t]) (auto simp: assms(2))
qed

lemma question_new:
  assumes "t \<in> set (tasks d)" "tasks d' = update_where (\<lambda>u. tk_id u = tid) f (tasks d)" "tk_id t = tid" "q_task q = tid"
    "attached (q_scope q) d'" "tk_id (f t) = tid" "tk_scope (f t) = q_scope q" "tk_version (f t) = q_version q"
    "tk_question (f t) = Some (q_text q)" "tk_state (f t) \<notin> set closed_states"
  shows "question_ok d' q"
  unfolding question_ok_def using assms(3-) in_updateI [OF assms(1), of "\<lambda>u. tk_id u = tid" f]
  by (intro conjI bexI [of _ "f t"]) (simp_all add: assms(2))

definition question_moves :: "task_state \<Rightarrow> op_row \<Rightarrow> task_row \<Rightarrow> question_row option \<Rightarrow> db \<Rightarrow> bool" where
  "question_moves state r t binding d \<longleftrightarrow> state = AwaitingInput \<and> op_version r = tk_version t \<and> scope_attached (tk_scope t) d
     \<and> (case binding of None \<Rightarrow> True | Some b \<Rightarrow> q_task b = op_task r)"

lemma settle_questions_mem:
  assumes "b \<in> set (questions (settle_questions result state r t binding q sid d))"
  shows "b \<in> set (questions d) \<and> (q_task b \<noteq> op_task r \<or> q_scope b \<noteq> tk_scope t)
    \<or> b \<in> set (questions d) \<and> result = AwaitingInput \<and> \<not> question_moves state r t binding d
    \<or> question_moves state r t binding d \<and> q_scope b = tk_scope t \<and> q_task b = op_task r \<and> q = Some (q_text b) \<and> q_version b = op_version r"
  using assms unfolding settle_questions_set question_moves_def [symmetric]
  by (auto split: if_splits option.splits list.splits)

lemma settled_questions_ok:
  assumes k: "keys_ok d" and qs: "questions_ok d" and t: "t \<in> set (tasks d)" "tk_id t = op_task r"
    and version: "op_version r \<le> tk_version t"
    and state: "state = (if tk_state t = CancelRequested \<and> result = AwaitingInput then CancelRequested else result)"
    and binding: "binding = row_by q_scope (tk_scope t) (questions d)" and q: "q = settle_question result replies r t binding"
    and d': "scopes d' = scopes d" "tasks d' = update_where (\<lambda>u. tk_id u = op_task r)
         (\<lambda>u. u\<lparr>tk_state := state, tk_question := q, tk_result := Suc (tk_result u), tk_updated := now\<rparr>) (tasks d)"
       "questions d' = questions (settle_questions result state r t binding q sid d)"
  shows "questions_ok d'"
  unfolding questions_ok_def
proof
  fix b assume b: "b \<in> set (questions d')"
  have att: "attached x d' = attached x d" for x by (simp add: attached_def d'(1))
  have other: "question_ok d' b" if "b \<in> set (questions d)" "q_task b \<noteq> op_task r"
    using that qs by (intro question_other [OF _ d'(2)]) (auto simp: questions_ok_def question_ok_def att)
  have mine: "q_scope b = tk_scope t" "q_version b = tk_version t" "tk_state t \<notin> set closed_states" "binding = Some b" "attached (q_scope b) d"
    if "b \<in> set (questions d)" "q_task b = op_task r"
  proof -
    have ok: "question_ok d b" using qs that(1) by (simp add: questions_ok_def)
    note m = question_okD [OF k ok t(1)]
    show "q_scope b = tk_scope t" "q_version b = tk_version t" "tk_state t \<notin> set closed_states"
      using m that(2) t(2) by simp_all
    then show "binding = Some b" using row_by_unique [of q_scope "questions d" b] k that(1) binding by (simp add: keys_ok_def)
    show "attached (q_scope b) d" using ok by (simp add: question_ok_def)
  qed
  from settle_questions_mem [OF b [unfolded d'(3)]] show "question_ok d' b"
  proof (elim disjE conjE)
    assume "b \<in> set (questions d)" "q_scope b \<noteq> tk_scope t"
    then show ?thesis using other mine(1) by blast
  next
    assume old: "b \<in> set (questions d)" and res: "result = AwaitingInput" and stays: "\<not> question_moves state r t binding d"
    show ?thesis
    proof (cases "q_task b = op_task r")
      case True
      note m = mine [OF old True]
      have st: "state = AwaitingInput" using state res m(3) by (simp add: closed_states_def)
      have "op_version r \<noteq> tk_version t"
        using stays st m True by (auto simp: question_moves_def scope_attached_iff [OF k])
      then have "q = Some (q_text b)" using q res m(2,4) True version by (simp add: settle_question_def)
      then show ?thesis
        using True m st t by (intro question_new [OF t(1) d'(2)]) (auto simp: att closed_states_def)
    qed (use old other in blast)
  next
    assume put: "question_moves state r t binding d" "q_scope b = tk_scope t" "q_task b = op_task r" "q = Some (q_text b)" "q_version b = op_version r"
    then show ?thesis
      using t by (intro question_new [OF t(1) d'(2)]) (auto simp: att closed_states_def question_moves_def dest: scope_attachedD)
  qed (use other in blast)
qed

lemma questions_step:
  assumes "core_step d d'" and k: "keys_ok d" and rf: "refs_ok d" and p: "pairs_ok d" and qs: "questions_ok d"
  shows "questions_ok d'"
proof -
  have ok: "question_ok d q" if "q \<in> set (questions d)" for q using qs that by (simp add: questions_ok_def)
  have att: "attached (q_scope q) d" if "q \<in> set (questions d)" for q using ok [OF that] by (simp add: question_ok_def)
  have frame: "question_ok d' q" if "q \<in> set (questions d)" "tasks d' = tasks d" "attached (q_scope q) d'" for q
    using ok [OF that(1)] that(2,3) by (simp add: question_ok_def)
  have mine: "q_scope q = tk_scope t \<and> q_version q = tk_version t \<and> tk_question t = Some (q_text q) \<and> tk_state t \<notin> set closed_states"
    if "q \<in> set (questions d)" "t \<in> set (tasks d)" "q_task q = tk_id t" for q t
    using question_okD [OF k ok [OF that(1)] that(2)] that(3) by simp
  show ?thesis
    using assms(1)
  proof (cases rule: core_step.cases)
    case (create t)
    have "question_ok d' q" if "q \<in> set (questions d)" for q
      using ok [OF that] unfolding question_ok_def attached_def by (auto simp: core_is_chain [OF create(7)])
    then show ?thesis by (simp add: questions_ok_def core_is_chain [OF create(7)])
  next
    case (accepted t r now)
    show ?thesis unfolding questions_ok_def
    proof
      fix q assume "q \<in> set (questions d')"
      then have q: "q \<in> set (questions d)" "\<not> (q_scope q = tk_scope t \<and> q_task q = tk_id t)"
        by (auto simp: core_is_chain [OF accepted(12)])
      then have "q_task q \<noteq> tk_id t" using mine accepted(1) by blast
      then show "question_ok d' q"
        using att [OF q(1)] by (intro question_other [OF ok [OF q(1)] core_is_chain [OF accepted(12), THEN conjunct2, THEN conjunct1]])
          (auto simp: attached_def core_is_chain [OF accepted(12)])
    qed
  next
    case (asked t b)
    note T = core_is_chain [OF asked(7), THEN conjunct2, THEN conjunct1]
    show ?thesis unfolding questions_ok_def
    proof
      fix q assume "q \<in> set (questions d')"
      then consider "q = b" | "q \<in> set (questions d)" "q_scope q \<noteq> tk_scope t" by (auto simp: core_is_chain [OF asked(7)])
      then show "question_ok d' q"
      proof cases
        case 1
        then show ?thesis using asked by (intro question_new [OF asked(1) T])
            (auto simp: core_is_chain [OF asked(7)] attached_def dest!: scope_attachedD)
      next
        case 2
        then have "q_task q \<noteq> tk_id t" using mine asked(1) by blast
        then show ?thesis using att [OF 2(1)] by (intro question_other [OF ok [OF 2(1)] T])
            (auto simp: attached_def core_is_chain [OF asked(7)])
      qed
    qed
  next
    case (cancelled t c now)
    show ?thesis unfolding questions_ok_def
    proof
      fix q assume "q \<in> set (questions d')"
      then have q: "q \<in> set (questions d)" "\<not> (q_scope q = tk_scope t \<and> q_task q = tk_id t)"
        by (auto simp: core_is_chain [OF cancelled(5)])
      then have "q_task q \<noteq> tk_id t" using mine cancelled(1) by blast
      then show "question_ok d' q"
        using att [OF q(1)] by (intro question_other [OF ok [OF q(1)] core_is_chain [OF cancelled(5), THEN conjunct2, THEN conjunct1]])
          (auto simp: attached_def core_is_chain [OF cancelled(5)])
    qed
  next
    case (dispatched r t now)
    show ?thesis unfolding questions_ok_def
    proof
      fix q assume "q \<in> set (questions d')"
      then have q: "q \<in> set (questions d)" by (simp add: core_is_chain [OF dispatched(8)])
      note T = core_is_chain [OF dispatched(8), THEN conjunct2, THEN conjunct1]
      show "question_ok d' q"
      proof (cases "q_task q = op_task r")
        case True
        then show ?thesis using mine [OF q dispatched(2)] att [OF q] dispatched(3)
          by (intro question_new [OF dispatched(2) T]) (auto simp: core_is_chain [OF dispatched(8)] attached_def closed_states_def)
      next
        case False
        then show ?thesis using att [OF q] by (intro question_other [OF ok [OF q] T]) (auto simp: attached_def core_is_chain [OF dispatched(8)])
      qed
    qed
  next
    case (settled r t result state binding q replies now enc2 enc1 sid)
    have "op_version r \<le> tk_version t" using pairs_okD [OF p settled(1,2)] settled(3) by (simp add: pair_ok_def)
    then show ?thesis
      using core_is_chain [OF settled(10)] by (intro settled_questions_ok [OF k qs settled(2,3) _ settled(7,8,9)]) auto
  next
    case (lost r now reason)
    have "question_ok d' q" if "q \<in> set (questions d)" "q_task q \<noteq> op_task r" for q
      using that att [OF that(1)]
      by (intro question_other [OF ok [OF that(1)] core_is_chain [OF lost(3), THEN conjunct2, THEN conjunct1, unfolded unknown_tasks_def]])
        (auto simp: attached_def core_is_chain [OF lost(3)])
    then show ?thesis by (simp add: questions_ok_def core_is_chain [OF lost(3)])
  next
    case (reconciled r result now enc2 enc1)
    have "question_ok d' q" if "q \<in> set (questions d)" "q_task q \<noteq> op_task r" for q
      using that att [OF that(1)]
      by (intro question_other [OF ok [OF that(1)] core_is_chain [OF reconciled(4), THEN conjunct2, THEN conjunct1]])
        (auto simp: attached_def core_is_chain [OF reconciled(4)])
    then show ?thesis by (simp add: questions_ok_def core_is_chain [OF reconciled(4)])
  next
    case (detached sid)
    have "question_ok d' q" if "q \<in> set (questions d)" "q_scope q \<noteq> sid" for q
      using attached_step [OF assms(1) att [OF that(1)]] that
      by (intro frame) (auto simp: core_is_chain [OF detached])
    then show ?thesis by (simp add: questions_ok_def core_is_chain [OF detached])
  qed (use frame att in \<open>auto simp: questions_ok_def core_is_def attached_def\<close>)
qed

section \<open>The invariant holds in every reachable journal\<close>

lemma journal_ok_init: "journal_ok init_db"
  by (simp add: journal_ok_def keys_ok_def refs_ok_def pairs_ok_def single_flight_def submitted_ok_def capacity_ok_def
      detached_ok_def questions_ok_def init_db_def scope_task_count_def open_count_def)

lemma journal_ok_core: "core_step d d' \<Longrightarrow> journal_ok d \<Longrightarrow> journal_ok d'"
  by (simp add: journal_ok_def keys_step refs_step pairs_step single_flight_step submitted_step capacity_step detached_step questions_step)

lemma journal_ok_steps: "core_steps d d' \<Longrightarrow> journal_ok d \<Longrightarrow> journal_ok d'"
  by (induction rule: rtranclp_induct) (auto intro: journal_ok_core)

lemma journal_ok_journal_step: "journal_step d d' \<Longrightarrow> journal_ok d \<Longrightarrow> journal_ok d'"
  by (meson journal_ok_def journal_ok_steps journal_step_core keys_ok_def)

lemma reachable_journal_ok: "reachable d \<Longrightarrow> journal_ok d"
  by (induction rule: rtranclp_induct) (auto intro: journal_ok_init journal_ok_journal_step)

end
