(* ===== verification/TaskStoreHistory.thy ===== *)
theory TaskStoreHistory
  imports TaskStoreInv2
begin

text \<open>Histories: the event log only grows, and an operation moves along its lifecycle.\<close>

section \<open>Growth of the event log\<close>

definition logs :: "db \<Rightarrow> db \<Rightarrow> bool" where
  "logs d d' \<longleftrightarrow> log_extends d d' \<and> (events_ok d \<longrightarrow> events_ok d')"

lemma logs_refl [simp]: "logs d d"
  by (simp add: logs_def)

lemma logs_trans: "logs a b \<Longrightarrow> logs b c \<Longrightarrow> logs a c"
  unfolding logs_def using log_extends_trans by blast

lemma logs_frame: "events d' = events d \<Longrightarrow> logs d d'"
  by (simp add: logs_def log_extends_def events_ok_def)

lemma logs_append:
  "events d' = events d @ [e] \<Longrightarrow> ev_seq e = Suc (length (events d)) \<Longrightarrow> ev_id e \<notin> ev_id ` set (events d) \<Longrightarrow> logs d d'"
  by (auto simp: logs_def log_extends_def events_ok_def)

lemma add_event_events:
  "add_event tid oid ty ver payload src eid d = Inr d' \<Longrightarrow>
     \<exists>e. events d' = events d @ [e] \<and> ev_seq e = Suc (length (events d)) \<and> ev_id e \<notin> ev_id ` set (events d)"
  by (auto simp: add_event_def split: sum.splits if_splits)

lemma events_settle_questions [simp]: "events (settle_questions a b r t bi q s d) = events d"
  by (auto simp: settle_questions_def store_updates split: option.splits list.splits)

lemma create_logs: "create_task s a obj given now nid eid d = Inr (x, d') \<Longrightarrow> logs d d'"
  by (auto simp: create_task_def bind_scope_def Let_def split: if_splits sum.splits option.splits
     dest!: add_event_events intro: logs_append)

lemma accept_commit_logs: "accept_commit t sid u text kind ctx enc now nid eid d = Inr (r, d') \<Longrightarrow> logs d d'"
  by (auto simp: accept_commit_def Let_def store_updates split: if_splits sum.splits dest!: add_event_events intro: logs_append)

lemma accept_logs: "accept tid sid u text kind voice ex au now nid eid d = Inr (r, d') \<Longrightarrow> logs d d'"
  by (drule accept_effect) (auto dest: accept_commit_logs)

lemma accept_new_logs: "accept_new_task s a u text voice ex au now tid ce oid ae d = Inr (x, d') \<Longrightarrow> logs d d'"
  by (auto simp: accept_new_task_def split: option.splits sum.splits if_splits dest!: accept_logs create_logs intro: logs_trans)

lemma note_logs: "note_question tid sid text src ver nid d = Inr (x, d') \<Longrightarrow> logs d d'"
  by (auto simp: note_question_def Let_def store_updates split: if_splits sum.splits dest!: add_event_events intro: logs_append)

lemma cancel_logs: "cancel_pending tid sid cmd text ex au now eid d = Inr (x, d') \<Longrightarrow> logs d d'"
  by (auto simp: cancel_pending_def Let_def store_updates split: if_splits sum.splits option.splits
     dest!: add_event_events intro: logs_append)

lemma dispatch_logs: "dispatch oid now eid d = Inr (x, d') \<Longrightarrow> logs d d'"
  by (auto simp: dispatch_def Let_def store_updates split: if_splits sum.splits option.splits dest!: add_event_events intro: logs_append)

lemma observe_logs: "observe oid eid ty payload d = Inr (x, d') \<Longrightarrow> logs d d'"
  by (auto simp: observe_def split: if_splits sum.splits option.splits dest!: add_event_events intro: logs_append)

lemma settle_commit_logs: "settle_commit r t result replies evj enc1 enc2 now sid d = Inr (x, d') \<Longrightarrow> logs d d'"
  by (auto simp: settle_commit_def Let_def store_updates split: sum.splits dest!: add_event_events intro: logs_append)

lemma settle_logs: "settle oid replies res ev now sid d = Inr (x, d') \<Longrightarrow> logs d d'"
  by (drule settle_effect) (auto dest: settle_commit_logs)

lemma receipt_logs: "record_receipt oid req exe rc eid d = Inr (x, d') \<Longrightarrow> logs d d'"
  by (drule record_receipt_effect)
    (auto simp: receipt_commit_def Let_def store_updates split: if_splits sum.splits dest!: add_event_events intro: logs_append)

lemma owned_logs: "record_owned_dispatch oid ref cmdj d = Inr (x, d') \<Longrightarrow> logs d d'"
  by (auto simp: record_owned_dispatch_def Let_def split: if_splits sum.splits option.splits intro: logs_frame)

lemma logs_tables [simp]:
  "logs d (e\<lparr>owned_events := x\<rparr>) = logs d e" "logs d (e\<lparr>dispatches := y\<rparr>) = logs d e"
  by (simp_all add: logs_def log_extends_def events_ok_def)

lemma observe_owned_logs: "observe_owned oid we d = Inr (x, d') \<Longrightarrow> logs d d'"
  by (auto simp: observe_owned_def Let_def split: if_splits sum.splits prod.splits bool.splits
     dest!: observe_logs)

lemma reconcile_commit_logs: "reconcile_commit r result rn e rs e2 e1 now eid d = Inr (x, d') \<Longrightarrow> logs d d'"
  by (auto simp: reconcile_commit_def Let_def store_updates split: sum.splits dest!: add_event_events intro: logs_append)

lemma reconcile_logs: "reconcile_unknown oid res rv replies now eid d = Inr (x, d') \<Longrightarrow> logs d d'"
  by (drule reconcile_unknown_effect) (auto dest: reconcile_commit_logs)

lemma set_unknown_logs: "set_unknown r reason now eid d = Inr d' \<Longrightarrow> logs d d'"
  by (auto simp: set_unknown_def store_updates dest!: add_event_events intro: logs_append)

lemma mark_logs: "mark_unknown oid reason now eid d = Inr (x, d') \<Longrightarrow> logs d d'"
  by (drule mark_unknown_effect) (auto dest: set_unknown_logs)

lemma detach_logs: "detach_scope sid d = Inr (x, d') \<Longrightarrow> logs d d'"
  by (auto simp: detach_scope_def Let_def store_updates split: if_splits intro: logs_frame)

lemma recover_rows_logs: "recover_rows rows nows fresh d = Inr d' \<Longrightarrow> logs d d'"
  by (induction rows arbitrary: d) (auto split: sum.splits dest!: set_unknown_logs intro: logs_trans)

lemma recover_logs: "recover nows fresh d = Inr (x, d') \<Longrightarrow> logs d d'"
  by (auto simp: recover_def Let_def split: sum.splits dest: recover_rows_logs)

lemma journal_step_logs: "journal_step d d' \<Longrightarrow> logs d d'"
  by (erule journal_step.cases)
    (blast intro: create_logs accept_logs accept_new_logs note_logs cancel_logs dispatch_logs observe_logs settle_logs receipt_logs
      owned_logs observe_owned_logs reconcile_logs mark_logs detach_logs recover_logs)+

lemma journal_steps_logs: "journal_step\<^sup>*\<^sup>* d d' \<Longrightarrow> logs d d'"
  by (induction rule: rtranclp_induct) (auto intro: logs_trans journal_step_logs)

section \<open>Histories of one operation\<close>

text \<open>The lifecycle of an operation as the journal's documentation promises it.\<close>

inductive lifecycle :: "dispatch_state \<Rightarrow> dispatch_state \<Rightarrow> bool" where
  "lifecycle Unsubmitted Submitted"
| "lifecycle Unsubmitted Suspended"
| "lifecycle Unsubmitted OpCancelled"
| "lifecycle Submitted Settled"
| "lifecycle Submitted Unknown"
| "lifecycle Unknown Settled"

code_pred lifecycle .

lemma lifecycle_star:
  "lifecycle\<^sup>*\<^sup>* Unsubmitted Submitted" "lifecycle\<^sup>*\<^sup>* Unsubmitted Suspended" "lifecycle\<^sup>*\<^sup>* Unsubmitted OpCancelled"
  "lifecycle\<^sup>*\<^sup>* Submitted Settled" "lifecycle\<^sup>*\<^sup>* Submitted Unknown" "lifecycle\<^sup>*\<^sup>* Unknown Settled"
  by (rule r_into_rtranclp, rule lifecycle.intros)+

inductive_cases lifecycle_from: "lifecycle s s'"
inductive_simps lifecycle_final: "lifecycle Settled s" "lifecycle Suspended s" "lifecycle OpCancelled s"

text \<open>The life cycle has no way back, so it orders the states.\<close>

fun stage :: "dispatch_state \<Rightarrow> nat" where
  "stage Unsubmitted = 0"
| "stage Submitted = 1"
| "stage Unknown = 2"
| "stage _ = 3"

lemma lifecycle_stage: "lifecycle s s' \<Longrightarrow> stage s < stage s'"
  by (erule lifecycle_from) simp_all

lemma lifecycle_stages: "lifecycle\<^sup>*\<^sup>* s s' \<Longrightarrow> s = s' \<or> stage s < stage s'"
  by (induction rule: rtranclp_induct) (auto dest: lifecycle_stage)

instantiation dispatch_state :: order
begin

definition less_eq_dispatch_state :: "dispatch_state \<Rightarrow> dispatch_state \<Rightarrow> bool" where
  "less_eq_dispatch_state s s' \<longleftrightarrow> lifecycle\<^sup>*\<^sup>* s s'"

definition less_dispatch_state :: "dispatch_state \<Rightarrow> dispatch_state \<Rightarrow> bool" where
  "less_dispatch_state s s' \<longleftrightarrow> s \<le> s' \<and> s \<noteq> s'"

instance
proof
  fix x y z :: dispatch_state
  show anti: "x = y" if "x \<le> y" "y \<le> x" for x y :: dispatch_state
    using that lifecycle_stages[of x y] lifecycle_stages[of y x] by (auto simp: less_eq_dispatch_state_def)
  show "(x < y) = (x \<le> y \<and> \<not> y \<le> x)" using anti by (auto simp: less_dispatch_state_def)
  show "x \<le> x" by (simp add: less_eq_dispatch_state_def)
  show "x \<le> z" if "x \<le> y" "y \<le> z" using that by (simp add: less_eq_dispatch_state_def)
qed

end

definition same_request :: "op_row \<Rightarrow> op_row \<Rightarrow> bool" where
  "same_request r r' \<longleftrightarrow> op_id r' = op_id r \<and> op_task r' = op_task r \<and> op_utterance r' = op_utterance r
     \<and> op_version r' = op_version r \<and> op_payload r' = op_payload r \<and> op_kind r' = op_kind r \<and> op_text r' = op_text r
     \<and> op_voice r' = op_voice r"

definition op_later :: "op_row \<Rightarrow> op_row \<Rightarrow> bool" where
  "op_later r r' \<longleftrightarrow> same_request r r' \<and> op_state r \<le> op_state r' \<and> (op_submitted r \<noteq> None \<longrightarrow> op_submitted r' = op_submitted r)"

lemma op_later_refl [simp]: "op_later r r"
  by (simp add: op_later_def same_request_def)

lemma op_later_trans: "op_later a b \<Longrightarrow> op_later b c \<Longrightarrow> op_later a c"
  by (auto simp: op_later_def same_request_def)

lemma op_later_antisym: "op_later a b \<Longrightarrow> op_later b a \<Longrightarrow> op_state a = op_state b"
  by (auto simp: op_later_def)

lemma evolves_later: "evolves b c r r' \<Longrightarrow> op_submitted r = None \<or> op_state r \<noteq> Unsubmitted \<Longrightarrow> op_later r r'"
  by (auto simp: evolves_def op_later_def same_request_def lifecycle_star less_eq_dispatch_state_def)

lemma ops_evolveD:
  "ops_evolve b c W W' \<Longrightarrow> r' \<in> set W' \<Longrightarrow> op_id r' \<in> op_id ` set W \<Longrightarrow> \<exists>r\<in>set W. evolves b c r r'"
  unfolding ops_evolve_def by blast

lemma core_step_later:
  assumes "core_step d d'" "journal_ok d" "r \<in> set (operations d)"
  shows "\<exists>r'\<in>set (operations d'). op_later r r'"
proof -
  have k: "keys_ok d" and sub: "submitted_ok d" using assms(2) by (simp_all add: journal_ok_def)
  obtain c where c: "ops_evolve (\<not> has_unresolved d) c (operations d) (operations d')"
    using ops_evolve_step [OF assms(1) k] ..
  have "op_id r \<in> op_id ` set (operations d')"
    using ops_step_cases [OF assms(1) k] assms(3)
  proof (elim disjE exE conjE)
    assume "ops_shrink d d'"
    then obtain P f where "operations d' = update_where P f (operations d)" "\<forall>w. op_id (f w) = op_id w"
      unfolding ops_shrink_def by blast
    then show ?thesis using assms(3) by (simp add: key_image_update_where)
  qed auto
  then obtain r' where r': "r' \<in> set (operations d')" "op_id r' = op_id r" by (auto simp: image_iff)
  have "op_id r' \<in> op_id ` set (operations d)" using r'(2) assms(3) by simp
  then obtain w where w: "w \<in> set (operations d)" "evolves (\<not> has_unresolved d) c w r'"
    using ops_evolveD [OF c r'(1)] by blast
  have "op_id w = op_id r" using w(2) r'(2) by (simp add: evolves_def)
  then have "w = r" by (rule same_op [OF k w(1) assms(3)])
  then have "op_later r r'"
    using w(2) sub assms(3) by (intro evolves_later) (auto simp: submitted_ok_def)
  then show ?thesis using r'(1) by blast
qed

lemma core_steps_later:
  "core_steps d d' \<Longrightarrow> journal_ok d \<Longrightarrow> r \<in> set (operations d) \<Longrightarrow> \<exists>r'\<in>set (operations d'). op_later r r'"
proof (induction rule: rtranclp_induct)
  case (step y z)
  then obtain r1 where "r1 \<in> set (operations y)" "op_later r r1" by blast
  moreover have "journal_ok y" using journal_ok_steps step by blast
  ultimately show ?case using core_step_later [OF step(2)] op_later_trans by blast
qed (auto intro!: bexI)

lemma journal_steps_core: "journal_step\<^sup>*\<^sup>* d d' \<Longrightarrow> journal_ok d \<Longrightarrow> core_steps d d'"
proof (induction rule: rtranclp_induct)
  case (step y z)
  then have "core_steps d y" "journal_ok y" using journal_ok_steps by blast+
  moreover have "core_steps y z" using journal_step_core [OF step(2)] calculation(2) by (simp add: journal_ok_def keys_ok_def)
  ultimately show ?case by simp
qed simp

lemma reachable_later:
  assumes "reachable d" "journal_step\<^sup>*\<^sup>* d d'" "r \<in> set (operations d)"
  shows "\<exists>r'\<in>set (operations d'). op_later r r'"
  using core_steps_later [OF journal_steps_core [OF assms(2)]] reachable_journal_ok [OF assms(1)] assms(3) by blast

lemma reachable_steps: "reachable d \<Longrightarrow> journal_step\<^sup>*\<^sup>* d d' \<Longrightarrow> reachable d'"
  by simp

section \<open>Rows that stay\<close>

lemma find_scope_step:
  "core_step d d' \<Longrightarrow> find_scope sid d = Some s \<Longrightarrow> \<exists>s'. find_scope sid d' = Some s' \<and> sc_assistant s' = sc_assistant s"
  by (induction rule: core_step.induct) (auto simp: core_is_def find_scope_def row_by_update_where)

lemma find_task_step:
  "core_step d d' \<Longrightarrow> find_task tid d = Some t \<Longrightarrow> \<exists>t'. find_task tid d' = Some t' \<and> tk_scope t' = tk_scope t"
  by (induction rule: core_step.induct) (auto simp: core_is_def find_task_def row_by_update_where unknown_tasks_def)

lemma find_scope_steps:
  "core_steps d d' \<Longrightarrow> find_scope sid d = Some s \<Longrightarrow> \<exists>s'. find_scope sid d' = Some s' \<and> sc_assistant s' = sc_assistant s"
  by (induction rule: rtranclp_induct) (force dest: find_scope_step)+

lemma find_task_steps:
  "core_steps d d' \<Longrightarrow> find_task tid d = Some t \<Longrightarrow> \<exists>t'. find_task tid d' = Some t' \<and> tk_scope t' = tk_scope t"
  by (induction rule: rtranclp_induct) (force dest: find_task_step)+

lemma detached_stays_step:
  "core_step d d' \<Longrightarrow> keys_ok d \<Longrightarrow> sid \<in> sc_id ` set (scopes d) \<Longrightarrow> \<not> attached sid d
     \<Longrightarrow> sid \<in> sc_id ` set (scopes d') \<and> \<not> attached sid d'"
  by (induction rule: core_step.induct) (auto simp: core_is_def attached_def in_update_where key_image_update_where split: if_splits)

lemma detached_stays:
  "core_steps d d' \<Longrightarrow> journal_ok d \<Longrightarrow> sid \<in> sc_id ` set (scopes d) \<Longrightarrow> \<not> attached sid d \<Longrightarrow> \<not> attached sid d'"
proof -
  assume "core_steps d d'" "journal_ok d" "sid \<in> sc_id ` set (scopes d)" "\<not> attached sid d"
  then have "journal_ok d' \<and> sid \<in> sc_id ` set (scopes d') \<and> \<not> attached sid d'"
    by (induction rule: rtranclp_induct) (auto simp: journal_ok_def dest: detached_stays_step journal_ok_core [unfolded journal_ok_def])
  then show ?thesis by blast
qed

end
