(* ===== verification/TaskStoreDemo.thy ===== *)
theory TaskStoreDemo
  imports TaskStoreHistory
begin

text \<open>
  A small concrete journal on which the witnesses of the journal's properties are evaluated: one
  task accepted from one utterance, then dispatched. Both states are reachable.
\<close>

lemmas name_eval = name_ok_def printable_name_def credential_shaped_def credential_parts_def normalized_name_def lit_def
  ascii_lower_def ascii_alnum_def is_control_def sublist_code suffix_to_prefix
lemmas dumps_eval = dumps.simps quoted_def escape_char_def render_object_def join.simps lit_def int_repr_def digits_of.simps
  insort_key.simps sort_key_def replies_json_def

lemma guard_jsonI:
  "scan_json n [(v, 0)] 0 = None \<Longrightarrow> encodable v \<Longrightarrow> length (dumps v) \<le> n \<Longrightarrow> guard_json v n = Inr (dumps v)"
  by (simp add: guard_json_def validate_json_def)

lemma store_names [simp]:
  "name_ok (lit ''kind'')" "name_ok (lit ''text'')" "name_ok (lit ''voice_context'')" "name_ok (lit ''context_version'')"
  "name_ok (lit ''objective'')" "name_ok (lit ''new_task'')" "name_ok (lit ''cancel_task'')" "name_ok (lit ''answered_question'')"
  "name_ok (lit ''dispatch_state'')" "name_ok (lit ''outcome'')" "name_ok (lit ''replies'')" "name_ok (lit ''evidence'')"
  "name_ok (lit ''reason_code'')" "name_ok (lit ''command_id'')" "name_ok (lit ''state'')" "name_ok (lit ''source'')"
  "name_ok (lit ''continue_task'')" "name_ok (lit ''event_id'')" "name_ok (lit ''sequence'')" "name_ok (lit ''task_id'')"
  "name_ok (lit ''operation_id'')" "name_ok (lit ''status'')"
  by (simp_all add: name_eval)

definition demo_scope :: scope where
  "demo_scope = \<lparr>scope_id = [115], call_id = [99], call_generation = 1, instance_id = [105],
     assistant_id = [97], principal_id = []\<rparr>"
definition demo_agent :: agent where
  "demo_agent = \<lparr>agent_alias = [118], agent_id = [103], agent_revision = [114],
     agent_capabilities = [(lit ''new_task'', True), (lit ''cancel_task'', True)],
     agent_name = [], agent_description = [], agent_intents = [], agent_routing_aliases = []\<rparr>"

definition demo_accept :: "db \<Rightarrow> op_row outcome" where
  "demo_accept = accept_new_task demo_scope demo_agent [117] [104] None None None [48] [116] [1001] [111] [1002]"

abbreviation "p_accept \<equiv> JDict [(lit ''kind'', JStr (lit ''new_task'')), (lit ''text'', JStr [104]),
             (lit ''voice_context'', JDict []), (lit ''context_version'', JInt 1)]"
abbreviation "e_accept \<equiv> JDict [(lit ''kind'', JStr (lit ''new_task'')), (lit ''text'', JStr [104]), (lit ''answered_question'', JNull)]"
abbreviation "e_submit \<equiv> JDict [(lit ''dispatch_state'', JStr (lit ''submitted''))]"
abbreviation "e_question \<equiv> JDict [(lit ''text'', JStr [63]), (lit ''source'', JStr (lit ''greeting''))]"
abbreviation "e_restart \<equiv> JDict [(lit ''reason_code'', JStr (lit ''process_restart''))]"
abbreviation "e_cancel \<equiv> JDict [(lit ''command_id'', JStr [107]), (lit ''text'', JStr [104]), (lit ''state'', JStr (lit ''cancelled''))]"
abbreviation "e_settle \<equiv> JDict [(lit ''outcome'', JStr (lit ''succeeded'')), (lit ''replies'', JList []), (lit ''evidence'', JDict [])]"

lemma guards:
  "guard_json (JDict [(lit ''objective'', JStr [104])]) 16384 = Inr (dumps (JDict [(lit ''objective'', JStr [104])]))"
  "guard_json (JDict [(lit ''new_task'', JBool True), (lit ''cancel_task'', JBool True)]) 4096 = Inr (dumps (JDict [(lit ''new_task'', JBool True), (lit ''cancel_task'', JBool True)]))"
  "guard_json (JDict []) 512 = Inr (dumps (JDict []))"
  "guard_json p_accept 16384 = Inr (dumps p_accept)"
  "guard_json e_accept 16384 = Inr (dumps e_accept)"
  "guard_json e_submit 16384 = Inr (dumps e_submit)"
  "guard_json e_question 16384 = Inr (dumps e_question)"
  "guard_json e_restart 16384 = Inr (dumps e_restart)"
  "guard_json e_cancel 16384 = Inr (dumps e_cancel)"
  "guard_json e_settle 16384 = Inr (dumps e_settle)"
  "guard_json (JList []) 16384 = Inr (dumps (JList []))"
  "guard_json (JDict []) 16384 = Inr (dumps (JDict []))"
  "guard_json JNull 16384 = Inr (dumps JNull)"
  by (rule guard_jsonI; simp add: scan_json.simps max_json_nodes_def max_json_depth_def Let_def; simp add: dumps_eval)+

lemma guard_null: "guard_json JNull 8192 = Inr (dumps JNull)"
  by (rule guard_jsonI; simp add: scan_json.simps max_json_nodes_def max_json_depth_def Let_def; simp add: dumps_eval)

definition demo_task :: "task_row" where
  "demo_task = \<lparr>tk_id = [116], tk_scope = [115], tk_alias = [118], tk_agent = [103], tk_revision = [114],
     tk_capabilities = agent_capabilities demo_agent, tk_objective = [104], tk_version = 1, tk_state = Queued, tk_question = None,
     tk_result = 0, tk_created = [48], tk_updated = [48]\<rparr>"
definition demo_op :: op_row where
  "demo_op = \<lparr>op_id = [111], op_task = [116], op_utterance = [117], op_version = 1, op_kind = lit ''new_task'',
                     op_text = [104], op_voice = dumps (JDict []), op_payload = dumps p_accept, op_state = Unsubmitted,
                     op_request = None, op_execution = None, op_receipt = None, op_replies = None,
                     op_evidence = None, op_outcome = None, op_reason = None, op_created = [48],
                     op_submitted = None, op_settled = None\<rparr>"
definition demo_db1 :: db where
  "demo_db1 = \<lparr>scopes = [new_scope_row demo_scope], tasks = [demo_task], operations = [demo_op], inbox = [],
    events = [\<lparr>ev_seq = 1, ev_id = [1001], ev_task = [116], ev_op = None, ev_type = lit ''task_created'', ev_version = 0,
         ev_payload = dumps (JDict [(lit ''objective'', JStr [104])]), ev_source = store_source\<rparr>,
       \<lparr>ev_seq = 2, ev_id = [1002], ev_task = [116], ev_op = Some [111], ev_type = lit ''utterance_accepted'', ev_version = 1,
         ev_payload = dumps e_accept, ev_source = store_source\<rparr>],
    commands = [], questions = [], dispatches = [], owned_events = []\<rparr>"

definition demo_submitted :: op_row where
  "demo_submitted = demo_op\<lparr>op_state := Submitted, op_submitted := Some [49]\<rparr>"

definition demo_db2 :: db where
  "demo_db2 = demo_db1\<lparr>tasks := [demo_task\<lparr>tk_state := Running, tk_updated := [49]\<rparr>], operations := [demo_submitted],
     events := events demo_db1 @ [\<lparr>ev_seq = 3, ev_id = [1003], ev_task = [116], ev_op = Some [111], ev_type = lit ''operation_submitted'', ev_version = 1,
         ev_payload = dumps e_submit, ev_source = store_source\<rparr>]\<rparr>"

lemmas demo_simps = demo_scope_def demo_agent_def demo_task_def demo_op_def demo_db1_def demo_submitted_def demo_db2_def
lemmas store_eval = accept_new_task_def accept_def accept_commit_def create_task_def bind_scope_def check_preconditions_def
  new_task_row_def new_scope_row_def task_snapshot_def task_row_def find_task_def find_op_def find_scope_def scope_attached_def capabilities_json_def
  voice_json_def question_json_def current_question_def capability_def open_count_def scope_task_count_def add_event_def
  update_task_def update_op_def drop_questions_def business_kinds_def voice_keys_def closed_states_def bounded_identifier_def
  is_control_def Let_def init_db_def dict_get_def same_binding_def dispatch_def has_unresolved_def

lemma demo_accept: "demo_accept init_db = Inr (demo_op, demo_db1)"
  by (simp add: demo_accept_def demo_simps store_eval guards)

lemma demo_dispatch: "dispatch [111] [49] [1003] demo_db1 = Inr (Some demo_submitted, demo_db2)"
  by (simp add: demo_simps store_eval guards)

lemma demo_reachable: "reachable demo_db1" "reachable demo_db2"
proof -
  have "journal_step init_db demo_db1" using demo_accept unfolding demo_accept_def by (rule step_accept_new)
  then show r: "reachable demo_db1" by blast
  have "journal_step demo_db1 demo_db2" using demo_dispatch by (rule step_dispatch)
  with r show "reachable demo_db2" by simp
qed

text \<open>An open question, a detached scope and a cancelled task.\<close>

definition demo_question :: question_row where
  "demo_question = \<lparr>q_scope = [115], q_task = [116], q_text = [63], q_source = lit ''greeting'', q_version = 1, q_id = [1004]\<rparr>"

definition demo_db3 :: db where
  "demo_db3 = demo_db1\<lparr>tasks := [demo_task\<lparr>tk_question := Some [63]\<rparr>], questions := [demo_question],
     events := events demo_db1 @ [\<lparr>ev_seq = 3, ev_id = [1004], ev_task = [116], ev_op = None, ev_type = lit ''question_noted'', ev_version = 1,
         ev_payload = dumps e_question, ev_source = store_source\<rparr>]\<rparr>"

definition demo_db4 :: db where
  "demo_db4 = demo_db1\<lparr>scopes := [(new_scope_row demo_scope)\<lparr>sc_attached := False\<rparr>], operations := [demo_op\<lparr>op_state := Suspended\<rparr>]\<rparr>"

lemma demo_note: "note_question [116] [115] [63] (lit ''greeting'') None [1004] demo_db1 = Inr (True, demo_db3)"
  by (simp add: note_question_def put_question_def demo_db3_def demo_question_def demo_simps store_eval guards)

lemma demo_detach: "detach_scope [115] demo_db1 = Inr ((), demo_db4)"
  by (simp add: detach_scope_def op_in_scope_def demo_db4_def demo_simps store_eval)

lemma demo_reachable3: "reachable demo_db3"
  using demo_reachable(1) step_note [OF demo_note] by simp

lemma demo_reachable4: "reachable demo_db4"
  using demo_reachable(1) step_detach [OF demo_detach] by simp

lemma demo_retry: "accept [116] [115] [117] [104] (lit ''new_task'') None None None [48] [111] [1002] demo_db1 = Inr (demo_op, demo_db1)"
  by (simp add: demo_simps store_eval guards)

definition demo_db5 :: db where
  "demo_db5 = (case settle [111] [] (lit ''succeeded'') None [50] [1010] demo_db2 of Inl _ \<Rightarrow> init_db | Inr (_, d) \<Rightarrow> d)"

lemma demo_settle:
  "settle [111] [] (lit ''succeeded'') None [50] [1010] demo_db2 = Inr (snapshot_of [116] demo_db5, demo_db5)"
  unfolding demo_db5_def
  by (simp add: settle_def settle_commit_def settle_question_def settle_questions_def terminal_outcomes_def replies_ok_def finished_states_def
      replies_json_def snapshot_of_def demo_simps store_eval guards)

definition demo_db6 :: db where
  "demo_db6 = (case observe [111] [1020] [97] JNull demo_db2 of Inl _ \<Rightarrow> init_db | Inr (_, d) \<Rightarrow> d)"

lemma demo_observe: "observe [111] [1020] [97] JNull demo_db2 = Inr (True, demo_db6)"
  unfolding demo_db6_def
  by (simp add: observe_def reserved_types_def lit_def demo_simps [unfolded lit_def] store_eval guards)

definition demo_db7 :: db where
  "demo_db7 = (case recover (\<lambda>_. [60]) (\<lambda>_. [1030]) demo_db2 of Inl _ \<Rightarrow> init_db | Inr (_, d) \<Rightarrow> d)"

lemma demo_recover: "recover (\<lambda>_. [60]) (\<lambda>_. [1030]) demo_db2 = Inr (1, demo_db7)"
  unfolding demo_db7_def
  by (simp add: recover_def set_unknown_def demo_simps store_eval guards)

definition demo_db8 :: db where
  "demo_db8 = (case cancel_pending [116] [115] [107] [104] None None [70] [1040] demo_db1 of Inl _ \<Rightarrow> init_db | Inr (_, d) \<Rightarrow> d)"

lemma demo_cancel: "cancel_pending [116] [115] [107] [104] None None [70] [1040] demo_db1 = Inr (snapshot_of [116] demo_db8, demo_db8)"
  unfolding demo_db8_def
  by (simp add: cancel_pending_def was_dispatched_def finished_states_def snapshot_of_def demo_simps store_eval guards)

text \<open>An owned dispatch and an event observed for it.\<close>

definition demo_db9 :: db where
  "demo_db9 = demo_db1\<lparr>dispatches := [\<lparr>od_op = [111], od_task_ref = [120], od_command = dumps JNull, od_sequence = 0\<rparr>]\<rparr>"

lemma demo_owned: "record_owned_dispatch [111] [120] JNull demo_db1 = Inr ((demo_op, snapshot_of [116] demo_db9, Some ([120], dumps JNull)), demo_db9)"
  by (simp add: record_owned_dispatch_def executor_binding_def snapshot_of_def is_ref_def ascii_alnum_def guard_null demo_db9_def
      demo_simps store_eval guards)

definition demo_event :: owned_event where
  "demo_event = \<lparr>wv_event = [121], wv_sequence = 3, wv_task = [120], wv_operation = [111], wv_version = 1,
     wv_status = lit ''submitted'', wv_text = []\<rparr>"

lemma guard_owned: "guard_json (owned_event_json demo_event) 16384 = Inr (dumps (owned_event_json demo_event))"
  by (rule guard_jsonI; simp add: owned_event_json_def demo_event_def scan_json.simps max_json_nodes_def max_json_depth_def Let_def;
      simp add: dumps_eval)

lemma identifier_owned: "\<not> list_ex is_control (lit ''owned_observation'')"
  by (simp add: is_control_def lit_def)

lemma demo_event_fields [simp]:
  "wv_event demo_event = [121]" "wv_sequence demo_event = 3" "wv_task demo_event = [120]" "wv_operation demo_event = [111]"
  "wv_version demo_event = 1" "wv_status demo_event = lit ''submitted''" "wv_text demo_event = []"
  by (simp_all add: demo_event_def)

definition demo_db10 :: db where
  "demo_db10 = (case observe_owned [111] demo_event demo_db9 of Inl _ \<Rightarrow> init_db | Inr (_, d) \<Rightarrow> d)"

lemma demo_observe_owned: "observe_owned [111] demo_event demo_db9 = Inr (True, demo_db10)"
  unfolding demo_db10_def
  by (simp add: observe_owned_def observe_def executor_binding_def snapshot_of_def is_ref_def ascii_alnum_def owned_statuses_def
      reserved_types_def guard_owned identifier_owned demo_db9_def demo_simps store_eval)

end
