(* ===== verification/TaskStoreProps.thy ===== *)
theory TaskStoreProps
  imports TaskStoreDemo
begin

text \<open>The properties of the task journal.\<close>

section \<open>Consequences of the invariant\<close>

lemma length_le_one: "distinct xs \<Longrightarrow> (\<And>a b. a \<in> set xs \<Longrightarrow> b \<in> set xs \<Longrightarrow> a = b) \<Longrightarrow> length xs \<le> 1"
proof (cases xs rule: remdups_adj.cases)
  case (3 x y zs)
  assume "distinct xs" "\<And>a b. a \<in> set xs \<Longrightarrow> b \<in> set xs \<Longrightarrow> a = b"
  from this(2) [of x y] this(1) show ?thesis by (simp add: 3)
qed simp_all

lemma filter_update_where_skip:
  "(\<And>r. r \<in> set rows \<Longrightarrow> P r \<Longrightarrow> \<not> Q r \<and> \<not> Q (f r)) \<Longrightarrow> filter Q (update_where P f rows) = filter Q rows"
  by (induction rows) auto

lemma reachable_parts:
  assumes "reachable d"
  shows "keys_ok d" "refs_ok d" "pairs_ok d" "single_flight d" "submitted_ok d" "capacity_ok d" "detached_ok d" "questions_ok d"
  using reachable_journal_ok [OF assms] by (simp_all add: journal_ok_def)

lemma find_op_in: "keys_ok d \<Longrightarrow> r \<in> set (operations d) \<Longrightarrow> find_op (op_id r) d = Some r"
  by (simp add: find_op_def keys_ok_def row_by_unique)

lemma find_task_in: "keys_ok d \<Longrightarrow> t \<in> set (tasks d) \<Longrightarrow> find_task (tk_id t) d = Some t"
  by (simp add: find_task_def keys_ok_def row_by_unique)

lemma op_has_task: "refs_ok d \<Longrightarrow> r \<in> set (operations d) \<Longrightarrow> \<exists>t\<in>set (tasks d). tk_id t = op_task r"
  by (force simp: refs_ok_def)

lemma lifecycle_not_back: "s \<le> s' \<Longrightarrow> s \<noteq> Unsubmitted \<Longrightarrow> s' \<noteq> Unsubmitted"
  by (auto simp: less_eq_dispatch_state_def dest: lifecycle_stages)

text \<open>C1. Single flight: in every journal the methods can produce, at most one operation is submitted with
  its outcome pending or unknown, across all calls and tasks.
\<close>

theorem single_flight_reachable:
  assumes "reachable d" "r \<in> set (operations d)" "r' \<in> set (operations d)"
    "op_state r \<in> {Submitted, Unknown}" "op_state r' \<in> {Submitted, Unknown}"
  shows "r = r'"
  by (rule single_flightD [OF reachable_parts(4) [OF assms(1)] reachable_parts(1) [OF assms(1)] assms(2-5)])

theorem single_flight_reachable_witness:
  "op_state demo_submitted = Submitted \<and> demo_submitted = hd (operations demo_db2)"
  using single_flight_reachable [OF demo_reachable(2), of demo_submitted "hd (operations demo_db2)"]
  by (simp add: demo_simps)

text \<open>C2. An operation is dispatched at most once: after a successful claim, and whatever sequence of
  journal methods follows (settlement, loss, restart recovery, reconciliation included), a second claim
  of the same operation is refused, as already claimed or because its scope is detached.
\<close>

theorem never_dispatched_twice:
  assumes "reachable d" "dispatch oid now eid d = Inr (x, d1)" "journal_step\<^sup>*\<^sup>* d1 d2"
  shows "dispatch oid now' eid' d2 \<in> {Inl (StoreConflict ''operation already claimed''), Inl (StoreDenied ''scope detached'')}"
proof -
  have r1: "reachable d1" using assms(1) step_dispatch [OF assms(2)] by simp
  from r1 have r2: "reachable d2" using assms(3) by simp
  obtain r t where rt: "find_op oid d = Some r" "core_is d1 (scopes d)
         (update_where (\<lambda>u. tk_id u = op_task r) (\<lambda>u. u\<lparr>tk_state := Running, tk_updated := now\<rparr>) (tasks d))
         (update_where (\<lambda>r. op_id r = oid) (\<lambda>r. r\<lparr>op_state := Submitted, op_submitted := Some now\<rparr>) (operations d))
         (questions d) (commands d)"
    using dispatch_effect [OF assms(2)] by blast
  have "op_id r = oid" "r \<in> set (operations d)" using find_opD [OF rt(1)] by simp_all
  have ops: "operations d1 = update_where (\<lambda>w. op_id w = oid) (\<lambda>r. r\<lparr>op_state := Submitted, op_submitted := Some now\<rparr>) (operations d)"
    using rt(2) by (simp add: core_is_def)
  have in1: "r\<lparr>op_state := Submitted, op_submitted := Some now\<rparr> \<in> set (operations d1)"
    using in_updateI [of r "operations d" "\<lambda>w. op_id w = oid" "\<lambda>r. r\<lparr>op_state := Submitted, op_submitted := Some now\<rparr>"]
      \<open>op_id r = oid\<close> \<open>r \<in> set (operations d)\<close> by (simp add: ops)
  obtain r' where r': "r' \<in> set (operations d2)" "op_later (r\<lparr>op_state := Submitted, op_submitted := Some now\<rparr>) r'"
    using reachable_later [OF r1 assms(3) in1] by blast
  have "Submitted \<le> op_state r'" and id: "op_id r' = oid"
    using r'(2) \<open>op_id r = oid\<close> by (simp_all add: op_later_def same_request_def)
  have "op_state r' \<noteq> Unsubmitted"
    by (rule lifecycle_not_back [OF \<open>Submitted \<le> op_state r'\<close>]) simp
  moreover obtain t where t: "t \<in> set (tasks d2)" "tk_id t = op_task r'"
    using op_has_task [OF reachable_parts(2) [OF r2] r'(1)] by blast
  moreover have "find_task (op_task r') d2 = Some t"
    using find_task_in [OF reachable_parts(1) [OF r2] t(1)] t(2) by simp
  moreover have "identifier_ok oid" using assms(2) by (auto simp: dispatch_def split: if_splits)
  ultimately show ?thesis
    using find_op_in [OF reachable_parts(1) [OF r2] r'(1)] id by (simp add: dispatch_def)
qed

theorem never_dispatched_twice_witness:
  "dispatch [111] [50] [1009] demo_db2 \<in> {Inl (StoreConflict ''operation already claimed''), Inl (StoreDenied ''scope detached'')}"
  by (rule never_dispatched_twice [OF demo_reachable(1) demo_dispatch rtranclp.rtrancl_refl])

text \<open>C3. Refinement of the lifecycle automaton: along any sequence of journal methods an operation keeps its
  identity, task, utterance, version and payload, its dispatch state only follows the transitions of
  \<open>lifecycle\<close>, and a recorded submission time never changes.
\<close>

theorem operation_follows_lifecycle:
  assumes "reachable d" "journal_step\<^sup>*\<^sup>* d d'" "r \<in> set (operations d)"
  shows "\<exists>r'\<in>set (operations d'). same_request r r' \<and> lifecycle\<^sup>*\<^sup>* (op_state r) (op_state r')
     \<and> (op_submitted r \<noteq> None \<longrightarrow> op_submitted r' = op_submitted r)"
  using reachable_later [OF assms] by (simp add: op_later_def less_eq_dispatch_state_def)

theorem operation_follows_lifecycle_witness:
  "\<exists>r'\<in>set (operations demo_db2). same_request demo_op r' \<and> lifecycle\<^sup>*\<^sup>* (op_state demo_op) (op_state r')
     \<and> (op_submitted demo_op \<noteq> None \<longrightarrow> op_submitted r' = op_submitted demo_op)"
proof -
  have "journal_step\<^sup>*\<^sup>* demo_db1 demo_db2" using step_dispatch [OF demo_dispatch] by blast
  then show ?thesis
    by (rule operation_follows_lifecycle [OF demo_reachable(1)]) (simp add: demo_db1_def)
qed

text \<open>C19. An operation never runs ahead of its task and an outstanding one is visible in the task's state:
  its version is at most the task's; while it is submitted the task is running or being cancelled; if its
  outcome is unknown so is the task's; a task cancelled or being cancelled has no operation left to dispatch.
\<close>

theorem operation_agrees_with_task:
  assumes "reachable d" "r \<in> set (operations d)" "t \<in> set (tasks d)" "op_task r = tk_id t"
  shows "op_version r \<le> tk_version t \<and> (op_state r = Submitted \<longrightarrow> tk_state t \<in> {Running, CancelRequested})
     \<and> (op_state r = Unknown \<longrightarrow> tk_state t = OutcomeUnknown)
     \<and> (tk_state t \<in> {TaskCancelled, CancelRequested} \<longrightarrow> op_state r \<noteq> Unsubmitted)"
  using pairs_okD [OF reachable_parts(3) [OF assms(1)] assms(2-4)] by (auto simp: pair_ok_def)

theorem operation_agrees_with_task_witness:
  "op_version demo_submitted \<le> 1 \<and> op_state demo_submitted = Submitted \<and> tk_state (hd (tasks demo_db2)) = Running"
  using operation_agrees_with_task [OF demo_reachable(2), of demo_submitted "hd (tasks demo_db2)"]
  by (simp add: demo_simps)

text \<open>C8. Capacities: a call scope never holds more than 8 tasks nor more than 32 operations that are not yet
  settled or cancelled.\<close>

theorem capacities_respected:
  assumes "reachable d"
  shows "scope_task_count sid d \<le> 8 \<and> open_count sid d \<le> 32"
  using reachable_parts(6) [OF assms] by (simp add: capacity_ok_def)

theorem capacities_respected_witness:
  "scope_task_count [115] demo_db2 = 1 \<and> open_count [115] demo_db2 \<le> 32"
  using capacities_respected [OF demo_reachable(2), of "[115]"] by (simp add: scope_task_count_def demo_simps)

text \<open>Open questions are consistent: a question row belongs to an attached scope, there is at most one per
  scope, and its task is in that scope, accepts input, carries the very text as its open question and has
  not been given an utterance since the question was noted.
\<close>

theorem questions_consistent:
  assumes "reachable d" "q \<in> set (questions d)"
  shows "scope_attached (q_scope q) d \<and> current_question (q_scope q) d = Some q
     \<and> (\<exists>t. find_task (q_task q) d = Some t \<and> tk_scope t = q_scope q \<and> tk_version t = q_version q
          \<and> tk_question t = Some (q_text q) \<and> tk_state t \<notin> set closed_states)"
proof -
  note k = reachable_parts(1) [OF assms(1)]
  have ok: "question_ok d q" using reachable_parts(8) [OF assms(1)] assms(2) by (simp add: questions_ok_def)
  then have att: "scope_attached (q_scope q) d" by (simp add: question_ok_def scope_attached_iff [OF k])
  moreover have "current_question (q_scope q) d = Some q"
    using k assms(2) att by (simp add: current_question_def keys_ok_def row_by_unique)
  moreover obtain t where "t \<in> set (tasks d)" "tk_id t = q_task q" "tk_scope t = q_scope q" "tk_version t = q_version q"
     "tk_question t = Some (q_text q)" "tk_state t \<notin> set closed_states"
    using ok unfolding question_ok_def by blast
  ultimately show ?thesis using find_task_in [OF k] by metis
qed

theorem questions_consistent_witness:
  "scope_attached [115] demo_db3 \<and> current_question [115] demo_db3 = Some demo_question"
  using questions_consistent [OF demo_reachable3, of demo_question] by (simp add: demo_db3_def demo_question_def)

text \<open>Detachment is final: once a scope is detached, after any further methods it has no operation that
  could be dispatched and no open question, and every claim of an operation of one of its tasks fails.
\<close>

theorem detached_scope_is_quiet:
  assumes "reachable d" "detach_scope sid d = Inr (x, d1)" "sid \<in> sc_id ` set (scopes d)" "journal_step\<^sup>*\<^sup>* d1 d2"
    "r \<in> set (operations d2)" "op_in_scope d2 sid r"
  shows "op_state r \<noteq> Unsubmitted \<and> current_question sid d2 = None
     \<and> dispatch (op_id r) now eid d2 \<in> {Inl (StoreDenied ''scope detached''), Inl (StoreInvalid ''invalid identifier'')}"
proof -
  have r1: "reachable d1" using assms(1) step_detach [OF assms(2)] by simp
  from r1 have r2: "reachable d2" using assms(4) by simp
  note k = reachable_parts(1) [OF r2]
  have sc: "scopes d1 = update_where (\<lambda>s. sc_id s = sid) (\<lambda>s. s\<lparr>sc_attached := False\<rparr>) (scopes d)"
    using detach_scope_effect [OF assms(2)] by (simp add: core_is_def)
  have "sid \<in> sc_id ` set (scopes d1)" using assms(3) by (simp add: sc key_image_update_where)
  moreover have "\<not> attached sid d1"
  proof
    assume "attached sid d1"
    then obtain a where a: "a \<in> set (scopes d1)" "sc_id a = sid" "sc_attached a" unfolding attached_def by blast
    from a(1) obtain b where "a = (if sc_id b = sid then b\<lparr>sc_attached := False\<rparr> else b)"
      unfolding sc by (subst (asm) in_update_where) (elim bexE, rule that)
    then show False using a(2,3) by (cases "sc_id b = sid") simp_all
  qed
  ultimately have off: "\<not> attached sid d2"
    using detached_stays [OF journal_steps_core [OF assms(4)] ] reachable_journal_ok [OF r1] by blast
  obtain t where t: "t \<in> set (tasks d2)" "tk_id t = op_task r" "tk_scope t = sid"
    using assms(6) by (auto simp: op_in_scope_iff [OF k])
  have "op_state r \<noteq> Unsubmitted"
    using reachable_parts(7) [OF r2] assms(5) t off by (auto simp: detached_ok_def)
  moreover have "\<not> scope_attached sid d2" using off by (simp add: scope_attached_iff [OF k])
  moreover have "find_task (op_task r) d2 = Some t" using find_task_in [OF k t(1)] t(2) by simp
  ultimately show ?thesis
    by (simp add: current_question_def dispatch_def find_op_in [OF k assms(5)] t(3) bounded_identifier_def)
qed

theorem detached_scope_is_quiet_witness:
  "dispatch [111] [50] [1009] demo_db4 \<in> {Inl (StoreDenied ''scope detached''), Inl (StoreInvalid ''invalid identifier'')}"
  using detached_scope_is_quiet [OF demo_reachable(1) demo_detach _ rtranclp.rtrancl_refl, of "demo_op\<lparr>op_state := Suspended\<rparr>" "[50]" "[1009]"]
  by (simp add: demo_db4_def op_in_scope_def demo_simps store_eval)

text \<open>The event log is append-only, its sequence numbers are 1, 2, 3, .. and event ids are unique.\<close>

theorem event_log_append_only:
  assumes "reachable d" "journal_step\<^sup>*\<^sup>* d d'"
  shows "prefix (events d) (events d') \<and> map ev_seq (events d') = [1..<Suc (length (events d'))]
     \<and> distinct (map ev_id (events d'))"
proof -
  have "logs init_db d'" using journal_steps_logs [of init_db d'] assms by (meson rtranclp_trans)
  then have "events_ok d'" by (simp add: logs_def events_ok_def init_db_def)
  moreover have "prefix (events d) (events d')"
    using journal_steps_logs [OF assms(2)] by (auto simp: logs_def log_extends_def prefix_def)
  ultimately show ?thesis by (simp add: events_ok_def)
qed

theorem event_log_append_only_witness:
  "prefix (events demo_db1) (events demo_db2) \<and> map ev_seq (events demo_db2) = [1, 2, 3] \<and> distinct (map ev_id (events demo_db2))"
proof -
  have "journal_step\<^sup>*\<^sup>* demo_db1 demo_db2" using step_dispatch [OF demo_dispatch] by blast
  from event_log_append_only [OF demo_reachable(1) this] show ?thesis by (simp add: demo_simps)
qed


section \<open>Retries\<close>

lemma operation_history:
  "reachable d \<Longrightarrow> journal_step\<^sup>*\<^sup>* d d' \<Longrightarrow> r \<in> set (operations d) \<Longrightarrow> \<exists>r'\<in>set (operations d'). same_request r r'"
  using reachable_later op_later_def by blast

lemma accept_result:
  assumes "accept tid sid u text kind voice ex au now nid eid d = Inr (r, d')"
  shows "identifier_ok u \<and> kind \<in> set business_kinds \<and> text \<noteq> [] \<and> length text \<le> 4000
    \<and> list_all (\<lambda>(k, v). k \<in> set voice_keys) (case voice of None \<Rightarrow> [] | Some c \<Rightarrow> c)
    \<and> \<not> list_ex (\<lambda>(k, v). v = [] \<or> 128 < length v) (case voice of None \<Rightarrow> [] | Some c \<Rightarrow> c)
    \<and> guard_json (voice_json (case voice of None \<Rightarrow> [] | Some c \<Rightarrow> c)) 512 = Inr (op_voice r)
    \<and> (\<exists>t. find_task tid d = Some t \<and> tk_scope t = sid)
    \<and> (\<forall>v. dict_get (lit ''assistant_id'') (case voice of None \<Rightarrow> [] | Some c \<Rightarrow> c) = Some v
          \<longrightarrow> (\<exists>s. find_scope sid d = Some s \<and> sc_assistant s = v))
    \<and> op_utterance r = u \<and> op_task r = tid \<and> op_kind r = kind \<and> op_text r = text \<and> r \<in> set (operations d')"
proof -
  obtain enc t where g: "guard_json (voice_json (case voice of None \<Rightarrow> [] | Some c \<Rightarrow> c)) 512 = Inr enc"
     "task_row tid sid d = Inr t" "identifier_ok u" "kind \<in> set business_kinds" "text \<noteq> []" "length text \<le> 4000"
     "list_all (\<lambda>(k, v). k \<in> set voice_keys) (case voice of None \<Rightarrow> [] | Some c \<Rightarrow> c)"
     "\<not> list_ex (\<lambda>(k, v). v = [] \<or> 128 < length v) (case voice of None \<Rightarrow> [] | Some c \<Rightarrow> c)"
     "\<forall>v. dict_get (lit ''assistant_id'') (case voice of None \<Rightarrow> [] | Some c \<Rightarrow> c) = Some v
          \<longrightarrow> (\<exists>s. find_scope sid d = Some s \<and> sc_assistant s = v)"
     and out: "(\<exists>w. row_by op_utterance u (operations d) = Some w \<and> op_task w = tid \<and> op_kind w = kind \<and> op_text w = text
          \<and> op_voice w = enc \<and> r = w \<and> d' = d)
        \<or> accept_commit t sid u text kind (case voice of None \<Rightarrow> [] | Some c \<Rightarrow> c) enc now nid eid d = Inr (r, d')"
    using assms unfolding accept_def Let_def
    by (simp split: if_splits sum.splits option.splits; force)
  have t: "find_task tid d = Some t" "tk_scope t = sid" "tk_id t = tid" using task_row_InrD [OF g(2)] by simp_all
  have "op_voice r = enc \<and> op_utterance r = u \<and> op_task r = tid \<and> op_kind r = kind \<and> op_text r = text \<and> r \<in> set (operations d')"
    using out
  proof
    assume "accept_commit t sid u text kind (case voice of None \<Rightarrow> [] | Some c \<Rightarrow> c) enc now nid eid d = Inr (r, d')"
    from accept_commit_effect [OF this] t show ?thesis by (simp add: core_is_def)
  qed (auto dest: row_by_SomeD)
  then show ?thesis using g t by auto
qed

text \<open>Accepting an utterance is idempotent: once it has been accepted, repeating the call with the same
  task, text, kind and voice context, after any further methods and whatever the routing preconditions are
  by then, returns the operation recorded the first time and changes nothing.
\<close>

theorem accept_retry_idempotent:
  assumes "reachable d" "accept tid sid u text kind voice ex au now nid eid d = Inr (r, d1)" "journal_step\<^sup>*\<^sup>* d1 d2"
  shows "\<exists>r'. accept tid sid u text kind voice ex' au' now' nid' eid' d2 = Inr (r', d2) \<and> same_request r r'"
proof -
  note a = accept_result [OF assms(2)]
  have s1: "journal_step d d1" using assms(2) by (rule step_accept)
  then have r1: "reachable d1" and r2: "reachable d2" using assms(1,3) by simp_all
  have steps: "core_steps d d2"
    using journal_steps_core [of d d2] s1 assms(3) reachable_journal_ok [OF assms(1)] by (simp add: converse_rtranclp_into_rtranclp)
  note k = reachable_parts(1) [OF r2]
  obtain r' where r': "r' \<in> set (operations d2)" "same_request r r'"
    using operation_history [OF r1 assms(3)] a by blast
  have row: "row_by op_utterance u (operations d2) = Some r'"
    using row_by_unique [of op_utterance "operations d2" r'] k r' a by (simp add: keys_ok_def same_request_def)
  have "u \<notin> cm_id ` set (commands d2)"
    using k r' a by (auto simp: keys_ok_def same_request_def)
  moreover obtain t where "task_row tid sid d2 = Inr t"
    using a find_task_steps [OF steps] by (fastforce simp: task_row_def)
  moreover have assist: "\<not> (case dict_get (lit ''assistant_id'') (case voice of None \<Rightarrow> [] | Some c \<Rightarrow> c) of None \<Rightarrow> False
      | Some v \<Rightarrow> (case find_scope sid d2 of None \<Rightarrow> True | Some s \<Rightarrow> v \<noteq> sc_assistant s))"
  proof (cases "dict_get (lit ''assistant_id'') (case voice of None \<Rightarrow> [] | Some c \<Rightarrow> c)")
    case (Some v)
    then obtain s where "find_scope sid d = Some s" "sc_assistant s = v" using a by blast
    then show ?thesis using find_scope_steps [OF steps] Some by fastforce
  qed simp
  moreover have "op_task r' = tid \<and> op_kind r' = kind \<and> op_text r' = text \<and> op_voice r' = op_voice r"
    using r'(2) a by (simp add: same_request_def)
  ultimately have "accept tid sid u text kind voice ex' au' now' nid' eid' d2 = Inr (r', d2)"
    unfolding accept_def Let_def using a by (simp add: row not_less assist)
  then show ?thesis using r'(2) by blast
qed

theorem accept_retry_idempotent_witness:
  "\<exists>r'. accept [116] [115] [117] [104] (lit ''new_task'') None None (Some False) [50] [7] [8] demo_db2 = Inr (r', demo_db2) \<and> same_request demo_op r'"
proof -
  have "journal_step\<^sup>*\<^sup>* demo_db1 demo_db2" using step_dispatch [OF demo_dispatch] by blast
  then show ?thesis by (rule accept_retry_idempotent [OF demo_reachable(1) demo_retry])
qed

lemma settle_cases:
  assumes "settle oid replies res ev now sid d = Inr (x, d')"
  obtains result encr ence r where "identifier_ok oid" "List.find (\<lambda>s. state_name s = res) terminal_outcomes = Some result"
    "result \<noteq> OutcomeUnknown" "result \<noteq> TaskCancelled" "replies_ok replies" "guard_json (replies_json replies) 16384 = Inr encr"
    "guard_json (case ev of None \<Rightarrow> JDict [] | Some v \<Rightarrow> v) 16384 = Inr ence" "find_op oid d = Some r"
    "op_state r = Settled \<and> d' = d \<and> op_replies r = Some encr \<and> op_evidence r = Some ence \<and> op_outcome r = Some result
      \<or> (\<exists>t. settle_commit r t result replies (case ev of None \<Rightarrow> JDict [] | Some v \<Rightarrow> v) encr ence now sid d = Inr (x, d'))"
  using assms unfolding settle_def Let_def
  by (simp del: List.find.simps split: if_splits sum.splits option.splits) (force, force)+

lemma settle_result:
  assumes "settle oid replies res ev now sid d = Inr (x, d')"
  obtains result encr ence r where "identifier_ok oid" "List.find (\<lambda>s. state_name s = res) terminal_outcomes = Some result"
    "result \<noteq> OutcomeUnknown" "result \<noteq> TaskCancelled" "replies_ok replies" "guard_json (replies_json replies) 16384 = Inr encr"
    "guard_json (case ev of None \<Rightarrow> JDict [] | Some v \<Rightarrow> v) 16384 = Inr ence" "find_op oid d' = Some r" "op_state r = Settled"
    "op_replies r = Some encr" "op_evidence r = Some ence" "op_outcome r = Some result"
  using assms
proof (rule settle_cases)
  fix result encr ence r
  assume g: "identifier_ok oid" "List.find (\<lambda>s. state_name s = res) terminal_outcomes = Some result"
    "result \<noteq> OutcomeUnknown" "result \<noteq> TaskCancelled" "replies_ok replies" "guard_json (replies_json replies) 16384 = Inr encr"
    "guard_json (case ev of None \<Rightarrow> JDict [] | Some v \<Rightarrow> v) 16384 = Inr ence" "find_op oid d = Some r"
    and out: "op_state r = Settled \<and> d' = d \<and> op_replies r = Some encr \<and> op_evidence r = Some ence \<and> op_outcome r = Some result
      \<or> (\<exists>t. settle_commit r t result replies (case ev of None \<Rightarrow> JDict [] | Some v \<Rightarrow> v) encr ence now sid d = Inr (x, d'))"
  from out show ?thesis
  proof (elim disjE exE)
    assume "op_state r = Settled \<and> d' = d \<and> op_replies r = Some encr \<and> op_evidence r = Some ence \<and> op_outcome r = Some result"
    then show ?thesis using g by (intro that) auto
  next
    fix t assume "settle_commit r t result replies (case ev of None \<Rightarrow> JDict [] | Some v \<Rightarrow> v) encr ence now sid d = Inr (x, d')"
    note ops = core_is_chain [OF settle_commit_effect [OF this], THEN conjunct2, THEN conjunct2, THEN conjunct1]
    have "find_op oid d' = Some (r\<lparr>op_state := Settled, op_replies := Some encr, op_evidence := Some ence, op_outcome := Some result, op_settled := Some now\<rparr>)"
      using g(8) find_opD [OF g(8)] by (simp add: find_op_def ops row_by_update_where)
    from that [OF g(1-7) this] show ?thesis by simp
  qed
qed

lemma terminal_outcome_unique:
  "List.find (\<lambda>s. state_name s = a) terminal_outcomes = Some r \<Longrightarrow> List.find (\<lambda>s. state_name s = b) terminal_outcomes = Some r' \<Longrightarrow> r = r' \<Longrightarrow> a = b"
  by (auto dest!: find_SomeD)

text \<open>Settling is idempotent: once a settlement has been recorded, repeating it with the same outcome,
  replies and evidence succeeds and changes nothing, while a different outcome for the settled operation
  is refused as a conflict.
\<close>

theorem settle_retry_idempotent:
  assumes "settle oid replies res ev now sid d = Inr (x, d')"
  shows "(\<exists>y. settle oid replies res ev now' sid' d' = Inr (y, d'))
    \<and> (\<forall>res2 \<in> {lit ''awaiting_input'', lit ''succeeded'', lit ''failed''}. res2 \<noteq> res \<longrightarrow>
         settle oid replies res2 ev now' sid' d' = Inl (StoreConflict ''settlement conflict''))"
  using assms
proof (rule settle_result)
  fix result encr ence r
  assume g: "identifier_ok oid" "List.find (\<lambda>s. state_name s = res) terminal_outcomes = Some result"
    "result \<noteq> OutcomeUnknown" "result \<noteq> TaskCancelled" "replies_ok replies" "guard_json (replies_json replies) 16384 = Inr encr"
    "guard_json (case ev of None \<Rightarrow> JDict [] | Some v \<Rightarrow> v) 16384 = Inr ence" "find_op oid d' = Some r" "op_state r = Settled"
    "op_replies r = Some encr" "op_evidence r = Some ence" "op_outcome r = Some result"
  have "settle oid replies res ev now' sid' d' = Inr (snapshot_of (op_task r) d', d')"
    unfolding settle_def Let_def using g by (simp del: List.find.simps)
  moreover have "settle oid replies res2 ev now' sid' d' = Inl (StoreConflict ''settlement conflict'')"
    if r2: "res2 \<in> {lit ''awaiting_input'', lit ''succeeded'', lit ''failed''}" "res2 \<noteq> res" for res2
  proof -
    obtain result2 where f: "List.find (\<lambda>s. state_name s = res2) terminal_outcomes = Some result2" "result2 \<noteq> OutcomeUnknown" "result2 \<noteq> TaskCancelled"
      using r2(1) by (auto simp: terminal_outcomes_def)
    then have "result2 \<noteq> result" using terminal_outcome_unique [OF f(1) g(2)] r2(2) by blast
    then show ?thesis unfolding settle_def Let_def using g f by (simp del: List.find.simps)
  qed
  ultimately show ?thesis by blast
qed

theorem settle_retry_idempotent_witness:
  "settle [111] [] (lit ''failed'') None [51] [1011] demo_db5 = Inl (StoreConflict ''settlement conflict'')"
  using settle_retry_idempotent [OF demo_settle, of "[51]" "[1011]"] by simp

lemma observe_result:
  assumes "observe oid eid ty payload d = Inr (x, d')"
  shows "list_all identifier_ok [oid, eid, ty] \<and> ty \<notin> set reserved_types
    \<and> (\<exists>enc r p. guard_json payload 16384 = Inr enc \<and> find_op oid d' = Some r
         \<and> row_by in_event eid (inbox d') = Some p \<and> in_op p = oid \<and> in_type p = ty \<and> in_payload p = enc)"
  using assms
  by (auto simp: observe_def find_op_def core_is_def split: if_splits sum.splits option.splits dest!: add_event_InrD)

text \<open>Observing a backend event is idempotent: repeating a recorded observation changes nothing and says so;
  the same event id with another operation, type or payload is refused as a conflict.
\<close>

theorem observe_retry_idempotent:
  assumes "observe oid eid ty payload d = Inr (x, d')" "ty' \<noteq> ty" "identifier_ok ty'" "ty' \<notin> set reserved_types"
  shows "observe oid eid ty payload d' = Inr (False, d')
    \<and> observe oid eid ty' payload d' = Inl (StoreConflict ''callback identity conflict'')"
  using observe_result [OF assms(1)] assms(2-4) by (auto simp: observe_def)

theorem observe_retry_idempotent_witness:
  "observe [111] [1020] [98] JNull demo_db6 = Inl (StoreConflict ''callback identity conflict'')"
  using observe_retry_idempotent [OF demo_observe, of "[98]"] by (simp add: reserved_types_def bounded_identifier_def is_control_def lit_def)

text \<open>Restart recovery: after recovery no operation is submitted any more; every one that was is marked
  unknown, and there was at most one.
\<close>

theorem recover_resolves_submitted:
  assumes "reachable d" "recover nows fresh d = Inr (n, d')"
  shows "n \<le> 1 \<and> (\<forall>r\<in>set (operations d'). op_state r \<noteq> Submitted) \<and> (has_unresolved d' \<longleftrightarrow> has_unresolved d)"
proof -
  note k = reachable_parts(1) [OF assms(1)]
  let ?rows = "filter (\<lambda>r. op_state r = Submitted) (operations d)"
  have n: "n = length ?rows" and rec: "recover_rows ?rows nows fresh d = Inr d'"
    using assms(2) by (auto simp: recover_def Let_def split: sum.splits)
  have one: "r = r'" if "r \<in> set ?rows" "r' \<in> set ?rows" for r r'
    using that single_flightD [OF reachable_parts(4) [OF assms(1)] k, of r r'] by auto
  have "distinct ?rows" using k by (simp add: keys_ok_def distinct_map)
  show ?thesis
  proof (cases ?rows)
    case Nil
    then have "d' = d" using rec by simp
    then show ?thesis using Nil n by (auto simp: filter_empty_conv)
  next
    case (Cons r rows)
    have set_rows: "r \<in> set ?rows" unfolding Cons by simp
    have "length ?rows \<le> 1" using \<open>distinct ?rows\<close> one by (rule length_le_one)
    then have "rows = []" unfolding Cons by simp
    have "set_unknown r (lit ''process_restart'') (nows (op_id r)) (fresh (op_id r)) d = Inr d'"
      using rec unfolding Cons \<open>rows = []\<close> by (simp split: sum.splits)
    note eff = core_is_chain [OF set_unknown_effect [OF this], THEN conjunct2, THEN conjunct2, THEN conjunct1]
    have r: "r \<in> set (operations d)" "op_state r = Submitted"
      using set_rows by auto
    have "\<exists>w\<in>set (operations d'). op_state w = Unknown"
      using in_updateI [OF r(1), of "\<lambda>w. op_id w = op_id r" "\<lambda>w. w\<lparr>op_state := Unknown, op_reason := Some (lit ''process_restart'')\<rparr>"]
      by (intro bexI) (auto simp: eff unknown_ops_def)
    moreover have "op_state w' \<noteq> Submitted" if w': "w' \<in> set (operations d')" for w'
    proof -
      obtain w where w: "w \<in> set (operations d)" "w' = (if op_id w = op_id r then w\<lparr>op_state := Unknown, op_reason := Some (lit ''process_restart'')\<rparr> else w)"
        using w' by (auto simp: eff unknown_ops_def in_update_where)
      then show ?thesis using one [of w r] r by (cases "op_id w = op_id r") auto
    qed
    ultimately show ?thesis using n Cons \<open>rows = []\<close> r by (auto simp: has_unresolved_iff)
  qed
qed

theorem recover_resolves_submitted_witness:
  "\<not> list_ex (\<lambda>r. op_state r = Submitted) (operations demo_db7) \<and> has_unresolved demo_db7"
  using recover_resolves_submitted [OF demo_reachable(2) demo_recover] by (auto simp: list_ex_iff has_unresolved_def demo_simps)

text \<open>Cancelling: a successful cancellation leaves the task cancelled exactly if none of its operations was
  ever submitted and otherwise only cancellation-requested, leaves it no operation to dispatch and no open
  question, and never touches an operation that was submitted.
\<close>

theorem cancel_pending_effect_on_task:
  assumes "reachable d" "cancel_pending tid sid cmd text ex au now eid d = Inr (x, d')" "cmd \<notin> cm_id ` set (commands d)"
  shows "(\<exists>t. find_task tid d' = Some t \<and> tk_question t = None
        \<and> tk_state t = (if was_dispatched tid d then CancelRequested else TaskCancelled))
     \<and> (\<forall>r\<in>set (operations d'). op_task r = tid \<longrightarrow> op_state r \<noteq> Unsubmitted)
     \<and> filter (\<lambda>r. op_submitted r \<noteq> None) (operations d') = filter (\<lambda>r. op_submitted r \<noteq> None) (operations d)"
proof -
  note k = reachable_parts(1) [OF assms(1)]
  obtain t where t: "find_task tid d = Some t" and eff: "core_is d' (scopes d)
          (update_where (\<lambda>u. tk_id u = tid)
             (\<lambda>u. u\<lparr>tk_state := cancel_state tid d, tk_version := Suc (tk_version t), tk_question := None, tk_updated := now\<rparr>) (tasks d))
          (update_where (\<lambda>r. op_task r = tid \<and> op_state r = Unsubmitted) (\<lambda>r. r\<lparr>op_state := cancel_op_state tid d\<rparr>) (operations d))
          (filter (\<lambda>q. \<not> (q_scope q = sid \<and> q_task q = tid)) (questions d)) (commands d')"
    using cancel_pending_effect [OF assms(2)] assms(3) by (auto simp: core_is_def)
  have task: "find_task tid d' = Some (t\<lparr>tk_state := cancel_state tid d, tk_version := Suc (tk_version t), tk_question := None, tk_updated := now\<rparr>)"
    using t find_taskD [OF t] by (simp add: find_task_def core_is_chain [OF eff] row_by_update_where)
  note ops = core_is_chain [OF eff, THEN conjunct2, THEN conjunct2, THEN conjunct1]
  have "op_state r \<noteq> Unsubmitted" if "r \<in> set (operations d')" "op_task r = tid" for r
  proof -
    from that(1) show ?thesis
      unfolding ops by (rule update_whereE) (use that(2) in auto)
  qed
  moreover have "op_submitted r = None" if "r \<in> set (operations d)" "op_state r = Unsubmitted" for r
    using reachable_parts(5) [OF assms(1)] that by (auto simp: submitted_ok_def)
  then have "filter (\<lambda>r. op_submitted r \<noteq> None) (operations d') = filter (\<lambda>r. op_submitted r \<noteq> None) (operations d)"
    unfolding ops by (intro filter_update_where_skip) auto
  ultimately show ?thesis using task by (auto simp: cancel_state_def)
qed

theorem cancel_pending_effect_on_task_witness:
  "(\<exists>t. find_task [116] demo_db8 = Some t \<and> tk_question t = None \<and> tk_state t = TaskCancelled)
     \<and> filter (\<lambda>r. op_submitted r \<noteq> None) (operations demo_db8) = []"
  using cancel_pending_effect_on_task [OF demo_reachable(1) demo_cancel]
  by (simp add: was_dispatched_def demo_simps)

section \<open>Owned dispatches\<close>

lemma dispatches_settle_questions [simp]: "dispatches (settle_questions a b r t bi q s d) = dispatches d"
  by (auto simp: settle_questions_def store_updates split: option.splits list.splits)

lemma dispatches_kept:
  "create_task s a obj given now nid eid d = Inr (x1, d') \<Longrightarrow> dispatches d' = dispatches d"
  "accept_commit t sid u text kind ctx enc now nid eid d = Inr (x2, d') \<Longrightarrow> dispatches d' = dispatches d"
  "note_question tid sid text src ver nid d = Inr (x4, d') \<Longrightarrow> dispatches d' = dispatches d"
  "cancel_pending tid sid cmd text ex au now eid d = Inr (x5, d') \<Longrightarrow> dispatches d' = dispatches d"
  "dispatch oid now eid d = Inr (x6, d') \<Longrightarrow> dispatches d' = dispatches d"
  "observe oid eid ty payload d = Inr (x7, d') \<Longrightarrow> dispatches d' = dispatches d"
  "settle_commit w t result replies evj enc1 enc2 now sid d = Inr (x8, d') \<Longrightarrow> dispatches d' = dispatches d"
  "receipt_commit w req exe rc eid d = Inr (x9, d') \<Longrightarrow> dispatches d' = dispatches d"
  "reconcile_commit w result rn e rs e2 e1 now eid d = Inr (x12, d') \<Longrightarrow> dispatches d' = dispatches d"
  "set_unknown w reason now eid d = Inr d' \<Longrightarrow> dispatches d' = dispatches d"
  "detach_scope sid d = Inr (x14, d') \<Longrightarrow> dispatches d' = dispatches d"
  by (auto simp: create_task_def bind_scope_def Let_def store_updates accept_commit_def note_question_def cancel_pending_def
      dispatch_def observe_def settle_commit_def receipt_commit_def reconcile_commit_def set_unknown_def detach_scope_def
      split: if_splits sum.splits option.splits dest!: add_event_InrD)

lemma dispatches_kept_recover: "recover_rows rows nows fresh d = Inr d' \<Longrightarrow> dispatches d' = dispatches d"
  by (induction rows arbitrary: d) (force split: sum.splits dest: dispatches_kept)+

lemma dispatches_kept_accept: "accept tid sid u text kind voice ex au now nid eid d = Inr (x, d') \<Longrightarrow> dispatches d' = dispatches d"
  by (drule accept_effect) (auto dest: dispatches_kept)

definition dispatch_later :: "dispatch_row \<Rightarrow> dispatch_row \<Rightarrow> bool" where
  "dispatch_later b b' \<longleftrightarrow> od_op b' = od_op b \<and> od_task_ref b' = od_task_ref b \<and> od_command b' = od_command b
     \<and> od_sequence b \<le> od_sequence b'"

definition dispatches_ok :: "db \<Rightarrow> bool" where
  "dispatches_ok d \<longleftrightarrow> distinct (map od_op (dispatches d))"

definition dispatches_grow :: "db \<Rightarrow> db \<Rightarrow> bool" where
  "dispatches_grow d d' \<longleftrightarrow> dispatches_ok d' \<and> (\<forall>b\<in>set (dispatches d). \<exists>b'\<in>set (dispatches d'). dispatch_later b b')"

lemma dispatches_same: "dispatches d' = dispatches d \<Longrightarrow> dispatches_ok d \<Longrightarrow> dispatches_grow d d'"
  by (auto simp: dispatches_grow_def dispatches_ok_def dispatch_later_def)

lemma dispatches_owned:
  assumes "record_owned_dispatch oid ref cmdj d = Inr (x, d')" "dispatches_ok d"
  shows "dispatches_grow d d'"
  using record_owned_dispatch_effect [OF assms(1)]
proof (elim disjE conjE exE)
  fix b assume "oid \<notin> od_op ` set (dispatches d)" "od_op b = oid" "dispatches d' = dispatches d @ [b]"
  then show ?thesis using assms(2) by (auto simp: dispatches_grow_def dispatches_ok_def dispatch_later_def)
qed (simp add: dispatches_same assms(2))

lemma observe_owned_dispatches:
  assumes "observe_owned oid e d = Inr (x, d')"
  shows "dispatches d' = dispatches d \<or>
    (case row_by od_op oid (dispatches d) of None \<Rightarrow> 0 | Some b \<Rightarrow> od_sequence b) < wv_sequence e
    \<and> dispatches d' = update_where (\<lambda>b. od_op b = oid) (\<lambda>b. b\<lparr>od_sequence := wv_sequence e\<rparr>) (dispatches d)"
  using assms
  by (auto simp: observe_owned_def Let_def not_le split: if_splits sum.splits prod.splits bool.splits dest!: dispatches_kept(6))

lemma dispatches_observe_owned:
  assumes "observe_owned oid e d = Inr (x, d')" "dispatches_ok d"
  shows "dispatches_grow d d'"
  using observe_owned_dispatches [OF assms(1)]
proof (elim disjE conjE)
  let ?f = "\<lambda>b. b\<lparr>od_sequence := wv_sequence e\<rparr>"
  assume up: "(case row_by od_op oid (dispatches d) of None \<Rightarrow> 0 | Some b \<Rightarrow> od_sequence b) < wv_sequence e"
    and new: "dispatches d' = update_where (\<lambda>b. od_op b = oid) ?f (dispatches d)"
  have "\<exists>b'\<in>set (dispatches d'). dispatch_later b b'" if b: "b \<in> set (dispatches d)" for b
  proof -
    have "dispatch_later b (if od_op b = oid then ?f b else b)"
      using row_by_unique [of od_op "dispatches d" b] assms(2) b up by (auto simp: dispatches_ok_def dispatch_later_def)
    then show ?thesis
      unfolding new by (rule bexI [OF _ in_updateI [OF b, of "\<lambda>b. od_op b = oid" ?f]])
  qed
  moreover have "dispatches_ok d'" using assms(2) by (simp add: dispatches_ok_def new map_update_where)
  ultimately show ?thesis by (simp add: dispatches_grow_def)
qed (simp add: dispatches_same assms(2))

lemma dispatches_kept_accept_new:
  "accept_new_task s a u text voice ex au now tid ce oid ae d = Inr (x, d') \<Longrightarrow> dispatches d' = dispatches d"
  by (auto simp: accept_new_task_def split: option.splits sum.splits if_splits dest!: dispatches_kept_accept dispatches_kept(1))

lemma dispatches_kept_recovery: "recover nows fresh d = Inr (x, d') \<Longrightarrow> dispatches d' = dispatches d"
  by (auto simp: recover_def Let_def split: sum.splits dest: dispatches_kept_recover)

lemma dispatches_kept_derived:
  "settle oid replies res ev now eid d = Inr (x8, d') \<Longrightarrow> dispatches d' = dispatches d"
  "record_receipt oid req exe rc eid d = Inr (x9, d') \<Longrightarrow> dispatches d' = dispatches d"
  "reconcile_unknown oid res rv rs now eid d = Inr (x12, d') \<Longrightarrow> dispatches d' = dispatches d"
  "mark_unknown oid reason now eid d = Inr (x13, d') \<Longrightarrow> dispatches d' = dispatches d"
  by (auto dest!: settle_effect record_receipt_effect reconcile_unknown_effect mark_unknown_effect dest: dispatches_kept)

lemma dispatches_step:
  assumes "journal_step d d'" "dispatches_ok d"
  shows "dispatches_grow d d'"
  using assms(1)
  by (cases rule: journal_step.cases)
    (blast intro: dispatches_same [OF _ assms(2)] dispatches_owned [OF _ assms(2)] dispatches_observe_owned [OF _ assms(2)]
       dispatches_kept dispatches_kept_accept dispatches_kept_accept_new dispatches_kept_recovery dispatches_kept_derived)+

lemma dispatches_steps: "journal_step\<^sup>*\<^sup>* d d' \<Longrightarrow> dispatches_ok d \<Longrightarrow> dispatches_grow d d'"
proof (induction rule: rtranclp_induct)
  case base
  then show ?case by (simp add: dispatches_same)
next
  case (step y z)
  then have "dispatches_grow d y" by blast
  moreover from this have "dispatches_grow y z" using dispatches_step [OF step(2)] by (simp add: dispatches_grow_def)
  ultimately show ?case unfolding dispatches_grow_def dispatch_later_def by (metis order_trans)
qed

text \<open>The cursor of an owned dispatch never moves backwards and its binding never changes: after any sequence
  of methods a recorded dispatch still has its task reference and command, and its sequence is at least as high.
\<close>

theorem owned_cursor_monotone:
  assumes "reachable d" "journal_step\<^sup>*\<^sup>* d d'" "b \<in> set (dispatches d)"
  shows "\<exists>b'\<in>set (dispatches d'). dispatch_later b b'"
proof -
  have "dispatches_ok d" using dispatches_steps [OF assms(1)] by (simp add: dispatches_grow_def dispatches_ok_def init_db_def)
  from dispatches_steps [OF assms(2) this] show ?thesis using assms(3) by (simp add: dispatches_grow_def)
qed

theorem owned_cursor_monotone_witness:
  "\<exists>b'\<in>set (dispatches demo_db10). dispatch_later (hd (dispatches demo_db9)) b'"
proof -
  have "reachable demo_db9" using demo_reachable(1) step_owned [OF demo_owned] by simp
  moreover have "journal_step\<^sup>*\<^sup>* demo_db9 demo_db10" using step_observe_owned [OF demo_observe_owned] by blast
  ultimately show ?thesis by (rule owned_cursor_monotone) (simp add: demo_db9_def)
qed

end
