(* ===== verification/TaskWorker.thy ===== *)
theory TaskWorker
  imports TaskStoreProps
begin

text \<open>
  The worker and the output queue of one conversation attachment,
  \<open>voice/native-bridge/task_coordinator.py\<close>. What the environment decides is an argument of a step: the
  executor's readiness, the texts it calls back with and how its turn ends, timestamps and fresh identifiers,
  the digest of a text. A validity token stands for the closure the code stores with an event and calls later.
\<close>

section \<open>The output queue\<close>

record 'v out_event =
  oe_kind :: pystr
  oe_task :: pystr
  oe_operation :: pystr
  oe_utterance :: pystr
  oe_version :: nat
  oe_text :: pystr
  oe_priority :: nat
  oe_input :: "'v option"
  oe_checkpoint :: "checkpoint option"
  oe_authority :: "'v option"

definition backend_kind :: pystr where "backend_kind = lit ''backend_reply''"

definition queue_limit :: nat where "queue_limit = 8"

text \<open>The \<open>put_nowait\<close> of \<open>_queue\<close> with its overflow rule: the pair is the queue and the suppressed count.\<close>

definition queue_put :: "'v out_event \<Rightarrow> 'v out_event list \<times> nat \<Rightarrow> 'v out_event list \<times> nat" where
  "queue_put e qn = (case qn of (q, n) \<Rightarrow>
     if length q < queue_limit then (q @ [e], n)
     else if oe_kind e \<noteq> backend_kind then (tl q @ [e], Suc n)
     else (q, Suc n))"

text \<open>The queue half of \<open>_interrupt\<close>.\<close>

definition interrupt_queue :: "bool \<Rightarrow> 'v out_event list \<times> nat \<Rightarrow> 'v out_event list \<times> nat" where
  "interrupt_queue preserve qn = (case qn of (q, n) \<Rightarrow>
     let kept = filter (\<lambda>e. preserve \<and> oe_kind e = backend_kind) q in (kept, n + (length q - length kept)))"

record 'v attachment =
  at_scope :: pystr
  at_attached :: bool
  at_context :: pystr
  at_executing :: bool
  at_queue :: "'v out_event list"
  at_suppressed :: nat
  at_store :: db

definition enqueue :: "'v out_event \<Rightarrow> 'v attachment \<Rightarrow> 'v attachment" where
  "enqueue e a = (if \<not> at_attached a then a
     else case queue_put e (at_queue a, at_suppressed a) of (q, n) \<Rightarrow> a\<lparr>at_queue := q, at_suppressed := n\<rparr>)"

definition op_event :: "pystr \<Rightarrow> pystr \<Rightarrow> op_row \<Rightarrow> 'v out_event" where
  "op_event kind text r = \<lparr>oe_kind = kind, oe_task = op_task r, oe_operation = op_id r, oe_utterance = op_utterance r,
     oe_version = op_version r, oe_text = text, oe_priority = (if kind = backend_kind then 10 else 0),
     oe_input = None, oe_checkpoint = None, oe_authority = None\<rparr>"

text \<open>
  One round of \<open>_output\<close>: what is done with the event at the head of the queue. \<open>deferred\<close> and \<open>guarded\<close> say
  whether the emitter offers those methods, \<open>holds\<close> is the current answer of a token, \<open>owner\<close> whether the
  coordinator still belongs to this attachment.
\<close>

datatype delivery = Suppressed | PublishDeferred | PublishGuarded | Emitted

definition deliver :: "('v \<Rightarrow> bool) \<Rightarrow> bool \<Rightarrow> bool \<Rightarrow> bool \<Rightarrow> 'v out_event \<Rightarrow> 'v attachment \<Rightarrow> delivery" where
  "deliver holds owner deferred guarded e a =
     (let valid_help = at_attached a \<and> (case oe_input e of None \<Rightarrow> True | Some v \<Rightarrow> holds v)
            \<and> (case oe_authority e of None \<Rightarrow> True | Some v \<Rightarrow> holds v)
            \<and> (case oe_checkpoint e of None \<Rightarrow> True
               | Some c \<Rightarrow> (case routing_checkpoint (at_scope a) (at_store a) of Inl _ \<Rightarrow> False | Inr c' \<Rightarrow> c = c'));
          valid_backend = at_attached a \<and> owner
            \<and> (case get_task (oe_task e) (at_scope a) (at_store a) of Inl _ \<Rightarrow> False | Inr (t, s) \<Rightarrow> tk_version t = oe_version e)
      in if \<not> valid_help then Suppressed
         else if oe_kind e = backend_kind then
           (if \<not> valid_backend then Suppressed else if deferred then PublishDeferred else Emitted)
         else if guarded \<and> (oe_checkpoint e \<noteq> None \<or> oe_input e \<noteq> None) then PublishGuarded
         else Emitted)"

section \<open>Claiming work\<close>

definition eligible :: "'v attachment \<Rightarrow> store_error + op_row list" where
  "eligible a = (case pending (at_scope a) (at_store a) of
     Inl e \<Rightarrow> Inl e
   | Inr rows \<Rightarrow> Inr (filter (\<lambda>r. at_context a = [] \<or> op_task r = at_context a) rows))"

definition execution_active :: "'v attachment \<Rightarrow> store_error + bool" where
  "execution_active a =
     (if at_executing a then Inr True
      else if \<not> at_attached a \<or> has_unresolved (at_store a) then Inr False
      else case eligible a of Inl e \<Rightarrow> Inl e | Inr rows \<Rightarrow> Inr (rows \<noteq> []))"

section \<open>One turn of the executor\<close>

text \<open>
  \<open>on_reply\<close>: the pair is the attachment and the texts seen in this turn. The observation commits on its own,
  so an exception raised afterwards leaves it in place.
\<close>

definition on_reply ::
  "(pystr \<Rightarrow> pystr) \<Rightarrow> op_row \<Rightarrow> pystr \<Rightarrow> pystr \<Rightarrow> 'v attachment \<times> pystr list \<Rightarrow> 'v attachment \<times> pystr list" where
  "on_reply digest r qid text s = (case s of (a, seen) \<Rightarrow>
     if 4000 < length text then s
     else case observe (op_id r) (op_id r @ lit '':'' @ digest text) (lit ''backend_observed'')
            (JDict [(lit ''text'', JStr text)]) (at_store a) of
        Inl _ \<Rightarrow> s
      | Inr (False, d) \<Rightarrow> (a\<lparr>at_store := d\<rparr>, seen)
      | Inr (True, d) \<Rightarrow>
          let a1 = a\<lparr>at_store := d\<rparr>; seen1 = text # seen in
          case get_task (op_task r) (at_scope a) d of
            Inl _ \<Rightarrow> (a1, seen1)
          | Inr (t, _) \<Rightarrow>
              if tk_version t \<noteq> op_version r then (a1, seen1)
              else if at_attached a \<and> 63 \<in> set text then
                (case note_question (op_task r) (at_scope a) text (lit ''backend'') (Some (op_version r)) qid d of
                   Inl _ \<Rightarrow> (a1, seen1)
                 | Inr (_, d2) \<Rightarrow> (enqueue (op_event backend_kind text r) (a1\<lparr>at_store := d2\<rparr>), seen1))
              else (enqueue (op_event backend_kind text r) a1, seen1))"

fun on_replies ::
  "(pystr \<Rightarrow> pystr) \<Rightarrow> op_row \<Rightarrow> (pystr \<times> pystr) list \<Rightarrow> 'v attachment \<times> pystr list \<Rightarrow> 'v attachment \<times> pystr list" where
  "on_replies digest r [] s = s"
| "on_replies digest r ((qid, text) # calls) s = on_replies digest r calls (on_reply digest r qid text s)"

text \<open>How the executor's turn ended.\<close>

datatype ending = Returned "pystr list" | Interrupted | Raised

datatype 'v turn = Next "'v attachment" | Leave "'v attachment" | Stopped "'v attachment"

fun queue_unseen :: "op_row \<Rightarrow> pystr list \<Rightarrow> 'v attachment \<times> pystr list \<Rightarrow> 'v attachment" where
  "queue_unseen r [] (a, seen) = a"
| "queue_unseen r (text # replies) (a, seen) =
     (if text \<in> set seen then queue_unseen r replies (a, seen)
      else queue_unseen r replies (enqueue (op_event backend_kind text r) a, text # seen))"

definition lose :: "op_row \<Rightarrow> pystr \<Rightarrow> pystr \<Rightarrow> pystr \<Rightarrow> 'v attachment \<Rightarrow> 'v attachment option" where
  "lose r reason now eid a = (case mark_unknown (op_id r) reason now eid (at_store a) of
     Inl _ \<Rightarrow> None | Inr (_, d) \<Rightarrow> Some (a\<lparr>at_store := d, at_executing := False\<rparr>))"

text \<open>\<open>executor_uncertain\<close>: also where a returned turn cannot be settled.\<close>

definition give_up :: "op_row \<Rightarrow> pystr \<Rightarrow> pystr \<Rightarrow> 'v attachment \<Rightarrow> 'v turn" where
  "give_up r now eid a = (case lose r (lit ''executor_uncertain'') now eid a of
     None \<Rightarrow> Stopped (a\<lparr>at_executing := False\<rparr>)
   | Some a1 \<Rightarrow> Leave (enqueue (op_event (lit ''error'')
        (lit ''Das Ergebnis ist unklar. Die Anfrage wird nicht automatisch wiederholt.'') r) a1))"

definition end_turn :: "op_row \<Rightarrow> ending \<Rightarrow> pystr \<Rightarrow> pystr \<Rightarrow> 'v attachment \<times> pystr list \<Rightarrow> 'v turn" where
  "end_turn r ending now eid s = (case s of (a, seen) \<Rightarrow>
     case ending of
       Returned replies \<Rightarrow>
        (case settle (op_id r) replies (lit ''awaiting_input'') None now eid (at_store a) of
           Inl _ \<Rightarrow> give_up r now eid a
         | Inr (snap, d) \<Rightarrow>
             let a1 = a\<lparr>at_store := d, at_executing := False\<rparr> in
             (case snap of
                Some (t, _) \<Rightarrow> Next (if tk_version t = op_version r then queue_unseen r replies (a1, seen) else a1)
              | None \<Rightarrow> Next a1))
     | Interrupted \<Rightarrow>
        (case lose r (lit ''worker_interrupted'') now eid a of None \<Rightarrow> Stopped (a\<lparr>at_executing := False\<rparr>) | Some a1 \<Rightarrow> Stopped a1)
     | Raised \<Rightarrow> give_up r now eid a)"

definition run_turn ::
  "(pystr \<Rightarrow> pystr) \<Rightarrow> op_row \<Rightarrow> (pystr \<times> pystr) list \<Rightarrow> ending \<Rightarrow> pystr \<Rightarrow> pystr \<Rightarrow> 'v attachment \<Rightarrow> 'v turn" where
  "run_turn digest r calls ending now eid a =
     end_turn r ending now eid (on_replies digest r calls (a\<lparr>at_executing := True\<rparr>, []))"

section \<open>The worker\<close>

text \<open>
  The coroutine \<open>_run\<close> as a machine whose phases are its awaits; the code between two awaits is one step, as one
  event loop runs it. \<open>Readying\<close> holds the operation chosen before readiness was awaited, \<open>Turning\<close> the operation
  handed to the executor and the texts called back so far. \<open>wk_owner\<close> says whether the coordinator still belongs to
  this attachment, \<open>wk_ack\<close> is the acknowledged cleanup.
\<close>

datatype worker_phase = Waiting | Readying pystr | Turning op_row "pystr list" | Parked | Closing | Gone

record 'v task_worker =
  wk_phase :: worker_phase
  wk_wake :: bool
  wk_ack :: bool
  wk_owner :: bool
  wk_at :: "'v attachment"

definition new_worker :: "'v attachment \<Rightarrow> 'v task_worker" where
  "new_worker a = \<lparr>wk_phase = Waiting, wk_wake = False, wk_ack = False, wk_owner = True, wk_at = a\<rparr>"

definition moves :: "worker_phase \<times> 'v attachment \<Rightarrow> 'v task_worker \<Rightarrow> 'v task_worker" where
  "moves pa w = w\<lparr>wk_phase := fst pa, wk_at := snd pa\<rparr>"

definition broken_event :: "'v out_event" where
  "broken_event = \<lparr>oe_kind = lit ''error'', oe_task = [], oe_operation = [], oe_utterance = [], oe_version = 0,
     oe_text = lit ''Die Verbindung ist nicht bereit. Vorgemerkte Anfragen werden nicht automatisch '' @ [252] @ lit ''bermittelt.'',
     oe_priority = 0, oe_input = None, oe_checkpoint = None, oe_authority = None\<rparr>"

text \<open>The outer \<open>except\<close>: report, then wait to be detached.\<close>

definition broken :: "'v attachment \<Rightarrow> worker_phase \<times> 'v attachment" where
  "broken a = (Parked, enqueue broken_event a)"

text \<open>Leaving the inner loop, and going round it up to the next await.\<close>

definition leave :: "'v attachment \<Rightarrow> worker_phase \<times> 'v attachment" where
  "leave a = (if at_attached a then Waiting else Closing, a)"

definition look :: "'v attachment \<Rightarrow> worker_phase \<times> 'v attachment" where
  "look a =
     (if \<not> at_attached a then leave a
      else case eligible a of
        Inl _ \<Rightarrow> broken a
      | Inr [] \<Rightarrow> leave a
      | Inr (r # _) \<Rightarrow> if has_unresolved (at_store a) then leave a else (Readying (op_id r), a))"

text \<open>What follows readiness: the durable claim. The list has the operation handed to the executor, if any.\<close>

definition claim_ready :: "pystr \<Rightarrow> pystr \<Rightarrow> pystr \<Rightarrow> 'v attachment \<Rightarrow> pystr list \<times> worker_phase \<times> 'v attachment" where
  "claim_ready oid now eid a =
     (case dispatch oid now eid (at_store a) of
        Inl (StoreConflict _) \<Rightarrow> ([], look a)
      | Inl (StoreDenied _) \<Rightarrow> ([], look a)
      | Inl _ \<Rightarrow> ([], broken a)
      | Inr (None, d) \<Rightarrow> ([], broken (a\<lparr>at_store := d\<rparr>))
      | Inr (Some r, d) \<Rightarrow> ([op_id r], Turning r [], a\<lparr>at_store := d, at_context := op_task r, at_executing := True\<rparr>))"

text \<open>What follows the executor's turn: go on, leave the loop, or pass on the interruption or the failed mark.\<close>

definition after_turn :: "op_row \<Rightarrow> ending \<Rightarrow> pystr \<Rightarrow> pystr \<Rightarrow> 'v attachment \<times> pystr list \<Rightarrow> worker_phase \<times> 'v attachment" where
  "after_turn r ending now eid s =
     (case end_turn r ending now eid s of
        Next a \<Rightarrow> look a
      | Leave a \<Rightarrow> leave a
      | Stopped a \<Rightarrow>
          if ending = Interrupted \<and> lose r (lit ''worker_interrupted'') now eid (fst s) \<noteq> None then (Closing, a) else broken a)"

text \<open>The \<open>finally\<close> of the worker, after the executor's \<open>close\<close> returned or failed.\<close>

definition close_worker :: "bool \<Rightarrow> 'v task_worker \<Rightarrow> 'v task_worker" where
  "close_worker ack w = w\<lparr>wk_phase := Gone, wk_ack := ack,
     wk_owner := wk_owner w \<and> \<not> (ack \<and> \<not> has_unresolved (at_store (wk_at w)))\<rparr>"

text \<open>
  The steps, labelled with the operation handed over. While the worker awaits anything, other tasks take the
  journal through any steps and change the attachment at will, only its scope is fixed and a detached one is never
  attached again. \<open>Readying\<close> ends with the executor ready, with the attachment detached, or with an error.
\<close>

inductive task_worker_step :: "(pystr \<Rightarrow> pystr) \<Rightarrow> 'v task_worker \<Rightarrow> pystr list \<Rightarrow> 'v task_worker \<Rightarrow> bool" for digest where
  worker_others: "journal_step\<^sup>*\<^sup>* (at_store (wk_at w)) (at_store a) \<Longrightarrow> at_scope a = at_scope (wk_at w)
    \<Longrightarrow> (at_attached a \<Longrightarrow> at_attached (wk_at w)) \<Longrightarrow> task_worker_step digest w [] (w\<lparr>wk_at := a, wk_wake := b\<rparr>)"
| worker_woken: "wk_phase w = Waiting \<Longrightarrow> wk_wake w \<Longrightarrow> task_worker_step digest w [] (moves (look (wk_at w)) (w\<lparr>wk_wake := False\<rparr>))"
| worker_ready: "wk_phase w = Readying oid \<Longrightarrow> claim_ready oid now eid (wk_at w) = (ids, pa)
    \<Longrightarrow> task_worker_step digest w ids (moves pa w)"
| worker_unready: "wk_phase w = Readying oid \<Longrightarrow> \<not> at_attached (wk_at w) \<Longrightarrow> task_worker_step digest w [] (moves (leave (wk_at w)) w)"
| worker_failed: "wk_phase w = Readying oid \<Longrightarrow> task_worker_step digest w [] (moves (broken (wk_at w)) w)"
| worker_reply: "wk_phase w = Turning r seen \<Longrightarrow> on_reply digest r qid text (wk_at w, seen) = (a, seen')
    \<Longrightarrow> task_worker_step digest w [] (moves (Turning r seen', a) w)"
| worker_turned: "wk_phase w = Turning r seen \<Longrightarrow> task_worker_step digest w [] (moves (after_turn r ending now eid (wk_at w, seen)) w)"
| worker_detached: "wk_phase w = Parked \<Longrightarrow> \<not> at_attached (wk_at w) \<Longrightarrow> task_worker_step digest w [] (moves (Closing, wk_at w) w)"
| worker_cancelled: "wk_phase w \<in> {Waiting, Parked} \<or> wk_phase w = Readying oid
    \<Longrightarrow> task_worker_step digest w [] (moves (Closing, wk_at w) w)"
| worker_closed: "wk_phase w = Closing \<Longrightarrow> task_worker_step digest w [] (close_worker ack w)"

inductive task_worker_run :: "(pystr \<Rightarrow> pystr) \<Rightarrow> 'v task_worker \<Rightarrow> pystr list \<Rightarrow> 'v task_worker \<Rightarrow> bool" for digest where
  run_stop: "task_worker_run digest w [] w"
| run_step: "task_worker_step digest w ids w1 \<Longrightarrow> task_worker_run digest w1 ids' w' \<Longrightarrow> task_worker_run digest w (ids @ ids') w'"

section \<open>Claims happen once\<close>

text \<open>
  What the worker needs of a journal: a claim is one of the journal's steps, spends the operation it claims,
  a spent operation stays spent and cannot be claimed. A history interleaves claims with other steps.
\<close>

inductive history :: "('s \<Rightarrow> 's \<Rightarrow> bool) \<Rightarrow> ('k \<Rightarrow> 'i \<Rightarrow> 's \<Rightarrow> 's option) \<Rightarrow> 's \<Rightarrow> 'i list \<Rightarrow> 's \<Rightarrow> bool"
  for step claim where
  history_nil: "history step claim s [] s"
| history_step: "step s s1 \<Longrightarrow> history step claim s1 is s' \<Longrightarrow> history step claim s is s'"
| history_claim: "claim k i s = Some s1 \<Longrightarrow> history step claim s1 is s' \<Longrightarrow> history step claim s (i # is) s'"

locale claim_once =
  fixes ok :: "'s \<Rightarrow> bool" and step :: "'s \<Rightarrow> 's \<Rightarrow> bool" and claim :: "'k \<Rightarrow> 'i \<Rightarrow> 's \<Rightarrow> 's option"
    and spent :: "'i \<Rightarrow> 's \<Rightarrow> bool"
  assumes step_ok: "ok s \<Longrightarrow> step s s' \<Longrightarrow> ok s'"
    and claim_step: "ok s \<Longrightarrow> claim k i s = Some s' \<Longrightarrow> step s s'"
    and claim_spends: "ok s \<Longrightarrow> claim k i s = Some s' \<Longrightarrow> spent i s'"
    and spent_stays: "ok s \<Longrightarrow> step s s' \<Longrightarrow> spent i s \<Longrightarrow> spent i s'"
    and spent_refused: "ok s \<Longrightarrow> spent i s \<Longrightarrow> claim k i s = None"
begin

lemma spent_not_claimed: "history step claim s is s' \<Longrightarrow> ok s \<Longrightarrow> spent i s \<Longrightarrow> i \<notin> set is"
proof (induction rule: history.induct)
  case (history_step s s1 "is" s')
  then show ?case using step_ok spent_stays by blast
next
  case (history_claim k j s s1 "is" s')
  then have "j \<noteq> i" using spent_refused by force
  then show ?case using history_claim step_ok claim_step spent_stays by (metis set_ConsD)
qed simp

lemma claims_distinct: "history step claim s is s' \<Longrightarrow> ok s \<Longrightarrow> distinct is"
proof (induction rule: history.induct)
  case (history_claim k i s s1 "is" s')
  then have "ok s1" using step_ok claim_step by blast
  then show ?case using history_claim spent_not_claimed claim_spends by force
qed (auto intro: step_ok)

lemma claims_spent: "history step claim s is s' \<Longrightarrow> ok s \<Longrightarrow> i \<in> set is \<or> spent i s \<Longrightarrow> spent i s'"
proof (induction rule: history.induct)
  case (history_claim k j s s1 "is" s')
  then show ?case using step_ok claim_step claim_spends spent_stays by (metis set_ConsD)
qed (auto intro: step_ok spent_stays)

end

definition store_claim :: "pystr \<times> pystr \<Rightarrow> pystr \<Rightarrow> db \<Rightarrow> db option" where
  "store_claim k oid d = (case dispatch oid (fst k) (snd k) d of Inr (_, d') \<Rightarrow> Some d' | Inl _ \<Rightarrow> None)"

definition store_spent :: "pystr \<Rightarrow> db \<Rightarrow> bool" where
  "store_spent oid d \<longleftrightarrow> (\<exists>r\<in>set (operations d). op_id r = oid \<and> op_state r \<noteq> Unsubmitted)"

lemma store_claim_SomeD: "store_claim k oid d = Some d' \<Longrightarrow> \<exists>x. dispatch oid (fst k) (snd k) d = Inr (x, d')"
  by (auto simp: store_claim_def split: sum.splits)

lemma store_claim_spends: "store_claim k oid d = Some d' \<Longrightarrow> store_spent oid d'"
proof -
  assume "store_claim k oid d = Some d'"
  then obtain x where "dispatch oid (fst k) (snd k) d = Inr (x, d')" by (auto dest: store_claim_SomeD)
  from dispatch_effect [OF this] obtain r t where r: "find_op oid d = Some r" and c: "core_is d' (scopes d)
         (update_where (\<lambda>u. tk_id u = op_task r) (\<lambda>u. u\<lparr>tk_state := Running, tk_updated := fst k\<rparr>) (tasks d))
         (update_where (\<lambda>r. op_id r = oid) (\<lambda>r. r\<lparr>op_state := Submitted, op_submitted := Some (fst k)\<rparr>) (operations d))
         (questions d) (commands d)" by blast
  show ?thesis
    using in_updateI [of r "operations d" "\<lambda>r. op_id r = oid" "\<lambda>r. r\<lparr>op_state := Submitted, op_submitted := Some (fst k)\<rparr>"]
      find_opD [OF r] unfolding store_spent_def core_is_chain [OF c, THEN conjunct2, THEN conjunct2, THEN conjunct1]
    by (intro bexI) auto
qed

lemma store_spent_stays:
  assumes "reachable d" "journal_step d d'" "store_spent oid d"
  shows "store_spent oid d'"
proof -
  obtain r where r: "r \<in> set (operations d)" "op_id r = oid" "op_state r \<noteq> Unsubmitted"
    using assms(3) by (auto simp: store_spent_def)
  obtain r' where "r' \<in> set (operations d')" "op_later r r'"
    using reachable_later [OF assms(1) r_into_rtranclp [of journal_step, OF assms(2)] r(1)] by blast
  then show ?thesis using r lifecycle_not_back [of "op_state r" "op_state r'"]
    unfolding store_spent_def by (intro bexI [of _ r']) (auto simp: op_later_def same_request_def)
qed

lemma store_spent_refused:
  assumes "reachable d" "store_spent oid d"
  shows "store_claim k oid d = None"
proof -
  obtain r where r: "r \<in> set (operations d)" "op_id r = oid" "op_state r \<noteq> Unsubmitted"
    using assms(2) by (auto simp: store_spent_def)
  have "find_op oid d = Some r" using find_op_in [OF reachable_parts(1) [OF assms(1)] r(1)] r(2) by simp
  then show ?thesis using r(3) by (simp add: store_claim_def dispatch_def split: option.split)
qed

interpretation journal: claim_once reachable journal_step store_claim store_spent
proof unfold_locales
  fix s s' k i assume "reachable s" "store_claim k i s = Some s'"
  then show "journal_step s s'" by (auto dest: store_claim_SomeD intro: step_dispatch)
qed (auto intro: store_claim_spends store_spent_stays store_spent_refused)

section \<open>The worker against the journal\<close>

lemma history_steps: "journal_step\<^sup>*\<^sup>* d d1 \<Longrightarrow> history journal_step c d1 is d2 \<Longrightarrow> history journal_step c d is d2"
  by (induction rule: converse_rtranclp_induct) (auto intro: history_step)

lemma enqueue_store [simp]: "at_store (enqueue e a) = at_store a"
  by (simp add: enqueue_def split: prod.split)

lemma queue_unseen_store [simp]: "at_store (queue_unseen r replies s) = at_store (fst s)"
  by (induction r replies s rule: queue_unseen.induct) auto

lemma on_reply_steps: "journal_step\<^sup>*\<^sup>* (at_store (fst s)) (at_store (fst (on_reply digest r qid text s)))"
proof -
  obtain a seen where s: "s = (a, seen)" by fastforce
  have ob: "journal_step\<^sup>*\<^sup>* d d'" if "observe oid eid ty p d = Inr (b, d')" for oid eid ty p d b d'
    using step_observe [OF that] by blast
  have nq: "journal_step\<^sup>*\<^sup>* d d'" if "note_question tid sid q src ver nid d = Inr (b, d')" for tid sid q src ver nid d b d'
    using step_note [OF that] by blast
  show ?thesis unfolding s on_reply_def Let_def
    by (auto split: sum.splits prod.splits bool.splits if_splits dest: ob nq intro: rtranclp_trans)
qed

lemma on_replies_steps: "journal_step\<^sup>*\<^sup>* (at_store (fst s)) (at_store (fst (on_replies digest r calls s)))"
  by (induction digest r calls s rule: on_replies.induct) (auto intro: rtranclp_trans on_reply_steps)

fun turn_state :: "'v turn \<Rightarrow> 'v attachment" where
  "turn_state (Next a) = a" | "turn_state (Leave a) = a" | "turn_state (Stopped a) = a"

lemma lose_steps: "lose r reason now eid a = Some a' \<Longrightarrow> journal_step\<^sup>*\<^sup>* (at_store a) (at_store a')"
  by (auto simp: lose_def split: sum.splits dest!: step_mark)

lemma give_up_steps: "journal_step\<^sup>*\<^sup>* (at_store a) (at_store (turn_state (give_up r now eid a)))"
  by (auto simp: give_up_def split: option.split dest: lose_steps)

lemma end_turn_steps: "journal_step\<^sup>*\<^sup>* (at_store (fst s)) (at_store (turn_state (end_turn r ending now eid s)))"
  by (cases s) (auto simp: end_turn_def Let_def give_up_steps split: ending.split sum.split option.split
     dest: lose_steps dest!: step_settle)

lemma run_turn_steps: "journal_step\<^sup>*\<^sup>* (at_store a) (at_store (turn_state (run_turn digest r calls ending now eid a)))"
  unfolding run_turn_def
  by (rule rtranclp_trans [OF on_replies_steps [of "(a\<lparr>at_executing := True\<rparr>, [])" digest r calls, simplified] end_turn_steps])

lemma dispatch_value: "dispatch oid now eid d = Inr (x, d') \<Longrightarrow> x = find_op oid d'"
  by (auto simp: dispatch_def Let_def split: if_splits option.splits sum.splits)

lemma moves_parts [simp]: "wk_at (moves pa w) = snd pa" "wk_phase (moves pa w) = fst pa"
  by (simp_all add: moves_def)

lemma at_rest_store [simp]: "at_store (snd (broken a)) = at_store a" "at_store (snd (leave a)) = at_store a"
  "at_store (snd (look a)) = at_store a"
  by (auto simp: broken_def leave_def look_def split: sum.split list.split)

lemma close_worker_at [simp]: "wk_at (close_worker ack w) = wk_at w"
  by (simp add: close_worker_def)

lemma after_turn_steps: "journal_step\<^sup>*\<^sup>* (at_store (fst s)) (at_store (snd (after_turn r ending now eid s)))"
  using end_turn_steps [of s r ending now eid] by (auto simp: after_turn_def split: turn.split)

lemma history_of_steps: "journal_step\<^sup>*\<^sup>* d d' \<Longrightarrow> history journal_step c d [] d'"
  by (rule history_steps [OF _ history_nil])

lemma history_append: "history step c d is d1 \<Longrightarrow> history step c d1 js d2 \<Longrightarrow> history step c d (is @ js) d2"
  by (induction rule: history.induct) (auto intro: history.intros)

lemma claim_ready_history:
  assumes "claim_ready oid now eid a = (ids, pa)"
  shows "history journal_step store_claim (at_store a) ids (at_store (snd pa))"
proof (cases "dispatch oid now eid (at_store a)")
  case (Inl e)
  then have "ids = [] \<and> at_store (snd pa) = at_store a"
    using assms by (cases e) (auto simp: claim_ready_def)
  then show ?thesis by (simp add: history_nil)
next
  case (Inr p)
  then obtain x d where d: "dispatch oid now eid (at_store a) = Inr (x, d)" by (cases p) auto
  have c: "store_claim (now, eid) oid (at_store a) = Some d" using d by (simp add: store_claim_def)
  show ?thesis
  proof (cases x)
    case None
    then have "ids = [] \<and> at_store (snd pa) = d" using assms d by (auto simp: claim_ready_def)
    then show ?thesis using step_dispatch [OF d] by (auto intro: history_of_steps)
  next
    case (Some r)
    have "op_id r = oid" using dispatch_value [OF d] Some find_opD by fastforce
    then have "ids = [oid] \<and> at_store (snd pa) = d" using assms d Some by (auto simp: claim_ready_def)
    then show ?thesis using c by (auto intro: history.intros)
  qed
qed

lemma task_worker_step_history:
  "task_worker_step digest w ids w' \<Longrightarrow> history journal_step store_claim (at_store (wk_at w)) ids (at_store (wk_at w'))"
proof (induction rule: task_worker_step.induct)
  case (worker_reply w r seen qid msg a seen')
  then show ?case using on_reply_steps [of "(wk_at w, seen)" digest r qid "msg"] by (auto intro: history_of_steps)
next
  case (worker_turned w r seen ending now eid)
  then show ?case using after_turn_steps [of "(wk_at w, seen)"] by (auto intro: history_of_steps)
qed (auto intro: history_of_steps claim_ready_history history_nil)

lemma task_worker_run_history:
  "task_worker_run digest w ids w' \<Longrightarrow> history journal_step store_claim (at_store (wk_at w)) ids (at_store (wk_at w'))"
  by (induction rule: task_worker_run.induct) (blast intro: history_nil history_append task_worker_step_history)+

text \<open>C4. No write is retried: whatever the executor and its callbacks do, and whatever the other tasks do to the
  journal and to the attachment at any await of the worker, the worker never hands the same operation to the
  executor twice; no operation it handed over is unsubmitted in the journal afterwards.
\<close>

theorem worker_never_repeats:
  assumes "reachable (at_store (wk_at w))" "task_worker_run digest w ids w'"
  shows "distinct ids \<and> (\<forall>i\<in>set ids. store_spent i (at_store (wk_at w')))"
  using journal.claims_distinct journal.claims_spent task_worker_run_history [OF assms(2)] assms(1) by blast

definition demo_attachment :: "nat attachment" where
  "demo_attachment = \<lparr>at_scope = [115], at_attached = True, at_context = [], at_executing = False, at_queue = [],
     at_suppressed = 0, at_store = demo_db1\<rparr>"

definition demo_woken :: "nat task_worker" where
  "demo_woken = (new_worker demo_attachment)\<lparr>wk_phase := Readying [111]\<rparr>"

definition demo_claim :: "pystr list \<times> worker_phase \<times> nat attachment" where
  "demo_claim = claim_ready [111] [49] [1003] demo_attachment"

lemma demo_run: "task_worker_run id ((new_worker demo_attachment)\<lparr>wk_wake := True\<rparr>) [[111]] (moves (snd demo_claim) demo_woken)"
proof -
  let ?w = "(new_worker demo_attachment)\<lparr>wk_wake := True\<rparr>"
  have "moves (look (wk_at ?w)) (?w\<lparr>wk_wake := False\<rparr>) = demo_woken"
    by (simp add: new_worker_def moves_def look_def demo_woken_def demo_attachment_def eligible_def pending_def op_in_scope_def demo_simps store_eval)
  then have "task_worker_step id ?w [] demo_woken" using worker_woken [of ?w id] by (simp add: new_worker_def)
  moreover have "task_worker_step id demo_woken [[111]] (moves (snd demo_claim) demo_woken)"
    by (rule worker_ready [where oid = "[111]" and now = "[49]" and eid = "[1003]"])
      (simp_all add: demo_woken_def new_worker_def demo_claim_def claim_ready_def demo_attachment_def demo_dispatch demo_submitted_def demo_op_def)
  ultimately show ?thesis using run_step [OF _ run_step [OF _ run_stop]] by fastforce
qed

theorem worker_never_repeats_witness:
  "store_spent [111] (at_store (snd (snd demo_claim)))"
  using worker_never_repeats [OF _ demo_run] by (simp add: new_worker_def demo_attachment_def demo_reachable)

section \<open>A turn resolves its operation\<close>

lemma mark_unknown_result:
  assumes "mark_unknown oid reason now eid d = Inr (x, d')"
  shows "\<exists>w. find_op oid d' = Some w \<and> op_state w = Unknown"
proof -
  obtain r where r: "find_op oid d = Some r" "(d' = d \<and> op_state r = Unknown) \<or> set_unknown r reason now eid d = Inr d'"
    using assms by (auto simp: mark_unknown_def split: if_splits option.splits sum.splits)
  from r(2) show ?thesis
  proof
    assume "set_unknown r reason now eid d = Inr d'"
    note ops = core_is_chain [OF set_unknown_effect [OF this], THEN conjunct2, THEN conjunct2, THEN conjunct1]
    show ?thesis using r(1) find_opD [OF r(1)]
      by (simp add: find_op_def ops unknown_ops_def row_by_update_where)
  qed (use r in auto)
qed

lemma settle_settles: "settle oid replies res ev now eid d = Inr (x, d') \<Longrightarrow> \<exists>w. find_op oid d' = Some w \<and> op_state w = Settled"
  by (erule settle_result) blast

lemma enqueue_executing [simp]: "at_executing (enqueue e a) = at_executing a"
  by (simp add: enqueue_def split: prod.split)

lemma queue_unseen_executing [simp]: "at_executing (queue_unseen r replies s) = at_executing (fst s)"
  by (induction r replies s rule: queue_unseen.induct) auto

lemma guard_uncertain:
  "guard_json (JDict [(lit ''reason_code'', JStr (lit ''executor_uncertain''))]) 16384 = Inr (dumps (JDict [(lit ''reason_code'', JStr (lit ''executor_uncertain''))]))"
  by (rule guard_jsonI; simp add: scan_json.simps max_json_nodes_def max_json_depth_def Let_def; simp add: dumps_eval)

lemma control_uncertain: "\<not> list_ex is_control (lit ''executor_uncertain'')"
  by (simp add: is_control_def lit_def)

definition demo_after :: "nat attachment" where
  "demo_after = turn_state (run_turn id demo_submitted [] Raised [50] [1050] (demo_attachment\<lparr>at_store := demo_db2\<rparr>))"

lemma demo_mark: "\<exists>d. mark_unknown [111] (lit ''executor_uncertain'') [50] [1050] demo_db2 = Inr ((), d)"
  by (simp add: mark_unknown_def set_unknown_def guard_uncertain control_uncertain demo_simps store_eval)

lemma demo_turn: "run_turn id demo_submitted [] Raised [50] [1050] (demo_attachment\<lparr>at_store := demo_db2\<rparr>) = Leave demo_after"
proof -
  obtain d where "mark_unknown [111] (lit ''executor_uncertain'') [50] [1050] demo_db2 = Inr ((), d)" using demo_mark by blast
  then show ?thesis
    by (simp add: demo_after_def run_turn_def end_turn_def give_up_def lose_def demo_submitted_def demo_op_def)
qed

text \<open>C20. Every turn that lets the worker go on leaves the operation settled or, when the executor failed or its
  result could not be recorded, marked unknown; it is never left submitted, and execution is no longer active.
\<close>

theorem turn_resolves_operation:
  assumes "run_turn digest r calls ending now eid a \<in> {Next a', Leave a'}"
  shows "\<exists>w. find_op (op_id r) (at_store a') = Some w \<and> op_state w = (if run_turn digest r calls ending now eid a = Next a' then Settled else Unknown)
     \<and> \<not> at_executing a'"
proof -
  obtain b seen where b: "on_replies digest r calls (a\<lparr>at_executing := True\<rparr>, []) = (b, seen)" by fastforce
  have lost: "\<exists>w. find_op (op_id r) (at_store c) = Some w \<and> op_state w = Unknown \<and> \<not> at_executing c"
    if "lose r reason now eid b = Some c" for c reason
    using that by (auto simp: lose_def split: sum.splits dest!: mark_unknown_result)
  have gave: "\<exists>w. find_op (op_id r) (at_store c) = Some w \<and> op_state w = Unknown \<and> \<not> at_executing c" if "give_up r now eid b = Leave c" for c
    using that by (auto simp: give_up_def split: option.splits dest!: lost)
  have not_next: "give_up r now eid b \<noteq> Next c" for c by (simp add: give_up_def split: option.split)
  show ?thesis using assms
    by (auto simp: run_turn_def b end_turn_def Let_def not_next split: ending.splits sum.splits option.splits if_splits
        dest!: settle_settles dest: gave)
qed

theorem turn_resolves_operation_witness:
  "\<exists>w. find_op [111] (at_store demo_after) = Some w \<and> op_state w = Unknown \<and> \<not> at_executing demo_after"
  using turn_resolves_operation [of id demo_submitted "[]" Raised "[50]" "[1050]" "demo_attachment\<lparr>at_store := demo_db2\<rparr>" demo_after] demo_turn
  by (simp add: demo_simps)

section \<open>Output\<close>

text \<open>The output queue is bounded and fair to local answers: putting an event never makes it longer than 8;
  an event other than a backend reply is always queued, if need be in the place of the oldest one, and every
  event that is not queued or that is displaced is counted.
\<close>

theorem queue_put_bounded:
  assumes "length q \<le> queue_limit" "queue_put e (q, n) = (q', n')"
  shows "length q' \<le> queue_limit \<and> length q + 1 = length q' + (n' - n) \<and> n \<le> n'
     \<and> (oe_kind e \<noteq> backend_kind \<longrightarrow> q' \<noteq> [] \<and> last q' = e) \<and> (q' = q @ [e] \<or> q' = tl q @ [e] \<or> q' = q)"
  using assms by (auto simp: queue_put_def queue_limit_def split: if_splits)

definition demo_out :: "nat out_event" where
  "demo_out = op_event (lit ''local_reply'') [104] demo_op"

theorem queue_put_bounded_witness:
  "length (replicate 7 demo_out @ [demo_out]) \<le> queue_limit"
  using queue_put_bounded [of "replicate 8 demo_out" demo_out 0 "replicate 7 demo_out @ [demo_out]" 1]
  by (simp add: queue_put_def queue_limit_def demo_out_def op_event_def backend_kind_def numeral_eq_Suc)

text \<open>No stale answer is spoken: a backend reply is only passed on while the attachment is live and owned and
  its task, in this scope, still has the version the reply was made for; any answer queued with a routing
  checkpoint is only passed on if that checkpoint still describes the journal.
\<close>

theorem delivered_output_is_current:
  assumes "deliver holds owner deferred guarded e a \<noteq> Suppressed"
  shows "at_attached a
     \<and> (oe_kind e = backend_kind \<longrightarrow> owner \<and> (\<exists>t. find_task (oe_task e) (at_store a) = Some t \<and> tk_scope t = at_scope a \<and> tk_version t = oe_version e))
     \<and> (\<forall>c. oe_checkpoint e = Some c \<longrightarrow> routing_checkpoint (at_scope a) (at_store a) = Inr c)
     \<and> (\<forall>v. oe_input e = Some v \<or> oe_authority e = Some v \<longrightarrow> holds v)"
  using assms
  by (cases "routing_checkpoint (at_scope a) (at_store a)")
    (auto simp: deliver_def Let_def get_task_def task_row_def task_snapshot_def split: if_splits sum.splits option.splits)

theorem delivered_output_is_current_witness:
  "\<exists>t. find_task [116] demo_db1 = Some t \<and> tk_scope t = [115] \<and> tk_version t = 1"
  using delivered_output_is_current [of "\<lambda>_. True" True True True "op_event backend_kind [104] demo_op" demo_attachment]
  by (simp add: deliver_def op_event_def demo_attachment_def get_task_def demo_simps store_eval)

end
