(* ===== verification/Bytes.thy ===== *)
theory Bytes
  imports Prelude
begin

text \<open>
  The operations of Python's \<open>bytes\<close> and \<open>str\<close> that the HTTP components use: strict UTF-8 decoding,
  \<open>replace\<close>, \<open>splitlines\<close>, \<open>split\<close> and \<open>lstrip\<close>.
\<close>

section \<open>UTF-8\<close>

definition cont :: "nat \<Rightarrow> bool" where
  "cont b \<longleftrightarrow> 128 \<le> b \<and> b < 192"

text \<open>\<open>bytes.decode('utf-8', 'strict')\<close>: overlong forms, surrogates and code points past 0x10FFFF are
  errors.\<close>

fun utf8_decode :: "nat list \<Rightarrow> pystr option" where
  "utf8_decode [] = Some []"
| "utf8_decode (a # r) =
     (if a < 128 then map_option ((#) a) (utf8_decode r)
      else if a < 194 then None
      else if a < 224 then (case r of
          b # r' \<Rightarrow> if cont b then map_option ((#) ((a - 192) * 64 + (b - 128))) (utf8_decode r') else None
        | _ \<Rightarrow> None)
      else if a < 240 then (case r of
          b # c # r' \<Rightarrow>
            if cont b \<and> cont c \<and> (a = 224 \<longrightarrow> 160 \<le> b) \<and> (a = 237 \<longrightarrow> b < 160)
            then map_option ((#) ((a - 224) * 4096 + (b - 128) * 64 + (c - 128))) (utf8_decode r') else None
        | _ \<Rightarrow> None)
      else if a < 245 then (case r of
          b # c # d # r' \<Rightarrow>
            if cont b \<and> cont c \<and> cont d \<and> (a = 240 \<longrightarrow> 144 \<le> b) \<and> (a = 244 \<longrightarrow> b < 144)
            then map_option ((#) ((a - 240) * 262144 + (b - 128) * 4096 + (c - 128) * 64 + (d - 128))) (utf8_decode r')
            else None
        | _ \<Rightarrow> None)
      else None)"

lemma utf8_decode_ascii: "list_all (\<lambda>c. c < 128) s \<Longrightarrow> utf8_decode s = Some s"
  by (induction s) auto

text \<open>\<open>str.encode('utf-8')\<close> raises on lone surrogates.\<close>

definition utf8_encodable :: "pystr \<Rightarrow> bool" where
  "utf8_encodable s \<longleftrightarrow> list_all (\<lambda>c. \<not> (55296 \<le> c \<and> c \<le> 57343)) s"

section \<open>Searching and splitting\<close>

text \<open>\<open>replace(s, m)\<close> for a non-empty pattern: left to right, occurrences do not overlap.\<close>

function replace_all :: "'a list \<Rightarrow> 'a list \<Rightarrow> 'a list \<Rightarrow> 'a list" where
  "replace_all s m xs = (case xs of
      [] \<Rightarrow> []
    | x # r \<Rightarrow> if s \<noteq> [] \<and> prefix s xs then m @ replace_all s m (drop (length s) xs) else x # replace_all s m r)"
  by pat_completeness auto
termination
  by (relation "measure (\<lambda>(s, m, xs). length xs)") auto

declare replace_all.simps [simp del]

lemma replace_all_Nil [simp]: "replace_all s m [] = []"
  by (simp add: replace_all.simps)

lemma replace_all_hit:
  "s \<noteq> [] \<Longrightarrow> replace_all s m (s @ r) = m @ replace_all s m r"
proof (cases s)
  case (Cons y t)
  have "prefix (y # t) (y # t @ r)" by simp
  then show ?thesis unfolding Cons append_Cons by (subst replace_all.simps) simp
qed simp

lemma replace_all_miss:
  "\<not> prefix s (x # r) \<Longrightarrow> replace_all s m (x # r) = x # replace_all s m r"
  by (subst replace_all.simps) simp

text \<open>\<open>str.splitlines()\<close> with every line boundary of Unicode; \<open>\r\n\<close> is one.\<close>

definition line_end :: "nat \<Rightarrow> bool" where
  "line_end c \<longleftrightarrow> c \<in> {10, 11, 12, 13, 28, 29, 30, 133, 8232, 8233}"

fun splitlines_acc :: "pystr \<Rightarrow> pystr \<Rightarrow> pystr list" where
  "splitlines_acc cur [] = (if cur = [] then [] else [cur])"
| "splitlines_acc cur [c] = (if line_end c then [cur] else [cur @ [c]])"
| "splitlines_acc cur (c # d # r) =
     (if c = 13 \<and> d = 10 then cur # splitlines_acc [] r
      else if line_end c then cur # splitlines_acc [] (d # r)
      else splitlines_acc (cur @ [c]) (d # r))"

definition splitlines :: "pystr \<Rightarrow> pystr list" where
  "splitlines s = splitlines_acc [] s"

text \<open>\<open>s.split(c)\<close> on one character.\<close>

fun split_at :: "nat \<Rightarrow> pystr \<Rightarrow> pystr list" where
  "split_at c [] = [[]]"
| "split_at c (x # r) =
     (if x = c then [] # split_at c r
      else (case split_at c r of [] \<Rightarrow> [[x]] | l # ls \<Rightarrow> (x # l) # ls))"

lemma split_at_nonempty [simp]: "split_at c s \<noteq> []"
  by (induction s) (auto split: list.split)

definition lstrip_of :: "nat \<Rightarrow> pystr \<Rightarrow> pystr" where
  "lstrip_of c s = dropWhile (\<lambda>x. x = c) s"

section \<open>Digits\<close>

definition is_digit :: "nat \<Rightarrow> bool" where
  "is_digit c \<longleftrightarrow> 48 \<le> c \<and> c \<le> 57"

definition hex_value :: "nat \<Rightarrow> nat" where
  "hex_value c = (if c < 58 then c - 48 else if c < 71 then c - 55 else c - 87)"

definition is_hex :: "nat \<Rightarrow> bool" where
  "is_hex c \<longleftrightarrow> 48 \<le> c \<and> c \<le> 57 \<or> 65 \<le> c \<and> c \<le> 70 \<or> 97 \<le> c \<and> c \<le> 102"

text \<open>\<open>int(digits, 16)\<close> and \<open>int(digits)\<close>.\<close>

definition from_digits :: "nat \<Rightarrow> nat list \<Rightarrow> nat" where
  "from_digits base ds = foldl (\<lambda>a d. a * base + hex_value d) 0 ds"

end
