(* ===== verification/PyVal.thy ===== *)
theory PyVal
  imports Complex_Main Prelude
begin

text \<open>
  Dynamically typed Python values, for the components whose code inspects \<open>type(x)\<close> before it
  trusts a value. A finite float is the rational it denotes; arithmetic on floats is exact here,
  so rounding is not modelled. \<open>VOther\<close> is any object of another type.
\<close>

datatype pyfloat = Fin rat | PInf | NInf | NaN

datatype pyval =
    VNone
  | VBool bool
  | VInt int
  | VFloat pyfloat
  | VStr pystr
  | VBytes "nat list"
  | VList "pyval list"
  | VTuple "pyval list"
  | VDict "(pystr \<times> pyval) list"
  | VOther

type_synonym items = "(pystr \<times> pyval) list"

text \<open>\<open>math.isfinite\<close> on an \<open>int\<close> converts it to a double first and raises \<open>OverflowError\<close> when
  the value rounds past the largest finite double.\<close>

definition fits_double :: "int \<Rightarrow> bool" where
  "fits_double i \<longleftrightarrow> \<bar>i\<bar> < 2 ^ 1024 - 2 ^ 970"

definition is_number :: "pyval \<Rightarrow> bool" where
  "is_number v = (case v of VInt _ \<Rightarrow> True | VFloat _ \<Rightarrow> True | _ \<Rightarrow> False)"

text \<open>The number behind \<open>type(x) in (int, float) and math.isfinite(x)\<close>, \<open>None\<close> when the test is
  false or raises.\<close>

fun finite_num :: "pyval \<Rightarrow> rat option" where
  "finite_num (VInt i) = (if fits_double i then Some (of_int i) else None)"
| "finite_num (VFloat (Fin r)) = Some r"
| "finite_num _ = None"

lemma finite_num_is_number: "finite_num v = Some r \<Longrightarrow> is_number v"
  by (cases v rule: finite_num.cases) (auto simp: is_number_def)

text \<open>The guard \<open>type(x) in (int, float) and math.isfinite(x) and P x\<close>; \<open>None\<close> is the
  \<open>OverflowError\<close> raised for an oversized \<open>int\<close>.\<close>

definition finite_in :: "(rat \<Rightarrow> bool) \<Rightarrow> pyval \<Rightarrow> bool option" where
  "finite_in P v = (case v of
      VInt i \<Rightarrow> if fits_double i then Some (P (of_int i)) else None
    | VFloat (Fin r) \<Rightarrow> Some (P r)
    | _ \<Rightarrow> Some False)"

lemma finite_in_True: "finite_in P v = Some True \<longleftrightarrow> (\<exists>r. finite_num v = Some r \<and> P r)"
  by (cases v rule: finite_num.cases) (auto simp: finite_in_def)

fun as_int :: "pyval \<Rightarrow> int option" where
  "as_int (VInt i) = Some i"
| "as_int _ = None"

fun as_str :: "pyval \<Rightarrow> pystr option" where
  "as_str (VStr s) = Some s"
| "as_str _ = None"

fun as_dict :: "pyval \<Rightarrow> (pystr \<times> pyval) list option" where
  "as_dict (VDict d) = Some d"
| "as_dict _ = None"

fun as_list :: "pyval \<Rightarrow> pyval list option" where
  "as_list (VList xs) = Some xs"
| "as_list _ = None"

lemma as_int_Some [simp]: "as_int v = Some i \<longleftrightarrow> v = VInt i"
  by (cases v) auto

lemma as_str_Some [simp]: "as_str v = Some s \<longleftrightarrow> v = VStr s"
  by (cases v) auto

lemma as_dict_Some [simp]: "as_dict v = Some d \<longleftrightarrow> v = VDict d"
  by (cases v) auto

lemma as_list_Some [simp]: "as_list v = Some xs \<longleftrightarrow> v = VList xs"
  by (cases v) auto

text \<open>\<open>d.get(k)\<close> with the default \<open>None\<close>; a dict is the list of its items, keys unique.\<close>

definition get_item :: "(pystr \<times> pyval) list \<Rightarrow> string \<Rightarrow> pyval" where
  "get_item d k = (case map_of d (lit k) of None \<Rightarrow> VNone | Some v \<Rightarrow> v)"

text \<open>\<open>set(d) == {..}\<close>.\<close>

definition has_keys :: "(pystr \<times> pyval) list \<Rightarrow> string list \<Rightarrow> bool" where
  "has_keys d ks \<longleftrightarrow> set (map fst d) = set (map lit ks)"

text \<open>\<open>str.strip()\<close> on the ASCII whitespace Python strips; other Unicode spaces are listed too.\<close>

definition is_space :: "nat \<Rightarrow> bool" where
  "is_space c \<longleftrightarrow> 9 \<le> c \<and> c \<le> 13 \<or> 28 \<le> c \<and> c \<le> 32 \<or> c = 133 \<or> c = 160 \<or> c = 5760
     \<or> 8192 \<le> c \<and> c \<le> 8202 \<or> c = 8232 \<or> c = 8233 \<or> c = 8239 \<or> c = 8287 \<or> c = 12288"

definition strip :: "pystr \<Rightarrow> pystr" where
  "strip s = rev (dropWhile is_space (rev (dropWhile is_space s)))"

lemma strip_strip [simp]: "strip (strip s) = strip s"
proof -
  let ?d = "dropWhile is_space"
  have left: "?d (rev (?d (rev t))) = rev (?d (rev t))" if t: "?d t = t" for t
  proof (cases "rev (?d (rev t))")
    case (Cons c u)
    have "\<exists>p. t = rev (?d (rev t)) @ p"
      by (metis takeWhile_dropWhile_id rev_append rev_rev_ident)
    then obtain p where "t = c # u @ p" using Cons by auto
    then have "\<not> is_space c" using t
      by (metis dropWhile.simps(2) length_dropWhile_le length_Cons not_less_eq_eq)
    then show ?thesis using Cons by simp
  next
    case Nil
    then show ?thesis by (simp only: dropWhile.simps)
  qed
  have dd: "?d (?d t) = ?d t" for t :: pystr by (rule dropWhile_idem)
  show ?thesis unfolding strip_def using left[of "?d s"] dd by (metis rev_rev_ident)
qed

definition starts :: "string \<Rightarrow> pystr \<Rightarrow> bool" where
  "starts p s \<longleftrightarrow> prefix (lit p) s"

definition has_key :: "(pystr \<times> pyval) list \<Rightarrow> string \<Rightarrow> bool" where
  "has_key d k \<longleftrightarrow> lit k \<in> set (map fst d)"

text \<open>\<open>d.get(k, {})\<close>: the default only replaces a missing key.\<close>

definition get_object :: "(pystr \<times> pyval) list \<Rightarrow> string \<Rightarrow> pyval" where
  "get_object d k = (if has_key d k then get_item d k else VDict [])"

text \<open>\<open>x == 0\<close> for an arbitrary JSON value.\<close>

definition equals_zero :: "pyval \<Rightarrow> bool" where
  "equals_zero v = (case v of VInt i \<Rightarrow> i = 0 | VBool b \<Rightarrow> \<not> b | VFloat (Fin r) \<Rightarrow> r = 0 | _ \<Rightarrow> False)"

end
