(* ===== verification/Json.thy ===== *)
theory Json
  imports Bytes PyVal
begin

text \<open>
  \<open>_strict_json\<close> of \<open>scripts/gufo_control/smoke_http.py\<close>: \<open>json.loads\<close> of a string with duplicate keys,
  non-finite numbers and the constants \<open>NaN\<close> and \<open>Infinity\<close> refused. The text is cut into tokens by the rules of
  Python's scanner, the tokens are parsed with an explicit stack; \<open>None\<close> is the \<open>ValueError\<close>. A float is the
  rational its text denotes, the recursion limit of the interpreter is not modelled.
\<close>

section \<open>Tokens\<close>

datatype token = TOpen | TClose | TBegin | TEnd | TColon | TComma | TValue pyval

fun hex4 :: "pystr \<Rightarrow> (nat \<times> pystr) option" where
  "hex4 (a # b # c # d # r) = (if list_all is_hex [a, b, c, d] then Some (from_digits 16 [a, b, c, d], r) else None)"
| "hex4 _ = None"

text \<open>The second half of a surrogate pair; anything else is scanned on its own.\<close>

fun low_half :: "nat \<Rightarrow> pystr \<Rightarrow> (nat \<times> pystr) option" where
  "low_half u (a # b # r) =
     (if 55296 \<le> u \<and> u \<le> 56319 \<and> a = 92 \<and> b = 117
      then (case hex4 r of
          Some (l, r') \<Rightarrow> if 56320 \<le> l \<and> l \<le> 57343 then Some (65536 + (u - 55296) * 1024 + (l - 56320), r') else None
        | None \<Rightarrow> None)
      else None)"
| "low_half u _ = None"

definition escaped :: "nat \<Rightarrow> nat option" where
  "escaped c = map_of [(34, 34), (92, 92), (47, 47), (98, 8), (102, 12), (110, 10), (114, 13), (116, 9)] c"

lemma hex4_shorter: "hex4 s = Some (u, r) \<Longrightarrow> length r < length s"
  by (cases s rule: hex4.cases) (auto split: if_splits)

lemma low_half_shorter: "low_half u s = Some (l, r) \<Longrightarrow> length r < length s"
  by (cases "(u, s)" rule: low_half.cases) (auto split: if_splits option.splits dest: hex4_shorter)

lemma pair_shorter: "hex4 s = Some (u, r) \<Longrightarrow> low_half u r = Some (l, r') \<Longrightarrow> length r' < length s"
  using hex4_shorter low_half_shorter by fastforce

definition cons_char :: "nat \<Rightarrow> (pystr \<times> pystr) option \<Rightarrow> (pystr \<times> pystr) option" where
  "cons_char c = map_option (\<lambda>(s, r). (c # s, r))"

text \<open>The rest of a string literal after its opening quote.\<close>

function lex_string :: "pystr \<Rightarrow> (pystr \<times> pystr) option" where
  "lex_string s = (case s of
      [] \<Rightarrow> None
    | c # r \<Rightarrow>
        if c = 34 then Some ([], r)
        else if c < 32 then None
        else if c \<noteq> 92 then cons_char c (lex_string r)
        else (case r of
            [] \<Rightarrow> None
          | e # r1 \<Rightarrow>
              if e = 117
              then (case hex4 r1 of
                  None \<Rightarrow> None
                | Some (u, r2) \<Rightarrow> (case low_half u r2 of
                      Some (w, r3) \<Rightarrow> cons_char w (lex_string r3)
                    | None \<Rightarrow> cons_char u (lex_string r2)))
              else (case escaped e of None \<Rightarrow> None | Some x \<Rightarrow> cons_char x (lex_string r1))))"
  by pat_completeness auto
termination
  by (relation "measure length") (auto dest: hex4_shorter pair_shorter intro: less_SucI)

declare lex_string.simps [simp del]

definition leading_digits :: "pystr \<Rightarrow> pystr \<times> pystr" where
  "leading_digits s = (takeWhile is_digit s, dropWhile is_digit s)"

text \<open>The optional fraction and exponent: their digits, the exponent's sign, and the rest.\<close>

fun lex_fraction :: "pystr \<Rightarrow> pystr option \<times> pystr" where
  "lex_fraction (p # d # r) = (if p = 46 \<and> is_digit d then (Some (fst (leading_digits (d # r))), snd (leading_digits (d # r)))
     else (None, p # d # r))"
| "lex_fraction r = (None, r)"

fun lex_exponent :: "pystr \<Rightarrow> int option \<times> pystr" where
  "lex_exponent (e # s # r) =
     (let q = (if s = 43 \<or> s = 45 then r else s # r)
      in if (e = 101 \<or> e = 69) \<and> q \<noteq> [] \<and> is_digit (hd q)
         then (let n = int (from_digits 10 (fst (leading_digits q))) in (Some (if s = 45 then - n else n), snd (leading_digits q)))
         else (None, e # s # r))"
| "lex_exponent r = (None, r)"

definition ten_power :: "int \<Rightarrow> rat" where
  "ten_power e = (if 0 \<le> e then 10 ^ nat e else 1 / 10 ^ nat (- e))"

definition double_bound :: rat where
  "double_bound = 2 ^ 1024 - 2 ^ 970"

text \<open>\<open>float(number)\<close>; with \<open>strict\<close> an infinite one is refused, the way \<open>finite_float\<close> does.\<close>

definition decimal_value :: "bool \<Rightarrow> bool \<Rightarrow> pystr \<Rightarrow> pystr \<Rightarrow> int \<Rightarrow> pyval option" where
  "decimal_value strict neg whole part e =
     (let m = of_nat (from_digits 10 (whole @ part)) * ten_power (e - int (length part))
      in if m < double_bound then Some (VFloat (Fin (if neg then - m else m)))
         else if strict then None else Some (VFloat (if neg then NInf else PInf)))"

text \<open>A number after its sign; \<open>int\<close> refuses more than 4300 digits.\<close>

definition lex_number :: "bool \<Rightarrow> bool \<Rightarrow> pystr \<Rightarrow> (pyval \<times> pystr) option" where
  "lex_number strict neg s =
     (let (whole, r) = (case s of c # r \<Rightarrow> if c = 48 then ([48], r) else leading_digits s | [] \<Rightarrow> ([], [])) in
      if whole = [] then None
      else
        let (part, r1) = lex_fraction r; (ex, r2) = lex_exponent r1 in
        if part = None \<and> ex = None
        then (if 4300 < length whole then None
              else let n = int (from_digits 10 whole) in Some (VInt (if neg then - n else n), r2))
        else map_option (\<lambda>v. (v, r2))
          (decimal_value strict neg whole (case part of None \<Rightarrow> [] | Some f \<Rightarrow> f) (case ex of None \<Rightarrow> 0 | Some e \<Rightarrow> e)))"

fun strip_word :: "pystr \<Rightarrow> pystr \<Rightarrow> pystr option" where
  "strip_word [] s = Some s"
| "strip_word (w # ws) (c # s) = (if w = c then strip_word ws s else None)"
| "strip_word (w # ws) [] = None"

definition structural :: "nat \<Rightarrow> token option" where
  "structural c = map_of [(91, TOpen), (93, TClose), (123, TBegin), (125, TEnd), (58, TColon), (44, TComma)] c"

definition is_json_space :: "nat \<Rightarrow> bool" where
  "is_json_space c \<longleftrightarrow> c = 32 \<or> c = 9 \<or> c = 10 \<or> c = 13"

text \<open>One token at a character that is not white space.\<close>

definition lex_one :: "bool \<Rightarrow> nat \<Rightarrow> pystr \<Rightarrow> (token \<times> pystr) option" where
  "lex_one strict c r = (case structural c of
      Some t \<Rightarrow> Some (t, r)
    | None \<Rightarrow>
        if c = 34 then map_option (\<lambda>(s, r'). (TValue (VStr s), r')) (lex_string r)
        else if c = 110 then map_option (\<lambda>r'. (TValue VNone, r')) (strip_word (lit ''ull'') r)
        else if c = 116 then map_option (\<lambda>r'. (TValue (VBool True), r')) (strip_word (lit ''rue'') r)
        else if c = 102 then map_option (\<lambda>r'. (TValue (VBool False), r')) (strip_word (lit ''alse'') r)
        else if c = 45 then map_option (\<lambda>(v, r'). (TValue v, r')) (lex_number strict True r)
        else if is_digit c then map_option (\<lambda>(v, r'). (TValue v, r')) (lex_number strict False (c # r))
        else None)"

lemma cons_char_Some: "cons_char c q = Some (x, r) \<longleftrightarrow> (\<exists>y. q = Some (y, r) \<and> x = c # y)"
  by (cases q) (auto simp: cons_char_def)

text \<open>A literal that goes on does so behind its first characters.\<close>

lemma lex_string_cases:
  assumes "lex_string s = Some (x, r)"
  shows "length r < length s \<or> (\<exists>t y. length t < length s \<and> lex_string t = Some (y, r))"
proof -
  note step = assms[unfolded lex_string.simps[of s]]
  obtain c r0 where s: "s = c # r0" using step by (cases s) auto
  consider "c = 34" | "c \<noteq> 34" "c \<noteq> 92" | "c = 92" by blast
  then show ?thesis
  proof cases
    case 3
    then obtain e r1 where r0: "r0 = e # r1" using step s by (cases r0) auto
    show ?thesis
    proof (cases "e = 117")
      case True
      then obtain u r2 where h: "hex4 r1 = Some (u, r2)" using step s 3 r0 by (auto split: option.splits)
      show ?thesis
      proof (cases "low_half u r2")
        case None
        then obtain y where "lex_string r2 = Some (y, r)" using step s 3 r0 True h by (auto simp: cons_char_Some)
        then show ?thesis using hex4_shorter[OF h] s r0 by (intro disjI2 exI[of _ r2] exI[of _ y]) simp
      next
        case (Some wr)
        then obtain w r3 where w: "low_half u r2 = Some (w, r3)" by (cases wr) auto
        then obtain y where "lex_string r3 = Some (y, r)" using step s 3 r0 True h by (auto simp: cons_char_Some)
        then show ?thesis using pair_shorter[OF h w] s r0 by (intro disjI2 exI[of _ r3] exI[of _ y]) simp
      qed
    next
      case False
      then obtain y where "lex_string r1 = Some (y, r)"
        using step s 3 r0 by (auto simp: cons_char_Some split: option.splits)
      then show ?thesis using s r0 by (intro disjI2 exI[of _ r1] exI[of _ y]) simp
    qed
  next
    case 2
    then obtain y where "lex_string r0 = Some (y, r)" using step s by (auto simp: cons_char_Some split: if_splits)
    then show ?thesis using s by (intro disjI2 exI[of _ r0] exI[of _ y]) simp
  qed (use step s in auto)
qed

lemma lex_string_shorter: "lex_string s = Some (x, r) \<Longrightarrow> length r < length s"
proof (induction "length s" arbitrary: s x rule: less_induct)
  case less
  then show ?case using lex_string_cases[OF less.prems] less_trans by blast
qed

lemma dropWhile_shorter: "length (dropWhile P s) \<le> length s"
  by (rule length_dropWhile_le)

lemma fraction_shorter: "lex_fraction s = (f, r) \<Longrightarrow> length r \<le> length s"
  by (cases s rule: lex_fraction.cases) (auto simp: leading_digits_def split: if_splits intro: le_SucI dropWhile_shorter)

lemma exponent_shorter: "lex_exponent s = (f, r) \<Longrightarrow> length r \<le> length s"
  by (cases s rule: lex_exponent.cases) (auto simp: leading_digits_def Let_def split: if_splits intro: le_SucI dropWhile_shorter)

lemma number_shorter: "lex_number strict neg s = Some (v, r) \<Longrightarrow> length r < length s"
proof -
  assume a: "lex_number strict neg s = Some (v, r)"
  obtain whole r0 where w: "(case s of c # r \<Rightarrow> if c = 48 then ([48], r) else leading_digits s | [] \<Rightarrow> ([], [])) = (whole, r0)"
    by fastforce
  obtain part r1 ex r2 where f: "lex_fraction r0 = (part, r1)" "lex_exponent r1 = (ex, r2)" by fastforce
  have ne: "whole \<noteq> []" "r = r2" using a w f by (auto simp: lex_number_def Let_def split: if_splits)
  have "length r0 < length s"
    using w ne(1) by (auto simp: leading_digits_def split: list.splits if_splits intro: le_imp_less_Suc dropWhile_shorter)
  then show ?thesis using fraction_shorter[OF f(1)] exponent_shorter[OF f(2)] ne(2) by simp
qed

lemma strip_word_shorter: "strip_word w s = Some r \<Longrightarrow> length r \<le> length s"
  by (induction w s rule: strip_word.induct) (auto split: if_splits)

lemma lex_one_shorter: "lex_one strict c s = Some (t, r) \<Longrightarrow> length r \<le> length s"
  by (auto simp: lex_one_def split: option.splits if_splits dest: lex_string_shorter strip_word_shorter)
    (auto dest: number_shorter)

function tokens :: "bool \<Rightarrow> pystr \<Rightarrow> token list option" where
  "tokens strict s = (case s of
      [] \<Rightarrow> Some []
    | c # r \<Rightarrow>
        if is_json_space c then tokens strict r
        else (case lex_one strict c r of
            None \<Rightarrow> None
          | Some (t, r') \<Rightarrow> map_option ((#) t) (tokens strict r')))"
  by pat_completeness auto
termination
  by (relation "measure (\<lambda>(strict, s). length s)") (auto dest!: lex_one_shorter)

declare tokens.simps [simp del]

section \<open>Values\<close>

text \<open>The containers still open: the elements so far in reverse; the pairs so far in reverse and the key of the
  value being read.\<close>

datatype opened_at = InList "pyval list" | InObject "(pystr \<times> pyval) list" pystr

datatype expect = Value | FirstElement | FirstKey | Key | Colon pystr | After pyval

fun parse_tokens :: "expect \<Rightarrow> (pystr \<times> pyval) list \<Rightarrow> opened_at list \<Rightarrow> token list \<Rightarrow> pyval option" where
  "parse_tokens (After v) _ [] ts = (if ts = [] then Some v else None)"
| "parse_tokens (After v) _ (InList vs # st) (t # ts) =
     (case t of
        TComma \<Rightarrow> parse_tokens Value [] (InList (v # vs) # st) ts
      | TClose \<Rightarrow> parse_tokens (After (VList (rev (v # vs)))) [] st ts
      | _ \<Rightarrow> None)"
| "parse_tokens (After v) _ (InObject ps k # st) (t # ts) =
     (case t of
        TComma \<Rightarrow> parse_tokens Key ((k, v) # ps) st ts
      | TEnd \<Rightarrow> (if distinct (map fst ((k, v) # ps)) then parse_tokens (After (VDict (rev ((k, v) # ps)))) [] st ts else None)
      | _ \<Rightarrow> None)"
| "parse_tokens (Colon k) ps st (t # ts) = (case t of TColon \<Rightarrow> parse_tokens Value [] (InObject ps k # st) ts | _ \<Rightarrow> None)"
| "parse_tokens Key ps st (t # ts) = (case t of TValue (VStr k) \<Rightarrow> parse_tokens (Colon k) ps st ts | _ \<Rightarrow> None)"
| "parse_tokens FirstKey ps st (t # ts) =
     (case t of
        TValue (VStr k) \<Rightarrow> parse_tokens (Colon k) ps st ts
      | TEnd \<Rightarrow> parse_tokens (After (VDict [])) [] st ts
      | _ \<Rightarrow> None)"
| "parse_tokens FirstElement _ st (t # ts) =
     (case t of
        TClose \<Rightarrow> parse_tokens (After (VList [])) [] st ts
      | TValue v \<Rightarrow> parse_tokens (After v) [] (InList [] # st) ts
      | TOpen \<Rightarrow> parse_tokens FirstElement [] (InList [] # st) ts
      | TBegin \<Rightarrow> parse_tokens FirstKey [] (InList [] # st) ts
      | _ \<Rightarrow> None)"
| "parse_tokens Value _ st (t # ts) =
     (case t of
        TValue v \<Rightarrow> parse_tokens (After v) [] st ts
      | TOpen \<Rightarrow> parse_tokens FirstElement [] st ts
      | TBegin \<Rightarrow> parse_tokens FirstKey [] st ts
      | _ \<Rightarrow> None)"
| "parse_tokens _ _ _ [] = None"

text \<open>\<open>json.loads\<close> with duplicate keys and non-finite constants refused, and \<open>_strict_json\<close>, which also refuses
  numbers that overflow. A leading byte order mark is refused.\<close>

definition json_loads :: "bool \<Rightarrow> pystr \<Rightarrow> pyval option" where
  "json_loads strict s = (if take 1 s = [65279] then None
     else (case tokens strict s of None \<Rightarrow> None | Some ts \<Rightarrow> parse_tokens Value [] [] ts))"

definition strict_json :: "pystr \<Rightarrow> pyval option" where
  "strict_json s = json_loads True s"

text \<open>A document for examples, with \<open>|\<close> for the quotation mark.\<close>

definition json_text :: "string \<Rightarrow> pystr" where
  "json_text s = map (\<lambda>c. if c = 124 then 34 else c) (lit s)"

text \<open>Rules that evaluate the parser on such a document.\<close>

lemmas json_eval = json_text_def lit_def strict_json_def json_loads_def tokens.simps[of _ "_ # _"] tokens.simps[of _ "[]"]
  lex_string.simps[of "_ # _"] lex_one_def structural_def is_json_space_def cons_char_def lex_number_def leading_digits_def
  is_digit_def from_digits_def hex_value_def

text \<open>Longer documents are read piece by piece: a plain string literal and a structural character are one token each.\<close>

definition in_quotes :: "pystr \<Rightarrow> pystr" where
  "in_quotes s = 34 # s @ [34]"

definition plain_chars :: "pystr \<Rightarrow> bool" where
  "plain_chars s \<longleftrightarrow> list_all (\<lambda>c. 32 \<le> c \<and> c \<noteq> 34 \<and> c \<noteq> 92) s"

lemma lex_string_plain: "plain_chars s \<Longrightarrow> lex_string (s @ 34 # r) = Some (s, r)"
  by (induction s) (simp_all add: plain_chars_def lex_string.simps[of "_ # _"] cons_char_def)

lemma tokens_in_quotes:
  "plain_chars s \<Longrightarrow> tokens strict (in_quotes s @ r) = map_option ((#) (TValue (VStr s))) (tokens strict r)"
  by (simp add: in_quotes_def tokens.simps[of _ "_ # _"] lex_string_plain lex_one_def structural_def is_json_space_def)

lemma tokens_structural:
  "structural c = Some t \<Longrightarrow> tokens strict (c # r) = map_option ((#) t) (tokens strict r)"
  by (auto simp: tokens.simps[of _ "_ # _"] lex_one_def is_json_space_def structural_def)

end
