(* ===== verification/TaskRouting.thy ===== *)
theory TaskRouting
  imports TaskWorker Json "HOL-Library.Multiset"
begin

text \<open>
  How an utterance becomes work: \<open>accept_decision\<close>, \<open>note_question\<close>, \<open>attach\<close> and \<open>detach\<close> of
  \<open>voice/native-bridge/task_coordinator.py\<close> on top of the journal and the attachment of \<open>TaskWorker\<close>. The code
  waits for the router in the middle of \<open>accept_decision\<close>; the part before is \<open>capture_utterance\<close>, the part after is
  \<open>finish_utterance\<close>, and anything may happen to the conversation in between. The router's decision is an argument.
  A coordinator without grounded answers is modelled (the constructor's default): a grounded route is denied. Scheduling
  one where they are offered is in \<open>GroundedJobs\<close>.
\<close>

section \<open>Data\<close>

record route =
  rt_intent :: pystr
  rt_task :: pystr
  rt_alias :: pystr
  rt_reply :: pystr

record help_source =
  hs_task :: pystr
  hs_question_id :: pystr
  hs_version :: int
  hs_source :: pystr
  hs_question :: pystr
  hs_definition :: pystr

record proposal =
  pp_status :: pystr
  pp_intent :: pystr
  pp_meaning :: pystr
  pp_domain :: pystr
  pp_syntax :: "bool option"
  pp_shape :: "bool option"
  pp_bounds :: "bool option"
  pp_bound_choice :: "bool option"

text \<open>\<open>RoutingDecision\<close>; its two timings are carried and never read.\<close>

record routing_decision =
  dn_route :: route
  dn_disposition :: pystr
  dn_reason :: pystr
  dn_help :: "help_source option"
  dn_proposal :: "proposal option"
  dn_durable :: "bool option"

definition policy_accepted :: "routing_decision \<Rightarrow> bool" where
  "policy_accepted dn \<longleftrightarrow> dn_disposition dn = lit ''decision'' \<or> dn_help dn \<noteq> None"

definition stale_rejected :: "routing_decision \<Rightarrow> bool" where
  "stale_rejected dn \<longleftrightarrow> dn_reason dn = lit ''authority_changed''"

text \<open>What the store raises, and every other exception.\<close>

datatype accept_error = Store store_error | Crash

text \<open>
  The attachment with what \<open>accept_decision\<close> reads and writes beside it: the scope, the focus, the wake-up event,
  the interruptions asked of the emitter (with \<open>preserve_deferred\<close>), and of the coordinator the registry, whether it
  belongs to this attachment and the two counters.
\<close>

record 'v conversation =
  cv_at :: "'v attachment"
  cv_scope :: scope
  cv_focus :: pystr
  cv_wake :: bool
  cv_interrupts :: "bool list"
  cv_agents :: "agent list"
  cv_owner :: bool
  cv_routing :: "(pystr \<times> pystr \<times> pystr) multiset"
  cv_proposals :: "(pystr \<times> pystr \<times> pystr \<times> pystr) multiset"

abbreviation cv_db :: "'v conversation \<Rightarrow> db" where "cv_db c \<equiv> at_store (cv_at c)"
abbreviation cv_sid :: "'v conversation \<Rightarrow> pystr" where "cv_sid c \<equiv> at_scope (cv_at c)"

definition with_db :: "db \<Rightarrow> 'v conversation \<Rightarrow> 'v conversation" where
  "with_db d c = c\<lparr>cv_at := (cv_at c)\<lparr>at_store := d\<rparr>\<rparr>"

section \<open>Output\<close>

definition local_kind :: pystr where "local_kind = lit ''local_reply''"

definition interrupt :: "bool \<Rightarrow> 'v conversation \<Rightarrow> 'v conversation" where
  "interrupt preserve c = (case interrupt_queue preserve (at_queue (cv_at c), at_suppressed (cv_at c)) of (q, n) \<Rightarrow>
     c\<lparr>cv_at := (cv_at c)\<lparr>at_queue := q, at_suppressed := n\<rparr>, cv_interrupts := cv_interrupts c @ [preserve]\<rparr>)"

text \<open>What a \<open>_queue\<close> call passes beside text, decision and utterance.\<close>

record 'v reply_args =
  ra_operation :: "op_row option"
  ra_task :: "task_row option"
  ra_checkpoint :: "checkpoint option"
  ra_authority :: "'v option"
  ra_acceptance :: pystr
  ra_validity :: "'v option"

definition reply_event :: "pystr \<Rightarrow> pystr \<Rightarrow> routing_decision \<Rightarrow> 'v reply_args \<Rightarrow> 'v out_event" where
  "reply_event text utterance dn ra =
     (let guarded = dn_help dn \<noteq> None \<or> rt_intent (dn_route dn) = lit ''status_query'';
          oper = ra_operation ra in
      \<lparr>oe_kind = local_kind,
       oe_task = (case ra_task ra of Some t \<Rightarrow> tk_id t | None \<Rightarrow> (case oper of Some r \<Rightarrow> op_task r | None \<Rightarrow> [])),
       oe_operation = (case oper of Some r \<Rightarrow> op_id r | None \<Rightarrow> []),
       oe_utterance = (if utterance \<noteq> [] then utterance else case oper of Some r \<Rightarrow> op_utterance r | None \<Rightarrow> []),
       oe_version = (case ra_task ra of Some t \<Rightarrow> tk_version t | None \<Rightarrow> (case oper of Some r \<Rightarrow> op_version r | None \<Rightarrow> 0)),
       oe_text = text, oe_priority = 0, oe_input = ra_validity ra,
       oe_checkpoint = (if guarded then ra_checkpoint ra else None),
       oe_authority = (if guarded then ra_authority ra else None)\<rparr>)"

definition queue_reply :: "pystr \<Rightarrow> pystr \<Rightarrow> routing_decision \<Rightarrow> 'v reply_args \<Rightarrow> 'v conversation \<Rightarrow> 'v conversation" where
  "queue_reply text utterance dn ra c =
     (if \<not> at_attached (cv_at c) then c
      else c\<lparr>cv_at := enqueue (reply_event text utterance dn ra) (cv_at c),
             cv_routing := add_mset (dn_disposition dn, dn_reason dn, ra_acceptance ra) (cv_routing c)\<rparr>)"

section \<open>The context shown to the router\<close>

text \<open>Every read of an event decodes its payload.\<close>

definition decoded_events :: "pystr \<Rightarrow> pystr \<Rightarrow> db \<Rightarrow> accept_error + (event_row \<times> pyval) list" where
  "decoded_events tid sid d = (case events_after tid sid 0 d of
     Inl e \<Rightarrow> Inl (Store e)
   | Inr evs \<Rightarrow> (case those (map (\<lambda>e. map_option (Pair e) (json_loads False (ev_payload e))) evs) of
       None \<Rightarrow> Inl Crash
     | Some xs \<Rightarrow> Inr xs))"

record previous_question =
  pq_text :: pyval
  pq_version :: pyval
  pq_id :: pyval
  pq_source :: pyval
  pq_operation :: op_row

record context_task =
  ct_task :: task_snap
  ct_open_question :: "pystr option"
  ct_latest :: "op_row option"
  ct_previous :: "previous_question option"
  ct_pending :: bool

text \<open>Python's truth value of what a payload can hold.\<close>

definition truthy :: "pyval \<Rightarrow> bool" where
  "truthy v = (case v of VNone \<Rightarrow> False | VBool b \<Rightarrow> b | VInt i \<Rightarrow> i \<noteq> 0 | VFloat (Fin r) \<Rightarrow> r \<noteq> 0 | VFloat _ \<Rightarrow> True
     | VStr s \<Rightarrow> s \<noteq> [] | VList xs \<Rightarrow> xs \<noteq> [] | VDict d \<Rightarrow> d \<noteq> [] | _ \<Rightarrow> True)"

text \<open>The question an earlier event left: \<open>None\<close> when the payload is not what the code indexes.\<close>

definition event_question :: "event_row \<times> pyval \<Rightarrow> pyval option" where
  "event_question ev = (case as_dict (snd ev) of
     None \<Rightarrow> if ev_type (fst ev) \<in> {lit ''question_noted'', lit ''operation_settled''} then None else Some (VStr [])
   | Some p \<Rightarrow>
      if ev_type (fst ev) = lit ''question_noted'' then map_of p (lit ''text'')
      else if ev_type (fst ev) = lit ''operation_settled'' \<and> get_item p ''outcome'' = VStr (lit ''awaiting_input'')
              \<and> truthy (get_item p ''replies'')
           then (case get_item p ''replies'' of VList xs \<Rightarrow> Some (last xs) | VStr s \<Rightarrow> Some (VStr [last s]) | _ \<Rightarrow> None)
      else Some (VStr []))"

fun earlier_question :: "op_row \<Rightarrow> (event_row \<times> pyval) list \<Rightarrow> previous_question option option" where
  "earlier_question latest [] = Some None"
| "earlier_question latest (ev # evs) =
     (if int (ev_version (fst ev)) \<noteq> int (op_version latest) - 1 then earlier_question latest evs
      else case event_question ev of
        None \<Rightarrow> None
      | Some q \<Rightarrow>
          if truthy q then (case as_dict (snd ev) of
              None \<Rightarrow> None
            | Some p \<Rightarrow> Some (Some \<lparr>pq_text = q, pq_version = VInt (int (ev_version (fst ev))), pq_id = VStr (ev_id (fst ev)),
                pq_source = (case map_of p (lit ''source'') of Some v \<Rightarrow> v | None \<Rightarrow> VStr (ev_source (fst ev))),
                pq_operation = latest\<rparr>))
          else earlier_question latest evs)"

definition answered_question :: "op_row \<Rightarrow> pyval \<Rightarrow> previous_question option" where
  "answered_question latest answered = (case as_dict answered of
     None \<Rightarrow> None
   | Some q \<Rightarrow> (case (map_of q (lit ''text''), map_of q (lit ''context_version''), map_of q (lit ''question_id''), map_of q (lit ''source'')) of
       (Some t, Some v, Some i, Some s) \<Rightarrow> Some \<lparr>pq_text = t, pq_version = v, pq_id = i, pq_source = s, pq_operation = latest\<rparr>
     | _ \<Rightarrow> None))"

text \<open>
  A correction may refer to the question that was just answered. It is taken from the acceptance event of the latest
  operation, or, for an older journal whose events lack it, from the events before the acceptance.
\<close>

definition question_before :: "op_row \<Rightarrow> (event_row \<times> pyval) list \<Rightarrow> previous_question option option" where
  "question_before latest evs =
     (case find (\<lambda>ev. ev_type (fst ev) = lit ''utterance_accepted'' \<and> ev_op (fst ev) = Some (op_id latest)
                    \<and> ev_version (fst ev) = op_version latest) evs of
        None \<Rightarrow> Some None
      | Some acc \<Rightarrow> (case as_dict (snd acc) of
          None \<Rightarrow> None
        | Some p \<Rightarrow> (case map_of p (lit ''answered_question'') of
            Some a \<Rightarrow> if truthy a then map_option Some (answered_question latest a) else Some None
          | None \<Rightarrow> earlier_question latest (rev (filter (\<lambda>ev. ev_seq (fst ev) < ev_seq (fst acc)) evs)))))"

definition task_context :: "pystr \<Rightarrow> db \<Rightarrow> op_row list \<Rightarrow> op_row list \<Rightarrow> task_snap \<Rightarrow> accept_error + context_task" where
  "task_context sid d ops waiting t =
     (let own = filter (\<lambda>r. op_task r = tk_id (fst t)) ops;
          latest = (if own = [] then None else Some (last own));
          delivery = tk_id (fst t) \<in> op_task ` set waiting;
          shown = \<lambda>prev. Inr \<lparr>ct_task = t, ct_open_question = (if delivery then None else tk_question (fst t)),
                            ct_latest = latest, ct_previous = prev, ct_pending = delivery\<rparr> in
      case latest of
        None \<Rightarrow> shown None
      | Some r \<Rightarrow>
          if op_kind r = lit ''continue_task'' \<and> op_version r = tk_version (fst t) then
            (case decoded_events (tk_id (fst t)) sid d of
               Inl e \<Rightarrow> Inl e
             | Inr evs \<Rightarrow> (case question_before r evs of None \<Rightarrow> Inl Crash | Some prev \<Rightarrow> shown prev))
          else shown None)"

fun tasks_context :: "pystr \<Rightarrow> db \<Rightarrow> op_row list \<Rightarrow> op_row list \<Rightarrow> task_snap list \<Rightarrow> accept_error + context_task list" where
  "tasks_context sid d ops waiting [] = Inr []"
| "tasks_context sid d ops waiting (t # ts) =
     (case task_context sid d ops waiting t of
        Inl e \<Rightarrow> Inl e
      | Inr x \<Rightarrow> (case tasks_context sid d ops waiting ts of Inl e \<Rightarrow> Inl e | Inr xs \<Rightarrow> Inr (x # xs)))"

record routing_context =
  rc_scope :: pystr
  rc_tasks :: "context_task list"
  rc_focus :: pystr
  rc_agents :: "agent list"
  rc_question :: "question_row option"
  rc_workflow :: pystr

text \<open>
  \<open>RoutingContext.__post_init__\<close>: the message of the first check that fails. What comes typed from the journal can only
  fail by its bounds, what was decoded from an event can have any type.
\<close>

definition text_ok :: "pyval \<Rightarrow> bool" where
  "text_ok v = (case v of VNone \<Rightarrow> True | VStr s \<Rightarrow> length s \<le> 4000 | _ \<Rightarrow> False)"

definition version_ok :: "pyval \<Rightarrow> bool" where
  "version_ok v = (case v of VNone \<Rightarrow> True | VInt i \<Rightarrow> 0 \<le> i | _ \<Rightarrow> False)"

definition identifier_value :: "pyval \<Rightarrow> bool" where
  "identifier_value v = (case v of VStr s \<Rightarrow> identifier_ok s | _ \<Rightarrow> False)"

definition short_text :: "pystr option \<Rightarrow> bool" where
  "short_text v = (case v of None \<Rightarrow> True | Some s \<Rightarrow> length s \<le> 4000)"

definition task_error :: "context_task \<Rightarrow> string option" where
  "task_error t =
     (if \<not> short_text (ct_open_question t) \<or> \<not> short_text (map_option op_text (ct_latest t))
         \<or> (case ct_previous t of None \<Rightarrow> False | Some q \<Rightarrow> \<not> text_ok (pq_text q)) then Some ''invalid routing text''
      else if (case ct_previous t of None \<Rightarrow> False | Some q \<Rightarrow> \<not> version_ok (pq_version q)) then Some ''invalid routing version''
      else if (case ct_previous t of None \<Rightarrow> False | Some q \<Rightarrow> \<not> identifier_value (pq_id q) \<or> \<not> identifier_ok (op_id (pq_operation q)))
         \<or> (case ct_latest t of None \<Rightarrow> False | Some r \<Rightarrow> \<not> identifier_ok (op_id r)) then Some ''invalid identifier''
      else None)"

fun tasks_error :: "pystr \<Rightarrow> pystr list \<Rightarrow> context_task list \<Rightarrow> string option" where
  "tasks_error sid ids [] = None"
| "tasks_error sid ids (t # ts) =
     (let row = fst (ct_task t) in
      if tk_scope row \<noteq> sid then Some ''invalid routing task scope''
      else if \<not> identifier_ok (tk_id row) then Some ''invalid identifier''
      else if tk_id row \<in> set ids then Some ''duplicate routing task''
      else case task_error t of Some m \<Rightarrow> Some m | None \<Rightarrow> tasks_error sid (tk_id row # ids) ts)"

definition context_error :: "routing_context \<Rightarrow> string option" where
  "context_error rc =
     (let ids = map (\<lambda>t. tk_id (fst (ct_task t))) (rc_tasks rc);
          asked = (case rc_question rc of None \<Rightarrow> [] | Some q \<Rightarrow> q_task q);
          optional_ok = \<lambda>v. is_ok (bounded_identifier True v) in
      if \<not> identifier_ok (rc_scope rc) \<or> \<not> optional_ok (rc_focus rc) then Some ''invalid identifier''
      else if 8 < length (rc_tasks rc) then Some ''invalid routing tasks''
      else case tasks_error (rc_scope rc) [] (rc_tasks rc) of
        Some m \<Rightarrow> Some m
      | None \<Rightarrow>
          if rc_focus rc \<noteq> [] \<and> rc_focus rc \<notin> set ids then Some ''invalid focus task''
          else if \<not> optional_ok asked then Some ''invalid identifier''
          else if asked \<noteq> [] \<and> asked \<notin> set ids then Some ''invalid question task''
          else if \<not> short_text (map_option q_text (rc_question rc)) then Some ''invalid last question''
          else if \<not> optional_ok (rc_workflow rc) then Some ''invalid identifier''
          else if rc_workflow rc \<noteq> [] \<and> rc_workflow rc \<notin> set ids then Some ''invalid workflow task''
          else if 16 < length (rc_agents rc) then Some ''invalid routing agents''
          else if \<not> distinct (map agent_alias (rc_agents rc)) then Some ''duplicate routing agent''
          else None)"

section \<open>Before the router\<close>

definition routing_snapshot ::
  "pystr \<Rightarrow> db \<Rightarrow> store_error + question_row option \<times> task_snap list \<times> op_row list \<times> checkpoint" where
  "routing_snapshot sid d =
     (case question sid d of Inl e \<Rightarrow> Inl e | Inr q \<Rightarrow>
     (case list_tasks sid d of Inl e \<Rightarrow> Inl e | Inr ts \<Rightarrow>
     (case scope_operations sid d of Inl e \<Rightarrow> Inl e | Inr ops \<Rightarrow>
     (case routing_checkpoint sid d of Inl e \<Rightarrow> Inl e | Inr cp \<Rightarrow> Inr (q, ts, ops, cp)))))"

record captured =
  ca_utterance :: pystr
  ca_text :: pystr
  ca_voice :: "(pystr \<times> pystr) list option"
  ca_tasks :: "task_snap list"
  ca_checkpoint :: checkpoint
  ca_context :: routing_context

definition duplicate_decision :: "op_row \<Rightarrow> task_row \<Rightarrow> routing_decision" where
  "duplicate_decision r t =
     (let fresh = op_kind r = lit ''new_task'' in
      \<lparr>dn_route = \<lparr>rt_intent = op_kind r, rt_task = (if fresh then [] else tk_id t),
                    rt_alias = (if fresh then tk_alias t else []), rt_reply = []\<rparr>,
       dn_disposition = lit ''decision'', dn_reason = lit ''duplicate_accepted'', dn_help = None, dn_proposal = None,
       dn_durable = None\<rparr>)"

text \<open>
  The part of \<open>accept_decision\<close> up to the router, under its lock: the answer to an utterance already accepted, or what
  is captured for later. The stored voice context is compared in its canonical encoding.
\<close>

definition capture_utterance ::
  "pystr \<Rightarrow> pystr \<Rightarrow> (pystr \<times> pystr) list option \<Rightarrow> 'v conversation
     \<Rightarrow> (accept_error + routing_decision + captured) \<times> 'v conversation" where
  "capture_utterance utterance text voice c =
     (if \<not> identifier_ok utterance then (Inl (Store (StoreInvalid ''invalid identifier'')), c)
      else if text = [] \<or> 4000 < length text then (Inl (Store (StoreInvalid ''invalid utterance'')), c)
      else if \<not> at_attached (cv_at c) then (Inl (Store (StoreDenied ''scope detached'')), c)
      else (case routing_snapshot (cv_sid c) (cv_db c) of
          Inl e \<Rightarrow> Inl (Store e)
        | Inr (q, ts, ops, cp) \<Rightarrow> (case row_by op_utterance utterance ops of
            Some r \<Rightarrow>
              if op_text r \<noteq> text \<or> op_voice r \<noteq> dumps (voice_json (case voice of None \<Rightarrow> [] | Some v \<Rightarrow> v))
              then Inl (Store (StoreConflict ''utterance identity conflict''))
              else (case find (\<lambda>t. tk_id (fst t) = op_task r) ts of
                  None \<Rightarrow> Inl Crash
                | Some t \<Rightarrow> Inr (Inl (duplicate_decision r (fst t))))
          | None \<Rightarrow> (case pending (cv_sid c) (cv_db c) of
              Inl e \<Rightarrow> Inl (Store e)
            | Inr waiting \<Rightarrow> (case tasks_context (cv_sid c) (cv_db c) ops waiting ts of
                Inl e \<Rightarrow> Inl e
              | Inr cts \<Rightarrow>
                  let rc = \<lparr>rc_scope = cv_sid c, rc_tasks = cts, rc_focus = cv_focus c, rc_agents = cv_agents c,
                            rc_question = q, rc_workflow = at_context (cv_at c)\<rparr> in
                  case context_error rc of
                    Some m \<Rightarrow> Inl (Store (StoreInvalid m))
                  | None \<Rightarrow> Inr (Inr \<lparr>ca_utterance = utterance, ca_text = text, ca_voice = voice, ca_tasks = ts,
                      ca_checkpoint = cp, ca_context = rc\<rparr>)))),
        interrupt True c))"

section \<open>After the router\<close>

text \<open>A router without \<open>decide\<close> returns a route only.\<close>

datatype router_answer = Decided routing_decision | Routed route

definition legacy_decision :: "route \<Rightarrow> routing_decision" where
  "legacy_decision r =
     \<lparr>dn_route = r, dn_disposition = (if rt_intent r \<in> {lit ''uncertain'', lit ''clarification''} then lit ''clarification''
        else lit ''decision''), dn_reason = lit ''legacy_route'', dn_help = None, dn_proposal = None, dn_durable = None\<rparr>"

fun decided :: "router_answer \<Rightarrow> routing_decision" where
  "decided (Decided dn) = dn"
| "decided (Routed r) = legacy_decision r"

definition count_answer :: "routing_decision \<Rightarrow> 'v conversation \<Rightarrow> 'v conversation" where
  "count_answer dn c = c\<lparr>cv_proposals := (case dn_proposal dn of None \<Rightarrow> cv_proposals c
     | Some p \<Rightarrow> add_mset (pp_status p, pp_intent p, pp_meaning p, pp_domain p) (cv_proposals c)),
     cv_routing := add_mset (dn_disposition dn, dn_reason dn, lit ''policy'') (cv_routing c)\<rparr>"

definition work_intents :: "pystr list" where
  "work_intents = map lit [''new_task'', ''continue_task'', ''amend_task'', ''cancel_task'']"

definition same_agent :: "task_row \<Rightarrow> agent \<Rightarrow> bool" where
  "same_agent t g \<longleftrightarrow> (tk_agent t, tk_revision t) = (agent_id g, agent_revision g)"

text \<open>\<open>binding_valid\<close>: the route's agent is the captured one, offers the intent and still owns the task.\<close>

definition binding_holds :: "captured \<Rightarrow> route \<Rightarrow> bool" where
  "binding_holds ca r =
     (let bound = map_option fst (find (\<lambda>t. tk_id (fst t) = rt_task r) (ca_tasks ca));
          named = \<lambda>alias. find (\<lambda>g. agent_alias g = alias) (rc_agents (ca_context ca)) in
      if rt_intent r \<in> set work_intents then
        (case named (if rt_intent r = lit ''new_task'' then rt_alias r else case bound of Some t \<Rightarrow> tk_alias t | None \<Rightarrow> []) of
           None \<Rightarrow> False
         | Some g \<Rightarrow> dict_get (rt_intent r) (agent_capabilities g) = Some True
             \<and> (rt_intent r = lit ''new_task'' \<or> (case bound of None \<Rightarrow> False | Some t \<Rightarrow> same_agent t g)))
      else if rt_intent r = lit ''grounded_answer'' then
        (case bound of None \<Rightarrow> False
         | Some t \<Rightarrow> (case named (tk_alias t) of None \<Rightarrow> False | Some g \<Rightarrow> same_agent t g))
      else True)"

text \<open>Registry entries compare as the code's frozen records do: a mapping of capabilities has no order.\<close>

definition agent_view :: "agent \<Rightarrow> agent" where
  "agent_view g = g\<lparr>agent_capabilities := sort_key fst (agent_capabilities g)\<rparr>"

text \<open>The closure \<open>authority\<close>, asked of the conversation as it is now.\<close>

definition authority_holds :: "captured \<Rightarrow> route \<Rightarrow> 'v conversation \<Rightarrow> bool" where
  "authority_holds ca r c \<longleftrightarrow> binding_holds ca r \<and> at_attached (cv_at c) \<and> cv_owner c
     \<and> map agent_view (cv_agents c) = map agent_view (rc_agents (ca_context ca))
     \<and> cv_focus c = rc_focus (ca_context ca) \<and> at_context (cv_at c) = rc_workflow (ca_context ca)"

definition checkpoint_holds :: "captured \<Rightarrow> 'v conversation \<Rightarrow> bool" where
  "checkpoint_holds ca c \<longleftrightarrow> routing_checkpoint (cv_sid c) (cv_db c) = Inr (ca_checkpoint ca)"

definition context_reply :: pystr where
  "context_reply = lit ''Der Gespr'' @ [228] @ lit ''chskontext hat sich ge'' @ [228] @ lit ''ndert. Bitte wiederhole deine Angabe.''"

definition moved_reply :: pystr where
  "moved_reply = lit ''Die aktuelle Frage oder Aufgabe hat sich ge'' @ [228] @ lit ''ndert. Bitte wiederhole deine Angabe.''"

definition stale_decision :: "pystr \<Rightarrow> routing_decision \<Rightarrow> routing_decision" where
  "stale_decision reply dn = dn\<lparr>dn_route := \<lparr>rt_intent = lit ''clarification'', rt_task = [], rt_alias = [], rt_reply = reply\<rparr>,
     dn_disposition := lit ''clarification'', dn_reason := lit ''authority_changed'', dn_help := None\<rparr>"

text \<open>The decision is replaced when the authority is gone, or when a reading route or one with a help source finds
  another checkpoint than the captured one. The checkpoint's identifier was checked by \<open>capture_utterance\<close>.\<close>

definition checked_decision :: "captured \<Rightarrow> routing_decision \<Rightarrow> 'v conversation \<Rightarrow> routing_decision" where
  "checked_decision ca dn c =
     (let intent = rt_intent (dn_route dn) in
      if \<not> authority_holds ca (dn_route dn) c
         \<or> ((intent \<in> {lit ''status_query'', lit ''grounded_answer''} \<or> dn_help dn \<noteq> None) \<and> \<not> checkpoint_holds ca c)
      then stale_decision context_reply dn else dn)"

section \<open>The answer to a status query\<close>

definition status_texts :: "(pystr \<times> pystr) list" where
  "status_texts = [
     (lit ''queued'', lit ''Die Aufgabe ist lokal angenommen und wartet auf die '' @ [220] @ lit ''bermittlung.''),
     (lit ''running'', lit ''Die Aufgabe wird bearbeitet.''),
     (lit ''awaiting_input'', lit ''Die Aufgabe wartet auf weitere Angaben.''),
     (lit ''ready_to_commit'', lit ''Die Aufgabe ist zur verbindlichen Ausf'' @ [252] @ lit ''hrung bereit; diese ist noch nicht best'' @ [228] @ lit ''tigt.''),
     (lit ''committing'', lit ''Die verbindliche Ausf'' @ [252] @ lit ''hrung l'' @ [228] @ lit ''uft; ihr Ergebnis ist noch nicht best'' @ [228] @ lit ''tigt.''),
     (lit ''succeeded'', lit ''Die Aufgabe wurde erfolgreich abgeschlossen.''),
     (lit ''failed'', lit ''Die Aufgabe ist fehlgeschlagen.''),
     (lit ''cancel_requested'', lit ''Der Abbruch ist vorgemerkt. Eine bereits '' @ [252] @ lit ''bermittelte Aktion kann ich nicht sicher stoppen; eine Stornierung ist nicht best'' @ [228] @ lit ''tigt.''),
     (lit ''cancelled'', lit ''Die Aufgabe wurde abgebrochen.''),
     (lit ''outcome_unknown'', lit ''Das Ergebnis der Aufgabe l'' @ [228] @ lit ''sst sich nicht feststellen. Die Anfrage wird nicht automatisch wiederholt.'')]"

definition no_status_text :: pystr where
  "no_status_text = lit ''Der Status der Aufgabe l'' @ [228] @ lit ''sst sich nicht feststellen.''"

definition render_grounded_status :: "pystr \<Rightarrow> pystr \<Rightarrow> pystr" where
  "render_grounded_status state latest_reply =
     (case map_of status_texts state of
        None \<Rightarrow> no_status_text
      | Some description \<Rightarrow>
          take 4000 (description @ (if latest_reply = [] then [] else lit '' Letzte Antwort: '' @ latest_reply)))"

text \<open>The texts observed from the backend, the last one of an operation winning.\<close>

fun observed_texts :: "(event_row \<times> pyval) list \<Rightarrow> (pystr option \<rightharpoonup> pyval) option" where
  "observed_texts [] = Some Map.empty"
| "observed_texts (ev # evs) =
     (case observed_texts evs of
        None \<Rightarrow> None
      | Some m \<Rightarrow>
          if ev_type (fst ev) \<noteq> lit ''backend_observed'' then Some m
          else (case as_dict (snd ev) of
              None \<Rightarrow> None
            | Some p \<Rightarrow> (case map_of p (lit ''text'') of
                None \<Rightarrow> None
              | Some v \<Rightarrow> Some (if m (ev_op (fst ev)) = None then m(ev_op (fst ev) \<mapsto> v) else m))))"

text \<open>The replies stored with an operation: a list of texts, or nothing before its settlement.\<close>

definition stored_replies :: "op_row \<Rightarrow> pystr list option" where
  "stored_replies r = (case op_replies r of
     None \<Rightarrow> Some []
   | Some enc \<Rightarrow> (case json_loads False enc of Some (VList xs) \<Rightarrow> those (map as_str xs) | _ \<Rightarrow> None))"

text \<open>The operations are given latest first. A true value that is no text cannot be put into the sentence.\<close>

fun latest_reply :: "pystr \<Rightarrow> (pystr option \<rightharpoonup> pyval) \<Rightarrow> op_row list \<Rightarrow> pystr option" where
  "latest_reply tid observed [] = Some []"
| "latest_reply tid observed (r # rows) =
     (if op_task r \<noteq> tid then latest_reply tid observed rows
      else case stored_replies r of
        None \<Rightarrow> None
      | Some replies \<Rightarrow>
          (case (if replies \<noteq> [] then Some (last replies)
                 else case observed (Some (op_id r)) of None \<Rightarrow> Some [] | Some v \<Rightarrow> if truthy v then as_str v else Some []) of
             None \<Rightarrow> None
           | Some reply \<Rightarrow> if reply \<noteq> [] then Some reply else latest_reply tid observed rows))"

definition status_reply :: "pystr \<Rightarrow> pystr \<Rightarrow> db \<Rightarrow> accept_error + task_row \<times> pystr" where
  "status_reply tid sid d =
     (case get_task tid sid d of
        Inl e \<Rightarrow> Inl (Store e)
      | Inr (t, _) \<Rightarrow> (case decoded_events tid sid d of
          Inl e \<Rightarrow> Inl e
        | Inr evs \<Rightarrow> (case scope_operations sid d of
            Inl e \<Rightarrow> Inl (Store e)
          | Inr ops \<Rightarrow> (case observed_texts evs of
              None \<Rightarrow> Inl Crash
            | Some m \<Rightarrow> (case latest_reply tid m (rev ops) of
                None \<Rightarrow> Inl Crash
              | Some reply \<Rightarrow> Inr (t, render_grounded_status (state_name (tk_state t)) reply))))))"

section \<open>After the router: the effect of a route\<close>

text \<open>Timestamps and identifiers the store draws while the route is applied.\<close>

record fresh =
  fr_now :: pystr
  fr_task :: pystr
  fr_created :: pystr
  fr_operation :: pystr
  fr_event :: pystr

text \<open>The arguments that stay the same while one utterance is finished: the validity of its output, the token of its
  authority closure, and what the store draws.\<close>

record 'v finishing =
  fi_validity :: "'v option"
  fi_token :: 'v
  fi_fresh :: fresh

definition plain_args :: "'v finishing \<Rightarrow> 'v reply_args" where
  "plain_args fi = \<lparr>ra_operation = None, ra_task = None, ra_checkpoint = None, ra_authority = None,
     ra_acceptance = lit ''local'', ra_validity = fi_validity fi\<rparr>"

definition accepted_text :: pystr where "accepted_text = lit ''durable_accepted''"

definition cancelled_reply :: pystr where
  "cancelled_reply = lit ''Die noch nicht '' @ [252] @ lit ''bermittelte Aufgabe wurde lokal abgebrochen.''"

definition cancel_noted_reply :: pystr where
  "cancel_noted_reply = lit ''Abbruch vorgemerkt. Eine bereits '' @ [252] @ lit ''bermittelte Aktion kann ich nicht sicher stoppen; eine Stornierung ist nicht best'' @ [228] @ lit ''tigt.''"

definition waiting_reply :: pystr where
  "waiting_reply = lit ''Angenommen und gespeichert. Neue Aufgaben bleiben im Legacy-Kontext in der Warteschlange, solange eine andere Aufgabe offen ist.''"

definition accepted_reply :: pystr where
  "accepted_reply = lit ''Angenommen und zur '' @ [220] @ lit ''bermittlung vorgemerkt.''"

type_synonym 'v effect = "accept_error + routing_decision \<times> 'v conversation"

definition apply_status ::
  "captured \<Rightarrow> routing_decision \<Rightarrow> 'v finishing \<Rightarrow> 'v conversation \<Rightarrow> 'v effect" where
  "apply_status ca dn fi c =
     (case status_reply (rt_task (dn_route dn)) (cv_sid c) (cv_db c) of
        Inl e \<Rightarrow> Inl e
      | Inr (t, text) \<Rightarrow> Inr (dn, queue_reply text (ca_utterance ca) dn
          ((plain_args fi)\<lparr>ra_task := Some t, ra_checkpoint := Some (ca_checkpoint ca), ra_authority := Some (fi_token fi)\<rparr>) c))"

definition apply_cancel ::
  "captured \<Rightarrow> routing_decision \<Rightarrow> 'v finishing \<Rightarrow> 'v conversation \<Rightarrow> 'v effect" where
  "apply_cancel ca dn fi c =
     (case cancel_pending (rt_task (dn_route dn)) (cv_sid c) (ca_utterance ca) (ca_text ca) (Some (ca_checkpoint ca))
             (Some (authority_holds ca (dn_route dn) c)) (fr_now (fi_fresh fi)) (fr_event (fi_fresh fi)) (cv_db c) of
        Inl e \<Rightarrow> Inl (Store e)
      | Inr (None, d) \<Rightarrow> Inl Crash
      | Inr (Some (t, _), d) \<Rightarrow>
          let dn' = dn\<lparr>dn_durable := Some True\<rparr> in
          Inr (dn', (queue_reply (if tk_state t = TaskCancelled then cancelled_reply else cancel_noted_reply) (ca_utterance ca) dn'
            ((plain_args fi)\<lparr>ra_task := Some t, ra_acceptance := accepted_text\<rparr>) (with_db d c))\<lparr>cv_wake := True\<rparr>))"

text \<open>The operation recorded for a route that carries work, with the task it belongs to.\<close>

definition record_work ::
  "captured \<Rightarrow> route \<Rightarrow> fresh \<Rightarrow> 'v conversation \<Rightarrow> accept_error + op_row \<times> pystr \<times> db" where
  "record_work ca r fr c =
     (let authority = Some (authority_holds ca r c); checkpoint = Some (ca_checkpoint ca) in
      if rt_intent r = lit ''new_task'' then
        (case find (\<lambda>g. agent_alias g = rt_alias r) (cv_agents c) of
           None \<Rightarrow> Inl (Store (StoreDenied ''agent unavailable''))
         | Some g \<Rightarrow> (case accept_new_task (cv_scope c) g (ca_utterance ca) (ca_text ca) (ca_voice ca) checkpoint authority
                            (fr_now fr) (fr_task fr) (fr_created fr) (fr_operation fr) (fr_event fr) (cv_db c) of
             Inl e \<Rightarrow> Inl (Store e)
           | Inr (row, d) \<Rightarrow> (case get_task (op_task row) (cv_sid c) d of
               Inl e \<Rightarrow> Inl (Store e)
             | Inr (t, _) \<Rightarrow> Inr (row, tk_id t, d))))
      else (case get_task (rt_task r) (cv_sid c) (cv_db c) of
          Inl e \<Rightarrow> Inl (Store e)
        | Inr (t, _) \<Rightarrow> (case accept (tk_id t) (cv_sid c) (ca_utterance ca) (ca_text ca) (rt_intent r) (ca_voice ca) checkpoint
                              authority (fr_now fr) (fr_operation fr) (fr_event fr) (cv_db c) of
            Inl e \<Rightarrow> Inl (Store e)
          | Inr (row, d) \<Rightarrow> Inr (row, tk_id t, d))))"

definition apply_work ::
  "captured \<Rightarrow> routing_decision \<Rightarrow> 'v finishing \<Rightarrow> 'v conversation \<Rightarrow> 'v effect" where
  "apply_work ca dn fi c =
     (case record_work ca (dn_route dn) (fi_fresh fi) c of
        Inl e \<Rightarrow> Inl e
      | Inr (row, tid, d) \<Rightarrow>
          let dn' = dn\<lparr>dn_durable := Some True\<rparr>;
              text = (if rt_intent (dn_route dn) = lit ''new_task'' \<and> at_context (cv_at c) \<noteq> [] then waiting_reply else accepted_reply) in
          Inr (dn', (queue_reply text [] dn' ((plain_args fi)\<lparr>ra_operation := Some row, ra_acceptance := accepted_text\<rparr>)
            ((with_db d c)\<lparr>cv_focus := tid\<rparr>))\<lparr>cv_wake := True\<rparr>))"

definition apply_route ::
  "captured \<Rightarrow> routing_decision \<Rightarrow> 'v finishing \<Rightarrow> 'v conversation \<Rightarrow> 'v effect" where
  "apply_route ca dn fi c =
     (let intent = rt_intent (dn_route dn) in
      if intent \<in> {lit ''uncertain'', lit ''clarification''} then
        Inr (dn, queue_reply (rt_reply (dn_route dn)) (ca_utterance ca) dn
          ((plain_args fi)\<lparr>ra_checkpoint := Some (ca_checkpoint ca), ra_authority := Some (fi_token fi)\<rparr>) c)
      else if intent = lit ''stop_speaking'' then Inr (dn, interrupt False c)
      else if intent = lit ''grounded_answer'' then
        Inl (Store (StoreDenied ''grounded answers require native origin and guarded output''))
      else if intent = lit ''status_query'' then apply_status ca dn fi c
      else if intent = lit ''cancel_task'' then apply_cancel ca dn fi c
      else if intent \<in> {lit ''new_task'', lit ''amend_task'', lit ''continue_task''} then apply_work ca dn fi c
      else Inl (Store (StoreInvalid ''unsupported route'')))"

text \<open>
  The rest of \<open>accept_decision\<close>, which runs without another suspension. A conflict of the store is an error only when
  checkpoint and authority still hold, otherwise it becomes a clarification.
\<close>

definition finish_utterance ::
  "captured \<Rightarrow> router_answer \<Rightarrow> 'v finishing \<Rightarrow> 'v conversation \<Rightarrow> (accept_error + routing_decision) \<times> 'v conversation" where
  "finish_utterance ca ans fi c =
     (let c1 = count_answer (decided ans) c; dn = checked_decision ca (decided ans) c1 in
      case apply_route ca dn fi c1 of
        Inr (dn', c2) \<Rightarrow> (Inr dn', c2)
      | Inl (Store (StoreConflict m)) \<Rightarrow>
          if checkpoint_holds ca c1 \<and> authority_holds ca (dn_route (decided ans)) c1 then (Inl (Store (StoreConflict m)), c1)
          else let dn' = (stale_decision moved_reply dn)\<lparr>dn_durable := Some False\<rparr> in
            (Inr dn', queue_reply moved_reply (ca_utterance ca) dn' ((plain_args fi)\<lparr>ra_acceptance := lit ''durable_rejected''\<rparr>) c1)
      | Inl e \<Rightarrow> (Inl e, c1))"


section \<open>Questions, attaching and detaching\<close>

definition workflow_objective :: pystr where "workflow_objective = lit ''Configured call workflow''"

text \<open>\<open>note_question\<close> of the attachment: without a task the question opens the configured workflow, in a transaction of
  its own.\<close>

definition question_task ::
  "pystr \<Rightarrow> fresh \<Rightarrow> 'v conversation \<Rightarrow> store_error + pystr \<times> 'v conversation" where
  "question_task tid fr c =
     (if tid \<noteq> [] then Inr (tid, c)
      else case cv_agents c of
        [g] \<Rightarrow>
          if at_context (cv_at c) \<noteq> [] then Inr (at_context (cv_at c), c)
          else (case create_task (cv_scope c) g workflow_objective None (fr_now fr) (fr_task fr) (fr_created fr) (cv_db c) of
              Inl e \<Rightarrow> Inl e
            | Inr ((t, _), d) \<Rightarrow>
                Inr (tk_id t, (with_db d c)\<lparr>cv_at := (cv_at (with_db d c))\<lparr>at_context := tk_id t\<rparr>\<rparr>))
      | _ \<Rightarrow> Inl (StoreDenied ''question requires an explicit task''))"

definition ask_question ::
  "pystr \<Rightarrow> pystr \<Rightarrow> fresh \<Rightarrow> 'v conversation \<Rightarrow> (store_error + pystr) \<times> 'v conversation" where
  "ask_question text tid fr c =
     (if text = [] \<or> 4000 < length text then (Inl (StoreInvalid ''invalid question''), c)
      else if \<not> at_attached (cv_at c) then (Inl (StoreDenied ''scope detached''), c)
      else case question_task tid fr c of
        Inl e \<Rightarrow> (Inl e, c)
      | Inr (tid', c1) \<Rightarrow>
          (case note_question tid' (cv_sid c1) text (if tid = [] then lit ''greeting'' else lit ''backend'') None (fr_event fr) (cv_db c1) of
             Inl e \<Rightarrow> (Inl e, c1)
           | Inr (_, d) \<Rightarrow> (Inr tid', with_db d c1)))"

definition detach :: "'v conversation \<Rightarrow> store_error option \<times> 'v conversation" where
  "detach c =
     (if \<not> at_attached (cv_at c) then (None, c)
      else let c1 = c\<lparr>cv_at := (cv_at c)\<lparr>at_attached := False\<rparr>\<rparr> in
        case detach_scope (cv_sid c1) (cv_db c1) of
          Inl e \<Rightarrow> (Some e, c1)
        | Inr (_, d) \<Rightarrow> (None, (interrupt False (with_db d c1))\<lparr>cv_wake := True\<rparr>))"

record coordinator =
  co_legacy :: bool
  co_shutdown :: bool
  co_owned :: bool
  co_agents :: "agent list"

definition available :: "coordinator \<Rightarrow> db \<Rightarrow> bool" where
  "available co d \<longleftrightarrow> co_legacy co \<and> \<not> co_shutdown co \<and> \<not> co_owned co \<and> \<not> has_unresolved d"

definition new_conversation :: "scope \<Rightarrow> agent list \<Rightarrow> db \<Rightarrow> 'v conversation" where
  "new_conversation s agents d =
     \<lparr>cv_at = \<lparr>at_scope = scope_id s, at_attached = True, at_context = [], at_executing = False, at_queue = [], at_suppressed = 0,
        at_store = d\<rparr>, cv_scope = s, cv_focus = [], cv_wake = False, cv_interrupts = [], cv_agents = agents, cv_owner = True,
      cv_routing = {#}, cv_proposals = {#}\<rparr>"

text \<open>\<open>attach\<close>: the reservation, then the executor. \<open>executor\<close> is \<open>None\<close> when the factory raised, otherwise it says
  whether the factory made the owned legacy adapter. A failure releases the reservation.\<close>

definition attach ::
  "scope \<Rightarrow> bool option \<Rightarrow> coordinator \<Rightarrow> db \<Rightarrow> (accept_error + 'v conversation) \<times> coordinator" where
  "attach s executor co d =
     (if \<not> co_legacy co then (Inl (Store (StoreDenied ''full mode requires a verified owned runtime adapter; unavailable'')), co)
      else if co_shutdown co \<or> co_owned co then (Inl (Store (StoreDenied ''legacy context unavailable'')), co)
      else if has_unresolved d then (Inl (Store (StoreDenied ''unresolved execution requires private reconciliation'')), co)
      else case list_tasks (scope_id s) d of
        Inl e \<Rightarrow> (Inl (Store e), co)
      | Inr (_ # _) \<Rightarrow> (Inl (Store (StoreDenied ''call scope already used'')), co)
      | Inr [] \<Rightarrow> (case executor of
          None \<Rightarrow> (Inl Crash, co\<lparr>co_owned := False\<rparr>)
        | Some False \<Rightarrow> (Inl (Store (StoreDenied ''only the owned legacy adapter is supported'')), co\<lparr>co_owned := False\<rparr>)
        | Some True \<Rightarrow> (Inr (new_conversation s (co_agents co) d), co\<lparr>co_owned := True\<rparr>)))"

end
