(* ===== verification/TaskRoutingProps.thy ===== *)
theory TaskRoutingProps
  imports TaskRouting
begin

text \<open>
  What a conversation keeps of the journal: every call and every step of the worker is a sequence of the journal's
  steps, a route decided on a context that has changed meanwhile writes nothing, an acceptance is announced only when it
  is recorded, and a repeated utterance is recognised.
\<close>

section \<open>The conversation against the journal\<close>

text \<open>What can happen to a conversation between two calls: its own calls, the steps of its worker in any phase, steps of the
  journal made elsewhere, and a change of the registry or of the coordinator's owner.\<close>

inductive conversing :: "'v conversation \<Rightarrow> 'v conversation \<Rightarrow> bool" where
  conv_capture: "capture_utterance u text voice c = (x, c') \<Longrightarrow> conversing c c'"
| conv_finish: "finish_utterance ca ans fi c = (y, c') \<Longrightarrow> conversing c c'"
| conv_ask: "ask_question text tid fr c = (z, c') \<Longrightarrow> conversing c c'"
| conv_detach: "detach c = (w, c') \<Longrightarrow> conversing c c'"
| conv_work: "task_worker_step digest w ids w' \<Longrightarrow> wk_at w = cv_at c \<Longrightarrow> conversing c (c\<lparr>cv_at := wk_at w'\<rparr>)"
| conv_journal: "journal_step (cv_db c) d \<Longrightarrow> conversing c (with_db d c)"
| conv_coordinator: "conversing c (c\<lparr>cv_agents := agents, cv_owner := owner\<rparr>)"

definition conversation_ok :: "'v conversation \<Rightarrow> bool" where
  "conversation_ok c \<longleftrightarrow> reachable (cv_db c) \<and> cv_sid c = scope_id (cv_scope c) \<and> identifier_ok (cv_sid c)"

lemma with_db_simps [simp]: "cv_db (with_db d c) = d" "cv_sid (with_db d c) = cv_sid c" "cv_scope (with_db d c) = cv_scope c"
  "at_attached (cv_at (with_db d c)) = at_attached (cv_at c)"
  by (simp_all add: with_db_def)

lemma interrupt_simps [simp]: "cv_db (interrupt b c) = cv_db c" "cv_sid (interrupt b c) = cv_sid c"
  "cv_scope (interrupt b c) = cv_scope c" "at_attached (cv_at (interrupt b c)) = at_attached (cv_at c)"
  by (simp_all add: interrupt_def split: prod.split)

lemma enqueue_scope [simp]: "at_scope (enqueue e a) = at_scope a"
  by (simp add: enqueue_def split: prod.split)

lemma enqueue_attached: "at_attached (enqueue e a) = at_attached a"
  by (simp add: enqueue_def split: prod.split)

lemma queue_reply_simps [simp]: "cv_db (queue_reply text u dn ra c) = cv_db c" "cv_sid (queue_reply text u dn ra c) = cv_sid c"
  "cv_scope (queue_reply text u dn ra c) = cv_scope c" "cv_focus (queue_reply text u dn ra c) = cv_focus c"
  by (simp_all add: queue_reply_def)

lemma count_answer_simps [simp]: "cv_at (count_answer dn c) = cv_at c" "cv_scope (count_answer dn c) = cv_scope c"
  "cv_focus (count_answer dn c) = cv_focus c" "cv_agents (count_answer dn c) = cv_agents c" "cv_owner (count_answer dn c) = cv_owner c"
  by (simp_all add: count_answer_def)

lemma count_answer_holds [simp]: "checkpoint_holds ca (count_answer dn c) = checkpoint_holds ca c"
  "authority_holds ca r (count_answer dn c) = authority_holds ca r c"
  by (simp_all add: checkpoint_holds_def authority_holds_def)

lemma capture_state: "snd (capture_utterance u text voice c) = c \<or> snd (capture_utterance u text voice c) = interrupt True c"
  by (simp add: capture_utterance_def)


lemma get_task_InrD: "get_task tid sid d = Inr (t, x) \<Longrightarrow> task_row tid sid d = Inr t"
  by (simp add: get_task_def task_snapshot_def split: sum.splits)

lemma record_work_step: "record_work ca r fr c = Inr (row, tid, d) \<Longrightarrow> journal_step (cv_db c) d"
  by (auto simp: record_work_def Let_def split: if_splits option.splits sum.splits prod.splits intro: step_accept step_accept_new)

lemma apply_route_steps: "apply_route ca dn fi c = Inr (dn', c') \<Longrightarrow> journal_step\<^sup>*\<^sup>* (cv_db c) (cv_db c')"
  by (auto simp: apply_route_def apply_status_def apply_cancel_def apply_work_def Let_def
      split: if_splits sum.splits option.splits prod.splits
      intro: r_into_rtranclp [of journal_step, OF step_cancel] r_into_rtranclp [of journal_step, OF record_work_step])

lemma apply_route_frame: "apply_route ca dn fi c = Inr (dn', c') \<Longrightarrow> cv_sid c' = cv_sid c \<and> cv_scope c' = cv_scope c"
  by (auto simp: apply_route_def apply_status_def apply_cancel_def apply_work_def Let_def
      split: if_splits sum.splits option.splits prod.splits)

text \<open>How \<open>finish_utterance\<close> ends: with the route applied, with a rejected one, or with an error.\<close>

lemma finish_cases:
  fixes c :: "'v conversation"
  defines "c1 dn \<equiv> count_answer dn c"
  obtains (applied) dn c2 where "apply_route ca (checked_decision ca (decided ans) (c1 (decided ans))) fi (c1 (decided ans)) = Inr (dn, c2)"
      "finish_utterance ca ans fi c = (Inr dn, c2)"
    | (rejected) dn m ra where "apply_route ca (checked_decision ca (decided ans) (c1 (decided ans))) fi (c1 (decided ans)) = Inl (Store (StoreConflict m))"
      "dn_durable dn = Some False" "finish_utterance ca ans fi c = (Inr dn, queue_reply moved_reply (ca_utterance ca) dn ra (c1 (decided ans)))"
    | (failed) e where "apply_route ca (checked_decision ca (decided ans) (c1 (decided ans))) fi (c1 (decided ans)) = Inl e"
      "finish_utterance ca ans fi c = (Inl e, c1 (decided ans))"
proof (cases "apply_route ca (checked_decision ca (decided ans) (c1 (decided ans))) fi (c1 (decided ans))")
  case (Inr p)
  then show thesis using applied by (cases p) (simp add: finish_utterance_def Let_def c1_def)
next
  case (Inl e)
  show thesis
  proof (cases "(\<exists>m. e = Store (StoreConflict m)) \<and> \<not> (checkpoint_holds ca c \<and> authority_holds ca (dn_route (decided ans)) c)")
    case True
    then obtain m where "e = Store (StoreConflict m)" "\<not> (checkpoint_holds ca c \<and> authority_holds ca (dn_route (decided ans)) c)" by blast
    then show thesis using Inl by (intro rejected) (auto simp: finish_utterance_def Let_def c1_def)
  next
    case False
    then show thesis using Inl by (intro failed) (auto simp: finish_utterance_def Let_def c1_def split: accept_error.splits store_error.splits)
  qed
qed

lemma finish_steps:
  assumes "finish_utterance ca ans fi c = (y, c')"
  shows "journal_step\<^sup>*\<^sup>* (cv_db c) (cv_db c') \<and> cv_sid c' = cv_sid c \<and> cv_scope c' = cv_scope c"
  by (cases ca ans fi c rule: finish_cases) (use assms in \<open>auto dest: apply_route_steps apply_route_frame\<close>)

lemma ask_question_steps:
  assumes "ask_question text tid fr c = (z, c')"
  shows "journal_step\<^sup>*\<^sup>* (cv_db c) (cv_db c') \<and> cv_sid c' = cv_sid c \<and> cv_scope c' = cv_scope c"
proof -
  have q: "journal_step\<^sup>*\<^sup>* (cv_db c) (cv_db c1) \<and> cv_sid c1 = cv_sid c \<and> cv_scope c1 = cv_scope c"
    if "question_task tid fr c = Inr (tid', c1)" for tid' c1
    using that by (auto simp: question_task_def with_db_def split: if_splits list.splits sum.splits prod.splits
        intro: r_into_rtranclp [of journal_step, OF step_create])
  show ?thesis
  proof (cases "question_task tid fr c")
    case (Inr p)
    then obtain tid' c1 where p: "question_task tid fr c = Inr (tid', c1)" by (cases p) auto
    note q' = q [OF p]
    show ?thesis using assms p q'
      by (auto simp: ask_question_def split: if_splits sum.splits prod.splits
          intro: rtranclp_trans [OF _ r_into_rtranclp [of journal_step, OF step_note]])
  qed (use assms in \<open>auto simp: ask_question_def split: if_splits\<close>)
qed

lemma detach_steps:
  assumes "detach c = (w, c')"
  shows "journal_step\<^sup>*\<^sup>* (cv_db c) (cv_db c') \<and> cv_sid c' = cv_sid c \<and> cv_scope c' = cv_scope c"
  using assms by (auto simp: detach_def Let_def split: if_splits sum.splits prod.splits intro: r_into_rtranclp [of journal_step, OF step_detach])


lemma queue_unseen_scope [simp]: "at_scope (queue_unseen r replies s) = at_scope (fst s)"
  by (induction r replies s rule: queue_unseen.induct) auto

lemma on_reply_scope [simp]: "at_scope (fst (on_reply digest r qid text s)) = at_scope (fst s)"
  by (cases s) (auto simp: on_reply_def Let_def split: sum.splits prod.splits bool.splits if_splits)

lemma on_replies_scope [simp]: "at_scope (fst (on_replies digest r calls s)) = at_scope (fst s)"
  by (induction digest r calls s rule: on_replies.induct) simp_all

lemma lose_scope: "lose r reason now eid a = Some a' \<Longrightarrow> at_scope a' = at_scope a"
  by (auto simp: lose_def split: sum.splits)

lemma end_turn_scope:
  fixes s :: "'v attachment \<times> pystr list"
  shows "at_scope (turn_state (end_turn r ending now eid s)) = at_scope (fst s)"
proof -
  have "at_scope (turn_state (give_up r now eid b)) = at_scope b" for b :: "'v attachment"
    by (auto simp: give_up_def split: option.split dest: lose_scope)
  then show ?thesis by (cases s) (auto simp: end_turn_def Let_def split: ending.split sum.split option.split dest: lose_scope)
qed

lemma at_rest_scope [simp]: "at_scope (snd (broken a)) = at_scope a" "at_scope (snd (leave a)) = at_scope a"
  "at_scope (snd (look a)) = at_scope a"
  by (auto simp: broken_def leave_def look_def split: sum.split list.split)

lemma claim_ready_scope: "claim_ready oid now eid a = (ids, pa) \<Longrightarrow> at_scope (snd pa) = at_scope a"
  by (auto simp: claim_ready_def split: sum.splits store_error.splits prod.splits option.splits)

lemma after_turn_scope: "at_scope (snd (after_turn r ending now eid s)) = at_scope (fst s)"
  using end_turn_scope [of r ending now eid s] by (auto simp: after_turn_def split: turn.split)

lemma task_worker_step_scope: "task_worker_step digest w ids w' \<Longrightarrow> at_scope (wk_at w') = at_scope (wk_at w)"
proof (induction rule: task_worker_step.induct)
  case (worker_reply w r seen qid msg a seen')
  then show ?case using on_reply_scope [of digest r qid "msg" "(wk_at w, seen)"] by simp
qed (auto simp: after_turn_scope dest: claim_ready_scope)

lemma history_reaches: "history journal_step store_claim d ids d' \<Longrightarrow> journal_step\<^sup>*\<^sup>* d d'"
proof (induction rule: history.induct)
  case (history_claim k i s s1 "is" s')
  then have "journal_step s s1" by (auto dest: store_claim_SomeD intro: step_dispatch)
  then show ?case using history_claim.IH by (rule converse_rtranclp_into_rtranclp)
qed (auto intro: converse_rtranclp_into_rtranclp)

lemma conversing_step:
  "conversing c c' \<Longrightarrow> journal_step\<^sup>*\<^sup>* (cv_db c) (cv_db c') \<and> cv_sid c' = cv_sid c \<and> cv_scope c' = cv_scope c"
proof (induction rule: conversing.induct)
  case (conv_capture u msg voice c x c')
  then show ?case using capture_state [of u "msg" voice c] by auto
next
  case (conv_work digest w ids w' c)
  then show ?case using task_worker_step_scope [of digest w ids w'] history_reaches [OF task_worker_step_history [OF conv_work(1)]] by simp
qed (auto dest: finish_steps ask_question_steps detach_steps)

lemma conversing_steps:
  "conversing\<^sup>*\<^sup>* c c' \<Longrightarrow> journal_step\<^sup>*\<^sup>* (cv_db c) (cv_db c') \<and> cv_sid c' = cv_sid c \<and> cv_scope c' = cv_scope c"
proof (induction rule: rtranclp_induct)
  case (step c1 c2)
  then show ?case using conversing_step [of c1 c2] by (auto intro: rtranclp_trans)
qed simp

lemma conversing_ok: "conversation_ok c \<Longrightarrow> conversing\<^sup>*\<^sup>* c c' \<Longrightarrow> conversation_ok c'"
  using conversing_steps [of c c'] by (auto simp: conversation_ok_def)

lemma interrupt_conversation_ok: "conversation_ok (interrupt b c) = conversation_ok c"
  by (simp add: conversation_ok_def)

section \<open>A stale route\<close>

lemma accept_stale:
  assumes "accept tid sid u text kind voice (Some cp) (Some au) now nid eid d = Inr (r, d')"
    and "routing_checkpoint sid d \<noteq> Inr cp \<or> \<not> au"
  shows "d' = d"
  using assms by (auto simp: accept_def Let_def check_preconditions_def split: if_splits sum.splits option.splits)

lemma accept_new_stale:
  assumes "accept_new_task s g u text voice (Some cp) (Some au) now tid ce oid ae d = Inr (r, d')"
    and "routing_checkpoint (scope_id s) d \<noteq> Inr cp \<or> \<not> au"
  shows "d' = d"
proof (cases "row_by op_utterance u (operations d)")
  case None
  then show ?thesis using assms by (auto simp: accept_new_task_def check_preconditions_def split: if_splits sum.splits)
next
  case (Some w)
  then obtain tid' where "accept tid' (scope_id s) u text (lit ''new_task'') voice None None now oid ae d = Inr (r, d')"
    using assms by (auto simp: accept_new_task_def split: if_splits sum.splits)
  then show ?thesis using accept_effect [of tid'] Some by (fastforce dest: row_by_SomeD)
qed

lemma cancel_stale:
  assumes "cancel_pending tid sid cmd text (Some cp) (Some au) now eid d = Inr (x, d')"
    and "routing_checkpoint sid d \<noteq> Inr cp \<or> \<not> au"
  shows "d' = d"
  using assms by (auto simp: cancel_pending_def Let_def check_preconditions_def split: if_splits sum.splits option.splits)

lemma record_work_stale:
  assumes "record_work ca r fr c = Inr (row, tid, d)" "cv_sid c = scope_id (cv_scope c)"
    and "\<not> checkpoint_holds ca c \<or> \<not> authority_holds ca r c"
  shows "d = cv_db c"
  using assms by (auto simp: record_work_def Let_def checkpoint_holds_def split: if_splits option.splits sum.splits prod.splits
      dest!: accept_stale accept_new_stale)

lemma apply_route_stale:
  assumes "apply_route ca dn fi c = Inr (dn', c')" "cv_sid c = scope_id (cv_scope c)"
    and "\<not> checkpoint_holds ca c \<or> \<not> authority_holds ca (dn_route dn) c"
  shows "cv_db c' = cv_db c"
  using assms by (auto simp: apply_route_def apply_status_def apply_cancel_def apply_work_def Let_def checkpoint_holds_def
      split: if_splits option.splits sum.splits prod.splits dest: cancel_stale record_work_stale [unfolded checkpoint_holds_def])

lemma stale_route [simp]: "rt_intent (dn_route (stale_decision reply dn)) = lit ''clarification''"
  by (simp add: stale_decision_def)

lemma stale_changes_nothing:
  assumes "cv_sid c = scope_id (cv_scope c)" "\<not> checkpoint_holds ca c \<or> \<not> authority_holds ca (dn_route (decided ans)) c"
  shows "cv_db (snd (finish_utterance ca ans fi c)) = cv_db c"
proof -
  let ?c1 = "count_answer (decided ans) c"
  have "cv_db c' = cv_db c" if "apply_route ca (checked_decision ca (decided ans) ?c1) fi ?c1 = Inr (dn', c')" for dn' c'
  proof (cases "checked_decision ca (decided ans) ?c1 = decided ans")
    case True
    then show ?thesis using apply_route_stale [OF that] assms by simp
  next
    case False
    then have "checked_decision ca (decided ans) ?c1 = stale_decision context_reply (decided ans)"
      by (auto simp: checked_decision_def Let_def split: if_splits)
    then show ?thesis using that by (simp add: apply_route_def Let_def) auto
  qed
  then show ?thesis by (cases ca ans fi c rule: finish_cases) auto
qed


lemma capture_captured:
  assumes "capture_utterance u msg voice c = (Inr (Inr ca), c')"
  shows "ca_utterance ca = u \<and> ca_text ca = msg \<and> ca_voice ca = voice \<and> c' = interrupt True c
    \<and> routing_checkpoint (cv_sid c) (cv_db c) = Inr (ca_checkpoint ca) \<and> rc_agents (ca_context ca) = cv_agents c
    \<and> rc_focus (ca_context ca) = cv_focus c \<and> rc_workflow (ca_context ca) = at_context (cv_at c)"
  using assms by (auto simp: capture_utterance_def routing_snapshot_def Let_def split: if_splits sum.splits option.splits)

definition demo_conversation :: "nat conversation" where
  "demo_conversation = new_conversation demo_scope [demo_agent] init_db"

definition demo_checkpoint :: checkpoint where
  "demo_checkpoint = \<lparr>cp_scope_id = [115], cp_scope = None, cp_tasks = [], cp_question = None\<rparr>"

definition demo_captured :: captured where
  "demo_captured = \<lparr>ca_utterance = [117], ca_text = [104], ca_voice = None, ca_tasks = [], ca_checkpoint = demo_checkpoint,
     ca_context = \<lparr>rc_scope = [115], rc_tasks = [], rc_focus = [], rc_agents = [demo_agent], rc_question = None, rc_workflow = []\<rparr>\<rparr>"

definition demo_answer :: router_answer where
  "demo_answer = Routed \<lparr>rt_intent = lit ''new_task'', rt_task = [], rt_alias = [118], rt_reply = []\<rparr>"

definition demo_finishing :: "nat finishing" where
  "demo_finishing = \<lparr>fi_validity = None, fi_token = 0,
     fi_fresh = \<lparr>fr_now = [48], fr_task = [116], fr_created = [1001], fr_operation = [111], fr_event = [1002]\<rparr>\<rparr>"

definition demo_finished :: "(accept_error + routing_decision) \<times> nat conversation" where
  "demo_finished = finish_utterance demo_captured demo_answer demo_finishing (interrupt True demo_conversation)"

lemma demo_conversation_ok: "conversation_ok demo_conversation"
  by (simp add: conversation_ok_def demo_conversation_def new_conversation_def demo_scope_def bounded_identifier_def is_control_def)

lemma demo_capture: "capture_utterance [117] [104] None demo_conversation = (Inr (Inr demo_captured), interrupt True demo_conversation)"
  by (simp add: capture_utterance_def demo_conversation_def new_conversation_def demo_scope_def demo_captured_def demo_checkpoint_def
      routing_snapshot_def question_def list_tasks_def scope_operations_def pending_def routing_checkpoint_def
      context_error_def short_text_def store_eval)

lemma demo_holds: "authority_holds demo_captured (dn_route (decided demo_answer)) (interrupt True demo_conversation)"
  "checkpoint_holds demo_captured (interrupt True demo_conversation)"
  by (simp_all add: authority_holds_def binding_holds_def demo_captured_def demo_answer_def demo_conversation_def
      legacy_decision_def new_conversation_def demo_agent_def work_intents_def dict_get_def lit_def interrupt_def interrupt_queue_def
      checkpoint_holds_def demo_checkpoint_def demo_scope_def routing_checkpoint_def store_eval)


section \<open>Acceptance and repetition\<close>

lemma guard_json_value: "guard_json v n = Inr enc \<Longrightarrow> enc = dumps v"
  by (auto simp: guard_json_def validate_json_def split: sum.splits if_splits option.splits)

definition recorded :: "captured \<Rightarrow> pystr \<Rightarrow> op_row \<Rightarrow> db \<Rightarrow> bool" where
  "recorded ca kind r d \<longleftrightarrow> r \<in> set (operations d) \<and> op_utterance r = ca_utterance ca \<and> op_text r = ca_text ca \<and> op_kind r = kind
     \<and> op_voice r = dumps (voice_json (case ca_voice ca of None \<Rightarrow> [] | Some v \<Rightarrow> v))"

lemma accept_recorded:
  assumes "accept tid sid (ca_utterance ca) (ca_text ca) kind (ca_voice ca) ex au now nid eid d = Inr (r, d')"
  shows "recorded ca kind r d' \<and> op_task r = tid \<and> (\<exists>t. find_task tid d' = Some t \<and> tk_scope t = sid)"
proof -
  note a = accept_result [OF assms]
  obtain t where t: "find_task tid d = Some t" "tk_scope t = sid" using a by blast
  then have "\<exists>t. find_task tid d' = Some t \<and> tk_scope t = sid"
    using find_task_step [OF accept_core [OF assms]] by fastforce
  then show ?thesis using a by (auto simp: recorded_def dest: guard_json_value)
qed


lemma record_work_recorded:
  assumes "record_work ca r fr c = Inr (row, tid, d)" "rt_intent r \<in> set work_intents" "cv_sid c = scope_id (cv_scope c)"
  shows "recorded ca (rt_intent r) row d \<and> op_task row = tid \<and> (\<exists>t. find_task tid d = Some t \<and> tk_scope t = cv_sid c)"
proof (cases "rt_intent r = lit ''new_task''")
  case True
  obtain g t x where n: "accept_new_task (cv_scope c) g (ca_utterance ca) (ca_text ca) (ca_voice ca) (Some (ca_checkpoint ca))
        (Some (authority_holds ca r c)) (fr_now fr) (fr_task fr) (fr_created fr) (fr_operation fr) (fr_event fr) (cv_db c) = Inr (row, d)"
      "get_task (op_task row) (cv_sid c) d = Inr (t, x)" "tid = tk_id t"
    using assms True by (auto simp: record_work_def Let_def split: option.splits sum.splits prod.splits)
  obtain tid' d0 where "accept tid' (scope_id (cv_scope c)) (ca_utterance ca) (ca_text ca) (lit ''new_task'') (ca_voice ca) None None
      (fr_now fr) (fr_operation fr) (fr_event fr) d0 = Inr (row, d)"
    using n(1) by (auto simp: accept_new_task_def split: if_splits option.splits sum.splits prod.splits)
  from accept_recorded [OF this] show ?thesis
    using True assms(3) n(3) task_row_InrD [OF get_task_InrD [OF n(2)]] by auto
next
  case False
  then obtain t x where "get_task (rt_task r) (cv_sid c) (cv_db c) = Inr (t, x)"
      "accept (tk_id t) (cv_sid c) (ca_utterance ca) (ca_text ca) (rt_intent r) (ca_voice ca) (Some (ca_checkpoint ca))
         (Some (authority_holds ca r c)) (fr_now fr) (fr_operation fr) (fr_event fr) (cv_db c) = Inr (row, d)" "tid = tk_id t"
    using assms(1) by (auto simp: record_work_def Let_def split: sum.splits prod.splits)
  then show ?thesis using accept_recorded [of "tk_id t"] by blast
qed

lemma cancel_recorded:
  assumes "cancel_pending tid sid cmd msg ex au now eid d = Inr (x, d')"
  shows "\<exists>m\<in>set (commands d'). cm_id m = cmd \<and> cm_task m = tid \<and> cm_scope m = sid \<and> cm_text m = msg"
  using assms by (auto simp: cancel_pending_def Let_def store_updates core_is_def
      split: if_splits sum.splits option.splits dest!: add_event_InrD dest: row_by_SomeD)

lemma checked_durable [simp]: "dn_durable (checked_decision ca dn c) = dn_durable dn"
  by (simp add: checked_decision_def stale_decision_def Let_def)

text \<open>Which decision \<open>finish_utterance\<close> applies: the router's, or the clarification.\<close>

lemma checked_route: "dn_route (checked_decision ca dn c) = dn_route dn \<or> rt_intent (dn_route (checked_decision ca dn c)) = lit ''clarification''"
  by (simp add: checked_decision_def Let_def)

lemma apply_route_durable:
  assumes "apply_route ca dn fi c = Inr (dn', c')" "dn_durable dn' = Some True" "dn_durable dn \<noteq> Some True"
    and "cv_sid c = scope_id (cv_scope c)"
  shows "dn_route dn' = dn_route dn \<and>
     ((\<exists>r. recorded ca (rt_intent (dn_route dn)) r (cv_db c') \<and> op_task r = cv_focus c'
         \<and> (\<exists>t. find_task (cv_focus c') (cv_db c') = Some t \<and> tk_scope t = cv_sid c))
      \<or> rt_intent (dn_route dn) = lit ''cancel_task'' \<and> (\<exists>m\<in>set (commands (cv_db c')). cm_id m = ca_utterance ca
           \<and> cm_task m = rt_task (dn_route dn) \<and> cm_scope m = cv_sid c \<and> cm_text m = ca_text ca))"
proof -
  consider (cancel) "rt_intent (dn_route dn) = lit ''cancel_task''" "apply_cancel ca dn fi c = Inr (dn', c')"
    | (work) "rt_intent (dn_route dn) \<in> set work_intents" "apply_work ca dn fi c = Inr (dn', c')"
    using assms(1-3) by (auto simp: apply_route_def apply_status_def Let_def work_intents_def split: if_splits sum.splits prod.splits)
  then show ?thesis
  proof cases
    case cancel
    then show ?thesis
      by (auto simp: apply_cancel_def Let_def split: sum.splits option.splits prod.splits dest: cancel_recorded)
  next
    case work
    then obtain row tid d where r: "record_work ca (dn_route dn) (fi_fresh fi) c = Inr (row, tid, d)"
      "cv_db c' = d" "cv_focus c' = tid" "dn_route dn' = dn_route dn"
      by (auto simp: apply_work_def Let_def split: sum.splits prod.splits)
    from record_work_recorded [OF r(1) work(1) assms(4)] show ?thesis unfolding r(2-4) by blast
  qed
qed


section \<open>The properties\<close>

text \<open>C5. A route decided on a context that has changed writes nothing: whatever the conversation did while the router was
  answering, if by then a task, an operation or the open question of the call, the focus, the workflow, the registry, the
  attachment or its owner is another, the journal is left as it is, whatever the route asks for.
\<close>

theorem stale_route_changes_nothing:
  assumes "conversation_ok c0" "capture_utterance u msg voice c0 = (Inr (Inr ca), c1)" "conversing\<^sup>*\<^sup>* c1 c"
    and "routing_checkpoint (cv_sid c) (cv_db c) \<noteq> routing_checkpoint (cv_sid c0) (cv_db c0) \<or> cv_focus c \<noteq> cv_focus c0
      \<or> at_context (cv_at c) \<noteq> at_context (cv_at c0) \<or> map agent_view (cv_agents c) \<noteq> map agent_view (cv_agents c0)
      \<or> \<not> at_attached (cv_at c) \<or> \<not> cv_owner c"
  shows "cv_db (snd (finish_utterance ca ans fi c)) = cv_db c"
proof -
  note cap = capture_captured [OF assms(2)]
  have "c1 = interrupt True c0" using cap by blast
  then have "conversation_ok c1" using assms(1) by (simp only: interrupt_conversation_ok)
  then have "cv_sid c = scope_id (cv_scope c)" using conversing_ok assms(3) by (auto simp: conversation_ok_def)
  then show ?thesis
    by (rule stale_changes_nothing) (use assms(4) cap in \<open>auto simp: checkpoint_holds_def authority_holds_def\<close>)
qed

theorem stale_route_changes_nothing_witness:
  "cv_db (snd (finish_utterance demo_captured demo_answer demo_finishing (with_db demo_db1 (interrupt True demo_conversation)))) = demo_db1"
proof -
  let ?c = "with_db demo_db1 (interrupt True demo_conversation)"
  have "journal_step init_db demo_db1" using demo_accept unfolding demo_accept_def by (rule step_accept_new)
  then have "journal_step (cv_db (interrupt True demo_conversation)) demo_db1" by (simp add: demo_conversation_def new_conversation_def)
  then have c: "conversing\<^sup>*\<^sup>* (interrupt True demo_conversation) ?c" by (blast intro: conv_journal)
  have "routing_checkpoint (cv_sid ?c) (cv_db ?c) \<noteq> routing_checkpoint (cv_sid demo_conversation) (cv_db demo_conversation)"
    by (simp add: demo_conversation_def new_conversation_def routing_checkpoint_def demo_simps store_eval)
  then have "cv_db (snd (finish_utterance demo_captured demo_answer demo_finishing ?c)) = cv_db ?c"
    by (intro stale_route_changes_nothing [OF demo_conversation_ok demo_capture c]) blast
  then show ?thesis by simp
qed

lemma acceptance_recorded:
  assumes "conversation_ok c" "finish_utterance ca ans fi c = (Inr dn, c')" "dn_durable dn = Some True"
    and "dn_durable (decided ans) \<noteq> Some True"
  shows "(\<exists>r. recorded ca (rt_intent (dn_route dn)) r (cv_db c') \<and> op_task r = cv_focus c'
       \<and> (\<exists>t. find_task (cv_focus c') (cv_db c') = Some t \<and> tk_scope t = cv_sid c'))
    \<or> rt_intent (dn_route dn) = lit ''cancel_task'' \<and> (\<exists>m\<in>set (commands (cv_db c')). cm_id m = ca_utterance ca
         \<and> cm_task m = rt_task (dn_route dn) \<and> cm_scope m = cv_sid c' \<and> cm_text m = ca_text ca)"
proof (cases ca ans fi c rule: finish_cases)
  case (applied dn2 c2)
  then have eq: "dn2 = dn" "c2 = c'" using assms(2) by simp_all
  have sid: "cv_sid c' = cv_sid c" using finish_steps [OF assms(2)] by simp
  from apply_route_durable [OF applied(1) [unfolded eq] assms(3)] assms(1,4) show ?thesis
    unfolding sid by (auto simp: conversation_ok_def)
qed (use assms(2,3) in auto)

text \<open>C6. An acceptance is announced only when it is recorded: a decision that comes back marked as durably accepted has, in
  the journal of that moment, either the operation with the caller's text, kind and utterance, in a task of the call that now
  has the focus, or the recorded cancellation of the named task.
\<close>

theorem acceptance_is_recorded:
  assumes "conversation_ok c" "finish_utterance ca ans fi c = (Inr dn, c')" "dn_durable dn = Some True"
    and "dn_durable (decided ans) \<noteq> Some True"
  shows "(\<exists>r. recorded ca (rt_intent (dn_route dn)) r (cv_db c') \<and> op_task r = cv_focus c'
       \<and> (\<exists>t. find_task (cv_focus c') (cv_db c') = Some t \<and> tk_scope t = cv_sid c'))
    \<or> rt_intent (dn_route dn) = lit ''cancel_task'' \<and> (\<exists>m\<in>set (commands (cv_db c')). cm_id m = ca_utterance ca
         \<and> cm_task m = rt_task (dn_route dn) \<and> cm_scope m = cv_sid c' \<and> cm_text m = ca_text ca)"
  by (rule acceptance_recorded [OF assms])

abbreviation "demo_asked \<equiv> interrupt True demo_conversation"
abbreviation "demo_counted \<equiv> count_answer (decided demo_answer) demo_asked"

lemma demo_asked_simps:
  "cv_agents demo_asked = [demo_agent]" "cv_scope demo_asked = demo_scope" "cv_db demo_asked = init_db"
  "cv_sid demo_asked = [115]" "at_context (cv_at demo_asked) = []"
  "at_attached (cv_at demo_conversation)" "cv_scope demo_conversation = demo_scope" "cv_db demo_conversation = init_db" "cv_sid demo_conversation = [115]"
  by (simp_all add: demo_conversation_def new_conversation_def demo_scope_def interrupt_def interrupt_queue_def)

lemma demo_captured_simps: "ca_utterance demo_captured = [117]" "ca_text demo_captured = [104]" "ca_voice demo_captured = None"
  "ca_checkpoint demo_captured = demo_checkpoint"
  by (simp_all add: demo_captured_def)

lemma demo_answer_simps: "dn_route (decided demo_answer) = \<lparr>rt_intent = lit ''new_task'', rt_task = [], rt_alias = [118], rt_reply = []\<rparr>"
  "dn_durable (decided demo_answer) = None" "dn_help (decided demo_answer) = None"
  by (simp_all add: demo_answer_def legacy_decision_def)

lemma demo_agent_alias: "agent_alias demo_agent = [118]" "tk_id demo_task = [116]"
  by (simp_all add: demo_agent_def demo_task_def)

lemma demo_record: "record_work demo_captured (dn_route (decided demo_answer)) (fi_fresh demo_finishing) demo_counted
    = Inr (demo_op, [116], demo_db1)"
proof -
  have a: "accept_new_task demo_scope demo_agent [117] [104] None (Some demo_checkpoint) (Some True) [48] [116] [1001] [111] [1002] init_db
      = Inr (demo_op, demo_db1)"
    using demo_accept unfolding demo_accept_def
    by (simp add: accept_new_task_def check_preconditions_def routing_checkpoint_def demo_checkpoint_def demo_scope_def bounded_identifier_def
        is_control_def find_scope_def init_db_def current_question_def scope_attached_def)
  have task: "get_task (op_task demo_op) [115] demo_db1 = Inr (demo_task, Some (new_scope_row demo_scope))"
    by (simp add: get_task_def demo_simps store_eval)
  show ?thesis using task demo_holds(1)
    by (simp add: record_work_def Let_def demo_captured_simps demo_asked_simps demo_answer_simps demo_finishing_def a demo_agent_alias)
qed


lemma demo_finish: "\<exists>dn. fst demo_finished = Inr dn \<and> dn_durable dn = Some True \<and> dn_route dn = dn_route (decided demo_answer)
    \<and> cv_db (snd demo_finished) = demo_db1 \<and> cv_focus (snd demo_finished) = [116] \<and> cv_sid (snd demo_finished) = [115] \<and> at_attached (cv_at (snd demo_finished))"
proof -
  have "checked_decision demo_captured (decided demo_answer) demo_counted = decided demo_answer"
    using demo_holds by (simp add: checked_decision_def Let_def demo_answer_simps lit_def)
  moreover have "rt_intent (dn_route (decided demo_answer)) = lit ''new_task''" by (simp add: demo_answer_simps)
  ultimately show ?thesis
    using demo_record
    by (simp add: demo_finished_def finish_utterance_def apply_route_def Let_def apply_work_def demo_asked_simps with_db_def queue_reply_def lit_def enqueue_attached)
qed

theorem acceptance_is_recorded_witness:
  "\<exists>r. recorded demo_captured (lit ''new_task'') r (cv_db (snd demo_finished)) \<and> op_task r = [116]"
proof -
  obtain dn where dn: "finish_utterance demo_captured demo_answer demo_finishing demo_asked = (Inr dn, snd demo_finished)" "dn_durable dn = Some True"
      "dn_route dn = dn_route (decided demo_answer)" "cv_focus (snd demo_finished) = [116]"
    using demo_finish by (metis demo_finished_def prod.collapse)
  have ok: "conversation_ok demo_asked" using demo_conversation_ok by (simp only: interrupt_conversation_ok)
  have "dn_durable (decided demo_answer) \<noteq> Some True" by (simp add: demo_answer_simps)
  from acceptance_is_recorded [OF ok dn(1,2) this] show ?thesis using dn(3,4) by (auto simp: demo_answer_simps lit_def)
qed


lemma same_recorded: "recorded ca kind r d \<Longrightarrow> same_request r r' \<Longrightarrow> r' \<in> set (operations d') \<Longrightarrow> recorded ca kind r' d'"
  by (simp add: recorded_def same_request_def)

lemma find_first: "find P xs = Some x \<Longrightarrow> x \<in> set xs \<and> P x"
  by (induction xs) (auto split: if_splits)

text \<open>\<open>capture_utterance\<close> on a journal that has the utterance.\<close>

lemma capture_recorded:
  assumes "conversation_ok c" "at_attached (cv_at c)" "recorded ca kind r (cv_db c)"
    and "find_task (op_task r) (cv_db c) = Some t" "tk_scope t = cv_sid c"
    and "identifier_ok (ca_utterance ca)" "ca_text ca \<noteq> []" "length (ca_text ca) \<le> 4000"
  shows "capture_utterance (ca_utterance ca) (ca_text ca) (ca_voice ca) c = (Inr (Inl (duplicate_decision r t)), interrupt True c)"
proof -
  let ?d = "cv_db c" and ?in = "op_in_scope (cv_db c) (cv_sid c)"
  have k: "keys_ok ?d" using assms(1) reachable_parts(1) by (auto simp: conversation_ok_def)
  have r: "r \<in> set (filter ?in (operations ?d))" "op_utterance r = ca_utterance ca" "op_text r = ca_text ca"
    "op_voice r = dumps (voice_json (case ca_voice ca of None \<Rightarrow> [] | Some v \<Rightarrow> v))"
    using assms(3-5) by (simp_all add: recorded_def op_in_scope_def)
  have "distinct (map op_utterance (filter ?in (operations ?d)))" using k by (simp add: keys_ok_def distinct_map_filter)
  from row_by_unique [OF this r(1)] have row: "row_by op_utterance (ca_utterance ca) (filter ?in (operations ?d)) = Some r"
    by (simp add: r(2))
  let ?ts = "map (task_snapshot ?d) (sort_key (\<lambda>t. (tk_created t, tk_id t)) (filter (\<lambda>t. tk_scope t = cv_sid c) (tasks ?d)))"
  have t: "t \<in> set (tasks ?d)" "tk_id t = op_task r" using find_taskD [OF assms(4)] by simp_all
  have "\<exists>s. find (\<lambda>t. tk_id (fst t) = op_task r) ?ts = Some (t, s)"
  proof (cases "find (\<lambda>t. tk_id (fst t) = op_task r) ?ts")
    case None
    then show ?thesis using t assms(5) by (auto simp: find_None_iff task_snapshot_def)
  next
    case (Some x)
    then have "x \<in> set ?ts" "tk_id (fst x) = op_task r" by (auto dest: find_first)
    then obtain u where "u \<in> set (tasks ?d)" "x = task_snapshot ?d u" "tk_id u = op_task r" by (auto simp: task_snapshot_def)
    moreover from this(1,3) have "u = t" using find_task_in [OF k, of u] assms(4) by simp
    ultimately show ?thesis using Some by (simp add: task_snapshot_def)
  qed
  moreover obtain i where "bounded_identifier False (cv_sid c) = Inr i" using assms(1) by (auto simp: conversation_ok_def is_ok_def split: sum.splits)
  ultimately show ?thesis using assms(2,6-8) row r(3,4)
    by (auto simp: capture_utterance_def routing_snapshot_def question_def list_tasks_def scope_operations_def routing_checkpoint_def)
qed

text \<open>C7. A repeated utterance is recognised: once a route has recorded work for an utterance, the same utterance with the
  same text and voice context, at any later point of the conversation at which it is still attached, is answered at once as
  accepted before, with the kind it was recorded with; the router is not asked and the journal is not touched. The answer
  names what was recorded: for a new task the alias under which the task then created is served, and no task, for any other
  kind the task the work was added to.
\<close>

theorem repeated_utterance_is_recognised:
  assumes "conversation_ok c0" "capture_utterance u msg voice c0 = (Inr (Inr ca), c1)" "conversing\<^sup>*\<^sup>* c1 c"
    and "finish_utterance ca ans fi c = (Inr dn, c2)" "dn_durable dn = Some True" "dn_durable (decided ans) \<noteq> Some True"
    and "rt_intent (dn_route dn) \<noteq> lit ''cancel_task''" "conversing\<^sup>*\<^sup>* c2 c3" "at_attached (cv_at c3)"
  shows "\<exists>again c4 t. capture_utterance u msg voice c3 = (Inr (Inl again), c4) \<and> cv_db c4 = cv_db c3
    \<and> dn_reason again = lit ''duplicate_accepted'' \<and> find_task (cv_focus c2) (cv_db c3) = Some t
    \<and> dn_route again = (if rt_intent (dn_route dn) = lit ''new_task''
        then \<lparr>rt_intent = lit ''new_task'', rt_task = [], rt_alias = tk_alias t, rt_reply = []\<rparr>
        else \<lparr>rt_intent = rt_intent (dn_route dn), rt_task = cv_focus c2, rt_alias = [], rt_reply = []\<rparr>)"
proof -
  have ca: "ca_utterance ca = u" "ca_text ca = msg" "ca_voice ca = voice" "c1 = interrupt True c0"
    using capture_captured [OF assms(2)] by simp_all
  have valid: "identifier_ok u" "msg \<noteq> []" "length msg \<le> 4000"
    using assms(2) by (auto simp: capture_utterance_def split: if_splits)
  have "conversation_ok c1" using assms(1) unfolding ca(4) by (simp only: interrupt_conversation_ok)
  then have c: "conversation_ok c" using assms(3) by (rule conversing_ok)
  have step: "conversing c c2" using assms(4) by (rule conv_finish)
  then have c2: "conversation_ok c2" using conversing_ok [OF c] by blast
  then have c3: "conversation_ok c3" using assms(8) by (rule conversing_ok)
  note later = conversing_steps [OF assms(8)]
  obtain r t where r: "recorded ca (rt_intent (dn_route dn)) r (cv_db c2)" "op_task r = cv_focus c2"
      "find_task (cv_focus c2) (cv_db c2) = Some t" "tk_scope t = cv_sid c2"
    using acceptance_recorded [OF c assms(4-6)] assms(7) by blast
  have reach: "reachable (cv_db c2)" using c2 by (simp add: conversation_ok_def)
  obtain r' where r': "r' \<in> set (operations (cv_db c3))" "same_request r r'"
    using operation_history [OF reach] later r(1) by (auto simp: recorded_def)
  have rec: "recorded ca (rt_intent (dn_route dn)) r' (cv_db c3)" by (rule same_recorded [OF r(1) r'(2,1)])
  have "core_steps (cv_db c2) (cv_db c3)" using journal_steps_core later reachable_journal_ok [OF reach] by blast
  from find_task_steps [OF this r(3)] obtain t' where t': "find_task (op_task r') (cv_db c3) = Some t'" "tk_scope t' = cv_sid c3"
    using r'(2) r(2,4) later by (auto simp: same_request_def)
  from capture_recorded [OF c3 assms(9) rec t'] valid ca(1-3)
  have "capture_utterance u msg voice c3 = (Inr (Inl (duplicate_decision r' t')), interrupt True c3)" by simp
  moreover have "op_task r' = cv_focus c2" using r'(2) r(2) by (simp add: same_request_def)
  moreover from this have "tk_id t' = cv_focus c2" "find_task (cv_focus c2) (cv_db c3) = Some t'"
    using find_taskD [OF t'(1)] t'(1) by simp_all
  moreover have "op_kind r' = rt_intent (dn_route dn)" using rec by (simp add: recorded_def)
  ultimately show ?thesis by (auto simp: duplicate_decision_def Let_def)
qed

theorem repeated_utterance_is_recognised_witness:
  "\<exists>again c4. capture_utterance [117] [104] None (snd demo_finished) = (Inr (Inl again), c4) \<and> cv_db c4 = demo_db1
     \<and> dn_reason again = lit ''duplicate_accepted'' \<and> rt_intent (dn_route again) = rt_intent (dn_route (decided demo_answer))"
proof -
  obtain dn where dn: "finish_utterance demo_captured demo_answer demo_finishing demo_asked = (Inr dn, snd demo_finished)" "dn_durable dn = Some True"
      "dn_route dn = dn_route (decided demo_answer)" "cv_db (snd demo_finished) = demo_db1"
    using demo_finish by (metis demo_finished_def prod.collapse)
  have "dn_durable (decided demo_answer) \<noteq> Some True" "rt_intent (dn_route dn) \<noteq> lit ''cancel_task''"
    by (simp_all add: dn(3) demo_answer_simps lit_def)
  from repeated_utterance_is_recognised [OF demo_conversation_ok demo_capture _ dn(1,2) this(1,2), of "snd demo_finished"] demo_finish
  show ?thesis unfolding dn(3,4) by (auto split: if_splits)
qed

end
