(* ===== verification/GroundedRead.thy ===== *)
theory GroundedRead
  imports TaskRoutingProps
begin

text \<open>
  \<open>_grounded_read\<close> of \<open>voice/native-bridge/task_store.py\<close>: the bounded view of one task that a grounded answer may use
  (\<open>grounded_snapshot\<close>) and its revision (\<open>grounded_revision\<close>), with the record types of \<open>grounded_conversation.py\<close>.
  The fingerprint of an event is the SHA-256 of its payload, an argument \<open>digest\<close> here.
\<close>

section \<open>Data\<close>

record task_header =
  hd_id :: pystr
  hd_scope :: pystr
  hd_alias :: pystr
  hd_agent :: pystr
  hd_revision :: pystr
  hd_capabilities :: "(pystr \<times> bool) list"
  hd_objective :: pystr
  hd_version :: nat
  hd_state :: task_state
  hd_latest :: "(pystr \<times> nat \<times> dispatch_state) option"

record operation_mark =
  om_id :: pystr
  om_version :: nat
  om_state :: dispatch_state
  om_outcome :: "task_state option"
  om_kind :: pystr

record operation_text = operation_mark +
  om_text :: pystr

record evidence_revision =
  er_binding :: scope_row
  er_headers :: "task_header list"
  er_question :: "question_row option"
  er_head :: nat
  er_operations :: "operation_mark list"
  er_pending :: bool

record provenance =
  pv_event :: pystr
  pv_sequence :: nat
  pv_version :: nat
  pv_fingerprint :: pystr
  pv_answered :: "pyval option"

record backend_text =
  bk_operation :: pystr
  bk_event :: pystr
  bk_sequence :: nat
  bk_fingerprint :: pystr
  bk_text :: pystr

record grounded_view =
  gs_binding :: scope_row
  gs_headers :: "task_header list"
  gs_task :: task_header
  gs_open_question :: "pystr option"
  gs_operations :: "operation_text list"
  gs_provenance :: "provenance option list"
  gs_question :: "question_row option"
  gs_backend :: "backend_text option"
  gs_pending :: bool
  gs_revision :: evidence_revision

section \<open>The parts of the read\<close>

definition task_operations :: "pystr \<Rightarrow> db \<Rightarrow> op_row list" where
  "task_operations tid d = filter (\<lambda>r. op_task r = tid) (operations d)"

definition task_header_of :: "db \<Rightarrow> task_row \<Rightarrow> task_header" where
  "task_header_of d t = \<lparr>hd_id = tk_id t, hd_scope = tk_scope t, hd_alias = tk_alias t, hd_agent = tk_agent t, hd_revision = tk_revision t,
     hd_capabilities = tk_capabilities t, hd_objective = tk_objective t, hd_version = tk_version t, hd_state = tk_state t,
     hd_latest = (case task_operations (tk_id t) d of [] \<Rightarrow> None
       | rows \<Rightarrow> Some (op_id (last rows), op_version (last rows), op_state (last rows)))\<rparr>"

definition scope_headers :: "pystr \<Rightarrow> db \<Rightarrow> task_header list" where
  "scope_headers sid d =
     map (task_header_of d) (sort_key (\<lambda>t. (tk_created t, tk_id t)) (filter (\<lambda>t. tk_scope t = sid) (tasks d)))"

text \<open>The two latest operations of the task, older first.\<close>

definition latest_two :: "pystr \<Rightarrow> db \<Rightarrow> op_row list" where
  "latest_two tid d = rev (take 2 (rev (task_operations tid d)))"

definition mark_of :: "op_row \<Rightarrow> operation_mark" where
  "mark_of r = \<lparr>om_id = op_id r, om_version = op_version r, om_state = op_state r, om_outcome = op_outcome r, om_kind = op_kind r\<rparr>"

definition operation_text_of :: "op_row \<Rightarrow> operation_text" where
  "operation_text_of r = \<lparr>om_id = op_id r, om_version = op_version r, om_state = op_state r, om_outcome = op_outcome r, om_kind = op_kind r,
     om_text = op_text r\<rparr>"

definition event_head :: "pystr \<Rightarrow> db \<Rightarrow> nat" where
  "event_head tid d = foldr max (map ev_seq (filter (\<lambda>e. ev_task e = tid) (events d))) 0"

definition has_pending :: "pystr \<Rightarrow> db \<Rightarrow> bool" where
  "has_pending tid d = list_ex (\<lambda>r. op_task r = tid \<and> op_state r = Unsubmitted) (operations d)"

definition revision_of :: "scope_row \<Rightarrow> pystr \<Rightarrow> pystr \<Rightarrow> db \<Rightarrow> evidence_revision" where
  "revision_of s sid tid d = \<lparr>er_binding = s, er_headers = scope_headers sid d, er_question = row_by q_scope sid (questions d),
     er_head = event_head tid d, er_operations = map mark_of (latest_two tid d), er_pending = has_pending tid d\<rparr>"

text \<open>The latest event of a kind for an operation, with its payload when that is a dictionary.\<close>

definition latest_event :: "pystr \<Rightarrow> pystr \<Rightarrow> pystr \<Rightarrow> db \<Rightarrow> (event_row \<times> (pystr \<times> pyval) list) option" where
  "latest_event tid oid kind d =
     (case sort_key ev_seq (filter (\<lambda>e. ev_task e = tid \<and> ev_op e = Some oid \<and> ev_type e = kind) (events d)) of
        [] \<Rightarrow> None
      | evs \<Rightarrow>
          let e = last evs in
          if 16384 < length (ev_payload e) then None
          else (case json_loads False (ev_payload e) of Some (VDict p) \<Rightarrow> Some (e, p) | _ \<Rightarrow> None))"

text \<open>Python's \<open>v == i\<close> for an integer \<open>i\<close>.\<close>

definition equals_int :: "pyval \<Rightarrow> int \<Rightarrow> bool" where
  "equals_int v i = (case v of VInt j \<Rightarrow> j = i | VBool b \<Rightarrow> i = (if b then 1 else 0) | VFloat (Fin r) \<Rightarrow> r = of_int i | _ \<Rightarrow> False)"

definition short_string :: "pyval \<Rightarrow> bool" where
  "short_string v = (case v of VStr s \<Rightarrow> length s \<le> 4000 | _ \<Rightarrow> False)"

definition answered_keys :: "pystr list" where
  "answered_keys = map lit [''scope_id'', ''task_id'', ''question_id'', ''context_version'', ''text'', ''source'']"

definition bound_answer :: "pystr \<Rightarrow> op_row \<Rightarrow> pyval \<Rightarrow> pyval option" where
  "bound_answer tid r v = (case v of
     VDict q \<Rightarrow>
       if set (map fst q) \<subseteq> set answered_keys \<and> get_item q ''task_id'' = VStr tid
          \<and> equals_int (get_item q ''context_version'') (int (op_version r) - 1) \<and> short_string (get_item q ''text'')
       then Some v else None
   | _ \<Rightarrow> None)"

definition provenance_of :: "(pystr \<Rightarrow> pystr) \<Rightarrow> pystr \<Rightarrow> db \<Rightarrow> op_row \<Rightarrow> provenance option" where
  "provenance_of digest tid d r = (case latest_event tid (op_id r) (lit ''utterance_accepted'') d of
     None \<Rightarrow> None
   | Some (e, p) \<Rightarrow>
       if ev_version e = op_version r \<and> get_item p ''kind'' = VStr (op_kind r) \<and> get_item p ''text'' = VStr (op_text r)
       then Some \<lparr>pv_event = ev_id e, pv_sequence = ev_seq e, pv_version = ev_version e, pv_fingerprint = digest (ev_payload e),
                  pv_answered = bound_answer tid r (get_item p ''answered_question'')\<rparr>
       else None)"

definition settled_candidate :: "pystr \<Rightarrow> db \<Rightarrow> op_row \<Rightarrow> (event_row \<times> pyval) list" where
  "settled_candidate tid d r =
     (if op_state r \<noteq> Settled then []
      else case latest_event tid (op_id r) (lit ''operation_settled'') d of
        None \<Rightarrow> []
      | Some (e, p) \<Rightarrow> (case get_item p ''replies'' of
          VList xs \<Rightarrow> if length xs \<le> 32 \<and> list_all short_string xs then [(e, if xs = [] then VStr [] else last xs)] else []
        | _ \<Rightarrow> []))"

definition observed_candidate :: "pystr \<Rightarrow> db \<Rightarrow> op_row \<Rightarrow> (event_row \<times> pyval) list" where
  "observed_candidate tid d r = (case latest_event tid (op_id r) (lit ''backend_observed'') d of
     None \<Rightarrow> [] | Some (e, p) \<Rightarrow> [(e, get_item p ''text'')])"

definition usable :: "op_row \<Rightarrow> event_row \<times> pyval \<Rightarrow> bool" where
  "usable r c \<longleftrightarrow> ev_version (fst c) = op_version r \<and> (case snd c of VStr s \<Rightarrow> 0 < length s \<and> length s \<le> 4000 | _ \<Rightarrow> False)"

definition backend_of :: "(pystr \<Rightarrow> pystr) \<Rightarrow> pystr \<Rightarrow> db \<Rightarrow> op_row list \<Rightarrow> backend_text option" where
  "backend_of digest tid d rows =
     (if rows = [] then None
      else case find (usable (last rows)) (settled_candidate tid d (last rows) @ observed_candidate tid d (last rows)) of
        Some (e, VStr s) \<Rightarrow> Some \<lparr>bk_operation = op_id (last rows), bk_event = ev_id e, bk_sequence = ev_seq e,
                               bk_fingerprint = digest (ev_payload e), bk_text = s\<rparr>
      | _ \<Rightarrow> None)"

definition eligible_question :: "pystr \<Rightarrow> task_row \<Rightarrow> db \<Rightarrow> question_row option \<Rightarrow> question_row option" where
  "eligible_question tid t d q = (case q of
     None \<Rightarrow> None
   | Some b \<Rightarrow>
       if q_task b = tid \<and> q_version b = tk_version t \<and> \<not> has_pending tid d
          \<and> tk_state t \<notin> {TaskCancelled, CancelRequested, Succeeded, Failed, OutcomeUnknown} \<and> Some (q_text b) = tk_question t
       then Some b else None)"

section \<open>The two reads\<close>

definition grounded_task :: "pystr \<Rightarrow> pystr \<Rightarrow> db \<Rightarrow> store_error + scope_row \<times> task_row" where
  "grounded_task sid tid d =
     (if \<not> identifier_ok sid \<or> \<not> identifier_ok tid then Inl (StoreInvalid ''invalid identifier'')
      else case find_scope sid d of
        None \<Rightarrow> Inl (StoreDenied ''scope unavailable'')
      | Some s \<Rightarrow>
          if \<not> sc_attached s then Inl (StoreDenied ''scope unavailable'')
          else if 8 < length (scope_headers sid d) then Inl (StoreCapacity ''grounded task capacity'')
          else (case find (\<lambda>t. tk_scope t = sid \<and> tk_id t = tid) (tasks d) of
              None \<Rightarrow> Inl (StoreDenied ''task unavailable'')
            | Some t \<Rightarrow> Inr (s, t)))"

definition grounded_revision :: "pystr \<Rightarrow> pystr \<Rightarrow> db \<Rightarrow> store_error + evidence_revision" where
  "grounded_revision sid tid d = (case grounded_task sid tid d of Inl e \<Rightarrow> Inl e | Inr (s, t) \<Rightarrow> Inr (revision_of s sid tid d))"

definition grounded_snapshot :: "(pystr \<Rightarrow> pystr) \<Rightarrow> pystr \<Rightarrow> pystr \<Rightarrow> db \<Rightarrow> store_error + grounded_view" where
  "grounded_snapshot digest sid tid d = (case grounded_task sid tid d of
     Inl e \<Rightarrow> Inl e
   | Inr (s, t) \<Rightarrow>
       let rows = latest_two tid d in
       Inr \<lparr>gs_binding = s, gs_headers = scope_headers sid d, gs_task = task_header_of d t, gs_open_question = tk_question t,
            gs_operations = map operation_text_of rows, gs_provenance = map (provenance_of digest tid d) rows,
            gs_question = eligible_question tid t d (row_by q_scope sid (questions d)),
            gs_backend = backend_of digest tid d rows, gs_pending = has_pending tid d, gs_revision = revision_of s sid tid d\<rparr>)"

end
