(* ===== verification/GroundedFresh.thy ===== *)
theory GroundedFresh
  imports GroundedRead
begin

text \<open>
  The revision of a task stands for its snapshot: as long as the revision is the captured one, a new read would return
  what was captured, although the revision holds neither the utterances and replies of the task nor the payloads of its
  events. The reason is that every change of a task's row is logged with an event of the task, that accepted texts never change, and that logged events stay as they are.
\<close>

section \<open>Every change of a task is logged\<close>

definition asked :: "pystr \<Rightarrow> db \<Rightarrow> pystr option option" where
  "asked tid d = map_option tk_question (row_by tk_id tid (tasks d))"

definition logged_change :: "pystr \<Rightarrow> db \<Rightarrow> db \<Rightarrow> bool" where
  "logged_change tid d d' \<longleftrightarrow> (\<exists>new. events d' = events d @ new \<and> ((\<exists>e\<in>set new. ev_task e = tid) \<or> asked tid d' = asked tid d))"

lemma quiet_refl [simp]: "logged_change tid d d"
  by (simp add: logged_change_def)

lemma quiet_trans: "logged_change tid a b \<Longrightarrow> logged_change tid b c \<Longrightarrow> logged_change tid a c"
  unfolding logged_change_def by fastforce

lemma quiet_frame: "events d' = events d \<Longrightarrow> tasks d' = tasks d \<Longrightarrow> logged_change tid d d'"
  by (simp add: logged_change_def asked_def)

lemma logged_append: "events d' = events d @ [e] \<Longrightarrow> ev_task e = tid \<or> asked tid d' = asked tid d \<Longrightarrow> logged_change tid d d'"
  by (auto simp: logged_change_def)

lemma add_event_adds:
  "add_event u oid ty ver payload src eid d = Inr d' \<Longrightarrow> \<exists>e. events d' = events d @ [e] \<and> ev_task e = u \<and> tasks d' = tasks d"
  by (auto simp: add_event_def split: sum.splits if_splits)

lemma asked_update: "asked tid (d\<lparr>tasks := T\<rparr>) = map_option tk_question (row_by tk_id tid T)"
  by (simp add: asked_def)

lemma row_by_other:
  "u \<noteq> tid \<Longrightarrow> (\<And>t. tk_id (f t) = tk_id t) \<Longrightarrow> row_by tk_id tid (update_where (\<lambda>t. tk_id t = u) f T) = row_by tk_id tid T"
  by (induction T) auto

lemma quiet_same: "events d' = events d @ [e] \<Longrightarrow> tasks d' = tasks d \<Longrightarrow> logged_change tid d d'"
  by (simp add: logged_change_def asked_def)

lemma quiet_update:
  assumes "events d' = events d @ [e]" "ev_task e = u" "tasks d' = update_where (\<lambda>t. tk_id t = u) f (tasks d)" "\<And>t. tk_id (f t) = tk_id t"
  shows "logged_change tid d d'"
proof (cases "u = tid")
  case False
  then have "asked tid d' = asked tid d" using assms(3,4) by (simp add: asked_def row_by_other)
  then show ?thesis using assms(1) by (auto intro: logged_append)
qed (use assms(1,2) in \<open>auto intro: logged_append\<close>)

lemma tasks_settle_questions [simp]: "tasks (settle_questions a b r t bi q s d) = tasks d"
  by (auto simp: settle_questions_def store_updates split: option.splits list.splits)

lemmas quiet_simps = store_updates Let_def
lemmas quiet_splits = if_splits sum.splits option.splits

lemma create_quiet: "create_task s a obj given now nid eid d = Inr (x, d') \<Longrightarrow> logged_change tid d d'"
  by (auto simp: create_task_def bind_scope_def quiet_simps new_task_row_def split: quiet_splits dest!: add_event_adds intro!: logged_append simp: asked_def)

lemma accept_commit_quiet:
  assumes "accept_commit t sid u msg kind ctx enc now nid eid d = Inr (r, d')"
  shows "logged_change tid d d'"
proof -
  obtain e where "events d' = events d @ [e]" "ev_task e = tk_id t"
    using assms by (auto simp: accept_commit_def quiet_simps split: quiet_splits dest!: add_event_adds)
  then show ?thesis using accept_commit_effect [OF assms] by (auto simp: core_is_def intro: quiet_update)
qed

lemma accept_quiet: "accept tid' sid u msg kind voice ex au now nid eid d = Inr (r, d') \<Longrightarrow> logged_change tid d d'"
  by (drule accept_effect) (auto dest: accept_commit_quiet)

lemma accept_new_quiet: "accept_new_task s a u msg voice ex au now tid' ce oid ae d = Inr (x, d') \<Longrightarrow> logged_change tid d d'"
  by (auto simp: accept_new_task_def split: option.splits sum.splits if_splits dest!: accept_quiet create_quiet intro: quiet_trans)

lemma note_quiet: "note_question tid' sid msg src ver nid d = Inr (x, d') \<Longrightarrow> logged_change tid d d'"
  by (auto simp: note_question_def quiet_simps split: quiet_splits dest!: add_event_adds intro: quiet_same quiet_update)

lemma cancel_quiet: "cancel_pending tid' sid cmd msg ex au now eid d = Inr (x, d') \<Longrightarrow> logged_change tid d d'"
  by (auto simp: cancel_pending_def quiet_simps split: quiet_splits dest!: add_event_adds intro: quiet_same quiet_update)

lemma dispatch_quiet: "dispatch oid now eid d = Inr (x, d') \<Longrightarrow> logged_change tid d d'"
  by (auto simp: dispatch_def quiet_simps split: quiet_splits dest!: add_event_adds intro: quiet_same quiet_update)

lemma observe_quiet: "observe oid eid ty payload d = Inr (x, d') \<Longrightarrow> logged_change tid d d'"
  by (auto simp: observe_def quiet_simps split: quiet_splits dest!: add_event_adds intro: quiet_same quiet_update)

lemma settle_commit_quiet: "settle_commit r t result replies evj enc1 enc2 now sid d = Inr (x, d') \<Longrightarrow> logged_change tid d d'"
  by (auto simp: settle_commit_def quiet_simps split: sum.splits dest!: add_event_adds intro: quiet_same quiet_update)

lemma settle_quiet: "settle oid replies res ev now sid d = Inr (x, d') \<Longrightarrow> logged_change tid d d'"
  by (drule settle_effect) (auto dest: settle_commit_quiet)

lemma receipt_quiet: "record_receipt oid req exe rc eid d = Inr (x, d') \<Longrightarrow> logged_change tid d d'"
  by (drule record_receipt_effect)
    (auto simp: receipt_commit_def quiet_simps split: if_splits sum.splits dest!: add_event_adds intro: quiet_same quiet_update)

lemma owned_quiet: "record_owned_dispatch oid ref cmdj d = Inr (x, d') \<Longrightarrow> logged_change tid d d'"
  by (auto simp: record_owned_dispatch_def Let_def split: quiet_splits intro: quiet_frame)

lemma quiet_tables [simp]: "logged_change tid d (e\<lparr>owned_events := x\<rparr>) = logged_change tid d e" "logged_change tid d (e\<lparr>dispatches := y\<rparr>) = logged_change tid d e"
  by (simp_all add: logged_change_def asked_def)

lemma observe_owned_quiet: "observe_owned oid we d = Inr (x, d') \<Longrightarrow> logged_change tid d d'"
  by (auto simp: observe_owned_def Let_def split: if_splits sum.splits prod.splits bool.splits dest!: observe_quiet)

lemma reconcile_commit_quiet: "reconcile_commit r result rn e rs e2 e1 now eid d = Inr (x, d') \<Longrightarrow> logged_change tid d d'"
  by (auto simp: reconcile_commit_def quiet_simps split: sum.splits dest!: add_event_adds intro: quiet_same quiet_update)

lemma reconcile_quiet: "reconcile_unknown oid res rv replies now eid d = Inr (x, d') \<Longrightarrow> logged_change tid d d'"
  by (drule reconcile_unknown_effect) (auto dest: reconcile_commit_quiet)

lemma set_unknown_quiet: "set_unknown r reason now eid d = Inr d' \<Longrightarrow> logged_change tid d d'"
  by (auto simp: set_unknown_def quiet_simps dest!: add_event_adds intro: quiet_same quiet_update)

lemma mark_quiet: "mark_unknown oid reason now eid d = Inr (x, d') \<Longrightarrow> logged_change tid d d'"
  by (drule mark_unknown_effect) (auto dest: set_unknown_quiet)

lemma detach_quiet: "detach_scope sid d = Inr (x, d') \<Longrightarrow> logged_change tid d d'"
  by (auto simp: detach_scope_def Let_def store_updates split: if_splits intro: quiet_frame)

lemma recover_rows_quiet: "recover_rows rows nows fresh d = Inr d' \<Longrightarrow> logged_change tid d d'"
  by (induction rows arbitrary: d) (auto split: sum.splits dest!: set_unknown_quiet intro: quiet_trans)

lemma recover_quiet: "recover nows fresh d = Inr (x, d') \<Longrightarrow> logged_change tid d d'"
  by (auto simp: recover_def Let_def split: sum.splits dest: recover_rows_quiet)

lemma journal_step_quiet: "journal_step d d' \<Longrightarrow> logged_change tid d d'"
  by (erule journal_step.cases)
    (blast intro: create_quiet accept_quiet accept_new_quiet note_quiet cancel_quiet dispatch_quiet observe_quiet settle_quiet
      receipt_quiet owned_quiet observe_owned_quiet reconcile_quiet mark_quiet detach_quiet recover_quiet)+

lemma journal_steps_quiet: "journal_step\<^sup>*\<^sup>* d d' \<Longrightarrow> logged_change tid d d'"
  by (induction rule: rtranclp_induct) (auto intro: quiet_trans journal_step_quiet)


section \<open>The same revision, the same snapshot\<close>

lemma foldr_max_le: "foldr max xs 0 \<le> n \<longleftrightarrow> (\<forall>x\<in>set xs. x \<le> (n::nat))"
  by (induction xs) auto

lemma reachable_events_ok: "reachable d \<Longrightarrow> events_ok d"
  using journal_steps_logs [of init_db d] by (simp add: logs_def events_ok_def init_db_def)

lemma same_head_same_events:
  assumes "reachable d" "journal_step\<^sup>*\<^sup>* d d'" "event_head tid d' = event_head tid d"
  shows "filter (\<lambda>e. ev_task e = tid) (events d') = filter (\<lambda>e. ev_task e = tid) (events d)" "asked tid d' = asked tid d"
proof -
  obtain new where new: "events d' = events d @ new" "(\<exists>e\<in>set new. ev_task e = tid) \<or> asked tid d' = asked tid d"
    using journal_steps_quiet [OF assms(2), of tid] by (auto simp: logged_change_def)
  have ok: "events_ok d" "events_ok d'" using assms(1,2) reachable_events_ok reachable_steps by blast+
  have none: "ev_task e \<noteq> tid" if "e \<in> set new" for e
  proof
    assume "ev_task e = tid"
    have "ev_seq e \<in> set (map ev_seq new)" using \<open>e \<in> set new\<close> by simp
    moreover have "map ev_seq new = drop (length (events d)) [1..<Suc (length (events d'))]"
      using ok(2) new(1) by (metis append_eq_conv_conj events_ok_def length_map map_append)
    moreover have "drop (length (events d)) [1..<Suc (length (events d'))] = [Suc (length (events d))..<Suc (length (events d'))]"
      by (simp del: upt_Suc)
    ultimately have "length (events d) < ev_seq e" by (auto simp del: upt_Suc)
    moreover have "ev_seq e \<le> event_head tid d'"
      using foldr_max_le [of "map ev_seq (filter (\<lambda>e. ev_task e = tid) (events d'))" "event_head tid d'"]
        \<open>e \<in> set new\<close> \<open>ev_task e = tid\<close> new(1) by (auto simp: event_head_def)
    moreover have "\<forall>x\<in>set (map ev_seq (events d)). x \<le> length (events d)" using ok(1) by (auto simp: events_ok_def)
    then have "event_head tid d \<le> length (events d)" by (auto simp: event_head_def foldr_max_le)
    ultimately show False using assms(3) by simp
  qed
  then have "filter (\<lambda>e. ev_task e = tid) new = []" by (simp add: filter_empty_conv)
  then show "filter (\<lambda>e. ev_task e = tid) (events d') = filter (\<lambda>e. ev_task e = tid) (events d)" by (simp add: new(1))
  show "asked tid d' = asked tid d" using new(2) none by blast
qed

lemma latest_event_cong:
  assumes "filter (\<lambda>e. ev_task e = tid) (events d') = filter (\<lambda>e. ev_task e = tid) (events d)"
  shows "latest_event tid oid kind d' = latest_event tid oid kind d"
proof -
  have parts: "filter (\<lambda>e. ev_task e = tid \<and> ev_op e = Some oid \<and> ev_type e = kind) evs
      = filter (\<lambda>e. ev_op e = Some oid \<and> ev_type e = kind) (filter (\<lambda>e. ev_task e = tid) evs)" for evs
    by (simp add: conj_commute conj_assoc)
  have "filter (\<lambda>e. ev_task e = tid \<and> ev_op e = Some oid \<and> ev_type e = kind) (events d')
      = filter (\<lambda>e. ev_task e = tid \<and> ev_op e = Some oid \<and> ev_type e = kind) (events d)" by (simp only: parts assms)
  then show ?thesis by (simp only: latest_event_def)
qed

lemma text_of_eq: "operation_text_of r = operation_text_of r' \<longleftrightarrow> op_id r = op_id r' \<and> op_version r = op_version r' \<and> op_state r = op_state r'
    \<and> op_outcome r = op_outcome r' \<and> op_kind r = op_kind r' \<and> op_text r = op_text r'"
  by (simp add: operation_text_of_def)

lemma reads_cong:
  assumes "\<And>oid kind. latest_event tid oid kind d' = latest_event tid oid kind d" "operation_text_of r' = operation_text_of r"
  shows "provenance_of digest tid d' r' = provenance_of digest tid d r"
    "settled_candidate tid d' r' = settled_candidate tid d r" "observed_candidate tid d' r' = observed_candidate tid d r"
    "usable r' = usable r"
proof -
  have e: "op_id r' = op_id r" "op_version r' = op_version r" "op_state r' = op_state r" "op_kind r' = op_kind r" "op_text r' = op_text r"
    using assms(2) by (simp_all add: text_of_eq)
  show "provenance_of digest tid d' r' = provenance_of digest tid d r"
    unfolding provenance_of_def bound_answer_def assms(1) e ..
  show "settled_candidate tid d' r' = settled_candidate tid d r" unfolding settled_candidate_def assms(1) e ..
  show "observed_candidate tid d' r' = observed_candidate tid d r" unfolding observed_candidate_def assms(1) e ..
  show "usable r' = usable r" unfolding usable_def fun_eq_iff e by simp
qed

lemma map_same_view:
  assumes "map f xs = map f ys" "\<And>x y. f x = f y \<Longrightarrow> g x = h y"
  shows "map g xs = map h ys"
proof (rule nth_equalityI)
  show len: "length (map g xs) = length (map h ys)" using arg_cong [OF assms(1), of length] by simp
  fix i assume i: "i < length (map g xs)"
  then have "f (xs ! i) = f (ys ! i)" using arg_cong [OF assms(1), of "\<lambda>zs. zs ! i"] len by simp
  from assms(2) [OF this] show "map g xs ! i = map h ys ! i" using i len by simp
qed

lemma latest_two_in: "r \<in> set (latest_two tid d) \<Longrightarrow> r \<in> set (operations d) \<and> op_task r = tid"
  by (auto simp: latest_two_def task_operations_def dest: in_set_takeD)

lemma same_marks_same_texts:
  assumes "reachable d" "journal_step\<^sup>*\<^sup>* d d'" "map mark_of (latest_two tid d') = map mark_of (latest_two tid d)"
  shows "map operation_text_of (latest_two tid d') = map operation_text_of (latest_two tid d)"
proof (rule nth_equalityI)
  show len: "length (map operation_text_of (latest_two tid d')) = length (map operation_text_of (latest_two tid d))"
    using arg_cong [OF assms(3), of length] by simp
  fix i assume i: "i < length (map operation_text_of (latest_two tid d'))"
  let ?r = "latest_two tid d ! i" and ?r' = "latest_two tid d' ! i"
  have m: "mark_of ?r' = mark_of ?r" using arg_cong [OF assms(3), of "\<lambda>xs. xs ! i"] i len by simp
  have "?r \<in> set (operations d)" "?r' \<in> set (operations d')"
    using i len latest_two_in [OF nth_mem, of i tid d] latest_two_in [OF nth_mem, of i tid d'] by simp_all
  then obtain r2 where r2: "r2 \<in> set (operations d')" "same_request ?r r2" using operation_history [OF assms(1,2)] by blast
  have "keys_ok d'" using reachable_parts(1) reachable_steps [OF assms(1,2)] by blast
  then have "r2 = ?r'" using find_op_in [of d' r2] find_op_in [of d' ?r'] r2 \<open>?r' \<in> set (operations d')\<close> m
    by (simp add: same_request_def mark_of_def)
  then show "map operation_text_of (latest_two tid d') ! i = map operation_text_of (latest_two tid d) ! i"
    using m r2(2) i len by (simp add: operation_text_of_def mark_of_def same_request_def)
qed

lemma grounded_taskD:
  assumes "grounded_task sid tid d = Inr (s, t)"
  shows "find_scope sid d = Some s \<and> sc_attached s \<and> t \<in> set (tasks d) \<and> tk_scope t = sid \<and> tk_id t = tid
    \<and> identifier_ok sid \<and> identifier_ok tid \<and> \<not> 8 < length (scope_headers sid d)"
  using assms by (auto simp: grounded_task_def split: if_splits option.splits dest: find_first)

lemma same_headers_same_header:
  assumes "reachable d" "reachable d'" "scope_headers sid d' = scope_headers sid d"
    and "t \<in> set (tasks d)" "tk_scope t = sid" "t' \<in> set (tasks d')" "tk_scope t' = sid" "tk_id t' = tk_id t"
  shows "task_header_of d' t' = task_header_of d t"
proof -
  have k: "keys_ok d" using assms(1) reachable_parts(1) by blast
  have inj: "task_header_of d t1 = task_header_of d t" if "t1 \<in> set (tasks d)" "tk_id t1 = tk_id t" for t1
    using find_task_in [OF k that(1)] find_task_in [OF k assms(4)] that(2) by (metis option.inject)
  have "task_header_of d' t' \<in> set (scope_headers sid d')" using assms(6,7) by (simp add: scope_headers_def)
  then have "task_header_of d' t' \<in> set (scope_headers sid d)" by (simp only: assms(3))
  then obtain t1 where t1: "t1 \<in> set (tasks d)" "task_header_of d' t' = task_header_of d t1" by (auto simp: scope_headers_def)
  have "tk_id t1 = tk_id t" using arg_cong [OF t1(2), of hd_id] assms(8) by (simp add: task_header_of_def)
  then show ?thesis using inj t1 by simp
qed


lemma same_revision_same_snapshot:
  assumes "reachable d" "journal_step\<^sup>*\<^sup>* d d'"
    and "grounded_revision sid tid d = Inr rv" "grounded_revision sid tid d' = Inr rv"
  shows "grounded_snapshot digest sid tid d' = grounded_snapshot digest sid tid d"
proof -
  obtain s t s' t' where g: "grounded_task sid tid d = Inr (s, t)" "grounded_task sid tid d' = Inr (s', t')"
      and rv: "revision_of s' sid tid d' = revision_of s sid tid d"
    using assms(3,4) by (auto simp: grounded_revision_def split: sum.splits)
  note D = grounded_taskD [OF g(1)] grounded_taskD [OF g(2)]
  have eq: "s' = s" "scope_headers sid d' = scope_headers sid d" "row_by q_scope sid (questions d') = row_by q_scope sid (questions d)"
      "event_head tid d' = event_head tid d" "map mark_of (latest_two tid d') = map mark_of (latest_two tid d)"
      "has_pending tid d' = has_pending tid d"
    using rv by (simp_all add: revision_of_def)
  note r' = reachable_steps [OF assms(1,2)]
  have h: "task_header_of d' t' = task_header_of d t" by (rule same_headers_same_header [OF assms(1) r' eq(2)]) (use D in auto)
  then have t: "tk_version t' = tk_version t" "tk_state t' = tk_state t" by (simp_all add: task_header_of_def)
  have "asked tid d = Some (tk_question t)" "asked tid d' = Some (tk_question t')"
    using D find_task_in [OF reachable_parts(1) [OF assms(1)], of t] find_task_in [OF reachable_parts(1) [OF r'], of t']
    by (simp_all add: asked_def find_task_def)
  then have q: "tk_question t' = tk_question t" using same_head_same_events(2) [OF assms(1,2) eq(4)] by simp
  note ev = latest_event_cong [OF same_head_same_events(1) [OF assms(1,2) eq(4)]]
  note texts = same_marks_same_texts [OF assms(1,2) eq(5)]
  have prov: "map (provenance_of digest tid d') (latest_two tid d') = map (provenance_of digest tid d) (latest_two tid d)"
    using texts by (rule map_same_view) (rule reads_cong(1) [OF ev])
  have latest: "backend_of digest tid d' (latest_two tid d') = backend_of digest tid d (latest_two tid d)"
  proof (cases "latest_two tid d = []")
    case True
    then show ?thesis using eq(5) by (simp add: backend_of_def)
  next
    case False
    then have ne: "latest_two tid d' \<noteq> []" using eq(5) by auto
    then have l: "operation_text_of (last (latest_two tid d')) = operation_text_of (last (latest_two tid d))"
      using arg_cong [OF texts, of last] False by (simp add: last_map)
    then have e: "op_id (last (latest_two tid d')) = op_id (last (latest_two tid d))" using l by (simp add: text_of_eq)
    show ?thesis unfolding backend_of_def reads_cong(2-4) [OF ev l] e using False ne by simp
  qed
  have "eligible_question tid t' d' x = eligible_question tid t d x" for x
    unfolding eligible_question_def q t eq(6) ..
  then show ?thesis
    by (simp add: grounded_snapshot_def g Let_def eq(1-3,6) h q prov latest texts rv [unfolded eq(1)])
qed

text \<open>C13. The revision of a grounded answer stands for its evidence: as long as the revision of a task is the captured one,
  whatever the journal did meanwhile, reading the evidence again would return exactly what was captured, texts, provenance,
  backend message and question included.
\<close>

theorem revision_stands_for_snapshot:
  assumes "reachable d" "journal_step\<^sup>*\<^sup>* d d'"
    and "grounded_revision sid tid d = Inr rv" "grounded_revision sid tid d' = Inr rv"
  shows "grounded_snapshot digest sid tid d' = grounded_snapshot digest sid tid d"
  using assms by (rule same_revision_same_snapshot)

definition demo_other_task :: task_row where
  "demo_other_task = demo_task\<lparr>tk_id := [119], tk_scope := [120], tk_version := 0, tk_created := [50], tk_updated := [50]\<rparr>"

text \<open>The demonstration journal after another call has opened a task.\<close>

definition demo_busy :: db where
  "demo_busy = demo_db1\<lparr>scopes := scopes demo_db1 @ [new_scope_row (demo_scope\<lparr>scope_id := [120]\<rparr>)],
     tasks := tasks demo_db1 @ [demo_other_task],
     events := events demo_db1 @ [\<lparr>ev_seq = 3, ev_id = [2001], ev_task = [119], ev_op = None, ev_type = lit ''task_created'',
       ev_version = 0, ev_payload = dumps (JDict [(lit ''objective'', JStr [104])]), ev_source = store_source\<rparr>]\<rparr>"

lemma demo_busy_step: "create_task (demo_scope\<lparr>scope_id := [120]\<rparr>) demo_agent [104] None [50] [119] [2001] demo_db1
    = Inr ((demo_other_task, Some (new_scope_row (demo_scope\<lparr>scope_id := [120]\<rparr>))), demo_busy)"
  by (simp add: demo_busy_def demo_other_task_def demo_simps store_eval guards)

lemma demo_revisions: "grounded_revision [115] [116] demo_busy = grounded_revision [115] [116] demo_db1"
  "\<exists>rv. grounded_revision [115] [116] demo_db1 = Inr rv"
  by (simp_all add: grounded_revision_def grounded_task_def revision_of_def scope_headers_def task_header_of_def task_operations_def
      latest_two_def event_head_def has_pending_def demo_busy_def demo_other_task_def demo_simps store_eval)

theorem revision_stands_for_snapshot_witness:
  "grounded_snapshot id [115] [116] demo_busy = grounded_snapshot id [115] [116] demo_db1"
proof -
  obtain rv where rv: "grounded_revision [115] [116] demo_db1 = Inr rv" using demo_revisions(2) by blast
  have "journal_step demo_db1 demo_busy" using demo_busy_step by (rule step_create)
  then have "journal_step\<^sup>*\<^sup>* demo_db1 demo_busy" by blast
  from revision_stands_for_snapshot [OF demo_reachable(1) this rv] show ?thesis by (simp add: demo_revisions(1) rv)
qed

end
