(* ===== verification/GroundedAnswers.thy ===== *)
theory GroundedAnswers
  imports GroundedFresh
begin

text \<open>
  \<open>voice/native-bridge/grounded_conversation.py\<close>: the evidence offered to the planner (\<open>make_request\<close>), the check of what the
  planner selected (\<open>GroundedPlan\<close>, \<open>_canonical_evidence\<close>, \<open>_supports_form\<close>) and the sentences spoken (\<open>render\<close>). The planner,
  a language model, is any function from requests to plans. Jobs, slots and the HTTP exchange are not modelled.
\<close>

section \<open>Data\<close>

record evidence_item =
  ei_ref :: pystr
  ei_task_ref :: pystr
  ei_kind :: pystr
  ei_source :: pystr
  ei_text :: pystr
  ei_complete :: bool
  ei_fact :: pystr
  ei_operation_ref :: pystr
  ei_question_ref :: pystr
  ei_version :: nat
  ei_historical :: bool

text \<open>What a reference stands for, kept from the planner.\<close>

datatype association =
    Local
  | OfOperation pystr pystr provenance  \<comment> \<open>operation, kind, provenance\<close>
  | OfQuestion question_row
  | OfBackend backend_text

record 'v grounded_request =
  rq_request :: pystr
  rq_utterance :: pystr
  rq_text :: pystr
  rq_binding :: scope_row
  rq_task :: pystr
  rq_job :: pystr
  rq_checkpoint :: checkpoint
  rq_revision :: evidence_revision
  rq_registry :: "agent list"
  rq_focus :: pystr
  rq_workflow :: pystr
  rq_validity :: 'v
  rq_generation :: int
  rq_deadline :: rat
  rq_evidence :: "evidence_item list"
  rq_references :: "(pystr \<times> association) list"
  rq_snapshot :: grounded_view

record grounded_plan =
  gp_outcome :: pystr
  gp_form :: pystr
  gp_evidence :: "pystr list"
  gp_gap :: pystr

definition contract_text :: pystr where
  "contract_text = lit ''In diesem Anruf wird jeweils nur ein fachlicher Kontext bearbeitet.''"

definition fallback_text :: pystr where
  "fallback_text = lit ''Dazu liegt mir keine ausreichend belegte Auskunft vor.''"

definition gap_texts :: "(pystr \<times> pystr) list" where
  "gap_texts = [
     (lit ''rationale'', lit ''Der Grund ist in den vorliegenden Angaben nicht enthalten.''),
     (lit ''missing_record'', fallback_text),
     (lit ''fresh_check'', lit ''Das m'' @ [252] @ lit ''sste ServiceNow neu pr'' @ [252] @ lit ''fen. Ich habe keine neue Anfrage ausgel'' @ [246] @ lit ''st.''),
     (lit ''scope'', lit ''Bitte nenne genau eine eigene Aufgabe.''),
     (lit ''conflict'', lit ''Die Angaben lassen sich nicht eindeutig zuordnen. Bitte pr'' @ [228] @ lit ''zisiere deine Frage.'')]"

section \<open>The state sentence\<close>

definition over_states :: "task_state list" where
  "over_states = [TaskCancelled, CancelRequested, Succeeded, Failed, OutcomeUnknown]"

definition dispatch_text :: "grounded_view \<Rightarrow> pystr" where
  "dispatch_text snap =
     (let state = hd_state (gs_task snap);
          dispatch = (if gs_operations snap = [] then None else Some (om_state (last (gs_operations snap)))) in
      if state = OutcomeUnknown \<or> dispatch = Some Unknown
      then lit ''Das Ergebnis ist unbekannt. Die Anfrage wird nicht automatisch wiederholt.''
      else if state = TaskCancelled
      then lit ''Die Aufgabe wurde lokal abgebrochen; eine entfernte Stornierung ist damit nicht best'' @ [228] @ lit ''tigt.''
      else if state = CancelRequested \<or> dispatch = Some Suspended
      then lit ''Der Abbruch ist lokal vorgemerkt; eine entfernte Stornierung ist nicht best'' @ [228] @ lit ''tigt.''
      else if dispatch = Some Unsubmitted
      then lit ''Die letzte Eingabe ist lokal gespeichert und noch nicht '' @ [252] @ lit ''bermittelt.''
      else if dispatch = Some Submitted
      then lit ''Die letzte Eingabe wurde '' @ [252] @ lit ''bermittelt; das Ergebnis ist noch nicht best'' @ [228] @ lit ''tigt.''
      else if dispatch = Some Settled \<and> om_outcome (last (gs_operations snap)) = Some AwaitingInput
      then lit ''ServiceNow hat geantwortet; lokal werden weitere Angaben erwartet.''
      else lit ''Der lokale Aufgabenstand ist gespeichert; ein fachlicher Erfolg ist damit nicht best'' @ [228] @ lit ''tigt.'')"

section \<open>Evidence\<close>

definition plain_item :: "pystr \<Rightarrow> pystr \<Rightarrow> pystr \<Rightarrow> evidence_item" where
  "plain_item kind source content = \<lparr>ei_ref = [], ei_task_ref = lit ''t1'', ei_kind = kind, ei_source = source, ei_text = content,
     ei_complete = True, ei_fact = [], ei_operation_ref = [], ei_question_ref = [], ei_version = 0, ei_historical = False\<rparr>"

definition numbered_ref :: "string \<Rightarrow> nat \<Rightarrow> pystr" where
  "numbered_ref prefix_text n = lit prefix_text @ int_repr (int n)"

definition state_item :: "grounded_view \<Rightarrow> evidence_item" where
  "state_item snap = (plain_item (lit ''task_fact'') (lit ''local_state'') (dispatch_text snap))\<lparr>ei_fact := lit ''current_state''\<rparr>"

definition caller_item :: "grounded_view \<Rightarrow> nat \<Rightarrow> operation_text \<Rightarrow> evidence_item" where
  "caller_item snap i r = (plain_item (lit ''caller_statement'') (lit ''caller'') (om_text r))\<lparr>ei_operation_ref := numbered_ref ''p'' (Suc i),
     ei_version := om_version r, ei_historical := Suc i < length (gs_operations snap)\<rparr>"

definition question_item :: "question_row \<Rightarrow> evidence_item" where
  "question_item q = (plain_item (lit ''question'') (if q_source q = lit ''backend'' then lit ''backend'' else lit ''local_contract'') (q_text q))
     \<lparr>ei_question_ref := lit ''q1'', ei_version := q_version q\<rparr>"

definition backend_item :: "grounded_view \<Rightarrow> backend_text \<Rightarrow> evidence_item" where
  "backend_item snap b = (plain_item (lit ''backend_message'') (lit ''backend'') (bk_text b))
     \<lparr>ei_operation_ref := numbered_ref ''p'' (length (gs_operations snap)), ei_version := om_version (last (gs_operations snap))\<rparr>"

definition queue_item :: evidence_item where
  "queue_item = (plain_item (lit ''queue_fact'') (lit ''local_state'')
     (lit ''Ein anderer eigener Ablauf belegt den einzigen fachlichen Kontext.''))\<lparr>ei_fact := lit ''different_context''\<rparr>"

definition contract_item :: evidence_item where
  "contract_item = (plain_item (lit ''contract_clause'') (lit ''local_contract'') contract_text)\<lparr>ei_fact := lit ''single_context''\<rparr>"

definition context_taken :: "grounded_view \<Rightarrow> pystr \<Rightarrow> bool" where
  "context_taken snap workflow \<longleftrightarrow> gs_operations snap \<noteq> [] \<and> om_state (last (gs_operations snap)) = Unsubmitted
     \<and> hd_state (gs_task snap) \<notin> set over_states \<and> workflow \<noteq> [] \<and> workflow \<noteq> hd_id (gs_task snap)
     \<and> list_ex (\<lambda>h. hd_id h = workflow) (gs_headers snap)"

text \<open>What \<open>make_request\<close> hands to its \<open>add\<close>, in order, before the references are given out.\<close>

definition captured_operations :: "grounded_view \<Rightarrow> (nat \<times> operation_text \<times> provenance option) list" where
  "captured_operations snap = enumerate 0 (zip (gs_operations snap) (gs_provenance snap))"

definition offered :: "grounded_view \<Rightarrow> pystr \<Rightarrow> (evidence_item \<times> association) list" where
  "offered snap workflow =
     [(state_item snap, Local)]
     @ concat (map (\<lambda>(i, r, p). case p of None \<Rightarrow> [] | Some v \<Rightarrow> [(caller_item snap i r, OfOperation (om_id r) (om_kind r) v)])
         (captured_operations snap))
     @ (case gs_question snap of None \<Rightarrow> [] | Some q \<Rightarrow> [(question_item q, OfQuestion q)])
     @ (case gs_backend snap of None \<Rightarrow> [] | Some b \<Rightarrow> [(backend_item snap b, OfBackend b)])
     @ (if context_taken snap workflow then [(queue_item, Local), (contract_item, Local)] else [])"

definition add_item :: "evidence_item \<times> association \<Rightarrow> (evidence_item \<times> association) list \<Rightarrow> (evidence_item \<times> association) list" where
  "add_item p ps = (if ei_text (fst p) = [] \<or> 4000 < length (ei_text (fst p)) then ps
     else ps @ [((fst p)\<lparr>ei_ref := numbered_ref ''e'' (Suc (length ps))\<rparr>, snd p)])"

text \<open>\<open>None\<close> is the \<open>ValueError\<close> of more than twelve items. The identifiers are the ones drawn, \<open>now\<close> is the clock.\<close>

definition make_request ::
  "grounded_view \<Rightarrow> pystr \<Rightarrow> pystr \<Rightarrow> checkpoint \<Rightarrow> agent list \<Rightarrow> pystr \<Rightarrow> pystr \<Rightarrow> 'v \<Rightarrow> int \<Rightarrow> pystr \<times> pystr \<Rightarrow> rat
     \<Rightarrow> 'v grounded_request option" where
  "make_request snap utterance content checkpoint registry focus workflow validity generation ids now =
     (let ps = fold add_item (offered snap workflow) [] in
      if 12 < length ps then None
      else Some \<lparr>rq_request = fst ids, rq_utterance = utterance, rq_text = content, rq_binding = gs_binding snap,
        rq_task = hd_id (gs_task snap), rq_job = snd ids, rq_checkpoint = checkpoint, rq_revision = gs_revision snap,
        rq_registry = registry, rq_focus = focus, rq_workflow = workflow, rq_validity = validity, rq_generation = generation,
        rq_deadline = now + 22 / 10, rq_evidence = map fst ps, rq_references = map (\<lambda>p. (ei_ref (fst p), snd p)) ps,
        rq_snapshot = snap\<rparr>)"

section \<open>Checking a selection\<close>

text \<open>The item a reference of this kind must be, with its association; \<open>None\<close> where the code answers \<open>False\<close>.\<close>

definition expected_question :: "grounded_view \<Rightarrow> pystr \<Rightarrow> (evidence_item \<times> association) option" where
  "expected_question snap task = (case gs_question snap of
     None \<Rightarrow> None
   | Some q \<Rightarrow>
       if q_task q \<noteq> task \<or> q_id q = [] \<or> q_source q \<notin> {lit ''backend'', lit ''greeting''}
          \<or> q_version q \<noteq> hd_version (gs_task snap) \<or> Some (q_text q) \<noteq> gs_open_question snap \<or> gs_pending snap
          \<or> list_ex (\<lambda>r. om_state r = Unsubmitted) (gs_operations snap) \<or> hd_state (gs_task snap) \<in> set over_states
       then None else Some (question_item q, OfQuestion q))"

definition expected_caller :: "grounded_view \<Rightarrow> pystr \<Rightarrow> (evidence_item \<times> association) option" where
  "expected_caller snap operation_ref =
     (case find (\<lambda>(i, r, p). operation_ref = numbered_ref ''p'' (Suc i) \<and> p \<noteq> None) (captured_operations snap) of
        Some (i, r, Some v) \<Rightarrow>
          if pv_event v = [] \<or> pv_sequence v = 0 \<or> pv_fingerprint v = [] \<or> pv_version v \<noteq> om_version r then None
          else Some (caller_item snap i r, OfOperation (om_id r) (om_kind r) v)
      | _ \<Rightarrow> None)"

definition expected_item :: "evidence_item \<Rightarrow> 'v grounded_request \<Rightarrow> (evidence_item \<times> association) option" where
  "expected_item e rq =
     (let snap = rq_snapshot rq; kind = ei_kind e in
      if kind = lit ''task_fact'' then Some (state_item snap, Local)
      else if kind = lit ''question'' then expected_question snap (rq_task rq)
      else if kind = lit ''caller_statement'' then expected_caller snap (ei_operation_ref e)
      else if kind = lit ''backend_message'' then
        (case gs_backend snap of
           None \<Rightarrow> None
         | Some b \<Rightarrow>
             if gs_operations snap = [] \<or> bk_operation b \<noteq> om_id (last (gs_operations snap)) then None
             else Some (backend_item snap b, OfBackend b))
      else if kind \<in> {lit ''queue_fact'', lit ''contract_clause''} then
        (if \<not> context_taken snap (rq_workflow rq) \<or> rq_workflow rq = rq_task rq then None
         else Some (if kind = lit ''queue_fact'' then queue_item else contract_item, Local))
      else None)"

definition canonical :: "evidence_item \<Rightarrow> 'v grounded_request \<Rightarrow> bool" where
  "canonical e rq \<longleftrightarrow>
     rq_binding rq = gs_binding (rq_snapshot rq) \<and> rq_task rq = hd_id (gs_task (rq_snapshot rq))
     \<and> rq_revision rq = gs_revision (rq_snapshot rq) \<and> hd_scope (gs_task (rq_snapshot rq)) = sc_id (gs_binding (rq_snapshot rq))
     \<and> ei_complete e \<and> ei_task_ref e = lit ''t1'' \<and> ei_ref e \<in> set (map fst (rq_references rq))
     \<and> length (filter (\<lambda>x. ei_ref x = ei_ref e) (rq_evidence rq)) = 1
     \<and> (case expected_item e rq of
          None \<Rightarrow> False
        | Some (x, a) \<Rightarrow> e = x\<lparr>ei_ref := ei_ref e\<rparr> \<and> map_of (rq_references rq) (ei_ref e) = Some a)"

definition plan_outcomes :: "pystr list" where
  "plan_outcomes = map lit [''answer'', ''insufficient'', ''needs_business'', ''ambiguous'']"

definition plan_forms :: "pystr list" where
  "plan_forms = map lit [''state'', ''change'', ''current_question'', ''queue'', ''attributed'', ''none'']"

definition structure_ok :: "grounded_plan \<Rightarrow> 'v grounded_request \<Rightarrow> bool" where
  "structure_ok pl rq \<longleftrightarrow>
     gp_outcome pl \<in> set plan_outcomes \<and> gp_form pl \<in> set plan_forms \<and> gp_gap pl \<in> set (lit ''none'' # map fst gap_texts)
     \<and> length (gp_evidence pl) \<le> 4 \<and> set (gp_evidence pl) \<subseteq> set (map fst (rq_references rq)) \<and> distinct (gp_evidence pl)
     \<and> (if gp_outcome pl = lit ''answer'' then gp_evidence pl \<noteq> [] \<and> gp_form pl \<noteq> lit ''none'' \<and> gp_gap pl = lit ''none''
        else gp_form pl = lit ''none'' \<and> gp_evidence pl = [] \<and> gp_gap pl \<noteq> lit ''none'')"

text \<open>Every item whose reference is selected, in the order of the selection.\<close>

definition selected :: "grounded_plan \<Rightarrow> 'v grounded_request \<Rightarrow> evidence_item list" where
  "selected pl rq = concat (map (\<lambda>ref. filter (\<lambda>e. ei_ref e = ref) (rq_evidence rq)) (gp_evidence pl))"

definition supports_form :: "grounded_plan \<Rightarrow> 'v grounded_request \<Rightarrow> bool" where
  "supports_form pl rq =
     (let sel = selected pl rq; snap = rq_snapshot rq; ops = gs_operations snap; form = gp_form pl in
      if sel = [] \<or> length sel \<noteq> length (gp_evidence pl) \<or> \<not> list_all (\<lambda>e. canonical e rq) sel then False
      else if form = lit ''state'' then list_ex (\<lambda>e. ei_kind e = lit ''task_fact'' \<and> ei_fact e = lit ''current_state'') sel
      else if form = lit ''current_question'' then list_ex (\<lambda>e. ei_kind e = lit ''question'') sel
      else if form = lit ''change'' then
        length ops = 2 \<and> length (gs_provenance snap) = 2 \<and> list_all (\<lambda>p. p \<noteq> None) (gs_provenance snap)
        \<and> om_kind (last ops) = lit ''amend_task'' \<and> om_version (last ops) = om_version (hd ops) + 1
        \<and> set (map ei_operation_ref (filter (\<lambda>e. ei_kind e = lit ''caller_statement'') sel)) = {lit ''p1'', lit ''p2''}
      else if form = lit ''queue'' then {lit ''different_context'', lit ''single_context''} \<subseteq> set (map ei_fact sel)
      else if form = lit ''attributed'' then list_all (\<lambda>e. ei_kind e \<in> {lit ''caller_statement'', lit ''backend_message''}) sel
      else False)"

datatype plan_verdict = Valid | Unsupported | Malformed

definition validate_plan :: "grounded_plan \<Rightarrow> 'v grounded_request \<Rightarrow> plan_verdict" where
  "validate_plan pl rq = (if \<not> structure_ok pl rq then Malformed
     else if gp_outcome pl = lit ''answer'' \<and> \<not> supports_form pl rq then Unsupported else Valid)"

section \<open>What the planner is shown\<close>

definition evidence_row :: "evidence_item \<Rightarrow> pyval" where
  "evidence_row e = VList [VStr (ei_ref e), VStr (ei_task_ref e), VStr (ei_kind e), VStr (ei_source e), VStr (ei_text e),
     VBool (ei_complete e), VStr (ei_fact e), VStr (ei_operation_ref e), VStr (ei_question_ref e), VInt (int (ei_version e)),
     VBool (ei_historical e)]"

text \<open>The references listed under a role; a question is listed only when it is canonical.\<close>

definition role_refs :: "string list \<Rightarrow> 'v grounded_request \<Rightarrow> pystr list" where
  "role_refs kinds rq = map ei_ref (filter (\<lambda>e. ei_kind e \<in> set (map lit kinds)
     \<and> (ei_kind e = lit ''question'' \<longrightarrow> canonical e rq)) (rq_evidence rq))"

definition evidence_roles :: "'v grounded_request \<Rightarrow> (pystr \<times> pystr list) list" where
  "evidence_roles rq = [
     (lit ''local_facts'', role_refs [''task_fact'', ''queue_fact''] rq),
     (lit ''current_questions'', role_refs [''question''] rq),
     (lit ''caller_history'', role_refs [''caller_statement''] rq),
     (lit ''backend_messages'', role_refs [''backend_message''] rq),
     (lit ''contracts'', role_refs [''contract_clause''] rq)]"

definition typed_evidence :: "'v grounded_request \<Rightarrow> pyval" where
  "typed_evidence rq = VDict [
     (lit ''wire_version'', VStr (lit ''typed-evidence-v1'')), (lit ''task_ref'', VStr (lit ''t1'')),
     (lit ''record_fields'', VList (map (VStr \<circ> lit) [''ref'', ''task_ref'', ''kind'', ''source'', ''text'', ''complete'', ''fact_code'',
        ''operation_ref'', ''question_ref'', ''context_version'', ''historical''])),
     (lit ''records'', VList (map evidence_row (rq_evidence rq))),
     (lit ''roles'', VDict (map (\<lambda>(role, refs). (role, VList (map VStr refs))) (evidence_roles rq))),
     (lit ''utterance'', VStr (rq_text rq))]"

section \<open>The planner's text\<close>

definition utf8_length :: "pystr \<Rightarrow> nat" where
  "utf8_length s = sum_list (map (\<lambda>c. if c < 128 then 1 else if c < 2048 then 2 else if c < 65536 then 3 else 4) s)"

text \<open>\<open>_decode_structure\<close>; \<open>None\<close> is the \<open>ValueError\<close>.\<close>

definition decode_structure :: "pystr \<Rightarrow> 'v grounded_request \<Rightarrow> grounded_plan option" where
  "decode_structure raw rq =
     (if \<not> utf8_encodable raw \<or> 2048 < utf8_length raw then None
      else case strict_json raw of
        Some (VDict d) \<Rightarrow>
          if \<not> has_keys d [''outcome'', ''form'', ''evidence'', ''gap''] then None
          else (case (get_item d ''outcome'', get_item d ''form'', get_item d ''evidence'', get_item d ''gap'') of
              (VStr outcome, VStr form, VList refs, VStr gap) \<Rightarrow>
                (case those (map as_str refs) of
                   None \<Rightarrow> None
                 | Some evidence \<Rightarrow>
                     let pl = \<lparr>gp_outcome = outcome, gp_form = form, gp_evidence = evidence, gp_gap = gap\<rparr> in
                     if structure_ok pl rq then Some pl else None)
            | _ \<Rightarrow> None)
      | _ \<Rightarrow> None)"

section \<open>Speaking\<close>

definition quoted_text :: "pystr \<Rightarrow> pystr \<Rightarrow> pystr" where
  "quoted_text before content = before @ [8222] @ content @ [8220]"

definition statement_sentence :: "bool \<Rightarrow> pystr \<Rightarrow> pystr" where
  "statement_sentence historical content =
     quoted_text (if historical then lit ''Zuvor sagtest du: '' else lit ''Deine letzte Eingabe lautete: '') content"

definition segments :: "grounded_plan \<Rightarrow> 'v grounded_request \<Rightarrow> pystr list" where
  "segments pl rq =
     (let sel = selected pl rq; snap = rq_snapshot rq; ops = gs_operations snap; form = gp_form pl in
      if form = lit ''state'' then [dispatch_text snap]
      else if form = lit ''change'' then
        [quoted_text (lit ''Du hattest gesagt: '') (om_text (hd ops)), quoted_text (lit ''Deine Korrektur lautete: '') (om_text (last ops)),
         dispatch_text snap]
      else if form = lit ''current_question'' then
        (case find (\<lambda>e. ei_kind e = lit ''question'') sel of
           None \<Rightarrow> [] | Some q \<Rightarrow> [quoted_text (lit ''Die aktuelle Frage lautet: '') (ei_text q)])
      else if form = lit ''queue'' then
        dispatch_text snap # map ei_text (filter (\<lambda>e. ei_fact e \<in> {lit ''different_context'', lit ''single_context''}) sel)
      else if form = lit ''attributed'' then
        concat (map (\<lambda>e. if ei_kind e = lit ''caller_statement'' then [statement_sentence (ei_historical e) (ei_text e)]
            else if ei_kind e = lit ''backend_message'' then [quoted_text (lit ''ServiceNow meldet zur letzten Eingabe: '') (ei_text e)]
            else []) sel) @ [dispatch_text snap]
      else [])"

text \<open>\<open>None\<close> is the \<open>ValueError\<close> of a malformed plan.\<close>

definition render_plan :: "grounded_plan \<Rightarrow> 'v grounded_request \<Rightarrow> pystr option" where
  "render_plan pl rq = (case validate_plan pl rq of
     Malformed \<Rightarrow> None
   | Unsupported \<Rightarrow> Some fallback_text
   | Valid \<Rightarrow>
       if gp_outcome pl \<noteq> lit ''answer'' then map_of gap_texts (gp_gap pl)
       else
         let segs = segments pl rq; reply = join (lit '' '') segs in
         Some (if segs \<noteq> [] \<and> length segs \<le> 4 \<and> length reply \<le> 600 then reply else fallback_text))"

end
