(* ===== verification/GroundedProps.thy ===== *)
theory GroundedProps
  imports GroundedAnswers
begin

text \<open>
  What a grounded answer may say: for every plan, whatever the model made up, the reply is a fixed sentence or a sequence of
  fixed sentences and quotations of what the journal holds for this task of this call. And what is offered to the planner
  passes the check that its selection has to pass.
\<close>

section \<open>What a snapshot takes from the journal\<close>

lemma latest_event_SomeD:
  assumes "latest_event tid oid kind d = Some (e, p)"
  shows "e \<in> set (events d) \<and> ev_task e = tid \<and> ev_op e = Some oid \<and> ev_type e = kind \<and> json_loads False (ev_payload e) = Some (VDict p)"
proof -
  define evs where "evs = sort_key ev_seq (filter (\<lambda>e. ev_task e = tid \<and> ev_op e = Some oid \<and> ev_type e = kind) (events d))"
  have ne: "evs \<noteq> []" using assms by (cases evs) (simp_all add: latest_event_def evs_def [symmetric])
  then obtain a l where al: "evs = a # l" by (cases evs) auto
  have out: "(if 16384 < length (ev_payload (last evs)) then None
      else case json_loads False (ev_payload (last evs)) of Some (VDict p) \<Rightarrow> Some (last evs, p) | _ \<Rightarrow> None) = Some (e, p)"
    using assms unfolding latest_event_def evs_def [symmetric] al list.case Let_def .
  then have e: "e = last evs" "json_loads False (ev_payload e) = Some (VDict p)"
    by (cases "json_loads False (ev_payload (last evs))"; auto split: if_splits pyval.splits)+
  have "e \<in> set evs" unfolding e(1) using ne by (rule last_in_set)
  then show ?thesis using e(2) by (simp add: evs_def)
qed

text \<open>A text is held by an event of the task: as the payload's text, or as its last reply.\<close>

definition held_by_event :: "pystr \<Rightarrow> pystr list \<Rightarrow> pystr \<Rightarrow> db \<Rightarrow> bool" where
  "held_by_event tid kinds content d \<longleftrightarrow> (\<exists>e\<in>set (events d). ev_task e = tid \<and> ev_type e \<in> set kinds
     \<and> (\<exists>p. json_loads False (ev_payload e) = Some (VDict p)
          \<and> (get_item p ''text'' = VStr content \<or> (\<exists>xs. get_item p ''replies'' = VList (xs @ [VStr content])))))"

definition accepted_kinds :: "pystr list" where "accepted_kinds = [lit ''utterance_accepted'']"

definition backend_kinds :: "pystr list" where "backend_kinds = [lit ''operation_settled'', lit ''backend_observed'']"

lemma provenance_held:
  assumes "provenance_of digest tid d r = Some v"
  shows "held_by_event tid accepted_kinds (op_text r) d"
  using assms by (fastforce simp: provenance_of_def held_by_event_def accepted_kinds_def split: option.splits if_splits dest: latest_event_SomeD)

lemma candidates_held:
  assumes "(e, VStr content) \<in> set (settled_candidate tid d r @ observed_candidate tid d r)" "content \<noteq> []"
  shows "held_by_event tid backend_kinds content d"
proof -
  consider "(e, VStr content) \<in> set (settled_candidate tid d r)" | "(e, VStr content) \<in> set (observed_candidate tid d r)"
    using assms(1) by auto
  then show ?thesis
  proof cases
    case 1
    then obtain e' p where p: "latest_event tid (op_id r) (lit ''operation_settled'') d = Some (e', p)"
      by (cases "latest_event tid (op_id r) (lit ''operation_settled'') d") (auto simp: settled_candidate_def split: if_splits)
    obtain xs where xs: "get_item p ''replies'' = VList xs" "xs \<noteq> []" "last xs = VStr content"
      using 1 p assms(2) by (cases "get_item p ''replies''") (auto simp: settled_candidate_def split: if_splits)
    then have "xs = butlast xs @ [VStr content]" by (metis append_butlast_last_id)
    then show ?thesis using xs(1) latest_event_SomeD [OF p] unfolding held_by_event_def backend_kinds_def by (metis list.set_intros(1))
  next
    case 2
    then obtain e' p where p: "latest_event tid (op_id r) (lit ''backend_observed'') d = Some (e', p)" "get_item p ''text'' = VStr content"
      by (cases "latest_event tid (op_id r) (lit ''backend_observed'') d") (auto simp: observed_candidate_def)
    then show ?thesis using latest_event_SomeD [OF p(1)] unfolding held_by_event_def backend_kinds_def by (metis list.set_intros)
  qed
qed

lemma backend_held:
  assumes "backend_of digest tid d rows = Some b"
  shows "held_by_event tid backend_kinds (bk_text b) d"
proof -
  obtain e content where e: "find (usable (last rows)) (settled_candidate tid d (last rows) @ observed_candidate tid d (last rows)) = Some (e, VStr content)"
      "bk_text b = content"
    using assms by (auto simp: backend_of_def split: if_splits option.splits prod.splits pyval.splits)
  from find_first [OF e(1)] have "content \<noteq> []" "(e, VStr content) \<in> set (settled_candidate tid d (last rows) @ observed_candidate tid d (last rows))"
    by (auto simp: usable_def)
  then show ?thesis unfolding e(2) by (intro candidates_held)
qed

lemma snapshot_InrD:
  assumes "grounded_snapshot digest sid tid d = Inr snap"
  obtains s t where "grounded_task sid tid d = Inr (s, t)" "gs_binding snap = s" "gs_task snap = task_header_of d t" "gs_open_question snap = tk_question t"
    "gs_operations snap = map operation_text_of (latest_two tid d)" "gs_provenance snap = map (provenance_of digest tid d) (latest_two tid d)"
    "gs_question snap = eligible_question tid t d (row_by q_scope sid (questions d))" "gs_backend snap = backend_of digest tid d (latest_two tid d)"
    "gs_pending snap = has_pending tid d" "gs_headers snap = scope_headers sid d" "gs_revision snap = revision_of s sid tid d"
  using assms by (auto simp: grounded_snapshot_def Let_def split: sum.splits)

lemma captured_operationsD:
  assumes "grounded_snapshot digest sid tid d = Inr snap" "(i, r, p) \<in> set (captured_operations snap)"
  shows "\<exists>row. row \<in> set (latest_two tid d) \<and> r = operation_text_of row \<and> p = provenance_of digest tid d row
     \<and> i < length (latest_two tid d) \<and> latest_two tid d ! i = row"
proof -
  obtain s t where "gs_operations snap = map operation_text_of (latest_two tid d)" "gs_provenance snap = map (provenance_of digest tid d) (latest_two tid d)"
    using snapshot_InrD [OF assms(1)] by metis
  then show ?thesis using assms(2) by (auto simp: captured_operations_def in_set_enumerate_eq)
qed

section \<open>What canonical evidence says\<close>

lemma canonical_expected: "canonical e rq \<Longrightarrow> \<exists>x a. expected_item e rq = Some (x, a) \<and> e = x\<lparr>ei_ref := ei_ref e\<rparr>"
  by (auto simp: canonical_def split: option.splits)

text \<open>The texts an item of each kind can have.\<close>

lemma canonical_text:
  assumes "canonical e rq"
  shows "ei_kind e = lit ''caller_statement'' \<Longrightarrow>
      \<exists>i r v. (i, r, Some v) \<in> set (captured_operations (rq_snapshot rq)) \<and> ei_text e = om_text r"
    "ei_kind e = lit ''backend_message'' \<Longrightarrow> \<exists>b. gs_backend (rq_snapshot rq) = Some b \<and> ei_text e = bk_text b"
    "ei_kind e = lit ''question'' \<Longrightarrow> \<exists>q. gs_question (rq_snapshot rq) = Some q \<and> ei_text e = q_text q"
    "ei_fact e \<in> {lit ''different_context'', lit ''single_context''} \<Longrightarrow> ei_text e \<in> {ei_text queue_item, contract_text}"
proof -
  obtain x a where x: "expected_item e rq = Some (x, a)" "e = x\<lparr>ei_ref := ei_ref e\<rparr>" using canonical_expected [OF assms] by blast
  have f: "ei_text e = ei_text x" "ei_fact e = ei_fact x" using arg_cong [OF x(2), of ei_text] arg_cong [OF x(2), of ei_fact] by simp_all
  show "\<exists>i r v. (i, r, Some v) \<in> set (captured_operations (rq_snapshot rq)) \<and> ei_text e = om_text r" if "ei_kind e = lit ''caller_statement''"
    using x(1) that unfolding f
    by (force simp: expected_item_def Let_def lit_def expected_caller_def caller_item_def plain_item_def
        split: option.splits if_splits dest: find_first)
  show "\<exists>b. gs_backend (rq_snapshot rq) = Some b \<and> ei_text e = bk_text b" if "ei_kind e = lit ''backend_message''"
    using x(1) that unfolding f
    by (auto simp: expected_item_def Let_def lit_def backend_item_def plain_item_def split: option.splits if_splits)
  show "\<exists>q. gs_question (rq_snapshot rq) = Some q \<and> ei_text e = q_text q" if "ei_kind e = lit ''question''"
    using x(1) that unfolding f
    by (auto simp: expected_item_def Let_def lit_def expected_question_def question_item_def plain_item_def split: option.splits if_splits)
  show "ei_text e \<in> {ei_text queue_item, contract_text}" if "ei_fact e \<in> {lit ''different_context'', lit ''single_context''}"
    using x(1) that unfolding f
    by (auto simp: expected_item_def Let_def lit_def expected_question_def question_item_def plain_item_def expected_caller_def
        caller_item_def backend_item_def state_item_def queue_item_def contract_item_def split: option.splits if_splits prod.splits)
qed

lemma in_set_snd: "(a, b) \<in> set ps \<Longrightarrow> b \<in> snd ` set ps"
  by force

section \<open>What is said\<close>

definition fixed_sentences :: "grounded_view \<Rightarrow> pystr list" where
  "fixed_sentences snap = [dispatch_text snap, ei_text queue_item, contract_text]"

text \<open>A quotation of the journal: of an utterance accepted for this task, of the question open for this task in this call, or
  of what the backend was observed to answer in this task.\<close>

definition caller_openers :: "pystr list" where
  "caller_openers = map lit [''Du hattest gesagt: '', ''Deine Korrektur lautete: '', ''Zuvor sagtest du: '', ''Deine letzte Eingabe lautete: '']"

inductive quotation :: "pystr \<Rightarrow> pystr \<Rightarrow> db \<Rightarrow> pystr \<Rightarrow> bool" for sid tid d where
  said: "row \<in> set (operations d) \<Longrightarrow> op_task row = tid \<Longrightarrow> held_by_event tid accepted_kinds (op_text row) d \<Longrightarrow> opener \<in> set caller_openers
     \<Longrightarrow> quotation sid tid d (quoted_text opener (op_text row))"
| asked: "q \<in> set (questions d) \<Longrightarrow> q_scope q = sid \<Longrightarrow> q_task q = tid
     \<Longrightarrow> quotation sid tid d (quoted_text (lit ''Die aktuelle Frage lautet: '') (q_text q))"
| replied: "held_by_event tid backend_kinds content d \<Longrightarrow> quotation sid tid d (quoted_text (lit ''ServiceNow meldet zur letzten Eingabe: '') content)"

lemma quotationI:
  "row \<in> set (operations d) \<Longrightarrow> op_task row = tid \<Longrightarrow> held_by_event tid accepted_kinds (op_text row) d \<Longrightarrow>
     quotation sid tid d (quoted_text (lit ''Du hattest gesagt: '') (op_text row))
     \<and> quotation sid tid d (quoted_text (lit ''Deine Korrektur lautete: '') (op_text row))
     \<and> quotation sid tid d (statement_sentence h (op_text row))"
  unfolding statement_sentence_def by (intro conjI; rule said) (auto simp: caller_openers_def)

lemma caller_row:
  assumes "grounded_snapshot digest sid tid d = Inr snap" "(i, r, Some v) \<in> set (captured_operations snap)"
  shows "\<exists>row\<in>set (operations d). op_task row = tid \<and> held_by_event tid accepted_kinds (op_text row) d \<and> op_text row = om_text r"
proof -
  obtain row where row: "row \<in> set (latest_two tid d)" "r = operation_text_of row" "Some v = provenance_of digest tid d row"
    using captured_operationsD [OF assms] by blast
  then show ?thesis using latest_two_in [OF row(1)] provenance_held [OF row(3) [symmetric]] by (auto simp: operation_text_of_def)
qed

lemma change_rows:
  assumes "grounded_snapshot digest sid tid d = Inr snap" "length (gs_operations snap) = 2" "list_all (\<lambda>p. p \<noteq> None) (gs_provenance snap)"
    and "r \<in> {hd (gs_operations snap), last (gs_operations snap)}"
  shows "\<exists>row\<in>set (operations d). op_task row = tid \<and> held_by_event tid accepted_kinds (op_text row) d \<and> op_text row = om_text r"
proof -
  obtain s t where st: "gs_operations snap = map operation_text_of (latest_two tid d)" "gs_provenance snap = map (provenance_of digest tid d) (latest_two tid d)"
    using snapshot_InrD [OF assms(1)] by metis
  have "gs_operations snap \<noteq> []" using assms(2) by auto
  then have "r \<in> set (gs_operations snap)" using assms(4) by auto
  then obtain row where row: "row \<in> set (latest_two tid d)" "r = operation_text_of row" unfolding st by auto
  then obtain v where "provenance_of digest tid d row = Some v" using assms(3) unfolding st by (auto simp: list_all_iff)
  then show ?thesis using row latest_two_in [OF row(1)] provenance_held by (auto simp: operation_text_of_def)
qed

lemma segments_evidenced:
  assumes snap: "grounded_snapshot digest sid tid d = Inr (rq_snapshot rq)" and sup: "supports_form pl rq"
    and s: "s \<in> set (segments pl rq)"
  shows "s \<in> set (fixed_sentences (rq_snapshot rq)) \<or> quotation sid tid d s"
proof -
  let ?snap = "rq_snapshot rq"
  have can: "canonical e rq" if "e \<in> set (selected pl rq)" for e
    using sup that by (auto simp: supports_form_def Let_def list_all_iff split: if_splits)
  have caller: "quotation sid tid d (statement_sentence h (ei_text e))"
    if e: "e \<in> set (selected pl rq)" "ei_kind e = lit ''caller_statement''" for e h
  proof -
    obtain i r v where "(i, r, Some v) \<in> set (captured_operations ?snap)" "ei_text e = om_text r"
      using canonical_text(1) [OF can [OF e(1)] e(2)] by blast
    from caller_row [OF snap this(1)] this(2) show ?thesis using quotationI by metis
  qed
  have backend: "quotation sid tid d (quoted_text (lit ''ServiceNow meldet zur letzten Eingabe: '') (ei_text e))"
    if e: "e \<in> set (selected pl rq)" "ei_kind e = lit ''backend_message''" for e
  proof -
    obtain b where b: "gs_backend ?snap = Some b" "ei_text e = bk_text b" using canonical_text(2) [OF can [OF e(1)] e(2)] by blast
    then have "backend_of digest tid d (latest_two tid d) = Some b" using snapshot_InrD [OF snap] by metis
    from replied [OF backend_held [OF this]] show ?thesis unfolding b(2) .
  qed
  have inquiry: "quotation sid tid d (quoted_text (lit ''Die aktuelle Frage lautet: '') (ei_text e))"
    if e: "e \<in> set (selected pl rq)" "ei_kind e = lit ''question''" for e
  proof -
    obtain q where q: "gs_question ?snap = Some q" "ei_text e = q_text q" using canonical_text(3) [OF can [OF e(1)] e(2)] by blast
    obtain t where "eligible_question tid t d (row_by q_scope sid (questions d)) = Some q"
      using snapshot_InrD [OF snap] q(1) by metis
    then have "row_by q_scope sid (questions d) = Some q" "q_task q = tid"
      by (auto simp: eligible_question_def split: option.splits if_splits)
    then show ?thesis using asked [of q d sid tid] row_by_SomeD [of q_scope sid "questions d" q] unfolding q(2) by blast
  qed
  have queued: "ei_text e \<in> set (fixed_sentences ?snap)"
    if "e \<in> set (selected pl rq)" "ei_fact e \<in> {lit ''different_context'', lit ''single_context''}" for e
    using canonical_text(4) [OF can [OF that(1)] that(2)] by (auto simp: fixed_sentences_def)
  have changed: "quotation sid tid d (quoted_text (lit ''Du hattest gesagt: '') (om_text r))
      \<and> quotation sid tid d (quoted_text (lit ''Deine Korrektur lautete: '') (om_text r))"
    if "gp_form pl = lit ''change''" "r \<in> {hd (gs_operations ?snap), last (gs_operations ?snap)}" for r
  proof -
    have "length (gs_operations ?snap) = 2" "list_all (\<lambda>p. p \<noteq> None) (gs_provenance ?snap)"
      using sup that(1) by (simp_all add: supports_form_def Let_def lit_def split: if_splits)
    from change_rows [OF snap this that(2)] show ?thesis using quotationI by metis
  qed
  have fixed: "dispatch_text ?snap \<in> set (fixed_sentences ?snap)" by (simp add: fixed_sentences_def)
  consider (state) "segments pl rq = [dispatch_text ?snap]"
    | (change) "gp_form pl = lit ''change''" "segments pl rq = [quoted_text (lit ''Du hattest gesagt: '') (om_text (hd (gs_operations ?snap))),
         quoted_text (lit ''Deine Korrektur lautete: '') (om_text (last (gs_operations ?snap))), dispatch_text ?snap]"
    | (question) "segments pl rq = (case find (\<lambda>e. ei_kind e = lit ''question'') (selected pl rq) of None \<Rightarrow> []
         | Some q \<Rightarrow> [quoted_text (lit ''Die aktuelle Frage lautet: '') (ei_text q)])"
    | (queue) "segments pl rq = dispatch_text ?snap # map ei_text (filter (\<lambda>e. ei_fact e \<in> {lit ''different_context'', lit ''single_context''}) (selected pl rq))"
    | (attributed) "segments pl rq = concat (map (\<lambda>e. if ei_kind e = lit ''caller_statement'' then [statement_sentence (ei_historical e) (ei_text e)]
            else if ei_kind e = lit ''backend_message'' then [quoted_text (lit ''ServiceNow meldet zur letzten Eingabe: '') (ei_text e)]
            else []) (selected pl rq)) @ [dispatch_text ?snap]"
    | (other) "segments pl rq = []"
    by (fastforce simp: segments_def Let_def split: if_splits)
  then show ?thesis
  proof cases
    case state
    then show ?thesis using s fixed by simp
  next
    case change
    then show ?thesis using s fixed changed by auto
  next
    case question
    then show ?thesis using s inquiry by (auto split: option.splits dest: find_first)
  qed (use s fixed caller backend queued in auto)
qed


definition evidenced_reply :: "pystr \<Rightarrow> pystr \<Rightarrow> db \<Rightarrow> grounded_view \<Rightarrow> bool \<Rightarrow> pystr \<Rightarrow> bool" where
  "evidenced_reply sid tid d snap stated reply \<longleftrightarrow> reply = fallback_text \<or> reply \<in> set (map snd gap_texts)
    \<or> length reply \<le> 600 \<and> (\<exists>segs. reply = join (lit '' '') segs \<and> segs \<noteq> []
         \<and> (\<forall>s\<in>set segs. s \<in> set (fixed_sentences snap) \<or> quotation sid tid d s)
         \<and> (stated \<longrightarrow> dispatch_text snap \<in> set segs))"

lemma rendered_is_evidenced:
  assumes "grounded_snapshot digest sid tid d = Inr (rq_snapshot rq)" "render_plan pl rq = Some reply"
  shows "evidenced_reply sid tid d (rq_snapshot rq) (gp_form pl \<noteq> lit ''current_question'') reply"
proof (cases "gp_outcome pl = lit ''answer''")
  case False
  then show ?thesis using assms(2)
    by (cases "map_of gap_texts (gp_gap pl)") (auto simp: evidenced_reply_def render_plan_def validate_plan_def split: if_splits dest!: map_of_SomeD dest: in_set_snd)
next
  case True
  then consider "reply = fallback_text" | "supports_form pl rq" "reply = join (lit '' '') (segments pl rq)" "segments pl rq \<noteq> []" "length reply \<le> 600"
    using assms(2) by (auto simp: render_plan_def validate_plan_def Let_def split: if_splits)
  then show ?thesis
  proof cases
    case 2
    have "gp_form pl \<noteq> lit ''current_question'' \<longrightarrow> dispatch_text (rq_snapshot rq) \<in> set (segments pl rq)"
      using 2(3) by (auto simp: segments_def Let_def split: if_splits)
    then show ?thesis using segments_evidenced [OF assms(1) 2(1)] 2(2-4) unfolding evidenced_reply_def by blast
  qed (simp add: evidenced_reply_def)
qed

text \<open>C10. Nothing but evidence is spoken: whatever evidence a request claims and whatever plan the language model returns, a
  reply rendered over a snapshot of the journal is one of the fixed refusals, or at most 600 characters of fixed sentences and
  quotations of this task in this call: utterances accepted for it, its open question, answers observed for it. Except for a
  quoted question the state of the task is always said along.
\<close>

theorem reply_is_evidenced:
  assumes "grounded_snapshot digest sid tid d = Inr (rq_snapshot rq)" "render_plan pl rq = Some reply"
  shows "reply = fallback_text \<or> reply \<in> set (map snd gap_texts)
    \<or> length reply \<le> 600 \<and> (\<exists>segs. reply = join (lit '' '') segs \<and> segs \<noteq> []
         \<and> (\<forall>s\<in>set segs. s \<in> set (fixed_sentences (rq_snapshot rq)) \<or> quotation sid tid d s)
         \<and> (gp_form pl \<noteq> lit ''current_question'' \<longrightarrow> dispatch_text (rq_snapshot rq) \<in> set segs))"
  using rendered_is_evidenced [OF assms] unfolding evidenced_reply_def .

end
