(* ===== verification/GroundedOffer.thy ===== *)
theory GroundedOffer
  imports GroundedProps
begin

text \<open>
  What is offered to the planner passes the check that its selection has to pass: \<open>make_request\<close> and \<open>_canonical_evidence\<close>
  agree on every record read from a journal.
\<close>

section \<open>Who asks\<close>

text \<open>Every open question of a journal comes from the backend or from the greeting.\<close>

definition asked_by :: "db \<Rightarrow> pystr set" where
  "asked_by d = q_source ` set (questions d)"

definition askers :: "pystr set" where
  "askers = {lit ''backend'', lit ''greeting''}"

definition asks :: "db \<Rightarrow> db \<Rightarrow> bool" where
  "asks d d' \<longleftrightarrow> asked_by d' \<subseteq> asked_by d \<union> askers"

lemma asks_refl [simp]: "asks d d"
  by (simp add: asks_def)

lemma asks_trans: "asks a b \<Longrightarrow> asks b c \<Longrightarrow> asks a c"
  unfolding asks_def by blast

lemma asks_filter: "questions d' = filter P (questions d) \<Longrightarrow> asks d d'"
  by (auto simp: asks_def asked_by_def)

lemma asks_same: "questions d' = questions d \<Longrightarrow> asks d d'"
  by (simp add: asks_def asked_by_def)

lemma asks_put: "questions d' = filter P (questions d) @ [q] \<Longrightarrow> q_source q \<in> askers \<Longrightarrow> asks d d'"
  by (auto simp: asks_def asked_by_def)

lemmas asks_intros = asks_same asks_filter asks_put
lemmas asks_simps = store_updates Let_def core_is_def

lemma create_asks: "create_task s a obj given now nid eid d = Inr (x, d') \<Longrightarrow> asks d d'"
  by (auto simp: create_task_def bind_scope_def asks_simps split: quiet_splits dest!: add_event_InrD intro: asks_intros)

lemma accept_asks: "accept tid sid u msg kind voice ex au now nid eid d = Inr (r, d') \<Longrightarrow> asks d d'"
  by (drule accept_effect) (auto simp: core_is_def dest!: accept_commit_effect intro: asks_intros)

lemma accept_new_asks: "accept_new_task s a u msg voice ex au now tid ce oid ae d = Inr (x, d') \<Longrightarrow> asks d d'"
  by (auto simp: accept_new_task_def split: option.splits sum.splits if_splits dest!: accept_asks create_asks intro: asks_trans)

lemma note_asks: "note_question tid sid msg src ver nid d = Inr (x, d') \<Longrightarrow> asks d d'"
  by (auto simp: note_question_def asks_simps askers_def split: quiet_splits dest!: add_event_InrD intro: asks_put asks_same)

lemma cancel_asks: "cancel_pending tid sid cmd msg ex au now eid d = Inr (x, d') \<Longrightarrow> asks d d'"
  by (drule cancel_pending_effect) (auto simp: core_is_def intro: asks_intros)

lemma dispatch_asks: "dispatch oid now eid d = Inr (x, d') \<Longrightarrow> asks d d'"
  by (drule dispatch_effect) (auto simp: core_is_def intro: asks_intros)

lemma observe_asks: "observe oid eid ty payload d = Inr (x, d') \<Longrightarrow> asks d d'"
  by (auto simp: observe_def asks_simps split: quiet_splits dest!: add_event_InrD intro: asks_intros)

lemma settle_questions_asks: "asks d (settle_questions a b r t bi q s d)"
  by (auto simp: settle_questions_def store_updates askers_def split: option.split list.split intro: asks_intros)

lemma asks_updates: "asks a d \<Longrightarrow> asks a (update_op oid f d)" "asks a d \<Longrightarrow> asks a (update_task tid g d)"
    "asks a d \<Longrightarrow> asks a (suspend_pending tid d)" "asks a d \<Longrightarrow> asks a (drop_questions P d)"
  by (auto simp: asks_def asked_by_def store_updates)

lemma asks_settle_questions: "asks a d \<Longrightarrow> asks a (settle_questions x b r t bi q s d)"
  using settle_questions_asks by (rule asks_trans [rotated])

lemma asks_event: "add_event u oid ty ver p src eid d = Inr d' \<Longrightarrow> asks a d \<Longrightarrow> asks a d'"
proof -
  assume "add_event u oid ty ver p src eid d = Inr d'" "asks a d"
  moreover then have "questions d' = questions d" by (auto simp: core_is_def dest!: add_event_InrD)
  ultimately show ?thesis by (simp add: asks_def asked_by_def)
qed

lemma settle_commit_asks: "settle_commit r t result replies evj enc1 enc2 now sid d = Inr (x, d') \<Longrightarrow> asks d d'"
  unfolding settle_commit_def Let_def
  by (clarsimp split: sum.splits; erule asks_event; intro asks_updates asks_settle_questions asks_refl)

lemma reconcile_commit_asks: "reconcile_commit r result rn e rs e2 e1 now eid d = Inr (x, d') \<Longrightarrow> asks d d'"
  unfolding reconcile_commit_def Let_def
  by (clarsimp split: sum.splits; erule asks_event; intro asks_updates asks_refl)

lemma settle_asks: "settle oid replies res ev now sid d = Inr (x, d') \<Longrightarrow> asks d d'"
  by (drule settle_effect) (auto dest: settle_commit_asks)

lemma receipt_asks: "record_receipt oid req exe rc eid d = Inr (x, d') \<Longrightarrow> asks d d'"
  by (drule record_receipt_effect)
    (auto simp: receipt_commit_def asks_simps split: if_splits sum.splits dest!: add_event_InrD intro: asks_intros)

lemma owned_asks: "record_owned_dispatch oid ref cmdj d = Inr (x, d') \<Longrightarrow> asks d d'"
  by (auto simp: record_owned_dispatch_def Let_def split: quiet_splits intro: asks_intros)

lemma asks_tables [simp]: "asks d (e\<lparr>owned_events := x\<rparr>) = asks d e" "asks d (e\<lparr>dispatches := y\<rparr>) = asks d e"
  by (simp_all add: asks_def asked_by_def)

lemma observe_owned_asks: "observe_owned oid we d = Inr (x, d') \<Longrightarrow> asks d d'"
  by (auto simp: observe_owned_def Let_def split: if_splits sum.splits prod.splits bool.splits dest!: observe_asks)

lemma reconcile_asks: "reconcile_unknown oid res rv replies now eid d = Inr (x, d') \<Longrightarrow> asks d d'"
  by (drule reconcile_unknown_effect) (auto dest: reconcile_commit_asks)

lemma set_unknown_asks: "set_unknown r reason now eid d = Inr d' \<Longrightarrow> asks d d'"
  by (auto simp: set_unknown_def asks_simps dest!: add_event_InrD intro: asks_intros)

lemma mark_asks: "mark_unknown oid reason now eid d = Inr (x, d') \<Longrightarrow> asks d d'"
  by (drule mark_unknown_effect) (auto dest: set_unknown_asks)

lemma detach_asks: "detach_scope sid d = Inr (x, d') \<Longrightarrow> asks d d'"
  by (auto simp: detach_scope_def Let_def store_updates split: if_splits intro: asks_intros)

lemma recover_rows_asks: "recover_rows rows nows fresh d = Inr d' \<Longrightarrow> asks d d'"
  by (induction rows arbitrary: d) (auto split: sum.splits dest!: set_unknown_asks intro: asks_trans)

lemma recover_asks: "recover nows fresh d = Inr (x, d') \<Longrightarrow> asks d d'"
  by (auto simp: recover_def Let_def split: sum.splits dest: recover_rows_asks)

lemma journal_step_asks: "journal_step d d' \<Longrightarrow> asks d d'"
  by (erule journal_step.cases)
    (blast intro: create_asks accept_asks accept_new_asks note_asks cancel_asks dispatch_asks observe_asks settle_asks receipt_asks
      owned_asks observe_owned_asks reconcile_asks mark_asks detach_asks recover_asks)+

lemma reachable_askers: "reachable d \<Longrightarrow> q \<in> set (questions d) \<Longrightarrow> q_source q \<in> askers"
proof -
  have "asks init_db d" if "journal_step\<^sup>*\<^sup>* init_db d" for d
    using that by (induction rule: rtranclp_induct) (auto intro: asks_trans journal_step_asks)
  then show "reachable d \<Longrightarrow> q \<in> set (questions d) \<Longrightarrow> q_source q \<in> askers"
    by (fastforce simp: asks_def asked_by_def init_db_def)
qed

section \<open>References\<close>

definition read_digits :: "pystr \<Rightarrow> nat" where
  "read_digits = foldl (\<lambda>a c. a * 10 + (c - 48)) 0"

lemma read_digits_of: "read_digits (digits_of n) = n"
proof (induction n rule: digits_of.induct)
  case (1 n)
  then show ?case by (cases "n < 10") (simp_all add: digits_of.simps [of n] read_digits_def)
qed

lemma numbered_inj [simp]: "numbered_ref p n = numbered_ref p m \<longleftrightarrow> n = m"
  using read_digits_of by (metis numbered_ref_def int_repr_def nat_int of_nat_less_0_iff same_append_eq)

lemma add_items:
  "let ps = fold add_item xs [] in map (\<lambda>p. ei_ref (fst p)) ps = map (\<lambda>i. numbered_ref ''e'' (Suc i)) [0..<length ps]
     \<and> (\<forall>p\<in>set ps. \<exists>x. (x, snd p) \<in> set xs \<and> fst p = x\<lparr>ei_ref := ei_ref (fst p)\<rparr>)"
proof (induction xs rule: rev_induct)
  case (snoc x xs)
  let ?ps = "fold add_item xs []"
  show ?case
  proof (cases "ei_text (fst x) = [] \<or> 4000 < length (ei_text (fst x))")
    case True
    then have "fold add_item (xs @ [x]) [] = ?ps" by (simp add: add_item_def)
    then show ?thesis using snoc unfolding Let_def by auto
  next
    case False
    then have "fold add_item (xs @ [x]) [] = ?ps @ [((fst x)\<lparr>ei_ref := numbered_ref ''e'' (Suc (length ?ps))\<rparr>, snd x)]"
      by (simp add: add_item_def)
    then show ?thesis using snoc unfolding Let_def by (cases x) auto
  qed
qed simp

lemma length_concat_le: "\<forall>x\<in>set xs. length (f x) \<le> 1 \<Longrightarrow> length (concat (map f xs)) \<le> length xs"
  by (induction xs) auto

lemma offered_length:
  assumes "length (captured_operations snap) \<le> 2"
  shows "length (offered snap flow) \<le> 7"
proof -
  let ?f = "\<lambda>(i, r, p). case p of None \<Rightarrow> [] | Some v \<Rightarrow> [(caller_item snap i r, OfOperation (om_id r) (om_kind r) v)]"
  have "\<forall>x\<in>set (captured_operations snap). length (?f x) \<le> 1" by (auto split: option.split)
  from length_concat_le [OF this] have "length (concat (map ?f (captured_operations snap))) \<le> 2" using assms by linarith
  moreover have "length (case gs_question snap of None \<Rightarrow> [] | Some q \<Rightarrow> [(question_item q, OfQuestion q)]) \<le> 1"
    "length (case gs_backend snap of None \<Rightarrow> [] | Some b \<Rightarrow> [(backend_item snap b, OfBackend b)]) \<le> 1"
    by (simp_all split: option.split)
  ultimately show ?thesis by (simp add: offered_def)
qed

lemma add_items_length: "length (fold add_item xs ps) \<le> length ps + length xs"
proof (induction xs arbitrary: ps)
  case (Cons x xs)
  have "length (add_item x ps) \<le> Suc (length ps)" by (simp add: add_item_def)
  then show ?case using Cons [of "add_item x ps"] by simp
qed simp

definition speakable :: "evidence_item \<times> 'a \<Rightarrow> bool" where
  "speakable p \<longleftrightarrow> ei_text (fst p) \<noteq> [] \<and> length (ei_text (fst p)) \<le> 4000"

lemma add_items_texts: "\<forall>p\<in>set ps. speakable p \<Longrightarrow> \<forall>p\<in>set (fold add_item xs ps). speakable p"
proof (induction xs arbitrary: ps)
  case (Cons x xs)
  have "\<forall>p\<in>set (add_item x ps). speakable p" using Cons.prems by (auto simp: add_item_def speakable_def)
  then show ?case using Cons.IH by simp
qed simp

section \<open>Offer and check agree\<close>

text \<open>The identifiers drawn and the fingerprints computed are not empty.\<close>

definition sound_read :: "(pystr \<Rightarrow> pystr) \<Rightarrow> db \<Rightarrow> bool" where
  "sound_read digest d \<longleftrightarrow> (\<forall>s. digest s \<noteq> []) \<and> (\<forall>e\<in>set (events d). ev_id e \<noteq> []) \<and> (\<forall>q\<in>set (questions d). q_id q \<noteq> [])"

lemma provenance_sound:
  assumes "reachable d" "sound_read digest d" "provenance_of digest tid d r = Some v"
  shows "pv_event v \<noteq> [] \<and> pv_sequence v \<noteq> 0 \<and> pv_fingerprint v \<noteq> [] \<and> pv_version v = op_version r"
proof -
  obtain e p where e: "latest_event tid (op_id r) (lit ''utterance_accepted'') d = Some (e, p)" "ev_version e = op_version r"
      "pv_event v = ev_id e" "pv_sequence v = ev_seq e" "pv_fingerprint v = digest (ev_payload e)" "pv_version v = ev_version e"
    using assms(3) by (auto simp: provenance_of_def split: option.splits prod.splits if_splits)
  have "e \<in> set (events d)" using latest_event_SomeD [OF e(1)] by blast
  moreover then have "ev_seq e \<in> set [1..<Suc (length (events d))]"
    using reachable_events_ok [OF assms(1)] unfolding events_ok_def by (metis image_eqI set_map)
  ultimately show ?thesis using e assms(2) by (auto simp: sound_read_def)
qed

lemma offered_cases:
  assumes "(x, a) \<in> set (offered snap flow)"
  obtains (state) "x = state_item snap" "a = Local"
  | (caller) i r v where "(i, r, Some v) \<in> set (captured_operations snap)" "x = caller_item snap i r" "a = OfOperation (om_id r) (om_kind r) v"
  | (question) q where "gs_question snap = Some q" "x = question_item q" "a = OfQuestion q"
  | (backend) b where "gs_backend snap = Some b" "x = backend_item snap b" "a = OfBackend b"
  | (queue) "context_taken snap flow" "x = queue_item" "a = Local"
  | (contract) "context_taken snap flow" "x = contract_item" "a = Local"
  using assms by (auto simp: offered_def split: option.splits if_splits; metis)

lemma find_captured:
  assumes "(i, r, Some v) \<in> set (captured_operations snap)"
  shows "find (\<lambda>(j, r, p). numbered_ref ''p'' (Suc i) = numbered_ref ''p'' (Suc j) \<and> p \<noteq> None) (captured_operations snap) = Some (i, r, Some v)"
proof -
  have u: "y = (i, r, Some v)" if "y \<in> set (captured_operations snap)" "fst y = i" for y
    using that assms unfolding captured_operations_def in_set_enumerate_eq by (metis prod.collapse fst_conv snd_conv)
  then have "\<exists>y. find (\<lambda>(j, r, p). numbered_ref ''p'' (Suc i) = numbered_ref ''p'' (Suc j) \<and> p \<noteq> None) (captured_operations snap) = Some y"
    using assms by (cases "find (\<lambda>(j, r, p). numbered_ref ''p'' (Suc i) = numbered_ref ''p'' (Suc j) \<and> p \<noteq> None) (captured_operations snap)")
      (force simp: find_None_iff)+
  then obtain y where y: "find (\<lambda>(j, r, p). numbered_ref ''p'' (Suc i) = numbered_ref ''p'' (Suc j) \<and> p \<noteq> None) (captured_operations snap) = Some y" ..
  then show ?thesis using u [of y] find_first [OF y] by (auto split: prod.splits)
qed

lemma expected_offered:
  assumes "reachable d" "sound_read digest d" "grounded_snapshot digest sid tid d = Inr (rq_snapshot rq)"
    and "rq_task rq = hd_id (gs_task (rq_snapshot rq))" "(x, a) \<in> set (offered (rq_snapshot rq) (rq_workflow rq))"
  shows "expected_item (x\<lparr>ei_ref := ref\<rparr>) rq = Some (x, a)"
proof -
  let ?snap = "rq_snapshot rq"
  obtain s t where g: "grounded_task sid tid d = Inr (s, t)" "gs_task ?snap = task_header_of d t" "gs_open_question ?snap = tk_question t"
    and ops: "gs_operations ?snap = map operation_text_of (latest_two tid d)"
    and q: "gs_question ?snap = eligible_question tid t d (row_by q_scope sid (questions d))"
    and b: "gs_backend ?snap = backend_of digest tid d (latest_two tid d)" and pend: "gs_pending ?snap = has_pending tid d"
    using snapshot_InrD [OF assms(3)] by metis
  note T = grounded_taskD [OF g(1)]
  from assms(5) show ?thesis
  proof (cases rule: offered_cases)
    case state
    then show ?thesis by (simp add: expected_item_def state_item_def plain_item_def)
  next
    case (caller i r v)
    obtain row where row: "r = operation_text_of row" "Some v = provenance_of digest tid d row" using captured_operationsD [OF assms(3) caller(1)] by blast
    from provenance_sound [OF assms(1,2) row(2) [symmetric]] row(1) have "pv_event v \<noteq> []" "pv_sequence v \<noteq> 0" "pv_fingerprint v \<noteq> []"
      "pv_version v = om_version r" by (simp_all add: operation_text_of_def)
    then show ?thesis using find_captured [OF caller(1)] unfolding caller(2,3)
      by (simp add: expected_item_def Let_def caller_item_def plain_item_def lit_def expected_caller_def)
  next
    case (question q')
    have e: "row_by q_scope sid (questions d) = Some q'" "q_task q' = tid" "q_version q' = tk_version t" "\<not> has_pending tid d"
        "tk_state t \<notin> set over_states" "Some (q_text q') = tk_question t"
      using question(1) unfolding q by (auto simp: eligible_question_def over_states_def split: option.splits if_splits)
    have in_d: "q' \<in> set (questions d)" using row_by_SomeD [OF e(1)] by blast
    then have "q_source q' \<in> askers" "q_id q' \<noteq> []" using reachable_askers [OF assms(1)] assms(2) by (auto simp: sound_read_def)
    moreover have "\<not> list_ex (\<lambda>r. om_state r = Unsubmitted) (gs_operations ?snap)"
      using e(4) latest_two_in unfolding ops by (fastforce simp: list_ex_iff has_pending_def operation_text_of_def)
    ultimately show ?thesis using e T question(1) unfolding question(2,3)
      by (simp add: expected_item_def Let_def question_item_def plain_item_def lit_def expected_question_def assms(4) g(2,3) pend task_header_of_def
          askers_def)
  next
    case (backend b')
    then have "backend_of digest tid d (latest_two tid d) = Some b'" by (simp add: b)
    then have "latest_two tid d \<noteq> []" "bk_operation b' = op_id (last (latest_two tid d))"
      by (auto simp: backend_of_def split: if_splits option.splits prod.splits pyval.splits)
    then show ?thesis using backend(1) unfolding backend(2,3)
      by (simp add: expected_item_def Let_def backend_item_def plain_item_def lit_def ops last_map operation_text_of_def)
  next
    case queue
    then show ?thesis unfolding queue(2,3) by (simp add: expected_item_def Let_def queue_item_def plain_item_def lit_def context_taken_def assms(4))
  next
    case contract
    then show ?thesis unfolding contract(2,3) by (simp add: expected_item_def Let_def contract_item_def plain_item_def lit_def context_taken_def assms(4))
  qed
qed

lemma filter_out: "k \<notin> f ` set xs \<Longrightarrow> filter (\<lambda>x. f x = k) xs = []"
  by (induction xs) auto

lemma one_of_distinct: "distinct (map f xs) \<Longrightarrow> x \<in> set xs \<Longrightarrow> length (filter (\<lambda>y. f y = f x) xs) = 1"
proof (induction xs)
  case (Cons z xs)
  show ?case
  proof (cases "f z = f x")
    case True
    then have "filter (\<lambda>y. f y = f x) xs = []" using Cons.prems(1) by (intro filter_out) auto
    then show ?thesis using True by simp
  qed (use Cons in auto)
qed simp

lemma plain_parts: "(x, a) \<in> set (offered snap flow) \<Longrightarrow> ei_complete x \<and> ei_task_ref x = lit ''t1''"
  by (erule offered_cases)
    (simp_all add: state_item_def caller_item_def question_item_def backend_item_def queue_item_def contract_item_def plain_item_def)

lemma made_request:
  assumes "reachable d" "sound_read digest d" "grounded_snapshot digest sid tid d = Inr snap"
  shows "\<exists>rq. make_request snap utterance content checkpoint registry focus flow validity generation ids now = Some rq
    \<and> rq_snapshot rq = snap \<and> rq_evidence rq = map fst (fold add_item (offered snap flow) [])
    \<and> length (rq_evidence rq) \<le> 7 \<and> distinct (map ei_ref (rq_evidence rq)) \<and> map fst (rq_references rq) = map ei_ref (rq_evidence rq)
    \<and> (\<forall>e\<in>set (rq_evidence rq). ei_text e \<noteq> [] \<and> length (ei_text e) \<le> 4000 \<and> canonical e rq)"
proof -
  obtain s t where g: "grounded_task sid tid d = Inr (s, t)" "gs_binding snap = s" "gs_task snap = task_header_of d t"
      "gs_operations snap = map operation_text_of (latest_two tid d)"
    using snapshot_InrD [OF assms(3)] by metis
  define ps where "ps = fold add_item (offered snap flow) []"
  have "length (captured_operations snap) \<le> 2" by (simp add: captured_operations_def g(4) latest_two_def)
  then have len: "length ps \<le> 7"
    using offered_length [of snap flow] add_items_length [of "offered snap flow" "[]"] unfolding ps_def by simp
  have refs: "map (\<lambda>p. ei_ref (fst p)) ps = map (\<lambda>i. numbered_ref ''e'' (Suc i)) [0..<length ps]"
    and orig: "\<And>p. p \<in> set ps \<Longrightarrow> \<exists>x. (x, snd p) \<in> set (offered snap flow) \<and> fst p = x\<lparr>ei_ref := ei_ref (fst p)\<rparr>"
    using add_items [of "offered snap flow"] unfolding ps_def Let_def by blast+
  have dist: "distinct (map (\<lambda>p. ei_ref (fst p)) ps)" unfolding refs by (simp add: distinct_map inj_on_def)
  obtain rq where rq: "make_request snap utterance content checkpoint registry focus flow validity generation ids now = Some rq"
      "rq_evidence rq = map fst ps" "rq_references rq = map (\<lambda>p. (ei_ref (fst p), snd p)) ps" "rq_snapshot rq = snap"
      "rq_binding rq = s" "rq_task rq = hd_id (gs_task snap)" "rq_revision rq = gs_revision snap" "rq_workflow rq = flow"
    using len g(2) by (simp add: make_request_def ps_def [symmetric])
  have "canonical (fst p) rq" if p: "p \<in> set ps" for p
  proof -
    obtain x where x: "(x, snd p) \<in> set (offered snap flow)" "fst p = x\<lparr>ei_ref := ei_ref (fst p)\<rparr>" using orig [OF p] by blast
    have "expected_item (fst p) rq = Some (x, snd p)"
      using expected_offered [of d digest sid tid rq x "snd p" "ei_ref (fst p)"] assms x(1) rq by (simp add: x(2) [symmetric])
    moreover have "map_of (rq_references rq) (ei_ref (fst p)) = Some (snd p)"
      unfolding rq(3) using dist p by (intro map_of_is_SomeI) (force simp: comp_def)+
    moreover have "length (filter (\<lambda>x. ei_ref x = ei_ref (fst p)) (rq_evidence rq)) = 1"
      using one_of_distinct [of ei_ref "rq_evidence rq" "fst p"] dist p by (simp add: rq(2) comp_def)
    moreover have "ei_complete (fst p)" "ei_task_ref (fst p) = lit ''t1''"
      using plain_parts [OF x(1)] arg_cong [OF x(2), of ei_complete] arg_cong [OF x(2), of ei_task_ref] by simp_all
    moreover have "sc_id s = sid" using find_first[of "\<lambda>s. sc_id s = sid"] grounded_taskD [OF g(1)] by (auto simp: find_scope_def dest: row_by_SomeD)
    ultimately show ?thesis using x(2) p rq g grounded_taskD [OF g(1)]
      by (auto simp: canonical_def task_header_of_def)
  qed
  then show ?thesis using rq len dist add_items_texts [of "[]" "offered snap flow"]
    by (auto simp: ps_def comp_def speakable_def)
qed

text \<open>C12. What is offered passes the check: for any task of an attached call and whatever the call's focus (identifiers and
  fingerprints drawn are not empty), making the request never fails on the bound of twelve items: it offers at most seven, none of an empty or overlong text, under distinct
  references, and each of them is canonical for the check its selection has to pass.
\<close>

theorem offer_passes_the_check:
  assumes "reachable d" "sound_read digest d" "grounded_snapshot digest sid tid d = Inr snap"
  shows "\<exists>rq. make_request snap utterance content checkpoint registry focus flow validity generation ids now = Some rq
    \<and> length (rq_evidence rq) \<le> 7 \<and> distinct (map ei_ref (rq_evidence rq)) \<and> map fst (rq_references rq) = map ei_ref (rq_evidence rq)
    \<and> (\<forall>e\<in>set (rq_evidence rq). ei_text e \<noteq> [] \<and> length (ei_text e) \<le> 4000 \<and> canonical e rq)"
  using made_request [OF assms, of utterance content checkpoint registry focus flow validity generation ids now] by blast

section \<open>The state can always be said\<close>

lemma dispatch_text_bounds: "dispatch_text snap \<noteq> []" "length (dispatch_text snap) \<le> 600"
  by (simp_all add: dispatch_text_def Let_def lit_def)

lemma add_items_keep: "\<exists>qs. fold add_item xs ps = ps @ qs"
proof (induction xs arbitrary: ps)
  case (Cons x xs)
  have "\<exists>q. add_item x ps = ps @ q" by (simp add: add_item_def)
  then obtain q where "add_item x ps = ps @ q" ..
  then show ?case using Cons [of "add_item x ps"] by auto
qed simp

lemma first_item: "\<exists>qs. fold add_item (offered snap flow) [] = ((state_item snap)\<lparr>ei_ref := lit ''e1''\<rparr>, Local) # qs"
proof -
  have "add_item (state_item snap, Local) [] = [((state_item snap)\<lparr>ei_ref := lit ''e1''\<rparr>, Local)]"
    using dispatch_text_bounds [of snap]
    by (simp add: add_item_def state_item_def plain_item_def numbered_ref_def lit_def int_repr_def digits_of.simps)
  moreover obtain rest where "offered snap flow = (state_item snap, Local) # rest" by (simp add: offered_def)
  ultimately show ?thesis using add_items_keep [of rest "[((state_item snap)\<lparr>ei_ref := lit ''e1''\<rparr>, Local)]"] by simp
qed

definition state_plan :: grounded_plan where
  "state_plan = \<lparr>gp_outcome = lit ''answer'', gp_form = lit ''state'', gp_evidence = [lit ''e1''], gp_gap = lit ''none''\<rparr>"

lemma state_is_rendered:
  assumes "reachable d" "sound_read digest d" "grounded_snapshot digest sid tid d = Inr snap"
    and "make_request snap utterance content checkpoint registry focus flow validity generation ids now = Some rq"
  shows "render_plan state_plan rq = Some (dispatch_text snap) \<and> rq_snapshot rq = snap"
proof -
  have rq: "rq_snapshot rq = snap" "rq_evidence rq = map fst (fold add_item (offered snap flow) [])" "distinct (map ei_ref (rq_evidence rq))"
      "map fst (rq_references rq) = map ei_ref (rq_evidence rq)" "\<forall>e\<in>set (rq_evidence rq). canonical e rq"
    using made_request [OF assms(1-3), of utterance content checkpoint registry focus flow validity generation ids now] assms(4) by auto
  let ?x = "(state_item snap)\<lparr>ei_ref := lit ''e1''\<rparr>"
  obtain es where es: "rq_evidence rq = ?x # es" using first_item [of snap flow] rq(2) by auto
  have "filter (\<lambda>e. ei_ref e = lit ''e1'') es = []" using rq(3) unfolding es by (intro filter_out) auto
  then have sel: "selected state_plan rq = [?x]" by (simp add: selected_def state_plan_def es)
  have can: "canonical ?x rq" using rq(5) es by simp
  have "lit ''e1'' \<in> set (map fst (rq_references rq))" unfolding rq(4) es by simp
  then have "structure_ok state_plan rq" by (simp add: structure_ok_def state_plan_def plan_outcomes_def plan_forms_def lit_def)
  moreover have "supports_form state_plan rq"
    unfolding supports_form_def sel Let_def using can by (simp add: state_plan_def state_item_def plain_item_def)
  ultimately have "validate_plan state_plan rq = Valid" by (simp add: validate_plan_def)
  moreover have "segments state_plan rq = [dispatch_text snap]" by (simp add: segments_def state_plan_def rq(1) Let_def)
  ultimately show ?thesis using dispatch_text_bounds [of snap] rq(1) by (simp add: render_plan_def state_plan_def Let_def)
qed

text \<open>The state of a task can always be said: over every request made from a journal, the plan that selects the first
  reference as the state of the task is valid and is spoken as the sentence for that state.
\<close>

theorem state_can_be_said:
  assumes "reachable d" "sound_read digest d" "grounded_snapshot digest sid tid d = Inr snap"
    and "make_request snap utterance content checkpoint registry focus flow validity generation ids now = Some rq"
  shows "render_plan state_plan rq = Some (dispatch_text snap)"
  using state_is_rendered [OF assms] by blast

section \<open>At the demonstration journal\<close>

definition demo_fingerprint :: "pystr \<Rightarrow> pystr" where "demo_fingerprint s = 35 # s"

lemma demo_sound: "sound_read demo_fingerprint demo_db1"
  by (simp add: sound_read_def demo_fingerprint_def demo_simps)

lemma demo_evidence: "\<exists>snap. grounded_snapshot demo_fingerprint [115] [116] demo_db1 = Inr snap"
proof -
  obtain rv where "grounded_revision [115] [116] demo_db1 = Inr rv" using demo_revisions(2) by blast
  then obtain x where "grounded_task [115] [116] demo_db1 = Inr x" by (auto simp: grounded_revision_def split: sum.splits)
  then show ?thesis by (cases x) (simp add: grounded_snapshot_def Let_def)
qed

theorem offer_passes_the_check_witness:
  "\<exists>snap rq. make_request snap [117] [113] demo_checkpoint [] [] [] () 0 ([114], [106]) 0 = Some rq
     \<and> grounded_snapshot demo_fingerprint [115] [116] demo_db1 = Inr snap \<and> length (rq_evidence rq) \<le> 7"
proof -
  obtain snap where s: "grounded_snapshot demo_fingerprint [115] [116] demo_db1 = Inr snap" using demo_evidence by blast
  from offer_passes_the_check [OF demo_reachable(1) demo_sound s, of "[117]" "[113]" demo_checkpoint "[]" "[]" "[]" "()" 0 "([114], [106])" 0] s
  show ?thesis by blast
qed

lemma demo_offer:
  obtains snap rq where "grounded_snapshot demo_fingerprint [115] [116] demo_db1 = Inr snap"
    "make_request snap [117] [113] demo_checkpoint [] [] [] () 0 ([114], [106]) 0 = Some rq"
  using demo_evidence made_request [OF demo_reachable(1) demo_sound] by metis

theorem state_can_be_said_witness: "\<exists>snap rq. render_plan state_plan (rq :: unit grounded_request) = Some (dispatch_text snap)
    \<and> grounded_snapshot demo_fingerprint [115] [116] demo_db1 = Inr snap"
proof -
  obtain snap rq where "grounded_snapshot demo_fingerprint [115] [116] demo_db1 = Inr snap"
    "make_request snap [117] [113] demo_checkpoint [] [] [] () 0 ([114], [106]) 0 = Some rq" by (rule demo_offer)
  with state_can_be_said [OF demo_reachable(1) demo_sound this] show ?thesis by blast
qed

theorem reply_is_evidenced_witness: "\<exists>snap rq. grounded_snapshot demo_fingerprint [115] [116] demo_db1 = Inr (rq_snapshot rq)
    \<and> render_plan state_plan (rq :: unit grounded_request) = Some (dispatch_text snap) \<and> rq_snapshot rq = snap
    \<and> (dispatch_text snap = fallback_text \<or> dispatch_text snap \<in> set (map snd gap_texts) \<or> length (dispatch_text snap) \<le> 600)"
proof -
  obtain snap rq where m: "grounded_snapshot demo_fingerprint [115] [116] demo_db1 = Inr snap"
    "make_request snap [117] [113] demo_checkpoint [] [] [] () 0 ([114], [106]) 0 = Some (rq :: unit grounded_request)" by (rule demo_offer)
  from state_is_rendered [OF demo_reachable(1) demo_sound m] have r: "render_plan state_plan rq = Some (dispatch_text snap)" "rq_snapshot rq = snap"
    by blast+
  from reply_is_evidenced [of demo_fingerprint "[115]" "[116]" demo_db1 rq state_plan "dispatch_text snap"] m(1) r show ?thesis by auto
qed

end
