(* ===== verification/GroundedJobs.thy ===== *)
theory GroundedJobs
  imports GroundedOffer
begin

text \<open>
  The life of a grounded answer in \<open>voice/native-bridge/task_coordinator.py\<close>: scheduling (\<open>_schedule_grounded\<close>), its
  closure \<open>valid\<close>, withdrawal (\<open>invalidate_grounded\<close>), what is published when the planner returns (\<open>_answer_grounded\<close>) and
  the register of jobs of \<open>GroundedAnswers\<close>. The planner's admission and its slot are not modelled: what comes of it is an
  argument. \<open>current\<close> says which output validities hold.
\<close>

section \<open>Data\<close>

record 'v grounded_job =
  gj_request :: "'v grounded_request"
  gj_active :: bool

record grounded_result =
  gr_request :: pystr
  gr_job :: pystr
  gr_refs :: "pystr list"
  gr_form :: pystr
  gr_outcome :: pystr
  gr_gap :: pystr
  gr_disposition :: pystr
  gr_revision :: pystr
  gr_elapsed :: rat

text \<open>
  The conversation with its grounded answer: \<open>_grounded\<close>, the job whose coroutine is \<open>_grounded_task\<close>, the last result, the
  emitter's generation and the withdrawals asked of it, and the planner's jobs; \<open>an_guarded\<close> says whether planner and
  emitter offer what a grounded answer needs.
\<close>

record 'v answering =
  an_cv :: "'v conversation"
  an_job :: "'v grounded_job option"
  an_task :: "pystr option"
  an_result :: "grounded_result option"
  an_generation :: int
  an_withdrawn :: "pystr list"
  an_guarded :: bool
  an_jobs :: "pystr list"
  an_closing :: bool

abbreviation an_db :: "'v answering \<Rightarrow> db" where "an_db a \<equiv> cv_db (an_cv a)"

text \<open>How the wait for the planner ends.\<close>

datatype planned =
    NotAsked  \<comment> \<open>no longer valid before the planner was asked\<close>
  | TimedOut
  | Returned grounded_plan
  | Cancelled
  | OverBudget
  | Invalid  \<comment> \<open>a \<open>ValueError\<close> and its like\<close>
  | Unavailable

section \<open>Withdrawal\<close>

definition invalidate_job :: "'v answering \<Rightarrow> 'v answering" where
  "invalidate_job a = (case an_job a of
     None \<Rightarrow> a
   | Some j \<Rightarrow> a\<lparr>an_job := None, an_withdrawn := an_withdrawn a @ [rq_job (gj_request j)]\<rparr>)"

definition deactivate :: "pystr list \<Rightarrow> 'v grounded_job \<Rightarrow> 'v grounded_job" where
  "deactivate ids j = (if rq_job (gj_request j) \<in> set ids then j\<lparr>gj_active := False\<rparr> else j)"

text \<open>The beginning of \<open>GroundedAnswers.shutdown\<close>.\<close>

definition close_answers :: "'v answering \<Rightarrow> 'v answering" where
  "close_answers a = a\<lparr>an_closing := True, an_job := map_option (deactivate (an_jobs a)) (an_job a)\<rparr>"

text \<open>\<open>None\<close> is the \<open>ValueError\<close> of a planner that is closing.\<close>

definition bind_job :: "pystr \<Rightarrow> 'v answering \<Rightarrow> 'v answering option" where
  "bind_job jid a = (if an_closing a then None
     else Some (a\<lparr>an_jobs := (if jid \<in> set (an_jobs a) then an_jobs a else an_jobs a @ [jid])\<rparr>))"

definition release_job :: "pystr \<Rightarrow> 'v answering \<Rightarrow> 'v answering" where
  "release_job jid a = a\<lparr>an_jobs := filter (\<lambda>j. j \<noteq> jid) (an_jobs a)\<rparr>"

section \<open>Scheduling\<close>

text \<open>The outcome is an error, or the request whose coroutine was started, if any. \<open>before\<close> and \<open>after\<close> are what the output
  validity says before and after the journal was read.\<close>

definition schedule_grounded ::
  "(pystr \<Rightarrow> pystr) \<Rightarrow> ('v \<Rightarrow> bool) \<Rightarrow> ('v \<Rightarrow> bool) \<Rightarrow> captured \<Rightarrow> route \<Rightarrow> 'v option \<Rightarrow> pystr \<times> pystr \<Rightarrow> rat \<Rightarrow> 'v answering
     \<Rightarrow> (accept_error + 'v grounded_request option) \<times> 'v answering" where
  "schedule_grounded digest before after ca r validity ids now a =
     (if \<not> an_guarded a then (Inl (Store (StoreDenied ''grounded answers require native origin and guarded output'')), a)
      else case validity of
        None \<Rightarrow> (Inl (Store (StoreDenied ''grounded answers require native origin and guarded output'')), a)
      | Some v \<Rightarrow>
          if \<not> before v \<or> \<not> authority_holds ca r (an_cv a) then (Inr None, a)
          else (case grounded_snapshot digest (cv_sid (an_cv a)) (rt_task r) (an_db a) of
              Inl e \<Rightarrow> (Inl (Store e), a)
            | Inr snap \<Rightarrow>
                (case make_request snap (ca_utterance ca) (ca_text ca) (ca_checkpoint ca) (rc_agents (ca_context ca))
                        (cv_focus (an_cv a)) (at_context (cv_at (an_cv a))) v (an_generation a) ids now of
                   None \<Rightarrow> (Inl Crash, a)
                 | Some rq \<Rightarrow>
                     if \<not> after v \<or> \<not> authority_holds ca r (an_cv a) then (Inr None, a)
                     else let a1 = a\<lparr>an_job := Some \<lparr>gj_request = rq, gj_active = True\<rparr>\<rparr> in
                       (case bind_job (rq_job rq) a1 of
                          None \<Rightarrow> (Inl Crash, a1)
                        | Some a2 \<Rightarrow> (Inr (Some rq), a2\<lparr>an_task := Some (rq_job rq)\<rparr>)))))"

text \<open>The closure \<open>valid\<close> of a request; its contract version and hash are the constants they are compared with.\<close>

definition still_valid :: "('v \<Rightarrow> bool) \<Rightarrow> captured \<Rightarrow> route \<Rightarrow> 'v grounded_request \<Rightarrow> 'v answering \<Rightarrow> bool" where
  "still_valid current ca r rq a \<longleftrightarrow>
     (case an_job a of None \<Rightarrow> False | Some j \<Rightarrow> rq_job (gj_request j) = rq_job rq \<and> gj_active j)
     \<and> authority_holds ca r (an_cv a) \<and> current (rq_validity rq) \<and> rq_generation rq = an_generation a
     \<and> grounded_revision (cv_sid (an_cv a)) (rt_task r) (an_db a) = Inr (rq_revision rq)"

section \<open>The planner's answer\<close>

text \<open>The plan kept, the disposition and the reply.\<close>

definition answer_of :: "planned \<Rightarrow> 'v grounded_request \<Rightarrow> grounded_plan option \<times> pystr \<times> pystr" where
  "answer_of planned rq = (case planned of
     Returned pl \<Rightarrow>
       (case (validate_plan pl rq, render_plan pl rq) of
          (Valid, Some reply) \<Rightarrow>
            (Some pl, if gp_outcome pl \<noteq> lit ''answer'' then gp_outcome pl
                      else if reply = fallback_text then lit ''insufficient'' else lit ''published'', reply)
        | _ \<Rightarrow> (None, lit ''invalid'', fallback_text))
   | Cancelled \<Rightarrow> (None, lit ''stale'', fallback_text)
   | OverBudget \<Rightarrow> (None, lit ''budget'', fallback_text)
   | Invalid \<Rightarrow> (None, lit ''invalid'', fallback_text)
   | _ \<Rightarrow> (None, lit ''unavailable'', fallback_text))"

definition result_record ::
  "(evidence_revision \<Rightarrow> pystr) \<Rightarrow> bool \<Rightarrow> rat \<Rightarrow> planned \<Rightarrow> 'v grounded_request \<Rightarrow> grounded_result" where
  "result_record seal valid elapsed planned rq = (case answer_of planned rq of (kept, disposition, reply) \<Rightarrow>
     \<lparr>gr_request = rq_request rq, gr_job = rq_job rq,
      gr_refs = (case kept of Some pl \<Rightarrow> gp_evidence pl | None \<Rightarrow> []),
      gr_form = (case kept of Some pl \<Rightarrow> gp_form pl | None \<Rightarrow> lit ''none''),
      gr_outcome = (case kept of Some pl \<Rightarrow> gp_outcome pl | None \<Rightarrow> lit ''insufficient''),
      gr_gap = (case kept of Some pl \<Rightarrow> gp_gap pl | None \<Rightarrow> lit ''missing_record''),
      gr_disposition = (if valid then disposition else lit ''stale''), gr_revision = seal (rq_revision rq), gr_elapsed = elapsed\<rparr>)"

definition grounded_event :: "'v grounded_request \<Rightarrow> pystr \<Rightarrow> 'v out_event" where
  "grounded_event rq reply = \<lparr>oe_kind = local_kind, oe_task = rq_task rq, oe_operation = [], oe_utterance = rq_utterance rq,
     oe_version = hd_version (gs_task (rq_snapshot rq)), oe_text = reply, oe_priority = 20,
     oe_input = None, oe_checkpoint = None, oe_authority = None\<rparr>"

text \<open>
  From the end of the wait to the publication, without another suspension: the event handed to \<open>publish_guarded\<close>, if
  any. A request is past its deadline at \<open>now\<close>; the answer was started at \<open>started\<close>.
\<close>

definition finish_answer ::
  "(evidence_revision \<Rightarrow> pystr) \<Rightarrow> ('v \<Rightarrow> bool) \<Rightarrow> captured \<Rightarrow> route \<Rightarrow> 'v grounded_request \<Rightarrow> planned \<Rightarrow> rat \<Rightarrow> rat \<Rightarrow> 'v answering
     \<Rightarrow> 'v out_event option \<times> 'v answering" where
  "finish_answer seal current ca r rq planned started now a =
     (let a1 = release_job (rq_job rq) a; valid = still_valid current ca r rq a;
          a2 = (if an_task a1 = Some (rq_job rq)
                then a1\<lparr>an_result := Some (result_record seal valid ((now - started) * 1000) planned rq), an_task := None\<rparr> else a1) in
      if planned \<in> {NotAsked, Cancelled} \<or> \<not> valid \<or> rq_deadline rq < now then (None, a2)
      else (Some (grounded_event rq (snd (snd (answer_of planned rq)))), a2))"

text \<open>After \<open>publish_guarded\<close>.\<close>

definition after_publication :: "bool \<Rightarrow> 'v grounded_request \<Rightarrow> 'v answering \<Rightarrow> 'v answering" where
  "after_publication accepted rq a = (case an_result a of
     Some res \<Rightarrow> if \<not> accepted \<and> gr_job res = rq_job rq then a\<lparr>an_result := Some (res\<lparr>gr_disposition := lit ''stale''\<rparr>)\<rparr> else a
   | None \<Rightarrow> a)"

section \<open>What is published\<close>

lemma schedule_InrD:
  assumes "schedule_grounded digest before after ca r validity ids now a = (Inr (Some rq), a')"
  shows "\<exists>v. validity = Some v \<and> before v \<and> after v \<and> authority_holds ca r (an_cv a)
    \<and> grounded_snapshot digest (cv_sid (an_cv a)) (rt_task r) (an_db a) = Inr (rq_snapshot rq)
    \<and> rq_revision rq = gs_revision (rq_snapshot rq) \<and> rq_task rq = hd_id (gs_task (rq_snapshot rq)) \<and> rq_job rq = snd ids \<and> an_cv a' = an_cv a \<and> rq_validity rq = v
    \<and> an_job a' = Some \<lparr>gj_request = rq, gj_active = True\<rparr>"
  using assms
  by (auto simp: schedule_grounded_def make_request_def bind_job_def Let_def split: if_splits option.splits sum.splits)

lemma answer_of_evidenced:
  assumes "grounded_snapshot digest sid tid d = Inr (rq_snapshot rq)"
  shows "\<exists>stated. evidenced_reply sid tid d (rq_snapshot rq) stated (snd (snd (answer_of planned rq)))"
proof -
  have "evidenced_reply sid tid d (rq_snapshot rq) True fallback_text" by (simp add: evidenced_reply_def)
  then show ?thesis
    using rendered_is_evidenced [OF assms] by (cases planned) (auto simp: answer_of_def split: plan_verdict.split option.split)
qed

lemma revision_of_snapshot:
  assumes "grounded_snapshot digest sid tid d = Inr snap"
  shows "grounded_revision sid tid d = Inr (gs_revision snap)"
proof -
  obtain s t where "grounded_task sid tid d = Inr (s, t)" "gs_revision snap = revision_of s sid tid d" using snapshot_InrD [OF assms] by metis
  then show ?thesis by (simp add: grounded_revision_def)
qed

lemma finish_SomeD:
  assumes "finish_answer seal current ca r rq planned started now a = (Some event, a')"
  shows "still_valid current ca r rq a \<and> now \<le> rq_deadline rq \<and> event = grounded_event rq (snd (snd (answer_of planned rq)))"
  using assms by (auto simp: finish_answer_def Let_def split: if_splits)

text \<open>C9. A published answer is true when it is published: whatever happened in the call and in the journal while the planner
  was thinking, an answer handed to the output says the evidence of the journal as it is then: reading it again would give
  the evidence it was made from, and its text is a fixed sentence or quotes the journal of that moment. The authority of
  the utterance, its output validity and the deadline hold, and it is about the task asked about.
\<close>

theorem published_answer_is_current:
  assumes "reachable (an_db a)" "schedule_grounded digest before after ca r validity ids drawn a = (Inr (Some rq), a1)"
    and "conversing\<^sup>*\<^sup>* (an_cv a1) (an_cv a2)" "finish_answer seal current ca r rq planned started now a2 = (Some event, a3)"
  shows "grounded_snapshot digest (cv_sid (an_cv a2)) (rt_task r) (an_db a2) = Inr (rq_snapshot rq)
    \<and> (\<exists>stated. evidenced_reply (cv_sid (an_cv a2)) (rt_task r) (an_db a2) (rq_snapshot rq) stated (oe_text event))
    \<and> authority_holds ca r (an_cv a2) \<and> current (rq_validity rq) \<and> now \<le> rq_deadline rq \<and> oe_task event = rt_task r"
proof -
  have s: "grounded_snapshot digest (cv_sid (an_cv a)) (rt_task r) (an_db a) = Inr (rq_snapshot rq)"
      "rq_revision rq = gs_revision (rq_snapshot rq)" "an_cv a1 = an_cv a" and t: "rq_task rq = hd_id (gs_task (rq_snapshot rq))"
    using schedule_InrD [OF assms(2)] by blast+
  have steps: "journal_step\<^sup>*\<^sup>* (an_db a) (an_db a2)" "cv_sid (an_cv a2) = cv_sid (an_cv a)"
    using conversing_steps [OF assms(3)] s(3) by simp_all
  have f: "still_valid current ca r rq a2" "now \<le> rq_deadline rq" "event = grounded_event rq (snd (snd (answer_of planned rq)))"
    using finish_SomeD [OF assms(4)] by blast+
  then have rv: "grounded_revision (cv_sid (an_cv a)) (rt_task r) (an_db a2) = Inr (rq_revision rq)"
    by (simp add: still_valid_def steps(2))
  have snap: "grounded_snapshot digest (cv_sid (an_cv a2)) (rt_task r) (an_db a2) = Inr (rq_snapshot rq)"
    using same_revision_same_snapshot [OF assms(1) steps(1) revision_of_snapshot [OF s(1)] rv [unfolded s(2)], of digest] s(1) steps(2) by simp
  have "rq_task rq = rt_task r"
  proof -
    obtain sc tk where "grounded_task (cv_sid (an_cv a)) (rt_task r) (an_db a) = Inr (sc, tk)" "gs_task (rq_snapshot rq) = task_header_of (an_db a) tk"
      using snapshot_InrD [OF s(1)] by metis
    then show ?thesis using grounded_taskD by (simp add: t task_header_of_def)
  qed
  then show ?thesis using snap answer_of_evidenced [OF snap, of planned] f by (simp add: grounded_event_def still_valid_def)
qed

section \<open>Withdrawn answers\<close>

text \<open>What can happen to the conversation beside the answer with job \<open>job\<close>, whose identifier is not drawn again.\<close>

inductive answering_moves :: "pystr \<Rightarrow> 'v answering \<Rightarrow> 'v answering \<Rightarrow> bool" for job where
  move_schedule: "snd ids \<noteq> job \<Longrightarrow> schedule_grounded digest before after ca r validity ids drawn a = (x, a') \<Longrightarrow> answering_moves job a a'"
| move_invalidate: "answering_moves job a (invalidate_job a)"
| move_close: "answering_moves job a (close_answers a)"
| move_finish: "finish_answer seal current ca r rq planned started now a = (y, a') \<Longrightarrow> answering_moves job a a'"
| move_published: "answering_moves job a (after_publication accepted rq a)"
| move_conversation: "conversing (an_cv a) c \<Longrightarrow> answering_moves job a (a\<lparr>an_cv := c\<rparr>)"
| move_generation: "answering_moves job a (a\<lparr>an_generation := n\<rparr>)"

definition withdrawn :: "pystr \<Rightarrow> 'v answering \<Rightarrow> bool" where
  "withdrawn job a \<longleftrightarrow> job \<in> set (an_withdrawn a) \<and> (\<forall>j. an_job a = Some j \<longrightarrow> rq_job (gj_request j) \<noteq> job)"

lemma schedule_withdrawn:
  assumes "schedule_grounded digest before after ca r validity ids drawn a = (x, a')" "snd ids \<noteq> job" "withdrawn job a"
  shows "withdrawn job a'"
  using assms
  by (auto simp: withdrawn_def schedule_grounded_def make_request_def bind_job_def Let_def split: if_splits option.splits sum.splits)

lemma answering_moves_withdrawn: "answering_moves job a a' \<Longrightarrow> withdrawn job a \<Longrightarrow> withdrawn job a'"
proof (induction rule: answering_moves.induct)
  case move_schedule
  then show ?case by (blast intro: schedule_withdrawn)
next
  case (move_close a)
  then show ?case by (cases "an_job a") (auto simp: withdrawn_def close_answers_def deactivate_def)
qed (auto simp: withdrawn_def invalidate_job_def finish_answer_def release_job_def after_publication_def Let_def
    split: option.splits if_splits)

text \<open>C11. A withdrawn answer is never spoken: once the conversation has withdrawn the job it was waiting for (a new input, changed
  evidence, a detachment), the emitter has been told, and whatever happens afterwards nothing the planner returns for that
  job is published, although its coroutine runs on.
\<close>

theorem withdrawn_answer_is_silent:
  assumes "an_job a = Some j" "(answering_moves (rq_job (gj_request j)))\<^sup>*\<^sup>* (invalidate_job a) a'"
  shows "fst (finish_answer seal current ca r (gj_request j) planned started now a') = None
    \<and> rq_job (gj_request j) \<in> set (an_withdrawn a')"
proof -
  have "withdrawn (rq_job (gj_request j)) a'"
    using assms(2)
  proof (induction rule: rtranclp_induct)
    case base
    then show ?case using assms(1) by (simp add: withdrawn_def invalidate_job_def)
  qed (rule answering_moves_withdrawn)
  then show ?thesis by (auto simp: withdrawn_def finish_answer_def Let_def still_valid_def split: option.splits)
qed

section \<open>At the demonstration journal\<close>

definition demo_inquiry :: captured where
  "demo_inquiry = demo_captured\<lparr>ca_utterance := [120], ca_tasks := [(demo_task, None)]\<rparr>"

definition demo_route :: route where
  "demo_route = \<lparr>rt_intent = lit ''grounded_answer'', rt_task = [116], rt_alias = [], rt_reply = []\<rparr>"

definition demo_idle :: "nat answering" where
  "demo_idle = \<lparr>an_cv = with_db demo_db1 demo_conversation, an_job = None, an_task = None, an_result = None, an_generation = 0,
     an_withdrawn = [], an_guarded = True, an_jobs = [], an_closing = False\<rparr>"

lemma demo_idle_simps: "cv_sid (an_cv demo_idle) = [115]" "an_db demo_idle = demo_db1" "cv_focus (an_cv demo_idle) = []"
  "at_context (cv_at (an_cv demo_idle)) = []" "an_generation demo_idle = 0" "an_guarded demo_idle" "\<not> an_closing demo_idle" "an_jobs demo_idle = []"
  by (simp_all add: demo_idle_def demo_conversation_def new_conversation_def with_db_def demo_scope_def)

lemma demo_inquiry_holds: "authority_holds demo_inquiry demo_route (with_db d demo_conversation)"
  by (simp add: authority_holds_def binding_holds_def demo_inquiry_def demo_route_def demo_captured_def demo_conversation_def with_db_def
      new_conversation_def demo_task_def demo_agent_def work_intents_def lit_def same_agent_def)

lemma demo_schedule: "\<exists>rq a1. schedule_grounded demo_fingerprint (\<lambda>_. True) (\<lambda>_. True) demo_inquiry demo_route (Some 0) ([114], [106]) 0 demo_idle
    = (Inr (Some rq), a1) \<and> a1 = demo_idle\<lparr>an_job := Some \<lparr>gj_request = rq, gj_active = True\<rparr>, an_jobs := [[106]], an_task := Some [106]\<rparr>
    \<and> rq_job rq = [106] \<and> rq_generation rq = 0 \<and> rq_deadline rq = 22 / 10 \<and> render_plan state_plan rq \<noteq> None"
proof -
  obtain snap where s: "grounded_snapshot demo_fingerprint [115] [116] demo_db1 = Inr snap" using demo_evidence by blast
  obtain rq where rq: "make_request snap (ca_utterance demo_inquiry) (ca_text demo_inquiry) (ca_checkpoint demo_inquiry)
      (rc_agents (ca_context demo_inquiry)) [] [] (0::nat) 0 ([114], [106]) 0 = Some rq"
    using made_request [OF demo_reachable(1) demo_sound s] by metis
  have parts: "rq_job rq = [106]" "rq_generation rq = 0" "rq_deadline rq = 22 / 10"
    using rq by (auto simp: make_request_def Let_def split: if_splits)
  have "authority_holds demo_inquiry demo_route (an_cv demo_idle)" using demo_inquiry_holds by (simp add: demo_idle_def)
  then have "schedule_grounded demo_fingerprint (\<lambda>_. True) (\<lambda>_. True) demo_inquiry demo_route (Some 0) ([114], [106]) 0 demo_idle
      = (Inr (Some rq), demo_idle\<lparr>an_job := Some \<lparr>gj_request = rq, gj_active = True\<rparr>, an_jobs := [[106]], an_task := Some [106]\<rparr>)"
    using s rq by (simp add: schedule_grounded_def demo_idle_simps demo_route_def bind_job_def parts)
  then show ?thesis using parts state_is_rendered [OF demo_reachable(1) demo_sound s rq] by blast
qed

theorem withdrawn_answer_is_silent_witness: "\<exists>a j. an_job (a :: nat answering) = Some j
    \<and> fst (finish_answer (\<lambda>_. []) (\<lambda>_. True) demo_inquiry demo_route (gj_request j) TimedOut 0 0 (invalidate_job a)) = None"
proof -
  obtain rq a1 where a1: "a1 = demo_idle\<lparr>an_job := Some \<lparr>gj_request = rq, gj_active = True\<rparr>, an_jobs := [[106]], an_task := Some [106]\<rparr>"
    using demo_schedule by blast
  then have "an_job a1 = Some \<lparr>gj_request = rq, gj_active = True\<rparr>" by simp
  from this withdrawn_answer_is_silent [OF this rtranclp.rtrancl_refl] show ?thesis by blast
qed

theorem published_answer_is_current_witness:
  "\<exists>rq event a2 a3. finish_answer (\<lambda>_. []) (\<lambda>_. True) demo_inquiry demo_route rq (Returned state_plan) 0 1 (a2 :: nat answering) = (Some event, a3)
     \<and> an_db a2 = demo_busy \<and> grounded_snapshot demo_fingerprint [115] [116] demo_busy = Inr (rq_snapshot rq)"
proof -
  obtain rq a1 where sch: "schedule_grounded demo_fingerprint (\<lambda>_. True) (\<lambda>_. True) demo_inquiry demo_route (Some 0) ([114], [106]) 0 demo_idle = (Inr (Some rq), a1)"
    and a1: "a1 = demo_idle\<lparr>an_job := Some \<lparr>gj_request = rq, gj_active = True\<rparr>, an_jobs := [[106]], an_task := Some [106]\<rparr>"
    and rq: "rq_job rq = [106]" "rq_generation rq = 0" "rq_deadline rq = 22 / 10"
    using demo_schedule by blast
  define a2 where "a2 = a1\<lparr>an_cv := with_db demo_busy (an_cv a1)\<rparr>"
  have "journal_step (cv_db (an_cv a1)) demo_busy" using step_create [OF demo_busy_step] by (simp add: a1 demo_idle_simps)
  then have c: "conversing\<^sup>*\<^sup>* (an_cv a1) (an_cv a2)" using conv_journal by (fastforce simp: a2_def)
  have "grounded_revision [115] [116] demo_busy = Inr (rq_revision rq)"
    using schedule_InrD [OF sch] revision_of_snapshot [of demo_fingerprint "[115]" "[116]" demo_db1 "rq_snapshot rq"] demo_revisions(1) by (simp add: demo_idle_simps demo_route_def)
  then have "still_valid (\<lambda>_. True) demo_inquiry demo_route rq a2"
    using demo_inquiry_holds [of demo_busy] rq
    by (simp add: still_valid_def a2_def a1 demo_idle_def demo_route_def) (simp add: with_db_def demo_conversation_def new_conversation_def demo_scope_def)
  then obtain event a3 where f: "finish_answer (\<lambda>_. []) (\<lambda>_. True) demo_inquiry demo_route rq (Returned state_plan) 0 1 a2 = (Some event, a3)"
    using rq by (fastforce simp: finish_answer_def Let_def)
  have "an_db a2 = demo_busy" "cv_sid (an_cv a2) = [115]" using demo_idle_simps(1) by (simp_all add: a2_def a1)
  with published_answer_is_current [OF _ sch c f] demo_reachable(1) show ?thesis using f by (auto simp: demo_idle_simps demo_route_def)
qed

end
