(* ===== verification/Machines.thy ===== *)
theory Machines
  imports Main
begin

text \<open>
  Interfaces the components share. A component is driven by calls; \<open>step c s\<close> is the state after the call \<open>c\<close> and
  \<open>fold step cs s\<close> the state after a history. A locale states what one call promises, its lemmas say what a history
  then has, and every component interprets the locale on its own operations.
\<close>

section \<open>Components with an invariant\<close>

locale component =
  fixes step :: "'c \<Rightarrow> 's \<Rightarrow> 's" and inv :: "'s \<Rightarrow> bool"
  assumes step_inv: "inv s \<Longrightarrow> inv (step c s)"
begin

lemma run_inv: "inv s \<Longrightarrow> inv (fold step cs s)"
  by (induction cs arbitrary: s) (simp_all add: step_inv)

end

section \<open>Components that only move forward\<close>

text \<open>\<open>later s s'\<close> says that \<open>s'\<close> can come after \<open>s\<close>: an epoch has not gone back, a log has only grown.\<close>

locale progressing = component +
  fixes later :: "'b \<Rightarrow> 'b \<Rightarrow> bool"
  assumes later_refl: "later s s"
    and later_trans: "later s t \<Longrightarrow> later t u \<Longrightarrow> later s u"
    and step_later: "inv s \<Longrightarrow> later s (step c s)"
begin

lemma run_later: "inv s \<Longrightarrow> later s (fold step cs s)"
proof (induction cs arbitrary: s)
  case (Cons c cs)
  then show ?case using step_inv step_later later_trans by simp blast
qed (simp add: later_refl)

lemma run_later_prefix: "inv s \<Longrightarrow> later (fold step cs s) (fold step (cs @ ds) s)"
  by (simp add: run_later run_inv)

end

section \<open>Components that stop for good\<close>

text \<open>A stopped component stays stopped, and what \<open>view\<close> shows of it no longer changes.\<close>

locale stopping = component +
  fixes stopped :: "'b \<Rightarrow> bool" and view :: "'b \<Rightarrow> 'v"
  assumes step_stopped: "inv s \<Longrightarrow> stopped s \<Longrightarrow> stopped (step c s)"
    and step_view: "inv s \<Longrightarrow> stopped s \<Longrightarrow> view (step c s) = view s"
begin

lemma run_stopped: "inv s \<Longrightarrow> stopped s \<Longrightarrow> stopped (fold step cs s) \<and> view (fold step cs s) = view s"
proof (induction cs arbitrary: s)
  case (Cons c cs)
  have "inv (step c s)" "stopped (step c s)" "view (step c s) = view s"
    using Cons.prems by (auto intro: step_inv step_stopped step_view)
  then show ?case using Cons.IH[of "step c s"] by simp
qed simp

end

section \<open>Buffers fenced by an epoch\<close>

text \<open>Whoever fills the buffer names the epoch it took earlier; cutting the buffer starts a new epoch, and what names
  another epoch than the current one is refused.\<close>

locale fenced =
  fixes step :: "'c \<Rightarrow> 's \<Rightarrow> 's" and epoch :: "'s \<Rightarrow> nat" and cut :: "'s \<Rightarrow> 's"
    and put :: "'x \<Rightarrow> nat \<Rightarrow> 's \<Rightarrow> bool \<times> 's"
  assumes step_epoch: "epoch s \<le> epoch (step c s)"
    and cut_epoch: "epoch s < epoch (cut s)"
    and put_refused: "n < epoch s \<Longrightarrow> put x n s = (False, s)"

sublocale fenced \<subseteq> progressing step "\<lambda>s. True" "\<lambda>s s'. epoch s \<le> epoch s'"
  by unfold_locales (auto simp: step_epoch)

context fenced begin

lemma refused_after_cut:
  assumes "n \<le> epoch s"
  shows "put x n (fold step cs (cut (fold step bs s))) = (False, fold step cs (cut (fold step bs s)))"
proof (rule put_refused)
  have "epoch s \<le> epoch (fold step bs s)" by (rule run_later) simp
  also have "\<dots> < epoch (cut (fold step bs s))" by (rule cut_epoch)
  also have "\<dots> \<le> epoch (fold step cs (cut (fold step bs s)))" by (rule run_later) simp
  finally show "n < epoch (fold step cs (cut (fold step bs s)))" using assms by simp
qed

end

end
