(* ===== verification/Playback.thy ===== *)
theory Playback
  imports Machines Prelude
begin

text \<open>
  \<open>PlaybackBuffer\<close> and the credential checks of \<open>voice/native-bridge/core.py\<close>. The buffer holds
  the PCM bytes that were accepted and not read yet; every interruption bumps the generation and
  drops them, and a chunk synthesised for an older generation is refused.
\<close>

section \<open>Credential checks\<close>

text \<open>A reply of the agent registry, as far as the check reads it: the truthiness of its
  \<open>error\<close> member and its \<open>result\<close>.\<close>

datatype agent_item = AgentName pystr | OtherItem

datatype agent_result = NoList | AgentList "agent_item list"

datatype agent_reply = NotADict | Reply bool agent_result

definition lower_hex :: "nat \<Rightarrow> bool" where
  "lower_hex c \<longleftrightarrow> 48 \<le> c \<and> c \<le> 57 \<or> 97 \<le> c \<and> c \<le> 102"

text \<open>\<open>re.fullmatch('[0-9a-f]{32}', x)\<close>.\<close>

definition agent_id :: "agent_item \<Rightarrow> bool" where
  "agent_id x = (case x of AgentName s \<Rightarrow> length s = 32 \<and> list_all lower_hex s | OtherItem \<Rightarrow> False)"

definition authorized_agents :: "agent_reply \<Rightarrow> pystr \<Rightarrow> bool" where
  "authorized_agents reply required = (case reply of
      NotADict \<Rightarrow> False
    | Reply err result \<Rightarrow> \<not> err \<and> (case result of
          NoList \<Rightarrow> False
        | AgentList xs \<Rightarrow> xs \<noteq> [] \<and> list_all agent_id xs \<and> AgentName required \<in> set xs))"

text \<open>\<open>ipaddress.ip_address(remote).is_loopback\<close> is the library's; \<open>None\<close> is its \<open>ValueError\<close>.\<close>

definition local_auth :: "(pystr \<Rightarrow> bool option) \<Rightarrow> pystr \<Rightarrow> pystr \<Rightarrow> pystr \<Rightarrow> bool" where
  "local_auth is_loopback supplied expected remote = (case is_loopback remote of
      None \<Rightarrow> False
    | Some loopback \<Rightarrow> loopback \<and> 32 \<le> length expected \<and> supplied \<noteq> [] \<and> supplied = expected)"

section \<open>The playback buffer\<close>

text \<open>\<open>'d\<close> is the type of the \<open>drain_allowed\<close> callbacks.\<close>

record 'd playback =
  generation :: nat
  pcm :: "nat list"
  accepted_samples :: nat
  emitted_samples :: nat
  discarded_samples :: nat
  drain_allowed :: "'d option"

definition new_playback :: "'d playback" where
  "new_playback = \<lparr>generation = 0, pcm = [], accepted_samples = 0, emitted_samples = 0,
     discarded_samples = 0, drain_allowed = None\<rparr>"

definition pb_interrupt :: "'d playback \<Rightarrow> 'd playback" where
  "pb_interrupt b = b\<lparr>generation := generation b + 1,
     discarded_samples := discarded_samples b + length (pcm b) div 2,
     pcm := [], drain_allowed := None\<rparr>"

definition pb_put :: "nat list \<Rightarrow> nat \<Rightarrow> 'd option \<Rightarrow> 'd playback \<Rightarrow> bool \<times> 'd playback" where
  "pb_put chunk gen drain b =
     (if gen \<noteq> generation b then (False, b)
      else (True, b\<lparr>
        drain_allowed := (if chunk \<noteq> [] \<and> (pcm b = [] \<or> drain \<noteq> None) then drain else drain_allowed b),
        pcm := pcm b @ chunk,
        accepted_samples := accepted_samples b + (length (pcm b) mod 2 + length chunk) div 2\<rparr>))"

text \<open>\<open>allow\<close> calls the callback: \<open>Some True\<close> is an answer that \<open>is True\<close>, \<open>Some False\<close> any other
  answer, \<open>None\<close> an exception.\<close>

definition pb_drain_check :: "('d \<Rightarrow> bool option) \<Rightarrow> 'd playback \<Rightarrow> 'd playback" where
  "pb_drain_check allow b = (case drain_allowed b of
      None \<Rightarrow> b
    | Some d \<Rightarrow> if pcm b \<noteq> [] \<and> allow d \<noteq> Some True then pb_interrupt b else b)"

definition pb_read :: "('d \<Rightarrow> bool option) \<Rightarrow> nat \<Rightarrow> 'd playback \<Rightarrow> nat list \<times> 'd playback" where
  "pb_read allow sz b =
     (let c = pb_drain_check allow b;
          count = min sz (length (pcm c)) div 2 * 2;
          result = take count (pcm c);
          rest = drop count (pcm c)
      in (result @ replicate (sz - length result) 0,
          c\<lparr>pcm := rest, emitted_samples := emitted_samples c + count div 2,
            drain_allowed := (if rest = [] then None else drain_allowed c)\<rparr>))"

section \<open>Histories of one buffer\<close>

datatype 'd pb_call = PbPut "nat list" nat "'d option" | PbRead nat "'d \<Rightarrow> bool option" | PbInterrupt

fun pb_do :: "'d pb_call \<Rightarrow> 'd playback \<Rightarrow> 'd playback" where
  "pb_do (PbPut chunk gen drain) b = snd (pb_put chunk gen drain b)"
| "pb_do (PbRead sz allow) b = snd (pb_read allow sz b)"
| "pb_do PbInterrupt b = pb_interrupt b"

definition pb_calls :: "'d pb_call list \<Rightarrow> 'd playback \<Rightarrow> 'd playback" where
  "pb_calls cs b = fold pb_do cs b"

lemma pb_calls_simps [simp]:
  "pb_calls [] b = b" "pb_calls (c # cs) b = pb_calls cs (pb_do c b)"
  by (simp_all add: pb_calls_def)

definition samples_balanced :: "'d playback \<Rightarrow> bool" where
  "samples_balanced b \<longleftrightarrow>
     accepted_samples b = emitted_samples b + discarded_samples b + length (pcm b) div 2"

lemma balanced_interrupt: "samples_balanced b \<Longrightarrow> samples_balanced (pb_interrupt b)"
  by (simp add: samples_balanced_def pb_interrupt_def)

lemma balanced_put: "samples_balanced b \<Longrightarrow> samples_balanced (snd (pb_put chunk gen drain b))"
proof -
  have split: "(l + k) div 2 = l div 2 + (l mod 2 + k) div 2" for l k :: nat
  proof -
    have "l + k = l mod 2 + k + l div 2 * 2" using div_mult_mod_eq[of l 2] by linarith
    then show ?thesis by (simp only:)
  qed
  show "samples_balanced b \<Longrightarrow> ?thesis"
    using split[of "length (pcm b)" "length chunk"] by (simp add: samples_balanced_def pb_put_def)
qed

lemma put_frame [simp]:
  "pcm (snd (pb_put chunk gen drain b)) = pcm b @ (if gen = generation b then chunk else [])"
  "generation (snd (pb_put chunk gen drain b)) = generation b"
  by (simp_all add: pb_put_def)

lemma balanced_drain_check: "samples_balanced b \<Longrightarrow> samples_balanced (pb_drain_check allow b)"
  by (auto simp: pb_drain_check_def balanced_interrupt split: option.split)

lemma even_part_le: "(n :: nat) div 2 * 2 \<le> n"
  by simp

lemma balanced_read:
  assumes "samples_balanced b" shows "samples_balanced (snd (pb_read allow sz b))"
proof -
  have "l div 2 = (min s l div 2 * 2) div 2 + (l - min s l div 2 * 2) div 2" for l s :: nat
  proof -
    have "min s l div 2 * 2 \<le> l" using even_part_le[of "min s l"] by linarith
    then obtain r where "l = min s l div 2 * 2 + r" by (metis le_Suc_ex)
    then have "l div 2 = min s l div 2 + r div 2" "l - min s l div 2 * 2 = r"
      by (metis add.commute div_mult_self1 zero_neq_numeral, linarith)
    then show ?thesis by simp
  qed
  then show ?thesis using balanced_drain_check[OF assms, of allow]
    by (simp add: pb_read_def Let_def samples_balanced_def)
qed

lemma balanced_call: "samples_balanced b \<Longrightarrow> samples_balanced (pb_do c b)"
  by (cases c) (simp_all add: balanced_interrupt balanced_put balanced_read)

interpretation balance: component pb_do samples_balanced
  by unfold_locales (rule balanced_call)

lemma generation_call: "generation b \<le> generation (pb_do c b)"
  by (cases c) (auto simp: pb_put_def pb_read_def pb_drain_check_def pb_interrupt_def Let_def
      split: option.split)

text \<open>The generation fences the buffer: a chunk comes with the generation its producer took.\<close>

interpretation fence: fenced pb_do generation pb_interrupt "\<lambda>x gen. pb_put (fst x) gen (snd x)"
  by unfold_locales (auto simp: generation_call pb_interrupt_def pb_put_def)

lemma generation_calls: "generation b \<le> generation (pb_calls cs b)"
  unfolding pb_calls_def by (rule fence.run_later) simp

text \<open>Reads return exactly \<open>sz\<close> bytes, and the bytes before the padding are the oldest ones.\<close>

lemma read_length: "length (fst (pb_read allow sz b)) = sz"
  by (simp add: pb_read_def Let_def)

lemma read_interrupts_denied:
  assumes "drain_allowed b = Some d" "pcm b \<noteq> []" "allow d \<noteq> Some True"
  shows "pb_read allow sz b = (replicate sz 0, pb_interrupt b)"
  using assms by (simp add: pb_read_def pb_drain_check_def pb_interrupt_def Let_def)

text \<open>What a history of puts (of the live generation) and permitted reads delivers, in order.\<close>

fun pb_output :: "'d pb_call list \<Rightarrow> 'd playback \<Rightarrow> nat list" where
  "pb_output [] b = []"
| "pb_output (PbRead sz allow # cs) b =
     take (min sz (length (pcm (pb_drain_check allow b))) div 2 * 2) (fst (pb_read allow sz b))
     @ pb_output cs (snd (pb_read allow sz b))"
| "pb_output (c # cs) b = pb_output cs (pb_do c b)"

fun pb_input :: "'d pb_call list \<Rightarrow> 'd playback \<Rightarrow> nat list" where
  "pb_input [] b = []"
| "pb_input (PbPut chunk gen drain # cs) b =
     (if gen = generation b then chunk else []) @ pb_input cs (pb_do (PbPut chunk gen drain) b)"
| "pb_input (c # cs) b = pb_input cs (pb_do c b)"

lemma fifo_same_generation:
  "generation (pb_calls cs b) = generation b \<Longrightarrow>
   pcm b @ pb_input cs b = pb_output cs b @ pcm (pb_calls cs b)"
proof (induction cs arbitrary: b)
  case (Cons c cs)
  have gen: "generation (pb_do c b) = generation b"
    using Cons.prems generation_call[of b c] generation_calls[of "pb_do c b" cs] by simp
  then have IH: "pcm (pb_do c b) @ pb_input cs (pb_do c b)
      = pb_output cs (pb_do c b) @ pcm (pb_calls cs (pb_do c b))"
    using Cons by simp
  show ?case
  proof (cases c)
    case (PbPut chunk g drain)
    then show ?thesis using IH by simp
  next
    case (PbRead sz allow)
    have same: "pb_drain_check allow b = b"
      using gen PbRead
      by (auto simp: pb_read_def Let_def pb_drain_check_def pb_interrupt_def split: option.splits if_splits)
    let ?n = "min sz (length (pcm b)) div 2 * 2"
    have "?n \<le> length (pcm b)" using even_part_le[of "min sz (length (pcm b))"] by linarith
    then have "pb_output (c # cs) b = take ?n (pcm b) @ pb_output cs (pb_do c b)"
      using PbRead same by (simp add: pb_read_def Let_def)
    moreover have "pcm (pb_do c b) = drop ?n (pcm b)"
      using PbRead same by (simp add: pb_read_def Let_def)
    moreover have "pb_input (c # cs) b = pb_input cs (pb_do c b)" using PbRead by simp
    ultimately show ?thesis using IH
      by (metis append.assoc append_take_drop_id pb_calls_simps(2))
  next
    case PbInterrupt
    then show ?thesis using gen by (simp add: pb_interrupt_def)
  qed
qed simp

section \<open>Properties\<close>

text \<open>C28. Sample accounting: after any sequence of \<open>put\<close>, \<open>read\<close> and \<open>interrupt\<close> on a fresh
  buffer, every accepted sample was emitted, discarded by an interruption, or is still buffered;
  none is counted twice or lost, odd-sized chunks included.\<close>

theorem playback_accounts_every_sample:
  "accepted_samples (pb_calls cs new_playback)
   = emitted_samples (pb_calls cs new_playback) + discarded_samples (pb_calls cs new_playback)
     + length (pcm (pb_calls cs new_playback)) div 2"
proof -
  have "samples_balanced (new_playback :: 'a playback)"
    by (simp add: samples_balanced_def new_playback_def)
  from balance.run_inv[OF this, of cs] show ?thesis by (simp add: samples_balanced_def pb_calls_def)
qed

text \<open>Stale-audio fencing: once a buffer was interrupted, a chunk carrying a generation from
  before the interruption is refused and changes nothing, whatever happens in between.\<close>

theorem stale_audio_never_enters:
  assumes "gen \<le> generation b" "cs = before @ PbInterrupt # after"
  shows "pb_put chunk gen drain (pb_calls cs b) = (False, pb_calls cs b)"
  using fence.refused_after_cut[OF assms(1), of "(chunk, drain)" after before]
  by (simp add: assms(2) pb_calls_def)

theorem stale_audio_never_enters_witness:
  "pb_put [1, 2] 0 None (pb_calls [PbPut [7, 7] 0 None, PbInterrupt] (new_playback :: unit playback))
   = (False, pb_calls [PbPut [7, 7] 0 None, PbInterrupt] new_playback)"
  by (rule stale_audio_never_enters[where before = "[PbPut [7, 7] 0 None]" and after = "[]"])
     (simp_all add: new_playback_def)

text \<open>Order: as long as no interruption intervenes, the bytes read out followed by the bytes
  still buffered are exactly the bytes that were accepted, in the order they were put.\<close>

theorem playback_is_fifo:
  assumes "generation (pb_calls cs new_playback) = 0"
  shows "pb_output cs new_playback @ pcm (pb_calls cs new_playback) = pb_input cs new_playback"
  using fifo_same_generation[of cs new_playback] assms by (simp add: new_playback_def)

theorem playback_is_fifo_witness:
  "pb_output [PbPut [1, 2, 3] 0 None, PbRead 2 (\<lambda>_. None), PbPut [4] 0 None] (new_playback :: unit playback)
     = [1, 2]"
proof -
  let ?cs = "[PbPut [1, 2, 3] 0 None, PbRead 2 (\<lambda>_. None), PbPut [4] 0 None] :: unit pb_call list"
  have "pb_output ?cs new_playback @ pcm (pb_calls ?cs new_playback) = pb_input ?cs new_playback"
    by (rule playback_is_fifo)
       (simp add: new_playback_def pb_put_def pb_read_def pb_drain_check_def Let_def)
  then show ?thesis
    by (simp add: new_playback_def pb_put_def pb_read_def pb_drain_check_def Let_def)
qed

end
