(* ===== verification/NoiseGuard.thy ===== *)
theory NoiseGuard
  imports PyVal
begin

text \<open>
  \<open>SpeechNoiseGuard\<close> and \<open>accepted_transcript\<close> of \<open>voice/native-bridge/noise_guard.py\<close>: which frames
  may start or continue an utterance, and which transcriptions count as speech. Shown here: playback
  is interrupted only after at least 220 ms of confident speech since the guard was last reset.
\<close>

record noise_guard =
  noise_rms :: rat
  barge_ms :: rat
  confident_ms :: rat
  confident_gap_ms :: rat

definition new_noise_guard :: noise_guard where
  "new_noise_guard = \<lparr>noise_rms = 30, barge_ms = 0, confident_ms = 0, confident_gap_ms = 0\<rparr>"

definition guard_reset :: "noise_guard \<Rightarrow> noise_guard" where
  "guard_reset g = g\<lparr>barge_ms := 0, confident_ms := 0, confident_gap_ms := 0\<rparr>"

definition adapt_floor :: "rat \<Rightarrow> rat \<Rightarrow> rat \<Rightarrow> bool \<Rightarrow> noise_guard \<Rightarrow> noise_guard" where
  "adapt_floor p rms ms utterance g =
     (if p < 1/5 \<and> \<not> utterance
      then g\<lparr>noise_rms := noise_rms g + min (3/25) (ms / 1000) * (rms - noise_rms g)\<rparr> else g)"

definition count_confident :: "rat \<Rightarrow> rat \<Rightarrow> rat \<Rightarrow> noise_guard \<Rightarrow> noise_guard" where
  "count_confident p rms ms g =
     (let g = g\<lparr>barge_ms := (if 17/20 \<le> p \<and> max 40 (noise_rms g * (8/5)) \<le> rms then barge_ms g + ms else 0)\<rparr>
      in if 19/20 \<le> p then g\<lparr>confident_ms := confident_ms g + ms, confident_gap_ms := 0\<rparr>
         else let gap = confident_gap_ms g + ms
              in g\<lparr>confident_gap_ms := gap, confident_ms := (if 60 < gap then 0 else confident_ms g)\<rparr>)"

definition qualify_valid :: "rat \<Rightarrow> rat \<Rightarrow> rat \<Rightarrow> bool \<Rightarrow> bool \<Rightarrow> noise_guard \<Rightarrow> bool \<times> noise_guard" where
  "qualify_valid p rms ms speaking utterance g =
     (let g = adapt_floor p rms ms utterance g
      in if utterance then (9/20 \<le> p, guard_reset g)
         else if \<not> speaking then (3/5 \<le> p, guard_reset g)
         else let g = count_confident p rms ms g
              in (220 \<le> barge_ms g \<or> 240 \<le> confident_ms g \<and> 9/20 \<le> p, g))"

text \<open>\<open>None\<close> is the \<open>OverflowError\<close> of \<open>math.isfinite\<close> on an oversized integer, which leaves the guard as it was.\<close>

definition qualify :: "pyval \<Rightarrow> pyval \<Rightarrow> pyval \<Rightarrow> bool \<Rightarrow> bool \<Rightarrow> noise_guard \<Rightarrow> (bool \<times> noise_guard) option" where
  "qualify probability rms milliseconds speaking utterance g =
     (case finite_in (\<lambda>p. 0 \<le> p \<and> p \<le> 1) probability of
        None \<Rightarrow> None
      | Some False \<Rightarrow> Some (False, guard_reset g)
      | Some True \<Rightarrow> (case finite_in (\<lambda>r. 0 \<le> r) rms of
          None \<Rightarrow> None
        | Some False \<Rightarrow> Some (False, guard_reset g)
        | Some True \<Rightarrow> (case finite_in (\<lambda>m. 0 < m \<and> m \<le> 1000) milliseconds of
            None \<Rightarrow> None
          | Some False \<Rightarrow> Some (False, guard_reset g)
          | Some True \<Rightarrow> Some (qualify_valid (the (finite_num probability)) (the (finite_num rms))
              (the (finite_num milliseconds)) speaking utterance g))))"

section \<open>Transcriptions\<close>

datatype transcript_error = InvalidTranscription | NumberTooLarge

definition nonspeech :: "pyval \<Rightarrow> bool option" where
  "nonspeech segment = (case as_dict segment of
      None \<Rightarrow> Some False
    | Some d \<Rightarrow> (case finite_in (\<lambda>s. 3/5 \<le> s \<and> s \<le> 1) (get_item d ''no_speech_prob'') of
        Some True \<Rightarrow> finite_in (\<lambda>l. - 1000 \<le> l \<and> l < - 1) (get_item d ''avg_logprob'')
      | r \<Rightarrow> r))"

text \<open>\<open>all(..)\<close> stops at the first segment that is speech.\<close>

fun all_nonspeech :: "pyval list \<Rightarrow> bool option" where
  "all_nonspeech [] = Some True"
| "all_nonspeech (x # xs) = (case nonspeech x of Some True \<Rightarrow> all_nonspeech xs | r \<Rightarrow> r)"

definition accepted_transcript :: "pyval \<Rightarrow> transcript_error + pystr" where
  "accepted_transcript data =
     (let field = (\<lambda>k. case as_dict data of None \<Rightarrow> VNone | Some d \<Rightarrow> get_item d k)
      in case as_str (field ''text'') of
           None \<Rightarrow> Inl InvalidTranscription
         | Some t \<Rightarrow>
             if 4000 < length t then Inl InvalidTranscription
             else (case as_list (field ''segments'') of
                 None \<Rightarrow> Inr (strip t)
               | Some xs \<Rightarrow>
                   if 0 < length xs \<and> length xs \<le> 256
                   then (case all_nonspeech xs of
                       None \<Rightarrow> Inl NumberTooLarge
                     | Some b \<Rightarrow> Inr (if b then [] else strip t))
                   else Inr (strip t)))"

section \<open>Sustained speech\<close>

text \<open>One call of \<open>qualify\<close>; a raised error counts as a refusal.\<close>

record frame =
  fr_probability :: pyval
  fr_rms :: pyval
  fr_ms :: pyval

definition barge_frame :: "frame \<Rightarrow> noise_guard \<Rightarrow> bool \<times> noise_guard" where
  "barge_frame f g = (case qualify (fr_probability f) (fr_rms f) (fr_ms f) True False g of
      None \<Rightarrow> (False, g) | Some r \<Rightarrow> r)"

fun barge_frames :: "frame list \<Rightarrow> noise_guard \<Rightarrow> bool list \<times> noise_guard" where
  "barge_frames [] g = ([], g)"
| "barge_frames (f # fs) g =
     (case barge_frame f g of (b, g') \<Rightarrow> case barge_frames fs g' of (bs, g'') \<Rightarrow> (b # bs, g''))"

text \<open>The milliseconds of confident speech in a frame, whatever its energy.\<close>

definition confident_time :: "frame \<Rightarrow> rat" where
  "confident_time f = (case finite_num (fr_ms f) of
      None \<Rightarrow> 0
    | Some m \<Rightarrow> (case finite_num (fr_probability f) of
        None \<Rightarrow> 0 | Some p \<Rightarrow> if 17/20 \<le> p \<and> 0 < m then m else 0))"

definition heard :: "rat \<Rightarrow> noise_guard \<Rightarrow> bool" where
  "heard most g \<longleftrightarrow> 0 \<le> most \<and> barge_ms g \<le> most \<and> confident_ms g \<le> most"

lemma heard_mono: "heard t g \<Longrightarrow> t \<le> u \<Longrightarrow> heard u g"
  by (auto simp: heard_def)

lemma heard_reset: "0 \<le> t \<Longrightarrow> heard t (guard_reset g)"
  by (simp add: heard_def guard_reset_def)

lemma confident_time_nonneg: "0 \<le> confident_time f"
  by (auto simp: confident_time_def split: option.split)

lemma adapt_frame [simp]:
  "barge_ms (adapt_floor p rms ms u g) = barge_ms g"
  "confident_ms (adapt_floor p rms ms u g) = confident_ms g"
  by (simp_all add: adapt_floor_def)

lemma count_confident_fields:
  "barge_ms (count_confident p rms ms g) \<in> {0, barge_ms g + ms}"
  "p < 17/20 \<Longrightarrow> barge_ms (count_confident p rms ms g) = 0"
  "confident_ms (count_confident p rms ms g) \<in> {0, confident_ms g, confident_ms g + ms}"
  "p < 17/20 \<Longrightarrow> confident_ms (count_confident p rms ms g) \<in> {0, confident_ms g}"
  by (auto simp: count_confident_def Let_def split: if_splits)

lemma heard_count:
  assumes "heard t g" "0 < ms"
  shows "heard (t + (if 17/20 \<le> p then ms else 0)) (count_confident p rms ms g)"
  using assms count_confident_fields[of p rms ms g] by (auto simp: heard_def not_le)

lemma heard_valid:
  assumes "heard t g" "qualify_valid p rms ms True False g = (b, g')" "0 < ms"
  shows "heard (t + (if 17/20 \<le> p then ms else 0)) g' \<and> (b \<longrightarrow> 220 \<le> t + (if 17/20 \<le> p then ms else 0))"
proof -
  have "heard t (adapt_floor p rms ms False g)" using assms(1) by (simp add: heard_def)
  from heard_count[OF this assms(3), of p rms]
  have "heard (t + (if 17/20 \<le> p then ms else 0)) g'"
    using assms(2) by (auto simp: qualify_valid_def Let_def)
  moreover have "b \<Longrightarrow> 220 \<le> barge_ms g' \<or> 240 \<le> confident_ms g'"
    using assms(2) by (auto simp: qualify_valid_def Let_def)
  ultimately show ?thesis unfolding heard_def by linarith
qed

lemma heard_frame:
  assumes "heard t g" "barge_frame f g = (b, g')"
  shows "heard (t + confident_time f) g' \<and> (b \<longrightarrow> 220 \<le> t + confident_time f)"
proof -
  have t: "0 \<le> t" "0 \<le> t + confident_time f" "heard (t + confident_time f) g"
    using assms(1) confident_time_nonneg[of f] heard_mono[OF assms(1), of "t + confident_time f"]
    by (auto simp: heard_def)
  show ?thesis
  proof (cases "qualify (fr_probability f) (fr_rms f) (fr_ms f) True False g")
    case None
    then show ?thesis using assms(2) t by (simp add: barge_frame_def)
  next
    case (Some r)
    consider "r = (False, guard_reset g)"
      | p rms ms where "finite_num (fr_probability f) = Some p" "finite_num (fr_ms f) = Some ms"
          "0 < ms" "r = qualify_valid p rms ms True False g"
      using Some unfolding qualify_def
      by (auto split: option.splits bool.splits simp: finite_in_True)
    then show ?thesis
    proof cases
      case 1
      then show ?thesis using Some assms(2) heard_reset[OF t(2), of g] by (auto simp: barge_frame_def)
    next
      case 2
      then show ?thesis using Some assms heard_valid[of t g p rms ms b g']
        by (auto simp: barge_frame_def confident_time_def)
    qed
  qed
qed

lemma heard_frames:
  assumes "heard t g" "barge_frames fs g = (bs, g')" "True \<in> set bs"
  shows "220 \<le> t + sum_list (map confident_time fs)"
  using assms
proof (induction fs arbitrary: t g bs)
  case (Cons f fs)
  obtain b h where one: "barge_frame f g = (b, h)" by fastforce
  obtain rest where rest: "barge_frames fs h = (rest, g')" "bs = b # rest"
    using Cons.prems(2) one by (auto split: prod.splits)
  note step = heard_frame[OF Cons.prems(1) one]
  have "0 \<le> sum_list (map confident_time fs)"
    by (rule sum_list_nonneg) (auto simp: confident_time_nonneg)
  then show ?case using step Cons.IH[of "t + confident_time f" h rest] rest Cons.prems(3)
    by (auto simp: add.assoc)
qed simp

text \<open>Sustained speech only: while playback is running and no utterance is in progress, whatever
  frames arrive after a reset, the guard lets one interrupt only if the frames so far contain at
  least 220 ms of speech of probability .85 or more; malformed frames never count.\<close>

theorem barge_in_needs_sustained_speech:
  assumes "barge_frames fs (guard_reset g) = (bs, g')" "True \<in> set bs"
  shows "220 \<le> sum_list (map confident_time fs)"
  using heard_frames[OF heard_reset[of 0] assms] by simp

definition demo_burst :: "frame list" where
  "demo_burst = replicate 2 \<lparr>fr_probability = VFloat (Fin 1), fr_rms = VInt 900, fr_ms = VInt 110\<rparr>"

theorem barge_in_needs_sustained_speech_witness:
  "True \<in> set (fst (barge_frames demo_burst (guard_reset new_noise_guard)))
   \<and> 220 \<le> sum_list (map confident_time demo_burst)"
proof -
  have "True \<in> set (fst (barge_frames demo_burst (guard_reset new_noise_guard)))"
    by (simp add: demo_burst_def numeral_eq_Suc barge_frame_def qualify_def finite_in_def fits_double_def
        qualify_valid_def adapt_floor_def count_confident_def guard_reset_def new_noise_guard_def)
  then show ?thesis
    using barge_in_needs_sustained_speech[of demo_burst new_noise_guard
        "fst (barge_frames demo_burst (guard_reset new_noise_guard))"
        "snd (barge_frames demo_burst (guard_reset new_noise_guard))"]
    by simp
qed

text \<open>An explicit all-nonspeech result is the only way to lose text: when a transcription is
  accepted, the result is the recognised text without surrounding white space, unless every one of
  its 1 to 256 segments was marked as silence, and then it is empty.\<close>

theorem transcript_kept_unless_all_nonspeech:
  assumes "accepted_transcript data = Inr t"
  shows "\<exists>d raw. data = VDict d \<and> get_item d ''text'' = VStr raw \<and> length raw \<le> 4000
    \<and> (t = strip raw
       \<or> t = [] \<and> (\<exists>xs. get_item d ''segments'' = VList xs \<and> 0 < length xs \<and> length xs \<le> 256
            \<and> (\<forall>x\<in>set xs. nonspeech x = Some True)))"
proof -
  have all: "all_nonspeech xs = Some True \<Longrightarrow> \<forall>x\<in>set xs. nonspeech x = Some True" for xs
    by (induction xs) (auto split: option.splits bool.splits)
  obtain d where d: "data = VDict d"
    using assms by (cases "as_dict data") (auto simp: accepted_transcript_def)
  obtain raw where "get_item d ''text'' = VStr raw"
    using assms d by (cases "as_str (get_item d ''text'')") (auto simp: accepted_transcript_def)
  then show ?thesis using assms d all
    by (auto simp: accepted_transcript_def split: if_splits option.splits)
qed

theorem transcript_kept_unless_all_nonspeech_witness:
  "accepted_transcript (VDict [(lit ''text'', VStr (lit '' ja ''))]) = Inr (lit ''ja'')"
proof -
  let ?d = "VDict [(lit ''text'', VStr (lit '' ja ''))]"
  have "\<exists>t. accepted_transcript ?d = Inr t \<and> t \<noteq> []"
    by (simp add: accepted_transcript_def get_item_def strip_def is_space_def lit_def)
  then obtain t where t: "accepted_transcript ?d = Inr t" "t \<noteq> []" by blast
  have "t = strip (lit '' ja '')"
    using transcript_kept_unless_all_nonspeech[OF t(1)] t(2) by (auto simp: get_item_def)
  then show ?thesis using t(1) by (simp add: strip_def is_space_def lit_def)
qed

end
