(* ===== verification/Admission.thy ===== *)
theory Admission
  imports PyVal
begin

text \<open>
  \<open>scripts/gufo_control/admission.py\<close>: the pure accounting that decides, before a model process is
  started, whether the machine has room for it. A telemetry sample and a reviewed memory envelope
  are untrusted dicts; every refusal is a list of reasons. Shown here: a launch is allowed only with
  all the memory floors respected, a refusal always names a reason, and more free memory never turns
  an allowed launch into a refused one.
\<close>

definition gib :: int where "gib = 1073741824"
definition max_bytes :: int where "max_bytes = 9223372036854775807"
definition prelaunch_floor :: int where "prelaunch_floor = 49 * gib"
definition runtime_floor :: int where "runtime_floor = 24 * gib"
definition commit_reserve :: int where "commit_reserve = 12 * gib"
definition max_sample_age :: rat where "max_sample_age = 5"

lemmas memory_consts = gib_def max_bytes_def prelaunch_floor_def runtime_floor_def commit_reserve_def
  max_sample_age_def

definition sample_bytes :: "string list" where
  "sample_bytes = [''available_physical_bytes'', ''commit_headroom_bytes'', ''dedicated_capacity_bytes'',
     ''adapter_dedicated_bytes'', ''adapter_shared_bytes'']"

definition envelope_bytes :: "string list" where
  "envelope_bytes = [''gpu_peak_bytes'', ''host_peak_bytes'', ''commit_peak_bytes'',
     ''shared_physical_allowance_bytes'']"

definition bytes_ok :: "pyval \<Rightarrow> bool" where
  "bytes_ok v = (case v of VInt i \<Rightarrow> 0 \<le> i \<and> i \<le> max_bytes | _ \<Rightarrow> False)"

text \<open>\<open>_finite_time\<close>: the time it accepts, \<open>None\<close> where it answers \<open>False\<close>.\<close>

definition time_of :: "pyval \<Rightarrow> rat option" where
  "time_of v = (case finite_num v of None \<Rightarrow> None | Some r \<Rightarrow> if 0 \<le> r then Some r else None)"

definition text_ok :: "pyval \<Rightarrow> bool" where
  "text_ok v = (case v of VStr s \<Rightarrow> strip s \<noteq> [] | _ \<Rightarrow> False)"

definition pid_ok :: "pyval \<Rightarrow> bool" where
  "pid_ok v = (case v of VInt i \<Rightarrow> 0 < i | _ \<Rightarrow> False)"

text \<open>The value of an integer member whose type was checked before.\<close>

definition num :: "(pystr \<times> pyval) list \<Rightarrow> string \<Rightarrow> int" where
  "num d k = (case get_item d k of VInt i \<Rightarrow> i | _ \<Rightarrow> 0)"

definition flag :: "bool \<Rightarrow> string \<Rightarrow> string list" where
  "flag c r = (if c then [r] else [])"

lemma flag_simps [simp]: "flag True r = [r]" "flag False r = []" "flag c r = [] \<longleftrightarrow> \<not> c"
  by (simp_all add: flag_def)

definition sample_age_reason :: "pyval \<Rightarrow> (pystr \<times> pyval) list \<Rightarrow> string list" where
  "sample_age_reason now s = (case (time_of now, time_of (get_item s ''captured_monotonic'')) of
      (Some t, Some c) \<Rightarrow> flag (\<not> (0 \<le> t - c \<and> t - c \<le> max_sample_age)) ''stale_or_future_sample''
    | _ \<Rightarrow> [''invalid_sample_time''])"

definition inventory_reason :: "(pystr \<times> pyval) list \<Rightarrow> string list" where
  "inventory_reason s = (case (case get_item s ''other_inference_pids'' of
        VList ps \<Rightarrow> Some ps | VTuple ps \<Rightarrow> Some ps | _ \<Rightarrow> None) of
      None \<Rightarrow> [''invalid_process_inventory'']
    | Some ps \<Rightarrow> if \<not> list_all pid_ok ps then [''invalid_process_inventory'']
        else flag (ps \<noteq> []) ''other_inference_active'')"

definition lower_hex_digit :: "nat \<Rightarrow> bool" where
  "lower_hex_digit c \<longleftrightarrow> 48 \<le> c \<and> c \<le> 57 \<or> 97 \<le> c \<and> c \<le> 102"

definition revision_ok :: "pyval \<Rightarrow> bool" where
  "revision_ok v = (case v of VStr r \<Rightarrow> length r = 40 \<and> list_all lower_hex_digit r | _ \<Rightarrow> False)"

text \<open>The first block of checks, up to the first \<open>return\<close>: shapes, scopes, identities.\<close>

definition shape_reasons ::
    "(pystr \<times> pyval) list \<Rightarrow> (pystr \<times> pyval) list \<Rightarrow> pyval \<Rightarrow> pystr \<Rightarrow> string list" where
  "shape_reasons s e now commit =
     concat (map (\<lambda>k. flag (\<not> bytes_ok (get_item s k)) (''invalid_counter:'' @ k)) sample_bytes)
   @ concat (map (\<lambda>k. flag (\<not> bytes_ok (get_item e k)) (''invalid_envelope:'' @ k)) envelope_bytes)
   @ sample_age_reason now s
   @ flag (get_item s ''gpu_scope'' \<noteq> VStr (lit ''adapter_aggregate'')
           \<or> get_item s ''host_scope'' \<noteq> VStr (lit ''host_global'')) ''invalid_counter_scope''
   @ flag (\<not> text_ok (get_item s ''adapter_luid'') \<or> \<not> text_ok (get_item s ''provider''))
       ''missing_counter_identity''
   @ flag (get_item s ''telemetry_ok'' \<noteq> VBool True) ''telemetry_unavailable''
   @ inventory_reason s
   @ flag (get_item e ''qualified'' \<noteq> VBool True \<or> \<not> text_ok (get_item e ''review_id''))
       ''unqualified_envelope''
   @ flag (get_item e ''source_commit'' \<noteq> VStr commit \<or> \<not> revision_ok (get_item e ''model_revision''))
       ''invalid_profile_identity''
   @ flag (get_item e ''shared_memory_policy'' \<noteq> VStr (lit ''measured_margin''))
       ''invalid_shared_memory_policy''
   @ flag (\<not> text_ok (get_item e ''shared_allowance_review_id'')) ''unreviewed_shared_allowance''"

definition bound_reasons :: "(pystr \<times> pyval) list \<Rightarrow> (pystr \<times> pyval) list \<Rightarrow> string list" where
  "bound_reasons s e =
     (let gpu = num e ''gpu_peak_bytes''; host = num e ''host_peak_bytes'';
          commit = num e ''commit_peak_bytes''; allowance = num e ''shared_physical_allowance_bytes'';
          capacity = num s ''dedicated_capacity_bytes''; used = num s ''adapter_dedicated_bytes''
      in flag (allowance = 0 \<or> host + allowance > max_bytes) ''invalid_shared_allowance''
       @ flag (gpu = 0 \<or> commit < gpu + host \<or> gpu + host + commit_reserve > max_bytes)
           ''inconsistent_commit_bound''
       @ flag (capacity = 0 \<or> used > capacity) ''inconsistent_dedicated_counter'')"

record decision =
  allowed :: bool
  reasons :: "string list"
  minimum_spill :: "int option"
  shared_allowance :: "int option"
  predicted_available :: "int option"
  accounting_basis :: "string option"

definition refused :: "string list \<Rightarrow> decision" where
  "refused rs = \<lparr>allowed = False, reasons = rs, minimum_spill = None, shared_allowance = None,
     predicted_available = None, accounting_basis = None\<rparr>"

definition floor_reasons :: "(pystr \<times> pyval) list \<Rightarrow> (pystr \<times> pyval) list \<Rightarrow> int \<Rightarrow> int \<Rightarrow> string list" where
  "floor_reasons s e spill predicted =
     flag (num e ''shared_physical_allowance_bytes'' < spill) ''shared_allowance_below_minimum_spill''
   @ flag (num s ''available_physical_bytes'' < prelaunch_floor) ''prelaunch_physical_floor''
   @ flag (predicted < runtime_floor) ''predicted_physical_floor''
   @ flag (num s ''commit_headroom_bytes'' - num e ''commit_peak_bytes'' < commit_reserve) ''commit_floor''"

definition evaluate_admission :: "pyval \<Rightarrow> pyval \<Rightarrow> pyval \<Rightarrow> pystr \<Rightarrow> decision" where
  "evaluate_admission sample envelope now commit =
     (case (as_dict sample, as_dict envelope) of
        (Some s, Some e) \<Rightarrow>
          if shape_reasons s e now commit \<noteq> [] then refused (shape_reasons s e now commit)
          else if bound_reasons s e \<noteq> [] then refused (bound_reasons s e)
          else
            let spill = max 0 (num e ''gpu_peak_bytes''
                  - (num s ''dedicated_capacity_bytes'' - num s ''adapter_dedicated_bytes''));
                allowance = num e ''shared_physical_allowance_bytes'';
                predicted = num s ''available_physical_bytes'' - num e ''host_peak_bytes'' - allowance;
                rs = floor_reasons s e spill predicted
            in \<lparr>allowed = (rs = []), reasons = rs, minimum_spill = Some spill,
                shared_allowance = Some allowance, predicted_available = Some predicted,
                accounting_basis = Some ''reviewed_measured_margin''\<rparr>
      | _ \<Rightarrow> refused [''invalid_input''])"

section \<open>What an admission means\<close>

lemma bytes_ok_num: "bytes_ok (get_item d k) \<Longrightarrow> get_item d k = VInt (num d k) \<and> 0 \<le> num d k \<and> num d k \<le> max_bytes"
  by (auto simp: bytes_ok_def num_def split: pyval.splits)

lemma admission_allowedD:
  assumes "allowed (evaluate_admission sample envelope now commit)"
  shows "\<exists>s e. sample = VDict s \<and> envelope = VDict e \<and> shape_reasons s e now commit = []
    \<and> bound_reasons s e = []
    \<and> floor_reasons s e (max 0 (num e ''gpu_peak_bytes''
          - (num s ''dedicated_capacity_bytes'' - num s ''adapter_dedicated_bytes'')))
        (num s ''available_physical_bytes'' - num e ''host_peak_bytes'' - num e ''shared_physical_allowance_bytes'') = []"
  using assms
  by (auto simp: evaluate_admission_def refused_def Let_def split: option.splits if_splits)

lemma shape_counters:
  assumes "shape_reasons s e now commit = []"
  shows "k \<in> set sample_bytes \<Longrightarrow> bytes_ok (get_item s k)"
    and "k \<in> set envelope_bytes \<Longrightarrow> bytes_ok (get_item e k)"
  using assms by (auto simp: shape_reasons_def concat_eq_Nil_conv)

lemma shape_fresh:
  assumes "shape_reasons s e now commit = []"
  shows "\<exists>t c. time_of now = Some t \<and> time_of (get_item s ''captured_monotonic'') = Some c
    \<and> c \<le> t \<and> t - c \<le> 5"
  using assms
  by (auto simp: shape_reasons_def sample_age_reason_def max_sample_age_def split: option.splits)

lemma shape_alone:
  assumes "shape_reasons s e now commit = []"
  shows "get_item s ''other_inference_pids'' \<in> {VList [], VTuple []}"
  using assms by (auto simp: shape_reasons_def inventory_reason_def split: pyval.splits if_splits)

lemma admission_room:
  assumes "allowed (evaluate_admission sample envelope now commit)"
  shows "\<exists>s e. sample = VDict s \<and> envelope = VDict e \<and> shape_reasons s e now commit = []
    \<and> 49 * gib \<le> num s ''available_physical_bytes''
    \<and> num e ''host_peak_bytes'' + num e ''shared_physical_allowance_bytes'' + 24 * gib
        \<le> num s ''available_physical_bytes''
    \<and> num e ''commit_peak_bytes'' + 12 * gib \<le> num s ''commit_headroom_bytes''
    \<and> num e ''gpu_peak_bytes'' \<le> num s ''dedicated_capacity_bytes'' - num s ''adapter_dedicated_bytes''
        + num e ''shared_physical_allowance_bytes''"
proof -
  obtain s e where "sample = VDict s" "envelope = VDict e" "shape_reasons s e now commit = []"
    "floor_reasons s e (max 0 (num e ''gpu_peak_bytes''
          - (num s ''dedicated_capacity_bytes'' - num s ''adapter_dedicated_bytes'')))
        (num s ''available_physical_bytes'' - num e ''host_peak_bytes'' - num e ''shared_physical_allowance_bytes'') = []"
    using admission_allowedD[OF assms] by blast
  then show ?thesis
    by (intro exI[of _ s] exI[of _ e])
       (auto simp: floor_reasons_def prelaunch_floor_def runtime_floor_def commit_reserve_def)
qed

text \<open>A launch that is allowed is safe: the sample and the envelope are dicts whose counters are
  proper byte counts, the sample is at most five seconds old, no other inference process was listed,
  at least 49 GiB are free and at least 24 GiB stay free after the host peak and the shared allowance,
  the commit headroom keeps 12 GiB beyond the commit peak, and the GPU peak fits the free dedicated
  memory plus the shared allowance.\<close>

theorem admission_is_safe:
  assumes "allowed (evaluate_admission sample envelope now commit)"
  shows "\<exists>s e t c. sample = VDict s \<and> envelope = VDict e
    \<and> (\<forall>k\<in>set sample_bytes. bytes_ok (get_item s k)) \<and> (\<forall>k\<in>set envelope_bytes. bytes_ok (get_item e k))
    \<and> time_of now = Some t \<and> time_of (get_item s ''captured_monotonic'') = Some c \<and> c \<le> t \<and> t - c \<le> 5
    \<and> get_item s ''other_inference_pids'' \<in> {VList [], VTuple []}
    \<and> 49 * gib \<le> num s ''available_physical_bytes''
    \<and> num e ''host_peak_bytes'' + num e ''shared_physical_allowance_bytes'' + 24 * gib
        \<le> num s ''available_physical_bytes''
    \<and> num e ''commit_peak_bytes'' + 12 * gib \<le> num s ''commit_headroom_bytes''
    \<and> num e ''gpu_peak_bytes'' \<le> num s ''dedicated_capacity_bytes'' - num s ''adapter_dedicated_bytes''
        + num e ''shared_physical_allowance_bytes''"
proof -
  obtain s e where room: "sample = VDict s" "envelope = VDict e" "shape_reasons s e now commit = []"
    "49 * gib \<le> num s ''available_physical_bytes''
    \<and> num e ''host_peak_bytes'' + num e ''shared_physical_allowance_bytes'' + 24 * gib
        \<le> num s ''available_physical_bytes''
    \<and> num e ''commit_peak_bytes'' + 12 * gib \<le> num s ''commit_headroom_bytes''
    \<and> num e ''gpu_peak_bytes'' \<le> num s ''dedicated_capacity_bytes'' - num s ''adapter_dedicated_bytes''
        + num e ''shared_physical_allowance_bytes''"
    using admission_room[OF assms] by blast
  obtain t c where "time_of now = Some t" "time_of (get_item s ''captured_monotonic'') = Some c"
      "c \<le> t" "t - c \<le> 5"
    using shape_fresh[OF room(3)] by blast
  then show ?thesis using room shape_counters[OF room(3)] shape_alone[OF room(3)] by blast
qed

definition demo_sample :: "(pystr \<times> pyval) list" where
  "demo_sample = map (\<lambda>(k, v). (lit k, v))
     [(''available_physical_bytes'', VInt (64 * gib)), (''commit_headroom_bytes'', VInt (100 * gib)),
      (''dedicated_capacity_bytes'', VInt (64 * gib)), (''adapter_dedicated_bytes'', VInt gib),
      (''adapter_shared_bytes'', VInt 0), (''captured_monotonic'', VInt 100),
      (''gpu_scope'', VStr (lit ''adapter_aggregate'')), (''host_scope'', VStr (lit ''host_global'')),
      (''adapter_luid'', VStr (lit ''0x1'')), (''provider'', VStr (lit ''PDH'')),
      (''telemetry_ok'', VBool True), (''other_inference_pids'', VList [])]"

definition demo_envelope :: "(pystr \<times> pyval) list" where
  "demo_envelope = map (\<lambda>(k, v). (lit k, v))
     [(''gpu_peak_bytes'', VInt (68 * gib)), (''host_peak_bytes'', VInt (4 * gib)),
      (''commit_peak_bytes'', VInt (72 * gib)), (''shared_physical_allowance_bytes'', VInt (20 * gib)),
      (''qualified'', VBool True), (''review_id'', VStr (lit ''r1'')), (''source_commit'', VStr (lit ''c'')),
      (''model_revision'', VStr (replicate 40 48)), (''shared_memory_policy'', VStr (lit ''measured_margin'')),
      (''shared_allowance_review_id'', VStr (lit ''r2''))]"

lemma demo_admission:
  "allowed (evaluate_admission (VDict demo_sample) (VDict demo_envelope) (VInt 101) (lit ''c''))"
  by (simp add: evaluate_admission_def shape_reasons_def bound_reasons_def floor_reasons_def
      demo_sample_def demo_envelope_def get_item_def sample_bytes_def envelope_bytes_def bytes_ok_def
      memory_consts sample_age_reason_def inventory_reason_def time_of_def fits_double_def text_ok_def
      strip_def is_space_def lit_def revision_ok_def lower_hex_digit_def num_def Let_def list_all_iff)

theorem admission_is_safe_witness:
  "num demo_envelope ''host_peak_bytes'' + num demo_envelope ''shared_physical_allowance_bytes'' + 24 * gib
     \<le> num demo_sample ''available_physical_bytes''"
  using admission_is_safe[OF demo_admission] by blast

lemma decision_reasons:
  "allowed (evaluate_admission sample envelope now commit)
     \<longleftrightarrow> reasons (evaluate_admission sample envelope now commit) = []"
  by (auto simp: evaluate_admission_def refused_def Let_def split: option.splits)

definition roomier :: "(pystr \<times> pyval) list \<Rightarrow> (pystr \<times> pyval) list \<Rightarrow> bool" where
  "roomier s s' \<longleftrightarrow>
     (\<forall>k. k \<noteq> ''available_physical_bytes'' \<and> k \<noteq> ''commit_headroom_bytes'' \<longrightarrow> get_item s' k = get_item s k)
   \<and> (\<forall>k\<in>{''available_physical_bytes'', ''commit_headroom_bytes''}.
        bytes_ok (get_item s' k) \<and> num s k \<le> num s' k)"

lemma roomier_shape:
  assumes "roomier s s'" "shape_reasons s e now commit = []"
  shows "shape_reasons s' e now commit = []"
proof -
  have same: "get_item s' k = get_item s k"
    if "k \<noteq> ''available_physical_bytes''" "k \<noteq> ''commit_headroom_bytes''" for k
    using assms(1) that by (simp add: roomier_def)
  have "bytes_ok (get_item s' ''available_physical_bytes'')" "bytes_ok (get_item s' ''commit_headroom_bytes'')"
    using assms(1) by (auto simp: roomier_def)
  then show ?thesis using assms(2)
    by (simp add: shape_reasons_def sample_age_reason_def inventory_reason_def sample_bytes_def same)
qed

text \<open>Monotonicity: a launch that is allowed stays allowed when the sample differs only by more
  available memory and more commit headroom.\<close>

theorem admission_monotone:
  assumes "allowed (evaluate_admission (VDict s) envelope now commit)" "roomier s s'"
  shows "allowed (evaluate_admission (VDict s') envelope now commit)"
proof -
  obtain e where e: "envelope = VDict e" and shape: "shape_reasons s e now commit = []"
    and bound: "bound_reasons s e = []"
    and floors: "floor_reasons s e (max 0 (num e ''gpu_peak_bytes''
          - (num s ''dedicated_capacity_bytes'' - num s ''adapter_dedicated_bytes'')))
        (num s ''available_physical_bytes'' - num e ''host_peak_bytes'' - num e ''shared_physical_allowance_bytes'') = []"
    using admission_allowedD[OF assms(1)] by blast
  have same: "num s' ''dedicated_capacity_bytes'' = num s ''dedicated_capacity_bytes''"
    "num s' ''adapter_dedicated_bytes'' = num s ''adapter_dedicated_bytes''"
    using assms(2) by (simp_all add: roomier_def num_def)
  have more: "num s ''available_physical_bytes'' \<le> num s' ''available_physical_bytes''"
    "num s ''commit_headroom_bytes'' \<le> num s' ''commit_headroom_bytes''"
    using assms(2) by (simp_all add: roomier_def)
  have "bound_reasons s' e = []" using bound by (simp add: bound_reasons_def same)
  moreover have "floor_reasons s' e (max 0 (num e ''gpu_peak_bytes''
          - (num s' ''dedicated_capacity_bytes'' - num s' ''adapter_dedicated_bytes'')))
        (num s' ''available_physical_bytes'' - num e ''host_peak_bytes'' - num e ''shared_physical_allowance_bytes'') = []"
    using floors more by (simp add: floor_reasons_def same)
  ultimately show ?thesis using roomier_shape[OF assms(2) shape] e
    by (simp add: evaluate_admission_def Let_def)
qed

definition demo_roomier :: "(pystr \<times> pyval) list" where
  "demo_roomier = (lit ''available_physical_bytes'', VInt (70 * gib)) # tl demo_sample"

theorem admission_monotone_witness:
  "allowed (evaluate_admission (VDict demo_roomier) (VDict demo_envelope) (VInt 101) (lit ''c''))"
proof (rule admission_monotone[OF demo_admission])
  show "roomier demo_sample demo_roomier"
    by (auto simp: roomier_def demo_roomier_def demo_sample_def get_item_def num_def bytes_ok_def memory_consts)
qed

end
