(* ===== verification/OperatorPolicy.thy ===== *)
theory OperatorPolicy
  imports Admission JsonGuard
begin

text \<open>
  \<open>scripts/gufo_control/operator_policy.py\<close>: the bootstrap policy that judges telemetry frames against
  a measured baseline, before, during and after a probe runs. A frame is an untrusted snapshot with the
  times of its query. Shown here: every accepted frame is consistent and fresh, a baseline is always
  one the policy itself accepts, and the three verdicts mean the floors and envelopes they stand for.
\<close>

section \<open>Constants and data\<close>

definition mib :: int where "mib = 1048576"

definition gpu_fields :: "string list" where
  "gpu_fields = [''adapter_dedicated_bytes'', ''adapter_shared_bytes'', ''adapter_total_committed_bytes'']"

definition byte_fields :: "string list" where
  "byte_fields = [''available_physical_bytes'', ''host_committed_bytes'', ''host_commit_limit_bytes'',
     ''commit_headroom_bytes'', ''dedicated_capacity_bytes''] @ gpu_fields"

definition providers :: "pystr list" where
  "providers = [lit ''PDH/Get-Counter;DXGI/EnumAdapters1'', lit ''PDH/native-gauges;DXGI/EnumAdapters1'']"

record probe =
  pr_key :: pystr
  pr_filename :: pystr
  pr_sha256 :: pystr
  pr_gpu :: int
  pr_host :: int
  pr_deadline :: int
  pr_commit :: pystr
  pr_policy :: pystr

definition probe_commit :: pystr where
  "probe_commit = lit ''cff564964e8506c0abb3e530cecb55332187ac6c''"

definition probes :: "probe list" where
  "probes =
     [\<lparr>pr_key = lit ''gdn'', pr_filename = lit ''qwen38_flash_next_gdn_ops_test.exe'',
       pr_sha256 = lit ''DDA3E38D646CC9DDF141B8A73C2A725A5BAC755D6D2B5D8D637F19614922C97F'',
       pr_gpu = gib, pr_host = gib, pr_deadline = 30, pr_commit = probe_commit,
       pr_policy = lit ''operator-bootstrap-v1''\<rparr>,
      \<lparr>pr_key = lit ''iq-experts'', pr_filename = lit ''qwen38_flash_next_iq_experts_ops_test.exe'',
       pr_sha256 = lit ''AE8B70B1621880E4AD58AFEC52F607E70BBD79DBDD27F63A126F9394D7020AF8'',
       pr_gpu = 2 * gib, pr_host = 2 * gib, pr_deadline = 120, pr_commit = probe_commit,
       pr_policy = lit ''operator-bootstrap-v1''\<rparr>]"

text \<open>A \<open>datetime\<close>: without an offset, or the microseconds of its UTC instant. \<open>parse\<close> stands for
  \<open>datetime.fromisoformat\<close>, \<open>None\<close> being its \<open>ValueError\<close>.\<close>

datatype stamp = Naive | Aware int

type_synonym utc_parser = "pystr \<Rightarrow> stamp option"

record obs_frame =
  snapshot :: pyval
  query_start :: pyval
  query_end :: pyval
  validated_utc :: "stamp option"  \<comment> \<open>\<open>None\<close>: not a \<open>datetime\<close>\<close>

type_synonym identity = "pystr \<times> int"
  \<comment> \<open>adapter LUID and dedicated capacity; the other five parts are the constants checked below\<close>

record base_line =
  base_identity :: identity
  available_min :: int
  committed_max :: int
  gpu_max :: "int list"
  first_start :: pyval
  last_end :: pyval

section \<open>One frame\<close>

definition utc_of :: "stamp option \<Rightarrow> int option" where
  "utc_of v = (case v of Some (Aware t) \<Rightarrow> Some t | _ \<Rightarrow> None)"

text \<open>\<open>value.replace('Z', '+00:00')\<close>.\<close>

definition replace_z :: "pystr \<Rightarrow> pystr" where
  "replace_z s = concat (map (\<lambda>c. if c = 90 then lit ''+00:00'' else [c]) s)"

definition stamp_of :: "utc_parser \<Rightarrow> pyval \<Rightarrow> int option" where
  "stamp_of parse v = (case v of VStr s \<Rightarrow> utc_of (parse (replace_z s)) | _ \<Rightarrow> None)"

text \<open>\<open>re.fullmatch(r'0x[0-9a-f]{8}_0x[0-9a-f]{8}', luid)\<close>.\<close>

definition luid_ok :: "pystr \<Rightarrow> bool" where
  "luid_ok s \<longleftrightarrow> length s = 21 \<and> take 2 s = lit ''0x'' \<and> list_all lower_hex_digit (take 8 (drop 2 s))
     \<and> take 3 (drop 10 s) = lit ''_0x'' \<and> list_all lower_hex_digit (drop 13 s)"

text \<open>\<open>None\<close> is a raised exception, which the callers turn into \<open>invalid_frame\<close>.\<close>

definition adapter_identity :: "(pystr \<times> pyval) list \<Rightarrow> identity option" where
  "adapter_identity s =
     (case (map_of s (lit ''adapter_identity''), map_of s (lit ''adapter_luid'')) of
        (Some a, Some (VStr luid)) \<Rightarrow>
          (case as_dict a of
             None \<Rightarrow> None
           | Some d \<Rightarrow>
               if luid_ok luid
                  \<and> get_item d ''vendor_id'' = VInt 4098 \<and> get_item d ''device_id'' = VInt 5510
                  \<and> get_item d ''subsystem_id'' = VInt 2149392404 \<and> get_item d ''flags'' = VInt 0
                  \<and> get_item d ''description'' = VStr (lit ''AMD Radeon(TM) 8060S Graphics'')
                  \<and> (case get_item d ''luid'' of VStr l \<Rightarrow> map ascii_lower l = luid | _ \<Rightarrow> False)
                  \<and> get_item d ''dedicated_video_memory'' = VInt (num s ''dedicated_capacity_bytes'')
               then Some (luid, num s ''dedicated_capacity_bytes'') else None)
      | _ \<Rightarrow> None)"

definition counters_consistent :: "(pystr \<times> pyval) list \<Rightarrow> bool" where
  "counters_consistent s \<longleftrightarrow>
     num s ''host_committed_bytes'' \<le> num s ''host_commit_limit_bytes''
   \<and> num s ''commit_headroom_bytes'' = num s ''host_commit_limit_bytes'' - num s ''host_committed_bytes''
   \<and> num s ''dedicated_capacity_bytes'' \<noteq> 0
   \<and> num s ''adapter_dedicated_bytes'' \<le> num s ''dedicated_capacity_bytes''"

definition scope_ok :: "(pystr \<times> pyval) list \<Rightarrow> bool" where
  "scope_ok s \<longleftrightarrow> get_item s ''telemetry_ok'' = VBool True
     \<and> (case get_item s ''provider'' of VStr p \<Rightarrow> p \<in> set providers | _ \<Rightarrow> False)
     \<and> get_item s ''gpu_scope'' = VStr (lit ''adapter_aggregate'')
     \<and> get_item s ''host_scope'' = VStr (lit ''host_global'')
     \<and> get_item s ''inventory_scope'' = VStr (lit ''known_engine_and_guest_names'')"

definition age_limit :: rat where "age_limit = 5"
definition prelaunch_age :: rat where "prelaunch_age = 2"

text \<open>The part after the UTC stamps: \<open>now\<close> and \<open>now_utc\<close> are given together or not at all.\<close>

definition currency_reasons ::
    "(pyval \<times> stamp option) option \<Rightarrow> rat \<Rightarrow> rat \<Rightarrow> rat \<Rightarrow> int \<Rightarrow> int \<Rightarrow> string list" where
  "currency_reasons clock max_age t1 tc lo validated = (case clock of
      None \<Rightarrow> []
    | Some (now, now_utc) \<Rightarrow>
        (case time_of now of
           None \<Rightarrow> [''invalid_time'']
         | Some t \<Rightarrow>
             if t < t1 then [''invalid_time'']
             else (case utc_of now_utc of
                 None \<Rightarrow> [''invalid_frame'']
               | Some current \<Rightarrow>
                   if current < validated then [''invalid_time'']
                   else flag (max_age < t - tc \<or> max_age * 1000000 < of_int (current - lo))
                     ''stale_or_future_sample'')))"

definition timing_reasons ::
    "utc_parser \<Rightarrow> obs_frame \<Rightarrow> (pystr \<times> pyval) list \<Rightarrow> (pyval \<times> stamp option) option \<Rightarrow> rat \<Rightarrow> string list" where
  "timing_reasons parse f s clock max_age =
     (case (time_of (query_start f), time_of (query_end f), time_of (get_item s ''captured_monotonic'')) of
        (Some t0, Some t1, Some tc) \<Rightarrow>
          if \<not> (t0 \<le> tc \<and> tc \<le> t1) then [''invalid_time'']
          else if 2 < t1 - t0 then [''query_timeout'']
          else (case (stamp_of parse (get_item s ''sample_utc_min''), stamp_of parse (get_item s ''sample_utc_max''),
                      utc_of (validated_utc f)) of
              (Some lo, Some hi, Some validated) \<Rightarrow>
                if \<not> (lo \<le> hi \<and> hi \<le> validated) \<or> 5000000 < validated - lo then [''stale_or_future_sample'']
                else currency_reasons clock max_age t1 tc lo validated
            | _ \<Rightarrow> [''invalid_frame''])
      | _ \<Rightarrow> [''invalid_time''])"

definition frame_reasons ::
    "utc_parser \<Rightarrow> obs_frame \<Rightarrow> (pyval \<times> stamp option) option \<Rightarrow> rat \<Rightarrow> string list" where
  "frame_reasons parse f clock max_age =
     (case as_dict (snapshot f) of
        None \<Rightarrow> [''invalid_frame'']
      | Some s \<Rightarrow>
          if \<not> list_all (\<lambda>k. bytes_ok (get_item s k)) byte_fields then [''invalid_counter'']
          else if \<not> counters_consistent s then [''inconsistent_counter'']
          else if adapter_identity s = None then [''invalid_frame'']
          else if \<not> scope_ok s then [''invalid_scope'']
          else (case get_item s ''other_inference_pids'' of
              VList ps \<Rightarrow>
                if \<not> list_all pid_ok ps then [''invalid_inventory'']
                else if ps \<noteq> [] then [''other_inference_active'']
                else timing_reasons parse f s clock max_age
            | _ \<Rightarrow> [''invalid_inventory'']))"

text \<open>What the later code reads of an accepted frame.\<close>

definition dict_of :: "obs_frame \<Rightarrow> (pystr \<times> pyval) list" where
  "dict_of f = (case as_dict (snapshot f) of None \<Rightarrow> [] | Some s \<Rightarrow> s)"

definition counter :: "obs_frame \<Rightarrow> string \<Rightarrow> int" where
  "counter f k = num (dict_of f) k"

definition started_at :: "obs_frame \<Rightarrow> rat" where
  "started_at f = (case time_of (query_start f) of None \<Rightarrow> 0 | Some t \<Rightarrow> t)"

definition ended_at :: "obs_frame \<Rightarrow> rat" where
  "ended_at f = (case time_of (query_end f) of None \<Rightarrow> 0 | Some t \<Rightarrow> t)"

definition sampled_min :: "utc_parser \<Rightarrow> obs_frame \<Rightarrow> int" where
  "sampled_min parse f = (case stamp_of parse (get_item (dict_of f) ''sample_utc_min'') of None \<Rightarrow> 0 | Some t \<Rightarrow> t)"

definition validated_at :: "obs_frame \<Rightarrow> int" where
  "validated_at f = (case utc_of (validated_utc f) of None \<Rightarrow> 0 | Some t \<Rightarrow> t)"

section \<open>Series and baseline\<close>

definition order_reasons :: "utc_parser \<Rightarrow> obs_frame \<Rightarrow> obs_frame \<Rightarrow> string list" where
  "order_reasons parse p f =
     (if started_at f < ended_at p \<or> started_at f - started_at p < 1 \<or> validated_at f \<le> validated_at p
         \<or> sampled_min parse f \<le> sampled_min parse p then [''invalid_series_order'']
      else flag (5 < started_at f - started_at p) ''series_gap'')"

fun series_from :: "utc_parser \<Rightarrow> (obs_frame \<times> identity) option \<Rightarrow> obs_frame list \<Rightarrow> string list" where
  "series_from parse prev [] = []"
| "series_from parse prev (f # fs) =
     (let rs = frame_reasons parse f None age_limit
      in if rs \<noteq> [] then rs
         else (case adapter_identity (dict_of f) of
             None \<Rightarrow> [''invalid_frame'']
           | Some i \<Rightarrow>
               (case prev of
                  None \<Rightarrow> series_from parse (Some (f, i)) fs
                | Some (p, j) \<Rightarrow>
                    if i \<noteq> j then [''adapter_changed'']
                    else if order_reasons parse p f \<noteq> [] then order_reasons parse p f
                    else series_from parse (Some (f, i)) fs)))"

text \<open>\<open>frames\<close> is a list, as every caller passes.\<close>

definition series_reasons :: "utc_parser \<Rightarrow> obs_frame list \<Rightarrow> string list" where
  "series_reasons parse frames = (if frames = [] then [''invalid_series''] else series_from parse None frames)"

definition spread :: "obs_frame list \<Rightarrow> string \<Rightarrow> int" where
  "spread frames k = Max (set (map (\<lambda>f. counter f k) frames)) - Min (set (map (\<lambda>f. counter f k) frames))"

definition tolerances :: "(string \<times> int) list" where
  "tolerances = [(''available_physical_bytes'', 512 * mib), (''host_committed_bytes'', 512 * mib)]
     @ map (\<lambda>k. (k, 256 * mib)) gpu_fields"

definition baseline :: "utc_parser \<Rightarrow> obs_frame list \<Rightarrow> string + base_line" where
  "baseline parse frames =
     (case series_reasons parse frames of
        r # _ \<Rightarrow> Inl r
      | [] \<Rightarrow>
          let span = ended_at (last frames) - started_at (hd frames)
          in if length frames < 5 \<or> \<not> (10 \<le> span \<and> span \<le> 30) then Inl ''baseline_duration''
             else (case List.find (\<lambda>(k, tol). tol < spread frames k) tolerances of
                 Some (k, _) \<Rightarrow> Inl (''baseline_unstable:'' @ k)
               | None \<Rightarrow> (case adapter_identity (dict_of (hd frames)) of
                   None \<Rightarrow> Inl ''invalid_adapter''
                 | Some i \<Rightarrow> Inr \<lparr>base_identity = i,
                     available_min = Min (set (map (\<lambda>f. counter f ''available_physical_bytes'') frames)),
                     committed_max = Max (set (map (\<lambda>f. counter f ''host_committed_bytes'') frames)),
                     gpu_max = map (\<lambda>k. Max (set (map (\<lambda>f. counter f k) frames))) gpu_fields,
                     first_start = query_start (hd frames), last_end = query_end (last frames)\<rparr>)))"

definition in_range :: "int \<Rightarrow> bool" where
  "in_range i \<longleftrightarrow> 0 \<le> i \<and> i \<le> max_bytes"

definition base_valid :: "base_line \<Rightarrow> bool" where
  "base_valid b \<longleftrightarrow> length (gpu_max b) = 3
     \<and> list_all in_range (available_min b # committed_max b # gpu_max b)
     \<and> (case (time_of (first_start b), time_of (last_end b)) of
          (Some t0, Some t1) \<Rightarrow> 10 \<le> t1 - t0 \<and> t1 - t0 \<le> 30 | _ \<Rightarrow> False)"

definition base_end :: "base_line \<Rightarrow> rat" where
  "base_end b = (case time_of (last_end b) of None \<Rightarrow> 0 | Some t \<Rightarrow> t)"

section \<open>Verdicts\<close>

definition against_base :: "base_line \<Rightarrow> obs_frame \<Rightarrow> string list" where
  "against_base b f =
     (if adapter_identity (dict_of f) \<noteq> Some (base_identity b) then [''adapter_changed'']
      else flag (started_at f < base_end b) ''sample_before_baseline'')"

text \<open>The clock of a call: the currency check is skipped when neither \<open>now\<close> nor \<open>now_utc\<close> is given. For \<open>now_utc\<close>, \<open>None\<close>
  is Python's \<open>None\<close>; an object that is no \<open>datetime\<close> fails like a \<open>datetime\<close> without an offset, \<open>Some Naive\<close>.\<close>

definition clock_of :: "pyval \<Rightarrow> stamp option \<Rightarrow> (pyval \<times> stamp option) option" where
  "clock_of now now_utc = (if now = VNone \<and> now_utc = None then None else Some (now, now_utc))"

definition common_reasons ::
    "utc_parser \<Rightarrow> probe \<Rightarrow> base_line \<Rightarrow> obs_frame \<Rightarrow> pyval \<Rightarrow> stamp option \<Rightarrow> rat \<Rightarrow> string list" where
  "common_reasons parse p b f now now_utc max_age =
     (if p \<notin> set probes then [''unknown_probe'']
      else if \<not> base_valid b then [''invalid_baseline'']
      else let rs = frame_reasons parse f (clock_of now now_utc) max_age
           in if rs \<noteq> [] then rs else against_base b f)"

definition admission_reasons ::
    "utc_parser \<Rightarrow> probe \<Rightarrow> base_line \<Rightarrow> obs_frame \<Rightarrow> pyval \<Rightarrow> stamp option \<Rightarrow> string list" where
  "admission_reasons parse p b f now now_utc =
     (let rs = common_reasons parse p b f now now_utc prelaunch_age; charge = pr_gpu p + pr_host p
      in if rs \<noteq> [] then rs
         else flag (counter f ''available_physical_bytes'' < prelaunch_floor) ''prelaunch_physical_floor''
            @ flag (counter f ''available_physical_bytes'' - charge < runtime_floor) ''predicted_physical_floor''
            @ flag (counter f ''commit_headroom_bytes'' - charge < commit_reserve) ''commit_floor'')"

definition gpu_over :: "obs_frame \<Rightarrow> base_line \<Rightarrow> int list \<Rightarrow> string \<Rightarrow> string list" where
  "gpu_over f b allowances name =
     concat (map (\<lambda>(k, most, allowance). flag (allowance < counter f k - most) (name @ k))
       (zip gpu_fields (zip (gpu_max b) allowances)))"

definition runtime_reasons ::
    "utc_parser \<Rightarrow> probe \<Rightarrow> base_line \<Rightarrow> obs_frame \<Rightarrow> pyval \<Rightarrow> stamp option \<Rightarrow> string list" where
  "runtime_reasons parse p b f now now_utc =
     (let rs = common_reasons parse p b f now now_utc age_limit; charge = pr_gpu p + pr_host p
      in if rs \<noteq> [] then rs
         else flag (counter f ''available_physical_bytes'' < runtime_floor) ''runtime_physical_floor''
            @ flag (counter f ''commit_headroom_bytes'' < commit_reserve) ''commit_floor''
            @ flag (charge < available_min b - counter f ''available_physical_bytes'') ''physical_envelope''
            @ flag (charge < counter f ''host_committed_bytes'' - committed_max b) ''commit_envelope''
            @ gpu_over f b (replicate 3 (pr_gpu p)) ''gpu_envelope:'')"

definition not_recovered :: "base_line \<Rightarrow> obs_frame \<Rightarrow> string list" where
  "not_recovered b f =
     flag (counter f ''available_physical_bytes'' < max prelaunch_floor (available_min b - gib)) ''physical_not_recovered''
   @ flag (committed_max b + 512 * mib < counter f ''host_committed_bytes'') ''commit_not_recovered''
   @ flag (counter f ''commit_headroom_bytes'' < commit_reserve) ''commit_floor''
   @ gpu_over f b (replicate 3 (256 * mib)) ''gpu_not_recovered:''"

text \<open>\<open>list(dict.fromkeys(xs))\<close> keeps the first of equal elements.\<close>

definition first_of_each :: "'a list \<Rightarrow> 'a list" where
  "first_of_each xs = rev (remdups (rev xs))"

definition recovery_reasons :: "utc_parser \<Rightarrow> base_line \<Rightarrow> obs_frame list \<Rightarrow> string list" where
  "recovery_reasons parse b frames =
     (if \<not> base_valid b then [''invalid_baseline'']
      else let rs = series_reasons parse frames
      in if rs \<noteq> [] then rs
         else if length frames \<noteq> 5 then [''recovery_count'']
         else if against_base b (hd frames) \<noteq> [] then against_base b (hd frames)
         else first_of_each (concat (map (not_recovered b) frames)
           @ concat (map (\<lambda>k. flag (64 * mib < spread frames k) (''recovery_unstable:'' @ k)) gpu_fields)))"

section \<open>Accepted frames\<close>

definition fresh_at :: "rat \<Rightarrow> obs_frame \<Rightarrow> pyval \<Rightarrow> bool" where
  "fresh_at max_age f now \<longleftrightarrow> (\<exists>t c. time_of now = Some t
     \<and> time_of (get_item (dict_of f) ''captured_monotonic'') = Some c
     \<and> started_at f \<le> c \<and> c \<le> t \<and> t - c \<le> max_age)"

definition frame_ok :: "obs_frame \<Rightarrow> bool" where
  "frame_ok f \<longleftrightarrow> snapshot f = VDict (dict_of f)
     \<and> list_all (\<lambda>k. bytes_ok (get_item (dict_of f) k)) byte_fields
     \<and> counters_consistent (dict_of f) \<and> adapter_identity (dict_of f) \<noteq> None \<and> scope_ok (dict_of f)
     \<and> get_item (dict_of f) ''other_inference_pids'' = VList []
     \<and> time_of (query_start f) = Some (started_at f) \<and> time_of (query_end f) = Some (ended_at f)
     \<and> started_at f \<le> ended_at f \<and> ended_at f - started_at f \<le> 2"

lemma frame_reasons_path:
  assumes "frame_reasons parse f now_at a = []"
  shows "snapshot f = VDict (dict_of f)
     \<and> list_all (\<lambda>k. bytes_ok (get_item (dict_of f) k)) byte_fields
     \<and> counters_consistent (dict_of f) \<and> adapter_identity (dict_of f) \<noteq> None \<and> scope_ok (dict_of f)
     \<and> get_item (dict_of f) ''other_inference_pids'' = VList []
     \<and> timing_reasons parse f (dict_of f) now_at a = []"
  using assms
  by (auto simp: frame_reasons_def dict_of_def split: option.splits pyval.splits if_splits)

lemma timing_times:
  assumes "timing_reasons parse f s now_at a = []"
  shows "\<exists>c. time_of (query_start f) = Some (started_at f) \<and> time_of (query_end f) = Some (ended_at f)
    \<and> time_of (get_item s ''captured_monotonic'') = Some c \<and> started_at f \<le> c \<and> c \<le> ended_at f
    \<and> ended_at f - started_at f \<le> 2"
  using assms
  by (auto simp: timing_reasons_def started_at_def ended_at_def split: option.splits if_splits)

lemma frame_reasons_ok: "frame_reasons parse f now_at a = [] \<Longrightarrow> frame_ok f"
  using frame_reasons_path[of parse f now_at a] timing_times[of parse f "dict_of f" now_at a]
  by (auto simp: frame_ok_def)

lemma frame_reasons_fresh:
  assumes "frame_reasons parse f (Some (now, now_utc)) a = []"
  shows "fresh_at a f now"
proof -
  have timing: "timing_reasons parse f (dict_of f) (Some (now, now_utc)) a = []"
    using frame_reasons_path[OF assms] by blast
  obtain c where c: "time_of (query_start f) = Some (started_at f)" "time_of (query_end f) = Some (ended_at f)"
      "time_of (get_item (dict_of f) ''captured_monotonic'') = Some c" "started_at f \<le> c" "c \<le> ended_at f"
    using timing_times[OF timing] by blast
  obtain lo validated where "currency_reasons (Some (now, now_utc)) a (ended_at f) c lo validated = []"
    using timing c by (auto simp: timing_reasons_def split: option.splits if_splits)
  then obtain t where "time_of now = Some t" "ended_at f \<le> t" "t - c \<le> a"
    by (auto simp: currency_reasons_def not_less split: option.splits if_splits)
  then show ?thesis using c unfolding fresh_at_def by force
qed

lemma frame_reasons_clock:
  "frame_reasons parse f (clock_of now now_utc) a = []
   \<Longrightarrow> now = VNone \<and> now_utc = None \<or> fresh_at a f now"
  by (auto simp: clock_of_def split: if_splits dest: frame_reasons_fresh)

lemma frame_counter_range:
  assumes "frame_ok f" "k \<in> set byte_fields"
  shows "in_range (counter f k)"
  using assms bytes_ok_num[of "dict_of f" k] by (auto simp: frame_ok_def list_all_iff counter_def in_range_def)

definition ordered :: "obs_frame \<Rightarrow> obs_frame \<Rightarrow> bool" where
  "ordered p f \<longleftrightarrow> ended_at p \<le> started_at f \<and> started_at p + 1 \<le> started_at f
     \<and> started_at f \<le> started_at p + 5 \<and> adapter_identity (dict_of f) = adapter_identity (dict_of p)"

lemma order_reasons_ok: "order_reasons parse p f = [] \<Longrightarrow>
    ended_at p \<le> started_at f \<and> started_at p + 1 \<le> started_at f \<and> started_at f \<le> started_at p + 5"
  by (auto simp: order_reasons_def split: if_splits)

lemma series_from_ok:
  "series_from parse prev fs = [] \<Longrightarrow> (\<forall>p j. prev = Some (p, j) \<longrightarrow> adapter_identity (dict_of p) = Some j) \<Longrightarrow>
   list_all frame_ok fs
   \<and> successively ordered (case prev of None \<Rightarrow> fs | Some (p, _) \<Rightarrow> p # fs)"
proof (induction parse prev fs rule: series_from.induct)
  case (2 parse prev f fs)
  obtain i where f: "frame_reasons parse f None age_limit = []" "adapter_identity (dict_of f) = Some i"
    using "2.prems"(1) frame_reasons_path by (fastforce simp: Let_def split: if_splits option.splits)
  have ok: "frame_ok f" using f(1) by (rule frame_reasons_ok)
  show ?case
  proof (cases prev)
    case None
    then have "series_from parse (Some (f, i)) fs = []" using "2.prems" f by simp
    from "2.IH"(1)[OF refl _ f(2) None this] show ?thesis using None ok f by simp
  next
    case (Some a)
    obtain p j where p: "prev = Some (p, j)" using Some by (cases a) auto
    then have *: "i = j" "order_reasons parse p f = []" "series_from parse (Some (f, i)) fs = []"
      using "2.prems"(1) f by (auto split: if_splits)
    have "ordered p f"
      using order_reasons_ok[OF *(2)] "2.prems"(2) p *(1) f(2) by (cases j) (simp add: ordered_def)
    moreover have "list_all frame_ok fs \<and> successively ordered (f # fs)"
      using "2.IH"(2)[OF refl _ f(2) p refl _ _ *(3)] * f by simp
    ultimately show ?thesis using p ok by (simp add: successively_Cons)
  qed
qed (auto split: option.split)

lemma series_ok:
  assumes "series_reasons parse fs = []"
  shows "fs \<noteq> [] \<and> list_all frame_ok fs \<and> successively ordered fs"
  using assms series_from_ok[of parse None fs] by (auto simp: series_reasons_def split: if_splits)

lemma flag_concat_Nil: "concat (map (\<lambda>k. flag (P k) (g k)) ks) = [] \<longleftrightarrow> (\<forall>k\<in>set ks. \<not> P k)"
  by (induction ks) auto

lemma gpu_over_Nil:
  assumes "gpu_over f b allowances name = []" "gpu_max b = [x, y, z]" "allowances = [p, q, r]"
  shows "counter f ''adapter_dedicated_bytes'' \<le> x + p \<and> counter f ''adapter_shared_bytes'' \<le> y + q
    \<and> counter f ''adapter_total_committed_bytes'' \<le> z + r"
  using assms by (auto simp: gpu_over_def gpu_fields_def)

lemma first_of_each_Nil [simp]: "first_of_each xs = [] \<longleftrightarrow> xs = []"
  by (simp add: first_of_each_def)

lemma base_valid_gpu: "base_valid b \<Longrightarrow> \<exists>x y z. gpu_max b = [x, y, z]"
  by (auto simp: base_valid_def numeral_3_eq_3 length_Suc_conv)

section \<open>A concrete measurement\<close>

definition demo_adapter :: "(pystr \<times> pyval) list" where
  "demo_adapter = [(lit ''vendor_id'', VInt 4098), (lit ''device_id'', VInt 5510),
     (lit ''subsystem_id'', VInt 2149392404), (lit ''flags'', VInt 0),
     (lit ''description'', VStr (lit ''AMD Radeon(TM) 8060S Graphics'')),
     (lit ''luid'', VStr (lit ''0x00000000_0x0000000A'')),
     (lit ''dedicated_video_memory'', VInt (64 * gib))]"

definition demo_snapshot :: "nat \<Rightarrow> (pystr \<times> pyval) list" where
  "demo_snapshot n = [(lit ''available_physical_bytes'', VInt (60 * gib)), (lit ''host_committed_bytes'', VInt (20 * gib)),
     (lit ''host_commit_limit_bytes'', VInt (120 * gib)), (lit ''commit_headroom_bytes'', VInt (100 * gib)),
     (lit ''dedicated_capacity_bytes'', VInt (64 * gib)), (lit ''adapter_dedicated_bytes'', VInt gib),
     (lit ''adapter_shared_bytes'', VInt 0), (lit ''adapter_total_committed_bytes'', VInt gib),
     (lit ''adapter_identity'', VDict demo_adapter), (lit ''adapter_luid'', VStr (lit ''0x00000000_0x0000000a'')),
     (lit ''telemetry_ok'', VBool True), (lit ''provider'', VStr (lit ''PDH/Get-Counter;DXGI/EnumAdapters1'')),
     (lit ''gpu_scope'', VStr (lit ''adapter_aggregate'')), (lit ''host_scope'', VStr (lit ''host_global'')),
     (lit ''inventory_scope'', VStr (lit ''known_engine_and_guest_names'')), (lit ''other_inference_pids'', VList []),
     (lit ''captured_monotonic'', VFloat (Fin (of_nat n))),
     (lit ''sample_utc_min'', VStr (replicate n 48)), (lit ''sample_utc_max'', VStr (replicate n 48))]"

definition demo_frame :: "nat \<Rightarrow> obs_frame" where
  "demo_frame n = \<lparr>snapshot = VDict (demo_snapshot n), query_start = VFloat (Fin (of_nat n)),
     query_end = VFloat (Fin (of_nat n + 1)), validated_utc = Some (Aware (int n + 1))\<rparr>"

text \<open>A stand-in for the ISO parser: the instant is the length of the string.\<close>

definition demo_parse :: utc_parser where
  "demo_parse s = Some (Aware (int (length s)))"

lemma demo_dict [simp]: "dict_of (demo_frame n) = demo_snapshot n" "snapshot (demo_frame n) = VDict (demo_snapshot n)"
  by (simp_all add: demo_frame_def dict_of_def)

lemma demo_items [simp]:
  "get_item (demo_snapshot n) ''available_physical_bytes'' = VInt (60 * gib)"
  "get_item (demo_snapshot n) ''host_committed_bytes'' = VInt (20 * gib)"
  "get_item (demo_snapshot n) ''host_commit_limit_bytes'' = VInt (120 * gib)"
  "get_item (demo_snapshot n) ''commit_headroom_bytes'' = VInt (100 * gib)"
  "get_item (demo_snapshot n) ''dedicated_capacity_bytes'' = VInt (64 * gib)"
  "get_item (demo_snapshot n) ''adapter_dedicated_bytes'' = VInt gib"
  "get_item (demo_snapshot n) ''adapter_shared_bytes'' = VInt 0"
  "get_item (demo_snapshot n) ''adapter_total_committed_bytes'' = VInt gib"
  "get_item (demo_snapshot n) ''other_inference_pids'' = VList []"
  "get_item (demo_snapshot n) ''captured_monotonic'' = VFloat (Fin (of_nat n))"
  "get_item (demo_snapshot n) ''sample_utc_min'' = VStr (replicate n 48)"
  "get_item (demo_snapshot n) ''sample_utc_max'' = VStr (replicate n 48)"
  by (simp_all add: get_item_def demo_snapshot_def)

lemma demo_num [simp]: "num (demo_snapshot n) k = (case get_item (demo_snapshot n) k of VInt i \<Rightarrow> i | _ \<Rightarrow> 0)"
  by (simp add: num_def)

lemma demo_scope_ok [simp]: "scope_ok (demo_snapshot n)"
  by (simp add: scope_ok_def get_item_def demo_snapshot_def providers_def)

lemma demo_identity [simp]: "adapter_identity (demo_snapshot n) = Some (lit ''0x00000000_0x0000000a'', 64 * gib)"
proof -
  have "map_of (demo_snapshot n) (lit ''adapter_identity'') = Some (VDict demo_adapter)"
    "map_of (demo_snapshot n) (lit ''adapter_luid'') = Some (VStr (lit ''0x00000000_0x0000000a''))"
    by (simp_all add: demo_snapshot_def)
  moreover have "luid_ok (lit ''0x00000000_0x0000000a'')"
    by (simp add: luid_ok_def lit_def lower_hex_digit_def)
  moreover have "map ascii_lower (lit ''0x00000000_0x0000000A'') = lit ''0x00000000_0x0000000a''"
    by (simp add: lit_def ascii_lower_def)
  ultimately show ?thesis
    by (simp add: adapter_identity_def demo_adapter_def get_item_def) (simp add: demo_snapshot_def num_def get_item_def)
qed

lemma demo_shape [simp]:
  "list_all (\<lambda>k. bytes_ok (get_item (demo_snapshot n) k)) byte_fields" "counters_consistent (demo_snapshot n)"
  by (simp_all add: byte_fields_def gpu_fields_def bytes_ok_def memory_consts counters_consistent_def)

lemma demo_stamp [simp]: "stamp_of demo_parse (VStr (replicate n 48)) = Some (int n)"
proof -
  have "replace_z (replicate n 48) = replicate n 48" by (induction n) (simp_all add: replace_z_def)
  then show ?thesis by (simp add: stamp_of_def demo_parse_def utc_of_def)
qed

lemma demo_times [simp]:
  "time_of (query_start (demo_frame n)) = Some (of_nat n)" "time_of (query_end (demo_frame n)) = Some (of_nat n + 1)"
  "utc_of (validated_utc (demo_frame n)) = Some (int n + 1)"
  "time_of (VFloat (Fin (of_nat n))) = Some (of_nat n)"
  "time_of (VFloat (Fin (of_nat n + 1))) = Some (of_nat n + 1)" "utc_of (Some (Aware u)) = Some u"
  by (simp_all add: demo_frame_def time_of_def utc_of_def)

lemma demo_derived [simp]:
  "started_at (demo_frame n) = of_nat n" "ended_at (demo_frame n) = of_nat n + 1"
  "validated_at (demo_frame n) = int n + 1" "sampled_min demo_parse (demo_frame n) = int n"
  "counter (demo_frame n) k = num (demo_snapshot n) k"
  by (simp_all add: started_at_def ended_at_def validated_at_def sampled_min_def counter_def)

lemma demo_accepted [simp]: "frame_reasons demo_parse (demo_frame n) None limit = []"
  by (simp add: frame_reasons_def timing_reasons_def currency_reasons_def)

lemma demo_current [simp]:
  "frame_reasons demo_parse (demo_frame n) (Some (VFloat (Fin (of_nat n + 1)), Some (Aware (int n + 1)))) limit = []"
  if "1 \<le> limit"
  using that by (simp add: frame_reasons_def timing_reasons_def currency_reasons_def)

definition demo_series :: "obs_frame list" where
  "demo_series = map demo_frame [0, 3, 6, 9, 12]"

definition demo_base :: base_line where
  "demo_base = \<lparr>base_identity = (lit ''0x00000000_0x0000000a'', 64 * gib), available_min = 60 * gib,
     committed_max = 20 * gib, gpu_max = [gib, 0, gib], first_start = VFloat (Fin 0), last_end = VFloat (Fin 13)\<rparr>"

lemma demo_series_ok: "series_reasons demo_parse demo_series = []"
  by (simp add: series_reasons_def demo_series_def order_reasons_def)

lemma demo_baseline: "baseline demo_parse demo_series = Inr demo_base"
proof -
  have "spread demo_series k = 0" if "k \<in> set byte_fields" for k
    using that by (auto simp: spread_def demo_series_def byte_fields_def gpu_fields_def)
  then have stable: "List.find (\<lambda>(k, tol). tol < spread demo_series k) tolerances = None"
    by (simp add: tolerances_def byte_fields_def gpu_fields_def mib_def)
  show ?thesis unfolding baseline_def demo_series_ok list.case Let_def stable option.case
    by (simp add: demo_series_def demo_base_def gpu_fields_def) (simp add: demo_frame_def)
qed

lemma demo_base_valid: "base_valid demo_base"
  by (simp add: base_valid_def demo_base_def in_range_def memory_consts time_of_def)

lemma demo_against: "against_base demo_base (demo_frame (13 + n)) = []"
  by (simp add: against_base_def demo_base_def base_end_def time_of_def)

section \<open>Properties\<close>

text \<open>A measured baseline is sound: a baseline is computed only from at least five accepted frames
  of one adapter in strict order, it passes the policy's own validity check, and its figures bound
  those of every frame it was computed from.\<close>

theorem baseline_is_valid_and_bounds_frames:
  assumes "baseline parse frames = Inr b"
  shows "base_valid b \<and> 5 \<le> length frames \<and> list_all frame_ok frames \<and> successively ordered frames
    \<and> (\<forall>f\<in>set frames. available_min b \<le> counter f ''available_physical_bytes''
         \<and> counter f ''host_committed_bytes'' \<le> committed_max b
         \<and> list_all2 (\<lambda>k most. counter f k \<le> most) gpu_fields (gpu_max b))"
proof -
  let ?vals = "\<lambda>k. set (map (\<lambda>f. counter f k) frames)"
  have s: "series_reasons parse frames = []"
    using assms by (simp add: baseline_def split: list.splits)
  note ok = series_ok[OF s]
  obtain i where b: "b = \<lparr>base_identity = i, available_min = Min (?vals ''available_physical_bytes''),
      committed_max = Max (?vals ''host_committed_bytes''), gpu_max = map (\<lambda>k. Max (?vals k)) gpu_fields,
      first_start = query_start (hd frames), last_end = query_end (last frames)\<rparr>"
    and len: "5 \<le> length frames" and span: "10 \<le> ended_at (last frames) - started_at (hd frames)"
      "ended_at (last frames) - started_at (hd frames) \<le> 30"
    using assms s by (auto simp: baseline_def Let_def split: list.splits if_splits option.splits prod.splits)
  have frames: "frame_ok (hd frames)" "frame_ok (last frames)" "frames \<noteq> []"
    using ok by (auto simp: list_all_iff)
  have fin: "finite (?vals k)" "?vals k \<noteq> {}" for k using frames(3) by auto
  have range: "in_range v" if "v \<in> ?vals k" "k \<in> set byte_fields" for v k
    using that ok frame_counter_range by (auto simp: list_all_iff)
  have "in_range (Min (?vals k))" "in_range (Max (?vals k))" if "k \<in> set byte_fields" for k
    using range[OF Min_in[OF fin, of k] that] range[OF Max_in[OF fin, of k] that] .
  then have "base_valid b"
    using frames span by (simp add: b base_valid_def frame_ok_def gpu_fields_def byte_fields_def)
  moreover have "available_min b \<le> counter f ''available_physical_bytes''
         \<and> counter f ''host_committed_bytes'' \<le> committed_max b
         \<and> list_all2 (\<lambda>k most. counter f k \<le> most) gpu_fields (gpu_max b)" if "f \<in> set frames" for f
    using that by (simp add: b gpu_fields_def)
  ultimately show ?thesis using ok len by blast
qed

theorem baseline_is_valid_and_bounds_frames_witness:
  "base_valid demo_base \<and> available_min demo_base \<le> counter (demo_frame 3) ''available_physical_bytes''"
  using baseline_is_valid_and_bounds_frames[OF demo_baseline]
  by (auto simp: demo_series_def simp del: demo_derived)

text \<open>C32. A probe is admitted only into room: with no reason against it, the probe is one of the two
  reviewed ones, the frame is accepted, at most two seconds old at the time given, taken after the baseline on
  the same adapter with no other inference process, at least 49 GiB are free, and 24 GiB of memory and 12 GiB of
  commit remain after the probe's whole charge. Only a call that is given neither \<open>now\<close> nor \<open>now_utc\<close> skips the test of
  the age.\<close>

theorem operator_admission_is_safe:
  assumes "admission_reasons parse p b f now now_utc = []"
  shows "p \<in> set probes \<and> base_valid b \<and> frame_ok f \<and> (now = VNone \<and> now_utc = None \<or> fresh_at 2 f now)
    \<and> adapter_identity (dict_of f) = Some (base_identity b) \<and> base_end b \<le> started_at f
    \<and> 49 * gib \<le> counter f ''available_physical_bytes''
    \<and> pr_gpu p + pr_host p + 24 * gib \<le> counter f ''available_physical_bytes''
    \<and> pr_gpu p + pr_host p + 12 * gib \<le> counter f ''commit_headroom_bytes''"
proof -
  have "frame_reasons parse f (clock_of now now_utc) prelaunch_age = []"
    using assms by (auto simp: admission_reasons_def common_reasons_def Let_def split: if_splits)
  from frame_reasons_clock[OF this] frame_reasons_ok[OF this] show ?thesis using assms
    by (auto simp: admission_reasons_def common_reasons_def against_base_def Let_def prelaunch_age_def
        prelaunch_floor_def runtime_floor_def commit_reserve_def split: if_splits)
qed

theorem operator_admission_is_safe_witness:
  "pr_gpu (hd probes) + pr_host (hd probes) + 24 * gib \<le> counter (demo_frame 13) ''available_physical_bytes''"
proof -
  have "admission_reasons demo_parse (hd probes) demo_base (demo_frame 13)
      (VFloat (Fin (of_nat 13 + 1))) (Some (Aware (int 13 + 1))) = []"
    using demo_against[of 0] demo_base_valid demo_current[of prelaunch_age 13]
    by (simp add: admission_reasons_def common_reasons_def clock_of_def prelaunch_age_def probes_def memory_consts)
  from operator_admission_is_safe[OF this] show ?thesis by simp
qed

text \<open>A running probe stays inside its envelope: with no reason against it, at least 24 GiB are
  free and 12 GiB of commit remain, memory and commit use exceed the baseline by at most the probe's
  charge, and every GPU counter by at most its GPU share.\<close>

theorem operator_runtime_in_envelope:
  assumes "runtime_reasons parse p b f now now_utc = []"
  shows "frame_ok f \<and> (now = VNone \<and> now_utc = None \<or> fresh_at 5 f now) \<and> 24 * gib \<le> counter f ''available_physical_bytes''
    \<and> 12 * gib \<le> counter f ''commit_headroom_bytes''
    \<and> available_min b - counter f ''available_physical_bytes'' \<le> pr_gpu p + pr_host p
    \<and> counter f ''host_committed_bytes'' - committed_max b \<le> pr_gpu p + pr_host p
    \<and> list_all2 (\<lambda>k most. counter f k \<le> most + pr_gpu p) gpu_fields (gpu_max b)"
proof -
  have "frame_reasons parse f (clock_of now now_utc) age_limit = []" and b: "base_valid b"
    using assms by (auto simp: runtime_reasons_def common_reasons_def Let_def split: if_splits)
  note frame = frame_reasons_clock[OF this(1)] frame_reasons_ok[OF this(1)]
  obtain x y z where g: "gpu_max b = [x, y, z]" using base_valid_gpu[OF b] by blast
  have "gpu_over f b (replicate 3 (pr_gpu p)) ''gpu_envelope:'' = []"
    using assms by (auto simp: runtime_reasons_def Let_def split: if_splits)
  from gpu_over_Nil[OF this g] show ?thesis using assms frame g
    by (auto simp: runtime_reasons_def Let_def age_limit_def runtime_floor_def commit_reserve_def
        gpu_fields_def numeral_3_eq_3 split: if_splits)
qed

theorem operator_runtime_in_envelope_witness:
  "available_min demo_base - counter (demo_frame 13) ''available_physical_bytes'' \<le> pr_gpu (hd probes) + pr_host (hd probes)"
proof -
  have "runtime_reasons demo_parse (hd probes) demo_base (demo_frame 13)
      (VFloat (Fin (of_nat 13 + 1))) (Some (Aware (int 13 + 1))) = []"
    using demo_against[of 0] demo_base_valid demo_current[of age_limit 13]
    by (simp add: runtime_reasons_def common_reasons_def clock_of_def age_limit_def probes_def memory_consts)
       (simp add: demo_base_def gpu_over_def gpu_fields_def memory_consts numeral_3_eq_3)
  from operator_runtime_in_envelope[OF this] show ?thesis by blast
qed

text \<open>Recovery is real: with no reason against it, five accepted frames in strict order, all after
  the baseline and on its adapter, each show memory back above 49 GiB and within one GiB of the
  baseline, commit within 512 MiB, every GPU counter within 256 MiB, and 12 GiB of commit headroom.\<close>

theorem recovery_means_recovered:
  assumes "recovery_reasons parse b frames = []"
  shows "length frames = 5 \<and> list_all frame_ok frames \<and> successively ordered frames
    \<and> base_end b \<le> started_at (hd frames)
    \<and> (\<forall>f\<in>set frames. 49 * gib \<le> counter f ''available_physical_bytes''
        \<and> available_min b - gib \<le> counter f ''available_physical_bytes''
        \<and> counter f ''host_committed_bytes'' \<le> committed_max b + 512 * mib
        \<and> 12 * gib \<le> counter f ''commit_headroom_bytes''
        \<and> list_all2 (\<lambda>k most. counter f k \<le> most + 256 * mib) gpu_fields (gpu_max b))"
proof -
  have s: "series_reasons parse frames = []" and b: "base_valid b"
    and rest: "length frames = 5" "against_base b (hd frames) = []" "\<forall>f\<in>set frames. not_recovered b f = []"
    using assms by (auto simp: recovery_reasons_def Let_def split: if_splits)
  obtain x y z where g: "gpu_max b = [x, y, z]" using base_valid_gpu[OF b] by blast
  have "49 * gib \<le> counter f ''available_physical_bytes''
        \<and> available_min b - gib \<le> counter f ''available_physical_bytes''
        \<and> counter f ''host_committed_bytes'' \<le> committed_max b + 512 * mib
        \<and> 12 * gib \<le> counter f ''commit_headroom_bytes''
        \<and> list_all2 (\<lambda>k most. counter f k \<le> most + 256 * mib) gpu_fields (gpu_max b)"
    if "f \<in> set frames" for f
  proof -
    have n: "not_recovered b f = []" using rest(3) that by blast
    then have "gpu_over f b (replicate 3 (256 * mib)) ''gpu_not_recovered:'' = []"
      by (simp add: not_recovered_def)
    from gpu_over_Nil[OF this g] show ?thesis using n g
      by (auto simp: not_recovered_def prelaunch_floor_def commit_reserve_def gpu_fields_def numeral_3_eq_3)
  qed
  then show ?thesis using series_ok[OF s] rest(1,2)
    by (auto simp: against_base_def split: if_splits)
qed

theorem recovery_means_recovered_witness:
  "49 * gib \<le> counter (demo_frame 13) ''available_physical_bytes'' \<and> 49 * gib \<le> counter (demo_frame 25) ''available_physical_bytes''"
proof -
  let ?fs = "map demo_frame [13, 16, 19, 22, 25]"
  have "series_reasons demo_parse ?fs = []" by (simp add: series_reasons_def order_reasons_def)
  moreover have "not_recovered demo_base (demo_frame n) = []" for n
    by (simp add: not_recovered_def demo_base_def gpu_over_def gpu_fields_def memory_consts mib_def numeral_3_eq_3)
  moreover have "spread ?fs k = 0" if "k \<in> set gpu_fields" for k
    using that by (auto simp: spread_def gpu_fields_def)
  ultimately have "recovery_reasons demo_parse demo_base ?fs = []"
    using demo_base_valid demo_against[of 0]
    by (simp add: recovery_reasons_def gpu_fields_def mib_def)
  from recovery_means_recovered[OF this] show ?thesis by simp
qed

end
