(* ===== verification/SmokePolicy.thy ===== *)
theory SmokePolicy
  imports OperatorPolicy "HOL-Library.AList"
begin

text \<open>
  \<open>scripts/gufo_control/smoke_policy.py\<close> for every profile: the memory demand of a qualified profile, the
  exclusion of the one process the guardian owns from the inference inventory, the runtime envelope of a model
  server and its admission. The records a profile has to reproduce, and the closed pins of the services, are
  parameters. Shown here: a running server is tolerated only when the inventory lists nothing but the one process whose live identity was verified, an admission
  satisfies both the accounting and the frame policy, and the stricter runtime baseline is at least as
  strict as both baselines it is made from.
\<close>

section \<open>Profiles\<close>

record bounds =
  gpu_gib :: int
  host_gib :: int
  shared_gib :: int

definition profile_id_smoke :: pystr where "profile_id_smoke = lit ''ar4k-iq4xs-http-slots-smoke-v3''"

definition base_bounds :: bounds where "base_bounds = \<lparr>gpu_gib = 68, host_gib = 4, shared_gib = 20\<rparr>"

text \<open>\<open>profile_bounds\<close>: the gigabytes of each known profile; \<open>None\<close> is \<open>unknown_profile\<close>.\<close>

definition profile_bounds :: "pystr \<Rightarrow> bounds option" where
  "profile_bounds p =
     (if p = lit ''matched4k-iq4xs-mtp-length-d3-v1'' then Some (base_bounds\<lparr>gpu_gib := 73\<rparr>)
      else if p = lit ''mtp4k-iq4xs-draft1-bilingual-v1'' then Some (base_bounds\<lparr>gpu_gib := 71\<rparr>)
      else if p = lit ''matched4k-iq4xs-mtp-length-d1-v1'' then Some (base_bounds\<lparr>gpu_gib := 72\<rparr>)
      else if p \<in> set (map lit [''ar4k-iq4xs-http-slots-smoke-v3'', ''ar4k-iq4xs-correctness-pp1-v2'',
            ''ar16k-iq4xs-pp1-cache-v3'', ''matched4k-iq4xs-ar-v1'', ''matched4k-iq4xs-ar-v2'',
            ''ar4k-service-policy-smoke-v1'', ''ar4k-native-installed-v1'', ''ar4k-service-lifecycle-v1''])
      then Some base_bounds else None)"

record pins =
  pin_profile :: pystr
  pin_bounds :: bounds
  pin_commit :: pystr
  pin_revision :: pystr
  pin_margin :: pystr

record demand =
  gpu_peak :: int
  host_peak :: int
  shared_peak :: int
  commit_peak :: int

text \<open>\<open>_demand\<close>; \<open>None\<close> is \<open>unsafe_bounds\<close> or \<open>unknown_profile\<close>.\<close>

definition demand_of :: "pins \<Rightarrow> demand option" where
  "demand_of ps = (case profile_bounds (pin_profile ps) of
      None \<Rightarrow> None
    | Some b \<Rightarrow> if pin_bounds ps \<noteq> b then None
        else Some \<lparr>gpu_peak = gpu_gib b * gib, host_peak = host_gib b * gib,
                   shared_peak = shared_gib b * gib, commit_peak = (gpu_gib b + host_gib b) * gib\<rparr>)"

record smoke_profile =
  sp_profile :: pystr
  sp_demand :: demand
  sp_commit :: pystr
  sp_revision :: pystr
  sp_policy :: pystr
  sp_qualified :: bool
  sp_review :: pystr
  sp_shared_review :: pystr
  sp_json :: pystr

text \<open>The three service profiles; their admissions are bound to pins of their own.\<close>

definition service_smoke :: pystr where "service_smoke = lit ''ar4k-service-policy-smoke-v1''"
definition installed_service :: pystr where "installed_service = lit ''ar4k-native-installed-v1''"
definition finite_service :: pystr where "finite_service = lit ''ar4k-service-lifecycle-v1''"

definition service_profiles :: "pystr set" where
  "service_profiles = {service_smoke, installed_service, finite_service}"

text \<open>
  What the stores know of the records a profile has to reproduce, for the given pins:
  \<open>ql_expected review\<close> is the canonical text of \<open>expected_qualification(pins, review)\<close>;
  \<open>ql_acceptance json review envelope_review\<close> that of the installed service's \<open>acceptance_record\<close>, made with the
  workload and the artifacts found in the profile's own JSON; \<open>ql_review json\<close> the review, the envelope review and
  the canonical text of the finite service's record when \<open>validate_review\<close> accepts it; \<open>None\<close> each time where an
  exception is raised. \<open>ql_bound\<close> says whether \<open>service_binding\<close>, \<open>installed_binding\<close> or \<open>finite_binding\<close>,
  whichever belongs to the profile, accepts the pins.
\<close>

record qualification =
  ql_expected :: "pystr \<Rightarrow> pystr option"
  ql_acceptance :: "pystr \<Rightarrow> pystr \<Rightarrow> pystr \<Rightarrow> pystr option"
  ql_review :: "pystr \<Rightarrow> (pystr \<times> pystr \<times> pystr) option"
  ql_bound :: bool

definition expected_profile :: "pins \<Rightarrow> demand \<Rightarrow> pystr \<Rightarrow> pystr \<Rightarrow> pystr \<Rightarrow> smoke_profile" where
  "expected_profile ps d review shared_review q =
     \<lparr>sp_profile = pin_profile ps, sp_demand = d, sp_commit = pin_commit ps, sp_revision = pin_revision ps,
      sp_policy = lit ''measured_margin'', sp_qualified = True, sp_review = review, sp_shared_review = shared_review,
      sp_json = q\<rparr>"

text \<open>\<open>_profile_valid\<close>.\<close>

definition profile_valid :: "qualification \<Rightarrow> pins \<Rightarrow> smoke_profile \<Rightarrow> bool" where
  "profile_valid ql ps p \<longleftrightarrow> strip (sp_review p) \<noteq> []
     \<and> (case demand_of ps of
          None \<Rightarrow> False
        | Some d \<Rightarrow>
            if pin_profile ps = finite_service then
              ql_bound ql \<and> (case ql_review ql (sp_json p) of
                  None \<Rightarrow> False | Some (review, shared_review, q) \<Rightarrow> p = expected_profile ps d review shared_review q)
            else if pin_profile ps = installed_service then
              (case ql_acceptance ql (sp_json p) (sp_review p) (sp_shared_review p) of
                  None \<Rightarrow> False | Some q \<Rightarrow> p = expected_profile ps d (sp_review p) (sp_shared_review p) q)
            else
              (case ql_expected ql (sp_review p) of
                  None \<Rightarrow> False | Some q \<Rightarrow> p = expected_profile ps d (sp_review p) (pin_margin ps) q))"

definition envelope :: "smoke_profile \<Rightarrow> (pystr \<times> pyval) list" where
  "envelope p = map (\<lambda>(k, v). (lit k, v))
     [(''gpu_peak_bytes'', VInt (gpu_peak (sp_demand p))), (''host_peak_bytes'', VInt (host_peak (sp_demand p))),
      (''shared_physical_allowance_bytes'', VInt (shared_peak (sp_demand p))),
      (''commit_peak_bytes'', VInt (commit_peak (sp_demand p))),
      (''source_commit'', VStr (sp_commit p)), (''model_revision'', VStr (sp_revision p)),
      (''shared_memory_policy'', VStr (sp_policy p)), (''qualified'', VBool (sp_qualified p)),
      (''review_id'', VStr (sp_review p)), (''shared_allowance_review_id'', VStr (sp_shared_review p))]"

section \<open>Baselines\<close>

definition base_start :: "base_line \<Rightarrow> rat" where
  "base_start b = (case time_of (first_start b) of None \<Rightarrow> 0 | Some t \<Rightarrow> t)"

definition stricter_runtime_baseline :: "base_line \<Rightarrow> base_line \<Rightarrow> string + base_line" where
  "stricter_runtime_baseline original current =
     (if \<not> base_valid original \<or> \<not> base_valid current then Inl ''invalid_baseline''
      else if base_identity original \<noteq> base_identity current then Inl ''adapter_changed''
      else if base_start current < base_end original then Inl ''sample_before_baseline''
      else Inr (current\<lparr>available_min := max (available_min original) (available_min current),
             committed_max := min (committed_max original) (committed_max current),
             gpu_max := map (\<lambda>(a, b). min a b) (zip (gpu_max original) (gpu_max current))\<rparr>))"

section \<open>The owned process\<close>

definition put_item :: "string \<Rightarrow> pyval \<Rightarrow> (pystr \<times> pyval) list \<Rightarrow> (pystr \<times> pyval) list" where
  "put_item k v d = AList.update (lit k) v d"

lemma get_put_item [simp]: "get_item (put_item k v d) k' = (if k' = k then v else get_item d k')"
  by (simp add: get_item_def put_item_def update_conv')

lemma map_of_put_item [simp]: "map_of (put_item k v d) = (map_of d)(lit k \<mapsto> v)"
  by (simp add: put_item_def update_conv')

text \<open>\<open>canon\<close> stands for \<open>ntpath.normcase(ntpath.normpath(x))\<close>; \<open>live\<close> is what
  \<open>verify_live_identity()\<close> returned, \<open>None\<close> where it raised.\<close>

definition same_process :: "(pystr \<Rightarrow> pystr) \<Rightarrow> (pystr \<times> pyval) list \<Rightarrow> (pystr \<times> pyval) list \<Rightarrow> bool" where
  "same_process canon recorded live \<longleftrightarrow>
     list_all (\<lambda>k. pid_ok (get_item recorded k) \<and> get_item live k = get_item recorded k)
       [''pid'', ''creation_time_100ns'']
   \<and> (case (get_item recorded ''executable'', get_item live ''executable'') of
        (VStr r, VStr l) \<Rightarrow> r \<noteq> [] \<and> canon l = canon r | _ \<Rightarrow> False)"

definition inventory_proof :: "pyval \<Rightarrow> pyval \<Rightarrow> pyval" where
  "inventory_proof excluded live = VDict [(lit ''status'', VStr (lit ''verified'')),
     (lit ''excluded_pid'', excluded), (lit ''identity'', live)]"

definition owned_inventory_frame ::
    "(pystr \<Rightarrow> pystr) \<Rightarrow> (pystr \<times> pyval) list \<Rightarrow> pyval option \<Rightarrow> obs_frame \<Rightarrow> obs_frame option" where
  "owned_inventory_frame canon recorded live f =
     (case (live, as_dict (snapshot f)) of
        (Some (VDict l), Some s) \<Rightarrow>
          if \<not> same_process canon recorded l then None
          else
            let pid = get_item recorded ''pid'';
                (s', excluded) = (case get_item s ''other_inference_pids'' of
                    VList ps \<Rightarrow> if list_all pid_ok ps \<and> pid \<in> set ps
                      then (put_item ''other_inference_pids'' (VList (remove1 pid ps)) s, pid) else (s, VNone)
                  | _ \<Rightarrow> (s, VNone))
            in Some (f\<lparr>snapshot := VDict (put_item ''owned_inventory_proof'' (inventory_proof excluded (VDict l)) s')\<rparr>)
      | _ \<Rightarrow> None)"

section \<open>Verdicts\<close>

definition smoke_common ::
    "utc_parser \<Rightarrow> qualification \<Rightarrow> pins \<Rightarrow> smoke_profile \<Rightarrow> base_line \<Rightarrow> obs_frame
       \<Rightarrow> pyval \<Rightarrow> stamp option \<Rightarrow> rat \<Rightarrow> string list" where
  "smoke_common parse ql ps p b f now now_utc max_age =
     (if \<not> profile_valid ql ps p then [''unqualified_profile'']
      else if \<not> base_valid b then [''invalid_baseline'']
      else let rs = frame_reasons parse f (clock_of now now_utc) max_age
           in if rs \<noteq> [] then rs else against_base b f)"

definition numeric_reasons :: "demand \<Rightarrow> base_line \<Rightarrow> obs_frame \<Rightarrow> string list" where
  "numeric_reasons d b f =
     flag (counter f ''available_physical_bytes'' < runtime_floor) ''runtime_physical_floor''
   @ flag (counter f ''commit_headroom_bytes'' < commit_reserve) ''commit_floor''
   @ flag (host_peak d + shared_peak d < available_min b - counter f ''available_physical_bytes'') ''physical_envelope''
   @ flag (commit_peak d < counter f ''host_committed_bytes'' - committed_max b) ''commit_envelope''
   @ gpu_over f b [gpu_peak d, shared_peak d, gpu_peak d] ''gpu_envelope:''"

definition frame_numeric_reasons ::
    "utc_parser \<Rightarrow> qualification \<Rightarrow> pins \<Rightarrow> smoke_profile \<Rightarrow> base_line \<Rightarrow> obs_frame
       \<Rightarrow> pyval \<Rightarrow> stamp option \<Rightarrow> string list" where
  "frame_numeric_reasons parse ql ps p b f now now_utc =
     (let rs = smoke_common parse ql ps p b f now now_utc age_limit
      in if rs \<noteq> [] then rs else numeric_reasons (sp_demand p) b f)"

definition source_commit :: pystr where "source_commit = probe_commit"

text \<open>\<open>admission_decision\<close>; \<open>None\<close> is the \<open>ValueError\<close> of a service binding. The services are accounted under the source
  commit of their pins, every other profile under the fixed one. The copy of the ownership proof that the code adds to the
  result as evidence is left out.\<close>

definition accounted_commit :: "pins \<Rightarrow> pystr" where
  "accounted_commit ps = (if pin_profile ps \<in> service_profiles then pin_commit ps else source_commit)"

definition admission_decision ::
    "utc_parser \<Rightarrow> qualification \<Rightarrow> pins \<Rightarrow> smoke_profile \<Rightarrow> base_line \<Rightarrow> obs_frame
       \<Rightarrow> pyval \<Rightarrow> stamp option \<Rightarrow> decision option" where
  "admission_decision parse ql ps p b f now now_utc =
     (let rs = smoke_common parse ql ps p b f now now_utc prelaunch_age
      in if rs \<noteq> [] then Some (refused rs)
         else if pin_profile ps \<in> service_profiles \<and> \<not> ql_bound ql then None
         else
           let r = evaluate_admission (snapshot f) (VDict (envelope p)) now (accounted_commit ps);
               rs = first_of_each (reasons r @ frame_numeric_reasons parse ql ps p b f now now_utc)
           in Some (r\<lparr>reasons := rs, allowed := (rs = [])\<rparr>))"

definition runtime_decision ::
    "utc_parser \<Rightarrow> (pystr \<Rightarrow> pystr) \<Rightarrow> qualification \<Rightarrow> pins \<Rightarrow> smoke_profile \<Rightarrow> base_line \<Rightarrow> obs_frame
       \<Rightarrow> (pystr \<times> pyval) list \<Rightarrow> pyval option \<Rightarrow> pyval \<Rightarrow> stamp option \<Rightarrow> bool \<times> string list" where
  "runtime_decision parse canon ql ps p b f recorded live now now_utc =
     (case owned_inventory_frame canon recorded live f of
        None \<Rightarrow> (False, [''owned_identity_unverified''])
      | Some g \<Rightarrow>
          let rs = frame_numeric_reasons parse ql ps p b g now now_utc in (rs = [], rs))"

section \<open>Lemmas\<close>

lemma numeric_within:
  assumes "numeric_reasons d b f = []" "base_valid b"
  shows "24 * gib \<le> counter f ''available_physical_bytes'' \<and> 12 * gib \<le> counter f ''commit_headroom_bytes''
    \<and> available_min b - counter f ''available_physical_bytes'' \<le> host_peak d + shared_peak d
    \<and> counter f ''host_committed_bytes'' - committed_max b \<le> commit_peak d
    \<and> list_all2 (\<lambda>(k, allowance) most. counter f k \<le> most + allowance)
        (zip gpu_fields [gpu_peak d, shared_peak d, gpu_peak d]) (gpu_max b)"
proof -
  obtain x y z where g: "gpu_max b = [x, y, z]" using base_valid_gpu[OF assms(2)] by blast
  have "gpu_over f b [gpu_peak d, shared_peak d, gpu_peak d] ''gpu_envelope:'' = []"
    using assms(1) by (simp add: numeric_reasons_def)
  from gpu_over_Nil[OF this g refl] show ?thesis using assms(1) g
    by (simp add: numeric_reasons_def runtime_floor_def commit_reserve_def gpu_fields_def)
qed

lemma frame_numeric_path:
  assumes "frame_numeric_reasons parse ql ps p b f now now_utc = []"
  shows "profile_valid ql ps p \<and> base_valid b
    \<and> frame_reasons parse f (clock_of now now_utc) age_limit = [] \<and> against_base b f = []
    \<and> numeric_reasons (sp_demand p) b f = []"
  using assms by (auto simp: frame_numeric_reasons_def smoke_common_def Let_def split: if_splits)

lemma remove1_Nil: "remove1 x xs = [] \<Longrightarrow> x \<in> set xs \<Longrightarrow> xs = [x]"
  by (cases xs) (auto split: if_splits)

lemma owned_frame_inventory:
  assumes "owned_inventory_frame canon recorded live f = Some g"
    and "get_item (dict_of g) ''other_inference_pids'' = VList []"
  shows "\<exists>l. live = Some (VDict l) \<and> same_process canon recorded l
    \<and> get_item (dict_of f) ''other_inference_pids'' \<in> {VList [], VList [get_item recorded ''pid'']}"
proof -
  obtain l s where live: "live = Some (VDict l)" "snapshot f = VDict s" "same_process canon recorded l"
    using assms(1) by (auto simp: owned_inventory_frame_def split: option.splits pyval.splits if_splits)
  then show ?thesis using assms remove1_Nil
    by (fastforce simp: owned_inventory_frame_def dict_of_def Let_def split: pyval.splits if_splits)
qed

lemma owned_frame_counters:
  assumes "owned_inventory_frame canon recorded live f = Some g"
    and "k \<notin> {''other_inference_pids'', ''owned_inventory_proof''}"
  shows "get_item (dict_of g) k = get_item (dict_of f) k"
  using assms
  by (auto simp: owned_inventory_frame_def dict_of_def Let_def split: option.splits pyval.splits if_splits)

section \<open>Properties\<close>

text \<open>Only the owned process is tolerated: a running server is allowed to continue only when the
  inventory of inference processes lists nothing, or exactly the one process identifier the guardian
  recorded, whose live identity (pid, creation time, image path) was verified for this decision, and
  the frame's own counters keep the floors of 24 GiB memory and 12 GiB commit.\<close>

theorem runtime_tolerates_only_owned:
  assumes "fst (runtime_decision parse canon ql ps p b f recorded live now now_utc)"
  shows "\<exists>l. live = Some (VDict l) \<and> same_process canon recorded l
    \<and> get_item (dict_of f) ''other_inference_pids'' \<in> {VList [], VList [get_item recorded ''pid'']}
    \<and> 24 * gib \<le> counter f ''available_physical_bytes'' \<and> 12 * gib \<le> counter f ''commit_headroom_bytes''"
proof -
  obtain g where g: "owned_inventory_frame canon recorded live f = Some g"
    "frame_numeric_reasons parse ql ps p b g now now_utc = []"
    using assms by (auto simp: runtime_decision_def Let_def split: option.splits)
  note path = frame_numeric_path[OF g(2)]
  have "get_item (dict_of g) ''other_inference_pids'' = VList []"
    using path frame_reasons_path by blast
  moreover have "counter g k = counter f k" if "k \<in> set byte_fields" for k
    using owned_frame_counters[OF g(1), of k] that
    by (auto simp: counter_def num_def byte_fields_def gpu_fields_def)
  ultimately show ?thesis
    using owned_frame_inventory[OF g(1)] numeric_within[of "sp_demand p" b g] path
    by (simp add: byte_fields_def)
qed

definition demo_pins :: pins where
  "demo_pins = \<lparr>pin_profile = profile_id_smoke, pin_bounds = base_bounds, pin_commit = source_commit,
     pin_revision = replicate 40 48, pin_margin = lit ''m''\<rparr>"

definition demo_profile :: smoke_profile where
  "demo_profile = \<lparr>sp_profile = profile_id_smoke,
     sp_demand = \<lparr>gpu_peak = 68 * gib, host_peak = 4 * gib, shared_peak = 20 * gib, commit_peak = 72 * gib\<rparr>,
     sp_commit = source_commit, sp_revision = replicate 40 48, sp_policy = lit ''measured_margin'',
     sp_qualified = True, sp_review = lit ''r'', sp_shared_review = lit ''m'', sp_json = lit ''q''\<rparr>"

definition demo_qualification :: qualification where
  "demo_qualification = \<lparr>ql_expected = (\<lambda>review. Some (lit ''q'')), ql_acceptance = (\<lambda>q review shared. None),
     ql_review = (\<lambda>q. None), ql_bound = True\<rparr>"

definition demo_process :: "(pystr \<times> pyval) list" where
  "demo_process = [(lit ''pid'', VInt 7), (lit ''creation_time_100ns'', VInt 9), (lit ''executable'', VStr (lit ''gufo''))]"

lemma demo_profile_valid: "profile_valid demo_qualification demo_pins demo_profile"
  by (simp add: profile_valid_def expected_profile_def finite_service_def installed_service_def demo_profile_def demo_pins_def demo_qualification_def demand_of_def
      profile_bounds_def profile_id_smoke_def base_bounds_def strip_def is_space_def lit_def)

lemma demo_numeric: "numeric_reasons (sp_demand demo_profile) demo_base (demo_frame n) = []"
  by (simp add: numeric_reasons_def demo_profile_def demo_base_def gpu_over_def gpu_fields_def memory_consts)

text \<open>The proof of ownership added to a snapshot is not read by the frame policy.\<close>

abbreviation with_proof :: "pyval \<Rightarrow> (pystr \<times> pyval) list \<Rightarrow> (pystr \<times> pyval) list" where
  "with_proof v s \<equiv> put_item ''owned_inventory_proof'' v s"

lemma proof_reads:
  "num (with_proof v s) k = (if k = ''owned_inventory_proof'' then num [(lit k, v)] k else num s k)"
  by (simp add: num_def get_item_def put_item_def update_conv')

lemma proof_identity [simp]: "adapter_identity (with_proof v s) = adapter_identity s"
proof -
  have same: "num (with_proof v s) ''dedicated_capacity_bytes'' = num s ''dedicated_capacity_bytes''"
    by (simp add: proof_reads)
  show ?thesis unfolding adapter_identity_def map_of_put_item same by simp
qed

lemma proof_checks [simp]:
  "list_all (\<lambda>k. bytes_ok (get_item (with_proof v s) k)) byte_fields = list_all (\<lambda>k. bytes_ok (get_item s k)) byte_fields"
  "counters_consistent (with_proof v s) = counters_consistent s" "scope_ok (with_proof v s) = scope_ok s"
  by (simp_all add: byte_fields_def gpu_fields_def counters_consistent_def proof_reads scope_ok_def)

lemma proof_timing [simp]:
  "timing_reasons parse (f\<lparr>snapshot := x\<rparr>) (with_proof v s) clock a = timing_reasons parse f s clock a"
proof -
  have same: "get_item (with_proof v s) ''captured_monotonic'' = get_item s ''captured_monotonic''"
    "get_item (with_proof v s) ''sample_utc_min'' = get_item s ''sample_utc_min''"
    "get_item (with_proof v s) ''sample_utc_max'' = get_item s ''sample_utc_max''"
    "validated_utc (f\<lparr>snapshot := x\<rparr>) = validated_utc f"
    by simp_all
  show ?thesis unfolding timing_reasons_def same by simp
qed

lemma proof_pids [simp]: "get_item (with_proof v s) ''other_inference_pids'' = get_item s ''other_inference_pids''"
  by simp

lemma proof_frame:
  assumes "snapshot f = VDict s"
  shows "frame_reasons parse (f\<lparr>snapshot := VDict (with_proof v s)\<rparr>) clock a = frame_reasons parse f clock a"
  unfolding frame_reasons_def assms proof_timing proof_pids
  by (simp add: assms proof_timing del: get_put_item split: pyval.split)

lemma demo_runtime:
  "runtime_decision demo_parse id demo_qualification demo_pins demo_profile demo_base (demo_frame 13)
     demo_process (Some (VDict demo_process)) (VFloat (Fin (of_nat 13 + 1))) (Some (Aware (int 13 + 1))) = (True, [])"
proof -
  let ?v = "inventory_proof VNone (VDict demo_process)"
  let ?g = "(demo_frame 13)\<lparr>snapshot := VDict (with_proof ?v (demo_snapshot 13))\<rparr>"
  have owned: "owned_inventory_frame id demo_process (Some (VDict demo_process)) (demo_frame 13) = Some ?g"
    by (simp add: owned_inventory_frame_def same_process_def demo_process_def get_item_def[of "[_, _, _]"] pid_ok_def)
  have dict: "dict_of ?g = with_proof ?v (demo_snapshot 13)" by (simp add: dict_of_def)
  have "frame_reasons demo_parse ?g (Some (VFloat (Fin (of_nat 13 + 1)), Some (Aware (int 13 + 1)))) age_limit = []"
    using demo_current[of age_limit 13] by (simp add: proof_frame age_limit_def)
  moreover have "against_base demo_base ?g = []"
    using demo_against[of 0] by (auto simp: against_base_def dict started_at_def split: if_splits)
  ultimately have "smoke_common demo_parse demo_qualification demo_pins demo_profile demo_base ?g
      (VFloat (Fin (of_nat 13 + 1))) (Some (Aware (int 13 + 1))) age_limit = []"
    by (simp add: smoke_common_def clock_of_def demo_profile_valid demo_base_valid)
  moreover have "counter ?g k = counter (demo_frame 13) k" if "k \<noteq> ''owned_inventory_proof''" for k
    using that by (simp add: counter_def dict proof_reads)
  then have "numeric_reasons (sp_demand demo_profile) demo_base ?g = []"
    using demo_numeric[of 13]
    by (simp add: numeric_reasons_def gpu_over_def gpu_fields_def demo_base_def del: demo_derived)
  ultimately show ?thesis
    by (simp add: runtime_decision_def owned frame_numeric_reasons_def)
qed

theorem runtime_tolerates_only_owned_witness:
  "get_item (dict_of (demo_frame 13)) ''other_inference_pids'' \<in> {VList [], VList [VInt 7]}"
proof -
  have "get_item demo_process ''pid'' = VInt 7" by (simp add: demo_process_def get_item_def)
  then show ?thesis
    using runtime_tolerates_only_owned[of demo_parse id demo_qualification demo_pins demo_profile demo_base
        "demo_frame 13" demo_process "Some (VDict demo_process)"] demo_runtime
    by fastforce
qed

lemma admission_timed: "allowed (evaluate_admission sample env now commit) \<Longrightarrow> time_of now \<noteq> None"
  using admission_allowedD[of sample env now commit]
  by (auto simp: shape_reasons_def sample_age_reason_def split: option.splits)

lemma profile_valid_demand: "profile_valid ql ps p \<Longrightarrow> demand_of ps = Some (sp_demand p) \<and> sp_qualified p \<and> sp_commit p = pin_commit ps"
  by (auto simp: profile_valid_def expected_profile_def split: option.splits if_splits) (metis smoke_profile.select_convs)+

text \<open>C33. Composition of the two policies, for every profile: a server is admitted only when the profile is the qualified
  one with exactly the demand its bounds allow, the pins of a service are bound ones, the accounting of
  \<open>admission.py\<close> allows the frame's own snapshot under that profile's envelope and under the source commit of the
  profile, and the frame is accepted, at most two seconds old and within the runtime envelope.\<close>

theorem server_admission_composes:
  assumes "admission_decision parse ql ps p b f now now_utc = Some dec" "allowed dec"
  shows "profile_valid ql ps p \<and> demand_of ps = Some (sp_demand p)
    \<and> (pin_profile ps \<in> service_profiles \<longrightarrow> ql_bound ql)
    \<and> allowed (evaluate_admission (snapshot f) (VDict (envelope p)) now
        (if pin_profile ps \<in> service_profiles then pin_commit ps else source_commit))
    \<and> frame_ok f \<and> fresh_at 2 f now \<and> numeric_reasons (sp_demand p) b f = []
    \<and> num (dict_of f) ''available_physical_bytes'' \<ge> host_peak (sp_demand p) + shared_peak (sp_demand p) + 24 * gib"
proof -
  let ?r = "evaluate_admission (snapshot f) (VDict (envelope p)) now (accounted_commit ps)"
  have c: "smoke_common parse ql ps p b f now now_utc prelaunch_age = []"
    and r: "reasons ?r = []" "frame_numeric_reasons parse ql ps p b f now now_utc = []"
    and bound: "pin_profile ps \<in> service_profiles \<longrightarrow> ql_bound ql"
    using assms by (auto simp: admission_decision_def refused_def Let_def split: if_splits)
  have a: "allowed ?r" using r(1) by (simp add: decision_reasons)
  have f: "frame_reasons parse f (clock_of now now_utc) prelaunch_age = []"
    using c by (auto simp: smoke_common_def Let_def split: if_splits)
  have "now \<noteq> VNone" using admission_timed[OF a] by (auto simp: time_of_def)
  then have fresh: "fresh_at prelaunch_age f now" using frame_reasons_clock[OF f] by simp
  have valid: "profile_valid ql ps p"
    using c by (auto simp: smoke_common_def split: if_splits)
  have "num (envelope p) ''host_peak_bytes'' = host_peak (sp_demand p)"
    "num (envelope p) ''shared_physical_allowance_bytes'' = shared_peak (sp_demand p)"
    by (simp_all add: envelope_def num_def get_item_def)
  then have "num (dict_of f) ''available_physical_bytes'' \<ge> host_peak (sp_demand p) + shared_peak (sp_demand p) + 24 * gib"
    using admission_room[OF a] frame_reasons_path[OF f] by auto
  then show ?thesis
    using valid profile_valid_demand[OF valid] a bound frame_reasons_ok[OF f] fresh frame_numeric_path[OF r(2)]
    by (simp add: prelaunch_age_def accounted_commit_def)
qed

lemma demo_shape_reasons:
  "shape_reasons (demo_snapshot 13) (envelope demo_profile) (VFloat (Fin (of_nat 13 + 1))) source_commit = []"
proof -
  have "get_item (demo_snapshot 13) ''gpu_scope'' = VStr (lit ''adapter_aggregate'')"
    "get_item (demo_snapshot 13) ''host_scope'' = VStr (lit ''host_global'')"
    "get_item (demo_snapshot 13) ''telemetry_ok'' = VBool True"
    "text_ok (get_item (demo_snapshot 13) ''adapter_luid'')" "text_ok (get_item (demo_snapshot 13) ''provider'')"
    by (simp_all add: get_item_def demo_snapshot_def text_ok_def strip_def is_space_def lit_def)
  moreover have "sample_age_reason (VFloat (Fin (of_nat 13 + 1))) (demo_snapshot 13) = []"
    by (simp add: sample_age_reason_def max_sample_age_def time_of_def)
  ultimately show ?thesis
    by (simp add: shape_reasons_def sample_bytes_def envelope_bytes_def inventory_reason_def bytes_ok_def memory_consts)
       (simp add: envelope_def demo_profile_def get_item_def memory_consts text_ok_def strip_def is_space_def lit_def
          revision_ok_def list_all_iff lower_hex_digit_def)
qed

theorem server_admission_composes_witness:
  "host_peak (sp_demand demo_profile) + shared_peak (sp_demand demo_profile) + 24 * gib
     \<le> num (dict_of (demo_frame 13)) ''available_physical_bytes''"
proof -
  have env: "num (envelope demo_profile) ''gpu_peak_bytes'' = 68 * gib" "num (envelope demo_profile) ''host_peak_bytes'' = 4 * gib"
    "num (envelope demo_profile) ''shared_physical_allowance_bytes'' = 20 * gib"
    "num (envelope demo_profile) ''commit_peak_bytes'' = 72 * gib"
    by (simp_all add: envelope_def demo_profile_def num_def get_item_def)
  have "reasons (evaluate_admission (snapshot (demo_frame 13)) (VDict (envelope demo_profile))
      (VFloat (Fin (of_nat 13 + 1))) source_commit) = []"
    using demo_shape_reasons
    by (simp add: evaluate_admission_def bound_reasons_def floor_reasons_def env memory_consts Let_def)
  moreover have "smoke_common demo_parse demo_qualification demo_pins demo_profile demo_base (demo_frame 13)
      (VFloat (Fin (of_nat 13 + 1))) (Some (Aware (int 13 + 1))) age = []" if "1 \<le> age" for age
    using demo_current[of age 13] demo_against[of 0] that
    by (simp add: smoke_common_def clock_of_def demo_profile_valid demo_base_valid)
  moreover have "accounted_commit demo_pins = source_commit"
    by (simp add: accounted_commit_def service_profiles_def demo_pins_def profile_id_smoke_def service_smoke_def
        installed_service_def finite_service_def lit_def)
  moreover have "ql_bound demo_qualification" by (simp add: demo_qualification_def)
  ultimately obtain dec where "admission_decision demo_parse demo_qualification demo_pins demo_profile demo_base
      (demo_frame 13) (VFloat (Fin (of_nat 13 + 1))) (Some (Aware (int 13 + 1))) = Some dec" "allowed dec"
    using demo_numeric[of 13]
    by (simp add: admission_decision_def frame_numeric_reasons_def prelaunch_age_def age_limit_def)
  from server_admission_composes[OF this] show ?thesis by blast
qed

text \<open>The synthetic runtime baseline is strict: when it is formed from an original and a current
  baseline it is valid, and a frame that stays inside its envelope stays inside the envelopes of both.\<close>

theorem stricter_baseline_is_stricter:
  assumes "stricter_runtime_baseline original current = Inr b"
  shows "base_valid b \<and> base_identity b = base_identity current \<and> base_end b = base_end current
    \<and> (numeric_reasons d b f = [] \<longrightarrow> numeric_reasons d original f = [] \<and> numeric_reasons d current f = [])"
proof -
  have v: "base_valid original" "base_valid current"
    and b: "b = current\<lparr>available_min := max (available_min original) (available_min current),
             committed_max := min (committed_max original) (committed_max current),
             gpu_max := map (\<lambda>(a, b). min a b) (zip (gpu_max original) (gpu_max current))\<rparr>"
    using assms by (auto simp: stricter_runtime_baseline_def split: if_splits)
  obtain x y z where g: "gpu_max original = [x, y, z]" using base_valid_gpu[OF v(1)] by blast
  obtain x' y' z' where g': "gpu_max current = [x', y', z']" using base_valid_gpu[OF v(2)] by blast
  have "base_valid b" using v g g' by (auto simp: base_valid_def b in_range_def)
  then show ?thesis using g g'
    by (auto simp: b base_end_def numeric_reasons_def gpu_over_def gpu_fields_def)
qed

definition demo_later :: base_line where
  "demo_later = demo_base\<lparr>available_min := 62 * gib, first_start := VFloat (Fin 20), last_end := VFloat (Fin 33)\<rparr>"

theorem stricter_baseline_is_stricter_witness:
  "base_valid (demo_base\<lparr>available_min := 62 * gib, first_start := VFloat (Fin 20), last_end := VFloat (Fin 33)\<rparr>)"
proof -
  have "base_valid demo_later"
    by (simp add: demo_later_def base_valid_def demo_base_def in_range_def memory_consts time_of_def)
  then have "stricter_runtime_baseline demo_base demo_later = Inr demo_later"
    using demo_base_valid
    by (simp add: stricter_runtime_baseline_def demo_later_def)
       (simp add: demo_base_def base_end_def base_start_def time_of_def gib_def)
  from stricter_baseline_is_stricter[OF this] show ?thesis by (simp add: demo_later_def)
qed

end
