(* ===== verification/TranscriptGroups.thy ===== *)
theory TranscriptGroups
  imports PyVal
begin

text \<open>
  \<open>voice/native-bridge/transcript_groups.py\<close>: the text-only ledger of completed local speech. The
  parts of one response are admitted, started, emitted or retired one by one; when the response is
  complete, interrupted or handed over, the texts of its leading emitted parts become one transcript.
  Shown here: only text whose every part was actually emitted enters a transcript, in the order of
  admission, and the ledger and its transcripts stay within the configured limits.
\<close>

section \<open>State\<close>

datatype part_state = PartPending | PartStarted | PartEmitted | PartRetired

record part =
  pt_text :: pystr
  pt_state :: part_state
  pt_first :: "rat option"

record ('o, 't, 'p) group =
  g_owner :: 'o
  g_turn :: 't
  g_parts :: "('p \<times> part) list"
  g_finished :: bool

record ('o, 't) transcript =
  tr_text :: pystr
  tr_turn :: 't
  tr_owner :: 'o
  tr_first :: "rat option"
  tr_reason :: string

record tg_limits =
  max_groups :: nat
  max_parts :: nat
  max_chars :: nat
  max_utf8 :: nat

record ('o, 't, 'p) ledger =
  lg_limits :: tg_limits
  lg_groups :: "(nat \<times> ('o, 't, 'p) group) list"
  lg_ready :: "('o, 't) transcript list"
  lg_closed :: bool
  lg_next :: nat  \<comment> \<open>stands for the fresh \<open>object()\<close> of the next key\<close>

datatype tg_error = GroupOverflow | InvalidLimits | FloatOverflow

type_synonym ('o, 't, 'p, 'r) tg_result = "(tg_error + 'r) \<times> ('o, 't, 'p) ledger"

definition new_ledger :: "tg_limits \<Rightarrow> tg_error + ('o, 't, 'p) ledger" where
  "new_ledger l =
     (if max_groups l < 1 \<or> max_parts l < 1 \<or> max_chars l < 1 \<or> max_utf8 l < 1 then Inl InvalidLimits
      else Inr \<lparr>lg_limits = l, lg_groups = [], lg_ready = [], lg_closed = False, lg_next = 0\<rparr>)"

section \<open>Operations\<close>

text \<open>\<open>None\<close> for an owner or a turn is Python's \<open>None\<close>.\<close>

definition tg_open :: "'o option \<Rightarrow> 't option \<Rightarrow> ('o, 't, 'p) ledger \<Rightarrow> ('o, 't, 'p, nat option) tg_result" where
  "tg_open owner turn s = (case (owner, turn) of
      (Some ow, Some tn) \<Rightarrow>
        if lg_closed s then (Inr None, s)
        else if max_groups (lg_limits s) \<le> length (lg_groups s) \<or> max_groups (lg_limits s) \<le> length (lg_ready s)
        then (Inl GroupOverflow, s)
        else (Inr (Some (lg_next s)),
              s\<lparr>lg_groups := lg_groups s @ [(lg_next s, \<lparr>g_owner = ow, g_turn = tn, g_parts = [], g_finished = False\<rparr>)],
                lg_next := lg_next s + 1\<rparr>)
    | _ \<Rightarrow> (Inr None, s))"

definition group_of :: "nat \<Rightarrow> 'o \<Rightarrow> ('o, 't, 'p) ledger \<Rightarrow> ('o, 't, 'p) group option" where
  "group_of k ow s = (case map_of (lg_groups s) k of
      None \<Rightarrow> None | Some g \<Rightarrow> if g_owner g = ow then Some g else None)"

definition emitted_prefix :: "('o, 't, 'p) group \<Rightarrow> ('p \<times> part) list" where
  "emitted_prefix g = takeWhile (\<lambda>(p, e). pt_state e = PartEmitted) (g_parts g)"

definition joined :: "('p \<times> part) list \<Rightarrow> pystr" where
  "joined ps = join [32] (map (\<lambda>(p, e). pt_text e) ps)"

definition flush :: "nat \<Rightarrow> ('o, 't, 'p) group \<Rightarrow> string \<Rightarrow> ('o, 't, 'p) ledger \<Rightarrow> ('o, 't, 'p) ledger" where
  "flush k g reason s = s\<lparr>
     lg_ready := lg_ready s @ (case emitted_prefix g of
         [] \<Rightarrow> []
       | (p, e) # rest \<Rightarrow> [\<lparr>tr_text = joined (emitted_prefix g), tr_turn = g_turn g, tr_owner = g_owner g,
           tr_first = pt_first e, tr_reason = reason\<rparr>]),
     lg_groups := filter (\<lambda>(k', g'). k' \<noteq> k) (lg_groups s)\<rparr>"

definition set_group :: "nat \<Rightarrow> ('o, 't, 'p) group \<Rightarrow> ('o, 't, 'p) ledger \<Rightarrow> ('o, 't, 'p) ledger" where
  "set_group k g s = s\<lparr>lg_groups := map (\<lambda>(k', g'). if k' = k then (k, g) else (k', g')) (lg_groups s)\<rparr>"

definition complete :: "nat \<Rightarrow> ('o, 't, 'p) group \<Rightarrow> ('o, 't, 'p) ledger \<Rightarrow> ('o, 't, 'p) ledger" where
  "complete k g s =
     (let states = map (\<lambda>(p, e). pt_state e) (g_parts g)
      in if g_finished g \<and> set states \<subseteq> {PartEmitted, PartRetired}
         then flush k g (if PartRetired \<in> set states then ''partial_response'' else ''complete'') s
         else s)"

definition set_part :: "'p \<Rightarrow> part \<Rightarrow> ('o, 't, 'p) group \<Rightarrow> ('o, 't, 'p) group" where
  "set_part p e g = g\<lparr>g_parts := map (\<lambda>(q, e'). if q = p then (p, e) else (q, e')) (g_parts g)\<rparr>"

definition tg_admit ::
    "nat \<Rightarrow> 'o \<Rightarrow> 't \<Rightarrow> 'p \<Rightarrow> pyval \<Rightarrow> ('o, 't, 'p) ledger \<Rightarrow> ('o, 't, 'p, bool) tg_result" where
  "tg_admit k ow tn p said s = (case (group_of k ow s, as_str said) of
      (Some g, Some raw) \<Rightarrow>
        if lg_closed s \<or> g_turn g \<noteq> tn \<or> g_finished g \<or> strip raw = [] \<or> p \<in> fst ` set (g_parts g)
        then (Inr False, s)
        else
          let e = \<lparr>pt_text = strip raw, pt_state = PartPending, pt_first = None\<rparr>;
              text = joined (g_parts g @ [(p, e)]);
              l = lg_limits s
          in if max_parts l \<le> length (g_parts g) \<or> max_chars l < length text \<or> max_utf8 l < utf8_len text
             then (Inl GroupOverflow, flush k g ''transcript_group_overflow'' s)
             else (Inr True, set_group k (g\<lparr>g_parts := g_parts g @ [(p, e)]\<rparr>) s)
    | _ \<Rightarrow> (Inr False, s))"

text \<open>The part of a group whose owner matches, in a given state.\<close>

definition part_in :: "nat \<Rightarrow> 'o \<Rightarrow> 'p \<Rightarrow> part_state \<Rightarrow> ('o, 't, 'p) ledger \<Rightarrow> (('o, 't, 'p) group \<times> part) option" where
  "part_in k ow p st s = (case group_of k ow s of
      None \<Rightarrow> None
    | Some g \<Rightarrow> (case map_of (g_parts g) p of
        None \<Rightarrow> None | Some e \<Rightarrow> if pt_state e = st then Some (g, e) else None))"

definition tg_started ::
    "nat \<Rightarrow> 'o \<Rightarrow> 'p \<Rightarrow> pyval \<Rightarrow> ('o, 't, 'p) ledger \<Rightarrow> ('o, 't, 'p, bool) tg_result" where
  "tg_started k ow p moment s = (case part_in k ow p PartPending s of
      None \<Rightarrow> (Inr False, s)
    | Some (g, e) \<Rightarrow> (case finite_in (\<lambda>t. 0 \<le> t) moment of
        None \<Rightarrow> (Inl FloatOverflow, s)
      | Some False \<Rightarrow> (Inr False, s)
      | Some True \<Rightarrow>
          (Inr True, set_group k (set_part p (e\<lparr>pt_state := PartStarted, pt_first := finite_num moment\<rparr>) g) s)))"

definition finish_part :: "part_state \<Rightarrow> nat \<Rightarrow> 'p \<Rightarrow> ('o, 't, 'p) group \<times> part \<Rightarrow> ('o, 't, 'p) ledger \<Rightarrow> ('o, 't, 'p) ledger" where
  "finish_part st k p ge s = (case ge of (g, e) \<Rightarrow>
     let g' = set_part p (e\<lparr>pt_state := st\<rparr>) g in complete k g' (set_group k g' s))"

definition tg_emitted :: "nat \<Rightarrow> 'o \<Rightarrow> 'p \<Rightarrow> ('o, 't, 'p) ledger \<Rightarrow> ('o, 't, 'p, bool) tg_result" where
  "tg_emitted k ow p s = (case part_in k ow p PartStarted s of
      None \<Rightarrow> (Inr False, s) | Some ge \<Rightarrow> (Inr True, finish_part PartEmitted k p ge s))"

definition tg_retire :: "nat \<Rightarrow> 'o \<Rightarrow> 'p \<Rightarrow> ('o, 't, 'p) ledger \<Rightarrow> ('o, 't, 'p, bool) tg_result" where
  "tg_retire k ow p s = (case part_in k ow p PartPending s of
      None \<Rightarrow> (Inr False, s) | Some ge \<Rightarrow> (Inr True, finish_part PartRetired k p ge s))"

definition tg_finish :: "nat \<Rightarrow> 'o \<Rightarrow> ('o, 't, 'p) ledger \<Rightarrow> ('o, 't, 'p, bool) tg_result" where
  "tg_finish k ow s = (case group_of k ow s of
      None \<Rightarrow> (Inr False, s)
    | Some g \<Rightarrow> let g' = g\<lparr>g_finished := True\<rparr> in (Inr True, complete k g' (set_group k g' s)))"

definition tg_interrupt :: "nat \<Rightarrow> 'o \<Rightarrow> string \<Rightarrow> ('o, 't, 'p) ledger \<Rightarrow> ('o, 't, 'p, bool) tg_result" where
  "tg_interrupt k ow reason s = (case group_of k ow s of
      None \<Rightarrow> (Inr False, s) | Some g \<Rightarrow> (Inr True, flush k g reason s))"

definition retire_unless_live :: "'p list \<Rightarrow> ('o, 't, 'p) group \<Rightarrow> ('o, 't, 'p) group" where
  "retire_unless_live live g = g\<lparr>g_parts := map (\<lambda>(p, e).
     if pt_state e = PartPending \<and> p \<notin> set live then (p, e\<lparr>pt_state := PartRetired\<rparr>) else (p, e)) (g_parts g)\<rparr>"

fun for_groups ::
    "(nat \<Rightarrow> ('o, 't, 'p) group \<Rightarrow> ('o, 't, 'p) ledger \<Rightarrow> ('o, 't, 'p) ledger)
       \<Rightarrow> (nat \<times> ('o, 't, 'p) group) list \<Rightarrow> ('o, 't, 'p) ledger \<Rightarrow> ('o, 't, 'p) ledger" where
  "for_groups f [] s = s"
| "for_groups f ((k, g) # rest) s = for_groups f rest (f k g s)"

definition tg_retain :: "'p list \<Rightarrow> ('o, 't, 'p) ledger \<Rightarrow> ('o, 't, 'p) ledger" where
  "tg_retain live s = for_groups (\<lambda>k g s. let g' = retire_unless_live live g in complete k g' (set_group k g' s))
     (lg_groups s) s"

definition tg_before_native :: "('o, 't, 'p) ledger \<Rightarrow> ('o, 't, 'p) ledger" where
  "tg_before_native s = for_groups (\<lambda>k g. flush k g ''native_handoff'') (lg_groups s) s"

definition tg_close :: "('o, 't, 'p) ledger \<Rightarrow> ('o, 't, 'p) ledger" where
  "tg_close s = for_groups (\<lambda>k g. flush k g ''call_closed'') (lg_groups s) (s\<lparr>lg_closed := True\<rparr>)"

definition tg_take :: "('o, 't, 'p) ledger \<Rightarrow> ('o, 't) transcript list \<times> ('o, 't, 'p) ledger" where
  "tg_take s = (lg_ready s, s\<lparr>lg_ready := []\<rparr>)"

section \<open>Histories\<close>

datatype ('o, 't, 'p) tg_call =
    CallOpen "'o option" "'t option"
  | CallAdmit nat 'o 't 'p pyval
  | CallStarted nat 'o 'p pyval
  | CallEmitted nat 'o 'p
  | CallFinish nat 'o
  | CallRetire nat 'o 'p
  | CallRetain "'p list"
  | CallInterrupt nat 'o string
  | CallBeforeNative
  | CallClose
  | CallTake

text \<open>One call: whether it returned \<open>True\<close>, the transcripts it handed out, the state after it.\<close>

definition succeeded :: "('o, 't, 'p, bool) tg_result \<Rightarrow> bool \<times> ('o, 't) transcript list \<times> ('o, 't, 'p) ledger" where
  "succeeded r = (fst r = Inr True, [], snd r)"

fun tg_do :: "('o, 't, 'p) tg_call \<Rightarrow> ('o, 't, 'p) ledger \<Rightarrow> bool \<times> ('o, 't) transcript list \<times> ('o, 't, 'p) ledger" where
  "tg_do (CallOpen ow tn) s = (False, [], snd (tg_open ow tn s))"
| "tg_do (CallAdmit k ow tn p said) s = succeeded (tg_admit k ow tn p said s)"
| "tg_do (CallStarted k ow p t) s = succeeded (tg_started k ow p t s)"
| "tg_do (CallEmitted k ow p) s = succeeded (tg_emitted k ow p s)"
| "tg_do (CallFinish k ow) s = succeeded (tg_finish k ow s)"
| "tg_do (CallRetire k ow p) s = succeeded (tg_retire k ow p s)"
| "tg_do (CallRetain live) s = (False, [], tg_retain live s)"
| "tg_do (CallInterrupt k ow r) s = succeeded (tg_interrupt k ow r s)"
| "tg_do CallBeforeNative s = (False, [], tg_before_native s)"
| "tg_do CallClose s = (False, [], tg_close s)"
| "tg_do CallTake s = (False, fst (tg_take s), snd (tg_take s))"

text \<open>A history: the calls that returned \<open>True\<close>, all transcripts handed out, the final state.\<close>

fun tg_run :: "('o, 't, 'p) tg_call list \<Rightarrow> ('o, 't, 'p) tg_call list \<times> ('o, 't) transcript list \<times> ('o, 't, 'p) ledger
    \<Rightarrow> ('o, 't, 'p) tg_call list \<times> ('o, 't) transcript list \<times> ('o, 't, 'p) ledger" where
  "tg_run [] r = r"
| "tg_run (c # cs) (calls, taken, s) = (case tg_do c s of (ok, out, s') \<Rightarrow>
     tg_run cs (if ok then calls @ [c] else calls, taken @ out, s'))"

section \<open>Invariant\<close>

type_synonym ('o, 't, 'p) calls = "('o, 't, 'p) tg_call list"

definition part_ok :: "('o, 't, 'p) calls \<Rightarrow> nat \<Rightarrow> ('o, 't, 'p) group \<Rightarrow> 'p \<times> part \<Rightarrow> bool" where
  "part_ok calls k g pe \<longleftrightarrow> (case pe of (p, e) \<Rightarrow>
     (\<exists>raw. CallAdmit k (g_owner g) (g_turn g) p (VStr raw) \<in> set calls \<and> pt_text e = strip raw)
   \<and> (pt_state e = PartEmitted \<longrightarrow> CallEmitted k (g_owner g) p \<in> set calls))"

definition group_ok :: "tg_limits \<Rightarrow> ('o, 't, 'p) calls \<Rightarrow> nat \<Rightarrow> ('o, 't, 'p) group \<Rightarrow> bool" where
  "group_ok l calls k g \<longleftrightarrow> distinct (map fst (g_parts g)) \<and> length (g_parts g) \<le> max_parts l \<and> length (joined (g_parts g)) \<le> max_chars l
     \<and> utf8_len (joined (g_parts g)) \<le> max_utf8 l \<and> list_all (part_ok calls k g) (g_parts g)"

text \<open>A transcript is evidence: its text joins the texts of parts that were admitted and emitted.\<close>

definition evidenced :: "('o, 't, 'p) calls \<Rightarrow> ('o, 't) transcript \<Rightarrow> bool" where
  "evidenced calls tr \<longleftrightarrow> (\<exists>k parts. parts \<noteq> [] \<and> tr_text tr = join [32] (map snd parts)
     \<and> (\<forall>(p, t)\<in>set parts. CallEmitted k (tr_owner tr) p \<in> set calls
          \<and> (\<exists>raw. CallAdmit k (tr_owner tr) (tr_turn tr) p (VStr raw) \<in> set calls \<and> t = strip raw)))"

definition transcript_ok :: "tg_limits \<Rightarrow> ('o, 't, 'p) calls \<Rightarrow> ('o, 't) transcript \<Rightarrow> bool" where
  "transcript_ok l calls tr \<longleftrightarrow> length (tr_text tr) \<le> max_chars l \<and> utf8_len (tr_text tr) \<le> max_utf8 l \<and> evidenced calls tr"

definition ledger_ok :: "tg_limits \<Rightarrow> ('o, 't, 'p) calls \<Rightarrow> ('o, 't, 'p) ledger \<Rightarrow> bool" where
  "ledger_ok l calls s \<longleftrightarrow> lg_limits s = l \<and> 1 \<le> max_groups l
     \<and> distinct (map fst (lg_groups s)) \<and> (\<forall>k\<in>fst ` set (lg_groups s). k < lg_next s)
     \<and> length (lg_groups s) \<le> max_groups l \<and> length (lg_groups s) + length (lg_ready s) \<le> 2 * max_groups l - 1
     \<and> (\<forall>(k, g)\<in>set (lg_groups s). group_ok l calls k g) \<and> list_all (transcript_ok l calls) (lg_ready s)"

lemma part_ok_more: "part_ok calls k g pe \<Longrightarrow> set calls \<subseteq> set calls' \<Longrightarrow> part_ok calls' k g pe"
  by (auto simp: part_ok_def)

lemma group_ok_more: "group_ok l calls k g \<Longrightarrow> set calls \<subseteq> set calls' \<Longrightarrow> group_ok l calls' k g"
  using part_ok_more by (fastforce simp: group_ok_def list_all_iff)

lemma evidenced_more: "evidenced calls tr \<Longrightarrow> set calls \<subseteq> set calls' \<Longrightarrow> evidenced calls' tr"
  by (fastforce simp: evidenced_def)

lemma transcript_ok_more: "transcript_ok l calls tr \<Longrightarrow> set calls \<subseteq> set calls' \<Longrightarrow> transcript_ok l calls' tr"
  by (auto simp: transcript_ok_def intro: evidenced_more)

lemma ledger_ok_more:
  assumes "ledger_ok l calls s" "set calls \<subseteq> set calls'" shows "ledger_ok l calls' s"
proof -
  have "\<forall>(k, g)\<in>set (lg_groups s). group_ok l calls' k g"
    using assms group_ok_more by (fastforce simp: ledger_ok_def)
  moreover have "list_all (transcript_ok l calls') (lg_ready s)"
    using assms transcript_ok_more by (fastforce simp: ledger_ok_def list_all_iff)
  ultimately show ?thesis using assms(1) by (simp add: ledger_ok_def)
qed

lemma join_append_le:
  "length (join sep xs) \<le> length (join sep (xs @ ys)) \<and> utf8_len (join sep xs) \<le> utf8_len (join sep (xs @ ys))"
proof (induction ys rule: rev_induct)
  case (snoc y ys)
  have "length (join sep (xs @ ys)) \<le> length (join sep (xs @ ys @ [y]))
      \<and> utf8_len (join sep (xs @ ys)) \<le> utf8_len (join sep (xs @ ys @ [y]))"
    by (cases "xs @ ys = []") (simp_all add: join_append_single flip: append_assoc)
  then show ?case using snoc by simp
qed simp

lemma prefix_split: "g_parts g = emitted_prefix g @ dropWhile (\<lambda>(p, e). pt_state e = PartEmitted) (g_parts g)"
  by (simp add: emitted_prefix_def)

lemma prefix_emitted: "(p, e) \<in> set (emitted_prefix g) \<Longrightarrow> (p, e) \<in> set (g_parts g) \<and> pt_state e = PartEmitted"
  by (auto simp: emitted_prefix_def dest: set_takeWhileD)

lemma flush_transcript:
  assumes "group_ok l calls k g" "emitted_prefix g \<noteq> []"
  shows "transcript_ok l calls \<lparr>tr_text = joined (emitted_prefix g), tr_turn = g_turn g, tr_owner = g_owner g,
     tr_first = x, tr_reason = r\<rparr>"
proof -
  let ?texts = "map (\<lambda>(p, e). (p, pt_text e)) (emitted_prefix g)"
  let ?rest = "map (\<lambda>(p, e). pt_text e) (dropWhile (\<lambda>(p, e). pt_state e = PartEmitted) (g_parts g))"
  have "joined (g_parts g) = join [32] (map (\<lambda>(p, e). pt_text e) (emitted_prefix g) @ ?rest)"
    unfolding joined_def by (subst prefix_split) simp
  then have "length (joined (emitted_prefix g)) \<le> max_chars l \<and> utf8_len (joined (emitted_prefix g)) \<le> max_utf8 l"
    using assms(1) join_append_le[of "[32]" "map (\<lambda>(p, e). pt_text e) (emitted_prefix g)" ?rest]
    unfolding group_ok_def joined_def by (metis (no_types, lifting) order.trans)
  moreover have "joined (emitted_prefix g) = join [32] (map snd ?texts)"
    unfolding joined_def by (rule arg_cong[where f = "join [32]"]) auto
  moreover have "CallEmitted k (g_owner g) p \<in> set calls
      \<and> (\<exists>raw. CallAdmit k (g_owner g) (g_turn g) p (VStr raw) \<in> set calls \<and> t = strip raw)"
    if "(p, t) \<in> set ?texts" for p t
    using that assms(1) prefix_emitted[of p _ g]
    by (fastforce simp: group_ok_def list_all_iff part_ok_def)
  ultimately show ?thesis using assms(2) unfolding transcript_ok_def evidenced_def
    by (auto intro!: exI[of _ k] exI[of _ ?texts])
qed

lemma filter_key_less:
  assumes "k \<in> fst ` set xs" shows "length (filter (\<lambda>(k', g). k' \<noteq> k) xs) < length xs"
proof -
  obtain g where "(k, g) \<in> set xs" using assms by auto
  then show ?thesis by (rule length_filter_less) simp
qed

lemma flush_ok:
  assumes "ledger_ok l calls s" "group_ok l calls k g" "k \<in> fst ` set (lg_groups s)"
  shows "ledger_ok l calls (flush k g r s)"
proof -
  let ?gs = "filter (\<lambda>(k', g'). k' \<noteq> k) (lg_groups s)"
  have "distinct (map fst ?gs)" using assms(1) by (simp add: ledger_ok_def distinct_map_filter)
  moreover have "length ?gs + length (lg_ready (flush k g r s)) \<le> length (lg_groups s) + length (lg_ready s)"
    using filter_key_less[OF assms(3)] by (simp add: flush_def split: list.split)
  moreover have "list_all (transcript_ok l calls) (lg_ready (flush k g r s))"
    using assms(1) flush_transcript[OF assms(2)]
    by (auto simp: flush_def ledger_ok_def split: list.split)
  ultimately show ?thesis using assms(1) filter_key_less[OF assms(3)]
    by (auto simp: ledger_ok_def flush_def)
qed

lemma set_group_keys [simp]: "map fst (lg_groups (set_group k g s)) = map fst (lg_groups s)"
  by (auto simp: set_group_def)

lemma set_group_key_set [simp]: "fst ` set (lg_groups (set_group k g s)) = fst ` set (lg_groups s)"
  using set_group_keys by (metis list.set_map)

lemma set_group_frame [simp]:
  "lg_ready (set_group k g s) = lg_ready s" "lg_next (set_group k g s) = lg_next s"
  "lg_limits (set_group k g s) = lg_limits s" "length (lg_groups (set_group k g s)) = length (lg_groups s)"
  by (simp_all add: set_group_def)

lemma set_group_ok:
  assumes "ledger_ok l calls s" "group_ok l calls k g" shows "ledger_ok l calls (set_group k g s)"
proof -
  have "\<forall>(k', g')\<in>set (lg_groups (set_group k g s)). group_ok l calls k' g'"
    using assms by (auto simp: ledger_ok_def set_group_def split: if_splits)
  then show ?thesis using assms(1) by (simp add: ledger_ok_def)
qed

lemma complete_ok:
  assumes "ledger_ok l calls s" "group_ok l calls k g" "k \<in> fst ` set (lg_groups s)"
  shows "ledger_ok l calls (complete k g s)"
  using flush_ok[OF assms] assms(1) by (simp add: complete_def Let_def)

lemma group_of_ok:
  assumes "ledger_ok l calls s" "group_of k ow s = Some g"
  shows "group_ok l calls k g \<and> k \<in> fst ` set (lg_groups s) \<and> g_owner g = ow"
  using assms by (force simp: group_of_def ledger_ok_def split: option.splits if_splits dest: map_of_SomeD)

lemma part_in_ok:
  assumes "part_in k ow p st s = Some (g, e)"
  shows "group_of k ow s = Some g \<and> (p, e) \<in> set (g_parts g) \<and> pt_state e = st"
  using assms by (auto simp: part_in_def split: option.splits if_splits dest: map_of_SomeD)

text \<open>Changing the state of one part keeps the texts.\<close>

lemma map_parts_ok:
  assumes "group_ok l calls k g"
    and "\<And>p e. (p, e) \<in> set (g_parts g) \<Longrightarrow> part_ok calls k g (p, f p e) \<and> pt_text (f p e) = pt_text e"
  shows "group_ok l calls k (g\<lparr>g_parts := map (\<lambda>(p, e). (p, f p e)) (g_parts g)\<rparr>)"
proof -
  have "map (\<lambda>(p, e). pt_text e) (map (\<lambda>(p, e). (p, f p e)) (g_parts g)) = map (\<lambda>(p, e). pt_text e) (g_parts g)"
    using assms(2) by auto
  then have "joined (map (\<lambda>(p, e). (p, f p e)) (g_parts g)) = joined (g_parts g)"
    unfolding joined_def by (rule arg_cong)
  moreover have "map fst (map (\<lambda>(p, e). (p, f p e)) (g_parts g)) = map fst (g_parts g)" by auto
  moreover have "part_ok calls k (g\<lparr>g_parts := x\<rparr>) = part_ok calls k g" for x
    by (auto simp: part_ok_def fun_eq_iff)
  ultimately show ?thesis using assms by (auto simp: group_ok_def list_all_iff simp del: map_map)
qed

section \<open>Preservation\<close>

lemma set_part_ok:
  assumes "group_ok l calls k g" "(p, e0) \<in> set (g_parts g)" "pt_text e = pt_text e0"
    and "pt_state e = PartEmitted \<Longrightarrow> CallEmitted k (g_owner g) p \<in> set calls"
  shows "group_ok l calls k (set_part p e g)"
proof -
  have "e' = e0" if "(p, e') \<in> set (g_parts g)" for e'
    using assms(1,2) that by (auto simp: group_ok_def dest: eq_key_imp_eq_value)
  moreover have "part_ok calls k g (p, e)"
    using assms by (auto simp: group_ok_def list_all_iff part_ok_def)
  ultimately have "group_ok l calls k (g\<lparr>g_parts := map (\<lambda>(q, e'). (q, if q = p then e else e')) (g_parts g)\<rparr>)"
    using assms(1,3) by (intro map_parts_ok) (auto simp: group_ok_def list_all_iff)
  moreover have "map (\<lambda>(q, e'). (q, if q = p then e else e')) (g_parts g)
      = map (\<lambda>(q, e'). if q = p then (p, e) else (q, e')) (g_parts g)"
    by auto
  ultimately show ?thesis by (simp add: set_part_def)
qed

lemma set_part_owner [simp]: "g_owner (set_part p e g) = g_owner g"
  by (simp add: set_part_def)

lemma update_group_ok:
  "ledger_ok l calls s \<Longrightarrow> group_ok l calls k g \<Longrightarrow> k \<in> fst ` set (lg_groups s)
     \<Longrightarrow> ledger_ok l calls (complete k g (set_group k g s))"
  by (rule complete_ok[OF set_group_ok]) simp_all

lemma finish_part_ok:
  assumes s: "ledger_ok l calls s" and part: "part_in k ow p st s = Some (g, e)"
    and e: "st' = PartEmitted \<Longrightarrow> CallEmitted k ow p \<in> set calls"
  shows "ledger_ok l calls (finish_part st' k p (g, e) s)"
proof -
  note in_g = part_in_ok[OF part]
  have g: "group_ok l calls k g" "k \<in> fst ` set (lg_groups s)" "g_owner g = ow"
    using group_of_ok[OF s, of k ow g] in_g by blast+
  have "group_ok l calls k (set_part p (e\<lparr>pt_state := st'\<rparr>) g)"
    using in_g g e by (intro set_part_ok) auto
  then show ?thesis using g(2) update_group_ok[OF s] by (simp add: finish_part_def Let_def)
qed

lemma admit_ok:
  assumes "ledger_ok l calls s" "tg_admit k ow tn p said s = (r, s')"
  shows "ledger_ok l (if r = Inr True then calls @ [CallAdmit k ow tn p said] else calls) s'"
proof -
  consider "s' = s" "r \<noteq> Inr True"
    | g where "group_of k ow s = Some g" "s' = flush k g ''transcript_group_overflow'' s" "r \<noteq> Inr True"
    | g raw e where "group_of k ow s = Some g" "said = VStr raw" "g_turn g = tn" "p \<notin> fst ` set (g_parts g)"
        "e = \<lparr>pt_text = strip raw, pt_state = PartPending, pt_first = None\<rparr>" "r = Inr True"
        "s' = set_group k (g\<lparr>g_parts := g_parts g @ [(p, e)]\<rparr>) s"
        "length (g_parts g) < max_parts (lg_limits s)"
        "length (joined (g_parts g @ [(p, e)])) \<le> max_chars (lg_limits s)"
        "utf8_len (joined (g_parts g @ [(p, e)])) \<le> max_utf8 (lg_limits s)"
    using assms(2) by (auto simp: tg_admit_def Let_def not_le not_less split: option.splits if_splits)
  then show ?thesis
  proof cases
    case 2
    then show ?thesis using group_of_ok[OF assms(1) 2(1)] flush_ok[OF assms(1)] by simp
  next
    case 3
    let ?calls = "calls @ [CallAdmit k ow tn p said]"
    have g: "group_ok l ?calls k g" "g_owner g = ow"
      using group_of_ok[OF assms(1) 3(1)] group_ok_more[of l calls k g ?calls] by auto
    have same: "part_ok ?calls k (g\<lparr>g_parts := x\<rparr>) = part_ok ?calls k g" for x
      by (auto simp: part_ok_def fun_eq_iff)
    have "part_ok ?calls k g (p, e)" using 3 g(2) by (auto simp: part_ok_def)
    moreover have "lg_limits s = l" using assms(1) by (simp add: ledger_ok_def)
    ultimately have "group_ok l ?calls k (g\<lparr>g_parts := g_parts g @ [(p, e)]\<rparr>)"
      using g(1) 3(4,8-10) by (simp add: group_ok_def same)
    moreover have "ledger_ok l ?calls s" by (rule ledger_ok_more[OF assms(1)]) auto
    ultimately have "ledger_ok l ?calls s'" unfolding 3(7) by (intro set_group_ok)
    then show ?thesis using 3(6) by simp
  qed (use assms(1) in simp)
qed

lemma for_groups_ok:
  assumes step: "\<And>k g s. ledger_ok l calls s \<Longrightarrow> group_ok l calls k g \<Longrightarrow> k \<in> fst ` set (lg_groups s)
      \<Longrightarrow> ledger_ok l calls (f k g s) \<and> fst ` set (lg_groups s) - {k} \<subseteq> fst ` set (lg_groups (f k g s))"
    and "ledger_ok l calls s" "distinct (map fst gs)" "fst ` set gs \<subseteq> fst ` set (lg_groups s)"
    and "\<forall>(k, g)\<in>set gs. group_ok l calls k g"
  shows "ledger_ok l calls (for_groups f gs s)"
  using assms(2-)
proof (induction gs arbitrary: s)
  case (Cons kg gs)
  obtain k g where kg: "kg = (k, g)" by fastforce
  then have "ledger_ok l calls (f k g s)" "fst ` set (lg_groups s) - {k} \<subseteq> fst ` set (lg_groups (f k g s))"
    using step[OF Cons.prems(1), of k g] Cons.prems by auto
  moreover have "fst ` set gs \<subseteq> fst ` set (lg_groups s) - {k}"
  proof -
    have "k \<notin> fst ` set gs" "fst ` set gs \<subseteq> fst ` set (lg_groups s)" using Cons.prems(2,3) kg by simp_all
    then show ?thesis by blast
  qed
  ultimately have "ledger_ok l calls (for_groups f gs (f k g s))"
    using Cons.prems kg by (intro Cons.IH) auto
  then show ?case using kg by simp
qed simp

lemma flush_keys: "fst ` set (lg_groups (flush k g r s)) = fst ` set (lg_groups s) - {k}"
  by (force simp: flush_def)

lemma complete_keys: "fst ` set (lg_groups s) - {k} \<subseteq> fst ` set (lg_groups (complete k g s))"
  by (auto simp: complete_def Let_def flush_keys)

lemma all_groups: "ledger_ok l calls s \<Longrightarrow> distinct (map fst (lg_groups s)) \<and> (\<forall>(k, g)\<in>set (lg_groups s). group_ok l calls k g)"
  by (simp add: ledger_ok_def)

lemma retire_ok: "group_ok l calls k g \<Longrightarrow> group_ok l calls k (retire_unless_live live g)"
proof -
  assume g: "group_ok l calls k g"
  have same: "map (\<lambda>(p, e). if pt_state e = PartPending \<and> p \<notin> set live then (p, e\<lparr>pt_state := PartRetired\<rparr>) else (p, e)) (g_parts g)
      = map (\<lambda>(p, e). (p, if pt_state e = PartPending \<and> p \<notin> set live then e\<lparr>pt_state := PartRetired\<rparr> else e)) (g_parts g)"
    by auto
  show "group_ok l calls k (retire_unless_live live g)"
    unfolding retire_unless_live_def same
    using g by (intro map_parts_ok) (auto simp: group_ok_def list_all_iff part_ok_def)
qed

lemma retain_ok: "ledger_ok l calls s \<Longrightarrow> ledger_ok l calls (tg_retain live s)"
proof -
  assume s: "ledger_ok l calls s"
  have "ledger_ok l calls (complete k (retire_unless_live live g) (set_group k (retire_unless_live live g) t))
     \<and> fst ` set (lg_groups t) - {k} \<subseteq> fst ` set (lg_groups (complete k (retire_unless_live live g) (set_group k (retire_unless_live live g) t)))"
    if "ledger_ok l calls t" "group_ok l calls k g" "k \<in> fst ` set (lg_groups t)" for k g t
    using update_group_ok[OF that(1) retire_ok[OF that(2)] that(3)]
      complete_keys[of "set_group k (retire_unless_live live g) t" k "retire_unless_live live g"]
    by simp
  then show ?thesis unfolding tg_retain_def Let_def
    using all_groups[OF s] by (intro for_groups_ok s) auto
qed

lemma flush_all_ok:
  "ledger_ok l calls s \<Longrightarrow> ledger_ok l calls (for_groups (\<lambda>k g. flush k g r) (lg_groups s) s)"
  using all_groups[of l calls s] by (intro for_groups_ok) (auto simp: flush_keys intro: flush_ok)

lemma close_ok: "ledger_ok l calls s \<Longrightarrow> ledger_ok l calls (tg_close s)"
  using flush_all_ok[of l calls "s\<lparr>lg_closed := True\<rparr>"] by (simp add: tg_close_def ledger_ok_def)

lemma open_ok: "ledger_ok l calls s \<Longrightarrow> ledger_ok l calls (snd (tg_open ow tn s))"
  by (auto simp: tg_open_def ledger_ok_def group_ok_def joined_def less_Suc_eq split: option.split)

lemma started_ok:
  assumes s: "ledger_ok l calls s" shows "ledger_ok l calls (snd (tg_started k ow p t s))"
proof (cases "part_in k ow p PartPending s")
  case (Some ge)
  obtain g e where ge: "ge = (g, e)" by fastforce
  note in_g = part_in_ok[OF Some[unfolded ge]]
  have g: "group_ok l calls k g" using group_of_ok[OF s, of k ow g] in_g by blast
  have "group_ok l calls k (set_part p (e\<lparr>pt_state := PartStarted, pt_first := finite_num t\<rparr>) g)"
    using in_g g by (intro set_part_ok) auto
  then show ?thesis using Some ge set_group_ok[OF s] s
    by (simp add: tg_started_def split: option.split bool.split)
next
  case None
  then show ?thesis using s by (simp add: tg_started_def)
qed

lemma finish_group_ok:
  assumes s: "ledger_ok l calls s" "group_of k ow s = Some g"
  shows "ledger_ok l calls (complete k (g\<lparr>g_finished := True\<rparr>) (set_group k (g\<lparr>g_finished := True\<rparr>) s))"
proof -
  have "group_ok l calls k (g\<lparr>g_finished := True\<rparr>)" "k \<in> fst ` set (lg_groups s)"
    using group_of_ok[OF s] by (auto simp: group_ok_def part_ok_def list_all_iff)
  then show ?thesis by (rule update_group_ok[OF s(1)])
qed

lemma tg_do_ok:
  assumes s: "ledger_ok l calls s" and r: "tg_do c s = (ok, out, s')"
  shows "ledger_ok l (if ok then calls @ [c] else calls) s'
    \<and> list_all (transcript_ok l (if ok then calls @ [c] else calls)) out"
proof -
  let ?calls = "if ok then calls @ [c] else calls"
  have more: "ledger_ok l ?calls s" by (rule ledger_ok_more[OF s]) auto
  have owner: "group_of k ow s = Some g \<Longrightarrow> group_ok l ?calls k g \<and> k \<in> fst ` set (lg_groups s)" for k ow g
    using group_of_ok[OF more] by blast
  show ?thesis
  proof (cases c)
    case (CallAdmit k ow tn p said)
    then show ?thesis using admit_ok[OF s, of k ow tn p said] r
      by (cases "tg_admit k ow tn p said s") (auto simp: succeeded_def)
  next
    case (CallEmitted k ow p)
    then show ?thesis using r more finish_part_ok[OF more, of k ow p PartStarted _ _ PartEmitted]
      by (auto simp: succeeded_def tg_emitted_def split: option.splits)
  next
    case (CallRetire k ow p)
    then show ?thesis using r more finish_part_ok[OF more, of k ow p PartPending _ _ PartRetired]
      by (auto simp: succeeded_def tg_retire_def split: option.splits)
  next
    case (CallFinish k ow)
    then show ?thesis using r more finish_group_ok[OF more, of k ow]
      by (auto simp: succeeded_def tg_finish_def Let_def split: option.splits)
  next
    case (CallInterrupt k ow reason)
    then show ?thesis using r more owner flush_ok[OF more]
      by (auto simp: succeeded_def tg_interrupt_def split: option.splits)
  next
    case (CallStarted k ow p t)
    then show ?thesis using r started_ok[OF more, of k ow p t] by (auto simp: succeeded_def)
  next
    case (CallOpen ow tn)
    then show ?thesis using r open_ok[OF s, of ow tn] by auto
  next
    case (CallRetain live)
    then show ?thesis using r retain_ok[OF s, of live] by auto
  next
    case CallBeforeNative
    then show ?thesis using r flush_all_ok[OF s] by (auto simp: tg_before_native_def)
  next
    case CallClose
    then show ?thesis using r close_ok[OF s] by auto
  next
    case CallTake
    then have "ok = False" "out = lg_ready s" "s' = s\<lparr>lg_ready := []\<rparr>" using r by (simp_all add: tg_take_def)
    then show ?thesis using s by (simp add: ledger_ok_def)
  qed
qed

lemma tg_run_ok:
  assumes "ledger_ok l calls s" "list_all (transcript_ok l calls) taken"
    and "tg_run cs (calls, taken, s) = (calls', taken', s')"
  shows "ledger_ok l calls' s' \<and> list_all (transcript_ok l calls') taken'"
  using assms
proof (induction cs arbitrary: calls taken s)
  case (Cons c cs)
  obtain ok out s1 where one: "tg_do c s = (ok, out, s1)" by (metis prod.exhaust)
  let ?calls = "if ok then calls @ [c] else calls"
  have "list_all (transcript_ok l ?calls) taken"
    using Cons.prems(2) transcript_ok_more[of l calls _ ?calls] unfolding list_all_iff by (metis set_append Un_upper1 order_refl)
  then show ?case using Cons.IH[of ?calls s1 "taken @ out"] tg_do_ok[OF Cons.prems(1) one] Cons.prems(3) one
    by simp
qed simp

lemma new_ledger_ok: "new_ledger l = Inr s \<Longrightarrow> ledger_ok l [] s \<and> lg_limits s = l"
  by (auto simp: new_ledger_def ledger_ok_def split: if_splits)

section \<open>Properties\<close>

text \<open>C31. A transcript is evidence of speech: in every history of a ledger, the text of each transcript
  handed out is the admitted texts of a non-empty list of parts, joined by spaces, and each of those
  parts was admitted to that response with that text and reported emitted by its owner.\<close>

theorem transcripts_are_evidence:
  assumes "new_ledger l = Inr s" "tg_run cs ([], [], s) = (calls, taken, s')" "tr \<in> set taken"
  shows "\<exists>k parts. parts \<noteq> [] \<and> tr_text tr = join [32] (map snd parts)
    \<and> (\<forall>(p, t)\<in>set parts. CallEmitted k (tr_owner tr) p \<in> set calls
         \<and> (\<exists>raw. CallAdmit k (tr_owner tr) (tr_turn tr) p (VStr raw) \<in> set calls \<and> t = strip raw))"
proof -
  have "list_all (transcript_ok l calls) taken"
    using tg_run_ok[of l "[]" s "[]" cs calls taken s'] new_ledger_ok[OF assms(1)] assms(2) by simp
  then have "evidenced calls tr" using assms(3) by (simp add: list_all_iff transcript_ok_def)
  then show ?thesis unfolding evidenced_def .
qed

text \<open>The ledger is bounded: in every history the open responses never exceed the configured number,
  the transcripts waiting together with the open responses stay below twice that number, and every
  transcript handed out respects the character and byte limits.\<close>

theorem transcript_ledger_bounded:
  assumes "new_ledger l = Inr s" "tg_run cs ([], [], s) = (calls, taken, s')"
  shows "length (lg_groups s') \<le> max_groups l \<and> length (lg_groups s') + length (lg_ready s') < 2 * max_groups l
    \<and> (\<forall>tr\<in>set taken. length (tr_text tr) \<le> max_chars l \<and> utf8_len (tr_text tr) \<le> max_utf8 l)"
proof -
  have "ledger_ok l calls s' \<and> list_all (transcript_ok l calls) taken"
    using tg_run_ok[of l "[]" s "[]" cs calls taken s'] new_ledger_ok[OF assms(1)] assms(2) by simp
  then show ?thesis by (auto simp: ledger_ok_def list_all_iff transcript_ok_def)
qed

definition demo_limits :: tg_limits where
  "demo_limits = \<lparr>max_groups = 8, max_parts = 32, max_chars = 4000, max_utf8 = 16000\<rparr>"

definition demo_ledger :: "(nat, nat, nat) ledger" where
  "demo_ledger = \<lparr>lg_limits = demo_limits, lg_groups = [], lg_ready = [], lg_closed = False, lg_next = 0\<rparr>"

definition demo_tg_calls :: "(nat, nat, nat) tg_call list" where
  "demo_tg_calls = [CallOpen (Some 1) (Some 2), CallAdmit 0 1 2 5 (VStr (lit ''ja'')), CallAdmit 0 1 2 6 (VStr (lit ''gut'')),
     CallStarted 0 1 5 (VFloat (Fin 1)), CallEmitted 0 1 5, CallRetire 0 1 6, CallFinish 0 1, CallTake]"

lemma demo_new_ledger: "new_ledger demo_limits = Inr demo_ledger"
  by (simp add: new_ledger_def demo_limits_def demo_ledger_def)

lemma demo_strip: "strip (lit ''ja'') = lit ''ja''" "strip (lit ''gut'') = lit ''gut''"
  by (simp_all add: strip_def is_space_def lit_def)

lemma demo_widths: "utf8_len (lit ''ja'') = 2" "utf8_len (lit ''gut'') = 3"
  by (simp_all add: lit_def)

lemma demo_tg_run:
  "fst (snd (tg_run demo_tg_calls ([], [], demo_ledger)))
     = [\<lparr>tr_text = lit ''ja'', tr_turn = 2, tr_owner = 1, tr_first = Some 1, tr_reason = ''partial_response''\<rparr>]"
  by (simp add: demo_tg_calls_def demo_ledger_def demo_limits_def succeeded_def tg_open_def tg_admit_def group_of_def
      demo_strip demo_widths joined_def set_group_def tg_started_def part_in_def finite_in_def set_part_def tg_emitted_def
      finish_part_def complete_def tg_retire_def tg_finish_def flush_def emitted_prefix_def tg_take_def Let_def)

theorem transcripts_are_evidence_witness:
  "\<exists>tr\<in>set (fst (snd (tg_run demo_tg_calls ([], [], demo_ledger)))).
     \<exists>k parts. parts \<noteq> [] \<and> tr_text tr = join [32] (map snd parts) \<and> tr_text tr = lit ''ja''
       \<and> (\<forall>(p, t)\<in>set parts. CallEmitted k (tr_owner tr) p \<in> set (fst (tg_run demo_tg_calls ([], [], demo_ledger))))"
proof -
  let ?r = "tg_run demo_tg_calls ([], [], demo_ledger)"
  obtain tr where tr: "tr \<in> set (fst (snd ?r))" "tr_text tr = lit ''ja''" unfolding demo_tg_run by simp
  have "\<exists>k parts. parts \<noteq> [] \<and> tr_text tr = join [32] (map snd parts)
    \<and> (\<forall>(p, t)\<in>set parts. CallEmitted k (tr_owner tr) p \<in> set (fst ?r)
         \<and> (\<exists>raw. CallAdmit k (tr_owner tr) (tr_turn tr) p (VStr raw) \<in> set (fst ?r) \<and> t = strip raw))"
    by (rule transcripts_are_evidence[OF demo_new_ledger _ tr(1), where s' = "snd (snd ?r)"]) simp
  then obtain k parts where "parts \<noteq> []" "tr_text tr = join [32] (map snd parts)"
    "\<forall>(p, t)\<in>set parts. CallEmitted k (tr_owner tr) p \<in> set (fst ?r)"
    by blast
  then show ?thesis using tr by blast
qed

theorem transcript_ledger_bounded_witness:
  "length (lg_groups (snd (snd (tg_run demo_tg_calls ([], [], demo_ledger))))) \<le> 8"
  using transcript_ledger_bounded[OF demo_new_ledger, of demo_tg_calls] 
  by (cases "tg_run demo_tg_calls ([], [], demo_ledger)") (auto simp: demo_limits_def)

end
