(* ===== verification/GermanNumbers.thy ===== *)
theory GermanNumbers
  imports Prelude
begin

text \<open>
  The number words of \<open>voice/native-bridge/conversation_numbers.py\<close>: German cardinals and ordinals in
  lower case. Shown here: every number from 0 to 9999, spelled the usual way, with umlauts or
  transliterated, is read back as itself,
  and no word is ever read as a number outside that range.
\<close>

section \<open>Tables\<close>

definition sharp_s :: nat where "sharp_s = 223"
definition a_umlaut :: nat where "a_umlaut = 228"
definition o_umlaut :: nat where "o_umlaut = 246"
definition u_umlaut :: nat where "u_umlaut = 252"

lemmas letters = sharp_s_def a_umlaut_def o_umlaut_def u_umlaut_def

definition small_words :: "(pystr \<times> nat) list" where
  "small_words = [(lit ''null'', 0), (lit ''eins'', 1), (lit ''zwei'', 2), (lit ''drei'', 3), (lit ''vier'', 4),
     (lit ''f'' @ [u_umlaut] @ lit ''nf'', 5), (lit ''fuenf'', 5), (lit ''sechs'', 6), (lit ''sieben'', 7),
     (lit ''acht'', 8), (lit ''neun'', 9), (lit ''zehn'', 10), (lit ''elf'', 11),
     (lit ''zw'' @ [o_umlaut] @ lit ''lf'', 12), (lit ''zwoelf'', 12), (lit ''dreizehn'', 13), (lit ''vierzehn'', 14),
     (lit ''f'' @ [u_umlaut] @ lit ''nfzehn'', 15), (lit ''fuenfzehn'', 15), (lit ''sechzehn'', 16),
     (lit ''siebzehn'', 17), (lit ''achtzehn'', 18), (lit ''neunzehn'', 19)]"

definition tens_words :: "(pystr \<times> nat) list" where
  "tens_words = [(lit ''zwanzig'', 20), (lit ''drei'' @ [sharp_s] @ lit ''ig'', 30), (lit ''dreissig'', 30),
     (lit ''vierzig'', 40), (lit ''f'' @ [u_umlaut] @ lit ''nfzig'', 50), (lit ''fuenfzig'', 50),
     (lit ''sechzig'', 60), (lit ''siebzig'', 70), (lit ''achtzig'', 80), (lit ''neunzig'', 90)]"

definition unit_words :: "(pystr \<times> nat) list" where
  "unit_words = filter (\<lambda>(w, n). 1 \<le> n \<and> n \<le> 9) small_words @ [(lit ''ein'', 1)]"

definition ordinal_words :: "(pystr \<times> nat) list" where
  "ordinal_words = [(lit ''erst'', 1), (lit ''zweit'', 2), (lit ''dritt'', 3), (lit ''viert'', 4),
     (lit ''f'' @ [u_umlaut] @ lit ''nft'', 5), (lit ''fuenft'', 5), (lit ''sechst'', 6), (lit ''siebt'', 7),
     (lit ''acht'', 8), (lit ''neunt'', 9), (lit ''zehnt'', 10), (lit ''elft'', 11),
     (lit ''zw'' @ [o_umlaut] @ lit ''lft'', 12), (lit ''zwoelft'', 12)]"

section \<open>Strings\<close>

definition has_suffix :: "pystr \<Rightarrow> pystr \<Rightarrow> bool" where
  "has_suffix w s \<longleftrightarrow> length s \<le> length w \<and> drop (length w - length s) w = s"

definition chop :: "pystr \<Rightarrow> nat \<Rightarrow> pystr" where
  "chop w n = take (length w - n) w"

text \<open>\<open>w.split(sep)\<close>; the number of pieces is one more than \<open>w.count(sep)\<close>. The accumulator is the
  piece being read, reversed.\<close>

function split_on :: "pystr \<Rightarrow> pystr \<Rightarrow> pystr \<Rightarrow> pystr list" where
  "split_on sep cur [] = [rev cur]"
| "split_on sep cur (c # w) =
     (if sep \<noteq> [] \<and> take (length sep) (c # w) = sep
      then rev cur # split_on sep [] (drop (length sep) (c # w))
      else split_on sep (c # cur) w)"
  by pat_completeness auto
termination
proof (relation "measure (\<lambda>(sep, cur, w). length w)", goal_cases)
  case (2 sep cur c w)
  then show ?case by (cases sep) auto
qed auto

section \<open>Cardinals\<close>

fun tens_suffix :: "(pystr \<times> nat) list \<Rightarrow> pystr \<Rightarrow> nat option" where
  "tens_suffix [] w = None"
| "tens_suffix ((tens, value) # rest) w =
     (let suf = lit ''und'' @ tens
      in if has_suffix w suf
         then (case map_of unit_words (chop w (length suf)) of
             Some u \<Rightarrow> Some (value + u) | None \<Rightarrow> tens_suffix rest w)
         else tens_suffix rest w)"

definition under_hundred :: "pystr \<Rightarrow> nat option" where
  "under_hundred w = (case map_of small_words w of
      Some n \<Rightarrow> Some n
    | None \<Rightarrow> (case map_of tens_words w of Some n \<Rightarrow> Some n | None \<Rightarrow> tens_suffix tens_words w))"

text \<open>The common shape of \<open>_under_thousand\<close> and \<open>_cardinal\<close>: a word that contains the scale word
  exactly once is a factor, the scale and a remainder, optionally after \<open>und\<close>.\<close>

definition scaled :: "pystr \<Rightarrow> nat \<Rightarrow> (pystr \<Rightarrow> nat option) \<Rightarrow> pystr \<Rightarrow> nat option" where
  "scaled scale factor below w = (case split_on scale [] w of
      [pre, suf] \<Rightarrow>
        (case (if pre = [] then Some 1 else map_of unit_words pre) of
           None \<Rightarrow> None
         | Some high \<Rightarrow>
             let und = take 3 suf = lit ''und''; rest = (if und then drop 3 suf else suf)
             in if und \<and> rest = [] then None
                else (case (if rest = [] then Some 0 else if rest = lit ''ein'' then Some 1 else below rest) of
                    None \<Rightarrow> None | Some low \<Rightarrow> Some (high * factor + low)))
    | _ \<Rightarrow> below w)"

definition under_thousand :: "pystr \<Rightarrow> nat option" where
  "under_thousand w = scaled (lit ''hundert'') 100 under_hundred w"

definition cardinal :: "pystr \<Rightarrow> nat option" where
  "cardinal w = (if \<not> (1 \<le> length w \<and> length w \<le> 64) then None
     else scaled (lit ''tausend'') 1000 under_thousand w)"

section \<open>Ordinals\<close>

definition ordinal_stem :: "pystr \<Rightarrow> nat option" where
  "ordinal_stem stem = (case map_of ordinal_words stem of
      Some n \<Rightarrow> Some n
    | None \<Rightarrow>
        (case (if has_suffix stem (lit ''st'') then cardinal (chop stem 2) else None) of
           Some v \<Rightarrow> if 20 \<le> v then Some v
             else (case cardinal (chop stem 1) of Some u \<Rightarrow> if 13 \<le> u \<and> u \<le> 19 then Some u else None | None \<Rightarrow> None)
         | None \<Rightarrow> if has_suffix stem (lit ''t'')
             then (case cardinal (chop stem 1) of Some u \<Rightarrow> if 13 \<le> u \<and> u \<le> 19 then Some u else None | None \<Rightarrow> None)
             else None))"

fun ordinal_endings :: "pystr list \<Rightarrow> pystr \<Rightarrow> nat option" where
  "ordinal_endings [] w = None"
| "ordinal_endings (e # es) w =
     (if has_suffix w e
      then (case ordinal_stem (chop w (length e)) of Some n \<Rightarrow> Some n | None \<Rightarrow> ordinal_endings es w)
      else ordinal_endings es w)"

definition ordinal :: "pystr \<Rightarrow> nat option" where
  "ordinal w = ordinal_endings [lit ''en'', lit ''er'', lit ''es'', lit ''em'', lit ''e''] w"

section \<open>Spelling\<close>

text \<open>The usual spelling of a number below 10000, with umlauts and sharp s, or with their ASCII transliterations.\<close>

definition u_letter :: "bool \<Rightarrow> pystr" where "u_letter native = (if native then [u_umlaut] else lit ''ue'')"
definition o_letter :: "bool \<Rightarrow> pystr" where "o_letter native = (if native then [o_umlaut] else lit ''oe'')"
definition s_letter :: "bool \<Rightarrow> pystr" where "s_letter native = (if native then [sharp_s] else lit ''ss'')"

definition small_spelling :: "bool \<Rightarrow> pystr list" where
  "small_spelling native = [lit ''null'', lit ''eins'', lit ''zwei'', lit ''drei'', lit ''vier'', lit ''f'' @ u_letter native @ lit ''nf'',
     lit ''sechs'', lit ''sieben'', lit ''acht'', lit ''neun'', lit ''zehn'', lit ''elf'', lit ''zw'' @ o_letter native @ lit ''lf'',
     lit ''dreizehn'', lit ''vierzehn'', lit ''f'' @ u_letter native @ lit ''nfzehn'', lit ''sechzehn'', lit ''siebzehn'',
     lit ''achtzehn'', lit ''neunzehn'']"

definition unit_spelling :: "bool \<Rightarrow> nat \<Rightarrow> pystr" where
  "unit_spelling native n = (if n = 1 then lit ''ein'' else small_spelling native ! n)"

definition tens_spelling :: "bool \<Rightarrow> pystr list" where
  "tens_spelling native = [[], [], lit ''zwanzig'', lit ''drei'' @ s_letter native @ lit ''ig'', lit ''vierzig'',
     lit ''f'' @ u_letter native @ lit ''nfzig'', lit ''sechzig'', lit ''siebzig'', lit ''achtzig'', lit ''neunzig'']"

definition spell_100 :: "bool \<Rightarrow> nat \<Rightarrow> pystr" where
  "spell_100 native n = (if n < 20 then small_spelling native ! n
     else if n mod 10 = 0 then tens_spelling native ! (n div 10)
     else unit_spelling native (n mod 10) @ lit ''und'' @ tens_spelling native ! (n div 10))"

definition spell_1000 :: "bool \<Rightarrow> nat \<Rightarrow> pystr" where
  "spell_1000 native n = (if n < 100 then spell_100 native n
     else unit_spelling native (n div 100) @ lit ''hundert'' @ (if n mod 100 = 0 then [] else spell_100 native (n mod 100)))"

definition spell :: "bool \<Rightarrow> nat \<Rightarrow> pystr" where
  "spell native n = (if n < 1000 then spell_1000 native n
     else unit_spelling native (n div 1000) @ lit ''tausend'' @ (if n mod 1000 = 0 then [] else spell_1000 native (n mod 1000)))"

section \<open>Range\<close>

lemma small_range: "map_of small_words w = Some n \<Longrightarrow> n \<le> 19"
  by (auto simp: small_words_def split: if_splits)

lemma tens_range: "map_of tens_words w = Some n \<Longrightarrow> n \<le> 90"
  by (auto simp: tens_words_def split: if_splits)

lemma unit_range: "map_of unit_words w = Some n \<Longrightarrow> 1 \<le> n \<and> n \<le> 9"
  by (auto simp: unit_words_def map_add_Some_iff dest!: map_of_SomeD split: if_splits)

lemma tens_suffix_range:
  "tens_suffix ts w = Some n \<Longrightarrow> \<forall>(t, v)\<in>set ts. v \<le> 90 \<Longrightarrow> n \<le> 99"
  by (induction ts w rule: tens_suffix.induct) (auto simp: Let_def dest!: unit_range split: if_splits option.splits)

lemma under_hundred_range: "under_hundred w = Some n \<Longrightarrow> n \<le> 99"
  using tens_suffix_range[of tens_words w n] small_range[of w n] tens_range[of w n]
  by (auto simp: under_hundred_def tens_words_def split: option.splits)

lemma scaled_range:
  assumes "scaled scale factor below w = Some n" "\<And>v m. below v = Some m \<Longrightarrow> m < factor" "1 < factor"
  shows "n < 10 * factor"
proof -
  have "high * factor + low < 10 * factor" if "high \<le> 9" "low < factor" for high low
    using that mult_le_mono1[of high 9 factor] by linarith
  then show ?thesis using assms unit_range
    by (fastforce simp: scaled_def Let_def split: list.splits option.splits if_splits)
qed

lemma under_thousand_range: "under_thousand w = Some n \<Longrightarrow> n < 1000"
  unfolding under_thousand_def using scaled_range[of "lit ''hundert''" 100 under_hundred w n] under_hundred_range
  by fastforce

lemma cardinal_range: "cardinal w = Some n \<Longrightarrow> n < 10000"
  unfolding cardinal_def using scaled_range[of "lit ''tausend''" 1000 under_thousand w n] under_thousand_range
  by (simp split: if_splits)

section \<open>Reading back\<close>

lemma split_free:
  "(\<And>u v. w = u @ v \<Longrightarrow> v \<noteq> [] \<Longrightarrow> take (length sep) v \<noteq> sep) \<Longrightarrow> split_on sep cur w = [rev cur @ w]"
proof (induction w arbitrary: cur)
  case (Cons c w)
  have "take (length sep) (c # w) \<noteq> sep" using Cons.prems[of "[]" "c # w"] by simp
  moreover have "split_on sep (c # cur) w = [rev (c # cur) @ w]"
  proof (rule Cons.IH)
    fix u v assume "w = u @ v" "v \<noteq> []"
    then show "take (length sep) v \<noteq> sep" using Cons.prems[of "c # u" v] by simp
  qed
  ultimately show ?case by simp
qed simp

text \<open>Two adjacent letters that do not occur keep the separator from occurring.\<close>

fun has_pair :: "nat \<Rightarrow> nat \<Rightarrow> pystr \<Rightarrow> bool" where
  "has_pair a b (x # y # w) \<longleftrightarrow> x = a \<and> y = b \<or> has_pair a b (y # w)"
| "has_pair a b w \<longleftrightarrow> False"

lemma has_pair_append: "has_pair a b (u @ a # b # v)"
  by (induction u rule: induct_list012) auto

lemma no_pair_no_split:
  assumes "\<not> has_pair a b w" "sep = s1 @ a # b # s2"
  shows "split_on sep [] w = [w]"
proof -
  have "take (length sep) v \<noteq> sep" if "w = u @ v" for u v
  proof
    assume "take (length sep) v = sep"
    then have "w = (u @ s1) @ a # b # (s2 @ drop (length sep) v)"
      using assms(2) that append_take_drop_id[of "length sep" v] by simp
    then show False using assms(1) has_pair_append by metis
  qed
  then show ?thesis using split_free[of w sep "[]"] by simp
qed

text \<open>A prefix at none of whose positions the separator starts is read through.\<close>

fun read_through :: "pystr \<Rightarrow> pystr \<Rightarrow> bool" where
  "read_through sep [] \<longleftrightarrow> True"
| "read_through sep (c # pre) \<longleftrightarrow> take (length sep) (c # pre @ sep) \<noteq> sep \<and> read_through sep pre"

lemma split_through:
  "read_through sep pre \<Longrightarrow> split_on sep cur (pre @ sep @ rest) = split_on sep (rev pre @ cur) (sep @ rest)"
proof (induction pre arbitrary: cur)
  case (Cons c pre)
  have "take (length sep) (c # pre @ sep @ rest) = take (length sep) (c # pre @ sep)"
    using take_append[of "length sep" "c # pre @ sep" rest] by simp
  then show ?case using Cons.prems Cons.IH[of "c # cur"] by simp
qed simp

lemma split_once:
  assumes "sep \<noteq> []" "read_through sep pre" "split_on sep [] rest = [rest]"
  shows "split_on sep [] (pre @ sep @ rest) = [pre, rest]"
proof -
  obtain c s where sep: "sep = c # s" using assms(1) by (cases sep) auto
  have "split_on sep (rev pre) (sep @ rest) = pre # split_on sep [] rest"
    by (subst sep) (simp add: sep)
  then show ?thesis using split_through[OF assms(2), of "[]" rest] assms(3) by simp
qed

text \<open>The tables with their characters written out, for evaluation.\<close>

lemmas tables = small_words_def tens_words_def unit_words_def small_spelling_def tens_spelling_def u_letter_def o_letter_def s_letter_def letters lit_def

definition factor_words_ok :: "bool \<Rightarrow> pystr \<Rightarrow> bool" where
  "factor_words_ok native sep \<longleftrightarrow> (\<forall>n\<in>{1, 2, 3, 4, 5, 6, 7, 8, 9}. map_of unit_words (unit_spelling native n) = Some n
     \<and> read_through sep (unit_spelling native n))"

lemma factor_words: "factor_words_ok native (lit ''hundert'')" "factor_words_ok native (lit ''tausend'')"
  by (cases native; simp add: factor_words_ok_def unit_spelling_def tables)+

lemma nine: "1 \<le> n \<Longrightarrow> n \<le> 9 \<Longrightarrow> n \<in> {1, 2, 3, 4, 5, 6, 7, 8, 9 :: nat}"
  by (simp; presburger)

lemma unit_spelling_short: "1 \<le> n \<Longrightarrow> n \<le> 9 \<Longrightarrow> length (unit_spelling native n) \<le> 6"
  by (drule (1) nine) (auto simp: unit_spelling_def small_spelling_def u_letter_def lit_def)

lemma unit_spelling_factor:
  assumes "factor_words_ok native sep" "1 \<le> n" "n \<le> 9"
  shows "map_of unit_words (unit_spelling native n) = Some n"
    "read_through sep (unit_spelling native n)"
  using assms(1) nine[OF assms(2,3)] unfolding factor_words_ok_def by blast+

text \<open>The words below one hundred, by evaluation.\<close>

definition hundred_ok :: "bool \<Rightarrow> nat \<Rightarrow> bool" where
  "hundred_ok native n \<longleftrightarrow> under_hundred (spell_100 native n) = Some n \<and> \<not> has_pair 104 117 (spell_100 native n)
     \<and> \<not> has_pair 97 117 (spell_100 native n)
     \<and> take 3 (spell_100 native n) \<noteq> lit ''und'' \<and> spell_100 native n \<noteq> [] \<and> spell_100 native n \<noteq> lit ''ein''
     \<and> length (spell_100 native n) \<le> 25"

lemma has_pair_concat:
  "has_pair a b (u @ v) \<longleftrightarrow> has_pair a b u \<or> has_pair a b v \<or> (u \<noteq> [] \<and> v \<noteq> [] \<and> last u = a \<and> hd v = b)"
  by (induction u rule: induct_list012) (cases v; auto)+

lemmas word_tables = small_words_def [unfolded letters lit_def, simplified] tens_words_def [unfolded letters lit_def, simplified]
  unit_words_def [unfolded small_words_def letters lit_def, simplified]
  small_spelling_def [of True, unfolded u_letter_def o_letter_def letters lit_def, simplified]
  small_spelling_def [of False, unfolded u_letter_def o_letter_def letters lit_def, simplified]
  tens_spelling_def [of True, unfolded u_letter_def s_letter_def letters lit_def, simplified]
  tens_spelling_def [of False, unfolded u_letter_def s_letter_def letters lit_def, simplified]

lemmas word_eval = hundred_ok_def under_hundred_def spell_100_def lit_def word_tables

lemma teens_ok: "n \<in> set [0, 1, 2, 3, 4, 5, 6, 7, 8, 9, 10, 11, 12, 13, 14, 15, 16, 17, 18, 19] \<Longrightarrow> hundred_ok native n"
proof -
  have "list_all (hundred_ok True) [0, 1, 2, 3, 4, 5, 6, 7, 8, 9, 10, 11, 12, 13, 14, 15, 16, 17, 18, 19]" "list_all (hundred_ok False) [0, 1, 2, 3, 4, 5, 6, 7, 8, 9, 10, 11, 12, 13, 14, 15, 16, 17, 18, 19]"
    by (simp_all add: word_eval)
  then have "list_all (hundred_ok native) [0, 1, 2, 3, 4, 5, 6, 7, 8, 9, 10, 11, 12, 13, 14, 15, 16, 17, 18, 19]" by (cases native) simp_all
  then show "n \<in> set [0, 1, 2, 3, 4, 5, 6, 7, 8, 9, 10, 11, 12, 13, 14, 15, 16, 17, 18, 19] \<Longrightarrow> hundred_ok native n"
    unfolding list_all_iff by blast
qed

lemma round_tens_ok: "n \<in> set [20, 30, 40, 50, 60, 70, 80, 90] \<Longrightarrow> hundred_ok native n"
proof -
  have "list_all (hundred_ok True) [20, 30, 40, 50, 60, 70, 80, 90]" "list_all (hundred_ok False) [20, 30, 40, 50, 60, 70, 80, 90]" by (simp_all add: word_eval)
  then have "list_all (hundred_ok native) [20, 30, 40, 50, 60, 70, 80, 90]" by (cases native) simp_all
  then show "n \<in> set [20, 30, 40, 50, 60, 70, 80, 90] \<Longrightarrow> hundred_ok native n" unfolding list_all_iff by blast
qed

text \<open>The compound words: a unit, \<open>und\<close> and a multiple of ten.\<close>

lemma has_suffix_iff: "has_suffix w s \<longleftrightarrow> (\<exists>u. w = u @ s)"
proof
  assume "has_suffix w s"
  then have "w = take (length w - length s) w @ s"
    unfolding has_suffix_def by (metis append_take_drop_id)
  then show "\<exists>u. w = u @ s" ..
qed (auto simp: has_suffix_def)

lemma has_suffix_tails: "has_suffix (x @ t) (y @ t') \<Longrightarrow> has_suffix t t' \<or> has_suffix t' t"
  unfolding has_suffix_iff by (metis append_eq_append_conv2 append.assoc)

lemma chop_append [simp]: "chop (u @ s) (length s) = u"
  by (simp add: chop_def)

lemma tens_suffix_found:
  assumes "map_of ts t = Some v" "map_of unit_words u = Some k"
    and "\<forall>(t', v')\<in>set ts. t' \<noteq> t \<longrightarrow> \<not> has_suffix t t' \<and> \<not> has_suffix t' t"
  shows "tens_suffix ts (u @ lit ''und'' @ t) = Some (v + k)"
  using assms
proof (induction ts)
  case (Cons e ts)
  obtain t' v' where e: "e = (t', v')" by fastforce
  show ?case
  proof (cases "t' = t")
    case True
    have "has_suffix (u @ lit ''und'' @ t) (lit ''und'' @ t)" by (auto simp: has_suffix_iff)
    then show ?thesis using True e Cons.prems(1,2) chop_append[of u "lit ''und'' @ t"] by simp
  next
    case False
    then have "\<not> has_suffix ((u @ lit ''und'') @ t) (lit ''und'' @ t')"
      using Cons.prems(3) e has_suffix_tails[of "u @ lit ''und''" t "lit ''und''" t'] by auto
    then show ?thesis using False e Cons by (simp add: Let_def)
  qed
qed simp

definition tens_word_ok :: "bool \<Rightarrow> nat \<Rightarrow> bool" where
  "tens_word_ok native t \<longleftrightarrow> map_of tens_words (tens_spelling native ! t) = Some (10 * t)
     \<and> last (tens_spelling native ! t) = 103 \<and> hd (tens_spelling native ! t) \<noteq> 117 \<and> tens_spelling native ! t \<noteq> []
     \<and> \<not> has_pair 104 117 (tens_spelling native ! t) \<and> \<not> has_pair 97 117 (tens_spelling native ! t) \<and> length (tens_spelling native ! t) \<le> 8
     \<and> list_all (\<lambda>(t', v'). t' = tens_spelling native ! t \<or> \<not> has_suffix (tens_spelling native ! t) t' \<and> \<not> has_suffix t' (tens_spelling native ! t)) tens_words"

lemma tens_word: "t \<in> set [2, 3, 4, 5, 6, 7, 8, 9] \<Longrightarrow> tens_word_ok native t"
proof -
  have "list_all (tens_word_ok True) [2, 3, 4, 5, 6, 7, 8, 9]" "list_all (tens_word_ok False) [2, 3, 4, 5, 6, 7, 8, 9]"
    by (simp_all add: tens_word_ok_def has_suffix_def word_eval)
  then have "list_all (tens_word_ok native) [2, 3, 4, 5, 6, 7, 8, 9]" by (cases native) simp_all
  then show "t \<in> set [2, 3, 4, 5, 6, 7, 8, 9] \<Longrightarrow> tens_word_ok native t" unfolding list_all_iff by blast
qed

lemma small_words_end: "(w, n) \<in> set small_words \<Longrightarrow> last w \<noteq> 103"
  by (auto simp: small_words_def lit_def letters)

lemma tens_words_pair: "(w, n) \<in> set tens_words \<Longrightarrow> \<not> has_pair 110 100 w"
  by (auto simp: tens_words_def lit_def letters)

lemma unit_spelling_pairs:
  "1 \<le> n \<Longrightarrow> n \<le> 9 \<Longrightarrow> unit_spelling native n \<noteq> [] \<and> \<not> has_pair 97 117 (unit_spelling native n) \<and> \<not> has_pair 104 117 (unit_spelling native n)
     \<and> last (unit_spelling native n) \<notin> {97, 104} \<and> take 3 (unit_spelling native n @ w) \<noteq> lit ''und''"
  by (drule (1) nine) (auto simp: unit_spelling_def small_spelling_def u_letter_def letters lit_def)

lemma compound_ok:
  assumes "t \<in> set [2, 3, 4, 5, 6, 7, 8, 9]" "1 \<le> u" "u \<le> 9"
  shows "hundred_ok native (10 * t + u)"
proof -
  define w where "w = unit_spelling native u @ lit ''und'' @ tens_spelling native ! t"
  note t = tens_word[OF assms(1), of native, unfolded tens_word_ok_def]
  note unit = unit_spelling_factor(1)[OF factor_words(1)[of native] assms(2,3)] unit_spelling_pairs[OF assms(2,3), of native]
  have und: "has_pair 110 100 (lit ''und'')" "\<not> has_pair 104 117 (lit ''und'')" "\<not> has_pair 97 117 (lit ''und'')"
    "last (lit ''und'') = 100" "hd (lit ''und'') = 117"
    by (simp_all add: lit_def)
  have "\<not> 10 * t + u < 20" "(10 * t + u) mod 10 = u" "(10 * t + u) div 10 = t"
    using assms by auto
  then have spelled: "spell_100 native (10 * t + u) = w" using assms(2) by (simp add: spell_100_def w_def)
  have "last w = 103" using t by (simp add: w_def)
  then have small: "map_of small_words w = None" using small_words_end by (auto simp: map_of_eq_None_iff)
  have "has_pair 110 100 w" using und(1) by (simp add: w_def has_pair_concat)
  then have tens: "map_of tens_words w = None" using tens_words_pair by (auto simp: map_of_eq_None_iff)
  have "tens_suffix tens_words w = Some (10 * t + u)"
    unfolding w_def using t unit by (intro tens_suffix_found) (auto simp: list_all_iff)
  then have "under_hundred w = Some (10 * t + u)" using small tens by (simp add: under_hundred_def)
  moreover have "\<not> has_pair 104 117 w" "\<not> has_pair 97 117 w" using t unit und by (auto simp: w_def has_pair_concat)
  moreover have "length w \<le> 25" using t unit_spelling_short[OF assms(2,3), of native] by (simp add: w_def)
  moreover have "w \<noteq> lit ''ein''" using \<open>last w = 103\<close> by (auto simp: lit_def)
  ultimately show ?thesis using unit spelled unfolding hundred_ok_def by (simp add: w_def)
qed

lemma hundred:
  assumes "n < 100" shows "hundred_ok native n"
proof (cases "n < 20")
  case True
  then have "n \<in> set [0, 1, 2, 3, 4, 5, 6, 7, 8, 9, 10, 11, 12, 13, 14, 15, 16, 17, 18, 19]"
    by (simp; presburger)
  then show ?thesis by (rule teens_ok)
next
  case False
  then have "2 \<le> n div 10" "n div 10 \<le> 9" using assms by linarith+
  then have t: "n div 10 \<in> set [2, 3, 4, 5, 6, 7, 8, 9]" using nine[of "n div 10"] by simp
  show ?thesis
  proof (cases "n mod 10 = 0")
    case True
    then have "n \<in> set [20, 30, 40, 50, 60, 70, 80, 90]" using t by auto
    then show ?thesis by (rule round_tens_ok)
  next
    case False
    have "n mod 10 < 10" by simp
    then show ?thesis using compound_ok[OF t, of "n mod 10"] False by simp
  qed
qed

lemma scaled_spelled:
  assumes "sep \<noteq> []" "factor_words_ok native sep" "1 \<le> h" "h \<le> 9" "split_on sep [] rest = [rest]"
    and "take 3 rest \<noteq> lit ''und''" "rest \<noteq> lit ''ein''" "rest = [] \<and> low = 0 \<or> rest \<noteq> [] \<and> below rest = Some low"
  shows "scaled sep factor below (unit_spelling native h @ sep @ rest) = Some (h * factor + low)"
proof -
  note u = unit_spelling_factor[OF assms(2-4)]
  have "split_on sep [] (unit_spelling native h @ sep @ rest) = [unit_spelling native h, rest]"
    by (rule split_once[OF assms(1) u(2) assms(5)])
  moreover have "map_of unit_words [] = None" by (simp add: unit_words_def small_words_def)
  then have "unit_spelling native h \<noteq> []" using u(1) by auto
  ultimately show ?thesis using assms(6-8) u(1) by (auto simp: scaled_def Let_def split: option.split)
qed

lemma scaled_plain: "split_on sep [] w = [w] \<Longrightarrow> scaled sep factor below w = below w"
  by (simp add: scaled_def)

lemma split_hundert: "n < 100 \<Longrightarrow> split_on (lit ''hundert'') [] (spell_100 native n) = [spell_100 native n]"
  using hundred[of n native] by (intro no_pair_no_split[of 104 117 _ _ "[]" "lit ''ndert''"]) (auto simp: hundred_ok_def lit_def)

lemma under_thousand_spelled: "n < 1000 \<Longrightarrow> under_thousand (spell_1000 native n) = Some n"
proof (cases "n < 100")
  case True
  then show ?thesis using hundred[of n native] scaled_plain[OF split_hundert[OF True]]
    by (simp add: under_thousand_def spell_1000_def hundred_ok_def)
next
  case False
  assume n: "n < 1000"
  define rest where "rest = (if n mod 100 = 0 then [] else spell_100 native (n mod 100))"
  have r: "hundred_ok native (n mod 100)" by (rule hundred) simp
  have "scaled (lit ''hundert'') 100 under_hundred (unit_spelling native (n div 100) @ lit ''hundert'' @ rest)
      = Some (n div 100 * 100 + n mod 100)"
    using False n r split_hundert[of "n mod 100"] factor_words(1)
    by (intro scaled_spelled) (auto simp: rest_def hundred_ok_def)
  then show ?thesis using False by (simp add: under_thousand_def spell_1000_def rest_def)
qed

text \<open>No word below one thousand contains the letters \<open>au\<close>, so \<open>tausend\<close> never occurs in one.\<close>

definition thousand_ok :: "bool \<Rightarrow> nat \<Rightarrow> bool" where
  "thousand_ok native n \<longleftrightarrow> \<not> has_pair 97 117 (spell_1000 native n) \<and> take 3 (spell_1000 native n) \<noteq> lit ''und'' \<and> spell_1000 native n \<noteq> []
     \<and> spell_1000 native n \<noteq> lit ''ein'' \<and> length (spell_1000 native n) \<le> 50"

lemma thousand: "n < 1000 \<Longrightarrow> thousand_ok native n"
proof (cases "n < 100")
  case True
  then show ?thesis using hundred[of n native] by (auto simp: thousand_ok_def hundred_ok_def spell_1000_def)
next
  case False
  assume "n < 1000"
  then have h: "1 \<le> n div 100" "n div 100 \<le> 9" using False by linarith+
  let ?rest = "if n mod 100 = 0 then [] else spell_100 native (n mod 100)"
  have r: "\<not> has_pair 97 117 ?rest" "length ?rest \<le> 25"
    using hundred[of "n mod 100" native] by (auto simp: hundred_ok_def)
  have "\<not> has_pair 97 117 (lit ''hundert'')" "last (lit ''hundert'') = 116" "hd (lit ''hundert'') = 104"
    by (simp_all add: lit_def)
  then have "\<not> has_pair 97 117 (unit_spelling native (n div 100) @ lit ''hundert'' @ ?rest)"
    using unit_spelling_pairs[OF h, of native] r by (simp add: has_pair_concat)
  moreover have "length (unit_spelling native (n div 100) @ lit ''hundert'' @ ?rest) \<le> 50"
    using unit_spelling_short[OF h, of native] r by simp
  moreover have "unit_spelling native (n div 100) @ lit ''hundert'' @ ?rest \<noteq> lit ''ein''"
    by (auto dest: arg_cong[where f = length])
  ultimately show ?thesis using unit_spelling_pairs[OF h, of native] False by (simp add: thousand_ok_def spell_1000_def)
qed

lemma split_tausend: "n < 1000 \<Longrightarrow> split_on (lit ''tausend'') [] (spell_1000 native n) = [spell_1000 native n]"
  using thousand[of n native] by (intro no_pair_no_split[of 97 117 _ _ "lit ''t''" "lit ''send''"]) (auto simp: thousand_ok_def lit_def)

section \<open>Properties\<close>

text \<open>C39. Number words round-trip: every number from 0 to 9999, spelled out the usual way, with umlauts and sharp s or
  with their ASCII transliterations, is read back as itself.\<close>

theorem cardinal_reads_spelling:
  assumes "n < 10000" shows "cardinal (spell native n) = Some n"
proof (cases "n < 1000")
  case True
  then have "1 \<le> length (spell native n)" "length (spell native n) \<le> 64"
    using thousand[OF True, of native] by (auto simp: spell_def thousand_ok_def Suc_le_eq)
  then show ?thesis using True under_thousand_spelled[OF True] scaled_plain[OF split_tausend[OF True]]
    by (simp add: cardinal_def spell_def)
next
  case False
  define rest where "rest = (if n mod 1000 = 0 then [] else spell_1000 native (n mod 1000))"
  have r: "thousand_ok native (n mod 1000)" by (rule thousand) simp
  have eq: "spell native n = unit_spelling native (n div 1000) @ lit ''tausend'' @ rest"
    using False by (simp add: spell_def rest_def)
  have "1 \<le> n div 1000" "n div 1000 \<le> 9" using assms False by linarith+
  then have "length (unit_spelling native (n div 1000)) \<le> 6" using unit_spelling_short by blast
  then have "1 \<le> length (spell native n) \<and> length (spell native n) \<le> 64"
    using r by (auto simp: eq rest_def thousand_ok_def)
  moreover have "scaled (lit ''tausend'') 1000 under_thousand (spell native n) = Some (n div 1000 * 1000 + n mod 1000)"
    unfolding eq using False assms r split_tausend[of "n mod 1000"] factor_words(2) under_thousand_spelled[of "n mod 1000"]
    by (intro scaled_spelled) (auto simp: rest_def thousand_ok_def)
  ultimately show ?thesis by (simp add: cardinal_def)
qed

theorem cardinal_reads_spelling_witness:
  "cardinal (lit ''f'' @ [252] @ lit ''nftausenddreihundertzw'' @ [246] @ lit ''lf'') = Some 5312
   \<and> cardinal (lit ''drei'' @ [223] @ lit ''ig'') = Some 30"
proof -
  have "spell True 5312 = lit ''f'' @ [252] @ lit ''nftausenddreihundertzw'' @ [246] @ lit ''lf''"
    "spell True 30 = lit ''drei'' @ [223] @ lit ''ig''" by code_simp+
  then show ?thesis using cardinal_reads_spelling[of 5312 True] cardinal_reads_spelling[of 30 True] by simp
qed

text \<open>No word is read as a number outside 0 to 9999, neither as a cardinal nor as an
  ordinal.\<close>

theorem number_words_in_range:
  assumes "cardinal w = Some n \<or> ordinal w = Some n"
  shows "n < 10000"
proof -
  have listed: "map_of ordinal_words s = Some m \<Longrightarrow> m \<le> 12" for s m
    by (auto simp: ordinal_words_def split: if_splits)
  have stem: "ordinal_stem s = Some m \<Longrightarrow> m < 10000" for s m
    using listed[of s m] cardinal_range by (fastforce simp: ordinal_stem_def split: option.splits if_splits)
  have "ordinal_endings es w = Some m \<Longrightarrow> m < 10000" for es m
    by (induction es) (auto split: if_splits option.splits dest: stem)
  then show ?thesis using assms cardinal_range unfolding ordinal_def by blast
qed

theorem number_words_in_range_witness: "\<exists>n. ordinal (lit ''dritten'') = Some n \<and> n < 10000"
proof -
  have "ordinal (lit ''dritten'') = Some 3" by code_simp
  then show ?thesis using number_words_in_range[of "lit ''dritten''" 3] by simp
qed

end
