(* ===== verification/Gguf.thy ===== *)
theory Gguf
  imports Prelude
begin

text \<open>
  \<open>scripts/gufo_control/gguf.py\<close>: the bounded reader of GGUF v3 model descriptors. The file is
  untrusted; every length, count and offset in it is checked before it is used. Shown here: a
  descriptor that is accepted describes tensors that lie inside the file, do not overlap and are
  aligned, and reading it never passes the descriptor limit or the end of the file.
\<close>

unbundle bit_operations_syntax

section \<open>Limits and tables\<close>

definition max_header :: nat where "max_header = 33554432"
definition max_name :: nat where "max_name = 65536"
definition max_string :: nat where "max_string = 4194304"
definition max_count :: nat where "max_count = 100000"
definition max_array :: nat where "max_array = 1000000"

datatype number_kind = Unsigned | Signed | Floating

text \<open>The metadata scalar types: their width in bytes and their reading.\<close>

definition scalars :: "(nat \<times> nat \<times> number_kind) list" where
  "scalars = [(0, 1, Unsigned), (1, 1, Signed), (2, 2, Unsigned), (3, 2, Signed), (4, 4, Unsigned), (5, 4, Signed),
     (6, 4, Floating), (7, 1, Unsigned), (10, 8, Unsigned), (11, 8, Signed), (12, 8, Floating)]"

text \<open>Elements per block and bytes per block of each tensor type.\<close>

definition blocks :: "(nat \<times> nat \<times> nat) list" where
  "blocks = [(0, 1, 4), (1, 1, 2), (2, 32, 18), (3, 32, 20), (6, 32, 22), (7, 32, 24), (8, 32, 34), (9, 32, 36),
     (10, 256, 84), (11, 256, 110), (12, 256, 144), (13, 256, 176), (14, 256, 210), (15, 256, 292),
     (16, 256, 66), (17, 256, 74), (18, 256, 98), (19, 256, 50), (20, 32, 18), (21, 256, 110),
     (22, 256, 82), (23, 256, 136), (24, 1, 1), (25, 1, 2), (26, 1, 4), (27, 1, 8), (28, 1, 8),
     (29, 256, 56), (30, 1, 2), (39, 32, 17), (40, 64, 18), (41, 256, 36)]"

datatype gguf_error = Truncated | TooLong | BadUtf8 | BadBoolean | NonFinite | UnsupportedType | BadArray
  | NotGguf | TooMany | BadKey | BadAlignment | BadTensor | BadStorage | BadShape | BadExtent | Changed

section \<open>Reading\<close>

text \<open>A reader takes the position in the file and returns a value and the new position.\<close>

type_synonym 'a reader = "nat \<Rightarrow> gguf_error + 'a \<times> nat"

definition rd_bind :: "'a reader \<Rightarrow> ('a \<Rightarrow> 'b reader) \<Rightarrow> 'b reader" where
  "rd_bind m f p = (case m p of Inl e \<Rightarrow> Inl e | Inr (x, q) \<Rightarrow> f x q)"

definition rd_return :: "'a \<Rightarrow> 'a reader" where
  "rd_return x p = Inr (x, p)"

definition rd_check :: "bool \<Rightarrow> gguf_error \<Rightarrow> unit reader" where
  "rd_check ok e p = (if ok then Inr ((), p) else Inl e)"

text \<open>\<open>advance(size)\<close> and \<open>advance(size, read=False)\<close>.\<close>

definition advance :: "nat list \<Rightarrow> nat \<Rightarrow> nat list reader" where
  "advance file n p =
     (if min (length file) max_header < p + n then Inl Truncated else Inr (take n (drop p file), p + n))"

definition skip :: "nat list \<Rightarrow> nat \<Rightarrow> unit reader" where
  "skip file n p = (if min (length file) max_header < p + n then Inl Truncated else Inr ((), p + n))"

fun le_value :: "nat list \<Rightarrow> nat" where
  "le_value [] = 0"
| "le_value (b # bs) = b + 256 * le_value bs"

definition number :: "nat list \<Rightarrow> nat \<Rightarrow> nat reader" where
  "number file width = rd_bind (advance file width) (\<lambda>bs. rd_return (le_value bs))"

text \<open>Strict UTF-8: no overlong forms, no surrogates, nothing above U+10FFFF.\<close>

definition tail_byte :: "nat \<Rightarrow> bool" where "tail_byte b \<longleftrightarrow> 128 \<le> b \<and> b < 192"

fun valid_utf8 :: "nat list \<Rightarrow> bool" where
  "valid_utf8 [] = True"
| "valid_utf8 (a # rest) =
     (if a < 128 then valid_utf8 rest
      else (case rest of
          [] \<Rightarrow> False
        | b # rest2 \<Rightarrow>
            if 194 \<le> a \<and> a \<le> 223 then tail_byte b \<and> valid_utf8 rest2
            else (case rest2 of
                [] \<Rightarrow> False
              | c # rest3 \<Rightarrow>
                  if 224 \<le> a \<and> a \<le> 239
                  then tail_byte b \<and> tail_byte c \<and> (a = 224 \<longrightarrow> 160 \<le> b) \<and> (a = 237 \<longrightarrow> b < 160) \<and> valid_utf8 rest3
                  else (case rest3 of
                      [] \<Rightarrow> False
                    | d # rest4 \<Rightarrow> 240 \<le> a \<and> a \<le> 244 \<and> tail_byte b \<and> tail_byte c \<and> tail_byte d
                        \<and> (a = 240 \<longrightarrow> 144 \<le> b) \<and> (a = 244 \<longrightarrow> b < 144) \<and> valid_utf8 rest4))))"

text \<open>A retained string is kept as its bytes, which \<open>valid_utf8\<close> determines uniquely.\<close>

definition read_string :: "nat list \<Rightarrow> nat \<Rightarrow> nat list reader" where
  "read_string file limit = rd_bind (number file 8) (\<lambda>n. rd_bind (rd_check (n \<le> limit) TooLong) (\<lambda>_.
     rd_bind (advance file n) (\<lambda>bs. rd_bind (rd_check (valid_utf8 bs) BadUtf8) (\<lambda>_. rd_return bs))))"

definition skip_string :: "nat list \<Rightarrow> unit reader" where
  "skip_string file = rd_bind (number file 8) (\<lambda>n. rd_bind (rd_check (n \<le> max_string) TooLong) (\<lambda>_. skip file n))"

fun skip_strings :: "nat list \<Rightarrow> nat \<Rightarrow> unit reader" where
  "skip_strings file 0 = rd_return ()"
| "skip_strings file (Suc n) = rd_bind (skip_string file) (\<lambda>_. skip_strings file n)"

datatype gguf_value = GInt int | GBool bool | GFloat nat nat | GString "nat list" | GArray nat nat
  \<comment> \<open>a float is its width and its bits; an array its element type and its length\<close>

definition to_signed :: "nat \<Rightarrow> nat \<Rightarrow> int" where
  "to_signed width n = (if 2 ^ (8 * width - 1) \<le> n then int n - 2 ^ (8 * width) else int n)"

definition finite_bits :: "nat \<Rightarrow> nat \<Rightarrow> bool" where
  "finite_bits width n \<longleftrightarrow> (if width = 4 then n div 8388608 mod 256 \<noteq> 255 else n div 4503599627370496 mod 2048 \<noteq> 2047)"

definition scalar_value :: "nat \<Rightarrow> nat \<Rightarrow> number_kind \<Rightarrow> nat \<Rightarrow> gguf_value reader" where
  "scalar_value kind width nk n =
     (if kind = 7 then rd_bind (rd_check (n \<le> 1) BadBoolean) (\<lambda>_. rd_return (GBool (n = 1)))
      else (case nk of
          Unsigned \<Rightarrow> rd_return (GInt (int n))
        | Signed \<Rightarrow> rd_return (GInt (to_signed width n))
        | Floating \<Rightarrow> rd_bind (rd_check (finite_bits width n) NonFinite) (\<lambda>_. rd_return (GFloat width n))))"

definition read_value :: "nat list \<Rightarrow> nat \<Rightarrow> gguf_value reader" where
  "read_value file kind = (case map_of scalars kind of
      Some (width, nk) \<Rightarrow> rd_bind (number file width) (scalar_value kind width nk)
    | None \<Rightarrow>
        if kind = 8 then rd_bind (read_string file max_string) (\<lambda>s. rd_return (GString s))
        else rd_bind (rd_check (kind = 9) UnsupportedType) (\<lambda>_.
          rd_bind (number file 4) (\<lambda>sub. rd_bind (number file 8) (\<lambda>n.
            rd_bind (rd_check (n \<le> max_array \<and> (sub = 8 \<or> map_of scalars sub \<noteq> None)) BadArray) (\<lambda>_.
              rd_bind (if sub = 8 then skip_strings file n
                       else skip file (n * (case map_of scalars sub of Some (w, _) \<Rightarrow> w | None \<Rightarrow> 0)))
                (\<lambda>_. rd_return (GArray sub n)))))))"

section \<open>The descriptor\<close>

type_synonym metadata = "(nat list \<times> gguf_value) list"

fun read_metadata :: "nat list \<Rightarrow> nat \<Rightarrow> metadata \<Rightarrow> metadata reader" where
  "read_metadata file 0 meta = rd_return meta"
| "read_metadata file (Suc n) meta =
     rd_bind (read_string file max_name) (\<lambda>key.
       rd_bind (rd_check (key \<noteq> [] \<and> key \<notin> fst ` set meta) BadKey) (\<lambda>_.
         rd_bind (number file 4) (\<lambda>kind. rd_bind (read_value file kind) (\<lambda>v.
           read_metadata file n (meta @ [(key, v)])))))"

definition alignment_key :: "nat list" where "alignment_key = lit ''general.alignment''"

text \<open>\<open>None\<close> is \<open>invalid alignment\<close>.\<close>

definition alignment_of :: "metadata \<Rightarrow> nat option" where
  "alignment_of meta = (case map_of meta alignment_key of
      None \<Rightarrow> Some 32
    | Some (GInt i) \<Rightarrow> if 1 \<le> i \<and> i \<le> 1048576 \<and> (i AND (i - 1)) = 0 then Some (nat i) else None
    | Some _ \<Rightarrow> None)"

record tensor =
  t_name :: "nat list"
  t_dims :: "nat list"
  t_type :: nat
  t_offset :: nat
  t_size :: nat

fun read_dims :: "nat list \<Rightarrow> nat \<Rightarrow> nat list reader" where
  "read_dims file 0 = rd_return []"
| "read_dims file (Suc n) = rd_bind (number file 8) (\<lambda>d. rd_bind (read_dims file n) (\<lambda>ds. rd_return (d # ds)))"

definition make_tensor :: "nat \<Rightarrow> nat list \<Rightarrow> nat list \<Rightarrow> nat \<Rightarrow> nat \<Rightarrow> gguf_error + tensor" where
  "make_tensor align name dims kind offset = (case map_of blocks kind of
      None \<Rightarrow> Inl BadStorage
    | Some (block, sz) \<Rightarrow>
        if 0 \<in> set dims then Inl BadStorage
        else let elements = prod_list dims
             in if hd dims mod block \<noteq> 0 \<or> 9223372036854775807 < elements \<or> offset mod align \<noteq> 0 then Inl BadShape
                else Inr \<lparr>t_name = name, t_dims = dims, t_type = kind, t_offset = offset,
                       t_size = elements div block * sz\<rparr>)"

definition read_tensor :: "nat list \<Rightarrow> nat \<Rightarrow> nat list list \<Rightarrow> tensor reader" where
  "read_tensor file align names =
     rd_bind (read_string file max_name) (\<lambda>name. rd_bind (number file 4) (\<lambda>n.
       rd_bind (rd_check (name \<noteq> [] \<and> name \<notin> set names \<and> 1 \<le> n \<and> n \<le> 4) BadTensor) (\<lambda>_.
         rd_bind (read_dims file n) (\<lambda>dims. rd_bind (number file 4) (\<lambda>kind. rd_bind (number file 8) (\<lambda>offset p.
           case make_tensor align name dims kind offset of Inl e \<Rightarrow> Inl e | Inr t \<Rightarrow> Inr (t, p)))))))"

fun read_tensors :: "nat list \<Rightarrow> nat \<Rightarrow> nat \<Rightarrow> tensor list \<Rightarrow> tensor list reader" where
  "read_tensors file align 0 ts = rd_return ts"
| "read_tensors file align (Suc n) ts =
     rd_bind (read_tensor file align (map t_name ts)) (\<lambda>t. read_tensors file align n (ts @ [t]))"

definition t_end :: "tensor \<Rightarrow> nat" where "t_end t = t_offset t + t_size t"

fun extents_ok :: "nat \<Rightarrow> nat \<Rightarrow> nat \<Rightarrow> tensor list \<Rightarrow> bool" where
  "extents_ok limit base previous [] = True"
| "extents_ok limit base previous (t # ts) =
     (\<not> (t_offset t < previous \<or> limit < base + t_end t) \<and> extents_ok limit base (t_end t) ts)"

record descriptor =
  d_metadata :: metadata
  d_tensors :: "tensor list"
  d_end :: nat
  d_data :: nat

definition round_up :: "nat \<Rightarrow> nat \<Rightarrow> nat" where
  "round_up n align = (n + align - 1) div align * align"

text \<open>\<open>changed\<close>: the size or modification time differ after the inspection.\<close>

definition inspect_gguf :: "nat list \<Rightarrow> bool \<Rightarrow> gguf_error + descriptor" where
  "inspect_gguf file changed =
     (case rd_bind (rd_bind (advance file 4) (\<lambda>magic. rd_check (magic = lit ''GGUF'') NotGguf)) (\<lambda>_.
         rd_bind (number file 4) (\<lambda>version. rd_bind (rd_check (version = 3) NotGguf) (\<lambda>_.
           rd_bind (number file 8) (\<lambda>tensor_count. rd_bind (number file 8) (\<lambda>metadata_count.
             rd_bind (rd_check (tensor_count \<le> max_count \<and> metadata_count \<le> max_count) TooMany) (\<lambda>_.
               rd_bind (read_metadata file metadata_count []) (\<lambda>meta. case alignment_of meta of
                 None \<Rightarrow> (\<lambda>p. Inl BadAlignment)
               | Some align \<Rightarrow> rd_bind (read_tensors file align tensor_count []) (\<lambda>ts. rd_return (meta, align, ts))))))))) 0 of
       Inl e \<Rightarrow> Inl e
     | Inr ((meta, align, ts), descriptor_end) \<Rightarrow>
         let data = round_up descriptor_end align
         in if length file < data then Inl Truncated
            else if \<not> extents_ok (length file) data 0 (sort_key t_offset ts) then Inl BadExtent
            else if changed then Inl Changed
            else Inr \<lparr>d_metadata = meta, d_tensors = ts, d_end = descriptor_end, d_data = data\<rparr>)"

section \<open>Reading is bounded\<close>

definition bounded :: "nat list \<Rightarrow> 'a reader \<Rightarrow> bool" where
  "bounded file m \<longleftrightarrow> (\<forall>p x q. m p = Inr (x, q) \<longrightarrow> p \<le> q
     \<and> (p \<le> min (length file) max_header \<longrightarrow> q \<le> min (length file) max_header))"

lemma bounded_bind [intro!]:
  assumes "bounded file m" "\<And>x. bounded file (f x)" shows "bounded file (rd_bind m f)"
proof -
  have "p \<le> q \<and> (p \<le> min (length file) max_header \<longrightarrow> q \<le> min (length file) max_header)"
    if run: "rd_bind m f p = Inr (x, q)" for p x q
  proof -
    obtain y r where "m p = Inr (y, r)" "f y r = Inr (x, q)"
      using run by (cases "m p") (auto simp: rd_bind_def)
    then show ?thesis using assms unfolding bounded_def by (meson order.trans)
  qed
  then show ?thesis by (auto simp: bounded_def)
qed

lemma bounded_basic [intro!]:
  "bounded file (rd_return x)" "bounded file (rd_check b e)" "bounded file (advance file n)" "bounded file (skip file n)"
  by (auto simp: bounded_def rd_return_def rd_check_def advance_def skip_def split: if_splits)

lemma bounded_fail [intro!]: "bounded file (\<lambda>p. Inl e)"
  by (simp add: bounded_def)

lemma bounded_number [intro!]: "bounded file (number file n)"
  by (auto simp: number_def)

lemma bounded_string [intro!]: "bounded file (read_string file n)"
  by (auto simp: read_string_def)

lemma bounded_skip_strings [intro!]: "bounded file (skip_strings file n)"
  by (induction n) (auto simp: skip_string_def)

lemma bounded_value [intro!]: "bounded file (read_value file kind)"
  by (auto simp: read_value_def scalar_value_def split: option.split number_kind.split)

lemma bounded_metadata [intro!]: "bounded file (read_metadata file n meta)"
  by (induction n arbitrary: meta) auto

lemma bounded_dims [intro!]: "bounded file (read_dims file n)"
  by (induction n) auto

lemma bounded_case [intro!]: "bounded file (\<lambda>p. case r of Inl e \<Rightarrow> Inl e | Inr t \<Rightarrow> Inr (t, p))"
  by (cases r) (auto simp: bounded_def)

lemma bounded_tensor [intro!]: "bounded file (read_tensor file align names)"
proof -
  have "bounded file (rd_bind (number file 8) (\<lambda>off p. case make_tensor align name dims kind off of
      Inl e \<Rightarrow> Inl e | Inr t \<Rightarrow> Inr (t, p)))" for name dims kind
    by auto
  then show ?thesis unfolding read_tensor_def by (intro bounded_bind) auto
qed

lemma bounded_tensors [intro!]: "bounded file (read_tensors file align n ts)"
  by (induction n arbitrary: ts) auto

section \<open>What the readers return\<close>

lemma bind_InrE:
  assumes "rd_bind m f p = Inr (x, q)"
  obtains y r where "m p = Inr (y, r)" "f y r = Inr (x, q)"
  using assms that by (cases "m p") (auto simp: rd_bind_def)

lemma check_InrD: "rd_check b e p = Inr (x, q) \<Longrightarrow> b"
  by (simp add: rd_check_def split: if_splits)

lemma metadata_keys:
  "read_metadata file n meta p = Inr (meta', q) \<Longrightarrow> distinct (map fst meta) \<Longrightarrow> [] \<notin> fst ` set meta
     \<Longrightarrow> distinct (map fst meta') \<and> [] \<notin> fst ` set meta' \<and> length meta' = length meta + n"
proof (induction n arbitrary: meta p)
  case (Suc n)
  from Suc.prems(1) obtain key v r where "key \<noteq> []" "key \<notin> fst ` set meta"
    "read_metadata file n (meta @ [(key, v)]) r = Inr (meta', q)"
    by (auto elim!: bind_InrE dest!: check_InrD)
  from Suc.IH[OF this(3)] this(1,2) Suc.prems(2,3) show ?case by auto
qed (simp add: rd_return_def)

definition tensor_ok :: "nat \<Rightarrow> tensor \<Rightarrow> bool" where
  "tensor_ok align t \<longleftrightarrow> align dvd t_offset t \<and> 0 \<notin> set (t_dims t)
     \<and> 1 \<le> length (t_dims t) \<and> length (t_dims t) \<le> 4 \<and> prod_list (t_dims t) < 2 ^ 63
     \<and> (\<exists>block sz. map_of blocks (t_type t) = Some (block, sz) \<and> block dvd prod_list (t_dims t)
          \<and> t_size t = prod_list (t_dims t) div block * sz)"

lemma dims_length: "read_dims file n p = Inr (ds, q) \<Longrightarrow> length ds = n"
  by (induction n arbitrary: p ds) (auto simp: rd_return_def elim!: bind_InrE)

lemma make_tensor_ok:
  assumes "make_tensor align name dims kind off = Inr t" "1 \<le> length dims" "length dims \<le> 4"
  shows "tensor_ok align t \<and> t_name t = name"
proof -
  obtain block sz where b: "map_of blocks kind = Some (block, sz)" "0 \<notin> set dims" "hd dims mod block = 0"
    "prod_list dims \<le> 9223372036854775807" "off mod align = 0"
    "t = \<lparr>t_name = name, t_dims = dims, t_type = kind, t_offset = off, t_size = prod_list dims div block * sz\<rparr>"
    using assms(1) by (auto simp: make_tensor_def Let_def split: option.splits if_splits)
  have "block dvd prod_list dims" using b(3) assms(2) by (cases dims) (auto simp: mod_eq_0_iff_dvd)
  then show ?thesis using b assms(2,3) by (auto simp: tensor_ok_def mod_eq_0_iff_dvd)
qed

lemma read_tensor_ok:
  assumes "read_tensor file align names p = Inr (t, q)"
  shows "tensor_ok align t \<and> t_name t \<notin> set names"
  using assms dims_length make_tensor_ok unfolding read_tensor_def
  by (fastforce elim!: bind_InrE dest!: check_InrD split: sum.splits)

lemma read_tensors_ok:
  "read_tensors file align n ts p = Inr (ts', q) \<Longrightarrow> distinct (map t_name ts) \<Longrightarrow> list_all (tensor_ok align) ts
     \<Longrightarrow> distinct (map t_name ts') \<and> list_all (tensor_ok align) ts' \<and> length ts' = length ts + n"
proof (induction n arbitrary: ts p)
  case (Suc n)
  from Suc.prems(1) obtain t r where t: "read_tensor file align (map t_name ts) p = Inr (t, r)"
    "read_tensors file align n (ts @ [t]) r = Inr (ts', q)"
    by (auto elim!: bind_InrE)
  from read_tensor_ok[OF t(1)] Suc.IH[OF t(2)] Suc.prems(2,3) show ?case by auto
qed (simp add: rd_return_def)

lemma extents_sorted:
  "extents_ok limit base previous ts \<Longrightarrow> (\<forall>t\<in>set ts. previous \<le> t_offset t \<and> base + t_end t \<le> limit)
     \<and> sorted_wrt (\<lambda>a b. t_end a \<le> t_offset b) ts"
proof (induction ts arbitrary: previous)
  case (Cons t ts)
  then have "\<forall>u\<in>set ts. t_end t \<le> t_offset u \<and> base + t_end u \<le> limit" "sorted_wrt (\<lambda>a b. t_end a \<le> t_offset b) ts"
    using Cons.IH[of "t_end t"] by auto
  moreover have "previous \<le> t_end t" using Cons.prems by (simp add: t_end_def)
  ultimately show ?case using Cons.prems by auto
qed simp

lemma sorted_wrt_pair: "sorted_wrt R xs \<Longrightarrow> x \<in> set xs \<Longrightarrow> y \<in> set xs \<Longrightarrow> x \<noteq> y \<Longrightarrow> R x y \<or> R y x"
  by (induction xs) auto

lemma round_up_bounds: "0 < align \<Longrightarrow> n \<le> round_up n align \<and> align dvd round_up n align \<and> round_up n align < n + align"
proof -
  assume a: "0 < align"
  have "(n + align - 1) div align * align + (n + align - 1) mod align = n + align - 1" by simp
  moreover have "(n + align - 1) mod align < align" using a by simp
  ultimately have "n \<le> round_up n align" "round_up n align < n + align" unfolding round_up_def using a by linarith+
  then show ?thesis by (simp add: round_up_def)
qed

lemma inspect_path:
  assumes "inspect_gguf file changed = Inr d"
  shows "\<exists>align. alignment_of (d_metadata d) = Some align \<and> \<not> changed
    \<and> d_end d \<le> min (length file) max_header \<and> d_data d = round_up (d_end d) align \<and> d_data d \<le> length file
    \<and> extents_ok (length file) (d_data d) 0 (sort_key t_offset (d_tensors d))
    \<and> distinct (map fst (d_metadata d)) \<and> [] \<notin> fst ` set (d_metadata d)
    \<and> distinct (map t_name (d_tensors d)) \<and> list_all (tensor_ok align) (d_tensors d)
    \<and> length (d_tensors d) \<le> max_count \<and> length (d_metadata d) \<le> max_count"
proof -
  let ?L = "min (length file) max_header"
  obtain align where data: "d_data d = round_up (d_end d) align" "d_data d \<le> length file" "\<not> changed"
      "extents_ok (length file) (d_data d) 0 (sort_key t_offset (d_tensors d))"
    and run: "rd_bind (rd_bind (advance file 4) (\<lambda>magic. rd_check (magic = lit ''GGUF'') NotGguf)) (\<lambda>_.
         rd_bind (number file 4) (\<lambda>version. rd_bind (rd_check (version = 3) NotGguf) (\<lambda>_.
           rd_bind (number file 8) (\<lambda>tensor_count. rd_bind (number file 8) (\<lambda>metadata_count.
             rd_bind (rd_check (tensor_count \<le> max_count \<and> metadata_count \<le> max_count) TooMany) (\<lambda>_.
               rd_bind (read_metadata file metadata_count []) (\<lambda>meta. case alignment_of meta of
                 None \<Rightarrow> (\<lambda>p. Inl BadAlignment)
               | Some align \<Rightarrow> rd_bind (read_tensors file align tensor_count []) (\<lambda>ts. rd_return (meta, align, ts))))))))) 0
        = Inr ((d_metadata d, align, d_tensors d), d_end d)" (is "?m 0 = _")
    using assms unfolding inspect_gguf_def Let_def by (auto split: sum.splits if_splits)
  have "bounded file ?m" by (auto split: option.split)
  then have "d_end d \<le> ?L" using run unfolding bounded_def by blast
  moreover from run obtain tc mc p q r where *: "read_metadata file mc [] p = Inr (d_metadata d, q)"
      "alignment_of (d_metadata d) = Some align" "read_tensors file align tc [] q = Inr (d_tensors d, r)"
      "tc \<le> max_count" "mc \<le> max_count"
    by (auto simp: rd_return_def split: option.splits elim!: bind_InrE dest!: check_InrD)
  moreover have "distinct (map fst (d_metadata d)) \<and> [] \<notin> fst ` set (d_metadata d) \<and> length (d_metadata d) = mc"
    using metadata_keys[OF *(1)] by simp
  moreover have "distinct (map t_name (d_tensors d)) \<and> list_all (tensor_ok align) (d_tensors d) \<and> length (d_tensors d) = tc"
    using read_tensors_ok[OF *(3)] by simp
  ultimately show ?thesis using data by (intro exI[of _ align]) simp
qed

lemma alignment_pos: "alignment_of meta = Some a \<Longrightarrow> 0 < a"
  by (auto simp: alignment_of_def split: option.splits gguf_value.splits if_splits)

section \<open>Properties\<close>

text \<open>C35. An accepted descriptor is safe to map: every tensor lies inside the file, two different tensors
  never overlap, each offset is a multiple of the alignment, each size is exactly what its dimensions
  and its type take, names and metadata keys are distinct, and the data section starts at the first
  aligned position after the descriptor.\<close>

theorem accepted_descriptor_is_safe:
  assumes "inspect_gguf file changed = Inr d"
  shows "(\<forall>t\<in>set (d_tensors d). d_data d + t_end t \<le> length file)
    \<and> (\<forall>t\<in>set (d_tensors d). \<forall>u\<in>set (d_tensors d). t \<noteq> u \<longrightarrow> t_end t \<le> t_offset u \<or> t_end u \<le> t_offset t)
    \<and> distinct (map t_name (d_tensors d)) \<and> distinct (map fst (d_metadata d))
    \<and> (\<exists>align. alignment_of (d_metadata d) = Some align \<and> list_all (tensor_ok align) (d_tensors d)
         \<and> align dvd d_data d \<and> d_end d \<le> d_data d \<and> d_data d < d_end d + align)"
proof -
  obtain align where a: "alignment_of (d_metadata d) = Some align" "d_data d = round_up (d_end d) align"
    "extents_ok (length file) (d_data d) 0 (sort_key t_offset (d_tensors d))"
    "distinct (map t_name (d_tensors d))" "distinct (map fst (d_metadata d))" "list_all (tensor_ok align) (d_tensors d)"
    using inspect_path[OF assms] by (elim exE conjE) 
  have "t_end t \<le> t_offset u \<or> t_end u \<le> t_offset t"
    if "t \<in> set (d_tensors d)" "u \<in> set (d_tensors d)" "t \<noteq> u" for t u
    using sorted_wrt_pair[of _ "sort_key t_offset (d_tensors d)" t u] extents_sorted[OF a(3)] that by auto
  then show ?thesis using extents_sorted[OF a(3)] round_up_bounds[OF alignment_pos[OF a(1)], of "d_end d"] a
    by auto
qed

text \<open>Reading is bounded: an accepted descriptor ends within the first 32 MiB and within the file, and
  has at most 100000 tensors and 100000 metadata entries, none with an empty key.\<close>

theorem descriptor_within_limits:
  assumes "inspect_gguf file changed = Inr d"
  shows "d_end d \<le> 33554432 \<and> d_end d \<le> length file \<and> d_data d \<le> length file
    \<and> length (d_tensors d) \<le> 100000 \<and> length (d_metadata d) \<le> 100000 \<and> [] \<notin> fst ` set (d_metadata d)"
  using inspect_path[OF assms] by (auto simp: max_header_def max_count_def)

text \<open>A file with one tensor of four 32-bit floats, aligned to eight bytes.\<close>

definition demo_file :: "nat list" where
  "demo_file = lit ''GGUF'' @ [3, 0, 0, 0] @ [1, 0, 0, 0, 0, 0, 0, 0] @ [1, 0, 0, 0, 0, 0, 0, 0]
     @ [17, 0, 0, 0, 0, 0, 0, 0] @ lit ''general.alignment'' @ [4, 0, 0, 0] @ [8, 0, 0, 0]
     @ [1, 0, 0, 0, 0, 0, 0, 0] @ lit ''w'' @ [1, 0, 0, 0] @ [4, 0, 0, 0, 0, 0, 0, 0] @ [0, 0, 0, 0] @ [0, 0, 0, 0, 0, 0, 0, 0]
     @ replicate 22 0"

definition demo_descriptor :: descriptor where
  "demo_descriptor = \<lparr>d_metadata = [(lit ''general.alignment'', GInt 8)],
     d_tensors = [\<lparr>t_name = lit ''w'', t_dims = [4], t_type = 0, t_offset = 0, t_size = 16\<rparr>], d_end = 90, d_data = 96\<rparr>"

lemmas reading_eval = inspect_gguf_def rd_bind_def rd_return_def rd_check_def advance_def skip_def number_def max_header_def
  read_string_def read_value_def scalar_value_def scalars_def alignment_of_def alignment_key_def read_tensor_def
  make_tensor_def blocks_def round_up_def t_end_def max_count_def max_name_def numeral_eq_Suc[of Num.One]

lemma demo_inspect: "inspect_gguf demo_file False = Inr demo_descriptor"
  by (simp add: demo_file_def lit_def reading_eval) (simp add: demo_descriptor_def lit_def)

theorem accepted_descriptor_is_safe_witness:
  "\<exists>d. inspect_gguf demo_file False = Inr d \<and> (\<forall>t\<in>set (d_tensors d). d_data d + t_end t \<le> length demo_file)"
  using accepted_descriptor_is_safe[OF demo_inspect] demo_inspect by blast

theorem descriptor_within_limits_witness: "d_end demo_descriptor \<le> length demo_file"
  using descriptor_within_limits[OF demo_inspect] by blast

end
