(* ===== verification/FiniteLedger.thy ===== *)
theory FiniteLedger
  imports Complex_Main Prelude Machines "HOL-Library.Multiset"
begin

text \<open>
  \<open>scripts/gufo_control/finite_ledger.py\<close>: the durable ledger of one finite test lifecycle. Every HTTP
  operation consumes a numbered slot before it is sent and is completed at most once; the ledger is a
  directory of exclusive files that each operation scans and validates again. Shown here: whatever
  sequence of operations is attempted, the directory stays one that the scan accepts, or one that every scan
  refuses once a write was torn, the wire and evidence budgets are never exceeded,
  slots are consumed in order and never twice, and after a failed outcome or a missed deadline nothing is ever
  reserved again.
\<close>

section \<open>The plan of a lifecycle\<close>

text \<open>The pinned workload document as the ledger reads it (\<open>finite_workload.py\<close>), times in seconds.\<close>

record prepared =
  pp_route :: pystr
  pp_request :: pystr
  pp_body :: "nat list"
  pp_sha256 :: pystr

record plan =
  lifetime_seconds :: rat
  readiness_seconds :: rat
  maximum_post_attempts :: nat
  maximum_ready_polls :: nat
  maximum_response_wire_bytes :: nat
  maximum_client_evidence_bytes :: nat
  operation_seconds :: rat
  post_response_wire_bytes :: nat
  get_response_wire_bytes :: nat
  generated_utf8_bytes :: nat
  post_summary_bytes :: nat
  get_summary_bytes :: nat
  posts :: "nat \<Rightarrow> prepared"

record header =
  h_run_id :: pystr
  h_resumed_at :: rat
  h_deadline :: rat

text \<open>The identity part of \<open>__init__\<close>; \<open>None\<close> is \<open>finite_ledger_identity\<close> or \<open>finite_ledger_deadline\<close>.\<close>

definition run_id_ok :: "pystr \<Rightarrow> bool" where
  "run_id_ok s \<longleftrightarrow> 1 \<le> length s \<and> length s \<le> 96
     \<and> list_all (\<lambda>c. 48 \<le> c \<and> c \<le> 57 \<or> 65 \<le> c \<and> c \<le> 90 \<or> 97 \<le> c \<and> c \<le> 122 \<or> c = 45) s"

definition make_header :: "plan \<Rightarrow> pystr \<Rightarrow> rat \<Rightarrow> header option" where
  "make_header pl run_id resumed_at =
     (if run_id_ok run_id \<and> 0 \<le> resumed_at \<and> resumed_at < resumed_at + lifetime_seconds pl
      then Some \<lparr>h_run_id = run_id, h_resumed_at = resumed_at, h_deadline = resumed_at + lifetime_seconds pl\<rparr>
      else None)"

section \<open>Slots and records\<close>

datatype kind = KReady | KModels | KPost

type_synonym slot = "kind \<times> nat"  \<comment> \<open>the name \<open>kind-NNN\<close>\<close>

record spec =
  sp_path :: pystr
  sp_request :: "pystr option"
  sp_body_bytes :: nat
  sp_body_sha256 :: pystr
  sp_wire :: nat
  sp_evidence :: nat

record reservation =
  r_kind :: kind
  r_ordinal :: nat
  r_spec :: spec
  r_started :: rat
  r_deadline :: rat

definition r_slot :: "reservation \<Rightarrow> slot" where
  "r_slot r = (r_kind r, r_ordinal r)"

record 'x slot_outcome =
  o_slot :: slot
  o_digest :: pystr
  o_success :: bool
  o_result :: 'x

record latch =
  l_run_id :: pystr
  l_slot :: slot
  l_deadline :: rat
  l_observed :: rat

definition record_limit :: nat where "record_limit = 4096"
definition base_evidence_reserve :: nat where "base_evidence_reserve = 1048576"

text \<open>\<open>sha\<close> stands for \<open>sha256(body).hexdigest().upper()\<close>.\<close>

definition spec_of :: "(nat list \<Rightarrow> pystr) \<Rightarrow> plan \<Rightarrow> kind \<Rightarrow> nat \<Rightarrow> spec option" where
  "spec_of sha pl k n =
     (if n < 1 \<or> (case k of KPost \<Rightarrow> maximum_post_attempts pl | KReady \<Rightarrow> maximum_ready_polls pl | KModels \<Rightarrow> 1) < n
      then None
      else Some (case k of
          KPost \<Rightarrow> let p = posts pl n in
            \<lparr>sp_path = pp_route p, sp_request = Some (pp_request p), sp_body_bytes = length (pp_body p),
             sp_body_sha256 = pp_sha256 p, sp_wire = post_response_wire_bytes pl,
             sp_evidence = post_response_wire_bytes pl + generated_utf8_bytes pl + post_summary_bytes pl + record_limit\<rparr>
        | _ \<Rightarrow>
            \<lparr>sp_path = (if k = KReady then lit ''/ready'' else lit ''/v1/models''), sp_request = None, sp_body_bytes = 0,
             sp_body_sha256 = sha [], sp_wire = get_response_wire_bytes pl,
             sp_evidence = get_response_wire_bytes pl + get_summary_bytes pl + record_limit\<rparr>))"

definition slot_deadline :: "plan \<Rightarrow> header \<Rightarrow> kind \<Rightarrow> rat \<Rightarrow> rat" where
  "slot_deadline pl h k now =
     (let fin = min (now + operation_seconds pl) (h_deadline h)
      in if k \<noteq> KPost then min fin (h_resumed_at h + readiness_seconds pl) else fin)"

section \<open>The directory\<close>

text \<open>The content of a record file: of the expected shape and types, other JSON, or what a failed write left of
  a record, which is no JSON.\<close>

datatype 'a content = Row 'a | Malformed | Partial

datatype 'x entry =
    EIdentity
  | ELock
  | ELatch "latch content"
  | EReserved kind nat "reservation content"
  | EOutcome kind nat "'x slot_outcome content"
  | EForeign

record 'x scanned =
  s_reserved :: "reservation list"
  s_outcomes :: "'x slot_outcome list"
  s_latch :: "latch option"

definition nothing_scanned :: "'x scanned" where
  "nothing_scanned = \<lparr>s_reserved = [], s_outcomes = [], s_latch = None\<rparr>"

definition reservation_ok :: "(nat list \<Rightarrow> pystr) \<Rightarrow> plan \<Rightarrow> header \<Rightarrow> kind \<Rightarrow> nat \<Rightarrow> reservation \<Rightarrow> bool" where
  "reservation_ok sha pl h k n r \<longleftrightarrow> r_kind r = k \<and> r_ordinal r = n \<and> Some (r_spec r) = spec_of sha pl k n
     \<and> 0 \<le> r_started r \<and> h_resumed_at h \<le> r_started r \<and> r_deadline r = slot_deadline pl h k (r_started r)
     \<and> r_started r < r_deadline r"

definition scan_entry ::
    "(nat list \<Rightarrow> pystr) \<Rightarrow> plan \<Rightarrow> header \<Rightarrow> 'x entry \<Rightarrow> 'x scanned \<Rightarrow> string + 'x scanned" where
  "scan_entry sha pl h e s = (case e of
      EIdentity \<Rightarrow> Inr s
    | ELock \<Rightarrow> Inr s
    | ELatch c \<Rightarrow> (case c of
        Malformed \<Rightarrow> Inl ''finite_transport_latch_invalid''
      | Partial \<Rightarrow> Inl ''JSONDecodeError''
      | Row l \<Rightarrow> if l_run_id l \<noteq> h_run_id h \<or> l_deadline l < 0 \<or> l_observed l < 0
          then Inl ''finite_transport_latch_invalid'' else Inr (s\<lparr>s_latch := Some l\<rparr>))
    | EForeign \<Rightarrow> Inl ''finite_ledger_entry''
    | EReserved k n c \<Rightarrow>
        if spec_of sha pl k n = None then Inl ''finite_slot''
        else (case c of
            Malformed \<Rightarrow> Inl ''finite_reservation_invalid''
          | Partial \<Rightarrow> Inl ''JSONDecodeError''
          | Row r \<Rightarrow> if reservation_ok sha pl h k n r then Inr (s\<lparr>s_reserved := s_reserved s @ [r]\<rparr>)
              else Inl ''finite_reservation_invalid'')
    | EOutcome k n c \<Rightarrow>
        if spec_of sha pl k n = None then Inl ''finite_slot''
        else (case c of
            Malformed \<Rightarrow> Inl ''finite_outcome_invalid''
          | Partial \<Rightarrow> Inl ''JSONDecodeError''
          | Row w \<Rightarrow> if o_slot w = (k, n) then Inr (s\<lparr>s_outcomes := s_outcomes s @ [w]\<rparr>)
              else Inl ''finite_outcome_invalid''))"

definition is_latch :: "'x entry \<Rightarrow> bool" where
  "is_latch e = (case e of ELatch _ \<Rightarrow> True | _ \<Rightarrow> False)"

definition max_entries :: "plan \<Rightarrow> nat" where
  "max_entries pl = 2 + 2 * (maximum_post_attempts pl + maximum_ready_polls pl + 1)"

fun scan_entries ::
    "(nat list \<Rightarrow> pystr) \<Rightarrow> plan \<Rightarrow> header \<Rightarrow> nat \<Rightarrow> 'x entry list \<Rightarrow> 'x scanned \<Rightarrow> string + 'x scanned" where
  "scan_entries sha pl h seen [] s = Inr s"
| "scan_entries sha pl h seen (e # es) s =
     (if max_entries pl + (if is_latch e \<or> s_latch s \<noteq> None then 1 else 0) < seen + 1 then Inl ''finite_ledger_entries''
      else (case scan_entry sha pl h e s of Inl x \<Rightarrow> Inl x | Inr s' \<Rightarrow> scan_entries sha pl h (seen + 1) es s'))"

definition ordinals :: "kind \<Rightarrow> reservation list \<Rightarrow> nat list" where
  "ordinals k rs = map r_ordinal (filter (\<lambda>r. r_kind r = k) rs)"

definition reservation_at :: "slot \<Rightarrow> reservation list \<Rightarrow> reservation option" where
  "reservation_at sl rs = row_by r_slot sl rs"

definition wire_sum :: "reservation list \<Rightarrow> nat" where
  "wire_sum rs = sum_list (map (\<lambda>r. sp_wire (r_spec r)) rs)"

definition evidence_sum :: "reservation list \<Rightarrow> nat" where
  "evidence_sum rs = base_evidence_reserve + sum_list (map (\<lambda>r. sp_evidence (r_spec r)) rs)"

text \<open>\<open>digest\<close> stands for the SHA-256 of the canonical encoding of a reservation.\<close>

definition scan_checks ::
    "(reservation \<Rightarrow> pystr) \<Rightarrow> plan \<Rightarrow> 'x scanned \<Rightarrow> string option" where
  "scan_checks digest pl s =
     (if \<exists>k\<in>set [KReady, KModels, KPost]. sort (ordinals k (s_reserved s)) \<noteq> [1..<length (ordinals k (s_reserved s)) + 1]
      then Some ''finite_reservation_gap''
      else if \<exists>w\<in>set (s_outcomes s). (case reservation_at (o_slot w) (s_reserved s) of
             None \<Rightarrow> True | Some r \<Rightarrow> o_digest w \<noteq> digest r)
      then Some ''finite_outcome_binding''
      else if (case s_latch s of None \<Rightarrow> False | Some l \<Rightarrow> (case reservation_at (l_slot l) (s_reserved s) of
             None \<Rightarrow> True | Some r \<Rightarrow> l_deadline l \<noteq> r_deadline r \<or> l_observed l < r_deadline r))
      then Some ''finite_transport_latch_invalid''
      else if maximum_response_wire_bytes pl < wire_sum (s_reserved s)
           \<or> maximum_client_evidence_bytes pl < evidence_sum (s_reserved s)
      then Some ''finite_budget_exceeded'' else None)"

definition scan ::
    "(nat list \<Rightarrow> pystr) \<Rightarrow> (reservation \<Rightarrow> pystr) \<Rightarrow> plan \<Rightarrow> header \<Rightarrow> 'x entry list \<Rightarrow> string + 'x scanned" where
  "scan sha digest pl h dir = (case scan_entries sha pl h 0 dir nothing_scanned of
      Inl e \<Rightarrow> Inl e
    | Inr s \<Rightarrow> (case scan_checks digest pl s of Some e \<Rightarrow> Inl e | None \<Rightarrow> Inr s))"

section \<open>The operations\<close>

text \<open>The directory and the in-memory flag \<open>_transport_failed\<close>.\<close>

record 'x store =
  st_dir :: "'x entry list"
  st_failed :: bool

text \<open>\<open>_locked\<close> and the scan that every operation starts with.\<close>

definition opened ::
    "(nat list \<Rightarrow> pystr) \<Rightarrow> (reservation \<Rightarrow> pystr) \<Rightarrow> plan \<Rightarrow> header \<Rightarrow> 'x store \<Rightarrow> string + 'x scanned" where
  "opened sha digest pl h st =
     (if st_failed st then Inl ''finite_transport_failed''
      else (case scan sha digest pl h (st_dir st) of
          Inl e \<Rightarrow> Inl e
        | Inr s \<Rightarrow> if s_latch s \<noteq> None then Inl ''finite_transport_failed'' else Inr s))"

text \<open>
  \<open>_exclusive\<close>. How the write of a record comes out is the environment's choice: the encoded record is too large,
  the file cannot be created, the write stops inside the record, the record is written and the failure comes
  after it (flush, \<open>fsync\<close>), or all goes well. A file that exists raises. The file of a failed write stays.
\<close>

datatype written = Written | TooLarge | Unwritten | Torn | Unsynced

fun torn_entry :: "'x entry \<Rightarrow> 'x entry" where
  "torn_entry (ELatch c) = ELatch Partial"
| "torn_entry (EReserved k n c) = EReserved k n Partial"
| "torn_entry (EOutcome k n c) = EOutcome k n Partial"
| "torn_entry e = e"

definition same_file :: "'x entry \<Rightarrow> 'x entry \<Rightarrow> bool" where
  "same_file a b = (case (a, b) of
      (ELatch _, ELatch _) \<Rightarrow> True
    | (EReserved k n _, EReserved k' n' _) \<Rightarrow> k = k' \<and> n = n'
    | (EOutcome k n _, EOutcome k' n' _) \<Rightarrow> k = k' \<and> n = n'
    | _ \<Rightarrow> False)"

definition exclusive :: "written \<Rightarrow> 'x entry \<Rightarrow> 'x entry list \<Rightarrow> string option \<times> 'x entry list" where
  "exclusive io e dir =
     (if io = TooLarge then (Some ''finite_record_size'', dir)
      else if list_ex (same_file e) dir then (Some ''FileExistsError'', dir)
      else (case io of
          Written \<Rightarrow> (None, dir @ [e])
        | Unsynced \<Rightarrow> (Some ''OSError'', dir @ [e])
        | Torn \<Rightarrow> (Some ''OSError'', dir @ [torn_entry e])
        | _ \<Rightarrow> (Some ''OSError'', dir)))"

definition reserve ::
    "(nat list \<Rightarrow> pystr) \<Rightarrow> (reservation \<Rightarrow> pystr) \<Rightarrow> plan \<Rightarrow> header
       \<Rightarrow> kind \<Rightarrow> nat \<Rightarrow> nat list \<Rightarrow> rat \<Rightarrow> written \<Rightarrow> 'x store \<Rightarrow> (string + reservation) \<times> 'x store" where
  "reserve sha digest pl h k n body now io st = (case opened sha digest pl h st of
      Inl e \<Rightarrow> (Inl e, st)
    | Inr s \<Rightarrow>
        if list_ex (\<lambda>w. \<not> o_success w) (s_outcomes s) then (Inl ''finite_prior_failure'', st)
        else (case spec_of sha pl k n of
            None \<Rightarrow> (Inl ''finite_slot'', st)
          | Some sp \<Rightarrow>
              if n \<noteq> length (ordinals k (s_reserved s)) + 1 then (Inl ''finite_slot_consumed_or_out_of_order'', st)
              else if k \<noteq> KPost \<and> ordinals KPost (s_reserved s) \<noteq> [] then (Inl ''finite_readiness_finished'', st)
              else if length body \<noteq> sp_body_bytes sp \<or> sha body \<noteq> sp_body_sha256 sp then (Inl ''finite_request_identity'', st)
              else if now < 0 \<or> now < h_resumed_at h \<or> slot_deadline pl h k now \<le> now then (Inl ''finite_deadline'', st)
              else if maximum_response_wire_bytes pl < wire_sum (s_reserved s) + sp_wire sp
                   \<or> maximum_client_evidence_bytes pl < evidence_sum (s_reserved s) + sp_evidence sp
              then (Inl ''finite_budget_exceeded'', st)
              else
                let r = \<lparr>r_kind = k, r_ordinal = n, r_spec = sp, r_started = now, r_deadline = slot_deadline pl h k now\<rparr>
                in (case exclusive io (EReserved k n (Row r)) (st_dir st) of
                    (Some e, dir) \<Rightarrow> (Inl e, st\<lparr>st_dir := dir\<rparr>)
                  | (None, dir) \<Rightarrow> (Inr r, st\<lparr>st_dir := dir\<rparr>))))"

text \<open>Writing the latch: the in-memory flag is set first and stays set when the write fails.\<close>

definition write_latch ::
    "header \<Rightarrow> reservation \<Rightarrow> rat \<Rightarrow> written \<Rightarrow> 'x store \<Rightarrow> string option \<times> 'x store" where
  "write_latch h r observed io st =
     (case exclusive io (ELatch (Row \<lparr>l_run_id = h_run_id h, l_slot = r_slot r, l_deadline = r_deadline r,
          l_observed = observed\<rparr>)) (st_dir st) of
        (err, dir) \<Rightarrow> (err, st\<lparr>st_failed := True, st_dir := dir\<rparr>))"

text \<open>\<open>complete\<close> writes the outcome and, when that took until the deadline, the latch: two writes.\<close>

definition complete_slot ::
    "(nat list \<Rightarrow> pystr) \<Rightarrow> (reservation \<Rightarrow> pystr) \<Rightarrow> plan \<Rightarrow> header
       \<Rightarrow> slot \<Rightarrow> (bool \<times> 'x) option \<Rightarrow> rat \<Rightarrow> written \<times> written \<Rightarrow> 'x store \<Rightarrow> (string + rat) \<times> 'x store" where
  "complete_slot sha digest pl h sl result committed io st = (case opened sha digest pl h st of
      Inl e \<Rightarrow> (Inl e, st)
    | Inr s \<Rightarrow> (case reservation_at sl (s_reserved s) of
        None \<Rightarrow> (Inl ''finite_outcome_slot'', st)
      | Some r \<Rightarrow>
          if sl \<in> o_slot ` set (s_outcomes s) then (Inl ''finite_outcome_slot'', st)
          else (case result of
              None \<Rightarrow> (Inl ''finite_outcome_invalid'', st)
            | Some (ok, x) \<Rightarrow>
                (case exclusive (fst io) (EOutcome (fst sl) (snd sl)
                    (Row \<lparr>o_slot = sl, o_digest = digest r, o_success = ok, o_result = x\<rparr>)) (st_dir st) of
                   (Some e, dir) \<Rightarrow> (Inl e, st\<lparr>st_dir := dir\<rparr>)
                 | (None, dir) \<Rightarrow>
                     let st' = st\<lparr>st_dir := dir\<rparr>
                     in if r_deadline r \<le> committed
                        then (case write_latch h r committed (snd io) st' of
                            (Some e, st'') \<Rightarrow> (Inl e, st'')
                          | (None, st'') \<Rightarrow> (Inl ''finite_outcome_deadline'', st''))
                        else (Inr committed, st')))))"

definition fail_transport ::
    "(nat list \<Rightarrow> pystr) \<Rightarrow> (reservation \<Rightarrow> pystr) \<Rightarrow> plan \<Rightarrow> header
       \<Rightarrow> slot \<Rightarrow> rat \<Rightarrow> written \<Rightarrow> 'x store \<Rightarrow> (string + unit) \<times> 'x store" where
  "fail_transport sha digest pl h sl observed io st = (case opened sha digest pl h st of
      Inl e \<Rightarrow> (Inl e, st)
    | Inr s \<Rightarrow> (case reservation_at sl (s_reserved s) of
        None \<Rightarrow> (Inl ''finite_transport_latch_invalid'', st)
      | Some r \<Rightarrow>
          if observed < 0 \<or> observed < r_deadline r then (Inl ''finite_transport_latch_invalid'', st)
          else (case write_latch h r observed io st of
              (Some e, st') \<Rightarrow> (Inl e, st')
            | (None, st') \<Rightarrow> (Inr (), st'))))"

definition receipt ::
    "(nat list \<Rightarrow> pystr) \<Rightarrow> (reservation \<Rightarrow> pystr) \<Rightarrow> plan \<Rightarrow> header \<Rightarrow> slot \<Rightarrow> 'x store
       \<Rightarrow> string + reservation \<times> 'x slot_outcome" where
  "receipt sha digest pl h sl st = (case opened sha digest pl h st of
      Inl e \<Rightarrow> Inl e
    | Inr s \<Rightarrow> (case (reservation_at sl (s_reserved s), row_by o_slot sl (s_outcomes s)) of
        (Some r, Some w) \<Rightarrow> Inr (r, w)
      | _ \<Rightarrow> Inl ''finite_receipt_incomplete''))"


text \<open>\<open>snapshot\<close>: the counters the lifecycle reports.\<close>

record summary =
  sn_reserved :: nat
  sn_completed :: nat
  sn_pending :: "slot list"
  sn_counts :: "nat \<times> nat \<times> nat"
  sn_wire :: nat
  sn_evidence :: nat

definition snapshot ::
    "(nat list \<Rightarrow> pystr) \<Rightarrow> (reservation \<Rightarrow> pystr) \<Rightarrow> plan \<Rightarrow> header \<Rightarrow> 'x store \<Rightarrow> string + summary" where
  "snapshot sha digest pl h st = (case opened sha digest pl h st of
      Inl e \<Rightarrow> Inl e
    | Inr s \<Rightarrow> Inr \<lparr>sn_reserved = length (s_reserved s), sn_completed = length (s_outcomes s),
        sn_pending = filter (\<lambda>sl. sl \<notin> o_slot ` set (s_outcomes s)) (map r_slot (s_reserved s)),
        sn_counts = (length (ordinals KReady (s_reserved s)), length (ordinals KModels (s_reserved s)),
                     length (ordinals KPost (s_reserved s))),
        sn_wire = wire_sum (s_reserved s), sn_evidence = evidence_sum (s_reserved s)\<rparr>)"

text \<open>The rest of \<open>__init__\<close>: a new directory holds the identity and the lock file; an existing one is
  taken over only when every reservation has its outcome.\<close>

definition create_ledger ::
    "(nat list \<Rightarrow> pystr) \<Rightarrow> (reservation \<Rightarrow> pystr) \<Rightarrow> plan \<Rightarrow> header \<Rightarrow> string + 'x store" where
  "create_ledger sha digest pl h =
     (let st = \<lparr>st_dir = [EIdentity, ELock], st_failed = False\<rparr> in
      case opened sha digest pl h st of Inl e \<Rightarrow> Inl e | Inr s \<Rightarrow> Inr st)"

definition reopen ::
    "(nat list \<Rightarrow> pystr) \<Rightarrow> (reservation \<Rightarrow> pystr) \<Rightarrow> plan \<Rightarrow> header \<Rightarrow> 'x entry list \<Rightarrow> string + 'x store" where
  "reopen sha digest pl h dir =
     (let st = \<lparr>st_dir = dir, st_failed = False\<rparr> in
      case opened sha digest pl h st of
        Inl e \<Rightarrow> Inl e
      | Inr s \<Rightarrow> if r_slot ` set (s_reserved s) \<noteq> o_slot ` set (s_outcomes s)
          then Inl ''finite_incomplete_handoff'' else Inr st)"

section \<open>Any sequence of operations\<close>

datatype 'x op =
    DoReserve kind nat "nat list" rat written
  | DoComplete slot "(bool \<times> 'x) option" rat "written \<times> written"
  | DoFail slot rat written
  | DoReopen

fun perform ::
    "(nat list \<Rightarrow> pystr) \<Rightarrow> (reservation \<Rightarrow> pystr) \<Rightarrow> plan \<Rightarrow> header \<Rightarrow> 'x op \<Rightarrow> 'x store \<Rightarrow> 'x store" where
  "perform sha digest pl h (DoReserve k n body now io) st = snd (reserve sha digest pl h k n body now io st)"
| "perform sha digest pl h (DoComplete sl res t io) st = snd (complete_slot sha digest pl h sl res t io st)"
| "perform sha digest pl h (DoFail sl t io) st = snd (fail_transport sha digest pl h sl t io st)"
| "perform sha digest pl h DoReopen st =
     (case reopen sha digest pl h (st_dir st) of Inl e \<Rightarrow> st | Inr st' \<Rightarrow> st')"

definition performs ::
    "(nat list \<Rightarrow> pystr) \<Rightarrow> (reservation \<Rightarrow> pystr) \<Rightarrow> plan \<Rightarrow> header \<Rightarrow> 'x op list \<Rightarrow> 'x store \<Rightarrow> 'x store" where
  "performs sha digest pl h ops st = fold (perform sha digest pl h) ops st"


section \<open>What the directory holds\<close>

fun reserved_row :: "'x entry \<Rightarrow> reservation list" where
  "reserved_row (EReserved k n (Row r)) = [r]"
| "reserved_row e = []"

fun outcome_row :: "'x entry \<Rightarrow> 'x slot_outcome list" where
  "outcome_row (EOutcome k n (Row w)) = [w]"
| "outcome_row e = []"

fun latch_row :: "'x entry \<Rightarrow> latch list" where
  "latch_row (ELatch (Row l)) = [l]"
| "latch_row e = []"

definition reservations_in :: "'x entry list \<Rightarrow> reservation list" where
  "reservations_in dir = concat (map reserved_row dir)"

definition outcomes_in :: "'x entry list \<Rightarrow> 'x slot_outcome list" where
  "outcomes_in dir = concat (map outcome_row dir)"

definition latches_in :: "'x entry list \<Rightarrow> latch list" where
  "latches_in dir = concat (map latch_row dir)"

lemmas contents_defs = reservations_in_def outcomes_in_def latches_in_def

lemma contents_simps [simp]:
  "reservations_in [] = []" "outcomes_in [] = []" "latches_in [] = []"
  "reservations_in (e # d) = reserved_row e @ reservations_in d"
  "outcomes_in (e # d) = outcome_row e @ outcomes_in d"
  "latches_in (e # d) = latch_row e @ latches_in d"
  "reservations_in (d @ d') = reservations_in d @ reservations_in d'"
  "outcomes_in (d @ d') = outcomes_in d @ outcomes_in d'"
  "latches_in (d @ d') = latches_in d @ latches_in d'"
  by (simp_all add: contents_defs)

definition entry_ok :: "(nat list \<Rightarrow> pystr) \<Rightarrow> plan \<Rightarrow> header \<Rightarrow> 'x entry \<Rightarrow> bool" where
  "entry_ok sha pl h e \<longleftrightarrow> is_ok (scan_entry sha pl h e nothing_scanned)"

definition is_fixed :: "'x entry \<Rightarrow> bool" where
  "is_fixed e = (case e of EIdentity \<Rightarrow> True | ELock \<Rightarrow> True | _ \<Rightarrow> False)"

text \<open>A directory in order, stated without the order in which it is listed.\<close>

definition dir_ok ::
    "(nat list \<Rightarrow> pystr) \<Rightarrow> (reservation \<Rightarrow> pystr) \<Rightarrow> plan \<Rightarrow> header \<Rightarrow> 'x entry list \<Rightarrow> bool" where
  "dir_ok sha digest pl h dir \<longleftrightarrow>
     (\<forall>e\<in>set dir. entry_ok sha pl h e) \<and> length (filter is_fixed dir) \<le> 2 \<and> length (latches_in dir) \<le> 1
   \<and> distinct (map o_slot (outcomes_in dir))
   \<and> (\<forall>k. mset (ordinals k (reservations_in dir)) = mset [1..<length (ordinals k (reservations_in dir)) + 1])
   \<and> (\<forall>w\<in>set (outcomes_in dir). \<exists>r\<in>set (reservations_in dir). r_slot r = o_slot w \<and> o_digest w = digest r)
   \<and> (\<forall>l\<in>set (latches_in dir). \<exists>r\<in>set (reservations_in dir).
        r_slot r = l_slot l \<and> l_deadline l = r_deadline r \<and> r_deadline r \<le> l_observed l)
   \<and> wire_sum (reservations_in dir) \<le> maximum_response_wire_bytes pl
   \<and> evidence_sum (reservations_in dir) \<le> maximum_client_evidence_bytes pl"

lemma dir_okD:
  assumes "dir_ok sha digest pl h dir"
  shows "e \<in> set dir \<Longrightarrow> entry_ok sha pl h e" "length (filter is_fixed dir) \<le> 2" "length (latches_in dir) \<le> 1"
    "distinct (map o_slot (outcomes_in dir))"
    "mset (ordinals k (reservations_in dir)) = mset [1..<length (ordinals k (reservations_in dir)) + 1]"
    "w \<in> set (outcomes_in dir) \<Longrightarrow> \<exists>r\<in>set (reservations_in dir). r_slot r = o_slot w \<and> o_digest w = digest r"
    "l \<in> set (latches_in dir) \<Longrightarrow> \<exists>r\<in>set (reservations_in dir).
        r_slot r = l_slot l \<and> l_deadline l = r_deadline r \<and> r_deadline r \<le> l_observed l"
    "wire_sum (reservations_in dir) \<le> maximum_response_wire_bytes pl"
    "evidence_sum (reservations_in dir) \<le> maximum_client_evidence_bytes pl"
  using assms unfolding dir_ok_def by blast+




section \<open>The scan accepts every ordered directory\<close>

lemma scan_entry_appends:
  assumes "entry_ok sha pl h e"
  shows "scan_entry sha pl h e s = Inr (s\<lparr>s_reserved := s_reserved s @ reserved_row e,
     s_outcomes := s_outcomes s @ outcome_row e,
     s_latch := (case latch_row e of [] \<Rightarrow> s_latch s | l # _ \<Rightarrow> Some l)\<rparr>)"
  using assms unfolding entry_ok_def scan_entry_def
  by (auto split: entry.splits content.splits if_splits)

lemma is_latch_row: "entry_ok sha pl h e \<Longrightarrow> is_latch e \<longleftrightarrow> latch_row e \<noteq> []"
  by (auto simp: is_latch_def entry_ok_def scan_entry_def split: entry.splits content.splits)

lemma length_latches_in: "length (latches_in es) \<le> length es"
proof (induction es)
  case (Cons e es)
  then show ?case by (cases e rule: latch_row.cases) auto
qed simp

definition latest :: "latch option \<Rightarrow> latch list \<Rightarrow> latch option" where
  "latest old ls = (if ls = [] then old else Some (last ls))"

lemma scan_entries_ok:
  assumes "\<And>e. e \<in> set es \<Longrightarrow> entry_ok sha pl h e"
    and "seen + length es \<le> max_entries pl + length (latches_in es) + (if s_latch s \<noteq> None then 1 else 0)"
    and "length (latches_in es) + (if s_latch s \<noteq> None then 1 else 0) \<le> 1"
  shows "scan_entries sha pl h seen es s = Inr (s\<lparr>s_reserved := s_reserved s @ reservations_in es,
     s_outcomes := s_outcomes s @ outcomes_in es, s_latch := latest (s_latch s) (latches_in es)\<rparr>)"
  using assms
proof (induction es arbitrary: seen s)
  case Nil
  then show ?case by (simp add: latest_def)
next
  case (Cons e es)
  have ok: "entry_ok sha pl h e" and oks: "\<And>x. x \<in> set es \<Longrightarrow> entry_ok sha pl h x"
    using Cons.prems(1) by auto
  let ?s = "s\<lparr>s_reserved := s_reserved s @ reserved_row e, s_outcomes := s_outcomes s @ outcome_row e,
     s_latch := (case latch_row e of [] \<Rightarrow> s_latch s | l # _ \<Rightarrow> Some l)\<rparr>"
  have row: "latch_row e = [] \<or> (\<exists>l. latch_row e = [l])" by (cases e rule: latch_row.cases) auto
  have len: "length (reserved_row e) \<le> 1" by (cases e rule: reserved_row.cases) auto
  have cnt: "\<not> max_entries pl + (if is_latch e \<or> s_latch s \<noteq> None then 1 else 0) < seen + 1"
    using Cons.prems(2,3) row length_latches_in[of es] by (auto simp: is_latch_row[OF ok] split: if_splits)
  have "scan_entries sha pl h (seen + 1) es ?s = Inr (?s\<lparr>s_reserved := s_reserved ?s @ reservations_in es,
     s_outcomes := s_outcomes ?s @ outcomes_in es, s_latch := latest (s_latch ?s) (latches_in es)\<rparr>)"
    by (rule Cons.IH[OF oks]) (use Cons.prems(2,3) row in \<open>auto split: if_splits\<close>)
  then show ?case
    using row cnt by (auto simp: scan_entry_appends[OF ok] latest_def)
qed

lemma slot_in_ordinals: "r \<in> set rs \<Longrightarrow> r_ordinal r \<in> set (ordinals (r_kind r) rs)"
  by (auto simp: ordinals_def)

lemma distinct_slots:
  assumes "\<And>k. distinct (ordinals k rs)"
  shows "distinct (map r_slot rs)"
  using assms
proof (induction rs)
  case (Cons r rs)
  have "distinct (ordinals k rs)" for k
    using Cons.prems[of k] by (auto simp: ordinals_def split: if_splits)
  moreover have "r_ordinal r \<notin> set (ordinals (r_kind r) rs)"
    using Cons.prems[of "r_kind r"] by (simp add: ordinals_def)
  then have "r_slot r \<notin> r_slot ` set rs"
    by (auto simp: r_slot_def ordinals_def)
  ultimately show ?case using Cons.IH by simp
qed simp

lemma dir_ok_slots:
  assumes "dir_ok sha digest pl h dir"
  shows "distinct (map r_slot (reservations_in dir))"
proof (rule distinct_slots)
  fix k show "distinct (ordinals k (reservations_in dir))"
    using dir_okD(5)[OF assms, of k] by (metis distinct_upt mset_eq_imp_distinct_iff)
qed

lemma reservation_at_in:
  "distinct (map r_slot rs) \<Longrightarrow> r \<in> set rs \<Longrightarrow> reservation_at (r_slot r) rs = Some r"
  unfolding reservation_at_def by (rule row_by_unique)

lemma reservation_row_ok:
  assumes "entry_ok sha pl h e" "r \<in> set (reserved_row e)"
  shows "reservation_ok sha pl h (r_kind r) (r_ordinal r) r"
  using assms by (cases e rule: reserved_row.cases)
    (auto simp: entry_ok_def scan_entry_def reservation_ok_def split: if_splits)

lemma dir_ok_reservation:
  assumes "dir_ok sha digest pl h dir" "r \<in> set (reservations_in dir)"
  shows "reservation_ok sha pl h (r_kind r) (r_ordinal r) r"
  using assms(2) dir_okD(1)[OF assms(1)] by (auto simp: reservations_in_def intro: reservation_row_ok)

definition slot_count :: "plan \<Rightarrow> kind \<Rightarrow> nat" where
  "slot_count pl k = (case k of KPost \<Rightarrow> maximum_post_attempts pl | KReady \<Rightarrow> maximum_ready_polls pl | KModels \<Rightarrow> 1)"

lemma spec_of_None_iff: "spec_of sha pl k n = None \<longleftrightarrow> n < 1 \<or> slot_count pl k < n"
  by (simp add: spec_of_def slot_count_def)

lemma ordinals_within:
  assumes "dir_ok sha digest pl h dir"
  shows "length (ordinals k (reservations_in dir)) \<le> slot_count pl k"
proof (cases "length (ordinals k (reservations_in dir))")
  case (Suc m)
  then have "Suc m \<in> set (ordinals k (reservations_in dir))"
    using dir_okD(5)[OF assms, of k] by (metis add.commute atLeastLessThan_iff le_add1 lessI mset_eq_setD plus_1_eq_Suc set_upt)
  then obtain r where r: "r \<in> set (reservations_in dir)" "r_kind r = k" "r_ordinal r = Suc m"
    by (auto simp: ordinals_def)
  then have "spec_of sha pl k (Suc m) \<noteq> None"
    using dir_ok_reservation[OF assms r(1)] by (metis option.distinct(1) r(2,3) reservation_ok_def)
  then show ?thesis using Suc by (simp add: spec_of_None_iff)
qed simp

lemma length_by_kind:
  "length rs = length (ordinals KReady rs) + length (ordinals KModels rs) + length (ordinals KPost rs)"
proof (induction rs)
  case (Cons r rs)
  then show ?case by (cases "r_kind r") (simp_all add: ordinals_def)
qed (simp add: ordinals_def)

lemma outcomes_at_most_reservations:
  assumes "dir_ok sha digest pl h dir"
  shows "length (outcomes_in dir) \<le> length (reservations_in dir)"
proof -
  have "o_slot ` set (outcomes_in dir) \<subseteq> r_slot ` set (reservations_in dir)"
    using dir_okD(6)[OF assms] by (metis image_eqI image_subsetI)
  then have "card (o_slot ` set (outcomes_in dir)) \<le> card (r_slot ` set (reservations_in dir))"
    by (intro card_mono) auto
  then show ?thesis
    using distinct_card[OF dir_okD(4)[OF assms]] distinct_card[OF dir_ok_slots[OF assms]] by simp
qed

lemma entry_length:
  assumes "\<And>e. e \<in> set es \<Longrightarrow> entry_ok sha pl h e"
  shows "length es = length (filter is_fixed es) + length (latches_in es)
           + length (reservations_in es) + length (outcomes_in es)"
  using assms
proof (induction es)
  case (Cons e es)
  have "entry_ok sha pl h e" using Cons.prems by simp
  then have "length (latch_row e) + length (reserved_row e) + length (outcome_row e) + (if is_fixed e then 1 else 0) = 1"
    by (auto simp: entry_ok_def scan_entry_def is_fixed_def split: entry.splits content.splits if_splits)
  then show ?case using Cons by (auto split: if_splits)
qed simp

definition contents :: "'x entry list \<Rightarrow> 'x scanned" where
  "contents dir = \<lparr>s_reserved = reservations_in dir, s_outcomes = outcomes_in dir, s_latch = latest None (latches_in dir)\<rparr>"

lemma contents_sel [simp]:
  "s_reserved (contents dir) = reservations_in dir" "s_outcomes (contents dir) = outcomes_in dir"
  "s_latch (contents dir) = latest None (latches_in dir)"
  by (simp_all add: contents_def)

lemma dir_ok_checks:
  assumes "dir_ok sha digest pl h dir"
  shows "scan_checks digest pl (contents dir) = None"
proof -
  note slots = dir_ok_slots[OF assms]
  have gap: "sort (ordinals k (reservations_in dir)) = [1..<length (ordinals k (reservations_in dir)) + 1]" for k
    using dir_okD(5)[OF assms, of k] by (metis sorted_list_of_multiset_mset sorted_sort_id sorted_upt)
  have bind: "(case reservation_at (o_slot w) (reservations_in dir) of None \<Rightarrow> True | Some r \<Rightarrow> o_digest w \<noteq> digest r) = False"
    if w: "w \<in> set (outcomes_in dir)" for w
    using dir_okD(6)[OF assms w] reservation_at_in[OF slots] by force
  have latch: "(case reservation_at (l_slot l) (reservations_in dir) of
      None \<Rightarrow> True | Some r \<Rightarrow> l_deadline l \<noteq> r_deadline r \<or> l_observed l < r_deadline r) = False"
    if l: "l \<in> set (latches_in dir)" for l
    using dir_okD(7)[OF assms l] reservation_at_in[OF slots] by force
  have last: "(case latest None (latches_in dir) of None \<Rightarrow> False | Some l \<Rightarrow>
      (case reservation_at (l_slot l) (reservations_in dir) of
      None \<Rightarrow> True | Some r \<Rightarrow> l_deadline l \<noteq> r_deadline r \<or> l_observed l < r_deadline r)) = False"
    by (cases "latches_in dir = []") (simp_all add: latest_def latch)
  show ?thesis
    unfolding scan_checks_def contents_sel last gap using bind dir_okD(8,9)[OF assms]
    by (simp only: simp_thms if_False bex_simps not_less) simp
qed

lemma scan_ok:
  assumes "dir_ok sha digest pl h dir"
  shows "scan sha digest pl h dir = Inr (contents dir)"
proof -
  have "length dir \<le> max_entries pl + length (latches_in dir)"
    using entry_length[of dir sha pl h] dir_okD(1,2)[OF assms] outcomes_at_most_reservations[OF assms]
      length_by_kind[of "reservations_in dir"] ordinals_within[OF assms, of KReady]
      ordinals_within[OF assms, of KModels] ordinals_within[OF assms, of KPost]
    by (simp add: max_entries_def slot_count_def)
  then have "scan_entries sha pl h 0 dir nothing_scanned = Inr (contents dir)"
    using scan_entries_ok[of dir sha pl h 0 nothing_scanned] dir_okD(1,3)[OF assms]
    by (simp add: nothing_scanned_def contents_def)
  then show ?thesis by (simp add: scan_def dir_ok_checks[OF assms])
qed

section \<open>A torn record stops the ledger\<close>

definition is_partial :: "'x entry \<Rightarrow> bool" where
  "is_partial e = (case e of ELatch c \<Rightarrow> c = Partial | EReserved k n c \<Rightarrow> c = Partial | EOutcome k n c \<Rightarrow> c = Partial | _ \<Rightarrow> False)"

definition torn :: "'x entry list \<Rightarrow> bool" where
  "torn dir = list_ex is_partial dir"

lemma torn_append [simp]: "torn (dir @ es) \<longleftrightarrow> torn dir \<or> torn es"
  by (simp add: torn_def)

lemma torn_rows [simp]: "reserved_row (torn_entry e) = []" "outcome_row (torn_entry e) = []" "latch_row (torn_entry e) = []"
  by (cases e; simp)+

lemma scan_entry_partial: "is_partial e \<Longrightarrow> \<exists>x. scan_entry sha pl h e s = Inl x"
  by (auto simp: is_partial_def scan_entry_def split: entry.splits)

lemma scan_entries_torn: "torn es \<Longrightarrow> \<exists>x. scan_entries sha pl h seen es s = Inl x"
proof (induction es arbitrary: seen s)
  case (Cons e es)
  show ?case
  proof (cases "scan_entry sha pl h e s")
    case (Inr s')
    then have "torn es" using Cons.prems scan_entry_partial [of e sha pl h s] by (auto simp: torn_def)
    then show ?thesis using Cons.IH [of "seen + 1" s'] Inr by simp
  qed simp
qed (simp add: torn_def)

lemma scan_torn: "torn dir \<Longrightarrow> \<exists>x. scan sha digest pl h dir = Inl x"
  using scan_entries_torn [of dir sha pl h 0 nothing_scanned] by (auto simp: scan_def)

lemma opened_torn: "torn (st_dir st) \<Longrightarrow> \<exists>x. opened sha digest pl h st = Inl x"
  using scan_torn [of "st_dir st" sha digest pl h] by (auto simp: opened_def)

lemma torn_reserve: "torn (st_dir st) \<Longrightarrow> \<exists>e. reserve sha digest pl h k n body now io st = (Inl e, st)"
  using opened_torn [of st sha digest pl h] by (auto simp: reserve_def)

lemma torn_complete: "torn (st_dir st) \<Longrightarrow> \<exists>e. complete_slot sha digest pl h sl res t io st = (Inl e, st)"
  using opened_torn [of st sha digest pl h] by (auto simp: complete_slot_def)

lemma torn_perform:
  assumes "torn (st_dir st)"
  shows "perform sha digest pl h p st = st"
proof (cases p)
  case (DoReserve k n body now io)
  then show ?thesis using torn_reserve [OF assms, of sha digest pl h k n body now io] by auto
next
  case (DoComplete sl res t io)
  then show ?thesis using torn_complete [OF assms, of sha digest pl h sl res t io] by auto
next
  case (DoFail sl t io)
  then show ?thesis using opened_torn [OF assms, of sha digest pl h] by (auto simp: fail_transport_def)
next
  case DoReopen
  obtain x where "opened sha digest pl h \<lparr>st_dir = st_dir st, st_failed = False\<rparr> = Inl x"
    using opened_torn [of "\<lparr>st_dir = st_dir st, st_failed = False\<rparr>" sha digest pl h] assms by auto
  then show ?thesis by (simp add: DoReopen reopen_def)
qed


lemma exclusive_cases:
  assumes "exclusive io e dir = (err, dir')"
  obtains (kept) x where "err = Some x" "dir' = dir" | (added) "dir' = dir @ [e]"
    | (tore) x where "err = Some x" "io = Torn" "dir' = dir @ [torn_entry e]"
  using assms by (cases io) (auto simp: exclusive_def split: if_splits)

lemma exclusive_NoneD: "exclusive io e dir = (None, dir') \<Longrightarrow> dir' = dir @ [e]"
  by (cases io) (auto simp: exclusive_def split: if_splits)

section \<open>Every operation keeps the directory in order\<close>

definition store_sound :: "(nat list \<Rightarrow> pystr) \<Rightarrow> (reservation \<Rightarrow> pystr) \<Rightarrow> plan \<Rightarrow> header \<Rightarrow> 'x store \<Rightarrow> bool" where
  "store_sound sha digest pl h st \<longleftrightarrow> dir_ok sha digest pl h (st_dir st) \<or> torn (st_dir st)"


lemma store_soundD: "store_sound sha digest pl h st \<Longrightarrow> \<not> torn (st_dir st) \<Longrightarrow> dir_ok sha digest pl h (st_dir st)"
  by (simp add: store_sound_def)

lemma opened_ok:
  assumes "dir_ok sha digest pl h (st_dir st)"
  shows "opened sha digest pl h st = (if st_failed st \<or> latches_in (st_dir st) \<noteq> []
     then Inl ''finite_transport_failed'' else Inr (contents (st_dir st)))"
  by (simp add: opened_def scan_ok[OF assms] latest_def)

lemma dir_ok_add_reservation:
  assumes d: "dir_ok sha digest pl h dir" and ok: "reservation_ok sha pl h k n r"
    and n: "n = length (ordinals k (reservations_in dir)) + 1"
    and w: "wire_sum (reservations_in dir) + sp_wire (r_spec r) \<le> maximum_response_wire_bytes pl"
    and e: "evidence_sum (reservations_in dir) + sp_evidence (r_spec r) \<le> maximum_client_evidence_bytes pl"
  shows "dir_ok sha digest pl h (dir @ [EReserved k n (Row r)])"
proof -
  let ?rs = "reservations_in dir"
  have r: "r_kind r = k" "r_ordinal r = n" "spec_of sha pl k n \<noteq> None"
    using ok unfolding reservation_ok_def by (blast, blast, metis option.distinct(1))
  have "entry_ok sha pl h (EReserved k n (Row r))"
    using ok r(3) by (auto simp: entry_ok_def scan_entry_def)
  moreover have "mset (ordinals k' (?rs @ [r])) = mset [1..<length (ordinals k' (?rs @ [r])) + 1]" for k'
  proof (cases "k' = k")
    case True
    then have "ordinals k' (?rs @ [r]) = ordinals k ?rs @ [n]" using r by (simp add: ordinals_def)
    moreover have "[1..<length (ordinals k ?rs @ [n]) + 1] = [1..<length (ordinals k ?rs) + 1] @ [n]" using n by simp
    ultimately show ?thesis using dir_okD(5)[OF d, of k] by (simp only: mset_append)
  next
    case False
    then show ?thesis using dir_okD(5)[OF d, of k'] r by (simp add: ordinals_def)
  qed
  moreover have "wire_sum (?rs @ [r]) \<le> maximum_response_wire_bytes pl"
    "evidence_sum (?rs @ [r]) \<le> maximum_client_evidence_bytes pl"
    using w e by (simp_all add: wire_sum_def evidence_sum_def)
  ultimately show ?thesis
    using d unfolding dir_ok_def by (auto simp: is_fixed_def)
qed

lemma dir_ok_add_outcome:
  assumes d: "dir_ok sha digest pl h dir" and r: "r \<in> set (reservations_in dir)" "r_slot r = o_slot w"
    and dg: "o_digest w = digest r" and new: "o_slot w \<notin> o_slot ` set (outcomes_in dir)"
  shows "dir_ok sha digest pl h (dir @ [EOutcome (fst (o_slot w)) (snd (o_slot w)) (Row w)])"
proof -
  have "spec_of sha pl (r_kind r) (r_ordinal r) \<noteq> None"
    using dir_ok_reservation[OF d r(1)] unfolding reservation_ok_def by (metis option.distinct(1))
  then have "spec_of sha pl (fst (o_slot w)) (snd (o_slot w)) \<noteq> None"
    unfolding r(2)[symmetric] r_slot_def by simp
  then have "entry_ok sha pl h (EOutcome (fst (o_slot w)) (snd (o_slot w)) (Row w))"
    by (auto simp: entry_ok_def scan_entry_def)
  then show ?thesis
    using d r dg new unfolding dir_ok_def by (auto simp: is_fixed_def)
qed

lemma dir_ok_add_latch:
  assumes d: "dir_ok sha digest pl h dir" and none: "latches_in dir = []"
    and r: "r \<in> set (reservations_in dir)" "r_slot r = l_slot l" "l_deadline l = r_deadline r" "r_deadline r \<le> l_observed l"
    and id: "l_run_id l = h_run_id h"
  shows "dir_ok sha digest pl h (dir @ [ELatch (Row l)])"
proof -
  have "0 < r_deadline r"
    using dir_ok_reservation[OF d r(1)] unfolding reservation_ok_def by linarith
  then have "entry_ok sha pl h (ELatch (Row l))"
    using r id by (auto simp: entry_ok_def scan_entry_def)
  then show ?thesis
    using d r none unfolding dir_ok_def by (auto simp: is_fixed_def)
qed

text \<open>What a reservation has checked when it comes to the write.\<close>

definition reserved_by ::
    "(nat list \<Rightarrow> pystr) \<Rightarrow> plan \<Rightarrow> header \<Rightarrow> kind \<Rightarrow> nat \<Rightarrow> nat list \<Rightarrow> rat \<Rightarrow> 'x entry list \<Rightarrow> reservation \<Rightarrow> bool" where
  "reserved_by sha pl h k n body now dir r \<longleftrightarrow>
     reservation_ok sha pl h k n r \<and> r_started r = now \<and> n = length (ordinals k (reservations_in dir)) + 1
   \<and> list_all o_success (outcomes_in dir) \<and> latches_in dir = []
   \<and> (k \<noteq> KPost \<longrightarrow> ordinals KPost (reservations_in dir) = [])
   \<and> length body = sp_body_bytes (r_spec r) \<and> sha body = sp_body_sha256 (r_spec r)
   \<and> wire_sum (reservations_in dir) + sp_wire (r_spec r) \<le> maximum_response_wire_bytes pl
   \<and> evidence_sum (reservations_in dir) + sp_evidence (r_spec r) \<le> maximum_client_evidence_bytes pl"

lemma reserve_cases:
  assumes d: "dir_ok sha digest pl h (st_dir st)"
    and step: "reserve sha digest pl h k n body now io st = (res, st')"
  obtains (rejected) e where "res = Inl e" "st' = st"
    | (writes) r err dir where "exclusive io (EReserved k n (Row r)) (st_dir st) = (err, dir)" "st' = st\<lparr>st_dir := dir\<rparr>"
        "res = (case err of None \<Rightarrow> Inr r | Some e \<Rightarrow> Inl e)" "reserved_by sha pl h k n body now (st_dir st) r" "\<not> st_failed st"
proof (cases "\<exists>e. res = Inl e \<and> st' = st")
  case True
  then show thesis using rejected by blast
next
  case False
  have op: "\<not> st_failed st" "latches_in (st_dir st) = []"
    using step False unfolding reserve_def opened_ok[OF d] by (auto split: if_splits)
  then have o: "opened sha digest pl h st = Inr (contents (st_dir st))" by (simp add: opened_ok[OF d])
  obtain sp where sp: "spec_of sha pl k n = Some sp"
    using step False unfolding reserve_def o by (auto split: if_splits option.splits)
  define r where "r = \<lparr>r_kind = k, r_ordinal = n, r_spec = sp, r_started = now, r_deadline = slot_deadline pl h k now\<rparr>"
  obtain err dir where e: "exclusive io (EReserved k n (Row r)) (st_dir st) = (err, dir)" by fastforce
  have "reserved_by sha pl h k n body now (st_dir st) r"
    "st' = st\<lparr>st_dir := dir\<rparr> \<and> res = (case err of None \<Rightarrow> Inr r | Some e \<Rightarrow> Inl e)"
    using step False op e unfolding reserve_def o sp r_def
    by (auto simp: reserved_by_def reservation_ok_def list_ex_iff list_all_iff Let_def sp split: option.splits if_splits)
  then show thesis using writes e op(1) by blast
qed

lemma reserve_keeps:
  assumes d: "dir_ok sha digest pl h (st_dir st)" and step: "reserve sha digest pl h k n body now io st = (res, st')"
  shows "store_sound sha digest pl h st'" "io \<noteq> Torn \<Longrightarrow> dir_ok sha digest pl h (st_dir st')"
proof -
  have "dir_ok sha digest pl h (st_dir st') \<or> io = Torn \<and> torn (st_dir st')"
    using d step
  proof (cases rule: reserve_cases)
    case (writes r err dir)
    have "dir_ok sha digest pl h (st_dir st @ [EReserved k n (Row r)])"
      by (rule dir_ok_add_reservation[OF d]) (use writes(4)[unfolded reserved_by_def] in blast)+
    with writes(1) show ?thesis
      by (cases rule: exclusive_cases) (simp_all add: writes(2) d torn_def is_partial_def)
  qed (simp add: d)
  then show "store_sound sha digest pl h st'" "io \<noteq> Torn \<Longrightarrow> dir_ok sha digest pl h (st_dir st')"
    by (auto simp: store_sound_def)
qed

lemma write_latch_extends:
  "\<exists>es. st_dir (snd (write_latch h r t io st)) = st_dir st @ es \<and> reservations_in es = [] \<and> outcomes_in es = []"
proof -
  obtain err dir where e: "exclusive io (ELatch (Row \<lparr>l_run_id = h_run_id h, l_slot = r_slot r, l_deadline = r_deadline r,
      l_observed = t\<rparr>)) (st_dir st) = (err, dir)" by fastforce
  have "st_dir (snd (write_latch h r t io st)) = dir" by (simp add: write_latch_def e)
  with e show ?thesis by (cases rule: exclusive_cases) simp_all
qed

lemma write_latch_keeps:
  assumes "dir_ok sha digest pl h (st_dir st)" "latches_in (st_dir st) = []" "r \<in> set (reservations_in (st_dir st))"
    "r_deadline r \<le> t"
  shows "dir_ok sha digest pl h (st_dir (snd (write_latch h r t io st))) \<or> io = Torn \<and> torn (st_dir (snd (write_latch h r t io st)))"
proof -
  let ?l = "\<lparr>l_run_id = h_run_id h, l_slot = r_slot r, l_deadline = r_deadline r, l_observed = t\<rparr>"
  obtain err dir where e: "exclusive io (ELatch (Row ?l)) (st_dir st) = (err, dir)" by fastforce
  have ok: "dir_ok sha digest pl h (st_dir st @ [ELatch (Row ?l)])"
    using dir_ok_add_latch[OF assms(1-3), of ?l] assms(4) by simp
  have "st_dir (snd (write_latch h r t io st)) = dir" by (simp add: write_latch_def e)
  with e show ?thesis
    by (cases rule: exclusive_cases) (simp_all add: ok assms(1) torn_def is_partial_def)
qed

lemma reservation_atD: "reservation_at sl rs = Some r \<Longrightarrow> r \<in> set rs \<and> r_slot r = sl"
  unfolding reservation_at_def by (rule row_by_SomeD)

lemma complete_cases:
  assumes d: "dir_ok sha digest pl h (st_dir st)"
    and step: "complete_slot sha digest pl h sl result committed io st = (res, st')"
  obtains (rejected) e where "res = Inl e" "st' = st"
    | (writes) r ok x w err dir where "result = Some (ok, x)" "r \<in> set (reservations_in (st_dir st))" "r_slot r = sl"
        "w = \<lparr>o_slot = sl, o_digest = digest r, o_success = ok, o_result = x\<rparr>"
        "sl \<notin> o_slot ` set (outcomes_in (st_dir st))" "latches_in (st_dir st) = []" "\<not> st_failed st"
        "exclusive (fst io) (EOutcome (fst sl) (snd sl) (Row w)) (st_dir st) = (err, dir)"
        "if err = None \<and> r_deadline r \<le> committed
         then (\<exists>e. res = Inl e) \<and> st' = snd (write_latch h r committed (snd io) (st\<lparr>st_dir := dir\<rparr>))
         else st' = st\<lparr>st_dir := dir\<rparr> \<and> res = (case err of None \<Rightarrow> Inr committed | Some e \<Rightarrow> Inl e)"
proof (cases "\<exists>e. res = Inl e \<and> st' = st")
  case True
  then show thesis using rejected by blast
next
  case False
  have op: "\<not> st_failed st" "latches_in (st_dir st) = []"
    using step False unfolding complete_slot_def opened_ok[OF d] by (auto split: if_splits)
  then have o: "opened sha digest pl h st = Inr (contents (st_dir st))" by (simp add: opened_ok[OF d])
  obtain r where r: "reservation_at sl (reservations_in (st_dir st)) = Some r"
    using step False unfolding complete_slot_def o by (auto split: option.splits)
  have new: "sl \<notin> o_slot ` set (outcomes_in (st_dir st))"
    using step False unfolding complete_slot_def o by (auto simp: r)
  obtain ok x where x: "result = Some (ok, x)"
    using step False new unfolding complete_slot_def o by (auto simp: r split: option.splits)
  define w where "w = \<lparr>o_slot = sl, o_digest = digest r, o_success = ok, o_result = x\<rparr>"
  obtain err dir where e: "exclusive (fst io) (EOutcome (fst sl) (snd sl) (Row w)) (st_dir st) = (err, dir)" by fastforce
  have "if err = None \<and> r_deadline r \<le> committed
     then (\<exists>e. res = Inl e) \<and> st' = snd (write_latch h r committed (snd io) (st\<lparr>st_dir := dir\<rparr>))
     else st' = st\<lparr>st_dir := dir\<rparr> \<and> res = (case err of None \<Rightarrow> Inr committed | Some e \<Rightarrow> Inl e)"
    using step new e unfolding complete_slot_def o w_def
    by (auto simp: r x Let_def split: option.splits if_splits prod.splits)
  then show thesis using writes[OF x _ _ w_def new op(2,1) e] reservation_atD[OF r] by blast
qed

lemma complete_keeps:
  assumes d: "dir_ok sha digest pl h (st_dir st)" and step: "complete_slot sha digest pl h sl result t io st = (res, st')"
  shows "store_sound sha digest pl h st'" "fst io \<noteq> Torn \<Longrightarrow> snd io \<noteq> Torn \<Longrightarrow> dir_ok sha digest pl h (st_dir st')"
proof -
  have "dir_ok sha digest pl h (st_dir st') \<or> (fst io = Torn \<or> snd io = Torn) \<and> torn (st_dir st')"
    using d step
  proof (cases rule: complete_cases)
    case (writes r ok x w err dir)
    let ?e = "EOutcome (fst sl) (snd sl) (Row w)"
    have ok: "dir_ok sha digest pl h (st_dir st @ [?e])"
      using dir_ok_add_outcome[OF d writes(2), of w] writes(3-5) by simp
    have late: "dir_ok sha digest pl h (st_dir (snd (write_latch h r t (snd io) (st\<lparr>st_dir := st_dir st @ [?e]\<rparr>))))
        \<or> snd io = Torn \<and> torn (st_dir (snd (write_latch h r t (snd io) (st\<lparr>st_dir := st_dir st @ [?e]\<rparr>))))" if "r_deadline r \<le> t"
      using write_latch_keeps[of sha digest pl h "st\<lparr>st_dir := st_dir st @ [?e]\<rparr>" r t "snd io"] ok writes(2,6) that by simp
    from writes(8) show ?thesis
    proof (cases rule: exclusive_cases)
      case added
      then show ?thesis using writes(9) ok late by (auto split: if_splits)
    qed (use writes(9) d in \<open>auto simp: torn_def is_partial_def split: if_splits\<close>)
  qed (simp add: d)
  then show "store_sound sha digest pl h st'" "fst io \<noteq> Torn \<Longrightarrow> snd io \<noteq> Torn \<Longrightarrow> dir_ok sha digest pl h (st_dir st')"
    by (auto simp: store_sound_def)
qed

lemma fail_transport_cases:
  assumes d: "dir_ok sha digest pl h (st_dir st)"
  obtains (rejected) "snd (fail_transport sha digest pl h sl t io st) = st"
    | (latched) r where "snd (fail_transport sha digest pl h sl t io st) = snd (write_latch h r t io st)"
        "r \<in> set (reservations_in (st_dir st))" "r_deadline r \<le> t" "latches_in (st_dir st) = []"
proof (cases "snd (fail_transport sha digest pl h sl t io st) = st")
  case False
  then have l: "latches_in (st_dir st) = []" and o: "opened sha digest pl h st = Inr (contents (st_dir st))"
    by (auto simp: fail_transport_def opened_ok[OF d] split: if_splits)
  from False obtain r where r: "reservation_at sl (reservations_in (st_dir st)) = Some r"
    by (auto simp: fail_transport_def o split: option.splits)
  have "r_deadline r \<le> t" "snd (fail_transport sha digest pl h sl t io st) = snd (write_latch h r t io st)"
    using False by (auto simp: fail_transport_def o r split: option.split prod.split if_splits)
  then show thesis using latched l reservation_atD[OF r] by blast
qed (rule rejected)

lemma fail_keeps:
  assumes "dir_ok sha digest pl h (st_dir st)"
  shows "store_sound sha digest pl h (snd (fail_transport sha digest pl h sl t io st))"
    "io \<noteq> Torn \<Longrightarrow> dir_ok sha digest pl h (st_dir (snd (fail_transport sha digest pl h sl t io st)))"
proof -
  have "dir_ok sha digest pl h (st_dir (snd (fail_transport sha digest pl h sl t io st)))
      \<or> io = Torn \<and> torn (st_dir (snd (fail_transport sha digest pl h sl t io st)))"
  proof (cases rule: fail_transport_cases[OF assms, of sl t io])
    case (2 r)
    then show ?thesis using write_latch_keeps[OF assms 2(4,2,3), of io] by simp
  qed (simp add: assms)
  then show "store_sound sha digest pl h (snd (fail_transport sha digest pl h sl t io st))"
    "io \<noteq> Torn \<Longrightarrow> dir_ok sha digest pl h (st_dir (snd (fail_transport sha digest pl h sl t io st)))"
    by (auto simp: store_sound_def)
qed

lemma reopen_dir: "reopen sha digest pl h dir = Inr st \<Longrightarrow> st_dir st = dir"
  by (auto simp: reopen_def Let_def split: sum.splits if_splits)



lemma perform_keeps_ok:
  assumes "store_sound sha digest pl h st"
  shows "store_sound sha digest pl h (perform sha digest pl h p st)"
proof (cases "torn (st_dir st)")
  case True
  then show ?thesis using assms by (simp add: torn_perform)
next
  case False
  note d = store_soundD[OF assms False]
  show ?thesis
  proof (cases p)
    case (DoReserve k n body now io)
    then show ?thesis by (cases "reserve sha digest pl h k n body now io st") (auto intro: reserve_keeps(1)[OF d])
  next
    case (DoComplete sl res t io)
    then show ?thesis by (cases "complete_slot sha digest pl h sl res t io st") (auto intro: complete_keeps(1)[OF d])
  next
    case (DoFail sl t io)
    then show ?thesis using fail_keeps(1)[OF d] by simp
  next
    case DoReopen
    then show ?thesis using assms by (auto simp: store_sound_def reopen_dir split: sum.split)
  qed
qed

interpretation ledger: component "perform sha digest pl h" "store_sound sha digest pl h" for sha digest pl h
  by unfold_locales (rule perform_keeps_ok)

lemma performs_keep_ok: "store_sound sha digest pl h st \<Longrightarrow> store_sound sha digest pl h (performs sha digest pl h ops st)"
  unfolding performs_def by (rule ledger.run_inv)

lemma create_ledger_dir_ok:
  assumes "create_ledger sha digest pl h = Inr (st :: 'x store)"
  shows "dir_ok sha digest pl h (st_dir st)" "reservations_in (st_dir st) = []" "outcomes_in (st_dir st) = []"
proof -
  let ?d = "[EIdentity, ELock] :: 'x entry list"
  have st: "st_dir st = ?d" using assms by (auto simp: create_ledger_def Let_def split: sum.splits)
  have sc: "scan sha digest pl h ?d = (case scan_checks digest pl (nothing_scanned :: 'x scanned) of
      Some e \<Rightarrow> Inl e | None \<Rightarrow> Inr nothing_scanned)"
  proof -
    have "scan_entries sha pl h 0 ?d nothing_scanned = Inr (nothing_scanned :: 'x scanned)"
      by (simp add: scan_entry_def max_entries_def is_latch_def)
    then show ?thesis by (simp add: scan_def)
  qed
  have "scan_checks digest pl (nothing_scanned :: 'x scanned) = None"
    using assms unfolding create_ledger_def Let_def opened_def by (auto simp: sc split: option.splits sum.splits)
  then have "evidence_sum [] \<le> maximum_client_evidence_bytes pl"
    by (auto simp: scan_checks_def nothing_scanned_def split: if_splits)
  then show "dir_ok sha digest pl h (st_dir st)" "reservations_in (st_dir st) = []" "outcomes_in (st_dir st) = []"
    unfolding st by (simp_all add: dir_ok_def entry_ok_def scan_entry_def is_fixed_def wire_sum_def ordinals_def)
qed

lemma created_ok: "create_ledger sha digest pl h = Inr st \<Longrightarrow> store_sound sha digest pl h (performs sha digest pl h ops st)"
  using performs_keep_ok create_ledger_dir_ok(1) unfolding store_sound_def by blast

section \<open>Failure is final\<close>

definition failure_recorded :: "'x entry list \<Rightarrow> bool" where
  "failure_recorded dir \<longleftrightarrow> \<not> list_all o_success (outcomes_in dir) \<or> latches_in dir \<noteq> []"

lemma failure_stops:
  assumes d: "store_sound sha digest pl h st" and f: "failure_recorded (st_dir st)"
  shows "\<exists>e. reserve sha digest pl h k n body now io st = (Inl e, st)"
proof (cases "torn (st_dir st)")
  case False
  obtain res st' where step: "reserve sha digest pl h k n body now io st = (res, st')" by fastforce
  from store_soundD[OF d False] step show ?thesis
    by (cases rule: reserve_cases) (use f in \<open>auto simp: failure_recorded_def reserved_by_def step\<close>)
qed (rule torn_reserve)

text \<open>What one operation adds to the directory.\<close>

lemma complete_extends:
  assumes d: "dir_ok sha digest pl h (st_dir st)" and step: "complete_slot sha digest pl h sl res t io st = (x, st')"
  shows "\<exists>es. st_dir st' = st_dir st @ es \<and> reservations_in es = []"
  using d step
proof (cases rule: complete_cases)
  case (writes r ok y w err dir)
  have "\<exists>es. dir = st_dir st @ es \<and> reservations_in es = []"
    using writes(8) by (cases rule: exclusive_cases) simp_all
  then obtain es where es: "dir = st_dir st @ es" "reservations_in es = []" by blast
  obtain fs where "st_dir (snd (write_latch h r t (snd io) (st\<lparr>st_dir := dir\<rparr>))) = dir @ fs" "reservations_in fs = []"
    using write_latch_extends[of h r t "snd io" "st\<lparr>st_dir := dir\<rparr>"] by auto
  then show ?thesis using writes(9) es by (auto split: if_splits)
qed simp

lemma perform_extends:
  assumes d: "store_sound sha digest pl h st"
  shows "\<exists>es. st_dir (perform sha digest pl h p st) = st_dir st @ es
     \<and> ((\<forall>k n body now io. p \<noteq> DoReserve k n body now io) \<longrightarrow> reservations_in es = [])"
proof (cases "torn (st_dir st)")
  case False
  note ok = store_soundD[OF d False]
  show ?thesis
  proof (cases p)
    case (DoReserve k n body now io)
    obtain x st' where step: "reserve sha digest pl h k n body now io st = (x, st')" by fastforce
    from ok step have "\<exists>es. st_dir st' = st_dir st @ es"
    proof (cases rule: reserve_cases)
      case (writes r err dir)
      from writes(1) show ?thesis by (cases rule: exclusive_cases) (simp_all add: writes(2))
    qed simp
    then show ?thesis by (simp add: DoReserve step)
  next
    case (DoComplete sl res t io)
    obtain x st' where "complete_slot sha digest pl h sl res t io st = (x, st')" by fastforce
    then show ?thesis using complete_extends[OF ok] by (simp add: DoComplete)
  next
    case (DoFail sl t io)
    show ?thesis
    proof (cases rule: fail_transport_cases[OF ok, of sl t io])
      case (2 r)
      then show ?thesis using write_latch_extends[of h r t io st] by (auto simp: DoFail)
    qed (simp add: DoFail)
  next
    case DoReopen
    then show ?thesis by (auto simp: reopen_dir split: sum.split)
  qed
qed (simp add: torn_perform)

lemma failure_keeps:
  assumes "store_sound sha digest pl h st" "failure_recorded (st_dir st)"
  shows "failure_recorded (st_dir (perform sha digest pl h p st))"
    "reservations_in (st_dir (perform sha digest pl h p st)) = reservations_in (st_dir st)"
proof -
  obtain es where es: "st_dir (perform sha digest pl h p st) = st_dir st @ es"
    "(\<forall>k n body now io. p \<noteq> DoReserve k n body now io) \<Longrightarrow> reservations_in es = []"
    using perform_extends[OF assms(1), of p] by blast
  show "failure_recorded (st_dir (perform sha digest pl h p st))"
    using es(1) assms(2) by (auto simp: failure_recorded_def)
  show "reservations_in (st_dir (perform sha digest pl h p st)) = reservations_in (st_dir st)"
  proof (cases p)
    case (DoReserve k n body now io)
    then show ?thesis using failure_stops[OF assms, of k n body now io] by auto
  qed (use es in simp_all)
qed

text \<open>The ledger as the shared interfaces see it: the directory only grows, and a recorded failure is where its
  reservations stop.\<close>

interpretation growing: progressing "perform sha digest pl h" "store_sound sha digest pl h"
    "\<lambda>st st'. \<exists>es. st_dir st' = st_dir st @ es" for sha digest pl h
  by unfold_locales (auto dest: perform_extends)

interpretation failed: stopping "perform sha digest pl h" "store_sound sha digest pl h"
    "\<lambda>st. failure_recorded (st_dir st)" "\<lambda>st. reservations_in (st_dir st)" for sha digest pl h
  by unfold_locales (auto intro: failure_keeps)

lemma completed_stays_completed:
  assumes d: "store_sound sha digest pl h st" and sl: "sl \<in> o_slot ` set (outcomes_in (st_dir st))"
  shows "\<exists>e. complete_slot sha digest pl h sl res t io (performs sha digest pl h ops st)
           = (Inl e, performs sha digest pl h ops st)"
proof -
  let ?st = "performs sha digest pl h ops st"
  have d': "store_sound sha digest pl h ?st" by (rule performs_keep_ok[OF d])
  have sl': "sl \<in> o_slot ` set (outcomes_in (st_dir ?st))"
    using growing.run_later[OF d, where cs = ops] sl unfolding performs_def by auto
  show ?thesis
  proof (cases "torn (st_dir ?st)")
    case False
    obtain x st' where step: "complete_slot sha digest pl h sl res t io ?st = (x, st')" by fastforce
    from store_soundD[OF d' False] step show ?thesis
      by (cases rule: complete_cases) (use sl' step in auto)
  qed (rule torn_complete)
qed

lemma receipt_after_complete:
  assumes ok: "store_sound sha digest pl h st"
    and step: "complete_slot sha digest pl h sl result t io st = (Inr t', st')"
  obtains r w where "receipt sha digest pl h sl st' = Inr (r, w)" "r_slot r = sl" "r \<in> set (reservations_in (st_dir st))"
    "o_slot w = sl" "o_digest w = digest r" "result = Some (o_success w, o_result w)" "t' = t" "t < r_deadline r"
    "sl \<in> o_slot ` set (outcomes_in (st_dir st'))" "store_sound sha digest pl h st'"
proof -
  have "\<not> torn (st_dir st)" using torn_complete[of st sha digest pl h sl result t io] step by auto
  then have d: "dir_ok sha digest pl h (st_dir st)" by (rule store_soundD[OF ok])
  show thesis using d step
  proof (cases rule: complete_cases)
    case (writes r ok x w err dir)
    have err: "err = None" "\<not> r_deadline r \<le> t" "t' = t" "st' = st\<lparr>st_dir := dir\<rparr>"
      using writes(9) by (auto split: if_splits option.splits)
    have "dir = st_dir st @ [EOutcome (fst sl) (snd sl) (Row w)]"
      using writes(8) unfolding err(1) by (rule exclusive_NoneD)
    then have st': "st_dir st' = st_dir st @ [EOutcome (fst sl) (snd sl) (Row w)]" "st_failed st' = st_failed st"
      by (simp_all add: err(4))
    have d': "dir_ok sha digest pl h (st_dir st')"
      using dir_ok_add_outcome[OF d writes(2), of w] writes(3-5) by (simp add: st'(1))
    then have o: "opened sha digest pl h st' = Inr (contents (st_dir st'))"
      using writes(6,7) by (simp add: opened_ok[OF d'] st')
    have "reservation_at sl (reservations_in (st_dir st')) = Some r"
      using reservation_at_in[OF dir_ok_slots[OF d] writes(2)] writes(3) by (simp add: st'(1))
    moreover have "row_by o_slot sl (outcomes_in (st_dir st')) = Some w"
      using row_by_None_iff[of o_slot sl "outcomes_in (st_dir st)"] writes(4,5) by (simp add: st'(1))
    ultimately have "receipt sha digest pl h sl st' = Inr (r, w)" by (simp add: receipt_def o)
    then show thesis
      by (rule that) (use writes err st' d' in \<open>auto simp: store_sound_def\<close>)
  qed simp
qed

section \<open>A concrete lifecycle\<close>

definition demo_plan :: plan where
  "demo_plan = \<lparr>lifetime_seconds = 100, readiness_seconds = 50, maximum_post_attempts = 1, maximum_ready_polls = 2,
     maximum_response_wire_bytes = 1000, maximum_client_evidence_bytes = 2000000, operation_seconds = 10,
     post_response_wire_bytes = 100, get_response_wire_bytes = 10, generated_utf8_bytes = 20,
     post_summary_bytes = 5, get_summary_bytes = 5,
     posts = (\<lambda>_. \<lparr>pp_route = lit ''/v1/responses'', pp_request = lit ''a'', pp_body = [7, 7], pp_sha256 = [2]\<rparr>)\<rparr>"

definition demo_header :: header where
  "demo_header = \<lparr>h_run_id = lit ''run'', h_resumed_at = 1, h_deadline = 101\<rparr>"

abbreviation demo_sha :: "nat list \<Rightarrow> pystr" where "demo_sha \<equiv> \<lambda>b. [length b]"
abbreviation demo_digest :: "reservation \<Rightarrow> pystr" where "demo_digest \<equiv> \<lambda>r. [r_ordinal r]"

definition demo_store :: "bool store" where
  "demo_store = \<lparr>st_dir = [EIdentity, ELock], st_failed = False\<rparr>"

lemmas ledger_eval = performs_def reserve_def complete_slot_def receipt_def opened_def scan_def scan_checks_def
  scan_entry_def reservation_ok_def spec_of_def slot_deadline_def max_entries_def is_latch_def exclusive_def same_file_def
  contents_defs ordinals_def reservation_at_def wire_sum_def evidence_sum_def base_evidence_reserve_def record_limit_def
  nothing_scanned_def demo_plan_def demo_header_def demo_store_def r_slot_def create_ledger_def write_latch_def
  failure_recorded_def

lemma demo_created: "create_ledger demo_sha demo_digest demo_plan demo_header = Inr demo_store"
  by (simp add: ledger_eval)

definition demo_ops :: "bool op list" where
  "demo_ops = [DoReserve KReady 1 [] 2 Written, DoComplete (KReady, 1) (Some (True, True)) 3 (Written, Written)]"

definition demo_ready :: "bool store" where
  "demo_ready = \<lparr>st_dir = [EIdentity, ELock,
     EReserved KReady 1 (Row \<lparr>r_kind = KReady, r_ordinal = 1, r_spec = the (spec_of demo_sha demo_plan KReady 1), r_started = 2, r_deadline = 12\<rparr>),
     EOutcome KReady 1 (Row \<lparr>o_slot = (KReady, 1), o_digest = [1], o_success = True, o_result = True\<rparr>)], st_failed = False\<rparr>"

lemma demo_performed: "performs demo_sha demo_digest demo_plan demo_header demo_ops demo_store = demo_ready"
  by (simp add: ledger_eval demo_ops_def demo_ready_def Let_def)

section \<open>The contract of the ledger\<close>





lemma reserve_granted:
  assumes "create_ledger sha digest pl h = Inr st0" and "st = performs sha digest pl h ops st0"
    and "reserve sha digest pl h k n body now io st = (Inr r, st')"
  shows "n = length (ordinals k (reservations_in (st_dir st))) + 1" "r_slot r \<notin> r_slot ` set (reservations_in (st_dir st))"
    and "\<not> failure_recorded (st_dir st)" "k \<noteq> KPost \<Longrightarrow> ordinals KPost (reservations_in (st_dir st)) = []"
    and "Some (r_spec r) = spec_of sha pl k n" "length body = sp_body_bytes (r_spec r)" "sha body = sp_body_sha256 (r_spec r)"
    and "now < r_deadline r" "r_deadline r \<le> h_deadline h" "r_deadline r \<le> now + operation_seconds pl"
      "k \<noteq> KPost \<Longrightarrow> r_deadline r \<le> h_resumed_at h + readiness_seconds pl"
    and "wire_sum (reservations_in (st_dir st')) \<le> maximum_response_wire_bytes pl"
      "evidence_sum (reservations_in (st_dir st')) \<le> maximum_client_evidence_bytes pl"
    and "st' = st\<lparr>st_dir := st_dir st @ [EReserved k n (Row r)]\<rparr>"
proof -
  have "\<not> torn (st_dir st)" using torn_reserve[of st sha digest pl h k n body now io] assms(3) by auto
  then have d: "dir_ok sha digest pl h (st_dir st)"
    using store_soundD[OF created_ok[OF assms(1)]] unfolding assms(2) by blast
  have w: "st' = st\<lparr>st_dir := st_dir st @ [EReserved k n (Row r)]\<rparr> \<and> reserved_by sha pl h k n body now (st_dir st) r"
    using d assms(3)
  proof (cases rule: reserve_cases)
    case (writes r' err dir)
    then have "err = None" "r' = r" by (auto split: option.splits)
    with writes exclusive_NoneD show ?thesis by blast
  qed simp
  then show "st' = st\<lparr>st_dir := st_dir st @ [EReserved k n (Row r)]\<rparr>" ..
  from w have rb: "reserved_by sha pl h k n body now (st_dir st) r" ..
  have "dir_ok sha digest pl h (st_dir st @ [EReserved k n (Row r)])"
    by (rule dir_ok_add_reservation[OF d]) (use rb[unfolded reserved_by_def] in blast)+
  then have d': "dir_ok sha digest pl h (st_dir st')" by (simp add: conjunct1[OF w])
  from rb have ok: "reservation_ok sha pl h k n r" and now: "r_started r = now" unfolding reserved_by_def by blast+
  show "n = length (ordinals k (reservations_in (st_dir st))) + 1" "\<not> failure_recorded (st_dir st)"
    "length body = sp_body_bytes (r_spec r)" "sha body = sp_body_sha256 (r_spec r)"
    using rb by (simp_all add: reserved_by_def failure_recorded_def)
  show "ordinals KPost (reservations_in (st_dir st)) = []" if "k \<noteq> KPost"
    using rb that by (simp add: reserved_by_def)
  show "Some (r_spec r) = spec_of sha pl k n" "now < r_deadline r"
    using ok now unfolding reservation_ok_def by blast+
  have dl: "r_deadline r = slot_deadline pl h k now" using ok now by (simp add: reservation_ok_def)
  show "r_deadline r \<le> h_deadline h" "r_deadline r \<le> now + operation_seconds pl"
    unfolding dl slot_deadline_def Let_def by (auto simp: min_le_iff_disj)
  show "r_deadline r \<le> h_resumed_at h + readiness_seconds pl" if "k \<noteq> KPost"
    unfolding dl slot_deadline_def Let_def using that by simp
  show "wire_sum (reservations_in (st_dir st')) \<le> maximum_response_wire_bytes pl"
      "evidence_sum (reservations_in (st_dir st')) \<le> maximum_client_evidence_bytes pl"
    by (rule dir_okD[OF d'])+
  show "r_slot r \<notin> r_slot ` set (reservations_in (st_dir st))"
    using dir_ok_slots[OF d'] \<open>st' = _\<close> by simp
qed

text \<open>C15. A reservation is granted only for the next slot of its kind, with no failed outcome and no latch on
  record, never for a readiness poll once a post was made, for exactly the pinned request body, within both
  byte budgets, and with a deadline that is in the future, no later than the end of the lifecycle and, for a
  poll, than the readiness limit; it adds one record and changes nothing else.\<close>

theorem reservation_is_safe:
  assumes "create_ledger sha digest pl h = Inr st0" and "st = performs sha digest pl h ops st0"
    and "reserve sha digest pl h k n body now io st = (Inr r, st')"
  shows "n = length (ordinals k (reservations_in (st_dir st))) + 1 \<and> r_slot r \<notin> r_slot ` set (reservations_in (st_dir st))
    \<and> \<not> failure_recorded (st_dir st) \<and> (k = KPost \<or> ordinals KPost (reservations_in (st_dir st)) = [])
    \<and> Some (r_spec r) = spec_of sha pl k n \<and> length body = sp_body_bytes (r_spec r) \<and> sha body = sp_body_sha256 (r_spec r)
    \<and> now < r_deadline r \<and> r_deadline r \<le> h_deadline h \<and> r_deadline r \<le> now + operation_seconds pl
    \<and> (k = KPost \<or> r_deadline r \<le> h_resumed_at h + readiness_seconds pl)
    \<and> wire_sum (reservations_in (st_dir st')) \<le> maximum_response_wire_bytes pl
    \<and> evidence_sum (reservations_in (st_dir st')) \<le> maximum_client_evidence_bytes pl
    \<and> st' = st\<lparr>st_dir := st_dir st @ [EReserved k n (Row r)]\<rparr>"
  using reserve_granted[OF assms] by blast

theorem reservation_is_safe_witness:
  "\<exists>r st'. reserve demo_sha demo_digest demo_plan demo_header KPost 1 [7, 7] 4 Written demo_ready = (Inr r, st')
     \<and> 4 < r_deadline r \<and> r_deadline r \<le> 101"
proof -
  obtain r st' where r: "reserve demo_sha demo_digest demo_plan demo_header KPost 1 [7, 7] 4 Written demo_ready = (Inr r, st')"
    by (simp add: ledger_eval demo_ready_def Let_def)
  show ?thesis
    using reservation_is_safe[OF demo_created demo_performed[symmetric] r] r by (auto simp: demo_header_def)
qed

text \<open>C16. A failure is final: once the directory holds an unsuccessful outcome or the missed-deadline latch, no
  later sequence of operations, by this process or by one that takes the directory over, reserves another
  slot.\<close>

theorem failure_is_final:
  assumes "create_ledger sha digest pl h = Inr st0" and "st = performs sha digest pl h ops st0"
    and "failure_recorded (st_dir st)"
  shows "reservations_in (st_dir (performs sha digest pl h later st)) = reservations_in (st_dir st)"
proof -
  have "store_sound sha digest pl h st" unfolding assms(2) by (rule created_ok[OF assms(1)])
  then show ?thesis using failed.run_stopped assms(3) unfolding performs_def by blast
qed

theorem failure_is_final_witness:
  "length (reservations_in (st_dir (performs demo_sha demo_digest demo_plan demo_header
     [DoReopen, DoReserve KReady 2 [] 5 Written, DoReserve KPost 1 [7, 7] 6 Written]
     (performs demo_sha demo_digest demo_plan demo_header
       [DoReserve KReady 1 [] 2 Written, DoComplete (KReady, 1) (Some (False, True)) 3 (Written, Written)] demo_store)))) = 1"
proof -
  let ?st = "performs demo_sha demo_digest demo_plan demo_header
       [DoReserve KReady 1 [] 2 Written, DoComplete (KReady, 1) (Some (False, True)) 3 (Written, Written)] demo_store"
  have "failure_recorded (st_dir ?st)" "length (reservations_in (st_dir ?st)) = 1"
    by (simp_all add: ledger_eval Let_def)
  then show ?thesis using failure_is_final[OF demo_created refl] by metis
qed

text \<open>A completed slot is completed once: the receipt read back holds the slot's reservation and exactly the
  recorded result, bound to the reservation's digest, the commit time was before the reservation's deadline,
  and whatever happens afterwards a second completion of the slot is refused without a change.\<close>

theorem completion_is_recorded_once:
  assumes "create_ledger sha digest pl h = Inr st0" and "st = performs sha digest pl h ops st0"
    and "complete_slot sha digest pl h sl result now io st = (Inr t, st')"
  shows "(\<exists>r w. receipt sha digest pl h sl st' = Inr (r, w) \<and> r_slot r = sl \<and> r \<in> set (reservations_in (st_dir st))
      \<and> o_slot w = sl \<and> o_digest w = digest r \<and> result = Some (o_success w, o_result w) \<and> t = now \<and> now < r_deadline r)
    \<and> (\<exists>e. complete_slot sha digest pl h sl again now' io' (performs sha digest pl h later st')
         = (Inl e, performs sha digest pl h later st'))"
proof -
  have d: "store_sound sha digest pl h st" unfolding assms(2) by (rule created_ok[OF assms(1)])
  obtain r w where rw: "receipt sha digest pl h sl st' = Inr (r, w)" "r_slot r = sl" "r \<in> set (reservations_in (st_dir st))"
    "o_slot w = sl" "o_digest w = digest r" "result = Some (o_success w, o_result w)" "t = now" "now < r_deadline r"
    and c: "sl \<in> o_slot ` set (outcomes_in (st_dir st'))" and d': "store_sound sha digest pl h st'"
    by (rule receipt_after_complete[OF d assms(3)])
  show ?thesis using rw completed_stays_completed[OF d' c] by blast
qed

theorem completion_is_recorded_once_witness:
  "\<exists>r w. receipt demo_sha demo_digest demo_plan demo_header (KReady, 1) demo_ready = Inr (r, w) \<and> o_success w"
proof -
  let ?st = "performs demo_sha demo_digest demo_plan demo_header [DoReserve KReady 1 [] 2 Written] demo_store"
  have "complete_slot demo_sha demo_digest demo_plan demo_header (KReady, 1) (Some (True, True)) 3 (Written, Written) ?st = (Inr 3, demo_ready)"
    by (simp add: ledger_eval Let_def demo_ready_def)
  from completion_is_recorded_once[OF demo_created refl this, of None 0 "(Written, Written)" "[]"] show ?thesis by auto
qed

end
