(* ===== verification/OutputArbiter.thy ===== *)
theory OutputArbiter
  imports Playback PyVal "HOL-Library.Multiset"
begin

text \<open>
  \<open>voice/native-bridge/conversation_output.py\<close>: the arbiter that serialises everything the assistant
  says. Producers enqueue events and never wait for synthesis; one worker task takes them in priority
  order, and every chunk of audio is fenced by the playback generation, the context version of its task,
  the validity callback of its producer and the ownership of grounded answers. The code runs on one
  asyncio loop, so what happens between two \<open>await\<close>s is atomic: the model is a state, one function per
  atomic section, and a history of calls in any order. Shown here: the queue is bounded and in priority
  order, no producer that waits for its completion is ever forgotten, audio is only ever buffered for a
  current entry, an interruption silences everything published before it, and withdrawing a grounded
  answer never touches audio of anybody else.
\<close>

section \<open>Events and entries\<close>

record spoken_event =
  oe_kind :: pystr
  oe_task :: pystr
  oe_operation :: pystr
  oe_utterance :: pystr
  oe_text :: pystr
  oe_version :: int
  oe_priority :: int

definition output_fields :: "string list" where
  "output_fields = [''kind'', ''task_id'', ''operation_id'', ''utterance_id'', ''context_version'', ''text'', ''priority'']"

definition output_kinds :: "string list" where
  "output_kinds = [''local_reply'', ''backend_reply'', ''task_state'', ''error'']"

text \<open>\<open>validate_event\<close> and the event it lets through; \<open>None\<close> is the \<open>ValueError\<close>.\<close>

definition short_id :: "pyval \<Rightarrow> bool" where
  "short_id v = (case as_str v of None \<Rightarrow> False | Some s \<Rightarrow> length s \<le> 128)"

definition validate_event :: "pyval \<Rightarrow> spoken_event option" where
  "validate_event v = (case as_dict v of
      None \<Rightarrow> None
    | Some d \<Rightarrow>
        if \<not> has_keys d output_fields then None
        else (case (as_str (get_item d ''kind''), as_str (get_item d ''text'')) of
            (Some kn, Some tx) \<Rightarrow>
              if kn \<notin> set (map lit output_kinds) \<or> 4000 < length tx then None
              else (case (as_str (get_item d ''task_id''), as_str (get_item d ''operation_id''), as_str (get_item d ''utterance_id'')) of
                  (Some t, Some oid, Some u) \<Rightarrow>
                    if 128 < length t \<or> 128 < length oid \<or> 128 < length u then None
                    else (case (as_int (get_item d ''context_version''), as_int (get_item d ''priority'')) of
                        (Some cv, Some pr) \<Rightarrow>
                          if cv < 0 then None
                          else Some \<lparr>oe_kind = kn, oe_task = t, oe_operation = oid, oe_utterance = u, oe_text = tx,
                                     oe_version = cv, oe_priority = pr\<rparr>
                      | _ \<Rightarrow> None)
                | _ \<Rightarrow> None)
          | _ \<Rightarrow> None))"

datatype disposition = Transient | Deferred | Control

text \<open>\<open>_QueuedOutput\<close>; \<open>q_id\<close> is the object's identity, \<open>'v\<close> the type of the validity callbacks.\<close>

record 'v queued =
  q_id :: nat
  q_event :: spoken_event
  q_generation :: "nat option"
  q_validity :: "'v option"
  q_disposition :: disposition
  q_started :: bool
  q_grounded :: "pystr option"
  q_invalidated :: bool

definition priority_of :: "'v queued \<Rightarrow> int" where
  "priority_of q = oe_priority (q_event q)"

section \<open>The arbiter\<close>

text \<open>Where the speaking task stands: not run yet, waiting for earlier audio to drain, emitting its
  transcript, waiting for a chunk, waiting for room in the buffer, waiting for its grounded audio to play
  out, ended (with an exception or not) but not yet collected, and the worker reporting a failed one.\<close>

datatype phase =
    PStart | PDrain | PTranscript | PChunks | PThrottle "nat list" | PFlush | PEnded bool | PErrorTranscript

text \<open>The worker: waiting for \<open>_wake\<close>, awaiting \<open>_active\<close> (with its pending cancellation), emitting the
  overflow notice, ended.\<close>

datatype 'v worker = WWait | WSpeak "'v queued" phase bool | WOverflow | WStopped

record ('d, 'v) arbiter =
  ar_pb :: "'d playback"
  ar_pending :: "'v queued list"
  ar_versions :: "pystr \<rightharpoonup> int"
  ar_closed :: bool
  ar_audio_failed :: bool
  ar_overflow :: bool
  ar_suppressed :: nat
  ar_generated :: nat
  ar_sent :: nat
  ar_owner :: "(pystr \<times> nat option) option"
  ar_wake :: bool
  ar_idle :: bool
  ar_worker :: "'v worker"
  ar_completed :: "nat list"
  ar_transcripts :: "spoken_event list"
  ar_next :: nat

definition new_arbiter :: "'d playback \<Rightarrow> ('d, 'v) arbiter" where
  "new_arbiter b = \<lparr>ar_pb = b, ar_pending = [], ar_versions = Map.empty, ar_closed = False, ar_audio_failed = False,
     ar_overflow = False, ar_suppressed = 0, ar_generated = 0, ar_sent = 0, ar_owner = None, ar_wake = False,
     ar_idle = True, ar_worker = WWait, ar_completed = [], ar_transcripts = [], ar_next = 0\<rparr>"

text \<open>What the callbacks answer during one atomic section: \<open>is_live\<close>, the validity callbacks (an
  exception counts as \<open>False\<close>, \<open>_valid\<close>), \<open>input_ready\<close> and \<open>control_ready\<close>.\<close>

record 'v env =
  e_live :: bool
  e_ok :: "'v \<Rightarrow> bool"
  e_input :: bool
  e_control :: bool

definition valid :: "'v env \<Rightarrow> 'v option \<Rightarrow> bool" where
  "valid env v = (case v of None \<Rightarrow> True | Some f \<Rightarrow> e_ok env f)"

definition version_of :: "('d, 'v) arbiter \<Rightarrow> pystr \<Rightarrow> int" where
  "version_of st t = (case ar_versions st t of None \<Rightarrow> 0 | Some v \<Rightarrow> v)"

definition may_speak :: "'v env \<Rightarrow> ('d, 'v) arbiter \<Rightarrow> 'v queued \<Rightarrow> bool" where
  "may_speak env st q \<longleftrightarrow> \<not> q_invalidated q \<and> \<not> ar_closed st \<and> e_live env \<and> valid env (q_validity q)
     \<and> (q_generation q = None \<or> q_generation q = Some (generation (ar_pb st)))
     \<and> version_of st (oe_task (q_event q)) \<le> oe_version (q_event q)"

definition ready :: "'v env \<Rightarrow> 'v queued \<Rightarrow> bool" where
  "ready env q = (if q_disposition q = Control then e_control env else e_input env)"

text \<open>The closure \<open>current()\<close> of \<open>_speak\<close>.\<close>

definition current :: "'v env \<Rightarrow> ('d, 'v) arbiter \<Rightarrow> 'v queued \<Rightarrow> bool" where
  "current env st q \<longleftrightarrow> \<not> q_invalidated q \<and> \<not> ar_closed st \<and> e_live env
     \<and> q_generation q = Some (generation (ar_pb st))
     \<and> version_of st (oe_task (q_event q)) \<le> oe_version (q_event q) \<and> valid env (q_validity q) \<and> ready env q"

fun running :: "phase \<Rightarrow> bool" where
  "running (PEnded _) = False"
| "running PErrorTranscript = False"
| "running _ = True"

text \<open>\<open>self._active.cancel()\<close> when the task is not done.\<close>

fun cancel_active :: "'v worker \<Rightarrow> 'v worker" where
  "cancel_active (WSpeak q ph c) = WSpeak q ph (c \<or> running ph)"
| "cancel_active w = w"

fun active_entry :: "'v worker \<Rightarrow> 'v queued option" where
  "active_entry (WSpeak q ph c) = Some q"
| "active_entry w = None"

definition complete_entry :: "'v queued \<Rightarrow> ('d, 'v) arbiter \<Rightarrow> ('d, 'v) arbiter" where
  "complete_entry q st = st\<lparr>ar_completed := q_id q # ar_completed st\<rparr>"

definition remove_pending :: "nat \<Rightarrow> ('d, 'v) arbiter \<Rightarrow> ('d, 'v) arbiter" where
  "remove_pending i st = st\<lparr>ar_pending := filter (\<lambda>q. q_id q \<noteq> i) (ar_pending st)\<rparr>"

definition is_pending :: "'v queued \<Rightarrow> ('d, 'v) arbiter \<Rightarrow> bool" where
  "is_pending q st \<longleftrightarrow> q_id q \<in> q_id ` set (ar_pending st)"

section \<open>The producers' side\<close>

definition ar_interrupt :: "bool \<Rightarrow> ('d, 'v) arbiter \<Rightarrow> ('d, 'v) arbiter" where
  "ar_interrupt preserve_deferred st =
     (let kept = (\<lambda>q. preserve_deferred \<and> q_disposition q = Deferred \<and> \<not> q_started q);
          retained = filter kept (ar_pending st);
          dropped = filter (\<lambda>q. \<not> kept q) (ar_pending st)
      in st\<lparr>ar_pb := pb_interrupt (ar_pb st), ar_owner := None, ar_worker := cancel_active (ar_worker st),
            ar_suppressed := ar_suppressed st + length dropped,
            ar_completed := map q_id dropped @ ar_completed st,
            ar_pending := retained, ar_wake := True,
            ar_idle := (ar_idle st \<or> retained = [] \<and> active_entry (ar_worker st) = None)\<rparr>)"

text \<open>The entry with the numerically largest priority, the first of several.\<close>

fun worst :: "'v queued list \<Rightarrow> 'v queued option" where
  "worst [] = None"
| "worst (q # qs) = (case worst qs of
      None \<Rightarrow> Some q
    | Some w \<Rightarrow> if priority_of w \<le> priority_of q then Some q else Some w)"

definition insert_pending :: "'v queued \<Rightarrow> ('d, 'v) arbiter \<Rightarrow> ('d, 'v) arbiter" where
  "insert_pending q st = st\<lparr>ar_pending := sort_key priority_of (ar_pending st @ [q]), ar_idle := False, ar_wake := True\<rparr>"

definition publish ::
    "'v env \<Rightarrow> spoken_event \<Rightarrow> 'v option \<Rightarrow> disposition \<Rightarrow> pystr option \<Rightarrow> ('d, 'v) arbiter \<Rightarrow> bool \<times> ('d, 'v) arbiter" where
  "publish env ev validity disp grounded st0 =
     (let q = \<lparr>q_id = ar_next st0, q_event = ev,
               q_generation = (if disp = Deferred then None else Some (generation (ar_pb st0))),
               q_validity = validity, q_disposition = disp, q_started = False, q_grounded = grounded,
               q_invalidated = False\<rparr>;
          st = st0\<lparr>ar_next := ar_next st0 + 1\<rparr>
      in if ar_closed st \<or> \<not> e_live env \<or> \<not> valid env validity then (False, complete_entry q st)
         else if oe_task ev \<noteq> [] \<and> oe_version ev < version_of st (oe_task ev)
         then (False, complete_entry q (st\<lparr>ar_suppressed := ar_suppressed st + 1\<rparr>))
         else
           let st = (if oe_task ev \<noteq> [] then st\<lparr>ar_versions := (ar_versions st)(oe_task ev \<mapsto> oe_version ev)\<rparr> else st)
           in if 8 \<le> length (ar_pending st) then
                let st = st\<lparr>ar_suppressed := ar_suppressed st + 1, ar_overflow := True\<rparr>
                in (case worst (ar_pending st) of
                     None \<Rightarrow> (False, complete_entry q st)
                   | Some w \<Rightarrow>
                       if oe_priority ev < priority_of w
                       then (True, insert_pending q (remove_pending (q_id w) (complete_entry w st)))
                       else (False, complete_entry q (st\<lparr>ar_wake := True\<rparr>)))
              else (True, insert_pending q st))"

text \<open>The public methods: the event is validated first (\<open>_publish\<close>), and \<open>publish_guarded\<close> checks the
  ownership token before that. Whether a caller of \<open>publish_control\<close> also waits for the completion is
  its own matter: completions are recorded for every entry.\<close>

definition submit ::
    "'v env \<Rightarrow> pyval \<Rightarrow> 'v option \<Rightarrow> disposition \<Rightarrow> pystr option \<Rightarrow> ('d, 'v) arbiter \<Rightarrow> (string + bool) \<times> ('d, 'v) arbiter" where
  "submit env v validity disp grounded st = (case validate_event v of
      None \<Rightarrow> (Inl ''invalid output event'', st)
    | Some ev \<Rightarrow> let (accepted, st') = publish env ev validity disp grounded st in (Inr accepted, st'))"

definition publish_guarded ::
    "'v env \<Rightarrow> pyval \<Rightarrow> 'v \<Rightarrow> pystr option \<Rightarrow> ('d, 'v) arbiter \<Rightarrow> (string + bool) \<times> ('d, 'v) arbiter" where
  "publish_guarded env v validity grounded st =
     (if (case grounded of None \<Rightarrow> False | Some g \<Rightarrow> g = [] \<or> 128 < length g)
      then (Inl ''invalid grounded ownership'', st)
      else submit env v (Some validity) Transient grounded st)"

definition publish_deferred :: "'v env \<Rightarrow> pyval \<Rightarrow> 'v \<Rightarrow> ('d, 'v) arbiter \<Rightarrow> (string + bool) \<times> ('d, 'v) arbiter" where
  "publish_deferred env v validity st = submit env v (Some validity) Deferred None st"

definition publish_control :: "'v env \<Rightarrow> pyval \<Rightarrow> 'v option \<Rightarrow> ('d, 'v) arbiter \<Rightarrow> (string + bool) \<times> ('d, 'v) arbiter" where
  "publish_control env v validity st = submit env v validity Control None st"

definition clear_grounded_pcm :: "'v queued \<Rightarrow> ('d, 'v) arbiter \<Rightarrow> ('d, 'v) arbiter" where
  "clear_grounded_pcm q st = (case q_grounded q of
      None \<Rightarrow> st
    | Some g \<Rightarrow>
        if ar_owner st = Some (g, q_generation q)
        then (if Some (generation (ar_pb st)) = q_generation q then st\<lparr>ar_pb := (ar_pb st)\<lparr>pcm := []\<rparr>\<rparr> else st)
               \<lparr>ar_owner := None\<rparr>
        else st)"

definition invalidate_grounded :: "pystr \<Rightarrow> ('d, 'v) arbiter \<Rightarrow> ('d, 'v) arbiter" where
  "invalidate_grounded g st0 =
     (let hit = filter (\<lambda>q. q_grounded q = Some g) (ar_pending st0);
          st = st0\<lparr>ar_pending := filter (\<lambda>q. q_grounded q \<noteq> Some g) (ar_pending st0),
                   ar_completed := map q_id hit @ ar_completed st0, ar_wake := True\<rparr>
      in (case ar_worker st of
            WSpeak q ph c \<Rightarrow>
              if q_grounded q = Some g
              then (clear_grounded_pcm q st)\<lparr>ar_worker := WSpeak (q\<lparr>q_invalidated := True\<rparr>) ph (c \<or> running ph)\<rparr>
              else st
          | _ \<Rightarrow> st))"

text \<open>\<open>close\<close> up to its \<open>await\<close>: the worker is cancelled too, so its next step ends it.\<close>

definition ar_close :: "('d, 'v) arbiter \<Rightarrow> ('d, 'v) arbiter" where
  "ar_close st = (if ar_closed st then st else ar_interrupt False (st\<lparr>ar_closed := True\<rparr>))"

section \<open>The speaking task\<close>

definition ended :: "'v queued \<Rightarrow> bool \<Rightarrow> ('d, 'v) arbiter \<Rightarrow> ('d, 'v) arbiter" where
  "ended q failed st = st\<lparr>ar_worker := WSpeak q (PEnded failed) False\<rparr>"

definition goto :: "'v queued \<Rightarrow> phase \<Rightarrow> ('d, 'v) arbiter \<Rightarrow> ('d, 'v) arbiter" where
  "goto q ph st = st\<lparr>ar_worker := WSpeak q ph False\<rparr>"

text \<open>From the claim of the entry to the transcript.\<close>

definition claim_entry :: "'v env \<Rightarrow> 'v queued \<Rightarrow> ('d, 'v) arbiter \<Rightarrow> ('d, 'v) arbiter" where
  "claim_entry env q st0 =
     (let st = remove_pending (q_id q) st0;
          q = q\<lparr>q_started := True,
                q_generation := (case q_generation q of None \<Rightarrow> Some (generation (ar_pb st)) | Some n \<Rightarrow> Some n)\<rparr>
      in if \<not> current env st q then ended q False st
         else goto q PTranscript (st\<lparr>ar_transcripts := ar_transcripts st @ [q_event q]\<rparr>))"

text \<open>The loop that lets earlier audio drain before a grounded answer takes the buffer.\<close>

definition drain_loop :: "'v env \<Rightarrow> 'v queued \<Rightarrow> ('d, 'v) arbiter \<Rightarrow> ('d, 'v) arbiter" where
  "drain_loop env q st =
     (if pcm (ar_pb st) \<noteq> [] \<and> may_speak env st q \<and> ready env q then goto q PDrain st
      else if \<not> is_pending q st \<or> \<not> may_speak env st q \<or> \<not> ready env q then ended q False st
      else claim_entry env q (st\<lparr>ar_owner := map_option (\<lambda>g. (g, q_generation q)) (q_grounded q)\<rparr>))"

definition speak_start :: "'v env \<Rightarrow> 'v queued \<Rightarrow> ('d, 'v) arbiter \<Rightarrow> ('d, 'v) arbiter" where
  "speak_start env q st =
     (if \<not> is_pending q st then ended q False st
      else if \<not> may_speak env st q
      then ended q False (complete_entry q ((remove_pending (q_id q) st)\<lparr>ar_suppressed := ar_suppressed st + 1\<rparr>))
      else if \<not> ready env q then ended q False st
      else if q_grounded q \<noteq> None then drain_loop env q st
      else claim_entry env q st)"

definition drain_resume :: "'v env \<Rightarrow> 'v queued \<Rightarrow> ('d, 'v) arbiter \<Rightarrow> ('d, 'v) arbiter" where
  "drain_resume env q st =
     (if list_ex (\<lambda>p. q_id p \<noteq> q_id q \<and> priority_of p < priority_of q \<and> may_speak env st p \<and> ready env p) (ar_pending st)
      then ended q False st else drain_loop env q st)"

definition transcript_resume :: "'v env \<Rightarrow> 'v queued \<Rightarrow> ('d, 'v) arbiter \<Rightarrow> ('d, 'v) arbiter" where
  "transcript_resume env q st =
     (if \<not> current env st q then ended q False (st\<lparr>ar_suppressed := ar_suppressed st + 1\<rparr>) else goto q PChunks st)"

text \<open>After the last chunk: a grounded answer waits until it has been played, and withdraws itself when it
  stops being current.\<close>

definition after_chunks :: "'v env \<Rightarrow> 'v queued \<Rightarrow> ('d, 'v) arbiter \<Rightarrow> ('d, 'v) arbiter" where
  "after_chunks env q st = (case q_grounded q of
      None \<Rightarrow> ended q False st
    | Some g \<Rightarrow>
        if pcm (ar_pb st) \<noteq> [] \<and> current env st q then goto q PFlush st
        else if \<not> current env st q then ended (q\<lparr>q_invalidated := True\<rparr>) False (invalidate_grounded g st)
        else ended q False st)"

definition put_loop :: "'v env \<Rightarrow> 'v queued \<Rightarrow> nat list \<Rightarrow> ('d, 'v) arbiter \<Rightarrow> ('d, 'v) arbiter" where
  "put_loop env q chunk st =
     (if 48000 < length (pcm (ar_pb st)) \<and> current env st q then goto q (PThrottle chunk) st
      else if current env st q then
        (let (put, b) = pb_put chunk (the (q_generation q)) None (ar_pb st);
             st = st\<lparr>ar_pb := b\<rparr>
         in goto q PChunks (if put then st\<lparr>ar_sent := ar_sent st + length chunk\<rparr> else st))
      else goto q PChunks st)"

definition take_chunk :: "'v env \<Rightarrow> 'v queued \<Rightarrow> nat list \<Rightarrow> ('d, 'v) arbiter \<Rightarrow> ('d, 'v) arbiter" where
  "take_chunk env q chunk st0 =
     (let st = st0\<lparr>ar_generated := ar_generated st0 + length chunk\<rparr>
      in if \<not> current env st q then after_chunks env q st else put_loop env q chunk st)"

section \<open>The worker\<close>

definition idle_check :: "('d, 'v) arbiter \<Rightarrow> ('d, 'v) arbiter" where
  "idle_check st = st\<lparr>ar_idle := (ar_idle st \<or> ar_pending st = [] \<or> ar_closed st),
     ar_worker := (if ar_closed st then WStopped else WWait)\<rparr>"

definition overflow_event :: spoken_event where
  "overflow_event = \<lparr>oe_kind = lit ''error'', oe_task = [], oe_operation = [], oe_utterance = [],
     oe_text = lit ''Nicht alle Antworten konnten gesprochen werden. Bitte frage nach dem Status.'',
     oe_version = 0, oe_priority = 0\<rparr>"

definition failure_event :: "spoken_event \<Rightarrow> spoken_event" where
  "failure_event ev = ev\<lparr>oe_kind := lit ''error'', oe_priority := 0,
     oe_text := lit ''Die Audioausgabe ist fehlgeschlagen. Der Auftrag wird weiter beobachtet.''\<rparr>"

definition leave_loop :: "'v env \<Rightarrow> ('d, 'v) arbiter \<Rightarrow> ('d, 'v) arbiter" where
  "leave_loop env st0 =
     (if ar_overflow st0 \<and> e_input env
      then let st = st0\<lparr>ar_overflow := False\<rparr>
           in if e_live env \<and> \<not> ar_closed st
              then st\<lparr>ar_transcripts := ar_transcripts st @ [overflow_event], ar_worker := WOverflow\<rparr>
              else idle_check st
      else idle_check st0)"

definition purge :: "'v env \<Rightarrow> ('d, 'v) arbiter \<Rightarrow> ('d, 'v) arbiter" where
  "purge env st =
     (let gone = filter (\<lambda>q. \<not> may_speak env st q) (ar_pending st)
      in st\<lparr>ar_pending := filter (may_speak env st) (ar_pending st),
            ar_suppressed := ar_suppressed st + length gone, ar_completed := map q_id gone @ ar_completed st\<rparr>)"

definition loop_turn :: "'v env \<Rightarrow> ('d, 'v) arbiter \<Rightarrow> ('d, 'v) arbiter" where
  "loop_turn env st0 =
     (if ar_pending st0 = [] \<or> ar_closed st0 then leave_loop env st0
      else let st = purge env st0
           in (case List.find (ready env) (ar_pending st) of
                None \<Rightarrow> leave_loop env st
              | Some q \<Rightarrow> goto q PStart st))"

text \<open>The \<open>finally\<close> of a turn.\<close>

definition finish :: "'v queued \<Rightarrow> ('d, 'v) arbiter \<Rightarrow> ('d, 'v) arbiter" where
  "finish q st0 =
     (let st = clear_grounded_pcm q st0
      in (if q_started q \<or> \<not> is_pending q st then complete_entry q st else st)\<lparr>ar_worker := WWait\<rparr>)"

text \<open>What a resumption brings: a timer or an awaited emission, a chunk, the end of the audio, an
  exception.\<close>

datatype resume = ITick | IChunk "nat list" | IEnd | IFail

text \<open>One step of the worker and its speaking task; after \<open>close\<close> every step of the worker ends it.\<close>

definition worker_step :: "'v env \<Rightarrow> resume \<Rightarrow> ('d, 'v) arbiter \<Rightarrow> ('d, 'v) arbiter" where
  "worker_step env inp st = (case ar_worker st of
      WStopped \<Rightarrow> st
    | WWait \<Rightarrow> if ar_closed st then idle_check st
               else if ar_wake st then loop_turn env (st\<lparr>ar_wake := False\<rparr>) else st
    | WOverflow \<Rightarrow> idle_check st
    | WSpeak q ph c \<Rightarrow>
        if \<not> running ph then
          (if ar_closed st then idle_check (finish q st)
           else if ph = PEnded True \<and> \<not> ar_audio_failed st \<and> may_speak env st q \<and> ready env q
           then goto q PErrorTranscript (st\<lparr>ar_audio_failed := True,
                  ar_transcripts := ar_transcripts st @ [failure_event (q_event q)]\<rparr>)
           else loop_turn env (finish q st))
        else if c then ended q False st
        else if inp = IFail \<and> (ph = PTranscript \<or> ph = PChunks) then ended q True st
        else (case ph of
            PStart \<Rightarrow> speak_start env q st
          | PDrain \<Rightarrow> drain_resume env q st
          | PTranscript \<Rightarrow> transcript_resume env q st
          | PChunks \<Rightarrow> (case inp of IChunk chunk \<Rightarrow> take_chunk env q chunk st | IEnd \<Rightarrow> after_chunks env q st | _ \<Rightarrow> st)
          | PThrottle chunk \<Rightarrow> put_loop env q chunk st
          | PFlush \<Rightarrow> after_chunks env q st
          | _ \<Rightarrow> st))"

section \<open>Histories\<close>

datatype ('d, 'v) ar_call =
    CPublish "'v env" pyval
  | CGuarded "'v env" pyval 'v "pystr option"
  | CDeferred "'v env" pyval 'v
  | CControl "'v env" pyval "'v option"
  | CInterrupt bool
  | CInvalidate pystr
  | CNotify
  | CClose
  | CRead nat "'d \<Rightarrow> bool option"
  | CWorker "'v env" resume

fun ar_do :: "('d, 'v) ar_call \<Rightarrow> ('d, 'v) arbiter \<Rightarrow> ('d, 'v) arbiter" where
  "ar_do (CPublish env v) st = snd (submit env v None Transient None st)"
| "ar_do (CGuarded env v f g) st = snd (publish_guarded env v f g st)"
| "ar_do (CDeferred env v f) st = snd (publish_deferred env v f st)"
| "ar_do (CControl env v f) st = snd (publish_control env v f st)"
| "ar_do (CInterrupt preserve) st = ar_interrupt preserve st"
| "ar_do (CInvalidate g) st = invalidate_grounded g st"
| "ar_do CNotify st = st\<lparr>ar_wake := True\<rparr>"
| "ar_do CClose st = ar_close st"
| "ar_do (CRead sz allow) st = st\<lparr>ar_pb := snd (pb_read allow sz (ar_pb st))\<rparr>"
| "ar_do (CWorker env inp) st = worker_step env inp st"

definition ar_calls :: "('d, 'v) ar_call list \<Rightarrow> ('d, 'v) arbiter \<Rightarrow> ('d, 'v) arbiter" where
  "ar_calls cs st = fold ar_do cs st"

section \<open>The invariant\<close>

definition on_air :: "'v worker \<Rightarrow> nat set" where
  "on_air w = (case w of WSpeak q ph c \<Rightarrow> {q_id q} | _ \<Rightarrow> {})"

lemma on_air_simps [simp]: "on_air WWait = {}" "on_air (WSpeak q ph c) = {q_id q}" "on_air WOverflow = {}" "on_air WStopped = {}"
  by (simp_all add: on_air_def)

definition waiting_ok :: "nat \<Rightarrow> 'v queued \<Rightarrow> bool" where
  "waiting_ok n q \<longleftrightarrow> q_id q < n \<and> \<not> q_started q \<and> \<not> q_invalidated q
     \<and> (q_generation q = None \<longrightarrow> q_grounded q = None)"

fun unclaimed :: "phase \<Rightarrow> bool" where
  "unclaimed PStart = True"
| "unclaimed PDrain = True"
| "unclaimed (PEnded _) = True"
| "unclaimed PErrorTranscript = True"
| "unclaimed _ = False"

definition speaker_ok :: "'v queued list \<Rightarrow> 'v worker \<Rightarrow> bool" where
  "speaker_ok pending w \<longleftrightarrow> (case w of
      WSpeak q ph c \<Rightarrow> (unclaimed ph \<or> q_started q \<and> q_generation q \<noteq> None)
        \<and> (q_started q \<longrightarrow> q_id q \<notin> q_id ` set pending) \<and> (q_generation q = None \<longrightarrow> q_grounded q = None)
    | _ \<Rightarrow> True)"

definition held :: "'v worker \<Rightarrow> nat" where
  "held w = (case w of WSpeak q ph c \<Rightarrow> (case ph of PThrottle chunk \<Rightarrow> length chunk | _ \<Rightarrow> 0) | _ \<Rightarrow> 0)"

definition owner_ok :: "(pystr \<times> nat option) option \<Rightarrow> 'v worker \<Rightarrow> bool" where
  "owner_ok ow w \<longleftrightarrow> (case ow of None \<Rightarrow> True
    | Some (g, n) \<Rightarrow> (case w of WSpeak q ph c \<Rightarrow> q_grounded q = Some g \<and> q_generation q = n | _ \<Rightarrow> False))"

definition arb_ok :: "('d, 'v) arbiter \<Rightarrow> bool" where
  "arb_ok st \<longleftrightarrow>
     length (ar_pending st) \<le> 8 \<and> sorted (map priority_of (ar_pending st)) \<and> distinct (map q_id (ar_pending st))
   \<and> (\<forall>q\<in>set (ar_pending st). waiting_ok (ar_next st) q)
   \<and> (ar_idle st \<longrightarrow> ar_pending st = [] \<and> on_air (ar_worker st) = {})
   \<and> {..<ar_next st} \<subseteq> set (ar_completed st) \<union> q_id ` set (ar_pending st) \<union> on_air (ar_worker st)
   \<and> on_air (ar_worker st) \<subseteq> {..<ar_next st}
   \<and> (ar_closed st \<longrightarrow> ar_pending st = []) \<and> (ar_worker st = WStopped \<longrightarrow> ar_closed st)
   \<and> ar_sent st + held (ar_worker st) \<le> ar_generated st \<and> speaker_ok (ar_pending st) (ar_worker st) \<and> owner_ok (ar_owner st) (ar_worker st)"

lemma arb_okD:
  assumes "arb_ok st"
  shows "length (ar_pending st) \<le> 8" "sorted (map priority_of (ar_pending st))" "distinct (map q_id (ar_pending st))"
    "q \<in> set (ar_pending st) \<Longrightarrow> waiting_ok (ar_next st) q"
    "ar_idle st \<Longrightarrow> ar_pending st = [] \<and> on_air (ar_worker st) = {}"
    "{..<ar_next st} \<subseteq> set (ar_completed st) \<union> q_id ` set (ar_pending st) \<union> on_air (ar_worker st)"
    "on_air (ar_worker st) \<subseteq> {..<ar_next st}"
    "ar_closed st \<Longrightarrow> ar_pending st = []" "ar_worker st = WStopped \<Longrightarrow> ar_closed st"
    "ar_sent st + held (ar_worker st) \<le> ar_generated st" "speaker_ok (ar_pending st) (ar_worker st)" "owner_ok (ar_owner st) (ar_worker st)"
  using assms unfolding arb_ok_def by blast+

lemma new_arbiter_ok: "arb_ok (new_arbiter b)"
  by (simp add: arb_ok_def new_arbiter_def on_air_def held_def speaker_ok_def owner_ok_def)

lemma on_air_cancel [simp]: "on_air (cancel_active w) = on_air w"
  by (cases w) (auto simp: on_air_def)

lemma active_entry_None: "active_entry w = None \<longleftrightarrow> on_air w = {}"
  by (cases w) (auto simp: on_air_def)

text \<open>Shrinking the queue: whatever leaves it is completed or on air.\<close>

lemma sorted_filter_map: "sorted (map f xs) \<Longrightarrow> sorted (map f (filter P xs))"
  by (rule sorted_filter)

lemma distinct_filter_map: "distinct (map f xs) \<Longrightarrow> distinct (map f (filter P xs))"
  by (rule distinct_map_filter)

lemma is_pending_filter: "\<not> is_pending q st \<Longrightarrow> \<not> is_pending q (st\<lparr>ar_pending := filter P (ar_pending st)\<rparr>)"
  by (auto simp: is_pending_def)

lemma shrink_ok:
  fixes st st' :: "('d, 'v) arbiter"
  assumes ok: "arb_ok st" and pend: "ar_pending st' = filter P (ar_pending st)" and nx: "ar_next st' = ar_next st"
    and gone: "\<And>q. q \<in> set (ar_pending st) \<Longrightarrow> \<not> P q \<Longrightarrow> q_id q \<in> set (ar_completed st') \<union> on_air (ar_worker st')"
    and kept: "set (ar_completed st) \<subseteq> set (ar_completed st')"
    and air: "on_air (ar_worker st) \<subseteq> set (ar_completed st') \<union> on_air (ar_worker st') \<union> q_id ` set (ar_pending st')"
      "on_air (ar_worker st') \<subseteq> {..<ar_next st}"
    and idle: "ar_idle st' \<Longrightarrow> ar_pending st' = [] \<and> on_air (ar_worker st') = {}"
    and closed: "ar_closed st' \<Longrightarrow> ar_pending st' = []" "ar_worker st' = WStopped \<Longrightarrow> ar_closed st'"
    and sent: "ar_sent st' + held (ar_worker st') \<le> ar_generated st'" and sp: "speaker_ok (ar_pending st') (ar_worker st')" and ow: "owner_ok (ar_owner st') (ar_worker st')"
  shows "arb_ok st'"
proof -
  have "q_id q \<in> set (ar_completed st') \<union> q_id ` set (ar_pending st') \<union> on_air (ar_worker st')"
    if "q \<in> set (ar_pending st)" for q
    using gone[OF that] that by (cases "P q") (auto simp: pend)
  then have cover: "{..<ar_next st} \<subseteq> set (ar_completed st') \<union> q_id ` set (ar_pending st') \<union> on_air (ar_worker st')"
    using arb_okD(6)[OF ok] kept air(1) by blast
  show ?thesis
    unfolding arb_ok_def nx
  proof (intro conjI ballI)
    show "length (ar_pending st') \<le> 8"
      unfolding pend using arb_okD(1)[OF ok] by (rule le_trans[OF length_filter_le])
    show "sorted (map priority_of (ar_pending st'))" "distinct (map q_id (ar_pending st'))"
      unfolding pend by (rule sorted_filter[OF arb_okD(2)[OF ok]], rule distinct_map_filter[OF arb_okD(3)[OF ok]])
    show "waiting_ok (ar_next st) q" if "q \<in> set (ar_pending st')" for q
      using that arb_okD(4)[OF ok] by (simp add: pend)
  qed (use cover air(2) idle closed sent sp ow in auto)
qed

lemma speaker_ok_filter: "speaker_ok pending w \<Longrightarrow> speaker_ok (filter P pending) w"
  by (cases w) (auto simp: speaker_ok_def)

lemma speaker_ok_cancel [simp]: "speaker_ok pending (cancel_active w) = speaker_ok pending w"
  by (cases w) (auto simp: speaker_ok_def)

lemma held_cancel [simp]: "held (cancel_active w) = held w"
  by (cases w) (auto simp: held_def)

lemma owner_ok_None [simp]: "owner_ok None w"
  by (simp add: owner_ok_def)

lemma cancel_stopped [simp]: "cancel_active w = WStopped \<longleftrightarrow> w = WStopped"
  by (cases w) auto

lemma interrupt_ok:
  assumes ok: "arb_ok st" shows "arb_ok (ar_interrupt preserve st)"
  by (rule shrink_ok[OF ok, where P = "\<lambda>q. preserve \<and> q_disposition q = Deferred \<and> \<not> q_started q"])
     (use arb_okD(5-11)[OF ok] in \<open>auto simp: ar_interrupt_def Let_def active_entry_None intro!: speaker_ok_filter\<close>)

section \<open>Every call keeps the invariant\<close>

lemma arb_ok_frame [simp]:
  "arb_ok (st\<lparr>ar_suppressed := a\<rparr>) = arb_ok st" "arb_ok (st\<lparr>ar_versions := b\<rparr>) = arb_ok st"
  "arb_ok (st\<lparr>ar_wake := c\<rparr>) = arb_ok st" "arb_ok (st\<lparr>ar_transcripts := d\<rparr>) = arb_ok st"
  "arb_ok (st\<lparr>ar_overflow := c\<rparr>) = arb_ok st" "arb_ok (st\<lparr>ar_audio_failed := c\<rparr>) = arb_ok st"
  "arb_ok (st\<lparr>ar_pb := e\<rparr>) = arb_ok st"
  by (simp_all add: arb_ok_def)

lemma complete_entry_ok: "arb_ok st \<Longrightarrow> arb_ok (complete_entry q st)"
  unfolding arb_ok_def by (auto simp: complete_entry_def)

lemma generated_ok: "arb_ok st \<Longrightarrow> arb_ok (st\<lparr>ar_generated := ar_generated st + n\<rparr>)"
  "arb_ok st \<Longrightarrow> ar_sent st + n + held (ar_worker st) \<le> ar_generated st \<Longrightarrow> arb_ok (st\<lparr>ar_sent := ar_sent st + n\<rparr>)"
  by (auto simp: arb_ok_def)

lemma clear_grounded_sel [simp]:
  "ar_pending (clear_grounded_pcm q st) = ar_pending st" "ar_worker (clear_grounded_pcm q st) = ar_worker st"
  "ar_completed (clear_grounded_pcm q st) = ar_completed st" "ar_next (clear_grounded_pcm q st) = ar_next st"
  "ar_closed (clear_grounded_pcm q st) = ar_closed st" "ar_idle (clear_grounded_pcm q st) = ar_idle st"
  "ar_sent (clear_grounded_pcm q st) = ar_sent st" "ar_generated (clear_grounded_pcm q st) = ar_generated st"
  by (simp_all add: clear_grounded_pcm_def split: option.split)

lemma clear_grounded_owner:
  "ar_owner (clear_grounded_pcm q st) = (case q_grounded q of None \<Rightarrow> ar_owner st
     | Some g \<Rightarrow> if ar_owner st = Some (g, q_generation q) then None else ar_owner st)"
  by (simp add: clear_grounded_pcm_def split: option.split)

lemma clear_grounded_ok: "arb_ok st \<Longrightarrow> arb_ok (clear_grounded_pcm q st)"
  unfolding arb_ok_def clear_grounded_sel by (auto simp: clear_grounded_owner split: option.split)

text \<open>The speaking task at work: \<open>q\<close> is the active entry as the task holds it.\<close>

definition speaking :: "'v queued \<Rightarrow> ('d, 'v) arbiter \<Rightarrow> bool" where
  "speaking q st \<longleftrightarrow> arb_ok st \<and> (\<exists>ph c. ar_worker st = WSpeak q ph c)"

lemma speakingD:
  assumes "speaking q st"
  shows "arb_ok st" "q_started q \<Longrightarrow> \<not> is_pending q st" "q_generation q = None \<Longrightarrow> q_grounded q = None"
    "on_air (ar_worker st) = {q_id q}"
    "ar_owner st = None \<or> (\<exists>g. ar_owner st = Some (g, q_generation q) \<and> q_grounded q = Some g)"
  using assms arb_okD(11,12)[of st]
  by (auto simp: speaking_def speaker_ok_def owner_ok_def on_air_def is_pending_def split: option.splits)

lemma speaking_frame [simp]:
  "speaking q (st\<lparr>ar_suppressed := a\<rparr>) = speaking q st" "speaking q (st\<lparr>ar_versions := b\<rparr>) = speaking q st"
  "speaking q (st\<lparr>ar_wake := c\<rparr>) = speaking q st" "speaking q (st\<lparr>ar_transcripts := d\<rparr>) = speaking q st"
  "speaking q (st\<lparr>ar_pb := e\<rparr>) = speaking q st"
  by (simp_all add: speaking_def)

lemma speaking_complete: "speaking q st \<Longrightarrow> speaking q (complete_entry p st)"
  by (auto simp: speaking_def complete_entry_ok) (simp add: complete_entry_def)

lemma put_worker_ok:
  assumes sp: "speaking q st" and id: "q_id q' = q_id q"
    and ph: "unclaimed ph \<or> q_started q' \<and> q_generation q' \<noteq> None" and pd: "q_started q' \<Longrightarrow> \<not> is_pending q' st"
    and g: "q_generation q' = None \<longrightarrow> q_grounded q' = None"
    and ow: "ar_owner st = None \<or> q_grounded q' = q_grounded q \<and> q_generation q' = q_generation q"
    and hd: "ar_sent st + held (WSpeak q' ph c) \<le> ar_generated st"
  shows "arb_ok (st\<lparr>ar_worker := WSpeak q' ph c\<rparr>)"
proof (rule shrink_ok[OF speakingD(1)[OF sp], where P = "\<lambda>_. True"])
  note sp' = speakingD[OF sp]
  show "speaker_ok (ar_pending (st\<lparr>ar_worker := WSpeak q' ph c\<rparr>)) (ar_worker (st\<lparr>ar_worker := WSpeak q' ph c\<rparr>))"
    using ph pd g by (simp add: speaker_ok_def is_pending_def)
  show "owner_ok (ar_owner (st\<lparr>ar_worker := WSpeak q' ph c\<rparr>)) (ar_worker (st\<lparr>ar_worker := WSpeak q' ph c\<rparr>))"
    using ow sp'(5) by (auto simp: owner_ok_def)
qed (use arb_okD(5,7,8,10)[OF speakingD(1)[OF sp]] speakingD(4)[OF sp] id hd in \<open>auto simp: on_air_def\<close>)

lemma speaking_bytes: "speaking q st \<Longrightarrow> ar_sent st \<le> ar_generated st"
  using arb_okD(10)[of st] by (simp add: speaking_def)

lemma ended_ok: "speaking q st \<Longrightarrow> arb_ok (ended q f st)"
  unfolding ended_def by (rule put_worker_ok) (auto dest: speakingD speaking_bytes simp: held_def)

lemma goto_ok:
  "speaking q st \<Longrightarrow> unclaimed ph \<or> q_started q \<and> q_generation q \<noteq> None
   \<Longrightarrow> ar_sent st + held (WSpeak q ph False) \<le> ar_generated st \<Longrightarrow> arb_ok (goto q ph st)"
  unfolding goto_def by (rule put_worker_ok) (auto dest: speakingD)

lemma remove_pending_ok:
  assumes ok: "arb_ok st" and i: "i \<in> set (ar_completed st) \<union> on_air (ar_worker st)"
  shows "arb_ok (remove_pending i st)"
  by (rule shrink_ok[OF ok, where P = "\<lambda>q. q_id q \<noteq> i"])
     (use arb_okD(5-12)[OF ok] i in \<open>auto simp: remove_pending_def intro!: speaker_ok_filter\<close>)

lemma speaking_remove: "speaking q st \<Longrightarrow> speaking q (remove_pending (q_id q) st)"
  using remove_pending_ok[of st "q_id q"] speakingD(4)[of q st]
  by (auto simp: speaking_def) (simp add: remove_pending_def)

lemma claim_entry_ok:
  assumes "speaking q st" shows "arb_ok (claim_entry env q st)"
proof -
  let ?st = "remove_pending (q_id q) st"
  let ?q = "q\<lparr>q_started := True, q_generation := (case q_generation q of None \<Rightarrow> Some (generation (ar_pb ?st)) | Some n \<Rightarrow> Some n)\<rparr>"
  note sp = speaking_remove[OF assms]
  have np: "\<not> is_pending ?q ?st" by (auto simp: is_pending_def remove_pending_def)
  have put: "arb_ok (st'\<lparr>ar_worker := WSpeak ?q ph c\<rparr>)"
    if "speaking q st'" "held (WSpeak ?q ph c) = 0" "ar_pending st' = ar_pending ?st" "ar_owner st' = ar_owner ?st" for ph c st'
  proof (rule put_worker_ok[OF that(1)])
    show "ar_owner st' = None \<or> q_grounded ?q = q_grounded q \<and> q_generation ?q = q_generation q"
      using speakingD(3,5)[OF sp] that(4) by (cases "q_generation q") auto
  qed (use np that(2,3) speaking_bytes[OF that(1)] in \<open>auto simp: is_pending_def split: option.split\<close>)
  show ?thesis
    unfolding claim_entry_def Let_def ended_def goto_def by (simp add: put sp held_def split: if_split)
qed

lemma drain_loop_ok: "speaking q st \<Longrightarrow> arb_ok (drain_loop env q st)"
proof -
  assume sp: "speaking q st"
  let ?st = "st\<lparr>ar_owner := map_option (\<lambda>g. (g, q_generation q)) (q_grounded q)\<rparr>"
  obtain ph c where w: "ar_worker st = WSpeak q ph c" using sp by (auto simp: speaking_def)
  have "arb_ok ?st"
    by (rule shrink_ok[OF speakingD(1)[OF sp], where P = "\<lambda>_. True"])
      (use arb_okD(5-11)[OF speakingD(1)[OF sp]] w in \<open>auto simp: owner_ok_def split: option.split\<close>)
  then have "speaking q ?st" using w by (simp add: speaking_def)
  then show ?thesis using sp by (simp add: drain_loop_def claim_entry_ok ended_ok goto_ok speaking_bytes held_def)
qed

lemma speak_start_ok: "speaking q st \<Longrightarrow> arb_ok (speak_start env q st)"
  using speaking_complete[of q "(remove_pending (q_id q) st)\<lparr>ar_suppressed := ar_suppressed st + 1\<rparr>" q]
  by (simp add: speak_start_def drain_loop_ok claim_entry_ok ended_ok speaking_remove)

lemma drain_resume_ok: "speaking q st \<Longrightarrow> arb_ok (drain_resume env q st)"
  by (simp add: drain_resume_def ended_ok drain_loop_ok)

lemma transcript_resume_ok:
  "speaking q st \<Longrightarrow> q_started q \<Longrightarrow> q_generation q \<noteq> None \<Longrightarrow> arb_ok (transcript_resume env q st)"
  by (simp add: transcript_resume_def ended_ok goto_ok speaking_bytes held_def)

lemma invalidate_ok:
  assumes ok: "arb_ok st" shows "arb_ok (invalidate_grounded g st)"
proof -
  let ?st = "st\<lparr>ar_pending := filter (\<lambda>q. q_grounded q \<noteq> Some g) (ar_pending st),
       ar_completed := map q_id (filter (\<lambda>q. q_grounded q = Some g) (ar_pending st)) @ ar_completed st, ar_wake := True\<rparr>"
  have st: "arb_ok ?st"
    by (rule shrink_ok[OF ok, where P = "\<lambda>q. q_grounded q \<noteq> Some g"])
       (use arb_okD(5-12)[OF ok] in \<open>auto intro!: speaker_ok_filter\<close>)
  show ?thesis
  proof (cases "ar_worker st")
    case (WSpeak q ph c)
    have sp: "speaking q ?st" using st WSpeak by (simp add: speaking_def)
    have c: "arb_ok ((clear_grounded_pcm q ?st)\<lparr>ar_worker := WSpeak (q\<lparr>q_invalidated := True\<rparr>) ph c'\<rparr>)" for c'
      by (rule put_worker_ok[where q = q])
         (use sp clear_grounded_ok[OF st] speakingD[OF sp] arb_okD(10,11)[OF st] WSpeak
           in \<open>auto simp: held_def speaking_def is_pending_def speaker_ok_def clear_grounded_owner\<close>)
    then show ?thesis using st WSpeak by (auto simp: invalidate_grounded_def Let_def)
  qed (use st in \<open>simp_all add: invalidate_grounded_def Let_def\<close>)
qed

lemma invalidate_speaking:
  assumes "speaking q st" "q_grounded q = Some g"
  shows "speaking (q\<lparr>q_invalidated := True\<rparr>) (invalidate_grounded g st)"
  using invalidate_ok[of st g] assms by (auto simp: speaking_def invalidate_grounded_def Let_def)

lemma after_chunks_ok:
  "speaking q st \<Longrightarrow> q_started q \<Longrightarrow> q_generation q \<noteq> None \<Longrightarrow> arb_ok (after_chunks env q st)"
  by (auto simp: after_chunks_def ended_ok invalidate_speaking speaking_bytes held_def intro!: goto_ok split: option.split)

lemma put_loop_ok:
  assumes sp: "speaking q st" and st: "q_started q" "q_generation q \<noteq> None"
    and room: "ar_sent st + length chunk \<le> ar_generated st"
  shows "arb_ok (put_loop env q chunk st)"
proof -
  obtain put b where pb: "pb_put chunk (the (q_generation q)) None (ar_pb st) = (put, b)" by fastforce
  have w0: "arb_ok (st\<lparr>ar_worker := WSpeak q PChunks False\<rparr>)"
    using goto_ok[OF sp, of PChunks] st speaking_bytes[OF sp] by (simp add: goto_def held_def)
  have "arb_ok (goto q PChunks (st\<lparr>ar_pb := b, ar_sent := ar_sent st + length chunk\<rparr>))"
    using w0 room by (simp add: arb_ok_def goto_def held_def)
  moreover have "arb_ok (goto q PChunks (st\<lparr>ar_pb := b\<rparr>))" "arb_ok (goto q PChunks st)"
    using w0 by (simp_all add: goto_def arb_ok_def)
  moreover have "arb_ok (goto q (PThrottle chunk) st)"
    using goto_ok[OF sp, of "PThrottle chunk"] st room by (simp add: held_def)
  ultimately show ?thesis by (simp add: put_loop_def pb Let_def)
qed

lemma take_chunk_ok:
  assumes sp: "speaking q st" and st: "q_started q" "q_generation q \<noteq> None"
  shows "arb_ok (take_chunk env q chunk st)"
proof -
  have "speaking q (st\<lparr>ar_generated := ar_generated st + length chunk\<rparr>)"
    using sp generated_ok(1)[of st "length chunk"] by (simp add: speaking_def)
  then show ?thesis
    using st speaking_bytes[OF sp] by (simp add: take_chunk_def Let_def after_chunks_ok put_loop_ok)
qed

lemma idle_check_ok:
  assumes ok: "arb_ok st" and w: "on_air (ar_worker st) = {}" shows "arb_ok (idle_check st)"
  by (rule shrink_ok[OF ok, where P = "\<lambda>_. True"])
     (use arb_okD(5-12)[OF ok] w in \<open>auto simp: idle_check_def on_air_def held_def speaker_ok_def owner_ok_def
        split: option.splits worker.splits if_splits\<close>)

lemma leave_loop_ok:
  assumes ok: "arb_ok st" and w: "ar_worker st = WWait" shows "arb_ok (leave_loop env st)"
proof -
  have a: "on_air (ar_worker st) = {}" by (simp add: w on_air_def)
  have "arb_ok (st\<lparr>ar_overflow := False, ar_transcripts := ar_transcripts st @ [overflow_event], ar_worker := WOverflow\<rparr>)"
    by (rule shrink_ok[OF ok, where P = "\<lambda>_. True"])
       (use arb_okD(5-12)[OF ok] w in \<open>auto simp: on_air_def held_def speaker_ok_def owner_ok_def split: option.splits\<close>)
  moreover have "arb_ok (idle_check st)" "arb_ok (idle_check (st\<lparr>ar_overflow := False\<rparr>))"
    using ok a by (simp_all add: idle_check_ok)
  ultimately show ?thesis by (simp add: leave_loop_def Let_def)
qed

lemma purge_ok:
  assumes ok: "arb_ok st" shows "arb_ok (purge env st)"
  by (rule shrink_ok[OF ok, where P = "may_speak env st"])
     (use arb_okD(5-12)[OF ok] in \<open>auto simp: purge_def Let_def intro!: speaker_ok_filter\<close>)

lemma purge_sel [simp]: "ar_worker (purge env st) = ar_worker st" "ar_owner (purge env st) = ar_owner st"
  "ar_closed (purge env st) = ar_closed st"
  by (simp_all add: purge_def Let_def)

lemma loop_turn_ok:
  assumes ok: "arb_ok st" and w: "ar_worker st = WWait" shows "arb_ok (loop_turn env st)"
proof (cases "ar_pending st = [] \<or> ar_closed st")
  case True
  then show ?thesis using leave_loop_ok[OF ok w] by (simp add: loop_turn_def)
next
  case False
  have p: "arb_ok (purge env st)" by (rule purge_ok[OF ok])
  show ?thesis
  proof (cases "List.find (ready env) (ar_pending (purge env st))")
    case None
    then show ?thesis using leave_loop_ok[OF p] False w by (simp add: loop_turn_def)
  next
    case (Some q)
    have q: "q \<in> set (ar_pending (purge env st))" using find_SomeD[OF Some] by simp
    have "ar_owner st = None" using arb_okD(12)[OF ok] w by (auto simp: owner_ok_def split: option.splits)
    then have "arb_ok (goto q PStart (purge env st))"
      unfolding goto_def
      by (intro shrink_ok[OF p, where P = "\<lambda>_. True"])
         (use arb_okD(5-12)[OF p] arb_okD(4)[OF p q] q w in
           \<open>auto simp: on_air_def held_def speaker_ok_def waiting_ok_def\<close>)
    then show ?thesis using False Some by (simp add: loop_turn_def)
  qed
qed

lemma turn_finish_ok:
  assumes sp: "speaking q st" shows "arb_ok (finish q st)"
proof -
  note ok = speakingD(1)[OF sp]
  have own: "ar_owner (clear_grounded_pcm q st) = None"
    using speakingD(5)[OF sp] by (auto simp: clear_grounded_owner split: option.splits)
  show ?thesis
    by (rule shrink_ok[OF ok, where P = "\<lambda>_. True"])
       (use arb_okD(5-12)[OF ok] speakingD(4)[OF sp] own in
        \<open>auto simp: finish_def Let_def complete_entry_def is_pending_def on_air_def held_def speaker_ok_def\<close>)
qed

lemma finish_worker [simp]: "ar_worker (finish q st) = WWait"
  by (simp add: finish_def Let_def)

lemma worker_step_ok:
  assumes ok: "arb_ok st" shows "arb_ok (worker_step env inp st)"
proof (cases "ar_worker st")
  case WWait
  then show ?thesis
    using ok idle_check_ok[OF ok] loop_turn_ok[of "st\<lparr>ar_wake := False\<rparr>" env]
    by (simp add: worker_step_def on_air_def)
next
  case (WSpeak q ph c)
  have sp: "speaking q st" using ok WSpeak by (simp add: speaking_def)
  have cl: "\<not> unclaimed ph \<Longrightarrow> q_started q \<and> q_generation q \<noteq> None"
    using arb_okD(11)[OF ok] WSpeak by (auto simp: speaker_ok_def)
  have f: "arb_ok (idle_check (finish q st))" "arb_ok (loop_turn env (finish q st))"
    using turn_finish_ok[OF sp] by (simp_all add: idle_check_ok loop_turn_ok)
  have e: "arb_ok (ended q b st)" for b by (rule ended_ok[OF sp])
  have g: "arb_ok (goto q PErrorTranscript (st\<lparr>ar_audio_failed := True, ar_transcripts := x\<rparr>))" for x
    by (rule goto_ok) (use sp speaking_bytes[OF sp] in \<open>auto simp: speaking_def held_def\<close>)
  show ?thesis
  proof (cases ph)
    case (PThrottle chunk)
    have "ar_sent st + length chunk \<le> ar_generated st"
      using arb_okD(10)[OF ok] WSpeak PThrottle by (simp add: held_def)
    then show ?thesis
      using cl e put_loop_ok[OF sp] by (simp add: worker_step_def WSpeak PThrottle)
  qed (use cl e f g ok sp in \<open>auto simp: worker_step_def WSpeak speak_start_ok drain_resume_ok transcript_resume_ok
        take_chunk_ok after_chunks_ok split: resume.split\<close>)
next
  case WOverflow
  then show ?thesis using idle_check_ok[OF ok] by (simp add: worker_step_def on_air_def)
next
  case WStopped
  then show ?thesis using ok by (simp add: worker_step_def)
qed

lemma rejected_ok:
  assumes ok: "arb_ok st" and f: "ar_pending st' = ar_pending st" "ar_completed st' = ar_next st # ar_completed st"
    "ar_next st' = ar_next st + 1" "ar_worker st' = ar_worker st" "ar_owner st' = ar_owner st" "ar_idle st' = ar_idle st"
    "ar_closed st' = ar_closed st" "ar_sent st' = ar_sent st" "ar_generated st' = ar_generated st"
  shows "arb_ok st'"
  using ok unfolding arb_ok_def f by (auto simp: waiting_ok_def lessThan_Suc)

lemma accepted_ok:
  assumes ok: "arb_ok st" and room: "length (ar_pending st) < 8" and cl: "\<not> ar_closed st"
    and q: "q_id q = ar_next st" "waiting_ok (ar_next st + 1) q"
    and f: "ar_pending st' = sort_key priority_of (ar_pending st @ [q])" "ar_completed st' = ar_completed st"
    "ar_next st' = ar_next st + 1" "ar_worker st' = ar_worker st" "ar_owner st' = ar_owner st" "ar_idle st' = False"
    "ar_closed st' = ar_closed st" "ar_sent st' = ar_sent st" "ar_generated st' = ar_generated st"
  shows "arb_ok st'"
proof -
  have set: "set (sort_key priority_of (ar_pending st @ [q])) = insert q (set (ar_pending st))" by simp
  have fresh: "q_id q \<notin> q_id ` set (ar_pending st)"
    using arb_okD(4)[OF ok] q(1) by (force simp: waiting_ok_def)
  have dist: "distinct (map q_id (sort_key priority_of (ar_pending st @ [q])))"
  proof -
    have "mset (map q_id (sort_key priority_of (ar_pending st @ [q]))) = mset (map q_id (ar_pending st @ [q]))"
      by (metis mset_map mset_sort)
    then have "distinct (map q_id (sort_key priority_of (ar_pending st @ [q]))) = distinct (map q_id (ar_pending st @ [q]))"
      by (rule mset_eq_imp_distinct_iff)
    then show ?thesis using fresh arb_okD(3)[OF ok] by simp
  qed
  have sp: "speaker_ok (sort_key priority_of (ar_pending st @ [q])) (ar_worker st)"
    using arb_okD(11,7)[OF ok] q(1) by (cases "ar_worker st") (auto simp: speaker_ok_def)
  show ?thesis
    unfolding arb_ok_def f
    using arb_okD(5-10,12)[OF ok] dist sp room cl q arb_okD(4)[OF ok]
    by (auto simp: lessThan_Suc waiting_ok_def less_Suc_eq dest: less_SucI intro!: sorted_sort_key)
qed

lemma worst_None [simp]: "worst qs = None \<longleftrightarrow> qs = []"
  by (cases qs) (auto split: option.splits)

lemma worst_in: "worst qs = Some w \<Longrightarrow> w \<in> set qs \<and> (\<forall>q\<in>set qs. priority_of q \<le> priority_of w)"
  by (induction qs arbitrary: w) (auto split: option.splits if_splits intro: order.trans)

lemma publish_ok:
  assumes ok: "arb_ok st" and g: "disp = Deferred \<Longrightarrow> grounded = None"
  shows "arb_ok (snd (publish env ev v disp grounded st))"
proof -
  let ?q = "\<lparr>q_id = ar_next st, q_event = ev,
     q_generation = (if disp = Deferred then None else Some (generation (ar_pb st))), q_validity = v,
     q_disposition = disp, q_started = False, q_grounded = grounded, q_invalidated = False\<rparr>"
  have q: "waiting_ok (ar_next st + 1) ?q" using g by (simp add: waiting_ok_def)
  show ?thesis
  proof (cases "ar_closed st \<or> \<not> e_live env \<or> \<not> valid env v \<or> oe_task ev \<noteq> [] \<and> oe_version ev < version_of st (oe_task ev)")
    case True
    then show ?thesis
      by (intro rejected_ok[OF ok]) (auto simp: publish_def Let_def complete_entry_def version_of_def)
  next
    case live: False
    then have cl: "\<not> ar_closed st" by simp
    show ?thesis
    proof (cases "length (ar_pending st) < 8")
      case True
      then show ?thesis
        using live by (intro accepted_ok[OF ok True cl _ q])
          (auto simp: publish_def Let_def insert_pending_def version_of_def)
    next
      case False
      then obtain w where w: "worst (ar_pending st) = Some w" using worst_None[of "ar_pending st"] by fastforce
      show ?thesis
      proof (cases "oe_priority ev < priority_of w")
        case True
        let ?st = "remove_pending (q_id w) (complete_entry w st)"
        have s: "arb_ok ?st"
          by (rule remove_pending_ok[OF complete_entry_ok[OF ok]]) (simp add: complete_entry_def)
        have "length (ar_pending ?st) < length (ar_pending st)"
          unfolding remove_pending_def complete_entry_def using worst_in[OF w] by (auto intro!: length_filter_less)
        then have l: "length (ar_pending ?st) < 8" using arb_okD(1)[OF ok] by simp
        have "ar_next ?st = ar_next st" by (simp add: remove_pending_def complete_entry_def)
        then show ?thesis
          using live True w False cl q
          by (intro accepted_ok[OF s l])
            (auto simp: publish_def Let_def insert_pending_def remove_pending_def complete_entry_def version_of_def)
      next
        case low: False
        then show ?thesis
          using live w False by (intro rejected_ok[OF ok])
            (auto simp: publish_def Let_def complete_entry_def version_of_def)
      qed
    qed
  qed
qed

lemma submit_alt:
  "submit env v f disp g st = (case validate_event v of None \<Rightarrow> (Inl ''invalid output event'', st)
     | Some ev \<Rightarrow> (Inr (fst (publish env ev f disp g st)), snd (publish env ev f disp g st)))"
  by (simp add: submit_def split: option.split prod.split)

lemma submit_ok:
  "arb_ok st \<Longrightarrow> (disp = Deferred \<Longrightarrow> grounded = None) \<Longrightarrow> arb_ok (snd (submit env v f disp grounded st))"
  by (simp add: submit_alt publish_ok split: option.split)

lemma ar_close_ok: "arb_ok st \<Longrightarrow> arb_ok (ar_close st)"
proof -
  assume ok: "arb_ok st"
  have "ar_pending (ar_interrupt False (st\<lparr>ar_closed := True\<rparr>)) = []" by (simp add: ar_interrupt_def Let_def)
  moreover have "arb_ok ((ar_interrupt False st)\<lparr>ar_closed := True\<rparr>)"
    using interrupt_ok[OF ok, of False] by (auto simp: arb_ok_def ar_interrupt_def Let_def)
  moreover have "(ar_interrupt False st)\<lparr>ar_closed := True\<rparr> = ar_interrupt False (st\<lparr>ar_closed := True\<rparr>)"
    by (simp add: ar_interrupt_def Let_def)
  ultimately show ?thesis using ok by (simp add: ar_close_def)
qed

lemma ar_do_ok: "arb_ok st \<Longrightarrow> arb_ok (ar_do c st)"
  by (cases c) (auto simp: publish_guarded_def publish_deferred_def publish_control_def interrupt_ok
      invalidate_ok ar_close_ok worker_step_ok intro!: submit_ok)

interpretation arbiter: component ar_do arb_ok
  by unfold_locales (rule ar_do_ok)

lemma ar_calls_ok: "arb_ok st \<Longrightarrow> arb_ok (ar_calls cs st)"
  unfolding ar_calls_def by (rule arbiter.run_inv)

section \<open>Closing ends the worker\<close>

definition closing_ok :: "('d, 'v) arbiter \<Rightarrow> bool" where
  "closing_ok st \<longleftrightarrow> (case ar_worker st of WSpeak q ph c \<Rightarrow> ar_closed st \<longrightarrow> running ph \<longrightarrow> c | _ \<Rightarrow> True)"

lemma closing_ok_same:
  "closing_ok st \<Longrightarrow> ar_worker st' = ar_worker st \<Longrightarrow> ar_closed st' = ar_closed st \<Longrightarrow> closing_ok st'"
  by (simp only: closing_ok_def)

lemma publish_frame [simp]:
  "ar_worker (snd (publish env ev v d g st)) = ar_worker st" "ar_closed (snd (publish env ev v d g st)) = ar_closed st"
  "ar_pb (snd (publish env ev v d g st)) = ar_pb st" "ar_sent (snd (publish env ev v d g st)) = ar_sent st"
  by (simp_all add: publish_def Let_def complete_entry_def insert_pending_def remove_pending_def split: option.split)

lemma submit_frame [simp]:
  "ar_worker (snd (submit env x v d g st)) = ar_worker st" "ar_closed (snd (submit env x v d g st)) = ar_closed st"
  "ar_pb (snd (submit env x v d g st)) = ar_pb st" "ar_sent (snd (submit env x v d g st)) = ar_sent st"
  by (simp_all add: submit_alt split: option.split)

lemma closed_basic [simp]:
  "ar_closed (complete_entry q st) = ar_closed st" "ar_closed (remove_pending i st) = ar_closed st"
  "ar_closed (ended q f st) = ar_closed st" "ar_closed (goto q ph st) = ar_closed st"
  "ar_closed (idle_check st) = ar_closed st" "ar_closed (finish q st) = ar_closed st"
  by (simp_all add: complete_entry_def remove_pending_def ended_def goto_def idle_check_def finish_def Let_def)

lemma closed_invalidate [simp]: "ar_closed (invalidate_grounded g st) = ar_closed st"
  by (simp add: invalidate_grounded_def Let_def split: worker.split)

lemma closed_speak [simp]:
  "ar_closed (claim_entry env q st) = ar_closed st" "ar_closed (after_chunks env q st) = ar_closed st"
  "ar_closed (transcript_resume env q st) = ar_closed st" "ar_closed (put_loop env q chunk st) = ar_closed st"
  by (simp_all add: claim_entry_def after_chunks_def transcript_resume_def put_loop_def Let_def split: option.split prod.split)

lemma closed_speak2 [simp]:
  "ar_closed (drain_loop env q st) = ar_closed st" "ar_closed (take_chunk env q chunk st) = ar_closed st"
  "ar_closed (leave_loop env st) = ar_closed st"
  by (simp_all add: drain_loop_def take_chunk_def leave_loop_def Let_def)

lemma closed_speak3 [simp]:
  "ar_closed (speak_start env q st) = ar_closed st" "ar_closed (drain_resume env q st) = ar_closed st"
  "ar_closed (loop_turn env st) = ar_closed st"
  by (simp_all add: speak_start_def drain_resume_def loop_turn_def Let_def split: option.split)

lemma closed_worker [simp]: "ar_closed (worker_step env inp st) = ar_closed st"
  by (simp add: worker_step_def split: worker.split phase.split resume.split)

lemma closing_ok_worker: "closing_ok st \<Longrightarrow> closing_ok (worker_step env inp st)"
proof (cases "ar_closed st")
  case True
  assume "closing_ok st"
  then show ?thesis
    using True by (cases "ar_worker st") (auto simp: worker_step_def closing_ok_def idle_check_def ended_def)
next
  case False
  then show ?thesis by (simp add: closing_ok_def split: worker.split)
qed

lemma closing_ok_interrupt: "closing_ok st \<Longrightarrow> closing_ok (ar_interrupt p st)"
  by (cases "ar_worker st") (auto simp: closing_ok_def ar_interrupt_def Let_def)

lemma closing_ok_do: "closing_ok st \<Longrightarrow> closing_ok (ar_do c st)"
proof (cases c)
  case (CInvalidate g)
  then show "closing_ok st \<Longrightarrow> ?thesis"
    by (cases "ar_worker st") (auto simp: closing_ok_def invalidate_grounded_def Let_def)
next
  case CClose
  then show "closing_ok st \<Longrightarrow> ?thesis"
    by (cases "ar_worker st") (auto simp: closing_ok_def ar_close_def ar_interrupt_def Let_def)
qed (auto simp: publish_guarded_def publish_deferred_def publish_control_def closing_ok_worker closing_ok_interrupt
      elim!: closing_ok_same)

interpretation closing: component ar_do closing_ok
  by unfold_locales (rule closing_ok_do)

lemma closed_two_steps:
  assumes "closing_ok st" "ar_closed st"
  shows "ar_worker (worker_step env2 inp2 (worker_step env1 inp1 st)) = WStopped"
  using assms by (cases "ar_worker st") (auto simp: worker_step_def closing_ok_def idle_check_def ended_def)

lemma stopped_idle: "ar_worker (idle_check st) = WStopped \<Longrightarrow> ar_idle (idle_check st)"
  by (auto simp: idle_check_def split: if_splits)

section \<open>Only current speech reaches the buffer\<close>

definition buffered :: "('d, 'v) arbiter \<Rightarrow> nat" where
  "buffered st = length (pcm (ar_pb st))"

lemma buffered_le [simp]:
  "buffered (ar_interrupt p st) = 0" "buffered (complete_entry q st) = buffered st"
  "buffered (remove_pending i st) = buffered st" "buffered (ended q f st) = buffered st"
  "buffered (goto q ph st) = buffered st" "buffered (idle_check st) = buffered st" "buffered (purge env st) = buffered st"
  by (simp_all add: buffered_def ar_interrupt_def pb_interrupt_def complete_entry_def remove_pending_def ended_def goto_def
      idle_check_def purge_def Let_def)

lemma buffered_clear: "buffered (clear_grounded_pcm q st) \<le> buffered st"
  by (simp add: clear_grounded_pcm_def buffered_def split: option.split)

lemma buffered_invalidate: "buffered (invalidate_grounded g st) \<le> buffered st"
  by (simp add: invalidate_grounded_def Let_def buffered_def clear_grounded_pcm_def split: worker.split option.split)

lemma buffered_claim [simp]: "buffered (claim_entry env q st) = buffered st"
  by (simp add: claim_entry_def Let_def) (simp add: buffered_def remove_pending_def)

lemma buffered_finish: "buffered (finish q st) \<le> buffered st"
  using buffered_clear[of q st] by (simp add: finish_def Let_def buffered_def complete_entry_def)

lemma buffered_leave [simp]: "buffered (leave_loop env st) = buffered st"
  by (simp add: leave_loop_def Let_def idle_check_def buffered_def)

lemma buffered_loop [simp]: "buffered (loop_turn env st) = buffered st"
  by (simp add: loop_turn_def Let_def split: option.split)

lemma buffered_drain [simp]: "buffered (drain_loop env q st) = buffered st"
  by (simp add: drain_loop_def) (simp add: buffered_def)

lemma buffered_speak [simp]:
  "buffered (speak_start env q st) = buffered st" "buffered (drain_resume env q st) = buffered st"
  "buffered (transcript_resume env q st) = buffered st"
  by (simp_all add: speak_start_def drain_resume_def transcript_resume_def) (simp_all add: buffered_def remove_pending_def)

lemma buffered_after: "buffered (after_chunks env q st) \<le> buffered st"
  by (simp add: after_chunks_def buffered_invalidate split: option.split)

lemma buffered_put_loop:
  "buffered (put_loop env q chunk st) \<le> buffered st \<or>
   current env st q \<and> buffered st \<le> 48000 \<and> pcm (ar_pb (put_loop env q chunk st)) = pcm (ar_pb st) @ chunk
     \<and> ar_sent (put_loop env q chunk st) = ar_sent st + length chunk"
  by (auto simp: put_loop_def buffered_def goto_def pb_put_def current_def split: prod.split)

lemma current_generated [simp]: "current env (st\<lparr>ar_generated := n\<rparr>) q = current env st q"
  by (simp add: current_def version_of_def)

lemma buffered_take_chunk:
  "buffered (take_chunk env q chunk st) \<le> buffered st \<or>
   current env st q \<and> buffered st \<le> 48000 \<and> pcm (ar_pb (take_chunk env q chunk st)) = pcm (ar_pb st) @ chunk
     \<and> ar_sent (take_chunk env q chunk st) = ar_sent st + length chunk"
  using buffered_put_loop[of env q chunk "st\<lparr>ar_generated := ar_generated st + length chunk\<rparr>"]
    buffered_after[of env q "st\<lparr>ar_generated := ar_generated st + length chunk\<rparr>"]
  by (auto simp: take_chunk_def Let_def buffered_def)

lemma worker_put:
  assumes "buffered st < buffered (worker_step env inp st)"
  obtains q ph chunk where "ar_worker st = WSpeak q ph False" "ph = PChunks \<and> inp = IChunk chunk \<or> ph = PThrottle chunk"
    "current env st q" "buffered st \<le> 48000" "pcm (ar_pb (worker_step env inp st)) = pcm (ar_pb st) @ chunk"
    "ar_sent (worker_step env inp st) = ar_sent st + length chunk"
proof (cases "ar_worker st")
  case WWait
  then show thesis using assms by (simp add: worker_step_def split: if_splits) (simp_all add: buffered_def)
next
  case (WSpeak q ph c)
  show thesis
  proof (cases "running ph \<and> \<not> c")
    case False
    have "buffered (worker_step env inp st) \<le> buffered st"
      using False buffered_finish[of q st]
      by (auto simp: worker_step_def WSpeak) (simp_all add: buffered_def goto_def)
    then show thesis using assms by simp
  next
    case True
    show thesis
    proof (cases ph)
      case PChunks
      show thesis
      proof (cases inp)
        case (IChunk chunk)
        then show thesis
          using True assms buffered_take_chunk[of env q chunk st] that[of q ph chunk] PChunks
          by (simp add: worker_step_def WSpeak)
      qed (use True assms buffered_after[of env q st] PChunks in \<open>simp_all add: worker_step_def WSpeak\<close>)
    next
      case (PThrottle chunk)
      then show thesis
        using True assms buffered_put_loop[of env q chunk st] that[of q ph chunk]
        by (simp add: worker_step_def WSpeak split: if_splits)
    qed (use True assms buffered_after[of env q st] in \<open>auto simp: worker_step_def WSpeak split: if_splits\<close>)
  qed
next
  case WOverflow
  then show thesis using assms by (simp add: worker_step_def)
next
  case WStopped
  then show thesis using assms by (simp add: worker_step_def)
qed

lemma buffered_read: "length (pcm (snd (pb_read allow sz b))) \<le> length (pcm b)"
  by (auto simp: pb_read_def Let_def pb_drain_check_def pb_interrupt_def split: option.split)

lemma only_worker_puts:
  assumes "buffered st < buffered (ar_do c st)"
  shows "\<exists>env inp. c = CWorker env inp"
  using assms buffered_read[of _ _ "ar_pb st"] buffered_invalidate[of _ st]
  by (cases c) (auto simp: publish_guarded_def publish_deferred_def publish_control_def ar_close_def not_less buffered_def
      ar_interrupt_def pb_interrupt_def Let_def leD split: if_splits dest: leD)

section \<open>An interruption silences what came before\<close>

definition silenced :: "nat \<Rightarrow> nat set \<Rightarrow> ('d, 'v) arbiter \<Rightarrow> bool" where
  "silenced n kept st \<longleftrightarrow> n \<le> ar_next st \<and> (\<forall>q\<in>set (ar_pending st). n \<le> q_id q \<or> q_id q \<in> kept)
     \<and> (case ar_worker st of WSpeak q ph c \<Rightarrow> running ph \<longrightarrow> \<not> c \<longrightarrow> n \<le> q_id q \<or> q_id q \<in> kept | _ \<Rightarrow> True)"

text \<open>What an interruption for input keeps: the deferred entries whose speech has not started.\<close>

definition kept_ids :: "bool \<Rightarrow> ('d, 'v) arbiter \<Rightarrow> nat set" where
  "kept_ids preserve st = {i. \<exists>q\<in>set (ar_pending st). q_id q = i \<and> preserve \<and> q_disposition q = Deferred \<and> \<not> q_started q}"

lemma silenced_interrupt: "silenced (ar_next st) (kept_ids preserve st) (ar_interrupt preserve st)"
  by (cases "ar_worker st") (auto simp: silenced_def ar_interrupt_def kept_ids_def Let_def)

lemma silenced_publish: "silenced n K st \<Longrightarrow> silenced n K (snd (publish env ev v d g st))"
  by (auto simp: silenced_def publish_def Let_def complete_entry_def insert_pending_def remove_pending_def
      split: option.split)

lemma silenced_submit: "silenced n K st \<Longrightarrow> silenced n K (snd (submit env x v d g st))"
  by (simp add: submit_alt silenced_publish split: option.split)

lemma silenced_shrink:
  assumes "silenced n K st" "set (ar_pending st') \<subseteq> set (ar_pending st)" "ar_next st' = ar_next st"
    and "\<And>q ph. ar_worker st' = WSpeak q ph False \<Longrightarrow> running ph \<Longrightarrow>
       (\<exists>q0 ph0. ar_worker st = WSpeak q0 ph0 False \<and> running ph0 \<and> q_id q0 = q_id q) \<or> q_id q \<in> q_id ` set (ar_pending st)"
  shows "silenced n K st'"
proof (cases "ar_worker st'")
  case (WSpeak q ph c)
  show ?thesis
  proof (cases "running ph \<and> \<not> c")
    case True
    then have "n \<le> q_id q \<or> q_id q \<in> K" using assms(1) assms(4)[of q ph] WSpeak by (auto simp: silenced_def)
    then show ?thesis using assms(1-3) WSpeak by (auto simp: silenced_def)
  qed (use assms(1-3) WSpeak in \<open>auto simp: silenced_def\<close>)
qed (use assms(1-3) in \<open>auto simp: silenced_def\<close>)

text \<open>What a step of the worker leaves of the queue, and who is on air afterwards.\<close>

definition successor :: "('d, 'v) arbiter \<Rightarrow> ('d, 'v) arbiter \<Rightarrow> bool" where
  "successor st st' \<longleftrightarrow> set (ar_pending st') \<subseteq> set (ar_pending st) \<and> ar_next st' = ar_next st
     \<and> (\<forall>q ph. ar_worker st' = WSpeak q ph False \<longrightarrow> running ph \<longrightarrow>
          q_id q \<in> on_air (ar_worker st) \<or> q_id q \<in> q_id ` set (ar_pending st))"

lemma successor_invalidate:
  "set (ar_pending (invalidate_grounded g st)) \<subseteq> set (ar_pending st)" "ar_next (invalidate_grounded g st) = ar_next st"
  by (auto simp: invalidate_grounded_def Let_def split: worker.split)

lemma successor_finish: "ar_pending (finish q st) = ar_pending st" "ar_next (finish q st) = ar_next st"
  by (simp_all add: finish_def Let_def complete_entry_def)

lemma successor_idle [simp]: "ar_pending (idle_check st) = ar_pending st" "ar_next (idle_check st) = ar_next st"
  "ar_worker (idle_check st) \<noteq> WSpeak q ph c"
  by (simp_all add: idle_check_def)

lemma successor_leave [simp]: "ar_pending (leave_loop env st) = ar_pending st" "ar_next (leave_loop env st) = ar_next st"
  "ar_worker (leave_loop env st) \<noteq> WSpeak q ph c"
  by (simp_all add: leave_loop_def Let_def)

lemma successor_loop: "ar_worker st = WWait \<Longrightarrow> successor st (loop_turn env st)"
  by (auto simp: successor_def loop_turn_def Let_def purge_def goto_def split: option.split dest!: find_SomeD)

lemma successor_speak:
  assumes "ar_worker st = WSpeak q ph c"
  shows "successor st (claim_entry env q st)" "successor st (drain_loop env q st)" "successor st (speak_start env q st)"
    "successor st (drain_resume env q st)" "successor st (transcript_resume env q st)" "successor st (after_chunks env q st)"
    "successor st (put_loop env q chunk st)" "successor st (take_chunk env q chunk st)" "successor st (ended q f st)"
proof -
  have c: "successor st (claim_entry env q st')" if "ar_pending st' = ar_pending st" "ar_next st' = ar_next st" for st'
    using that assms by (auto simp: successor_def claim_entry_def Let_def goto_def ended_def remove_pending_def)
  show e: "successor st (ended q f st)" for f using assms by (simp add: successor_def ended_def)
  have g: "successor st (goto q ph' st')" if "ar_pending st' = ar_pending st" "ar_next st' = ar_next st" for st' ph'
    using that assms by (simp add: successor_def goto_def)
  show "successor st (claim_entry env q st)" by (rule c) simp_all
  show d: "successor st (drain_loop env q st)" using c g e by (simp add: drain_loop_def)
  show "successor st (speak_start env q st)"
    using c[OF refl refl] d e assms
    by (auto simp: speak_start_def) (auto simp: successor_def ended_def complete_entry_def remove_pending_def)
  show "successor st (drain_resume env q st)" using d e by (simp add: drain_resume_def)
  show "successor st (transcript_resume env q st)"
    using g e assms by (auto simp: transcript_resume_def) (simp add: successor_def ended_def)
  have a: "successor st (after_chunks env q st')" if "ar_pending st' = ar_pending st" "ar_next st' = ar_next st" for st'
    using that g successor_invalidate[of _ st'] assms
    by (auto simp: after_chunks_def split: option.split) (auto simp: successor_def ended_def)
  show "successor st (after_chunks env q st)" by (rule a) simp_all
  have p: "successor st (put_loop env q chunk st')" if "ar_pending st' = ar_pending st" "ar_next st' = ar_next st" for st'
    using that g by (simp add: put_loop_def Let_def split: prod.split)
  show "successor st (put_loop env q chunk st)" by (rule p) simp_all
  show "successor st (take_chunk env q chunk st)"
    unfolding take_chunk_def Let_def using a p by simp
qed

lemma successor_silenced:
  assumes "silenced n K st" "successor st st'" "\<And>q ph c. ar_worker st = WSpeak q ph c \<Longrightarrow> running ph \<and> \<not> c"
  shows "silenced n K st'"
  using assms(2) by (intro silenced_shrink[OF assms(1)])
    (use assms(3) in \<open>auto simp: successor_def on_air_def split: worker.splits\<close>)

lemma silenced_worker:
  assumes "silenced n K st" shows "silenced n K (worker_step env inp st)"
proof (cases "ar_worker st")
  case WWait
  have "silenced n K (loop_turn env (st\<lparr>ar_wake := False\<rparr>))"
    by (rule successor_silenced[OF _ successor_loop]) (use assms WWait in \<open>auto simp: silenced_def\<close>)
  moreover have "silenced n K (idle_check st)"
    by (rule silenced_shrink[OF assms]) auto
  ultimately show ?thesis using WWait assms by (simp add: worker_step_def)
next
  case (WSpeak q ph c)
  note s = successor_speak[OF WSpeak]
  show ?thesis
  proof (cases "running ph \<and> \<not> c")
    case True
    have "successor st (worker_step env inp st)"
      using True s assms by (auto simp: worker_step_def WSpeak split: phase.split resume.split) (auto simp: successor_def WSpeak)
    then show ?thesis by (rule successor_silenced[OF assms]) (use True WSpeak in auto)
  next
    case False
    have f: "silenced n K (finish q st)"
      by (rule silenced_shrink[OF assms]) (auto simp: successor_finish)
    have "silenced n K (loop_turn env (finish q st))"
      by (rule successor_silenced[OF f successor_loop]) auto
    moreover have "silenced n K (idle_check (finish q st))"
      by (rule silenced_shrink[OF f]) auto
    moreover have "silenced n K (ended q False st)"
      by (rule silenced_shrink[OF assms]) (auto simp: ended_def)
    moreover have "silenced n K (goto q PErrorTranscript (st\<lparr>ar_audio_failed := True, ar_transcripts := x\<rparr>))" for x
      by (rule silenced_shrink[OF assms]) (auto simp: goto_def)
    ultimately show ?thesis using False by (auto simp: worker_step_def WSpeak)
  qed
next
  case WOverflow
  have "silenced n K (idle_check st)" by (rule silenced_shrink[OF assms]) auto
  then show ?thesis using WOverflow by (simp add: worker_step_def)
next
  case WStopped
  then show ?thesis using assms by (simp add: worker_step_def)
qed

lemma silenced_do: "silenced n K st \<Longrightarrow> silenced n K (ar_do c st)"
proof (cases c)
  case (CInvalidate g)
  assume a: "silenced n K st"
  show ?thesis
    unfolding CInvalidate ar_do.simps
    by (rule silenced_shrink[OF a]) (use successor_invalidate[of g st] in \<open>auto simp: invalidate_grounded_def Let_def split: worker.splits if_splits\<close>)
next
  case (CInterrupt p)
  assume a: "silenced n K st"
  show ?thesis
    unfolding CInterrupt ar_do.simps
    by (rule silenced_shrink[OF a]; cases "ar_worker st") (auto simp: ar_interrupt_def Let_def)
next
  case CClose
  assume a: "silenced n K st"
  show ?thesis
    unfolding CClose ar_do.simps
    by (rule silenced_shrink[OF a]; cases "ar_worker st") (auto simp: ar_close_def ar_interrupt_def Let_def split: if_splits)
qed (auto simp: publish_guarded_def publish_deferred_def publish_control_def silenced_submit silenced_worker
      elim!: silenced_shrink)

interpretation silencing: component ar_do "silenced n K" for n K
  by unfold_locales (rule silenced_do)

section \<open>The playback generation fences the arbiter\<close>

lemma epoch_basic [simp]:
  "ar_pb (complete_entry q st) = ar_pb st" "ar_pb (remove_pending i st) = ar_pb st" "ar_pb (ended q f st) = ar_pb st"
  "ar_pb (goto q ph st) = ar_pb st" "ar_pb (idle_check st) = ar_pb st" "ar_pb (claim_entry env q st) = ar_pb st"
  "ar_pb (leave_loop env st) = ar_pb st" "ar_pb (purge env st) = ar_pb st"
  by (simp_all add: complete_entry_def remove_pending_def ended_def goto_def idle_check_def claim_entry_def leave_loop_def
      purge_def Let_def)

lemma epoch_clear [simp]:
  "generation (ar_pb (clear_grounded_pcm q st)) = generation (ar_pb st)"
  "generation (ar_pb (invalidate_grounded g st)) = generation (ar_pb st)"
  by (simp_all add: clear_grounded_pcm_def invalidate_grounded_def Let_def split: option.split worker.split)

lemma epoch_speak [simp]:
  "ar_pb (loop_turn env st) = ar_pb st" "ar_pb (drain_loop env q st) = ar_pb st"
  "generation (ar_pb (finish q st)) = generation (ar_pb st)"
  "generation (ar_pb (after_chunks env q st)) = generation (ar_pb st)"
  by (simp_all add: loop_turn_def drain_loop_def finish_def after_chunks_def Let_def split: option.split)

lemma epoch_put [simp]:
  "ar_pb (speak_start env q st) = ar_pb st" "ar_pb (drain_resume env q st) = ar_pb st"
  "ar_pb (transcript_resume env q st) = ar_pb st"
  "generation (ar_pb (put_loop env q chunk st)) = generation (ar_pb st)"
  "generation (ar_pb (take_chunk env q chunk st)) = generation (ar_pb st)"
  by (auto simp: speak_start_def drain_resume_def transcript_resume_def put_loop_def take_chunk_def pb_put_def Let_def
      split: option.split)

lemma epoch_worker: "generation (ar_pb (worker_step env inp st)) = generation (ar_pb st)"
  by (auto simp: worker_step_def split: worker.split phase.split resume.split)

lemma epoch_do: "generation (ar_pb st) \<le> generation (ar_pb (ar_do c st))"
proof (cases c)
  case (CRead sz allow)
  then show ?thesis using fence.step_epoch[of "ar_pb st" "PbRead sz allow"] by simp
qed (auto simp: publish_guarded_def publish_deferred_def publish_control_def epoch_worker ar_interrupt_def pb_interrupt_def
      ar_close_def Let_def)

interpretation speech: fenced ar_do "\<lambda>st. generation (ar_pb st)" "ar_interrupt p"
    "\<lambda>x n st. map_prod id (\<lambda>b. st\<lparr>ar_pb := b\<rparr>) (pb_put (fst x) n (snd x) (ar_pb st))" for p
  by unfold_locales (auto simp: epoch_do ar_interrupt_def pb_interrupt_def pb_put_def Let_def)

lemma stale_speech_refused:
  assumes "g \<le> generation (ar_pb st0)" and "st = ar_calls cs (ar_interrupt p (ar_calls cs0 st0))"
  shows "fst (pb_put chunk g drain (ar_pb st)) = False"
  using speech.refused_after_cut[OF assms(1), where x = "(chunk, drain)" and cs = cs and p = p and bs = cs0] unfolding assms(2) ar_calls_def
  by (metis fst_conv fst_map_prod id_apply snd_conv)

section \<open>A concrete conversation\<close>

definition demo_env :: "unit env" where
  "demo_env = \<lparr>e_live = True, e_ok = (\<lambda>_. True), e_input = True, e_control = True\<rparr>"

definition demo_output :: pyval where
  "demo_output = VDict [(lit ''kind'', VStr (lit ''local_reply'')), (lit ''task_id'', VStr []), (lit ''operation_id'', VStr []),
     (lit ''utterance_id'', VStr (lit ''u'')), (lit ''context_version'', VInt 0), (lit ''text'', VStr (lit ''Hallo'')),
     (lit ''priority'', VInt 5)]"

definition demo_spoken :: spoken_event where
  "demo_spoken = \<lparr>oe_kind = lit ''local_reply'', oe_task = [], oe_operation = [], oe_utterance = lit ''u'',
     oe_text = lit ''Hallo'', oe_version = 0, oe_priority = 5\<rparr>"

lemma demo_validated: "validate_event demo_output = Some demo_spoken"
  by (simp add: validate_event_def demo_output_def demo_spoken_def has_keys_def output_fields_def output_kinds_def
      get_item_def insert_commute)

definition demo_talk :: "(unit, unit) ar_call list" where
  "demo_talk = [CGuarded demo_env demo_output () (Some (lit ''g'')), CWorker demo_env ITick, CWorker demo_env ITick, CWorker demo_env ITick]"

definition demo_quiet :: "(unit, unit) arbiter" where
  "demo_quiet = new_arbiter new_playback"

definition demo_talking :: "(unit, unit) arbiter" where
  "demo_talking = ar_calls demo_talk (ar_interrupt False demo_quiet)"

lemmas worker_eval = worker_step_def loop_turn_def purge_def leave_loop_def goto_def ended_def speak_start_def is_pending_def
  may_speak_def ready_def drain_loop_def claim_entry_def remove_pending_def current_def transcript_resume_def take_chunk_def
  put_loop_def valid_def version_of_def priority_of_def

lemma demo_talking_eval:
  "ar_worker demo_talking = WSpeak \<lparr>q_id = 0, q_event = demo_spoken, q_generation = Some 1, q_validity = Some (),
      q_disposition = Transient, q_started = True, q_grounded = Some (lit ''g''), q_invalidated = False\<rparr> PChunks False"
  "pcm (ar_pb demo_talking) = []" "generation (ar_pb demo_talking) = 1" "ar_closed demo_talking = False"
  "ar_versions demo_talking = Map.empty" "ar_sent demo_talking = 0" "ar_pending demo_talking = []"
  by (simp_all add: demo_talking_def ar_calls_def demo_talk_def demo_quiet_def new_arbiter_def new_playback_def ar_interrupt_def
      pb_interrupt_def publish_guarded_def submit_def demo_validated publish_def insert_pending_def demo_env_def demo_spoken_def
      worker_eval Let_def split: option.split)

lemma demo_chunk:
  "pcm (ar_pb (ar_do (CWorker demo_env (IChunk [1, 2])) demo_talking)) = [1, 2]"
  by (simp add: worker_step_def take_chunk_def put_loop_def demo_talking_eval current_def valid_def ready_def version_of_def
      demo_env_def demo_spoken_def pb_put_def goto_def Let_def)

section \<open>Properties\<close>

text \<open>Whatever producers, interruptions, closing and the audio pipeline do and in whatever order, at most
  eight entries wait to be spoken, they wait in priority order and each once, an entry is either waiting
  or has been claimed, and the bytes counted as sent never exceed the bytes synthesised.\<close>

theorem output_queue_bounded:
  "let st = ar_calls cs (new_arbiter b) in
    length (ar_pending st) \<le> 8 \<and> sorted (map priority_of (ar_pending st)) \<and> distinct (map q_id (ar_pending st))
    \<and> list_all (\<lambda>q. \<not> q_started q \<and> \<not> q_invalidated q) (ar_pending st) \<and> ar_sent st \<le> ar_generated st"
proof -
  have ok: "arb_ok (ar_calls cs (new_arbiter b))" by (rule ar_calls_ok[OF new_arbiter_ok])
  show ?thesis
    using arb_okD(1-4,10)[OF ok] by (auto simp: list_all_iff waiting_ok_def Let_def)
qed

text \<open>No producer waits for ever: every entry ever created has its completion set, is still queued or is
  the one being spoken; when the arbiter reports that it is idle nothing is queued or spoken, so all of them
  are completed.\<close>

theorem idle_means_all_completed:
  assumes "st = ar_calls cs (new_arbiter b)" and "ar_idle st"
  shows "{..<ar_next st} \<subseteq> set (ar_completed st) \<and> ar_pending st = [] \<and> active_entry (ar_worker st) = None"
proof -
  have ok: "arb_ok st" unfolding assms(1) by (rule ar_calls_ok[OF new_arbiter_ok])
  show ?thesis using arb_okD(5,6)[OF ok] assms(2) by (auto simp: active_entry_None)
qed

theorem idle_means_all_completed_witness:
  "ar_completed (ar_calls [CPublish (demo_env\<lparr>e_live := False\<rparr>) demo_output] demo_quiet) = [0]
   \<and> {..<1} \<subseteq> set (ar_completed (ar_calls [CPublish (demo_env\<lparr>e_live := False\<rparr>) demo_output] demo_quiet))"
proof -
  let ?st = "ar_calls [CPublish (demo_env\<lparr>e_live := False\<rparr>) demo_output] demo_quiet"
  have st: "ar_idle ?st" "ar_next ?st = 1" "ar_completed ?st = [0]"
    by (simp_all add: ar_calls_def submit_def demo_validated publish_def complete_entry_def demo_quiet_def new_arbiter_def
        demo_env_def Let_def)
  have "{..<ar_next ?st} \<subseteq> set (ar_completed ?st)"
    using idle_means_all_completed[OF _ st(1), of _ new_playback] unfolding demo_quiet_def by blast
  then show ?thesis using st by simp
qed

text \<open>Closing terminates: from any state the arbiter can be in, after \<open>close\<close> the worker has ended after at most
  two of its steps, whatever they bring, nothing is queued, and every entry ever created is completed.\<close>

theorem close_ends_the_worker:
  "let st = worker_step env2 inp2 (worker_step env1 inp1 (ar_close (ar_calls cs (new_arbiter b)))) in
    ar_worker st = WStopped \<and> ar_pending st = [] \<and> {..<ar_next st} \<subseteq> set (ar_completed st)"
proof -
  let ?c = "ar_close (ar_calls cs (new_arbiter b))"
  let ?st = "worker_step env2 inp2 (worker_step env1 inp1 ?c)"
  have c: "closing_ok ?c" "ar_closed ?c"
    using closing_ok_do[of "ar_calls cs (new_arbiter b)" CClose] closing.run_inv[of "new_arbiter b" cs]
    by (auto simp: closing_ok_def new_arbiter_def ar_close_def ar_interrupt_def ar_calls_def Let_def)
  have w: "ar_worker ?st = WStopped" by (rule closed_two_steps[OF c])
  have ok: "arb_ok ?st"
    by (intro worker_step_ok ar_close_ok ar_calls_ok new_arbiter_ok)
  show ?thesis
    using w arb_okD(6,8,9)[OF ok] by (simp add: Let_def)
qed

text \<open>C17. Fenced audio: the only call that ever adds bytes to the playback buffer is a step of the worker that
  speaks a claimed, uncancelled entry which at that moment is current: not withdrawn, of the playback
  generation of the buffer, not older than the newest context version published for its task, still valid for
  its producer, on a live and open arbiter; it appends exactly one chunk, counts it as sent, and at most
  48000 bytes were waiting.\<close>

theorem only_current_speech_is_buffered:
  assumes "st = ar_calls cs (new_arbiter b)"
    and "length (pcm (ar_pb st)) < length (pcm (ar_pb (ar_do c st)))"
  shows "\<exists>env inp q ph chunk. c = CWorker env inp \<and> ar_worker st = WSpeak q ph False \<and> q_started q
    \<and> \<not> q_invalidated q \<and> q_generation q = Some (generation (ar_pb st))
    \<and> version_of st (oe_task (q_event q)) \<le> oe_version (q_event q)
    \<and> valid env (q_validity q) \<and> ready env q \<and> e_live env \<and> \<not> ar_closed st
    \<and> pcm (ar_pb (ar_do c st)) = pcm (ar_pb st) @ chunk \<and> ar_sent (ar_do c st) = ar_sent st + length chunk
    \<and> length (pcm (ar_pb st)) \<le> 48000"
proof -
  have ok: "arb_ok st" unfolding assms(1) by (rule ar_calls_ok[OF new_arbiter_ok])
  have b: "buffered st < buffered (ar_do c st)" using assms(2) by (simp add: buffered_def)
  obtain env inp where c: "c = CWorker env inp" using only_worker_puts[OF b] by blast
  obtain q ph chunk where q: "ar_worker st = WSpeak q ph False" "ph = PChunks \<and> inp = IChunk chunk \<or> ph = PThrottle chunk"
    "current env st q" "buffered st \<le> 48000" "pcm (ar_pb (worker_step env inp st)) = pcm (ar_pb st) @ chunk"
    "ar_sent (worker_step env inp st) = ar_sent st + length chunk"
    by (rule worker_put[of st env inp]) (use b c in auto)
  have "q_started q" using arb_okD(11)[OF ok] q(1,2) by (auto simp: speaker_ok_def)
  then show ?thesis
    using q c by (intro exI[of _ env] exI[of _ inp] exI[of _ q] exI[of _ ph] exI[of _ chunk]) (simp add: current_def buffered_def)
qed

theorem only_current_speech_is_buffered_witness:
  "\<exists>q. ar_worker demo_talking = WSpeak q PChunks False \<and> q_generation q = Some (generation (ar_pb demo_talking))"
proof -
  have st: "demo_talking = ar_calls (CInterrupt False # demo_talk) (new_arbiter new_playback)"
    by (simp add: demo_talking_def demo_quiet_def ar_calls_def)
  show ?thesis
    using only_current_speech_is_buffered[OF st, of "CWorker demo_env (IChunk [1, 2])"] demo_chunk
    by (auto simp: demo_talking_eval(1,2))
qed

text \<open>C18. Barge-in: an interruption empties the buffer and moves the playback generation, and from then on, however the
  rest of the history goes, only two kinds of entries can ever add audio to the buffer: those published after it and,
  if it preserves deferred output as an interruption for input does, deferred entries that were queued before it and
  whose speech had not started. An interruption that does not preserve them silences everything older.\<close>

theorem interruption_silences_the_past:
  assumes "st0 = ar_calls cs0 (new_arbiter b)" and "st = ar_calls cs (ar_interrupt preserve st0)"
    and "length (pcm (ar_pb st)) < length (pcm (ar_pb (ar_do c st)))"
  shows "pcm (ar_pb (ar_interrupt preserve st0)) = [] \<and> generation (ar_pb (ar_interrupt preserve st0)) = Suc (generation (ar_pb st0))
    \<and> (\<exists>q ph. ar_worker st = WSpeak q ph False
       \<and> (ar_next st0 \<le> q_id q
         \<or> preserve \<and> (\<exists>old\<in>set (ar_pending st0). q_id old = q_id q \<and> q_disposition old = Deferred \<and> \<not> q_started old)))"
proof -
  have b: "buffered st < buffered (ar_do c st)" using assms(3) by (simp add: buffered_def)
  obtain env inp where c: "c = CWorker env inp" using only_worker_puts[OF b] by blast
  obtain q ph chunk where q: "ar_worker st = WSpeak q ph False" "ph = PChunks \<and> inp = IChunk chunk \<or> ph = PThrottle chunk"
    by (rule worker_put[of st env inp]) (use b c in auto)
  have "silenced (ar_next st0) (kept_ids preserve st0) st"
    unfolding assms(2) ar_calls_def by (rule silencing.run_inv[OF silenced_interrupt])
  then have "ar_next st0 \<le> q_id q \<or> q_id q \<in> kept_ids preserve st0" using q by (auto simp: silenced_def)
  then show ?thesis using q(1) by (auto simp: kept_ids_def ar_interrupt_def Let_def pb_interrupt_def)
qed

theorem interruption_silences_the_past_witness:
  "\<exists>q ph. ar_worker demo_talking = WSpeak q ph False \<and> ar_next demo_quiet \<le> q_id q"
proof -
  have st0: "demo_quiet = ar_calls [] (new_arbiter new_playback)" by (simp add: demo_quiet_def ar_calls_def)
  show ?thesis
    using interruption_silences_the_past[OF st0 demo_talking_def, of "CWorker demo_env (IChunk [1, 2])"] demo_chunk
    by (simp add: demo_talking_eval(2))
qed

text \<open>Withdrawing a grounded answer removes exactly the queued entries of that answer, completes them, and
  never moves the playback generation; buffered audio disappears only when that answer itself owns the
  buffer, so audio of a newer or unrelated answer is kept.\<close>

theorem withdrawal_spares_others:
  "generation (ar_pb (invalidate_grounded g st)) = generation (ar_pb st)
   \<and> ar_pending (invalidate_grounded g st) = filter (\<lambda>q. q_grounded q \<noteq> Some g) (ar_pending st)
   \<and> set (map q_id (filter (\<lambda>q. q_grounded q = Some g) (ar_pending st))) \<subseteq> set (ar_completed (invalidate_grounded g st))
   \<and> (pcm (ar_pb (invalidate_grounded g st)) = pcm (ar_pb st) \<or> ar_owner st = Some (g, Some (generation (ar_pb st))))
   \<and> ar_versions (invalidate_grounded g st) = ar_versions st"
  by (cases "ar_worker st") (auto simp: invalidate_grounded_def Let_def clear_grounded_pcm_def split: option.split)

end
