(* ===== verification/SecretCapture.thy ===== *)
theory SecretCapture
  imports Bytes
begin

text \<open>
  \<open>Capture\<close> of \<open>scripts/gufo_control/finite_transport.py\<close>: the raw response is written to an evidence file
  while it arrives, with the API key masked even when it is split across chunks, and at most up to the wire
  allowance. Shown here: the file is exactly what masking the whole response at once would give, it never
  contains the key, and it has exactly the length of the captured part.
\<close>

section \<open>The capture\<close>

record capture =
  cp_secret :: "nat list"
  cp_limit :: nat
  cp_file :: "nat list"
  cp_pending :: "nat list"
  cp_count :: nat

definition new_capture :: "nat list \<Rightarrow> nat \<Rightarrow> capture option" where
  "new_capture secret limit =
     (if secret = [] \<or> 4096 < length secret then None
      else Some \<lparr>cp_secret = secret, cp_limit = limit, cp_file = [], cp_pending = [], cp_count = 0\<rparr>)"

abbreviation star :: nat where "star \<equiv> 42"

definition cp_mask :: "nat list \<Rightarrow> nat list" where
  "cp_mask secret = replicate (length secret) star"

text \<open>The loop that masks a partial key at the end of the captured part.\<close>

fun mask_tail :: "nat \<Rightarrow> nat list \<Rightarrow> nat list \<Rightarrow> nat list" where
  "mask_tail 0 secret p = p"
| "mask_tail (Suc n) secret p =
     (if suffix (take (Suc n) secret) p then take (length p - Suc n) p @ replicate (Suc n) star
      else mask_tail n secret p)"

definition cp_feed :: "nat list \<Rightarrow> capture \<Rightarrow> bool \<times> capture" where
  "cp_feed data c =
     (let capacity = cp_limit c - cp_count c;
          n = cp_count c + length data;
          combined = replace_all (cp_secret c) (cp_mask (cp_secret c)) (cp_pending c @ take capacity data);
          keep = min (length combined) (length (cp_secret c) - 1);
          written = take (length combined - keep) combined;
          rest = drop (length combined - keep) combined;
          c' = c\<lparr>cp_count := n, cp_file := cp_file c @ written, cp_pending := rest\<rparr>
      in if cp_limit c < n
         then (False, c'\<lparr>cp_pending := mask_tail (length (cp_secret c) - 1) (cp_secret c) rest\<rparr>)
         else (True, c'))"

definition cp_close :: "capture \<Rightarrow> capture" where
  "cp_close c = c\<lparr>cp_file := cp_file c @ cp_pending c, cp_pending := []\<rparr>"

definition cp_feeds :: "nat list list \<Rightarrow> capture \<Rightarrow> capture" where
  "cp_feeds ds c = fold (\<lambda>d c. snd (cp_feed d c)) ds c"

section \<open>Masking\<close>

abbreviation masked :: "nat list \<Rightarrow> nat list \<Rightarrow> nat list" where
  "masked s xs \<equiv> replace_all s (cp_mask s) xs"

lemma length_mask [simp]: "length (cp_mask s) = length s"
  by (simp add: cp_mask_def)

lemma masked_induct [consumes 1, case_names nil hit miss]:
  assumes "s \<noteq> []"
    and "P []" "\<And>r. P r \<Longrightarrow> P (s @ r)" "\<And>x r. \<not> prefix s (x # r) \<Longrightarrow> P r \<Longrightarrow> P (x # r)"
  shows "P xs"
proof (induction xs rule: length_induct)
  case (1 xs)
  show ?case
  proof (cases "prefix s xs")
    case True
    then obtain r where "xs = s @ r" by (auto simp: prefix_def)
    then show ?thesis using 1 assms(1,3) by simp
  next
    case False
    then show ?thesis using 1 assms(2,4) by (cases xs) auto
  qed
qed

lemma length_masked:
  assumes s: "s \<noteq> []" shows "length (masked s xs) = length xs"
  using s by (induction xs rule: masked_induct) (simp_all add: replace_all_hit[OF s] replace_all_miss)

lemma masked_hit: "s \<noteq> [] \<Longrightarrow> masked s (s @ r) = replicate (length s) star @ masked s r"
  by (simp add: replace_all_hit) (simp add: cp_mask_def)

lemma prefix_masked:
  assumes s: "s \<noteq> []" and t: "star \<notin> set t" shows "prefix t (masked s xs) \<Longrightarrow> prefix t xs"
  using s t
proof (induction xs arbitrary: t rule: masked_induct)
  case (hit r)
  have "replicate (length s) star = star # replicate (length s - 1) star"
    using s by (cases s) simp_all
  then show ?case using hit.prems by (cases t) (simp_all add: masked_hit[OF s])
next
  case (miss x r)
  then show ?case by (cases t) (auto simp: replace_all_miss)
qed simp

lemma sublist_skip_stars:
  assumes "sublist s (replicate n star @ xs)" "star \<notin> set s" "s \<noteq> []"
  shows "sublist s xs"
  using assms by (induction n) (auto simp: sublist_Cons_right Cons_prefix_Cons prefix_Cons)

lemma masked_hides:
  assumes s: "s \<noteq> []" "star \<notin> set s" shows "\<not> sublist s (masked s xs)"
  using s(1)
proof (induction xs rule: masked_induct)
  case nil
  then show ?case using s by simp
next
  case (hit r)
  then show ?case using sublist_skip_stars[of s "length s" "masked s r"] s by (auto simp: replace_all_hit cp_mask_def)
next
  case (miss x r)
  have "\<not> prefix s (x # masked s r)"
  proof
    assume "prefix s (x # masked s r)"
    then have "prefix s (masked s (x # r))" by (simp add: replace_all_miss miss)
    then show False using prefix_masked[OF s, of "x # r"] miss(1) by blast
  qed
  then show ?case using miss by (simp add: replace_all_miss sublist_Cons_right)
qed

text \<open>Nothing of a short input can match.\<close>

lemma masked_short: "length xs < length s \<Longrightarrow> masked s xs = xs"
proof (induction xs)
  case (Cons x r)
  then have "\<not> prefix s (x # r)" by (auto dest: prefix_length_le)
  then show ?case using Cons by (simp add: replace_all_miss)
qed simp

lemma masked_stars:
  assumes "s \<noteq> []" "star \<notin> set s"
  shows "masked s (replicate n star @ xs) = replicate n star @ masked s xs"
proof (induction n)
  case (Suc n)
  have "\<not> prefix s (star # replicate n star @ xs)" using assms by (cases s) auto
  then show ?case using Suc by (simp add: replace_all_miss)
qed simp

text \<open>Masking as the data arrives: what was decided stays decided as long as the last \<open>length s - 1\<close> bytes are
  kept back.\<close>

lemma masked_append:
  assumes s: "s \<noteq> []" "star \<notin> set s" and k: "k + (length s - 1) \<le> length d"
  shows "masked s (d @ e) = take k (masked s d) @ masked s (drop k (masked s d) @ e)"
  using s(1) k
proof (induction d arbitrary: k rule: masked_induct)
  case nil
  then show ?case by simp
next
  case (hit r)
  show ?case
  proof (cases "length s \<le> k")
    case True
    then have "masked s (r @ e) = take (k - length s) (masked s r) @ masked s (drop (k - length s) (masked s r) @ e)"
      using hit by simp
    then show ?thesis using True s by (simp add: masked_hit)
  next
    case False
    show ?thesis
    proof (cases "length r < length s")
      case True
      have "replicate (length s) star = replicate k star @ replicate (length s - k) star"
        using False by (simp flip: replicate_add)
      then show ?thesis
        using False True s by (simp add: masked_hit masked_stars masked_short[of r] min_def)
    next
      case long: False
      have "masked s (r @ e) = masked s (masked s r @ e)"
        using hit(1)[of 0] long by simp
      moreover have "replicate (length s) star = replicate k star @ replicate (length s - k) star"
        using False by (simp flip: replicate_add)
      ultimately show ?thesis
        using False s by (simp add: masked_hit masked_stars min_def)
    qed
  qed
next
  case (miss x r)
  have np: "\<not> prefix s (x # q @ e)" if "length s \<le> length (x # q)" "\<not> prefix s (x # q)" for q
  proof
    assume "prefix s (x # q @ e)"
    moreover have "prefix (x # q) (x # q @ e)" by simp
    ultimately have "prefix s (x # q)" using that(1) by (rule prefix_length_prefix)
    then show False using that(2) by simp
  qed
  show ?case
  proof (cases "length s \<le> length (x # r)")
    case False
    then have "k = 0" using miss.prems by simp
    then show ?thesis using False by (simp add: masked_short)
  next
    case True
    have l: "masked s (x # r @ e) = x # masked s (r @ e)" by (rule replace_all_miss[OF np[OF True miss(1)]])
    show ?thesis
    proof (cases k)
      case 0
      have "\<not> prefix s (x # masked s r)"
        using prefix_masked[OF s, of "x # r"] miss(1) by (auto simp: replace_all_miss)
      then have "masked s (x # masked s r @ e) = x # masked s (masked s r @ e)"
        by (intro replace_all_miss np) (use True s in \<open>simp_all add: length_masked\<close>)
      moreover have "masked s (r @ e) = masked s (masked s r @ e)"
        using miss.IH[of 0] True by simp
      ultimately show ?thesis using 0 l miss(1) by (simp add: replace_all_miss)
    next
      case (Suc j)
      then have "masked s (r @ e) = take j (masked s r) @ masked s (drop j (masked s r) @ e)"
        using miss.IH[of j] miss.prems by simp
      then show ?thesis using Suc l miss(1) by (simp add: replace_all_miss)
    qed
  qed
qed

section \<open>The captured file\<close>

text \<open>While the limit holds: what is written plus what is kept back is the masked data, and no more than a
  partial key is kept back.\<close>

definition cp_good :: "nat list \<Rightarrow> capture \<Rightarrow> bool" where
  "cp_good d c \<longleftrightarrow> cp_file c @ cp_pending c = masked (cp_secret c) d
     \<and> length (cp_pending c) = min (length d) (length (cp_secret c) - 1)"

lemma feed_combined:
  assumes s: "cp_secret c \<noteq> []" "star \<notin> set (cp_secret c)" and g: "cp_good d c"
  shows "cp_file c @ masked (cp_secret c) (cp_pending c @ e) = masked (cp_secret c) (d @ e)"
proof -
  let ?s = "cp_secret c" and ?k = "length d - (length (cp_secret c) - 1)"
  have len: "length (cp_file c) = ?k"
  proof -
    have "length (cp_file c) + length (cp_pending c) = length d"
      using g length_masked[OF s(1), of d] unfolding cp_good_def by (metis length_append)
    then show ?thesis using g by (auto simp: cp_good_def)
  qed
  have split: "take ?k (masked ?s d) = cp_file c" "drop ?k (masked ?s d) = cp_pending c"
    using g len by (simp_all add: cp_good_def flip: len) (metis append_eq_conv_conj)+
  show ?thesis
  proof (cases "length ?s - 1 \<le> length d")
    case True
    then show ?thesis using masked_append[OF s, of ?k d e] split by simp
  next
    case False
    then have "cp_file c = []" using len by simp
    moreover have "cp_pending c = d"
      using g False calculation s(1) by (simp add: cp_good_def masked_short)
    ultimately show ?thesis by simp
  qed
qed

lemma masked_id:
  assumes "s \<noteq> []" shows "\<not> sublist s xs \<Longrightarrow> masked s xs = xs"
proof (induction xs)
  case (Cons x r)
  then have "\<not> prefix s (x # r)" by (auto simp: sublist_Cons_right)
  then show ?case using Cons by (simp add: replace_all_miss sublist_Cons_right)
qed simp

lemma sublist_before_stars:
  assumes "sublist s (xs @ replicate n star)" "star \<notin> set s" shows "sublist s xs"
proof -
  have "sublist (rev s) (replicate n star @ rev xs)"
    using assms(1) sublist_rev[of s "xs @ replicate n star"] by simp
  then have "sublist (rev s) (rev xs)"
    using sublist_skip_stars[of "rev s" n "rev xs"] assms(2) by (cases "s = []") auto
  then show ?thesis by simp
qed

lemma length_mask_tail:
  "n < length s \<Longrightarrow> length (mask_tail n s p) = length p"
proof (induction n)
  case (Suc n)
  then show ?case by (auto dest!: suffix_length_le simp: min_def)
qed simp

lemma mask_tail_hides:
  assumes "\<not> sublist s (w @ p)" "star \<notin> set s"
  shows "\<not> sublist s (w @ mask_tail n s p)"
proof (induction n)
  case (Suc n)
  have "\<not> sublist s (w @ take (length p - Suc n) p @ replicate (Suc n) star)"
  proof
    assume "sublist s (w @ take (length p - Suc n) p @ replicate (Suc n) star)"
    then have "sublist s (w @ take (length p - Suc n) p)"
      using sublist_before_stars[of s "w @ take (length p - Suc n) p" "Suc n"] assms(2) by simp
    moreover have "prefix (w @ take (length p - Suc n) p) (w @ p)"
      by (simp add: take_is_prefix)
    ultimately show False using assms(1) by (meson prefix_imp_sublist sublist_order.order.trans)
  qed
  then show ?case using Suc by simp
qed (use assms in simp)

definition cp_safe :: "nat list \<Rightarrow> capture \<Rightarrow> bool" where
  "cp_safe d c \<longleftrightarrow> cp_count c = length d \<and> cp_secret c \<noteq> [] \<and> star \<notin> set (cp_secret c)
     \<and> (cp_count c \<le> cp_limit c \<longrightarrow> cp_good d c)
     \<and> \<not> sublist (cp_secret c) (cp_file c @ cp_pending c)
     \<and> length (cp_file c @ cp_pending c) = min (cp_count c) (cp_limit c)"

lemma feed_fixed [simp]:
  "cp_secret (snd (cp_feed e c)) = cp_secret c" "cp_limit (snd (cp_feed e c)) = cp_limit c"
  "cp_count (snd (cp_feed e c)) = cp_count c + length e"
  by (simp_all add: cp_feed_def Let_def)

lemma feed_safe:
  assumes c: "cp_safe d c" shows "cp_safe (d @ e) (snd (cp_feed e c))"
proof -
  let ?s = "cp_secret c" and ?e = "take (cp_limit c - cp_count c) e" and ?c = "snd (cp_feed e c)"
  let ?m = "masked ?s (cp_pending c @ ?e)"
  have s: "?s \<noteq> []" "star \<notin> set ?s" and n: "cp_count c = length d" using c by (simp_all add: cp_safe_def)
  have whole: "\<not> sublist ?s (cp_file c @ ?m) \<and> length (cp_file c @ ?m) = min (cp_count c + length e) (cp_limit c)
      \<and> (cp_count c \<le> cp_limit c \<longrightarrow> cp_file c @ ?m = masked ?s (d @ ?e))"
  proof (cases "cp_count c \<le> cp_limit c")
    case True
    then have g: "cp_good d c" using c by (simp add: cp_safe_def)
    have "cp_file c @ ?m = masked ?s (d @ ?e)" by (rule feed_combined[OF s g])
    then show ?thesis
      using masked_hides[OF s] length_masked[OF s(1), of "d @ ?e"] True n
      by (simp del: length_append) (auto simp: min_def)
  next
    case False
    then have "?m = masked ?s (cp_pending c)" by simp
    moreover have "\<not> sublist ?s (cp_pending c)"
      using c sublist_append_leftI[of "cp_pending c" "cp_file c"] sublist_order.order.trans unfolding cp_safe_def by blast
    ultimately have "?m = cp_pending c" using masked_id[OF s(1)] by simp
    then show ?thesis using c False by (simp add: cp_safe_def)
  qed
  let ?keep = "min (length ?m) (length ?s - 1)"
  have f: "cp_file ?c = cp_file c @ take (length ?m - ?keep) ?m"
    "cp_pending ?c = (if cp_limit c < cp_count c + length e
       then mask_tail (length ?s - 1) ?s (drop (length ?m - ?keep) ?m) else drop (length ?m - ?keep) ?m)"
    by (simp_all add: cp_feed_def Let_def)
  have joined: "cp_file ?c @ drop (length ?m - ?keep) ?m = cp_file c @ ?m" using f(1) by simp
  have hides: "\<not> sublist ?s (cp_file ?c @ cp_pending ?c)"
    using whole joined mask_tail_hides[OF _ s(2), of "cp_file ?c" "drop (length ?m - ?keep) ?m" "length ?s - 1"]
    unfolding f(2) by (auto simp del: append_take_drop_id)
  have "length (cp_pending ?c) = length (drop (length ?m - ?keep) ?m)"
    unfolding f(2) using length_mask_tail[of "length ?s - 1" ?s] s(1) by (cases ?s) simp_all
  then have len: "length (cp_file ?c @ cp_pending ?c) = min (cp_count c + length e) (cp_limit c)"
    using whole joined by (metis length_append)
  have "cp_good (d @ e) ?c" if l: "cp_count c + length e \<le> cp_limit c"
  proof -
    have e: "?e = e" using l by simp
    then have "cp_file ?c @ cp_pending ?c = masked ?s (d @ e)" using whole joined l f(2) by simp
    moreover have "length (cp_pending ?c) = min (length ?m) (length ?s - 1)" using l f(2) by simp
    moreover have "length ?m = length (cp_pending c) + length e"
      using length_masked[OF s(1), of "cp_pending c @ ?e"] e by simp
    moreover have "length (cp_pending c) = min (length d) (length ?s - 1)"
      using c l by (simp add: cp_safe_def cp_good_def)
    ultimately show ?thesis by (simp add: cp_good_def min_def)
  qed
  then show ?thesis using n s hides len by (simp add: cp_safe_def)
qed

lemma feeds_safe: "cp_safe d c \<Longrightarrow> cp_safe (d @ concat ds) (cp_feeds ds c)"
proof (induction ds arbitrary: c d)
  case (Cons e ds)
  show ?case using Cons.IH[OF feed_safe[OF Cons.prems, of e]] by (simp add: cp_feeds_def)
qed (simp add: cp_feeds_def)

lemma feeds_fixed [simp]: "cp_secret (cp_feeds ds c) = cp_secret c" "cp_limit (cp_feeds ds c) = cp_limit c"
  by (induction ds arbitrary: c) (simp_all add: cp_feeds_def)

lemma new_capture_safe: "new_capture s l = Some c \<Longrightarrow> star \<notin> set s \<Longrightarrow> cp_safe [] c \<and> cp_secret c = s \<and> cp_limit c = l"
  by (auto simp: new_capture_def cp_safe_def cp_good_def split: if_splits)

section \<open>Properties\<close>

text \<open>C22. Masking while streaming equals masking at once: as long as the response stays within the wire
  allowance, the evidence file after closing is exactly the concatenation of all chunks with every occurrence
  of the API key replaced, however the response was cut into chunks.\<close>

theorem capture_masks_like_replace:
  assumes "new_capture secret limit = Some c" "star \<notin> set secret" "length (concat chunks) \<le> limit"
  shows "cp_file (cp_close (cp_feeds chunks c)) = replace_all secret (cp_mask secret) (concat chunks)"
proof -
  have c: "cp_safe [] c" "cp_secret c = secret" "cp_limit c = limit" using new_capture_safe[OF assms(1,2)] by auto
  have "cp_safe (concat chunks) (cp_feeds chunks c)" using feeds_safe[OF c(1), of chunks] by simp
  then show ?thesis using assms(3) c by (simp add: cp_safe_def cp_good_def cp_close_def)
qed

theorem capture_masks_like_replace_witness:
  "\<exists>c. new_capture [7, 8] 10 = Some c \<and> cp_file (cp_close (cp_feeds [[1, 7], [8, 2]] c)) = [1, 42, 42, 2]"
proof -
  obtain c where c: "new_capture [7, 8] 10 = Some c" by (simp add: new_capture_def)
  have "cp_file (cp_close (cp_feeds [[1, 7], [8, 2]] c)) = replace_all [7, 8] (cp_mask [7, 8]) (concat [[1, 7], [8, 2]])"
    by (rule capture_masks_like_replace[OF c]) simp_all
  also have "\<dots> = [1, 42, 42, 2]" by (simp add: replace_all.simps cp_mask_def)
  finally show ?thesis using c by blast
qed

text \<open>C21. The key never reaches the evidence file: for any chunks, also when the response runs past the wire
  allowance and is cut in the middle of the key, the closed file does not contain the key, and its length is
  exactly that of the response up to the allowance.\<close>

theorem capture_never_leaks:
  assumes "new_capture secret limit = Some c" "star \<notin> set secret"
  shows "\<not> sublist secret (cp_file (cp_close (cp_feeds chunks c)))
    \<and> length (cp_file (cp_close (cp_feeds chunks c))) = min (length (concat chunks)) limit"
proof -
  have c: "cp_safe [] c" "cp_secret c = secret" "cp_limit c = limit" using new_capture_safe[OF assms(1,2)] by auto
  have "cp_safe (concat chunks) (cp_feeds chunks c)" using feeds_safe[OF c(1), of chunks] by simp
  then show ?thesis using c by (simp add: cp_safe_def cp_close_def)
qed

theorem capture_never_leaks_witness:
  "\<exists>c. new_capture [7, 8, 9] 3 = Some c \<and> length (cp_file (cp_close (cp_feeds [[1, 7, 8, 9], [7]] c))) = 3"
proof -
  obtain c where c: "new_capture [7, 8, 9] 3 = Some c" by (simp add: new_capture_def)
  show ?thesis using capture_never_leaks[OF c, of "[[1, 7, 8, 9], [7]]"] c by simp
qed

end
