(* ===== verification/SseObserver.thy ===== *)
theory SseObserver
  imports Json
begin

text \<open>
  \<open>SseObserver\<close> of \<open>scripts/gufo_control/finite_transport.py\<close>: the incremental reader of a server-sent event
  stream that counts content events, enforces the protocol of the two streaming routes, and tells the
  transport when a planned disconnect is due. Shown here: how the stream is cut into chunks does not matter,
  the disconnect comes after exactly the planned number of content events and never after the generation has
  ended, and the milestones are emitted once.
\<close>

section \<open>Frames\<close>

text \<open>\<open>re.search(rb'\r?\n\r?\n', pending)\<close>: the frame before the leftmost match and the bytes after it.\<close>

fun boundary :: "nat list \<Rightarrow> (nat list \<times> nat list) option" where
  "boundary xs = (case xs of
      [] \<Rightarrow> None
    | x # r \<Rightarrow>
        if prefix [13, 10, 13, 10] xs then Some ([], drop 4 xs)
        else if prefix [13, 10, 10] xs then Some ([], drop 3 xs)
        else if prefix [10, 13, 10] xs then Some ([], drop 3 xs)
        else if prefix [10, 10] xs then Some ([], drop 2 xs)
        else (case boundary r of None \<Rightarrow> None | Some (f, t) \<Rightarrow> Some (x # f, t)))"

declare boundary.simps [simp del]

lemma boundary_Nil [simp]: "boundary [] = None"
  by (simp add: boundary.simps)

definition cuts :: "nat list \<Rightarrow> nat list option" where
  "cuts xs = (if prefix [13, 10, 13, 10] xs then Some (drop 4 xs)
        else if prefix [13, 10, 10] xs then Some (drop 3 xs)
        else if prefix [10, 13, 10] xs then Some (drop 3 xs)
        else if prefix [10, 10] xs then Some (drop 2 xs) else None)"

lemma boundary_Cons:
  "boundary (x # r) = (case cuts (x # r) of
      Some t \<Rightarrow> Some ([], t)
    | None \<Rightarrow> (case boundary r of None \<Rightarrow> None | Some (f, t) \<Rightarrow> Some (x # f, t)))"
  by (subst boundary.simps) (simp add: cuts_def)

lemma boundary_shorter: "boundary xs = Some (f, t) \<Longrightarrow> length t < length xs"
proof (induction xs arbitrary: f)
  case (Cons x r)
  then show ?case
    by (auto simp: boundary_Cons cuts_def split: option.splits if_splits dest: less_SucI)
qed simp

lemma cuts_append: "cuts xs = Some t \<Longrightarrow> cuts (xs @ ys) = Some (t @ ys)"
  by (auto simp: cuts_def prefix_def split: if_splits)

text \<open>A boundary that more data would move to the left does not exist.\<close>

lemma cuts_late:
  assumes "cuts (x # r) = None" "cuts ((x # r) @ ys) \<noteq> None" shows "boundary r = None"
proof -
  have "x = 10 \<or> x = 13" using assms(2) by (auto simp: cuts_def split: if_splits)
  moreover have "length r \<le> 2"
  proof (rule ccontr)
    assume "\<not> length r \<le> 2"
    then obtain a b c r' where "r = a # b # c # r'" by (metis One_nat_def Suc_1 length_Cons list.size(3) neq_Nil_conv not_less_eq_eq zero_le le_SucI numeral_2_eq_2)
    then show False using assms by (auto simp: cuts_def split: if_splits)
  qed
  then consider "r = []" | a where "r = [a]" | a b where "r = [a, b]"
    by (metis One_nat_def Suc_1 add_diff_cancel_left' length_0_conv length_Suc_conv le_Suc_eq plus_1_eq_Suc le_zero_eq)
  then show ?thesis
  proof cases
    case 2
    then show ?thesis by (simp add: boundary_Cons cuts_def)
  next
    case 3
    then show ?thesis using assms by (auto simp: boundary_Cons cuts_def split: if_splits)
  qed simp
qed

lemma boundary_append: "boundary xs = Some (f, t) \<Longrightarrow> boundary (xs @ ys) = Some (f, t @ ys)"
proof (induction xs arbitrary: f)
  case (Cons x r)
  show ?case
  proof (cases "cuts (x # r)")
    case (Some u)
    then show ?thesis using Cons.prems cuts_append[OF Some, of ys] by (simp add: boundary_Cons)
  next
    case None
    then obtain f' where f: "boundary r = Some (f', t)" "f = x # f'"
      using Cons.prems by (auto simp: boundary_Cons split: option.splits)
    then have "cuts (x # (r @ ys)) = None" using cuts_late[OF None, of ys] by (cases "cuts (x # r @ ys)") auto
    then show ?thesis using Cons.IH[OF f(1)] f(2) by (simp add: boundary_Cons)
  qed
qed simp

section \<open>The observer\<close>

datatype milestone = FirstContent rat | TerminalSeen rat

record observer =
  so_route :: pystr
  so_trigger :: "nat option"
  so_pending :: "nat list"
  so_count :: nat
  so_generation_terminal :: bool
  so_terminal :: bool
  so_output :: nat
  so_sequence :: nat
  so_first_at :: "rat option"
  so_terminal_at :: "rat option"
  so_emitted :: "milestone list"

definition new_observer :: "pystr \<Rightarrow> nat option \<Rightarrow> observer" where
  "new_observer route trigger = \<lparr>so_route = route, so_trigger = trigger, so_pending = [], so_count = 0,
     so_generation_terminal = False, so_terminal = False, so_output = 0, so_sequence = 0, so_first_at = None,
     so_terminal_at = None, so_emitted = []\<rparr>"

definition event_limit :: nat where "event_limit = 7340032"
definition output_limit :: nat where "output_limit = 1048576"
definition chat_route :: pystr where "chat_route = lit ''/v1/chat/completions''"
definition responses_route :: pystr where "responses_route = lit ''/v1/responses''"

text \<open>One chat event: does it carry visible content, does it finish the generation, and its \<open>delta\<close>.\<close>

definition chat_event :: "bool \<Rightarrow> bool \<Rightarrow> (pystr \<times> pyval) list \<Rightarrow> string + bool \<times> bool \<times> (pystr \<times> pyval) list" where
  "chat_event generation_terminal event_line d =
     (if event_line then Inl ''sse_event_route''
      else (case get_item d ''choices'' of
          VList cs \<Rightarrow>
            if 1 < length cs then Inl ''malformed_sse_choices''
            else if generation_terminal \<and> cs \<noteq> [] then Inl ''sse_content_after_finish''
            else if \<not> generation_terminal \<and> cs = [] \<and> has_key d ''usage'' then Inl ''sse_usage_before_finish''
            else (case (case cs of [] \<Rightarrow> VDict [] | c # _ \<Rightarrow> c) of
                VDict choice \<Rightarrow>
                  if has_key choice ''index'' \<and> \<not> equals_zero (get_item choice ''index'') then Inl ''malformed_sse_choices''
                  else (case get_object choice ''delta'' of
                      VDict delta \<Rightarrow>
                        if (has_key delta ''reasoning_content'' \<and> as_str (get_item delta ''reasoning_content'') = None)
                           \<or> (has_key delta ''tool_calls'' \<and> as_list (get_item delta ''tool_calls'') = None)
                           \<or> (get_item delta ''content'' \<noteq> VNone \<and> as_str (get_item delta ''content'') = None)
                        then Inl ''malformed_sse_delta''
                        else if get_item choice ''finish_reason'' \<noteq> VNone \<and> as_str (get_item choice ''finish_reason'') = None
                        then Inl ''malformed_finish_reason''
                        else Inr (as_str (get_item delta ''content'') \<notin> {None, Some []},
                                  get_item choice ''finish_reason'' \<noteq> VNone, delta)
                    | _ \<Rightarrow> Inl ''malformed_sse_delta'')
              | _ \<Rightarrow> Inl ''malformed_sse_choices'')
        | _ \<Rightarrow> Inl ''malformed_sse_choices''))"

definition optional_text :: "pyval \<Rightarrow> string + pystr list" where
  "optional_text v = (case v of VNone \<Rightarrow> Inr [] | VStr s \<Rightarrow> Inr [s] | _ \<Rightarrow> Inl ''malformed_tool_delta'')"

definition append_texts :: "string + pystr list \<Rightarrow> string + pystr list \<Rightarrow> string + pystr list" where
  "append_texts a b = (case a of Inl e \<Rightarrow> Inl e | Inr xs \<Rightarrow> (case b of Inl e \<Rightarrow> Inl e | Inr ys \<Rightarrow> Inr (xs @ ys)))"

fun tool_texts :: "pyval list \<Rightarrow> string + pystr list" where
  "tool_texts [] = Inr []"
| "tool_texts (t # ts) = (case t of
      VDict tool \<Rightarrow> (case get_object tool ''function'' of
          VDict f \<Rightarrow> append_texts (append_texts (optional_text (get_item tool ''id''))
                        (append_texts (optional_text (get_item f ''name'')) (optional_text (get_item f ''arguments''))))
                      (tool_texts ts)
        | _ \<Rightarrow> Inl ''malformed_tool_delta'')
    | _ \<Rightarrow> Inl ''malformed_tool_delta'')"

definition str_texts :: "pyval \<Rightarrow> pystr list" where
  "str_texts v = (case as_str v of None \<Rightarrow> [] | Some s \<Rightarrow> [s])"

definition chat_fragments :: "(pystr \<times> pyval) list \<Rightarrow> string + pystr list" where
  "chat_fragments delta = append_texts
     (Inr (str_texts (get_item delta ''content'') @ str_texts (get_item delta ''reasoning_content'')))
     (tool_texts (case as_list (get_item delta ''tool_calls'') of None \<Rightarrow> [] | Some ts \<Rightarrow> ts))"

definition response_kinds :: "string list" where
  "response_kinds = [''response.created'', ''response.in_progress'', ''response.output_item.added'',
     ''response.content_part.added'', ''response.output_text.delta'', ''response.output_text.done'',
     ''response.content_part.done'', ''response.output_item.done'', ''response.completed'', ''response.failed'',
     ''response.incomplete'']"

definition terminal_kinds :: "string list" where
  "terminal_kinds = [''response.completed'', ''response.failed'', ''response.incomplete'']"

text \<open>What a fed frame means: go on, the planned disconnect is due, or an exception.\<close>

datatype verdict = More | Trigger | Raised string

definition note_content :: "rat \<Rightarrow> bool \<Rightarrow> observer \<Rightarrow> observer" where
  "note_content arrived qualifies st =
     (if \<not> qualifies then st
      else let st = st\<lparr>so_count := so_count st + 1\<rparr>
           in if so_first_at st = None
              then st\<lparr>so_first_at := Some arrived, so_emitted := so_emitted st @ [FirstContent arrived]\<rparr> else st)"

definition count_output :: "string + pystr list \<Rightarrow> observer \<Rightarrow> verdict \<times> observer" where
  "count_output fragments st = (case fragments of
      Inl e \<Rightarrow> (Raised e, st)
    | Inr ts \<Rightarrow>
        if \<not> list_all utf8_encodable ts then (Raised ''UnicodeEncodeError'', st)
        else let st = st\<lparr>so_output := so_output st + sum_list (map utf8_len ts)\<rparr>
             in if output_limit < so_output st then (Raised ''decoded_output_limit'', st) else (More, st))"

text \<open>The end of the loop body.\<close>

definition conclude :: "rat \<Rightarrow> observer \<Rightarrow> verdict \<times> observer" where
  "conclude arrived st0 =
     (let st = (if so_generation_terminal st0 \<and> so_terminal_at st0 = None
                then st0\<lparr>so_terminal_at := Some arrived, so_emitted := so_emitted st0 @ [TerminalSeen arrived]\<rparr> else st0)
      in if so_generation_terminal st \<and> so_trigger st \<noteq> None then (Raised ''cancel_trigger_missed'', st)
         else if so_trigger st = Some (so_count st) then (Trigger, st) else (More, st))"

definition after_output :: "rat \<Rightarrow> verdict \<times> observer \<Rightarrow> verdict \<times> observer" where
  "after_output arrived r = (case r of (More, st) \<Rightarrow> conclude arrived st | _ \<Rightarrow> r)"

definition response_event ::
    "rat \<Rightarrow> pystr list \<Rightarrow> (pystr \<times> pyval) list \<Rightarrow> observer \<Rightarrow> verdict \<times> observer" where
  "response_event arrived event_names d st =
     (case event_names of
        [k] \<Rightarrow>
          if get_item d ''type'' \<noteq> VStr k \<or> k \<notin> set (map lit response_kinds)
             \<or> get_item d ''sequence_number'' \<noteq> VInt (int (so_sequence st))
          then (Raised ''sse_sequence_or_type'', st)
          else
            let st = st\<lparr>so_sequence := so_sequence st + 1\<rparr>;
                delta = (if k = lit ''response.output_text.delta'' then get_item d ''delta'' else VStr [])
            in (case as_str delta of
                 None \<Rightarrow> (Raised ''sse_delta'', st)
               | Some text \<Rightarrow>
                   let st = (if k \<in> set (map lit terminal_kinds)
                             then st\<lparr>so_generation_terminal := True, so_terminal := True\<rparr> else st)
                   in after_output arrived (count_output (Inr [text]) (note_content arrived (text \<noteq> []) st)))
      | _ \<Rightarrow> (Raised ''sse_sequence_or_type'', st))"

text \<open>The payload is read by \<open>smoke_http._strict_json\<close>.\<close>

definition data_event ::
    "rat \<Rightarrow> pystr list \<Rightarrow> pystr \<Rightarrow> observer \<Rightarrow> verdict \<times> observer" where
  "data_event arrived lines payload st =
     (if payload = lit ''[DONE]'' then
        (if so_route st \<noteq> chat_route \<or> \<not> so_generation_terminal st then (Raised ''sse_done_route'', st)
         else conclude arrived (st\<lparr>so_terminal := True\<rparr>))
      else (case strict_json payload of
          None \<Rightarrow> (Raised ''ValueError'', st)
        | Some v \<Rightarrow> (case as_dict v of
              None \<Rightarrow> (Raised ''malformed_sse_json'', st)
            | Some d \<Rightarrow>
                if so_route st = chat_route then
                  (case chat_event (so_generation_terminal st) (list_ex (starts ''event:'') lines) d of
                     Inl e \<Rightarrow> (Raised e, st)
                   | Inr (qualifies, finishes, delta) \<Rightarrow>
                       let st = st\<lparr>so_generation_terminal := so_generation_terminal st \<or> finishes\<rparr>
                       in after_output arrived (count_output (chat_fragments delta) (note_content arrived qualifies st)))
                else if so_route st = responses_route then
                  response_event arrived (map (\<lambda>l. lstrip_of 32 (drop 6 l)) (filter (starts ''event:'') lines)) d st
                else (Raised ''finite_route'', st))))"

text \<open>One frame.\<close>

definition sse_frame :: "rat \<Rightarrow> nat list \<Rightarrow> observer \<Rightarrow> verdict \<times> observer" where
  "sse_frame arrived frame st =
     (if so_terminal st then (Raised ''sse_after_terminal'', st)
      else (case utf8_decode frame of
          None \<Rightarrow> (Raised ''UnicodeDecodeError'', st)
        | Some s \<Rightarrow>
            let lines = splitlines s;
                data_lines = map (\<lambda>l. lstrip_of 32 (drop 5 l)) (filter (starts ''data:'') lines)
            in if list_ex (\<lambda>l. l \<noteq> [] \<and> \<not> (starts ''data:'' l \<or> starts ''event:'' l \<or> starts '':'' l)) lines
               then (Raised ''sse_field'', st)
               else if data_lines = [] then
                 (if list_ex (starts ''event:'') lines then (Raised ''sse_field'', st) else (More, st))
               else data_event arrived lines (join [10] data_lines) st))"

text \<open>The loop of \<open>feed\<close> over the frames of the buffer.\<close>

function sse_loop ::
    "rat \<Rightarrow> nat list \<Rightarrow> observer \<Rightarrow> verdict \<times> nat list \<times> observer" where
  "sse_loop arrived pending st = (case boundary pending of
      None \<Rightarrow> (More, pending, st)
    | Some (frame, rest) \<Rightarrow> (case sse_frame arrived frame st of
          (More, st') \<Rightarrow> sse_loop arrived rest st'
        | (v, st') \<Rightarrow> (v, rest, st')))"
  by pat_completeness auto
termination
  by (relation "measure (\<lambda>(arrived, pending, st). length pending)") (auto dest: boundary_shorter)

declare sse_loop.simps [simp del]

definition sse_feed :: "rat \<Rightarrow> nat list \<Rightarrow> observer \<Rightarrow> verdict \<times> observer" where
  "sse_feed arrived data st =
     (let pending = so_pending st @ data
      in if event_limit < length pending then (Raised ''sse_event_limit'', st\<lparr>so_pending := pending\<rparr>)
         else (case sse_loop arrived pending st of (v, rest, st') \<Rightarrow> (v, st'\<lparr>so_pending := rest\<rparr>)))"

text \<open>A stream: chunks are fed until one of them is not followed by more.\<close>

fun sse_feeds :: "(rat \<times> nat list) list \<Rightarrow> observer \<Rightarrow> verdict \<times> observer" where
  "sse_feeds [] st = (More, st)"
| "sse_feeds ((arrived, data) # cs) st = (case sse_feed arrived data st of
      (More, st') \<Rightarrow> sse_feeds cs st'
    | r \<Rightarrow> r)"

section \<open>How the stream is cut does not matter\<close>

definition with_pending :: "nat list \<Rightarrow> observer \<Rightarrow> observer" where
  "with_pending p st = st\<lparr>so_pending := p\<rparr>"

lemma with_pending_sel [simp]:
  "so_route (with_pending p st) = so_route st" "so_trigger (with_pending p st) = so_trigger st"
  "so_pending (with_pending p st) = p" "so_count (with_pending p st) = so_count st"
  "so_generation_terminal (with_pending p st) = so_generation_terminal st" "so_terminal (with_pending p st) = so_terminal st"
  "so_output (with_pending p st) = so_output st" "so_sequence (with_pending p st) = so_sequence st"
  "so_first_at (with_pending p st) = so_first_at st" "so_terminal_at (with_pending p st) = so_terminal_at st"
  "so_emitted (with_pending p st) = so_emitted st" "with_pending p (with_pending q st) = with_pending p st"
  by (simp_all add: with_pending_def)

lemma with_pending_upd [simp]:
  "(with_pending p st)\<lparr>so_count := a\<rparr> = with_pending p (st\<lparr>so_count := a\<rparr>)"
  "(with_pending p st)\<lparr>so_generation_terminal := b\<rparr> = with_pending p (st\<lparr>so_generation_terminal := b\<rparr>)"
  "(with_pending p st)\<lparr>so_terminal := b\<rparr> = with_pending p (st\<lparr>so_terminal := b\<rparr>)"
  "(with_pending p st)\<lparr>so_output := a\<rparr> = with_pending p (st\<lparr>so_output := a\<rparr>)"
  "(with_pending p st)\<lparr>so_sequence := a\<rparr> = with_pending p (st\<lparr>so_sequence := a\<rparr>)"
  "(with_pending p st)\<lparr>so_first_at := c\<rparr> = with_pending p (st\<lparr>so_first_at := c\<rparr>)"
  "(with_pending p st)\<lparr>so_terminal_at := c\<rparr> = with_pending p (st\<lparr>so_terminal_at := c\<rparr>)"
  "(with_pending p st)\<lparr>so_emitted := e\<rparr> = with_pending p (st\<lparr>so_emitted := e\<rparr>)"
  by (simp_all add: with_pending_def)

lemma note_content_pending: "note_content t q (with_pending p st) = with_pending p (note_content t q st)"
  by (simp add: note_content_def Let_def)

lemma count_output_pending: "count_output f (with_pending p st) = apsnd (with_pending p) (count_output f st)"
  by (simp add: count_output_def Let_def split: sum.split)

lemma conclude_pending: "conclude t (with_pending p st) = apsnd (with_pending p) (conclude t st)"
  by (auto simp: conclude_def Let_def)

lemma after_output_pending: "after_output t (apsnd (with_pending p) r) = apsnd (with_pending p) (after_output t r)"
  by (cases r) (simp add: after_output_def conclude_pending split: verdict.split)

lemmas pending_simps = note_content_pending count_output_pending conclude_pending after_output_pending

lemma response_event_pending: "response_event t ns d (with_pending p st) = apsnd (with_pending p) (response_event t ns d st)"
  by (auto simp: response_event_def Let_def pending_simps split: list.split option.split)

lemma data_event_pending: "data_event t ls pl (with_pending p st) = apsnd (with_pending p) (data_event t ls pl st)"
  by (simp add: data_event_def Let_def pending_simps response_event_pending split: option.split sum.split prod.split)

lemma sse_frame_pending: "sse_frame t f (with_pending p st) = apsnd (with_pending p) (sse_frame t f st)"
  by (simp add: sse_frame_def Let_def data_event_pending split: option.split)

lemma sse_loop_pending:
  "sse_loop t xs (with_pending p st) = apsnd (apsnd (with_pending p)) (sse_loop t xs st)"
proof (induction t xs st rule: sse_loop.induct)
  case (1 t xs st)
  show ?case
  proof (cases "boundary xs")
    case None
    then show ?thesis by (simp add: sse_loop.simps[of t xs])
  next
    case (Some ft)
    obtain f r where ft: "ft = (f, r)" by fastforce
    obtain v st' where v: "sse_frame t f st = (v, st')" by fastforce
    show ?thesis
      using 1[OF Some ft[symmetric] v[symmetric]] by (cases v) (simp_all add: sse_loop.simps[of t xs] Some ft sse_frame_pending v)
  qed
qed

lemma sse_loop_append:
  "sse_loop t (xs @ ys) st = (case sse_loop t xs st of
      (More, rest, st') \<Rightarrow> sse_loop t (rest @ ys) st'
    | (v, rest, st') \<Rightarrow> (v, rest @ ys, st'))"
proof (induction t xs st rule: sse_loop.induct)
  case (1 t xs st)
  show ?case
  proof (cases "boundary xs")
    case None
    then show ?thesis by (simp add: sse_loop.simps[of t xs])
  next
    case (Some ft)
    obtain f r where ft: "ft = (f, r)" by fastforce
    have b: "boundary (xs @ ys) = Some (f, r @ ys)" using boundary_append Some ft by simp
    obtain v st' where v: "sse_frame t f st = (v, st')" by fastforce
    show ?thesis
      using 1[OF Some ft[symmetric] v[symmetric]]
      by (cases v) (simp_all add: sse_loop.simps[of t xs] sse_loop.simps[of t "xs @ ys"] Some ft b v)
  qed
qed

lemma sse_loop_rest: "sse_loop t xs st = (v, rest, st') \<Longrightarrow> length rest \<le> length xs"
proof (induction t xs st arbitrary: v rest st' rule: sse_loop.induct)
  case (1 t xs st)
  show ?case
  proof (cases "boundary xs")
    case None
    then show ?thesis using "1.prems" by (simp add: sse_loop.simps[of t xs])
  next
    case (Some ft)
    obtain f r where ft: "ft = (f, r)" by fastforce
    obtain w st'' where w: "sse_frame t f st = (w, st'')" by fastforce
    have "length r < length xs" using boundary_shorter Some ft by simp
    then show ?thesis
      using "1.IH"[OF Some ft[symmetric] w[symmetric]] "1.prems"
      by (cases w) (fastforce simp: sse_loop.simps[of t xs] Some ft w)+
  qed
qed

lemma sse_loop_done: "sse_loop t xs st = (More, rest, st') \<Longrightarrow> boundary rest = None"
proof (induction t xs st arbitrary: rest st' rule: sse_loop.induct)
  case (1 t xs st)
  show ?case
  proof (cases "boundary xs")
    case None
    then show ?thesis using "1.prems" by (simp add: sse_loop.simps[of t xs])
  next
    case (Some ft)
    obtain f r where ft: "ft = (f, r)" by fastforce
    obtain w st'' where w: "sse_frame t f st = (w, st'')" by fastforce
    then show ?thesis
      using "1.IH"[OF Some ft[symmetric] w[symmetric]] "1.prems"
      by (cases w) (auto simp: sse_loop.simps[of t xs] Some ft)
  qed
qed

text \<open>What a caller can see of a verdict and a state: everything but the buffer.\<close>

definition visible :: "verdict \<times> observer \<Rightarrow> verdict \<times> observer" where
  "visible r = apsnd (with_pending []) r"

lemma feed_visible:
  assumes "length (so_pending st) + length a + length b \<le> event_limit"
  shows "visible (sse_feed t (a @ b) st) = visible (case sse_feed t a st of
      (More, st') \<Rightarrow> sse_feed t b st' | r \<Rightarrow> r)"
proof -
  obtain v rest st' where l: "sse_loop t (so_pending st @ a) st = (v, rest, st')" by (metis prod_cases3)
  have len: "length rest \<le> length (so_pending st @ a)" by (rule sse_loop_rest[OF l])
  have whole: "sse_loop t (so_pending st @ a @ b) st = (if v = More then sse_loop t (rest @ b) st' else (v, rest @ b, st'))"
    using sse_loop_append[of t "so_pending st @ a" b st] by (cases v) (simp_all add: l)
  obtain v2 rest2 st2 where l2: "sse_loop t (rest @ b) st' = (v2, rest2, st2)" by (metis prod_cases3)
  show ?thesis
    using assms len sse_loop_pending[of t "rest @ b" rest st']
    by (cases v) (simp_all add: sse_feed_def Let_def l whole l2 visible_def flip: with_pending_def)
qed

lemma feed_pending_length:
  "sse_feed t a st = (More, st') \<Longrightarrow> length (so_pending st') \<le> length (so_pending st) + length a"
  using sse_loop_rest[of t "so_pending st @ a" st]
  by (auto simp: sse_feed_def Let_def split: if_splits prod.splits)

lemma feeds_visible:
  assumes "length (so_pending st) + length (concat ds) \<le> event_limit" "ds \<noteq> []"
  shows "visible (sse_feeds (map (Pair t) ds) st) = visible (sse_feed t (concat ds) st)"
  using assms
proof (induction ds arbitrary: st)
  case (Cons d ds)
  obtain v st' where f: "sse_feed t d st = (v, st')" by fastforce
  have w: "visible (sse_feed t (d @ concat ds) st) = visible (if v = More then sse_feed t (concat ds) st' else (v, st'))"
    using feed_visible[of st d "concat ds" t] Cons.prems by (cases v) (simp_all add: f)
  show ?case
  proof (cases "v = More \<and> ds \<noteq> []")
    case True
    have "length (so_pending st') + length (concat ds) \<le> event_limit"
      using feed_pending_length[of t d st st'] f True Cons.prems by simp
    then show ?thesis using Cons.IH[of st'] True w f by simp
  next
    case False
    then show ?thesis using f w by (cases v) auto
  qed
qed simp

section \<open>Counting and milestones\<close>

definition is_first :: "milestone \<Rightarrow> bool" where
  "is_first m = (case m of FirstContent _ \<Rightarrow> True | TerminalSeen _ \<Rightarrow> False)"

text \<open>What holds between two frames, with \<open>late\<close> telling whether the end of the generation has been seen but not
  been announced yet.\<close>

definition observer_ok :: "bool \<Rightarrow> observer \<Rightarrow> bool" where
  "observer_ok late st \<longleftrightarrow>
     (so_first_at st = None \<longleftrightarrow> so_count st = 0)
   \<and> filter is_first (so_emitted st) = (case so_first_at st of None \<Rightarrow> [] | Some t \<Rightarrow> [FirstContent t])
   \<and> filter (\<lambda>m. \<not> is_first m) (so_emitted st) = (case so_terminal_at st of None \<Rightarrow> [] | Some t \<Rightarrow> [TerminalSeen t])
   \<and> (so_terminal_at st \<noteq> None \<longrightarrow> so_generation_terminal st)
   \<and> (late \<or> (so_generation_terminal st \<longrightarrow> so_terminal_at st \<noteq> None))
   \<and> (late \<or> so_trigger st = None \<or> \<not> so_generation_terminal st)
   \<and> (so_terminal st \<longrightarrow> so_generation_terminal st)"

definition below_trigger :: "observer \<Rightarrow> bool" where
  "below_trigger st \<longleftrightarrow> (case so_trigger st of None \<Rightarrow> True | Some n \<Rightarrow> so_count st < n)"

definition step_ok :: "verdict \<times> observer \<Rightarrow> bool" where
  "step_ok r \<longleftrightarrow> (case r of
      (Raised _, st) \<Rightarrow> True
    | (More, st) \<Rightarrow> observer_ok False st \<and> below_trigger st \<and> so_output st \<le> output_limit
    | (Trigger, st) \<Rightarrow> observer_ok False st \<and> so_trigger st = Some (so_count st) \<and> so_output st \<le> output_limit)"

text \<open>Before \<open>conclude\<close>: at most one content event more than before the frame.\<close>

definition mid_ok :: "observer \<Rightarrow> bool" where
  "mid_ok st \<longleftrightarrow> observer_ok True st \<and> (so_generation_terminal st \<and> so_trigger st \<noteq> None \<or>
      (case so_trigger st of None \<Rightarrow> True | Some n \<Rightarrow> so_count st \<le> n)) \<and> so_output st \<le> output_limit"

lemma raised_ok [simp]: "step_ok (Raised e, st)"
  by (simp add: step_ok_def)

lemma conclude_ok: "mid_ok st \<Longrightarrow> step_ok (conclude t st)"
  by (auto simp: mid_ok_def observer_ok_def step_ok_def conclude_def Let_def below_trigger_def is_first_def split: option.splits)

lemma count_output_ok:
  "observer_ok True st \<Longrightarrow> (case so_trigger st of None \<Rightarrow> True | Some n \<Rightarrow> so_count st \<le> n)
   \<Longrightarrow> step_ok (after_output t (count_output f st))"
proof (cases f)
  case (Inr ts)
  assume a: "observer_ok True st" "case so_trigger st of None \<Rightarrow> True | Some n \<Rightarrow> so_count st \<le> n"
  let ?st = "st\<lparr>so_output := so_output st + sum_list (map utf8_len ts)\<rparr>"
  have "step_ok (conclude t ?st)" if "so_output ?st \<le> output_limit"
    by (rule conclude_ok) (use a that in \<open>auto simp: mid_ok_def observer_ok_def split: option.splits\<close>)
  then show ?thesis
    by (simp add: Inr after_output_def count_output_def Let_def raised_ok not_less)
qed (simp add: after_output_def count_output_def raised_ok)

lemma note_content_ok:
  assumes "observer_ok True st" "below_trigger st"
  shows "observer_ok True (note_content t q st)"
    "case so_trigger (note_content t q st) of None \<Rightarrow> True | Some n \<Rightarrow> so_count (note_content t q st) \<le> n"
  using assms by (auto simp: note_content_def Let_def observer_ok_def below_trigger_def is_first_def split: option.splits)

lemma observer_late: "observer_ok False st \<Longrightarrow> observer_ok True st"
  by (simp add: observer_ok_def)

lemma finishing_ok:
  assumes "observer_ok False st" "below_trigger st"
  shows "observer_ok True (st\<lparr>so_generation_terminal := so_generation_terminal st \<or> b\<rparr>)"
    "below_trigger (st\<lparr>so_generation_terminal := so_generation_terminal st \<or> b\<rparr>)"
    "observer_ok True (st\<lparr>so_sequence := m\<rparr>)" "below_trigger (st\<lparr>so_sequence := m\<rparr>)"
    "observer_ok True (st\<lparr>so_sequence := m, so_generation_terminal := True, so_terminal := True\<rparr>)"
    "below_trigger (st\<lparr>so_sequence := m, so_generation_terminal := True, so_terminal := True\<rparr>)"
  using assms by (auto simp: observer_ok_def below_trigger_def split: option.splits)

lemma content_step_ok:
  "observer_ok True st \<Longrightarrow> below_trigger st \<Longrightarrow> step_ok (after_output t (count_output f (note_content t q st)))"
  by (intro count_output_ok note_content_ok)

lemma response_event_ok:
  assumes "observer_ok False st" "below_trigger st"
  shows "step_ok (response_event t ns d st)"
  unfolding response_event_def using finishing_ok[OF assms]
  by (simp add: Let_def content_step_ok split: list.split option.split)

lemma data_event_ok:
  assumes "observer_ok False st" "below_trigger st" "so_output st \<le> output_limit"
  shows "step_ok (data_event t ls pl st)"
proof -
  have "step_ok (conclude t (st\<lparr>so_terminal := True\<rparr>))" if "so_generation_terminal st"
    using assms that by (intro conclude_ok) (auto simp: mid_ok_def observer_ok_def below_trigger_def split: option.splits)
  moreover have "step_ok (case r of Inl e \<Rightarrow> (Raised e, st) | Inr (q, f, delta) \<Rightarrow>
      let st = st\<lparr>so_generation_terminal := so_generation_terminal st \<or> f\<rparr>
      in after_output t (count_output (chat_fragments delta) (note_content t q st)))" for r
    by (cases r) (auto simp: Let_def finishing_ok(1,2)[OF assms(1,2)] intro!: content_step_ok)
  ultimately show ?thesis
    unfolding data_event_def by (simp add: response_event_ok[OF assms(1,2)] split: option.split)
qed

lemma sse_frame_ok:
  assumes "observer_ok False st" "below_trigger st" "so_output st \<le> output_limit"
  shows "step_ok (sse_frame t f st)"
  using assms data_event_ok[OF assms]
  by (auto simp: sse_frame_def Let_def step_ok_def[of "(More, _)"] split: option.split)

lemma sse_loop_ok:
  assumes "observer_ok False st" "below_trigger st" "so_output st \<le> output_limit" "sse_loop t xs st = (v, rest, st')"
  shows "step_ok (v, st')"
  using assms
proof (induction t xs st rule: sse_loop.induct)
  case (1 t xs st)
  show ?case
  proof (cases "boundary xs")
    case None
    then show ?thesis using "1.prems" by (simp add: sse_loop.simps[of t xs] step_ok_def)
  next
    case (Some ft)
    obtain f r where ft: "ft = (f, r)" by fastforce
    obtain w st'' where w: "sse_frame t f st = (w, st'')" by fastforce
    have s: "step_ok (w, st'')" using sse_frame_ok[OF "1.prems"(1,2,3), of t f] by (simp add: w)
    show ?thesis
    proof (cases w)
      case More
      then show ?thesis
        using "1.IH"[OF Some ft[symmetric] w[symmetric] More] "1.prems"(4) s
        by (simp add: sse_loop.simps[of t xs] Some ft w step_ok_def[of "(More, st'')"])
    qed (use s "1.prems"(4) in \<open>auto simp: sse_loop.simps[of t xs] Some ft w\<close>)
  qed
qed

lemma step_ok_pending: "step_ok (v, st\<lparr>so_pending := p\<rparr>) = step_ok (v, st)"
  by (cases v; cases "so_trigger st") (simp_all add: step_ok_def observer_ok_def below_trigger_def)

lemma note_trigger [simp]: "so_trigger (note_content t q st) = so_trigger st"
  by (simp add: note_content_def Let_def)

lemma count_trigger [simp]: "so_trigger (snd (count_output f st)) = so_trigger st"
  by (simp add: count_output_def Let_def split: sum.split)

lemma conclude_trigger [simp]: "so_trigger (snd (conclude t st)) = so_trigger st"
  by (simp add: conclude_def Let_def)

lemma after_trigger [simp]: "so_trigger (snd (after_output t r)) = so_trigger (snd r)"
  by (cases r) (simp add: after_output_def split: verdict.split)

lemma response_trigger [simp]: "so_trigger (snd (response_event t ns d st)) = so_trigger st"
  by (simp add: response_event_def Let_def split: list.split option.split)

lemma data_trigger [simp]: "so_trigger (snd (data_event t ls pl st)) = so_trigger st"
  by (simp add: data_event_def Let_def split: option.split sum.split prod.split)

lemma frame_trigger: "so_trigger (snd (sse_frame t f st)) = so_trigger st"
  by (simp add: sse_frame_def Let_def split: option.split)

lemma loop_trigger: "so_trigger (snd (snd (sse_loop t xs st))) = so_trigger st"
proof (induction t xs st rule: sse_loop.induct)
  case (1 t xs st)
  show ?case
  proof (cases "boundary xs")
    case None
    then show ?thesis by (simp add: sse_loop.simps[of t xs])
  next
    case (Some ft)
    obtain f r where ft: "ft = (f, r)" by fastforce
    obtain w st'' where w: "sse_frame t f st = (w, st'')" by fastforce
    have "so_trigger st'' = so_trigger st" using frame_trigger[of t f st] by (simp add: w)
    then show ?thesis
      using "1"[OF Some ft[symmetric] w[symmetric]] by (cases w) (simp_all add: sse_loop.simps[of t xs] Some ft w)
  qed
qed

lemma feed_trigger: "so_trigger (snd (sse_feed t d st)) = so_trigger st"
  using loop_trigger[of t "so_pending st @ d" st] by (auto simp: sse_feed_def Let_def split: prod.split)

lemma sse_feeds_trigger: "so_trigger (snd (sse_feeds cs st)) = so_trigger st"
proof (induction cs arbitrary: st)
  case (Cons c cs)
  obtain t d where c: "c = (t, d)" by fastforce
  obtain v st' where f: "sse_feed t d st = (v, st')" by fastforce
  show ?case using Cons.IH[of st'] feed_trigger[of t d st] f c by (cases v) simp_all
qed simp

lemma sse_feeds_ok:
  assumes "observer_ok False st" "below_trigger st" "so_output st \<le> output_limit"
  shows "step_ok (sse_feeds cs st)"
  using assms
proof (induction cs arbitrary: st)
  case Nil
  then show ?case by (simp add: step_ok_def)
next
  case (Cons c cs)
  obtain t d where c: "c = (t, d)" by fastforce
  obtain v st' where f: "sse_feed t d st = (v, st')" by fastforce
  have s: "step_ok (v, st')"
    using f sse_loop_ok[OF Cons.prems, of t "so_pending st @ d"]
    by (auto simp: sse_feed_def Let_def step_ok_pending split: if_splits prod.splits)
  show ?case
  proof (cases v)
    case More
    then show ?thesis using Cons.IH[of st'] s f c by (simp add: step_ok_def[of "(More, st')"])
  qed (use s f c in simp_all)
qed

section \<open>Line separators inside a payload\<close>

lemma splitlines_plain: "list_all (\<lambda>c. \<not> line_end c) y \<Longrightarrow> cur @ y \<noteq> [] \<Longrightarrow> splitlines_acc cur y = [cur @ y]"
  by (induction cur y rule: splitlines_acc.induct) (auto simp: line_end_def)

lemma splitlines_separator:
  "list_all (\<lambda>c. \<not> line_end c) x \<Longrightarrow> list_all (\<lambda>c. \<not> line_end c) y \<Longrightarrow> line_end c \<Longrightarrow> y \<noteq> []
   \<Longrightarrow> splitlines_acc cur (x @ c # y) = [cur @ x, y]"
proof (induction x arbitrary: cur)
  case Nil
  then obtain d y' where y: "y = d # y'" by (cases y) auto
  then have "\<not> (c = 13 \<and> d = 10)" using Nil by (auto simp: line_end_def)
  then show ?case using Nil splitlines_plain[of y "[]"] by (auto simp: y)
next
  case (Cons a x)
  then have "splitlines_acc cur (a # x @ c # y) = splitlines_acc (cur @ [a]) (x @ c # y)"
    by (cases "x @ c # y") (auto simp: line_end_def)
  then show ?case using Cons by simp
qed

lemma separator_raises:
  assumes "utf8_decode frame = Some (lit ''data:'' @ x @ c # y)" "line_end c"
    "list_all (\<lambda>a. \<not> line_end a) x" "list_all (\<lambda>a. \<not> line_end a) y" "y \<noteq> []"
    "\<not> starts ''data:'' y \<and> \<not> starts ''event:'' y \<and> \<not> starts '':'' y" "\<not> so_terminal st"
  shows "sse_frame t frame st = (Raised ''sse_field'', st)"
proof -
  have "list_all (\<lambda>a. \<not> line_end a) (lit ''data:'' @ x)" using assms(3) by (simp add: lit_def line_end_def)
  then have "splitlines (lit ''data:'' @ x @ c # y) = [lit ''data:'' @ x, y]"
    using splitlines_separator[of "lit ''data:'' @ x" y c "[]"] assms(2,4,5) by (simp add: splitlines_def)
  then show ?thesis using assms by (simp add: sse_frame_def Let_def)
qed

section \<open>Properties\<close>

text \<open>C23. Chunk boundaries are invisible: feeding a stream in any pieces (also cut inside a line end or inside a
  multi-byte character) gives the same verdict and leaves the observer with the same counters, flags and
  milestones as feeding it in one piece, as long as it fits the event buffer.\<close>

theorem chunking_is_invisible:
  assumes "length (concat ds) \<le> event_limit" "ds \<noteq> []"
  shows "apsnd (with_pending []) (sse_feeds (map (Pair t) ds) (new_observer route trigger))
       = apsnd (with_pending []) (sse_feed t (concat ds) (new_observer route trigger))"
  using feeds_visible[of "new_observer route trigger" ds t] assms
  by (simp add: visible_def new_observer_def)

theorem chunking_is_invisible_witness:
  "apsnd (with_pending []) (sse_feeds (map (Pair 0) [lit ''data:'', [13], [10, 13], [10]]) (new_observer chat_route None))
   = apsnd (with_pending []) (sse_feed 0 (lit ''data:'' @ [13, 10, 13, 10]) (new_observer chat_route None))"
proof -
  let ?ds = "[lit ''data:'', [13], [10, 13], [10]]"
  have "apsnd (with_pending []) (sse_feeds (map (Pair 0) ?ds) (new_observer chat_route None))
      = apsnd (with_pending []) (sse_feed 0 (concat ?ds) (new_observer chat_route None))"
    by (rule chunking_is_invisible) (simp_all add: event_limit_def)
  then show ?thesis by simp
qed

text \<open>The planned disconnect is exact: for a disconnect after \<open>n > 0\<close> content events, whatever the stream
  contains and however it arrives, the observer asks for it precisely when \<open>n\<close> events were seen, never counts
  further, never lets the generation end first without an error, announces the first content exactly when there
  was some and never a terminal event, and stays within the output limit.\<close>

theorem planned_disconnect_is_exact:
  assumes "sse_feeds cs (new_observer route (Some n)) = (v, st)" "0 < n" "v \<in> {More, Trigger}"
  shows "(v = Trigger) = (so_count st = n) \<and> so_count st \<le> n \<and> \<not> so_generation_terminal st
    \<and> so_emitted st = (case so_first_at st of None \<Rightarrow> [] | Some t \<Rightarrow> [FirstContent t])
    \<and> (so_first_at st = None \<longleftrightarrow> so_count st = 0) \<and> so_output st \<le> output_limit"
proof -
  have n: "observer_ok False (new_observer route (Some n))" "below_trigger (new_observer route (Some n))"
    "so_output (new_observer route (Some n)) \<le> output_limit"
    using assms(2) by (simp_all add: new_observer_def observer_ok_def below_trigger_def)
  have ok: "step_ok (v, st)" using sse_feeds_ok[OF n, of cs] by (simp add: assms(1))
  have t: "so_trigger st = Some n" using sse_feeds_trigger[of cs "new_observer route (Some n)"] assms(1)
    by (simp add: new_observer_def)
  have o: "observer_ok False st" "so_output st \<le> output_limit" "(v = Trigger) = (so_count st = n)" "so_count st \<le> n"
    using ok assms(3) t by (auto simp: step_ok_def below_trigger_def)
  have g: "\<not> so_generation_terminal st" "so_terminal_at st = None" using o(1) t by (auto simp: observer_ok_def)
  have "so_emitted st = filter is_first (so_emitted st)"
    using o(1) g(2) by (intro sym[OF filter_True]) (auto simp: observer_ok_def filter_empty_conv)
  then show ?thesis using o g by (simp add: observer_ok_def)
qed

definition chunk_text :: pystr where
  "chunk_text = json_text ''{|choices|:[{|delta|:{|content|:|x|}}]}''"

definition chunk_frame :: "nat list" where
  "chunk_frame = lit ''data:'' @ chunk_text"

lemmas chunk_eval = chunk_frame_def chunk_text_def json_text_def lit_def

lemma chunk_read:
  "strict_json chunk_text = Some (VDict [(lit ''choices'', VList [VDict [(lit ''delta'', VDict [(lit ''content'', VStr (lit ''x''))])]])])"
  by (simp add: chunk_text_def json_eval)

lemma demo_boundary: "boundary (chunk_frame @ [10, 10]) = Some (chunk_frame, [])"
  by (simp add: chunk_eval boundary.simps)

lemma demo_feed:
  "\<exists>st. sse_feeds [(5, chunk_frame), (6, [10, 10])] (new_observer chat_route (Some 1)) = (Trigger, st)
     \<and> so_first_at st = Some 6"
proof -
  have b: "boundary chunk_frame = None" by (simp add: chunk_eval boundary.simps)
  have u: "utf8_decode chunk_frame = Some chunk_frame" by (rule utf8_decode_ascii) (simp add: chunk_eval)
  have l: "splitlines chunk_frame = [chunk_frame]"
    unfolding splitlines_def by (subst splitlines_plain) (simp_all add: chunk_eval line_end_def)
  have st: "starts ''data:'' chunk_frame" "\<not> starts ''event:'' chunk_frame" by (simp_all add: starts_def chunk_eval)
  have d: "lstrip_of 32 (drop 5 chunk_frame) = chunk_text" "chunk_text \<noteq> lit ''[DONE]''" by (simp_all add: chunk_eval lstrip_of_def)
  have len: "length chunk_frame = 44" by (simp add: chunk_eval)
  show ?thesis
    by (simp add: sse_feed_def Let_def new_observer_def sse_loop.simps[of _ chunk_frame] len
        sse_loop.simps[of _ "chunk_frame @ [10, 10]"] sse_loop.simps[of _ "[]"] b demo_boundary sse_frame_def u l st d
        data_event_def chunk_read chat_event_def get_item_def get_object_def has_key_def chat_fragments_def str_texts_def
        note_content_def count_output_def after_output_def conclude_def append_texts_def utf8_encodable_def event_limit_def
        output_limit_def)
      (simp add: lit_def)
qed

theorem planned_disconnect_is_exact_witness:
  "\<exists>st. sse_feeds [(5, chunk_frame), (6, [10, 10])] (new_observer chat_route (Some 1)) = (Trigger, st)
     \<and> so_count st = 1 \<and> so_emitted st = [FirstContent 6]"
proof -
  obtain st where st: "sse_feeds [(5, chunk_frame), (6, [10, 10])] (new_observer chat_route (Some 1)) = (Trigger, st)"
    "so_first_at st = Some 6" using demo_feed by blast
  show ?thesis using planned_disconnect_is_exact[OF st(1)] st by simp
qed

text \<open>C40. The frame is cut into lines at every Unicode line boundary, not only at line feeds: before the stream has ended,
  a data line with exactly one such boundary in it, for instance a U+2028 inside a JSON string, is split there, and if
  what follows is neither empty nor itself looks like a data, an event or a comment field, the frame is rejected as an
  unknown field, whatever the JSON says, and the observer stays as it is.\<close>

theorem separator_in_payload_is_rejected:
  assumes "utf8_decode frame = Some (lit ''data:'' @ x @ c # y)" "line_end c"
    and "list_all (\<lambda>a. \<not> line_end a) x" "list_all (\<lambda>a. \<not> line_end a) y" "y \<noteq> []"
    and "\<not> starts ''data:'' y \<and> \<not> starts ''event:'' y \<and> \<not> starts '':'' y" "\<not> so_terminal st"
  shows "sse_frame t frame st = (Raised ''sse_field'', st)"
  by (rule separator_raises[OF assms])

theorem separator_in_payload_is_rejected_witness:
  "sse_frame 0 (lit ''data:{\"a\":\"'' @ [226, 128, 168] @ lit ''b\"}'') (new_observer chat_route None)
     = (Raised ''sse_field'', new_observer chat_route None)"
proof (rule separator_in_payload_is_rejected[where x = "lit ''{\"a\":\"''" and c = 8232 and y = "lit ''b\"}''"])
  show "utf8_decode (lit ''data:{\"a\":\"'' @ [226, 128, 168] @ lit ''b\"}'')
     = Some (lit ''data:'' @ lit ''{\"a\":\"'' @ 8232 # lit ''b\"}'')"
    by (simp add: lit_def cont_def)
qed (simp_all add: lit_def line_end_def starts_def new_observer_def)

end
