(* ===== verification/HttpReader.thy ===== *)
theory HttpReader
  imports Complex_Main Bytes
begin

text \<open>
  \<open>_Reader\<close>, \<open>_body_chunks\<close> and the parsing of a response head of \<open>scripts/gufo_control/smoke_http.py\<close>: reading
  an HTTP/1.1 response from a socket that delivers bytes in arbitrary pieces. Shown here: the reader is a
  faithful view of the byte stream whatever the pieces are, reading a body always ends, a chunk-encoded body is
  decoded to exactly the bytes that were encoded, and what is read never exceeds the limits.
\<close>

section \<open>The reader\<close>

text \<open>What the socket yields: data with its arrival time, or an exception of the deadline check or the socket
  layer (socket timeouts only repeat the call). No further item is the end of the stream.\<close>

datatype recv = Data "nat list" rat | Stop string

record reader =
  rd_input :: "recv list"
  rd_buffer :: "nat list"
  rd_arrivals :: "(nat \<times> rat) list"
  rd_raw :: "nat list"
  rd_wire :: nat
  rd_limit :: nat

definition new_reader :: "recv list \<Rightarrow> nat \<Rightarrow> reader" where
  "new_reader input limit = \<lparr>rd_input = input, rd_buffer = [], rd_arrivals = [], rd_raw = [], rd_wire = 0, rd_limit = limit\<rparr>"

definition rd_recv :: "reader \<Rightarrow> (string + nat list) \<times> reader" where
  "rd_recv rd = (case rd_input rd of
      [] \<Rightarrow> (Inr [], rd)
    | Stop e # r \<Rightarrow> (Inl e, rd\<lparr>rd_input := r\<rparr>)
    | Data d t # r \<Rightarrow>
        let rd = rd\<lparr>rd_input := r\<rparr> in
        if d = [] then (Inr [], rd)
        else let rd = rd\<lparr>rd_wire := rd_wire rd + length d\<rparr>
             in if rd_limit rd < rd_wire rd then (Inl ''response_wire_limit'', rd)
                else (Inr d, rd\<lparr>rd_raw := rd_raw rd @ d, rd_buffer := rd_buffer rd @ d,
                                rd_arrivals := rd_arrivals rd @ [(length d, t)]\<rparr>))"

text \<open>The bookkeeping of \<open>_consume\<close>; \<open>None\<close> is an \<open>IndexError\<close>.\<close>

fun use_arrivals :: "nat \<Rightarrow> (nat \<times> rat) list \<Rightarrow> rat option \<Rightarrow> (rat option \<times> (nat \<times> rat) list) option" where
  "use_arrivals n [] t = (if n = 0 then Some (t, []) else None)"
| "use_arrivals n ((c, a) # as) t =
     (if n = 0 then Some (t, (c, a) # as)
      else if c \<le> n then use_arrivals (n - c) as (Some a)
      else Some (Some a, (c - n, a) # as))"

definition rd_consume :: "nat \<Rightarrow> reader \<Rightarrow> (string + nat list \<times> rat option) \<times> reader" where
  "rd_consume n rd = (case use_arrivals n (rd_arrivals rd) None of
      None \<Rightarrow> (Inl ''IndexError'', rd)
    | Some (t, as) \<Rightarrow> (Inr (take n (rd_buffer rd), t), rd\<lparr>rd_buffer := drop n (rd_buffer rd), rd_arrivals := as\<rparr>))"

text \<open>\<open>buffer.index(marker)\<close>.\<close>

fun find_sub :: "nat list \<Rightarrow> nat list \<Rightarrow> nat option" where
  "find_sub m [] = (if m = [] then Some 0 else None)"
| "find_sub m (x # xs) = (if prefix m (x # xs) then Some 0 else map_option Suc (find_sub m xs))"

lemma recv_shorter:
  "rd_recv rd = (Inr d, rd') \<Longrightarrow> d \<noteq> [] \<Longrightarrow> length (rd_input rd') < length (rd_input rd)"
  by (auto simp: rd_recv_def Let_def split: list.splits recv.splits if_splits)

function rd_until :: "nat list \<Rightarrow> nat \<Rightarrow> reader \<Rightarrow> (string + nat list) \<times> reader" where
  "rd_until marker limit rd = (case find_sub marker (rd_buffer rd) of
      Some i \<Rightarrow>
        if limit < i + length marker then (Inl ''response_header_limit'', rd)
        else (case rd_consume (i + length marker) rd of
            (Inl e, rd') \<Rightarrow> (Inl e, rd')
          | (Inr (out, t), rd') \<Rightarrow> (Inr out, rd'))
    | None \<Rightarrow>
        if limit < length (rd_buffer rd) then (Inl ''response_header_limit'', rd)
        else (case rd_recv rd of
            (Inl e, rd') \<Rightarrow> (Inl e, rd')
          | (Inr d, rd') \<Rightarrow> if d = [] then (Inl ''truncated_response'', rd') else rd_until marker limit rd'))"
  by pat_completeness auto
termination
  by (relation "measure (\<lambda>(m, l, rd). length (rd_input rd))") (auto dest: recv_shorter[OF sym])

function rd_exact :: "nat \<Rightarrow> reader \<Rightarrow> (string + nat list) \<times> reader" where
  "rd_exact n rd =
     (if length (rd_buffer rd) < n
      then (case rd_recv rd of
          (Inl e, rd') \<Rightarrow> (Inl e, rd')
        | (Inr d, rd') \<Rightarrow> if d = [] then (Inl ''truncated_response'', rd') else rd_exact n rd')
      else (case rd_consume n rd of
          (Inl e, rd') \<Rightarrow> (Inl e, rd')
        | (Inr (out, t), rd') \<Rightarrow> (Inr out, rd')))"
  by pat_completeness auto
termination
  by (relation "measure (\<lambda>(n, rd). length (rd_input rd))") (auto dest: recv_shorter[OF sym])

declare rd_until.simps [simp del] rd_exact.simps [simp del]

definition rd_some :: "nat \<Rightarrow> reader \<Rightarrow> (string + nat list \<times> rat option) \<times> reader" where
  "rd_some maximum rd0 = (case (if rd_buffer rd0 = [] then rd_recv rd0 else (Inr [], rd0)) of
      (Inl e, rd) \<Rightarrow> (Inl e, rd)
    | (Inr _, rd) \<Rightarrow>
        if rd_buffer rd = [] then (Inr ([], None), rd)
        else (case rd_arrivals rd of
            [] \<Rightarrow> (Inl ''IndexError'', rd)
          | (c, _) # _ \<Rightarrow> rd_consume (min maximum (min (length (rd_buffer rd)) c)) rd))"

section \<open>The stream behind it\<close>

fun piece :: "recv \<Rightarrow> nat list" where
  "piece (Data d t) = d"
| "piece (Stop e) = []"

definition incoming :: "reader \<Rightarrow> nat list" where
  "incoming rd = concat (map piece (rd_input rd))"

definition stream :: "reader \<Rightarrow> nat list" where
  "stream rd = rd_buffer rd @ incoming rd"

text \<open>The accounting of arrivals matches the buffer.\<close>

definition arrivals_ok :: "reader \<Rightarrow> bool" where
  "arrivals_ok rd \<longleftrightarrow> sum_list (map fst (rd_arrivals rd)) = length (rd_buffer rd) \<and> (\<forall>(c, t)\<in>set (rd_arrivals rd). 0 < c)"

text \<open>A connection on which nothing fails: only data, within the wire limit.\<close>

fun is_data :: "recv \<Rightarrow> bool" where
  "is_data (Data d t) = (d \<noteq> [])"
| "is_data (Stop e) = False"

definition clean :: "reader \<Rightarrow> bool" where
  "clean rd \<longleftrightarrow> arrivals_ok rd \<and> list_all is_data (rd_input rd) \<and> rd_wire rd + length (incoming rd) \<le> rd_limit rd"

lemma new_reader_arrivals: "arrivals_ok (new_reader input limit)"
  by (simp add: arrivals_ok_def new_reader_def)

lemma recv_clean:
  assumes "clean rd" "rd_input rd \<noteq> []"
  shows "\<exists>d rd'. rd_recv rd = (Inr d, rd') \<and> d \<noteq> [] \<and> clean rd' \<and> stream rd' = stream rd
    \<and> rd_buffer rd' = rd_buffer rd @ d"
proof (cases "rd_input rd")
  case (Cons i r)
  then obtain d t where i: "i = Data d t" "d \<noteq> []" using assms(1) by (cases i) (auto simp: clean_def)
  then show ?thesis
    using assms(1) Cons by (auto simp: rd_recv_def Let_def clean_def arrivals_ok_def incoming_def stream_def)
qed (use assms in simp)

lemma use_arrivals_ok:
  assumes "sum_list (map fst as) = m" "\<forall>(c, t)\<in>set as. 0 < c" "n \<le> m"
  shows "\<exists>t' as'. use_arrivals n as t = Some (t', as') \<and> sum_list (map fst as') = m - n \<and> (\<forall>(c, t)\<in>set as'. 0 < c)
    \<and> (n = 0 \<or> t' \<noteq> None)"
  using assms
proof (induction as arbitrary: n m t)
  case (Cons ca as)
  obtain c a where ca: "ca = (c, a)" by fastforce
  consider "n = 0" | "0 < n" "n < c" | "0 < n" "c \<le> n" by linarith
  then show ?case
  proof cases
    case 3
    have "\<exists>t' as'. use_arrivals (n - c) as (Some a) = Some (t', as') \<and> sum_list (map fst as') = (m - c) - (n - c)
       \<and> (\<forall>(c, t)\<in>set as'. 0 < c) \<and> (n - c = 0 \<or> t' \<noteq> None)"
      by (rule Cons.IH) (use Cons.prems ca 3 in auto)
    moreover have "use_arrivals 0 as (Some a) = Some (Some a, as)" by (cases as) auto
    ultimately show ?thesis using 3 Cons.prems ca by (cases "n = c") auto
  qed (use Cons.prems ca in auto)
qed simp

lemma consume_ok:
  assumes "arrivals_ok rd" "n \<le> length (rd_buffer rd)"
  shows "\<exists>t rd'. rd_consume n rd = (Inr (take n (rd_buffer rd), t), rd') \<and> arrivals_ok rd'
    \<and> rd_buffer rd' = drop n (rd_buffer rd) \<and> rd_input rd' = rd_input rd \<and> rd_wire rd' = rd_wire rd
    \<and> rd_limit rd' = rd_limit rd \<and> (n = 0 \<or> t \<noteq> None)"
proof -
  obtain t as where "use_arrivals n (rd_arrivals rd) None = Some (t, as)"
    "sum_list (map fst as) = length (rd_buffer rd) - n" "\<forall>(c, t)\<in>set as. 0 < c" "n = 0 \<or> t \<noteq> None"
    using use_arrivals_ok[of "rd_arrivals rd" "length (rd_buffer rd)" n None] assms by (auto simp: arrivals_ok_def)
  then show ?thesis by (auto simp: rd_consume_def arrivals_ok_def)
qed

lemma consume_clean:
  assumes "clean rd" "n \<le> length (rd_buffer rd)"
  shows "\<exists>t rd'. rd_consume n rd = (Inr (take n (stream rd), t), rd') \<and> clean rd' \<and> stream rd' = drop n (stream rd)
    \<and> (n = 0 \<or> t \<noteq> None)"
  using consume_ok[of rd n] assms by (auto simp: clean_def stream_def incoming_def)

lemma find_sub_bound: "find_sub m xs = Some i \<Longrightarrow> i + length m \<le> length xs"
  by (induction xs arbitrary: i) (auto split: if_splits dest: prefix_length_le)

lemma prefix_early: "prefix m (xs @ ys) \<Longrightarrow> length m \<le> length xs \<Longrightarrow> prefix m xs"
  using prefix_length_prefix[of m "xs @ ys" xs] by simp

lemma find_sub_append: "find_sub m xs = Some i \<Longrightarrow> find_sub m (xs @ ys) = Some i"
proof (induction xs arbitrary: i)
  case Nil
  then have "m = []" "i = 0" by (auto split: if_splits)
  then show ?case by (cases ys) auto
next
  case (Cons x xs)
  show ?case
  proof (cases "prefix m (x # xs)")
    case True
    then have "prefix m (x # xs @ ys)" using prefix_prefix[OF True, of ys] by simp
    then show ?thesis using True Cons.prems by simp
  next
    case False
    then obtain z where z: "find_sub m xs = Some z" "i = Suc z" using Cons.prems by auto
    then have "\<not> prefix m (x # xs @ ys)"
      using prefix_early[of m "x # xs" ys] find_sub_bound[OF z(1)] False by auto
    then show ?thesis using Cons.IH[OF z(1)] z by simp
  qed
qed

lemma find_sub_early:
  "find_sub m (xs @ ys) = Some i \<Longrightarrow> i + length m \<le> length xs \<Longrightarrow> find_sub m xs = Some i"
proof (induction xs arbitrary: i)
  case Nil
  then show ?case by simp
next
  case (Cons x xs)
  show ?case
  proof (cases "prefix m (x # xs @ ys)")
    case True
    then have "i = 0" using Cons.prems(1) by simp
    then have "length m \<le> length (x # xs)" using Cons.prems(2) by simp
    then have "prefix m (x # xs)"
      using True prefix_length_prefix[of m "x # xs @ ys" "x # xs"] by simp
    then show ?thesis using \<open>i = 0\<close> by simp
  next
    case False
    then have "\<not> prefix m (x # xs)" using prefix_prefix[of m "x # xs" ys] by auto
    then show ?thesis using False Cons by auto
  qed
qed

text \<open>On a clean connection the reads see the stream.\<close>

lemma until_clean:
  assumes "clean rd" "find_sub m (stream rd) = Some i" "i + length m \<le> limit"
  shows "\<exists>rd'. rd_until m limit rd = (Inr (take (i + length m) (stream rd)), rd') \<and> clean rd'
    \<and> stream rd' = drop (i + length m) (stream rd)"
  using assms
proof (induction "length (rd_input rd)" arbitrary: rd rule: less_induct)
  case less
  show ?case
  proof (cases "find_sub m (rd_buffer rd)")
    case (Some j)
    then have "j = i" using find_sub_append[OF Some] less.prems(2) by (simp add: stream_def)
    moreover have "i + length m \<le> length (rd_buffer rd)" using find_sub_bound Some calculation by blast
    ultimately show ?thesis
      using consume_clean[OF less.prems(1), of "i + length m"] Some less.prems(3) by (auto simp: rd_until.simps[of m limit rd])
  next
    case None
    have "rd_input rd \<noteq> []"
      using None less.prems(2) by (auto simp: stream_def incoming_def)
    then obtain d rd' where r: "rd_recv rd = (Inr d, rd')" "d \<noteq> []" "clean rd'" "stream rd' = stream rd"
      using recv_clean[OF less.prems(1)] by blast
    have "\<not> limit < length (rd_buffer rd)"
    proof
      assume l: "limit < length (rd_buffer rd)"
      have "find_sub m (rd_buffer rd) \<noteq> None"
        using less.prems(2,3) l find_sub_early[of m "rd_buffer rd" "incoming rd" i] by (simp add: stream_def)
      then show False using None by simp
    qed
    then show ?thesis
      using less.hyps[OF recv_shorter[OF r(1,2)] r(3)] less.prems r None by (simp add: rd_until.simps[of m limit rd])
  qed
qed

lemma exact_clean:
  assumes "clean rd" "n \<le> length (stream rd)"
  shows "\<exists>rd'. rd_exact n rd = (Inr (take n (stream rd)), rd') \<and> clean rd' \<and> stream rd' = drop n (stream rd)"
  using assms
proof (induction "length (rd_input rd)" arbitrary: rd rule: less_induct)
  case less
  show ?case
  proof (cases "length (rd_buffer rd) < n")
    case False
    then show ?thesis
      using consume_clean[OF less.prems(1), of n] by (auto simp: rd_exact.simps[of n rd])
  next
    case True
    then have "rd_input rd \<noteq> []" using less.prems(2) by (auto simp: stream_def incoming_def)
    then obtain d rd' where r: "rd_recv rd = (Inr d, rd')" "d \<noteq> []" "clean rd'" "stream rd' = stream rd"
      using recv_clean[OF less.prems(1)] by blast
    then show ?thesis
      using less.hyps[OF recv_shorter[OF r(1,2)] r(3)] less.prems True by (simp add: rd_exact.simps[of n rd])
  qed
qed

lemma some_clean:
  assumes "clean rd" "0 < maximum" "stream rd \<noteq> []"
  shows "\<exists>p t rd'. rd_some maximum rd = (Inr (p, Some t), rd') \<and> clean rd' \<and> p \<noteq> [] \<and> length p \<le> maximum
    \<and> stream rd = p @ stream rd'"
proof -
  obtain x rd1 where rd1: "(if rd_buffer rd = [] then rd_recv rd else (Inr [], rd)) = (Inr x, rd1)"
    "clean rd1" "rd_buffer rd1 \<noteq> []" "stream rd1 = stream rd"
  proof (cases "rd_buffer rd = []")
    case True
    then have "rd_input rd \<noteq> []" using assms(3) by (auto simp: stream_def incoming_def)
    then show ?thesis using recv_clean[OF assms(1)] True that by auto
  qed (use assms that in auto)
  have ok: "sum_list (map fst (rd_arrivals rd1)) = length (rd_buffer rd1)" "\<forall>(c, t)\<in>set (rd_arrivals rd1). 0 < c"
    using rd1(2) by (auto simp: clean_def arrivals_ok_def)
  then obtain c t as where as: "rd_arrivals rd1 = (c, t) # as" "0 < c"
    using rd1(3) by (cases "rd_arrivals rd1") auto
  let ?n = "min maximum (min (length (rd_buffer rd1)) c)"
  have n: "?n \<le> length (rd_buffer rd1)" "0 < ?n" using as(2) rd1(3) assms(2) by auto
  obtain t' rd' where c: "rd_consume ?n rd1 = (Inr (take ?n (stream rd1), t'), rd')" "clean rd'"
    "stream rd' = drop ?n (stream rd1)" "t' \<noteq> None"
    using consume_clean[OF rd1(2) n(1)] n(2) by auto
  have "take ?n (stream rd) \<noteq> []" using n(2) assms(3) by auto
  then show ?thesis
    using c rd1 as by (auto simp: rd_some_def)
qed

section \<open>Bodies\<close>

text \<open>What a body generator has yielded when it stops, normally or with an exception.\<close>

type_synonym parts = "(nat list \<times> rat option) list"

text \<open>The inner loop: \<open>remaining\<close> bytes in parts of at most 4096.\<close>

function rd_block :: "nat \<Rightarrow> reader \<Rightarrow> parts \<times> string option \<times> reader" where
  "rd_block remaining rd =
     (if remaining = 0 then ([], None, rd)
      else (case rd_some (min remaining 4096) rd of
          (Inl e, rd') \<Rightarrow> ([], Some e, rd')
        | (Inr (p, t), rd') \<Rightarrow>
            if p = [] then ([], Some ''truncated_response'', rd')
            else (case rd_block (remaining - length p) rd' of (ps, e, rd'') \<Rightarrow> ((p, t) # ps, e, rd''))))"
  by pat_completeness auto
termination
  by (relation "measure fst") auto

declare rd_block.simps [simp del]

text \<open>How much there is still to read.\<close>

definition rd_left :: "reader \<Rightarrow> nat" where
  "rd_left rd = length (stream rd) + length (rd_input rd)"

definition crlf :: "nat list" where "crlf = [13, 10]"

lemma recv_left: "rd_left (snd (rd_recv rd)) \<le> rd_left rd"
  by (auto simp: rd_recv_def rd_left_def stream_def incoming_def Let_def split: list.split recv.split)

lemma consume_left: "rd_left (snd (rd_consume n rd)) \<le> rd_left rd"
  by (auto simp: rd_consume_def rd_left_def stream_def incoming_def split: option.split)

lemma consume_left_less: "rd_consume n rd = (Inr (out, t), rd') \<Longrightarrow> out \<noteq> [] \<Longrightarrow> rd_left rd' < rd_left rd"
  by (auto simp: rd_consume_def rd_left_def stream_def incoming_def split: option.splits)

lemma consume_out: "rd_consume n rd = (Inr (out, t), rd') \<Longrightarrow> out = take n (rd_buffer rd)"
  by (auto simp: rd_consume_def split: option.splits)

lemma until_left: "rd_until m limit rd = (Inr out, rd') \<Longrightarrow> m \<noteq> [] \<Longrightarrow> rd_left rd' < rd_left rd"
proof (induction m limit rd rule: rd_until.induct)
  case (1 m limit rd)
  show ?case
  proof (cases "find_sub m (rd_buffer rd)")
    case (Some i)
    then obtain t where c: "rd_consume (i + length m) rd = (Inr (out, t), rd')"
      using "1.prems"(1) by (auto simp: rd_until.simps[of m limit rd] split: if_splits prod.splits sum.splits)
    have "rd_buffer rd \<noteq> []" using find_sub_bound[OF Some] "1.prems"(2) by auto
    then have "out \<noteq> []" using consume_out[OF c] "1.prems"(2) by simp
    then show ?thesis by (rule consume_left_less[OF c])
  next
    case None
    obtain d rd1 where r: "rd_recv rd = (Inr d, rd1)" "d \<noteq> []" "rd_until m limit rd1 = (Inr out, rd')" "\<not> limit < length (rd_buffer rd)"
      using "1.prems"(1) None by (auto simp: rd_until.simps[of m limit rd] split: if_splits prod.splits sum.splits)
    have "rd_left rd' < rd_left rd1" using "1.IH"[OF None r(4) r(1)[symmetric] refl r(2,3) "1.prems"(2)] .
    then show ?thesis using recv_left[of rd] r(1) by simp
  qed
qed

lemma exact_left: "rd_left (snd (rd_exact n rd)) \<le> rd_left rd"
proof (induction n rd rule: rd_exact.induct)
  case (1 n rd)
  show ?case
  proof (cases "length (rd_buffer rd) < n")
    case False
    then show ?thesis using consume_left[of n rd] by (auto simp: rd_exact.simps[of n rd] split: prod.split sum.split)
  next
    case True
    obtain x rd1 where r: "rd_recv rd = (x, rd1)" by fastforce
    show ?thesis
      using "1.IH"[OF True r[symmetric]] recv_left[of rd] True r
      by (cases x) (auto simp: rd_exact.simps[of n rd])
  qed
qed

lemma some_left: "rd_left (snd (rd_some m rd)) \<le> rd_left rd"
proof -
  obtain x rd1 where r: "(if rd_buffer rd = [] then rd_recv rd else (Inr [], rd)) = (x, rd1)" by fastforce
  then have "rd_left rd1 \<le> rd_left rd" using recv_left[of rd] by (auto split: if_splits)
  then show ?thesis
    using order.trans[OF consume_left[of _ rd1]] unfolding rd_some_def r
    by (auto split: sum.split list.split)
qed

lemma block_left: "rd_block n rd = (ps, e, rd') \<Longrightarrow> rd_left rd' \<le> rd_left rd"
proof (induction n rd arbitrary: ps e rd' rule: rd_block.induct)
  case (1 n rd)
  show ?case
  proof (cases "n = 0")
    case False
    obtain x rd1 where s: "rd_some (min n 4096) rd = (x, rd1)" by fastforce
    then have l: "rd_left rd1 \<le> rd_left rd" using some_left[of "min n 4096" rd] by simp
    show ?thesis
    proof (cases x)
      case (Inr pt)
      obtain p t where pt: "pt = (p, t)" by fastforce
      show ?thesis
      proof (cases "p = []")
        case ne: False
        obtain ps1 e1 rd2 where b: "rd_block (n - length p) rd1 = (ps1, e1, rd2)" by (metis prod_cases3)
        have "rd_left rd2 \<le> rd_left rd1" using "1.IH"[OF False s[symmetric] Inr pt[symmetric] ne b] .
        then show ?thesis using "1.prems" False s Inr pt ne b l by (simp add: rd_block.simps[of n rd])
      qed (use "1.prems" False s Inr pt l in \<open>simp add: rd_block.simps[of n rd]\<close>)
    qed (use "1.prems" False s l in \<open>simp add: rd_block.simps[of n rd]\<close>)
  qed (use "1.prems" in \<open>simp add: rd_block.simps[of 0 rd]\<close>)
qed

lemma until_crlf_left: "rd_until crlf limit rd = (Inr out, rd') \<Longrightarrow> rd_left rd' < rd_left rd"
  using until_left[of crlf limit rd out rd'] by (simp add: crlf_def)

lemma exact_left_pair: "rd_exact n rd = (x, rd') \<Longrightarrow> rd_left rd' \<le> rd_left rd"
  using exact_left[of n rd] by simp

text \<open>\<open>Transfer-Encoding: chunked\<close>.\<close>

function rd_chunked :: "nat \<Rightarrow> reader \<Rightarrow> parts \<times> string option \<times> reader" where
  "rd_chunked body_limit rd = (case rd_until crlf 128 rd of
      (Inl e, rd1) \<Rightarrow> ([], Some e, rd1)
    | (Inr line, rd1) \<Rightarrow>
        let digits = hd (split_at 59 (take (length line - 2) line)) in
        if digits = [] \<or> \<not> list_all is_hex digits then ([], Some ''malformed_chunk_size'', rd1)
        else
          let n = from_digits 16 digits in
          if body_limit < n then ([], Some ''response_body_limit'', rd1)
          else if n = 0 then
            (case rd_exact 2 rd1 of
               (Inl e, rd2) \<Rightarrow> ([], Some e, rd2)
             | (Inr b, rd2) \<Rightarrow> ([], if b = crlf then None else Some ''malformed_chunk_end'', rd2))
          else (case rd_block n rd1 of
              (ps, Some e, rd2) \<Rightarrow> (ps, Some e, rd2)
            | (ps, None, rd2) \<Rightarrow> (case rd_exact 2 rd2 of
                (Inl e, rd3) \<Rightarrow> (ps, Some e, rd3)
              | (Inr b, rd3) \<Rightarrow>
                  if b \<noteq> crlf then (ps, Some ''malformed_chunk_end'', rd3)
                  else (case rd_chunked body_limit rd3 of (qs, e, rd4) \<Rightarrow> (ps @ qs, e, rd4)))))"
  by pat_completeness auto
termination
  by (relation "measure (\<lambda>(l, rd). rd_left rd)")
    (auto dest!: until_crlf_left[OF sym] block_left[OF sym] exact_left_pair[OF sym])

declare rd_chunked.simps [simp del]

text \<open>A body that ends with the connection: fuel is not needed, every part uses up some of what is left.\<close>

lemma some_less: "rd_some m rd = (Inr (p, t), rd') \<Longrightarrow> p \<noteq> [] \<Longrightarrow> rd_left rd' < rd_left rd"
proof -
  assume a: "rd_some m rd = (Inr (p, t), rd')" "p \<noteq> []"
  obtain x rd1 where r: "(if rd_buffer rd = [] then rd_recv rd else (Inr [], rd)) = (x, rd1)" by fastforce
  then have l: "rd_left rd1 \<le> rd_left rd" using recv_left[of rd] by (auto split: if_splits)
  obtain n where "rd_consume n rd1 = (Inr (p, t), rd')"
    using a unfolding rd_some_def r by (auto split: sum.splits list.splits if_splits)
  then show ?thesis using consume_left_less[of n rd1 p t rd'] a(2) l by simp
qed

function rd_to_end :: "reader \<Rightarrow> parts \<times> string option \<times> reader" where
  "rd_to_end rd = (case rd_some 4096 rd of
      (Inl e, rd') \<Rightarrow> ([], Some e, rd')
    | (Inr (p, t), rd') \<Rightarrow>
        if p = [] then ([], None, rd')
        else (case rd_to_end rd' of (ps, e, rd'') \<Rightarrow> ((p, t) # ps, e, rd'')))"
  by pat_completeness auto
termination
  by (relation "measure rd_left") (auto dest!: some_less[OF sym])

declare rd_to_end.simps [simp del]

text \<open>A header field of a response; a Python \<open>dict\<close> of lower-case names.\<close>

type_synonym headers = "(pystr \<times> pystr) list"

definition header_of :: "headers \<Rightarrow> string \<Rightarrow> pystr option" where
  "header_of hs n = map_of hs (lit n)"

text \<open>\<open>str.lower()\<close> on the ASCII letters; response heads are decoded as ISO 8859-1, whose other capital letters
  are mapped too.\<close>

definition lower_char :: "nat \<Rightarrow> nat" where
  "lower_char c = (if 65 \<le> c \<and> c \<le> 90 \<or> 192 \<le> c \<and> c \<le> 222 \<and> c \<noteq> 215 then c + 32 else c)"

definition lower :: "pystr \<Rightarrow> pystr" where
  "lower s = map lower_char s"

text \<open>\<open>_body_chunks\<close>. Python refuses to convert more than 4300 digits, which is a \<open>ValueError\<close> as well.\<close>

definition body_chunks :: "headers \<Rightarrow> nat \<Rightarrow> reader \<Rightarrow> parts \<times> string option \<times> reader" where
  "body_chunks hs body_limit rd =
     (if map_option lower (header_of hs ''transfer-encoding'') = Some (lit ''chunked'') then rd_chunked body_limit rd
      else (case header_of hs ''content-length'' of
          None \<Rightarrow> rd_to_end rd
        | Some digits \<Rightarrow>
            if digits = [] \<or> \<not> list_all is_digit digits \<or> 4300 < length digits
            then ([], Some ''malformed_content_length'', rd)
            else if body_limit < from_digits 10 digits then ([], Some ''response_body_limit'', rd)
            else rd_block (from_digits 10 digits) rd))"

section \<open>The head of a response\<close>

text \<open>\<open>str.strip()\<close> of the characters up to U+00FF that Python counts as white space.\<close>

definition is_blank :: "nat \<Rightarrow> bool" where
  "is_blank c \<longleftrightarrow> 9 \<le> c \<and> c \<le> 13 \<or> 28 \<le> c \<and> c \<le> 32 \<or> c = 133 \<or> c = 160"

definition trim :: "pystr \<Rightarrow> pystr" where
  "trim s = rev (dropWhile is_blank (rev (dropWhile is_blank s)))"

text \<open>\<open>text.split('\r\n')\<close>.\<close>

fun split_crlf :: "pystr \<Rightarrow> pystr \<Rightarrow> pystr list" where
  "split_crlf cur [] = [cur]"
| "split_crlf cur [c] = [cur @ [c]]"
| "split_crlf cur (c # d # r) =
     (if c = 13 \<and> d = 10 then cur # split_crlf [] r else split_crlf (cur @ [c]) (d # r))"

fun parse_headers :: "pystr list \<Rightarrow> headers \<Rightarrow> string + headers" where
  "parse_headers [] hs = Inr hs"
| "parse_headers (line # ls) hs =
     (if 58 \<notin> set line then Inl ''malformed_header''
      else let name = lower (trim (takeWhile (\<lambda>c. c \<noteq> 58) line));
               v = trim (tl (dropWhile (\<lambda>c. c \<noteq> 58) line))
           in if name \<in> set (map fst hs) then Inl ''duplicate_header'' else parse_headers ls (hs @ [(name, v)]))"

text \<open>\<open>int(text)\<close> for the status: \<open>None\<close> is its \<open>ValueError\<close>. Signs and single underscores between digits
  are accepted by Python.\<close>

fun digits_ok :: "pystr \<Rightarrow> bool" where
  "digits_ok [] = False"
| "digits_ok [c] = is_digit c"
| "digits_ok (c # d # r) = (is_digit c \<and> (if d = 95 then digits_ok r else digits_ok (d # r)))"

definition parse_status :: "pystr \<Rightarrow> int option" where
  "parse_status s0 =
     (let s = trim s0;
          body = (case s of c # r \<Rightarrow> if c = 43 \<or> c = 45 then r else s | [] \<Rightarrow> []);
          n = int (from_digits 10 (filter is_digit body))
      in if digits_ok body \<and> length (filter is_digit body) \<le> 4300
         then Some (if take 1 s = [45] then - n else n) else None)"

text \<open>The head up to the body: status and headers, or the error.\<close>

definition parse_head :: "nat list \<Rightarrow> string + int \<times> headers" where
  "parse_head raw =
     (case split_crlf [] (take (length raw - 4) raw) of
        [] \<Rightarrow> Inl ''malformed_status''
      | first # rest \<Rightarrow> (case split_at 32 first of
            v # code # _ \<Rightarrow>
              if \<not> prefix (lit ''HTTP/1.'') v then Inl ''malformed_status''
              else (case parse_status code of
                  None \<Rightarrow> Inl ''malformed_status''
                | Some status \<Rightarrow> (case parse_headers rest [] of
                      Inl e \<Rightarrow> Inl e
                    | Inr hs \<Rightarrow> (case header_of hs ''transfer-encoding'' of
                          Some t \<Rightarrow>
                            if lower t \<noteq> lit ''chunked'' then Inl ''unsupported_transfer_encoding''
                            else if header_of hs ''content-length'' \<noteq> None then Inl ''ambiguous_response_framing''
                            else Inr (status, hs)
                        | None \<Rightarrow> Inr (status, hs))))
          | _ \<Rightarrow> Inl ''malformed_status''))"

text \<open>The receiving half of \<open>_exchange\<close>: the head, then the parts of the body within \<open>body_limit\<close> in total;
  \<open>late\<close> is the outcome of the last deadline check.\<close>

definition within_total :: "nat \<Rightarrow> parts \<Rightarrow> bool" where
  "within_total limit ps \<longleftrightarrow> sum_list (map (length \<circ> fst) ps) \<le> limit"

definition rd_response :: "nat \<Rightarrow> string option \<Rightarrow> reader \<Rightarrow> string + int \<times> headers \<times> parts" where
  "rd_response body_limit late rd = (case rd_until [13, 10, 13, 10] 16384 rd of
      (Inl e, _) \<Rightarrow> Inl e
    | (Inr raw, rd1) \<Rightarrow> (case parse_head raw of
          Inl e \<Rightarrow> Inl e
        | Inr (status, hs) \<Rightarrow> (case body_chunks hs body_limit rd1 of
              (ps, e, rd2) \<Rightarrow>
                if \<not> within_total body_limit ps then Inl ''response_body_limit''
                else (case e of
                    Some x \<Rightarrow> Inl x
                  | None \<Rightarrow> (case late of Some x \<Rightarrow> Inl x | None \<Rightarrow> Inr (status, hs, ps))))))"

section \<open>Encoding and decoding\<close>

definition hex_char :: "nat \<Rightarrow> nat" where
  "hex_char d = (if d < 10 then 48 + d else 87 + d)"

fun to_hex :: "nat \<Rightarrow> nat list" where
  "to_hex n = (if n < 16 then [hex_char n] else to_hex (n div 16) @ [hex_char (n mod 16)])"

declare to_hex.simps [simp del]

text \<open>A body as a server sends it in chunks.\<close>

definition encode_chunks :: "nat list list \<Rightarrow> nat list" where
  "encode_chunks bs = concat (map (\<lambda>b. to_hex (length b) @ crlf @ b @ crlf) bs) @ [48] @ crlf @ crlf"

lemma hex_char_ok: "d < 16 \<Longrightarrow> is_hex (hex_char d) \<and> hex_value (hex_char d) = d"
  by (auto simp: hex_char_def is_hex_def hex_value_def)

lemma to_hex_ok: "to_hex n \<noteq> [] \<and> list_all is_hex (to_hex n) \<and> from_digits 16 (to_hex n) = n"
proof (induction n rule: to_hex.induct)
  case (1 n)
  show ?case
  proof (cases "n < 16")
    case True
    then show ?thesis using hex_char_ok[of n] by (simp add: to_hex.simps[of n] from_digits_def)
  next
    case False
    have "n mod 16 < 16" by simp
    then show ?thesis
      using 1[OF False] False hex_char_ok[of "n mod 16"] by (simp add: to_hex.simps[of n] from_digits_def)
  qed
qed

lemma to_hex_length: "n < 16 ^ k \<Longrightarrow> 0 < k \<Longrightarrow> length (to_hex n) \<le> k"
proof (induction k arbitrary: n)
  case (Suc k)
  show ?case
  proof (cases "n < 16")
    case False
    then have "0 < k" using Suc.prems by (cases k) auto
    moreover have "n div 16 < 16 ^ k" using Suc.prems(1) by (simp add: less_mult_imp_div_less mult.commute)
    ultimately show ?thesis using Suc.IH[of "n div 16"] False by (simp add: to_hex.simps[of n])
  qed (simp add: to_hex.simps[of n])
qed simp

lemma hex_plain: "list_all is_hex h \<Longrightarrow> 13 \<notin> set h \<and> 59 \<notin> set h"
  by (auto simp: list_all_iff is_hex_def)

lemma find_crlf: "13 \<notin> set h \<Longrightarrow> find_sub crlf (h @ crlf @ r) = Some (length h)"
proof (induction h)
  case (Cons c h)
  then show ?case by (auto simp: crlf_def)
qed (simp add: crlf_def)

lemma split_at_absent: "c \<notin> set s \<Longrightarrow> split_at c s = [s]"
  by (induction s) auto

lemma block_clean:
  assumes "clean rd" "n \<le> length (stream rd)"
  shows "\<exists>ps rd'. rd_block n rd = (ps, None, rd') \<and> clean rd' \<and> concat (map fst ps) = take n (stream rd)
    \<and> stream rd' = drop n (stream rd)"
  using assms
proof (induction n arbitrary: rd rule: less_induct)
  case (less n)
  show ?case
  proof (cases "n = 0")
    case False
    then have "stream rd \<noteq> []" using less.prems(2) by auto
    then obtain p t rd1 where s: "rd_some (min n 4096) rd = (Inr (p, Some t), rd1)" "clean rd1" "p \<noteq> []"
      "length p \<le> min n 4096" "stream rd = p @ stream rd1"
      using some_clean[OF less.prems(1), of "min n 4096"] False by auto
    have fewer: "n - length p < n" using s(3) False by (cases p) auto
    have left: "n - length p \<le> length (stream rd1)" using s(5) less.prems(2) by simp
    obtain ps rd2 where b: "rd_block (n - length p) rd1 = (ps, None, rd2)" "clean rd2"
      "concat (map fst ps) = take (n - length p) (stream rd1)" "stream rd2 = drop (n - length p) (stream rd1)"
      using less.IH[OF fewer s(2) left] by blast
    then show ?thesis using s False by (simp add: rd_block.simps[of n rd])
  qed (use less.prems in \<open>simp add: rd_block.simps[of 0 rd]\<close>)
qed

lemma size_line:
  assumes "clean rd" "stream rd = h @ crlf @ r" "list_all is_hex h" "h \<noteq> []" "length h \<le> 126"
  obtains rd' where "rd_until crlf 128 rd = (Inr (h @ crlf), rd')" "clean rd'" "stream rd' = r"
    "hd (split_at 59 (take (length (h @ crlf) - 2) (h @ crlf))) = h"
proof -
  have "find_sub crlf (stream rd) = Some (length h)" unfolding assms(2) using find_crlf hex_plain[OF assms(3)] by blast
  then obtain rd' where "rd_until crlf 128 rd = (Inr (take (length h + length crlf) (stream rd)), rd')" "clean rd'"
    "stream rd' = drop (length h + length crlf) (stream rd)"
    using until_clean[OF assms(1), of crlf "length h" 128] assms(5) by (auto simp: crlf_def)
  then show thesis
    using that[of rd'] split_at_absent[of 59 h] hex_plain[OF assms(3)] by (simp add: assms(2) crlf_def)
qed

lemma chunks_decoded:
  assumes "clean rd" "stream rd = encode_chunks bs @ rest" "\<And>b. b \<in> set bs \<Longrightarrow> b \<noteq> [] \<and> length b \<le> limit" "limit < 16 ^ 126"
  shows "\<exists>ps rd'. rd_chunked limit rd = (ps, None, rd') \<and> concat (map fst ps) = concat bs \<and> clean rd' \<and> stream rd' = rest"
  using assms
proof (induction bs arbitrary: rd)
  case Nil
  have st: "stream rd = [48] @ crlf @ crlf @ rest" using Nil.prems(2) by (simp add: encode_chunks_def)
  obtain rd1 where u: "rd_until crlf 128 rd = (Inr ([48] @ crlf), rd1)" "clean rd1" "stream rd1 = crlf @ rest"
    "hd (split_at 59 (take (length ([48] @ crlf) - 2) ([48] @ crlf))) = [48]"
    by (rule size_line[OF Nil.prems(1) st]) (auto simp: is_hex_def)
  obtain rd2 where "rd_exact 2 rd1 = (Inr crlf, rd2)" "clean rd2" "stream rd2 = rest"
    using exact_clean[OF u(2), of 2] u(3) by (auto simp: crlf_def)
  then show ?case
    using u by (simp add: rd_chunked.simps[of limit rd] is_hex_def from_digits_def hex_value_def)
next
  case (Cons b bs)
  let ?h = "to_hex (length b)"
  have b: "b \<noteq> []" "length b \<le> limit" using Cons.prems(3) by auto
  have st: "stream rd = ?h @ crlf @ (b @ crlf @ encode_chunks bs @ rest)" using Cons.prems(2) by (simp add: encode_chunks_def)
  have h: "?h \<noteq> []" "list_all is_hex ?h" "from_digits 16 ?h = length b" using to_hex_ok by auto
  have "length ?h \<le> 126" using to_hex_length[of "length b" 126] b(2) Cons.prems(4) by linarith
  then obtain rd1 where u: "rd_until crlf 128 rd = (Inr (?h @ crlf), rd1)" "clean rd1" "stream rd1 = b @ crlf @ encode_chunks bs @ rest"
    "hd (split_at 59 (take (length (?h @ crlf) - 2) (?h @ crlf))) = ?h"
    using size_line[OF Cons.prems(1) st h(2,1)] by blast
  obtain ps rd2 where bl: "rd_block (length b) rd1 = (ps, None, rd2)" "clean rd2" "concat (map fst ps) = b"
    "stream rd2 = crlf @ encode_chunks bs @ rest"
    using block_clean[OF u(2), of "length b"] u(3) by auto
  obtain rd3 where e: "rd_exact 2 rd2 = (Inr crlf, rd3)" "clean rd3" "stream rd3 = encode_chunks bs @ rest"
    using exact_clean[OF bl(2), of 2] bl(4) by (auto simp: crlf_def)
  obtain qs rd4 where q: "rd_chunked limit rd3 = (qs, None, rd4)" "concat (map fst qs) = concat bs" "clean rd4" "stream rd4 = rest"
    using Cons.IH[OF e(2,3)] Cons.prems(3,4) by auto
  show ?case
    using u bl e q h b by (simp add: rd_chunked.simps[of limit rd] Let_def)
qed

section \<open>Properties\<close>

text \<open>C27. Chunked transfer round trip: however the socket cuts the bytes (it delivers data and does not fail), as long
  as the whole encoded body, chunk headers included, and what the peer sends behind it stay within the wire limit, a
  body sent as non-empty chunks, each of them within the body limit, is decoded to exactly the bytes of the chunks, with
  no error, and the reader stands right behind the terminating chunk. The body limit itself has at most 126
  hexadecimal digits.\<close>

theorem chunked_body_roundtrip:
  assumes "list_all is_data input" "concat (map piece input) = encode_chunks bs @ rest"
    and "length (encode_chunks bs @ rest) \<le> wire_limit"
    and "list_all (\<lambda>b. b \<noteq> [] \<and> length b \<le> body_limit) bs" "body_limit < 16 ^ 126"
  shows "\<exists>ps rd. rd_chunked body_limit (new_reader input wire_limit) = (ps, None, rd)
    \<and> concat (map fst ps) = concat bs \<and> stream rd = rest"
proof -
  have "clean (new_reader input wire_limit)" "stream (new_reader input wire_limit) = encode_chunks bs @ rest"
    using assms(1-3) new_reader_arrivals[of input wire_limit]
    by (simp_all add: clean_def new_reader_def incoming_def stream_def)
  then show ?thesis using chunks_decoded[of "new_reader input wire_limit" bs rest body_limit] assms(4,5) by (auto simp: list_all_iff)
qed

theorem chunked_body_roundtrip_witness:
  "\<exists>ps rd. rd_chunked 10 (new_reader [Data [50, 13] 1, Data [10, 7, 8, 13, 10, 48] 2, Data [13, 10, 13, 10] 3] 100) = (ps, None, rd)
     \<and> concat (map fst ps) = [7, 8]"
proof -
  have "\<exists>ps rd. rd_chunked 10 (new_reader [Data [50, 13] 1, Data [10, 7, 8, 13, 10, 48] 2, Data [13, 10, 13, 10] 3] 100) = (ps, None, rd)
     \<and> concat (map fst ps) = concat [[7, 8]] \<and> stream rd = []"
    by (rule chunked_body_roundtrip) (simp_all add: encode_chunks_def crlf_def to_hex.simps hex_char_def)
  then show ?thesis by auto
qed

text \<open>What a response that is returned looks like.\<close>

lemma parse_headers_distinct:
  "parse_headers ls hs = Inr hs' \<Longrightarrow> distinct (map fst hs) \<Longrightarrow> distinct (map fst hs')"
  by (induction ls hs rule: parse_headers.induct) (auto simp: Let_def split: if_splits)

lemma parse_head_framing:
  assumes "parse_head raw = Inr (status, hs)"
  shows "distinct (map fst hs)"
    "header_of hs ''transfer-encoding'' = Some t \<Longrightarrow> lower t = lit ''chunked'' \<and> header_of hs ''content-length'' = None"
  using assms parse_headers_distinct[of _ "[]"]
  by (auto simp: parse_head_def split: list.splits if_splits option.splits sum.splits)

lemma some_bound: "rd_some m rd = (Inr (p, t), rd') \<Longrightarrow> length p \<le> m"
  by (auto simp: rd_some_def rd_consume_def split: prod.splits sum.splits list.splits if_splits option.splits)

lemma block_length:
  "rd_block n rd = (ps, e, rd') \<Longrightarrow> sum_list (map (length \<circ> fst) ps) \<le> n \<and> (e = None \<longrightarrow> sum_list (map (length \<circ> fst) ps) = n)
     \<and> (\<forall>p\<in>set ps. length (fst p) \<le> 4096 \<and> fst p \<noteq> [])"
proof (induction n rd arbitrary: ps e rd' rule: rd_block.induct)
  case (1 n rd)
  show ?case
  proof (cases "n = 0")
    case False
    obtain x rd1 where s: "rd_some (min n 4096) rd = (x, rd1)" by fastforce
    show ?thesis
    proof (cases x)
      case (Inr pt)
      obtain p t where pt: "pt = (p, t)" by fastforce
      have len: "length p \<le> min n 4096" using some_bound[of "min n 4096" rd p t rd1] s Inr pt by simp
      show ?thesis
      proof (cases "p = []")
        case ne: False
        obtain ps1 e1 rd2 where b: "rd_block (n - length p) rd1 = (ps1, e1, rd2)" by (metis prod_cases3)
        show ?thesis
          using "1.IH"[OF False s[symmetric] Inr pt[symmetric] ne b] "1.prems" False s Inr pt ne b len
          by (auto simp: rd_block.simps[of n rd])
      qed (use "1.prems" False s Inr pt in \<open>auto simp: rd_block.simps[of n rd]\<close>)
    qed (use "1.prems" False s in \<open>auto simp: rd_block.simps[of n rd]\<close>)
  qed (use "1.prems" in \<open>simp add: rd_block.simps[of 0 rd]\<close>)
qed

text \<open>A response is returned only when its framing is unambiguous and its body within the limit: no header name
  occurs twice, the transfer encoding is \<open>chunked\<close> or absent, never together with a content length, and where a
  content length was announced the body has exactly that many bytes.\<close>

theorem response_is_framed:
  assumes "rd_response body_limit late rd = Inr (status, hs, ps)"
  shows "distinct (map fst hs) \<and> length (concat (map fst ps)) \<le> body_limit
    \<and> (case header_of hs ''transfer-encoding'' of
          Some t \<Rightarrow> lower t = lit ''chunked'' \<and> header_of hs ''content-length'' = None
        | None \<Rightarrow> (case header_of hs ''content-length'' of
              Some digits \<Rightarrow> list_all is_digit digits \<and> length (concat (map fst ps)) = from_digits 10 digits
            | None \<Rightarrow> True))"
proof -
  obtain raw rd1 rd2 where r: "parse_head raw = Inr (status, hs)" "body_chunks hs body_limit rd1 = (ps, None, rd2)"
    "within_total body_limit ps"
    using assms by (auto simp: rd_response_def split: prod.splits sum.splits if_splits option.splits)
  have len: "sum_list (map (length \<circ> fst) ps) = length (concat (map fst ps))" by (simp add: length_concat comp_def)
  have body: "header_of hs ''transfer-encoding'' = None \<Longrightarrow> header_of hs ''content-length'' = Some d \<Longrightarrow>
      list_all is_digit d \<and> length (concat (map fst ps)) = from_digits 10 d" for d
    using r(2) block_length[of "from_digits 10 d" rd1 ps None rd2] len by (auto simp: body_chunks_def split: if_splits)
  show ?thesis
    using parse_head_framing[OF r(1)] body r(3) len by (auto simp: within_total_def split: option.split)
qed

text \<open>A reply in two pieces, \<open>HTTP/1.1 200 OK\<close> with \<open>Content-Length: 2\<close>.\<close>

definition small_reply :: "recv list" where
  "small_reply = [Data (lit ''HTTP/1.1 200 OK'' @ crlf @ lit ''Content-Length: 2'' @ [13]) 1, Data ([10] @ crlf @ [7]) 2, Data [9, 9] 3]"

lemma small_reply_read:
  "rd_response 100 None (new_reader small_reply 1000)
     = Inr (200, [(lit ''content-length'', lit ''2'')], [([7], Some 2), ([9], Some 3)])"
  by code_simp

theorem response_is_framed_witness:
  "\<exists>hs ps. rd_response 100 None (new_reader small_reply 1000) = Inr (200, hs, ps)
     \<and> distinct (map fst hs) \<and> length (concat (map fst ps)) \<le> 100"
  using small_reply_read response_is_framed[OF small_reply_read] by blast

end
