(* ===== verification/SmokeUsage.thy ===== *)
theory SmokeUsage
  imports PyVal
begin

text \<open>
  \<open>_validate_usage\<close> of \<open>scripts/gufo_control/smoke_http.py\<close>: the token accounting of one completion, read from
  the engine's \<open>usage\<close> and \<open>timings\<close> objects. Shown here: a report without problems accounts for every prompt
  token, and the problems are named once.
\<close>

section \<open>Reading a field\<close>

text \<open>\<open>_int_or_none\<close> and \<open>_number_or_none\<close>; \<open>Inl\<close> is the \<open>OverflowError\<close> of \<open>math.isfinite\<close> on an oversized
  \<open>int\<close>.\<close>

definition int_or_none :: "pyval \<Rightarrow> string + int option" where
  "int_or_none v = (case v of VInt i \<Rightarrow> Inr (if 0 \<le> i then Some i else None) | _ \<Rightarrow> Inr None)"

definition number_or_none :: "pyval \<Rightarrow> string + rat option" where
  "number_or_none v = (case finite_in (\<lambda>r. 0 \<le> r) v of
      None \<Rightarrow> Inl ''OverflowError''
    | Some ok \<Rightarrow> Inr (if ok then finite_num v else None))"

text \<open>The lists the reader appends to: problems and unavailable fields.\<close>

type_synonym jotted = "string list \<times> string list"

definition note_problem :: "bool \<Rightarrow> string \<Rightarrow> jotted \<Rightarrow> jotted" where
  "note_problem b p = (\<lambda>(ps, un). (if b then ps @ [p] else ps, un))"

type_synonym 'a reading = "jotted \<Rightarrow> string + 'a option \<times> jotted"

definition read_field ::
  "(pystr \<times> pyval) list \<Rightarrow> string \<Rightarrow> string \<Rightarrow> (pyval \<Rightarrow> string + 'a option) \<Rightarrow> bool \<Rightarrow> 'a reading" where
  "read_field source name label parser optional n =
     (if \<not> has_key source name then Inr (None, if optional then (fst n, snd n @ [label]) else n)
      else (case parser (get_item source name) of
          Inl e \<Rightarrow> Inl e
        | Inr v \<Rightarrow> Inr (v, note_problem (v = None) (''invalid_'' @ label) n)))"

definition and_then :: "'a reading \<Rightarrow> ('a option \<Rightarrow> 'b reading) \<Rightarrow> 'b reading" where
  "and_then m f n = (case m n of Inl e \<Rightarrow> Inl e | Inr (v, n') \<Rightarrow> f v n')"

definition noting :: "bool \<Rightarrow> string \<Rightarrow> 'b reading \<Rightarrow> 'b reading" where
  "noting b p k n = k (note_problem b p n)"

definition finish_with :: "'a \<Rightarrow> 'a reading" where
  "finish_with x n = Inr (Some x, n)"

text \<open>\<open>list(dict.fromkeys(problems))\<close>.\<close>

fun first_occurrences :: "'a list \<Rightarrow> 'a list \<Rightarrow> 'a list" where
  "first_occurrences seen [] = []"
| "first_occurrences seen (x # xs) =
     (if x \<in> set seen then first_occurrences seen xs else x # first_occurrences (x # seen) xs)"

lemma set_first_occurrences: "set (first_occurrences seen xs) = set xs - set seen"
  by (induction seen xs rule: first_occurrences.induct) auto

lemma distinct_first_occurrences: "distinct (first_occurrences seen xs)"
  by (induction seen xs rule: first_occurrences.induct) (auto simp: set_first_occurrences)

lemma first_occurrences_Nil: "first_occurrences [] xs = [] \<longleftrightarrow> xs = []"
  by (cases xs) auto

section \<open>The report\<close>

record usage_report =
  logical_prompt :: "int option"
  new_prefill :: "int option"
  cached_prompt :: "int option"
  completion :: "int option"
  total_count :: "int option"
  engine_prefill :: "rat option"
  engine_decode :: "rat option"
  engine_ttft :: "rat option"
  engine_queue :: "rat option"
  timing_prompt :: "rat option"
  timing_predicted :: "rat option"
  predicted_count :: "int option"
  draft_count :: "int option"
  draft_accepted :: "int option"

definition decimal_digit :: "int \<Rightarrow> char" where
  "decimal_digit d = char_of (nat d + 48)"

function decimal :: "int \<Rightarrow> string" where
  "decimal n = (if n < 10 then [decimal_digit n] else decimal (n div 10) @ [decimal_digit (n mod 10)])"
  by pat_completeness auto
termination
  by (relation "measure nat") auto

declare decimal.simps [simp del]

text \<open>Two known values that differ.\<close>

definition differ :: "int option \<Rightarrow> int option \<Rightarrow> bool" where
  "differ a b \<longleftrightarrow> a \<noteq> None \<and> b \<noteq> None \<and> a \<noteq> b"

definition over :: "int option \<Rightarrow> int \<Rightarrow> bool" where
  "over a m \<longleftrightarrow> (case a of None \<Rightarrow> False | Some x \<Rightarrow> m < x)"

definition plus_option :: "int option \<Rightarrow> int option \<Rightarrow> int option" where
  "plus_option a b = (case (a, b) of (Some x, Some y) \<Rightarrow> Some (x + y) | _ \<Rightarrow> None)"

definition is_true :: "pyval \<Rightarrow> bool" where
  "is_true v \<longleftrightarrow> v = VBool True"

text \<open>The checks on the token counts, in the order of the code.\<close>

definition count_checks ::
  "int \<Rightarrow> int \<Rightarrow> bool \<Rightarrow> (pystr \<times> pyval) list \<Rightarrow> int option \<Rightarrow> int option \<Rightarrow> int option \<Rightarrow> int option \<Rightarrow> int option
     \<Rightarrow> int option \<Rightarrow> int option \<Rightarrow> int option \<Rightarrow> (bool \<times> string) list" where
  "count_checks mp mc cold gufo prompt compl tot prefill timing_prefill cached legacy timing_cached =
     [(prompt = None \<or> compl = None \<or> prefill = None \<or> cached = None, ''required_token_count_unknown''),
      (over prompt mp, ''prompt_exceeds_'' @ decimal mp),
      (over compl mc, ''completion_exceeds_'' @ decimal mc),
      (cold \<and> cached \<noteq> None \<and> cached \<noteq> Some 0, ''cache_hit''),
      (cold \<and> (is_true (get_item gufo ''cache_hit'') \<or> is_true (get_item gufo ''cache_disk_hit'')), ''cache_hit''),
      (differ prefill timing_prefill, ''prefill_disagrees''),
      (differ cached legacy, ''cached_disagrees''),
      (differ cached timing_cached, ''cached_disagrees''),
      (differ prompt (plus_option prefill cached), ''prompt_parts_disagree''),
      (differ tot (plus_option prompt compl), ''total_disagrees'')]"

definition note_all :: "(bool \<times> string) list \<Rightarrow> jotted \<Rightarrow> jotted" where
  "note_all cs n = foldl (\<lambda>n (b, p). note_problem b p n) n cs"

definition noting_all :: "(bool \<times> string) list \<Rightarrow> 'b reading \<Rightarrow> 'b reading" where
  "noting_all cs k n = k (note_all cs n)"

definition first_known :: "'a option \<Rightarrow> 'a option \<Rightarrow> 'a option" where
  "first_known a b = (case a of None \<Rightarrow> b | Some _ \<Rightarrow> a)"

text \<open>An object that has to be a dict: its items, empty when it is not.\<close>

definition object_of :: "pyval \<Rightarrow> (pystr \<times> pyval) list" where
  "object_of v = (case v of VDict d \<Rightarrow> d | _ \<Rightarrow> [])"

definition bad_object :: "(pystr \<times> pyval) list \<Rightarrow> string \<Rightarrow> bool" where
  "bad_object d k \<longleftrightarrow> has_key d k \<and> as_dict (get_item d k) = None"

definition report_reading ::
  "(pystr \<times> pyval) list \<Rightarrow> (pystr \<times> pyval) list \<Rightarrow> (pystr \<times> pyval) list \<Rightarrow> int option \<Rightarrow> int option \<Rightarrow> int option
     \<Rightarrow> int option \<Rightarrow> int option \<Rightarrow> int option \<Rightarrow> usage_report reading" where
  "report_reading usage gufo timings prompt prefill cached compl tot predicted =
     (and_then (read_field gufo ''prefill_ms'' ''usage.gufo.prefill_ms'' number_or_none True) (\<lambda>e1.
      and_then (read_field gufo ''decode_ms'' ''usage.gufo.decode_ms'' number_or_none True) (\<lambda>e2.
      and_then (read_field gufo ''ttft_ms'' ''usage.gufo.ttft_ms'' number_or_none True) (\<lambda>e3.
      and_then (read_field gufo ''queue_ms'' ''usage.gufo.queue_ms'' number_or_none True) (\<lambda>e4.
      and_then (read_field timings ''prompt_ms'' ''timings.prompt_ms'' number_or_none True) (\<lambda>e5.
      and_then (read_field timings ''predicted_ms'' ''timings.predicted_ms'' number_or_none True) (\<lambda>e6.
      and_then (read_field usage ''draft_tokens'' ''usage.draft_tokens'' int_or_none True) (\<lambda>d1.
      and_then (read_field usage ''draft_tokens_accepted'' ''usage.draft_tokens_accepted'' int_or_none True) (\<lambda>d2.
      finish_with \<lparr>logical_prompt = prompt, new_prefill = prefill, cached_prompt = cached, completion = compl,
        total_count = tot, engine_prefill = e1, engine_decode = e2, engine_ttft = e3, engine_queue = e4,
        timing_prompt = e5, timing_predicted = e6, predicted_count = predicted, draft_count = d1,
        draft_accepted = d2\<rparr>)))))))))"

definition usage_reading ::
  "int \<Rightarrow> int \<Rightarrow> bool \<Rightarrow> (pystr \<times> pyval) list \<Rightarrow> (pystr \<times> pyval) list \<Rightarrow> usage_report reading" where
  "usage_reading mp mc cold usage timings =
    (let gufo = object_of (get_item usage ''gufo''); details = object_of (get_item usage ''prompt_tokens_details'') in
     noting (bad_object usage ''gufo'') ''invalid_usage.gufo''
     (noting (bad_object usage ''prompt_tokens_details'') ''invalid_usage.prompt_tokens_details''
     (and_then (read_field usage ''prompt_tokens'' ''usage.prompt_tokens'' int_or_none False) (\<lambda>prompt.
      and_then (read_field usage ''completion_tokens'' ''usage.completion_tokens'' int_or_none False) (\<lambda>compl.
      and_then (read_field usage ''total_tokens'' ''usage.total_tokens'' int_or_none True) (\<lambda>tot.
      and_then (read_field gufo ''prefill_tokens'' ''usage.gufo.prefill_tokens'' int_or_none False) (\<lambda>prefill0.
      and_then (read_field timings ''prompt_n'' ''timings.prompt_n'' int_or_none False) (\<lambda>timing_prefill.
      and_then (read_field details ''cached_tokens'' ''usage.prompt_tokens_details.cached_tokens'' int_or_none False) (\<lambda>cached0.
      and_then (read_field usage ''cached_tokens'' ''usage.cached_tokens'' int_or_none False) (\<lambda>legacy.
      and_then (read_field timings ''cache_n'' ''timings.cache_n'' int_or_none False) (\<lambda>timing_cached.
      let prefill = first_known prefill0 timing_prefill; cached = first_known cached0 (first_known legacy timing_cached) in
      noting_all (count_checks mp mc cold gufo prompt compl tot prefill timing_prefill cached legacy timing_cached)
     (and_then (read_field timings ''predicted_n'' ''timings.predicted_n'' int_or_none True) (\<lambda>predicted.
      noting (differ predicted compl) ''completion_disagrees''
        (report_reading usage gufo timings prompt prefill cached compl tot predicted))))))))))))))"

text \<open>The whole function: the report (\<open>None\<close> is the empty dict), the distinct problems, the unavailable fields.
  The cache policy is \<open>cold\<close> or \<open>allow\<close>.\<close>

definition validate_usage ::
  "pyval \<Rightarrow> pyval \<Rightarrow> pyval \<Rightarrow> pyval \<Rightarrow> pyval \<Rightarrow> string + usage_report option \<times> string list \<times> string list" where
  "validate_usage usage timings max_prompt max_completion policy = (case (max_prompt, max_completion) of
      (VInt mp, VInt mc) \<Rightarrow>
        if mp \<le> 0 \<or> mc \<le> 0 \<or> policy \<notin> {VStr (lit ''cold''), VStr (lit ''allow'')} then Inl ''invalid_usage_limits''
        else (case (usage, timings) of
            (VDict u, VDict t) \<Rightarrow>
              (case usage_reading mp mc (policy = VStr (lit ''cold'')) u t ([], []) of
                 Inl e \<Rightarrow> Inl e
               | Inr (r, ps, un) \<Rightarrow> Inr (r, first_occurrences [] ps, un))
          | _ \<Rightarrow> Inr (None, [''missing_usage_or_timings''], []))
    | _ \<Rightarrow> Inl ''invalid_usage_limits'')"

section \<open>A report without problems\<close>

text \<open>No reading removes a problem.\<close>

definition quiet :: "'a reading \<Rightarrow> bool" where
  "quiet m \<longleftrightarrow> (\<forall>n v n'. m n = Inr (v, n') \<longrightarrow> fst n' = [] \<longrightarrow> fst n = [])"

named_theorems quiet_intros

lemma quietI: "(\<And>n v n'. m n = Inr (v, n') \<Longrightarrow> fst n' = [] \<Longrightarrow> fst n = []) \<Longrightarrow> quiet m"
  unfolding quiet_def by blast

lemma quietD: "quiet m \<Longrightarrow> m n = Inr (v, n') \<Longrightarrow> fst n' = [] \<Longrightarrow> fst n = []"
  unfolding quiet_def by blast

lemma note_problem_Nil [simp]: "fst (note_problem b p n) = [] \<longleftrightarrow> fst n = [] \<and> \<not> b"
  by (auto simp: note_problem_def split: prod.split)

lemma note_all_Nil [simp]: "fst (note_all cs n) = [] \<longleftrightarrow> fst n = [] \<and> (\<forall>(b, p)\<in>set cs. \<not> b)"
  by (induction cs arbitrary: n) (auto simp: note_all_def)

lemma quiet_read [quiet_intros]: "quiet (read_field src name label parser opt)"
proof (rule quietI)
  fix n v n'
  assume a: "read_field src name label parser opt n = Inr (v, n')" "fst n' = []"
  show "fst n = []"
  proof (cases "has_key src name")
    case True
    then have "n' = note_problem (v = None) (''invalid_'' @ label) n"
      using a(1) by (auto simp: read_field_def split: sum.splits)
    then show ?thesis using a(2) by simp
  qed (use a in \<open>auto simp: read_field_def split: if_splits\<close>)
qed

lemma and_then_Inr: "and_then m f n = Inr r \<longleftrightarrow> (\<exists>v n1. m n = Inr (v, n1) \<and> f v n1 = Inr r)"
  by (auto simp: and_then_def split: sum.splits)

lemma quiet_bind [quiet_intros]: "quiet m \<Longrightarrow> (\<And>v. quiet (f v)) \<Longrightarrow> quiet (and_then m f)"
  by (rule quietI) (metis and_then_Inr quietD)

lemma quiet_noting [quiet_intros]: "quiet k \<Longrightarrow> quiet (noting b p k)"
  by (rule quietI) (metis noting_def note_problem_Nil quietD)

lemma quiet_noting_all [quiet_intros]: "quiet k \<Longrightarrow> quiet (noting_all cs k)"
  by (rule quietI) (metis noting_all_def note_all_Nil quietD)

lemma quiet_finish [quiet_intros]: "quiet (finish_with x)"
  by (simp add: quiet_def finish_with_def)

lemma quiet_report [quiet_intros]: "quiet (report_reading usage gufo timings prompt prefill cached compl tot predicted)"
  unfolding report_reading_def by (intro quiet_intros)

lemma quiet_step:
  assumes "and_then m f n = Inr (r, n')" "fst n' = []" "\<And>v. quiet (f v)"
  obtains v n1 where "m n = Inr (v, n1)" "fst n1 = []" "f v n1 = Inr (r, n')"
proof -
  obtain v n1 where v: "m n = Inr (v, n1)" "f v n1 = Inr (r, n')" using assms(1) unfolding and_then_Inr by blast
  then show thesis using that quietD[OF assms(3) v(2) assms(2)] by blast
qed

lemma read_int_quiet:
  assumes "read_field src name label int_or_none opt n = Inr (v, n')" "fst n' = []"
  shows "v \<noteq> None \<longrightarrow> (\<exists>i. v = Some i \<and> 0 \<le> i \<and> get_item src name = VInt i)"
  using assms by (auto simp: read_field_def int_or_none_def split: if_splits pyval.splits)

lemma report_fields:
  assumes "report_reading usage gufo timings prompt prefill cached compl tot predicted n = Inr (r, n')"
  shows "\<exists>rep. r = Some rep \<and> logical_prompt rep = prompt \<and> new_prefill rep = prefill \<and> cached_prompt rep = cached
    \<and> completion rep = compl \<and> total_count rep = tot \<and> predicted_count rep = predicted"
  using assms by (auto simp: report_reading_def and_then_Inr finish_with_def)

lemma quiet_note_step:
  assumes "noting b p k n = Inr (r, n')" "fst n' = []" "quiet k"
  obtains "\<not> b" "k (note_problem b p n) = Inr (r, n')"
  using assms quietD[OF assms(3), of "note_problem b p n" r n'] by (auto simp: noting_def)

lemma quiet_notes_step:
  assumes "noting_all cs k n = Inr (r, n')" "fst n' = []" "quiet k"
  obtains "\<forall>(b, p)\<in>set cs. \<not> b" "k (note_all cs n) = Inr (r, n')"
  using assms quietD[OF assms(3), of "note_all cs n" r n'] by (simp add: noting_all_def)

text \<open>What the steps of a reading without problems have found.\<close>

definition accounted :: "int \<Rightarrow> int \<Rightarrow> bool \<Rightarrow> (pystr \<times> pyval) list \<Rightarrow> usage_report \<Rightarrow> bool" where
  "accounted mp mc cold usage rep \<longleftrightarrow>
     (case (logical_prompt rep, completion rep, new_prefill rep, cached_prompt rep) of
        (Some p, Some k, Some f, Some c) \<Rightarrow>
          get_item usage ''prompt_tokens'' = VInt p \<and> get_item usage ''completion_tokens'' = VInt k
          \<and> p = f + c \<and> 0 \<le> f \<and> 0 \<le> c \<and> p \<le> mp \<and> 0 \<le> k \<and> k \<le> mc \<and> (cold \<longrightarrow> c = 0)
          \<and> total_count rep \<in> {None, Some (p + k)} \<and> predicted_count rep \<in> {None, Some k}
      | _ \<Rightarrow> False)"

lemma checks_accounted:
  assumes checks: "\<forall>(b, p)\<in>set (count_checks mp mc cold gufo prompt compl tot
      (first_known prefill0 timing_prefill) timing_prefill (first_known cached0 (first_known legacy timing_cached)) legacy timing_cached). \<not> b"
    and "\<not> differ predicted compl"
    and "prompt \<noteq> None \<longrightarrow> (\<exists>i. prompt = Some i \<and> 0 \<le> i \<and> get_item usage ''prompt_tokens'' = VInt i)"
    and "compl \<noteq> None \<longrightarrow> (\<exists>i. compl = Some i \<and> 0 \<le> i \<and> get_item usage ''completion_tokens'' = VInt i)"
    and "prefill0 \<noteq> None \<longrightarrow> (\<exists>i. prefill0 = Some i \<and> 0 \<le> i \<and> P1 i)"
    and "timing_prefill \<noteq> None \<longrightarrow> (\<exists>i. timing_prefill = Some i \<and> 0 \<le> i \<and> P2 i)"
    and "cached0 \<noteq> None \<longrightarrow> (\<exists>i. cached0 = Some i \<and> 0 \<le> i \<and> P3 i)"
    and "legacy \<noteq> None \<longrightarrow> (\<exists>i. legacy = Some i \<and> 0 \<le> i \<and> P4 i)"
    and "timing_cached \<noteq> None \<longrightarrow> (\<exists>i. timing_cached = Some i \<and> 0 \<le> i \<and> P5 i)"
    and "\<exists>rep. r = Some rep \<and> logical_prompt rep = prompt \<and> new_prefill rep = first_known prefill0 timing_prefill
      \<and> cached_prompt rep = first_known cached0 (first_known legacy timing_cached) \<and> completion rep = compl
      \<and> total_count rep = tot \<and> predicted_count rep = predicted"
  shows "\<exists>rep. r = Some rep \<and> accounted mp mc cold usage rep"
proof -
  let ?f = "first_known prefill0 timing_prefill" and ?c = "first_known cached0 (first_known legacy timing_cached)"
  have known: "prompt \<noteq> None" "compl \<noteq> None" "?f \<noteq> None" "?c \<noteq> None"
    using checks by (auto simp: count_checks_def)
  then obtain p k f c where v: "prompt = Some p" "compl = Some k" "?f = Some f" "?c = Some c" by auto
  have pos: "0 \<le> f" "0 \<le> c" using v assms(5-9) by (auto simp: first_known_def split: option.splits)
  have "p \<le> mp" "k \<le> mc" "cold \<longrightarrow> c = 0" "p = f + c" "tot \<in> {None, Some (p + k)}"
    using checks unfolding v by (auto simp: count_checks_def over_def differ_def plus_option_def)
  moreover have "predicted \<in> {None, Some k}" using assms(2) v by (auto simp: differ_def)
  ultimately show ?thesis using assms(3,4,10) v pos by (auto simp: accounted_def)
qed

lemma reading_accounted:
  assumes "usage_reading mp mc cold usage timings ([], []) = Inr (r, n')" "fst n' = []"
  shows "\<exists>rep. r = Some rep \<and> accounted mp mc cold usage rep"
proof -
  note empty = assms(2)
  note all = assms(1)[unfolded usage_reading_def Let_def]
  show ?thesis
    apply (rule quiet_note_step[OF all empty], (intro quiet_intros; fail))
    apply (erule quiet_note_step[OF _ empty], (intro quiet_intros; fail))
    apply (erule quiet_step[OF _ empty], (intro quiet_intros; fail))+
    apply (erule quiet_notes_step[OF _ empty], (intro quiet_intros; fail))
    apply (erule quiet_step[OF _ empty], (intro quiet_intros; fail))
    apply (erule quiet_note_step[OF _ empty], (intro quiet_intros; fail))
    apply (drule (1) read_int_quiet)+
    apply (drule report_fields)
    by (rule checks_accounted)
qed

lemma validated_accounted:
  assumes "validate_usage usage timings (VInt mp) (VInt mc) policy = Inr (r, [], un)"
  shows "\<exists>items rep. usage = VDict items \<and> r = Some rep
    \<and> accounted mp mc (policy = VStr (lit ''cold'')) items rep"
proof -
  obtain u t ps where v: "usage = VDict u" "timings = VDict t" "first_occurrences [] ps = []"
    "usage_reading mp mc (policy = VStr (lit ''cold'')) u t ([], []) = Inr (r, ps, un)"
    using assms by (auto simp: validate_usage_def split: if_splits pyval.splits sum.splits)
  have "ps = []" using v(3) first_occurrences_Nil by blast
  then show ?thesis using reading_accounted[OF v(4)] v(1) by simp
qed

text \<open>A usage report without problems accounts for every token: the prompt is the sum of the newly computed and
  the cached part, both known and non-negative, prompt and completion are the numbers the engine stated and
  within their limits, nothing was cached under the cold policy, and the totals the engine added agree.\<close>

theorem clean_usage_is_accounted:
  assumes "validate_usage usage timings (VInt mp) (VInt mc) policy = Inr (r, [], un)"
  shows "\<exists>items rep. usage = VDict items \<and> r = Some rep
    \<and> accounted mp mc (policy = VStr (lit ''cold'')) items rep"
  by (rule validated_accounted[OF assms])

definition demo_usage :: "(pystr \<times> pyval) list" where
  "demo_usage = [(lit ''prompt_tokens'', VInt 20), (lit ''completion_tokens'', VInt 3), (lit ''cached_tokens'', VInt 0)]"

definition demo_timings :: "(pystr \<times> pyval) list" where
  "demo_timings = [(lit ''prompt_n'', VInt 20), (lit ''predicted_n'', VInt 3)]"

lemma usage_demo_validated:
  "\<exists>r un. validate_usage (VDict demo_usage) (VDict demo_timings) (VInt 512) (VInt 64) (VStr (lit ''cold'')) = Inr (r, [], un)"
  by (simp add: validate_usage_def usage_reading_def report_reading_def demo_usage_def demo_timings_def and_then_def
      noting_def noting_all_def note_all_def note_problem_def read_field_def has_key_def get_item_def int_or_none_def
      object_of_def bad_object_def count_checks_def first_known_def differ_def over_def plus_option_def is_true_def
      finish_with_def)

theorem clean_usage_is_accounted_witness:
  "\<exists>rep. accounted 512 64 True demo_usage rep"
  using usage_demo_validated clean_usage_is_accounted[of "VDict demo_usage" "VDict demo_timings" 512 64 "VStr (lit ''cold'')"]
  by fastforce

end
