(* ===== verification/SmokeSse.thy ===== *)
theory SmokeSse
  imports Json "HOL-Library.AList"
begin

text \<open>
  \<open>_merge_tool_calls\<close> and \<open>parse_sse_response\<close> of \<open>scripts/gufo_control/smoke_http.py\<close>: assembling the answer, the
  reasoning and the tool calls of a streamed completion from the timed parts of its body. Shown here: how the
  body is cut into parts matters for the measured times only, tool call fragments are concatenated in order
  under their index, and a result is consistent.
\<close>

section \<open>Python equality\<close>

fun number_of :: "pyval \<Rightarrow> rat option" where
  "number_of (VBool b) = Some (if b then 1 else 0)"
| "number_of (VInt i) = Some (of_int i)"
| "number_of (VFloat (Fin r)) = Some r"
| "number_of _ = None"

text \<open>\<open>a == b\<close> on the values of a JSON document: numbers by value, dicts regardless of the order of their
  items.\<close>

definition scalar_eq :: "pyval \<Rightarrow> pyval \<Rightarrow> bool" where
  "scalar_eq a b = (case (number_of a, number_of b) of
      (Some x, Some y) \<Rightarrow> x = y
    | (None, None) \<Rightarrow> a = b \<and> a \<noteq> VFloat NaN \<and> a \<noteq> VOther
    | _ \<Rightarrow> False)"

function py_eq :: "pyval \<Rightarrow> pyval \<Rightarrow> bool"
  and eq_list :: "pyval list \<Rightarrow> pyval list \<Rightarrow> bool"
  and sub_dict :: "(pystr \<times> pyval) list \<Rightarrow> (pystr \<times> pyval) list \<Rightarrow> bool" where
  "py_eq a b = (case a of
      VList xs \<Rightarrow> (case b of VList ys \<Rightarrow> eq_list xs ys | _ \<Rightarrow> False)
    | VTuple xs \<Rightarrow> (case b of VTuple ys \<Rightarrow> eq_list xs ys | _ \<Rightarrow> False)
    | VDict d \<Rightarrow> (case b of VDict e \<Rightarrow> length d = length e \<and> sub_dict d e | _ \<Rightarrow> False)
    | _ \<Rightarrow> scalar_eq a b)"
| "eq_list xs ys = (case xs of
      [] \<Rightarrow> ys = []
    | x # xs' \<Rightarrow> (case ys of [] \<Rightarrow> False | y # ys' \<Rightarrow> py_eq x y \<and> eq_list xs' ys'))"
| "sub_dict d e = (case d of
      [] \<Rightarrow> True
    | (k, v) # d' \<Rightarrow> (case map_of e k of None \<Rightarrow> False | Some w \<Rightarrow> py_eq v w) \<and> sub_dict d' e)"
  by pat_completeness auto
termination
  by (relation "measure (\<lambda>x. case x of Inl (a, b) \<Rightarrow> 2 * size a + 1
        | Inr (Inl (xs, ys)) \<Rightarrow> 2 * size_list size xs | Inr (Inr (d, e)) \<Rightarrow> 2 * size_list (size_prod (\<lambda>_. 0) size) d)")
    auto

declare py_eq.simps [simp del] eq_list.simps [simp del] sub_dict.simps [simp del]

section \<open>Tool calls\<close>

record tool =
  tool_id :: "pystr option"
  tool_type :: "pystr option"
  tool_name :: pystr
  tool_args :: pystr

type_synonym tools = "(int \<times> tool) list"

definition empty_tool :: tool where
  "empty_tool = \<lparr>tool_id = None, tool_type = None, tool_name = [], tool_args = []\<rparr>"

text \<open>The fields \<open>id\<close> and \<open>type\<close>: a non-empty string that does not contradict an earlier one.\<close>

definition tool_field :: "(pystr \<times> pyval) list \<Rightarrow> string \<Rightarrow> pystr option \<Rightarrow> string + pystr option" where
  "tool_field call field cur =
     (if \<not> has_key call field then Inr cur
      else (case get_item call field of
          VStr v \<Rightarrow>
            if v = [] \<or> field = ''type'' \<and> v \<noteq> lit ''function'' \<or> cur \<noteq> None \<and> cur \<noteq> Some v
            then Inl (''conflicting_or_bad_tool_'' @ field) else Inr (Some v)
        | _ \<Rightarrow> Inl (''conflicting_or_bad_tool_'' @ field)))"

fun append_function :: "(pystr \<times> pyval) list \<Rightarrow> tool \<Rightarrow> string + tool" where
  "append_function [] t = Inr t"
| "append_function ((k, v) # r) t = (case v of
      VStr s \<Rightarrow> append_function r (if k = lit ''name'' then t\<lparr>tool_name := tool_name t @ s\<rparr> else t\<lparr>tool_args := tool_args t @ s\<rparr>)
    | _ \<Rightarrow> Inl ''malformed_tool_function'')"

definition function_keys :: "(pystr \<times> pyval) list \<Rightarrow> bool" where
  "function_keys f \<longleftrightarrow> set (map fst f) \<subseteq> {lit ''name'', lit ''arguments''}"

definition merge_one :: "(pystr \<times> pyval) list \<Rightarrow> tool \<Rightarrow> string + tool" where
  "merge_one call t = (case tool_field call ''id'' (tool_id t) of
      Inl e \<Rightarrow> Inl e
    | Inr i \<Rightarrow> (case tool_field call ''type'' (tool_type t) of
          Inl e \<Rightarrow> Inl e
        | Inr ty \<Rightarrow>
            let t' = t\<lparr>tool_id := i, tool_type := ty\<rparr> in
            if \<not> has_key call ''function'' then Inr t'
            else (case get_item call ''function'' of
                VDict f \<Rightarrow> if function_keys f then append_function f t' else Inl ''malformed_tool_function''
              | _ \<Rightarrow> Inl ''malformed_tool_function'')))"

text \<open>One entry of the list; its index is the stated one in a stream, its position otherwise.\<close>

definition merge_call :: "bool \<Rightarrow> nat \<Rightarrow> pyval \<Rightarrow> tools \<Rightarrow> string + tools" where
  "merge_call streaming position call tools = (case call of
      VDict c \<Rightarrow>
        (case (if streaming then get_item c ''index'' else VInt (int position)) of
           VInt i \<Rightarrow>
             if i < 0 then Inl ''malformed_tool_index''
             else (case merge_one c (case map_of tools i of None \<Rightarrow> empty_tool | Some t \<Rightarrow> t) of
                 Inl e \<Rightarrow> Inl e
               | Inr t \<Rightarrow> Inr (AList.update i t tools))
         | _ \<Rightarrow> Inl ''malformed_tool_index'')
    | _ \<Rightarrow> Inl ''malformed_tool_calls'')"

fun merge_from :: "bool \<Rightarrow> nat \<Rightarrow> pyval list \<Rightarrow> tools \<Rightarrow> string + tools" where
  "merge_from streaming position [] tools = Inr tools"
| "merge_from streaming position (c # cs) tools = (case merge_call streaming position c tools of
      Inl e \<Rightarrow> Inl e
    | Inr tools' \<Rightarrow> merge_from streaming (Suc position) cs tools')"

definition merge_tool_calls :: "bool \<Rightarrow> pyval \<Rightarrow> tools \<Rightarrow> string + tools" where
  "merge_tool_calls streaming calls tools = (case calls of
      VList cs \<Rightarrow> merge_from streaming 0 cs tools
    | _ \<Rightarrow> Inl ''malformed_tool_calls'')"

section \<open>Events\<close>

record sse_state =
  ss_content :: pystr
  ss_reasoning :: pystr
  ss_tools :: tools
  ss_models :: "pystr list"
  ss_first_visible :: "rat option"
  ss_first_tool :: "rat option"
  ss_terminal :: "pystr option"
  ss_usage :: "(pystr \<times> pyval) list option"
  ss_timings :: "(pystr \<times> pyval) list option"
  ss_done :: bool

definition sse_start :: sse_state where
  "sse_start = \<lparr>ss_content = [], ss_reasoning = [], ss_tools = [], ss_models = [], ss_first_visible = None,
     ss_first_tool = None, ss_terminal = None, ss_usage = None, ss_timings = None, ss_done = False\<rparr>"

text \<open>A step that may raise, on the state.\<close>

type_synonym sse_step = "sse_state \<Rightarrow> string + sse_state"

definition seq :: "sse_step \<Rightarrow> sse_step \<Rightarrow> sse_step" where
  "seq f g st = (case f st of Inl e \<Rightarrow> Inl e | Inr st' \<Rightarrow> g st')"

definition on_model :: "(pystr \<times> pyval) list \<Rightarrow> sse_step" where
  "on_model event st =
     (if \<not> has_key event ''model'' then Inr st
      else (case get_item event ''model'' of
          VStr m \<Rightarrow> if m = [] then Inl ''malformed_response_model'' else Inr (st\<lparr>ss_models := ss_models st @ [m]\<rparr>)
        | _ \<Rightarrow> Inl ''malformed_response_model''))"

definition on_content :: "rat \<Rightarrow> (pystr \<times> pyval) list \<Rightarrow> sse_step" where
  "on_content ms delta st = (case get_item delta ''content'' of
      VNone \<Rightarrow> Inr st
    | VStr s \<Rightarrow> Inr (st\<lparr>ss_first_visible := (if s \<noteq> [] \<and> ss_first_visible st = None then Some ms else ss_first_visible st),
                       ss_content := ss_content st @ s\<rparr>)
    | _ \<Rightarrow> Inl ''malformed_sse_delta'')"

definition on_reasoning :: "(pystr \<times> pyval) list \<Rightarrow> sse_step" where
  "on_reasoning delta st = (case get_item delta ''reasoning_content'' of
      VNone \<Rightarrow> Inr st
    | VStr s \<Rightarrow> Inr (st\<lparr>ss_reasoning := ss_reasoning st @ s\<rparr>)
    | _ \<Rightarrow> Inl ''malformed_sse_delta'')"

definition on_tools :: "rat \<Rightarrow> (pystr \<times> pyval) list \<Rightarrow> sse_step" where
  "on_tools ms delta st =
     (if \<not> has_key delta ''tool_calls'' then Inr st
      else (case merge_tool_calls True (get_item delta ''tool_calls'') (ss_tools st) of
          Inl e \<Rightarrow> Inl e
        | Inr ts \<Rightarrow> Inr (st\<lparr>ss_tools := ts,
            ss_first_tool := (if get_item delta ''tool_calls'' \<noteq> VList [] \<and> ss_first_tool st = None then Some ms
                              else ss_first_tool st)\<rparr>)))"

definition on_reason :: "(pystr \<times> pyval) list \<Rightarrow> sse_step" where
  "on_reason choice st = (case get_item choice ''finish_reason'' of
      VNone \<Rightarrow> Inr st
    | VStr r \<Rightarrow> if ss_terminal st \<noteq> None then Inl ''duplicate_or_bad_terminal'' else Inr (st\<lparr>ss_terminal := Some r\<rparr>)
    | _ \<Rightarrow> Inl ''duplicate_or_bad_terminal'')"

definition index_zero :: "(pystr \<times> pyval) list \<Rightarrow> bool" where
  "index_zero choice \<longleftrightarrow> (has_key choice ''index'' \<longrightarrow> get_item choice ''index'' = VInt 0)"

text \<open>\<open>text_path\<close> is \<open>path == '/v1/completions'\<close>.\<close>

definition delta_of :: "bool \<Rightarrow> (pystr \<times> pyval) list \<Rightarrow> pyval" where
  "delta_of text_path choice =
     (if text_path then VDict [(lit ''content'', get_item choice ''text'')] else get_object choice ''delta'')"

definition on_choices :: "bool \<Rightarrow> rat \<Rightarrow> (pystr \<times> pyval) list \<Rightarrow> sse_step" where
  "on_choices text_path ms event st = (case get_item event ''choices'' of
      VList [] \<Rightarrow> Inr st
    | VList [VDict choice] \<Rightarrow>
        if \<not> index_zero choice then Inl ''malformed_sse_choices''
        else if ss_terminal st \<noteq> None then Inl ''duplicate_or_bad_terminal''
        else (case delta_of text_path choice of
            VDict delta \<Rightarrow> seq (on_content ms delta) (seq (on_reasoning delta) (seq (on_tools ms delta) (on_reason choice))) st
          | _ \<Rightarrow> Inl ''malformed_sse_delta'')
    | _ \<Rightarrow> Inl ''malformed_sse_choices'')"

definition on_usage :: "(pystr \<times> pyval) list \<Rightarrow> sse_step" where
  "on_usage event st =
     (if \<not> has_key event ''usage'' then Inr st
      else (case get_item event ''usage'' of
          VDict u \<Rightarrow> if ss_usage st \<noteq> None then Inl ''duplicate_or_bad_usage'' else Inr (st\<lparr>ss_usage := Some u\<rparr>)
        | _ \<Rightarrow> Inl ''duplicate_or_bad_usage''))"

definition on_timings :: "(pystr \<times> pyval) list \<Rightarrow> sse_step" where
  "on_timings event st =
     (if \<not> has_key event ''timings'' then Inr st
      else (case get_item event ''timings'' of
          VDict t \<Rightarrow>
            if (case ss_timings st of None \<Rightarrow> False | Some t0 \<Rightarrow> \<not> py_eq (VDict t0) (VDict t)) then Inl ''conflicting_timings''
            else Inr (st\<lparr>ss_timings := Some t\<rparr>)
        | _ \<Rightarrow> Inl ''conflicting_timings''))"

definition on_event :: "bool \<Rightarrow> rat \<Rightarrow> (pystr \<times> pyval) list \<Rightarrow> sse_step" where
  "on_event text_path ms event st =
     (if has_key event ''error'' then Inl ''sse_server_error''
      else seq (on_model event) (seq (on_choices text_path ms event) (seq (on_usage event) (on_timings event))) st)"

text \<open>One frame: its \<open>data:\<close> lines form the payload.\<close>

definition on_frame :: "bool \<Rightarrow> rat \<Rightarrow> nat list \<Rightarrow> sse_step" where
  "on_frame text_path ms frame st =
     (if ss_done st then Inl ''sse_after_done''
      else (case utf8_decode frame of
          None \<Rightarrow> Inl ''malformed_sse_utf8''
        | Some s \<Rightarrow>
            let fields = map (\<lambda>l. lstrip_of 32 (drop 5 l)) (filter (starts ''data:'') (split_at 10 s)) in
            if fields = [] then Inr st
            else if join [10] fields = lit ''[DONE]'' then Inr (st\<lparr>ss_done := True\<rparr>)
            else (case strict_json (join [10] fields) of
                Some (VDict event) \<Rightarrow> on_event text_path ms event st
              | _ \<Rightarrow> Inl ''malformed_sse_json'')))"

section \<open>The body\<close>

definition unify_ends :: "nat list \<Rightarrow> nat list" where
  "unify_ends bs = replace_all [13, 10] [10] bs"

text \<open>\<open>normalized.split(b'\n\n')\<close>.\<close>

fun split_frames :: "nat list \<Rightarrow> nat list list" where
  "split_frames [] = [[]]"
| "split_frames [c] = [[c]]"
| "split_frames (c # d # r) =
     (if c = 10 \<and> d = 10 then [] # split_frames r
      else (case split_frames (d # r) of [] \<Rightarrow> [[c]] | f # fs \<Rightarrow> (c # f) # fs))"

fun run_frames :: "bool \<Rightarrow> rat \<Rightarrow> nat list list \<Rightarrow> sse_step" where
  "run_frames text_path ms [] st = Inr st"
| "run_frames text_path ms (f # fs) st = seq (on_frame text_path ms f) (run_frames text_path ms fs) st"

text \<open>The loop over the timed parts, with the bytes pending and the state; times count from \<open>submitted\<close>.\<close>

fun run_parts :: "bool \<Rightarrow> rat \<Rightarrow> (nat list \<times> rat) list \<Rightarrow> nat list \<Rightarrow> sse_state \<Rightarrow> string + nat list \<times> sse_state" where
  "run_parts text_path submitted [] pending st = Inr (pending, st)"
| "run_parts text_path submitted ((part, arrived) # ps) pending st =
     (let frames = split_frames (unify_ends (pending @ part)) in
      case run_frames text_path (1000 * (arrived - submitted)) (butlast frames) st of
        Inl e \<Rightarrow> Inl e
      | Inr st' \<Rightarrow> run_parts text_path submitted ps (last frames) st')"

record sse_result =
  sr_answer :: pystr
  sr_reasoning :: pystr
  sr_visible_ms :: "rat option"
  sr_tool_ms :: "rat option"
  sr_useful_ms :: "rat option"
  sr_finish :: pystr
  sr_tools :: tools
  sr_usage :: "(pystr \<times> pyval) list option"
  sr_timings :: "(pystr \<times> pyval) list"
  sr_models :: "pystr list"

definition is_byte_space :: "nat \<Rightarrow> bool" where
  "is_byte_space b \<longleftrightarrow> 9 \<le> b \<and> b \<le> 13 \<or> b = 32"

definition earliest :: "rat option \<Rightarrow> rat option \<Rightarrow> rat option" where
  "earliest a b = (case (a, b) of (Some x, Some y) \<Rightarrow> Some (min x y) | (None, _) \<Rightarrow> b | _ \<Rightarrow> a)"

definition sse_conclude :: "bool \<Rightarrow> nat list \<Rightarrow> sse_state \<Rightarrow> string + sse_result" where
  "sse_conclude require_usage pending st = (case ss_terminal st of
      Some reason \<Rightarrow>
        if \<not> list_all is_byte_space pending \<or> \<not> ss_done st \<or> require_usage \<and> ss_usage st = None then Inl ''incomplete_sse''
        else Inr \<lparr>sr_answer = ss_content st, sr_reasoning = ss_reasoning st, sr_visible_ms = ss_first_visible st,
                  sr_tool_ms = ss_first_tool st, sr_useful_ms = earliest (ss_first_visible st) (ss_first_tool st),
                  sr_finish = reason, sr_tools = sort_key fst (ss_tools st), sr_usage = ss_usage st,
                  sr_timings = (case ss_timings st of None \<Rightarrow> [] | Some t \<Rightarrow> t), sr_models = ss_models st\<rparr>
    | None \<Rightarrow> Inl ''incomplete_sse'')"

definition parse_sse :: "bool \<Rightarrow> bool \<Rightarrow> rat \<Rightarrow> (nat list \<times> rat) list \<Rightarrow> string + sse_result" where
  "parse_sse text_path require_usage submitted ps = (case run_parts text_path submitted ps [] sse_start of
      Inl e \<Rightarrow> Inl e
    | Inr (pending, st) \<Rightarrow> sse_conclude require_usage pending st)"

section \<open>Tool call fragments\<close>

text \<open>What the list of calls contributes to a field of the function of index \<open>i\<close>.\<close>

definition text_of :: "pyval \<Rightarrow> pystr" where
  "text_of v = (case v of VStr s \<Rightarrow> s | _ \<Rightarrow> [])"

definition fragment :: "string \<Rightarrow> int \<Rightarrow> pyval \<Rightarrow> pystr" where
  "fragment field i call = (case call of
      VDict c \<Rightarrow>
        if get_item c ''index'' \<noteq> VInt i then []
        else (case get_item c ''function'' of
            VDict f \<Rightarrow> concat (map (\<lambda>(k, v). if k = lit field then text_of v else []) f)
          | _ \<Rightarrow> [])
    | _ \<Rightarrow> [])"

definition collected :: "(tool \<Rightarrow> pystr) \<Rightarrow> int \<Rightarrow> tools \<Rightarrow> pystr" where
  "collected get i tools = (case map_of tools i of None \<Rightarrow> [] | Some t \<Rightarrow> get t)"

lemma append_function_fields:
  "append_function f t = Inr t' \<Longrightarrow> function_keys f \<Longrightarrow>
     tool_name t' = tool_name t @ concat (map (\<lambda>(k, v). if k = lit ''name'' then text_of v else []) f)
   \<and> tool_args t' = tool_args t @ concat (map (\<lambda>(k, v). if k = lit ''arguments'' then text_of v else []) f)"
proof (induction f t rule: append_function.induct)
  case (2 k v r t)
  then obtain s where v: "v = VStr s" by (auto split: pyval.splits)
  have "k = lit ''name'' \<or> k = lit ''arguments''" "function_keys r" using "2.prems"(2) by (auto simp: function_keys_def)
  then show ?case using "2.IH"[OF v] "2.prems"(1) v by (auto simp: text_of_def split: if_splits)
qed simp

lemma merge_one_fields:
  assumes "merge_one c t = Inr t'"
  shows "\<exists>f. (get_item c ''function'' = VDict f \<or> \<not> has_key c ''function'' \<and> f = [])
    \<and> tool_name t' = tool_name t @ concat (map (\<lambda>(k, v). if k = lit ''name'' then text_of v else []) f)
    \<and> tool_args t' = tool_args t @ concat (map (\<lambda>(k, v). if k = lit ''arguments'' then text_of v else []) f)"
proof -
  obtain i ty where r: "tool_field c ''id'' (tool_id t) = Inr i" "tool_field c ''type'' (tool_type t) = Inr ty"
    using assms by (auto simp: merge_one_def split: sum.splits)
  let ?t = "t\<lparr>tool_id := i, tool_type := ty\<rparr>"
  show ?thesis
  proof (cases "has_key c ''function''")
    case True
    then obtain f where f: "get_item c ''function'' = VDict f" "function_keys f" "append_function f ?t = Inr t'"
      using assms r by (auto simp: merge_one_def Let_def split: pyval.splits if_splits)
    then show ?thesis using append_function_fields[OF f(3,2)] by auto
  next
    case False
    then show ?thesis using assms r by (auto simp: merge_one_def Let_def intro!: exI[of _ "[]"])
  qed
qed

lemma no_key_item: "\<not> has_key d k \<Longrightarrow> get_item d k = VNone"
  using map_of_eq_None_iff[of d "lit k"] by (simp add: has_key_def get_item_def)

lemma merge_call_fields:
  assumes "merge_call True n call tools = Inr tools'"
  shows "collected tool_name i tools' = collected tool_name i tools @ fragment ''name'' i call"
    and "collected tool_args i tools' = collected tool_args i tools @ fragment ''arguments'' i call"
proof -
  obtain c j t where c: "call = VDict c" "get_item c ''index'' = VInt j"
    "merge_one c (case map_of tools j of None \<Rightarrow> empty_tool | Some t \<Rightarrow> t) = Inr t" "tools' = AList.update j t tools"
    using assms by (auto simp: merge_call_def split: pyval.splits if_splits sum.splits)
  obtain f where f: "get_item c ''function'' = VDict f \<or> \<not> has_key c ''function'' \<and> f = []"
    "tool_name t = collected tool_name j tools @ concat (map (\<lambda>(k, v). if k = lit ''name'' then text_of v else []) f)"
    "tool_args t = collected tool_args j tools @ concat (map (\<lambda>(k, v). if k = lit ''arguments'' then text_of v else []) f)"
    using merge_one_fields[OF c(3)] by (auto simp: collected_def empty_tool_def split: option.splits)
  have "fragment field j call = concat (map (\<lambda>(k, v). if k = lit field then text_of v else []) f)" for field
    using c(1,2) f(1) no_key_item[of c "''function''"] by (auto simp: fragment_def)
  moreover have "j \<noteq> i \<Longrightarrow> fragment field i call = []" for field using c(1,2) by (simp add: fragment_def)
  ultimately show "collected tool_name i tools' = collected tool_name i tools @ fragment ''name'' i call"
    "collected tool_args i tools' = collected tool_args i tools @ fragment ''arguments'' i call"
    using f(2,3) c(4) by (cases "j = i"; simp add: collected_def update_conv')+
qed

lemma merge_from_fields:
  "merge_from True n cs tools = Inr tools' \<Longrightarrow>
     collected tool_name i tools' = collected tool_name i tools @ concat (map (fragment ''name'' i) cs)
   \<and> collected tool_args i tools' = collected tool_args i tools @ concat (map (fragment ''arguments'' i) cs)"
proof (induction cs arbitrary: n tools)
  case (Cons c cs)
  then obtain mid where m: "merge_call True n c tools = Inr mid" "merge_from True (Suc n) cs mid = Inr tools'"
    by (auto split: sum.splits)
  show ?case using Cons.IH[OF m(2)] merge_call_fields[OF m(1), of i] by simp
qed simp

lemma merge_call_keys:
  assumes "merge_call streaming n call tools = Inr tools'" "distinct (map fst tools)" "\<forall>i\<in>fst ` set tools. 0 \<le> i"
  shows "distinct (map fst tools') \<and> (\<forall>i\<in>fst ` set tools'. 0 \<le> i)"
proof -
  obtain j t where u: "tools' = AList.update j t tools" "0 \<le> j"
    using assms(1) by (auto simp: merge_call_def split: pyval.splits if_splits sum.splits)
  then show ?thesis using assms(2,3) distinct_update[OF assms(2)] by (auto simp: dom_update)
qed

lemma merge_from_keys:
  "merge_from streaming n cs tools = Inr tools' \<Longrightarrow> distinct (map fst tools) \<Longrightarrow> \<forall>i\<in>fst ` set tools. 0 \<le> i \<Longrightarrow>
     distinct (map fst tools') \<and> (\<forall>i\<in>fst ` set tools'. 0 \<le> i)"
proof (induction cs arbitrary: n tools)
  case (Cons c cs)
  then obtain mid where m: "merge_call streaming n c tools = Inr mid" "merge_from streaming (Suc n) cs mid = Inr tools'"
    by (auto split: sum.splits)
  show ?case using Cons.IH[OF m(2)] merge_call_keys[OF m(1) Cons.prems(2,3)] by blast
qed simp

text \<open>Streamed tool calls are put together by concatenation: after a list of calls has been merged, name and
  arguments of every index are what was there before followed by the fragments that name this index, in their
  order, and no fragment of one index reaches another.\<close>

theorem tool_fragments_concatenate:
  assumes "merge_tool_calls True (VList calls) tools = Inr tools'"
  shows "collected tool_name i tools' = collected tool_name i tools @ concat (map (fragment ''name'' i) calls)
    \<and> collected tool_args i tools' = collected tool_args i tools @ concat (map (fragment ''arguments'' i) calls)"
  using merge_from_fields assms by (simp add: merge_tool_calls_def)

definition demo_call :: "string \<Rightarrow> pyval" where
  "demo_call a = VDict [(lit ''index'', VInt 0), (lit ''function'', VDict [(lit ''arguments'', VStr (lit a))])]"

theorem tool_fragments_concatenate_witness:
  "\<exists>ts. merge_tool_calls True (VList [demo_call ''ab'', demo_call ''c'']) [] = Inr ts \<and> collected tool_args 0 ts = lit ''abc''"
proof -
  obtain ts where m: "merge_tool_calls True (VList [demo_call ''ab'', demo_call ''c'']) [] = Inr ts"
    by (simp add: merge_tool_calls_def merge_call_def merge_one_def demo_call_def get_item_def has_key_def tool_field_def
        function_keys_def empty_tool_def Let_def)
  have "concat (map (fragment ''arguments'' 0) [demo_call ''ab'', demo_call ''c'']) = lit ''abc''"
    by (simp add: fragment_def demo_call_def get_item_def text_of_def lit_def)
  then show ?thesis using m tool_fragments_concatenate[OF m, of 0] by (simp add: collected_def)
qed

section \<open>Cutting the body\<close>

text \<open>A stream in which no two carriage returns stand together.\<close>

fun single_returns :: "nat list \<Rightarrow> bool" where
  "single_returns (a # b # r) = (\<not> (a = 13 \<and> b = 13) \<and> single_returns (b # r))"
| "single_returns _ = True"

lemma single_returns_append: "single_returns (xs @ ys) \<Longrightarrow> single_returns ys"
  by (induction xs rule: single_returns.induct) (auto, (cases ys; simp)+)

lemma single_returns_left: "single_returns (xs @ ys) \<Longrightarrow> single_returns xs"
  by (induction xs rule: single_returns.induct) auto

lemma unify_simps [simp]:
  "unify_ends [] = []"
  "unify_ends [c] = [c]"
  "unify_ends (13 # 10 # r) = 10 # unify_ends r"
  "c \<noteq> 13 \<Longrightarrow> unify_ends (c # r) = c # unify_ends r"
  "d \<noteq> 10 \<Longrightarrow> unify_ends (c # d # r) = c # unify_ends (d # r)"
  by (simp_all add: unify_ends_def replace_all.simps[of _ _ "_ # _"])

text \<open>Where the code has unified once, unifying again with more input gives what unifying all at once gives.\<close>

lemma unify_again: "single_returns (a @ b) \<Longrightarrow> unify_ends (unify_ends a @ b) = unify_ends (a @ b)"
proof (induction "length a" arbitrary: a rule: less_induct)
  case less
  consider "a = []" | c where "a = [c]" | r where "a = 13 # 10 # r" | c d r where "a = c # d # r" "\<not> (c = 13 \<and> d = 10)"
    by (metis neq_Nil_conv)
  then show ?case
  proof cases
    case 3
    have "single_returns (r @ b)" using less.prems 3 single_returns_append[of "[13, 10]" "r @ b"] by simp
    then show ?thesis using less.hyps[of r] 3 by simp
  next
    case (4 c d r)
    have sr: "single_returns ((d # r) @ b)" using less.prems 4 by simp
    have tail: "unify_ends (unify_ends (d # r) @ b) = unify_ends (d # r @ b)" using less.hyps[of "d # r"] sr 4 by simp
    show ?thesis
    proof (cases "c = 13")
      case False
      have "unify_ends a = c # unify_ends (d # r)" using 4 False by simp
      then show ?thesis using tail 4 False by simp
    next
      case True
      then have d: "d \<noteq> 10" "d \<noteq> 13" using 4 less.prems by auto
      have "unify_ends a = c # d # unify_ends r" using 4 d by simp
      then show ?thesis using tail 4 d by simp
    qed
  qed simp_all
qed

fun no_crlf :: "nat list \<Rightarrow> bool" where
  "no_crlf (a # b # r) = (\<not> (a = 13 \<and> b = 10) \<and> no_crlf (b # r))"
| "no_crlf _ = True"

lemma unify_no_crlf: "single_returns a \<Longrightarrow> no_crlf (unify_ends a)"
proof (induction "length a" arbitrary: a rule: less_induct)
  case less
  consider "a = []" | c where "a = [c]" | r where "a = 13 # 10 # r" | c d r where "a = c # d # r" "\<not> (c = 13 \<and> d = 10)"
    by (metis neq_Nil_conv)
  then show ?case
  proof cases
    case 3
    have "no_crlf (unify_ends r)" using less.hyps[of r] less.prems 3 single_returns_append[of "[13, 10]" r] by simp
    then show ?thesis using 3 by (cases "unify_ends r") auto
  next
    case (4 c d r)
    have tail: "no_crlf (unify_ends (d # r))" using less.hyps[of "d # r"] less.prems 4 by simp
    show ?thesis
    proof (cases "c = 13")
      case False
      then show ?thesis using tail 4 by (cases "unify_ends (d # r)") auto
    next
      case True
      then have d: "d \<noteq> 10" "d \<noteq> 13" using 4 less.prems by auto
      then show ?thesis using tail 4 by (cases "unify_ends r") auto
    qed
  qed simp_all
qed

lemma unify_kept: "no_crlf (p @ x) \<Longrightarrow> p = [] \<or> last p \<noteq> 13 \<Longrightarrow> unify_ends (p @ x @ b) = p @ unify_ends (x @ b)"
proof (induction p)
  case (Cons c p)
  show ?case
  proof (cases p)
    case Nil
    then show ?thesis using Cons.prems by simp
  next
    case (Cons d q)
    have "no_crlf (p @ x)" using Cons.prems(1) Cons by simp
    then have "unify_ends (p @ x @ b) = p @ unify_ends (x @ b)" using Cons.IH Cons.prems(2) Cons by simp
    moreover have "\<not> (c = 13 \<and> d = 10)" using Cons.prems(1) Cons by simp
    ultimately show ?thesis using Cons by (cases "c = 13") auto
  qed
qed simp

text \<open>Splitting: what follows the last boundary is split together with what comes later.\<close>

lemma split_frames_nonempty [simp]: "split_frames xs \<noteq> []"
  by (induction xs rule: split_frames.induct) (auto split: list.split)

lemma split_frames_single: "split_frames xs = [l] \<Longrightarrow> l = xs"
  by (induction xs arbitrary: l rule: split_frames.induct) (auto split: list.splits if_splits)

lemma split_frames_append:
  "split_frames (xs @ ys) = butlast (split_frames xs) @ split_frames (last (split_frames xs) @ ys)"
proof (induction xs rule: split_frames.induct)
  case (3 c d r)
  show ?case
  proof (cases "c = 10 \<and> d = 10")
    case True
    then show ?thesis using "3.IH"(1) by simp
  next
    case False
    obtain p ps where p: "split_frames (d # r) = p # ps" by (cases "split_frames (d # r)") auto
    show ?thesis
    proof (cases ps)
      case Nil
      then have "split_frames (c # d # r) = [c # d # r]" using p split_frames_single[of "d # r" p] False by auto
      then show ?thesis by simp
    next
      case (Cons q qs)
      then show ?thesis using "3.IH"(2)[OF False] p False by (auto split: list.split)
    qed
  qed
qed simp_all

text \<open>The bytes before the last boundary end with a line feed, or there are none.\<close>

lemma split_frames_rest:
  "\<exists>p. xs = p @ last (split_frames xs) \<and> (p = [] \<or> last p = 10) \<and> split_frames p = butlast (split_frames xs) @ [[]]"
proof (induction xs rule: split_frames.induct)
  case (3 c d r)
  show ?case
  proof (cases "c = 10 \<and> d = 10")
    case True
    then obtain p where p: "r = p @ last (split_frames r)" "p = [] \<or> last p = 10" "split_frames p = butlast (split_frames r) @ [[]]"
      using "3.IH"(1) by blast
    show ?thesis using True p by (intro exI[of _ "10 # 10 # p"]) auto
  next
    case False
    obtain p where p: "d # r = p @ last (split_frames (d # r))" "p = [] \<or> last p = 10"
      "split_frames p = butlast (split_frames (d # r)) @ [[]]"
      using "3.IH"(2)[OF False] by blast
    obtain q qs where q: "split_frames (d # r) = q # qs" by (cases "split_frames (d # r)") auto
    show ?thesis
    proof (cases qs)
      case Nil
      then have "split_frames (c # d # r) = [c # d # r]" using q split_frames_single[of "d # r" q] False by auto
      then show ?thesis by (intro exI[of _ "[]"]) simp
    next
      case (Cons q' qs')
      then have "p \<noteq> []" using p(3) q by auto
      then obtain p' where p': "p = d # p'" using p(1) by (cases p) auto
      have ps: "split_frames (d # p') = q # butlast qs @ [[]]" using p(3) p' q Cons by simp
      have fp: "split_frames (c # p) = (c # q) # butlast qs @ [[]]" using ps False by (simp add: p')
      have fx: "split_frames (c # d # r) = (c # q) # qs" using q False by simp
      have "c # d # r = (c # p) @ last ((c # q) # qs)" using p(1) q Cons by simp
      then show ?thesis
        using p(2) \<open>p \<noteq> []\<close> Cons unfolding fx by (intro exI[of _ "c # p"]) (simp add: fp)
    qed
  qed
qed auto

text \<open>Feeding a part to the pending bytes finds the frames that the whole stream has.\<close>

definition frames_of :: "nat list \<Rightarrow> nat list list" where
  "frames_of bs = split_frames (unify_ends bs)"

lemma frames_of_Nil [simp]: "frames_of [] = [[]]"
  by (simp add: frames_of_def)

lemma frames_of_nonempty [simp]: "frames_of bs \<noteq> []"
  by (simp add: frames_of_def)

lemma feed_part:
  assumes "single_returns (a @ b)"
  shows "frames_of (a @ b) = butlast (frames_of a) @ split_frames (unify_ends (last (frames_of a) @ b))"
proof -
  let ?n = "unify_ends a" and ?l = "last (frames_of a)"
  obtain p where p: "?n = p @ ?l" "p = [] \<or> last p = 10" "split_frames p = butlast (frames_of a) @ [[]]"
    using split_frames_rest[of ?n] by (auto simp: frames_of_def)
  have "no_crlf (p @ ?l)" using unify_no_crlf[OF single_returns_left[OF assms]] p(1) by simp
  then have "unify_ends (p @ ?l @ b) = p @ unify_ends (?l @ b)" using unify_kept p(2) by fastforce
  then have "unify_ends (a @ b) = p @ unify_ends (?l @ b)" using unify_again[OF assms] p(1) by simp
  then show ?thesis using split_frames_append[of p] p(3) by (simp add: frames_of_def)
qed

text \<open>Steps that treat states alike that differ in the measured times only.\<close>

definition untimed :: "sse_state \<Rightarrow> sse_state" where
  "untimed st = st\<lparr>ss_first_visible := None, ss_first_tool := None\<rparr>"

definition same :: "sse_state \<Rightarrow> sse_state \<Rightarrow> bool" where
  "same st st' \<longleftrightarrow> untimed st = untimed st'"

lemma same_iff:
  "same st st' \<longleftrightarrow> ss_content st = ss_content st' \<and> ss_reasoning st = ss_reasoning st' \<and> ss_tools st = ss_tools st'
     \<and> ss_models st = ss_models st' \<and> ss_terminal st = ss_terminal st' \<and> ss_usage st = ss_usage st'
     \<and> ss_timings st = ss_timings st' \<and> ss_done st = ss_done st'"
  by (cases st; cases st') (auto simp: same_def untimed_def)

definition alike :: "sse_step \<Rightarrow> sse_step \<Rightarrow> bool" where
  "alike f g \<longleftrightarrow> (\<forall>st st'. same st st' \<longrightarrow> rel_sum (=) same (f st) (g st'))"

named_theorems alike_intros

lemma alike_seq [alike_intros]: "alike f f' \<Longrightarrow> alike g g' \<Longrightarrow> alike (seq f g) (seq f' g')"
  unfolding alike_def seq_def by (fastforce elim!: rel_sum.cases split: sum.splits)

lemma alike_simple [alike_intros]:
  "alike (on_model d) (on_model d)" "alike (on_content ms d) (on_content ms' d)" "alike (on_reasoning d) (on_reasoning d)"
  "alike (on_reason d) (on_reason d)" "alike (on_usage d) (on_usage d)" "alike (on_timings d) (on_timings d)"
  "alike Inr Inr"
  by (auto simp: alike_def same_iff on_model_def on_content_def on_reasoning_def on_reason_def on_usage_def on_timings_def
      split: pyval.split)

lemma alike_tools [alike_intros]: "alike (on_tools ms d) (on_tools ms' d)"
  by (auto simp: alike_def same_iff on_tools_def split: sum.split)

lemma alikeD: "alike f g \<Longrightarrow> same st st' \<Longrightarrow> rel_sum (=) same (f st) (g st')"
  by (simp add: alike_def)

lemma same_terminal: "same st st' \<Longrightarrow> ss_terminal st = ss_terminal st'"
  by (simp add: same_iff)

text \<open>What the list of choices can be.\<close>

definition one_choice :: "bool \<Rightarrow> rat \<Rightarrow> (pystr \<times> pyval) list \<Rightarrow> sse_step" where
  "one_choice tp ms choice st =
     (if \<not> index_zero choice then Inl ''malformed_sse_choices''
      else if ss_terminal st \<noteq> None then Inl ''duplicate_or_bad_terminal''
      else (case as_dict (delta_of tp choice) of
          Some delta \<Rightarrow> seq (on_content ms delta) (seq (on_reasoning delta) (seq (on_tools ms delta) (on_reason choice))) st
        | None \<Rightarrow> Inl ''malformed_sse_delta''))"

lemma as_dict_None: "as_dict v = None \<Longrightarrow> (case v of VDict d \<Rightarrow> f d | _ \<Rightarrow> e) = e"
  by (cases v) auto

lemma on_choices_cases:
  obtains "\<And>tp ms st. on_choices tp ms d st = Inr st"
  | c where "\<And>tp ms st. on_choices tp ms d st = one_choice tp ms c st"
  | "\<And>tp ms st. on_choices tp ms d st = Inl ''malformed_sse_choices''"
proof (cases "get_item d ''choices''")
  case (VList cs)
  consider "cs = []" | c where "cs = [VDict c]" | v where "cs = [v]" "\<And>c. v \<noteq> VDict c" | v w r where "cs = v # w # r"
    by (metis neq_Nil_conv)
  then show ?thesis
  proof cases
    case 1
    show ?thesis by (rule that(1)) (simp add: on_choices_def VList 1)
  next
    case (2 c)
    have "on_choices tp ms d st = one_choice tp ms c st" for tp ms st
      by (cases "as_dict (delta_of tp c)") (auto simp: on_choices_def one_choice_def VList 2 as_dict_None)
    then show ?thesis by (rule that(2))
  next
    case (3 v)
    show ?thesis by (rule that(3)) (use 3 in \<open>cases v; simp add: on_choices_def VList\<close>)
  next
    case (4 v w r)
    show ?thesis by (rule that(3)) (cases v; simp add: on_choices_def VList 4)
  qed
qed (rule that(3); simp add: on_choices_def)+

lemma alike_choices [alike_intros]: "alike (on_choices tp ms d) (on_choices tp ms' d)"
proof -
  have a: "alike (seq (on_content ms e) (seq (on_reasoning e) (seq (on_tools ms e) (on_reason c))))
      (seq (on_content ms' e) (seq (on_reasoning e) (seq (on_tools ms' e) (on_reason c))))" for e c
    by (intro alike_intros)
  have o: "alike (one_choice tp ms c) (one_choice tp ms' c)" for c
    unfolding alike_def one_choice_def using alikeD[OF a] by (auto simp: same_terminal split: option.split)
  show ?thesis
  proof (rule on_choices_cases[of d])
    fix c
    assume "\<And>tp ms st. on_choices tp ms d st = one_choice tp ms c st"
    then show ?thesis using o[of c] by (simp add: alike_def)
  qed (simp_all add: alike_def)
qed

lemma alike_event: "alike (on_event tp ms d) (on_event tp ms' d)"
proof -
  have "alike (seq (on_model d) (seq (on_choices tp ms d) (seq (on_usage d) (on_timings d))))
      (seq (on_model d) (seq (on_choices tp ms' d) (seq (on_usage d) (on_timings d))))"
    by (intro alike_intros)
  then show ?thesis by (simp add: alike_def on_event_def)
qed

lemma alike_frame [alike_intros]: "alike (on_frame tp ms f) (on_frame tp ms' f)"
  using alikeD[OF alike_event] unfolding alike_def on_frame_def Let_def
  by (auto simp: same_iff split: option.split pyval.split)

lemma alike_frames: "alike (run_frames tp ms fs) (run_frames tp ms' fs)"
proof (induction fs)
  case Nil
  then show ?case by (simp add: alike_def)
next
  case (Cons f fs)
  have "alike (seq (on_frame tp ms f) (run_frames tp ms fs)) (seq (on_frame tp ms' f) (run_frames tp ms' fs))"
    using Cons by (intro alike_intros)
  then show ?case by (simp add: alike_def)
qed

lemma run_frames_append: "run_frames tp ms (xs @ ys) st = seq (run_frames tp ms xs) (run_frames tp ms ys) st"
  by (induction xs arbitrary: st) (auto simp: seq_def split: sum.split)

text \<open>The loop over the parts amounts to running the frames of the whole stream once.\<close>

definition at_once :: "bool \<Rightarrow> nat list list \<Rightarrow> nat list \<Rightarrow> sse_state \<Rightarrow> string + nat list \<times> sse_state" where
  "at_once text_path fs pending st = map_sum id (Pair pending) (run_frames text_path 0 fs st)"

lemma run_parts_at_once:
  "single_returns (a @ concat (map fst ps)) \<Longrightarrow> same st st' \<Longrightarrow>
   \<exists>rest. butlast (frames_of (a @ concat (map fst ps))) = butlast (frames_of a) @ rest
     \<and> rel_sum (=) (rel_prod (=) same) (run_parts tp sub ps (last (frames_of a)) st)
         (at_once tp rest (last (frames_of (a @ concat (map fst ps)))) st')"
proof (induction ps arbitrary: a st st')
  case Nil
  then show ?case by (simp add: at_once_def)
next
  case (Cons p ps)
  obtain part t where p: "p = (part, t)" by fastforce
  let ?c = "concat (map fst ps)" and ?new = "split_frames (unify_ends (last (frames_of a) @ part))"
  have sr: "single_returns ((a @ part) @ ?c)" using Cons.prems(1) p by simp
  have fr: "frames_of (a @ part) = butlast (frames_of a) @ ?new"
    using feed_part[of a part] single_returns_left[OF sr] by simp
  have lst: "last (frames_of (a @ part)) = last ?new" unfolding fr by simp
  have but: "butlast (frames_of (a @ part)) = butlast (frames_of a) @ butlast ?new" unfolding fr by (simp add: butlast_append)
  define r where "r = run_frames tp (1000 * (t - sub)) (butlast ?new) st"
  define r' where "r' = run_frames tp 0 (butlast ?new) st'"
  have rr: "rel_sum (=) same r r'" unfolding r_def r'_def by (rule alikeD[OF alike_frames Cons.prems(2)])
  show ?case
  proof (cases r)
    case (Inl e)
    then have "r' = Inl e" using rr by (cases r') auto
    obtain rest where rest: "butlast (frames_of ((a @ part) @ ?c)) = butlast (frames_of (a @ part)) @ rest"
      using Cons.IH[OF sr, of st st] by (auto simp: same_def)
    show ?thesis
      using rest but Inl \<open>r' = Inl e\<close>
      by (intro exI[of _ "butlast ?new @ rest"]) (simp add: p at_once_def r_def r'_def run_frames_append seq_def)
  next
    case (Inr s1)
    then obtain s2 where s2: "r' = Inr s2" "same s1 s2" using rr by (cases r') auto
    obtain rest where rest: "butlast (frames_of ((a @ part) @ ?c)) = butlast (frames_of (a @ part)) @ rest"
      "rel_sum (=) (rel_prod (=) same) (run_parts tp sub ps (last ?new) s1) (at_once tp rest (last (frames_of ((a @ part) @ ?c))) s2)"
      using Cons.IH[OF sr s2(2)] unfolding lst by blast
    show ?thesis
      using rest but Inr s2(1)
      by (intro exI[of _ "butlast ?new @ rest"]) (simp add: p at_once_def r_def r'_def run_frames_append seq_def)
  qed
qed

lemma same_sym: "same a b \<Longrightarrow> same b a"
  by (simp add: same_def)

definition timeless :: "sse_result \<Rightarrow> sse_result" where
  "timeless r = r\<lparr>sr_visible_ms := None, sr_tool_ms := None, sr_useful_ms := None\<rparr>"

lemma conclude_alike:
  "same st st' \<Longrightarrow> map_sum id timeless (sse_conclude req p st) = map_sum id timeless (sse_conclude req p st')"
  by (auto simp: same_iff sse_conclude_def timeless_def split: option.split)

lemma parse_at_once:
  assumes "single_returns (concat (map fst ps))"
  shows "map_sum id timeless (parse_sse tp req sub ps)
    = (case at_once tp (butlast (frames_of (concat (map fst ps)))) (last (frames_of (concat (map fst ps)))) sse_start of
         Inl e \<Rightarrow> Inl e
       | Inr (pending, st) \<Rightarrow> map_sum id timeless (sse_conclude req pending st))"
proof -
  have "rel_sum (=) (rel_prod (=) same) (run_parts tp sub ps [] sse_start)
      (at_once tp (butlast (frames_of (concat (map fst ps)))) (last (frames_of (concat (map fst ps)))) sse_start)"
    using run_parts_at_once[of "[]" ps sse_start sse_start tp sub] assms by (auto simp: same_def)
  then show ?thesis
    unfolding parse_sse_def by (auto elim!: rel_sum.cases dest: conclude_alike[of _ _ req])
qed

text \<open>C24. How the network cuts the body matters for the measured times only: two deliveries of the same bytes,
  without two adjacent carriage returns, give the same answer, reasoning, tool calls, usage and finish reason, or
  the same error.\<close>

theorem sse_cutting_is_invisible:
  assumes "single_returns (concat (map fst ps))" "concat (map fst ps) = concat (map fst qs)"
  shows "map_sum id timeless (parse_sse text_path require_usage submitted ps)
       = map_sum id timeless (parse_sse text_path require_usage submitted' qs)"
  using parse_at_once[of ps] parse_at_once[of qs] assms by simp

theorem sse_cutting_is_invisible_witness:
  "map_sum id timeless (parse_sse False True 0 [([100, 97], 1), ([116, 97, 58, 91, 13], 2), ([10, 10], 3)])
     = map_sum id timeless (parse_sse False True 5 [([100, 97, 116, 97, 58, 91, 13, 10, 10], 9)])"
  by (rule sse_cutting_is_invisible) simp_all

text \<open>The restriction is needed: \<open>[DONE]\<close> followed by two carriage returns and two line feeds is the end of the
  stream when the last line feed arrives alone, and a malformed event when it does not.\<close>

definition done_line :: "nat list" where
  "done_line = lit ''data: [DONE]'' @ [13, 13, 10]"

lemma double_return_depends_on_cut:
  "parse_sse False True 0 [(done_line, 1), ([10], 1)] = Inl ''incomplete_sse''"
  "parse_sse False True 0 [(done_line @ [10], 1)] = Inl ''malformed_sse_json''"
  by (simp_all add: done_line_def lit_def parse_sse_def Let_def unify_ends_def replace_all.simps[of _ _ "_ # _"] on_frame_def seq_def
      sse_start_def starts_def lstrip_of_def sse_conclude_def strict_json_def json_loads_def tokens.simps lex_one_def structural_def
      is_json_space_def is_digit_def)

section \<open>Consistent results\<close>

text \<open>A time is measured exactly when there is something to see; indices of tool calls are natural numbers, each
  once.\<close>

definition sse_ok :: "sse_state \<Rightarrow> bool" where
  "sse_ok st \<longleftrightarrow> (ss_first_visible st = None \<longleftrightarrow> ss_content st = []) \<and> (ss_first_tool st = None \<longrightarrow> ss_tools st = [])
     \<and> distinct (map fst (ss_tools st)) \<and> (\<forall>i\<in>fst ` set (ss_tools st). 0 \<le> i)"

definition keeps :: "sse_step \<Rightarrow> bool" where
  "keeps f \<longleftrightarrow> (\<forall>st st'. sse_ok st \<longrightarrow> f st = Inr st' \<longrightarrow> sse_ok st')"

lemma keepsD: "keeps f \<Longrightarrow> sse_ok st \<Longrightarrow> f st = Inr st' \<Longrightarrow> sse_ok st'"
  by (auto simp: keeps_def)

named_theorems keeps_intros

lemma keeps_seq [keeps_intros]:
  assumes "keeps f" "keeps g" shows "keeps (seq f g)"
  unfolding keeps_def
proof (intro allI impI)
  fix st st'
  assume ok: "sse_ok st" and r: "seq f g st = Inr st'"
  obtain st1 where st1: "f st = Inr st1" "g st1 = Inr st'" using r by (cases "f st") (auto simp: seq_def)
  show "sse_ok st'" by (rule keepsD[OF assms(2) keepsD[OF assms(1) ok st1(1)] st1(2)])
qed

lemma keeps_simple [keeps_intros]:
  "keeps (on_model d)" "keeps (on_content ms d)" "keeps (on_reasoning d)" "keeps (on_reason d)" "keeps (on_usage d)"
  "keeps (on_timings d)"
  by (auto simp: keeps_def sse_ok_def on_model_def on_content_def on_reasoning_def on_reason_def on_usage_def on_timings_def
      split: pyval.splits if_splits)

lemma merge_nothing: "merge_tool_calls True (VList []) ts = Inr ts"
  by (simp add: merge_tool_calls_def)

lemma merge_tools_keys:
  "merge_tool_calls True v ts = Inr ts' \<Longrightarrow> distinct (map fst ts) \<Longrightarrow> \<forall>i\<in>fst ` set ts. 0 \<le> i \<Longrightarrow>
     distinct (map fst ts') \<and> (\<forall>i\<in>fst ` set ts'. 0 \<le> i)"
  using merge_from_keys by (auto simp: merge_tool_calls_def split: pyval.splits)

lemma keeps_tools [keeps_intros]: "keeps (on_tools ms d)"
  unfolding keeps_def on_tools_def
proof (intro allI impI)
  fix st st'
  assume ok: "sse_ok st" and s: "(if \<not> has_key d ''tool_calls'' then Inr st
      else (case merge_tool_calls True (get_item d ''tool_calls'') (ss_tools st) of
          Inl e \<Rightarrow> Inl e
        | Inr ts \<Rightarrow> Inr (st\<lparr>ss_tools := ts,
            ss_first_tool := (if get_item d ''tool_calls'' \<noteq> VList [] \<and> ss_first_tool st = None then Some ms
                              else ss_first_tool st)\<rparr>))) = Inr st'"
  show "sse_ok st'"
  proof (cases "has_key d ''tool_calls''")
    case True
    then obtain ts where ts: "merge_tool_calls True (get_item d ''tool_calls'') (ss_tools st) = Inr ts"
      "st' = st\<lparr>ss_tools := ts, ss_first_tool := (if get_item d ''tool_calls'' \<noteq> VList [] \<and> ss_first_tool st = None then Some ms
                              else ss_first_tool st)\<rparr>"
      using s by (auto split: sum.splits)
    have keys: "distinct (map fst ts) \<and> (\<forall>i\<in>fst ` set ts. 0 \<le> i)"
      using merge_tools_keys[OF ts(1)] ok by (simp add: sse_ok_def)
    have "get_item d ''tool_calls'' = VList [] \<Longrightarrow> ts = ss_tools st" using ts(1) by (simp add: merge_nothing)
    then show ?thesis using ok keys ts(2) by (auto simp: sse_ok_def)
  qed (use ok s in simp)
qed

lemma keeps_choices [keeps_intros]: "keeps (on_choices tp ms d)"
proof -
  have k: "keeps (seq (on_content ms e) (seq (on_reasoning e) (seq (on_tools ms e) (on_reason c))))" for e c
    by (intro keeps_intros)
  have o: "keeps (one_choice tp ms c)" for c
    unfolding keeps_def one_choice_def using keepsD[OF k] by (auto split: option.splits if_splits)
  show ?thesis
  proof (rule on_choices_cases[of d])
    fix c
    assume "\<And>tp ms st. on_choices tp ms d st = one_choice tp ms c st"
    then show ?thesis using o[of c] by (simp add: keeps_def)
  qed (simp_all add: keeps_def)
qed

lemma keeps_event: "keeps (on_event tp ms d)"
proof -
  have "keeps (seq (on_model d) (seq (on_choices tp ms d) (seq (on_usage d) (on_timings d))))" by (intro keeps_intros)
  then show ?thesis by (auto simp: keeps_def on_event_def split: if_splits)
qed

lemma on_frame_cases:
  "on_frame tp ms f st = Inr st' \<Longrightarrow> st' = st \<or> st' = st\<lparr>ss_done := True\<rparr> \<or> (\<exists>d. on_event tp ms d st = Inr st')"
  unfolding on_frame_def Let_def by (auto split: option.splits pyval.splits if_splits)

lemma keeps_frame: "keeps (on_frame tp ms f)"
  unfolding keeps_def
proof (intro allI impI)
  fix st st'
  assume ok: "sse_ok st" and "on_frame tp ms f st = Inr st'"
  from on_frame_cases[OF this(2)] consider "st' = st" | "st' = st\<lparr>ss_done := True\<rparr>" | d where "on_event tp ms d st = Inr st'"
    by blast
  then show "sse_ok st'"
  proof cases
    case 3
    show ?thesis by (rule keepsD[OF keeps_event ok 3])
  qed (use ok in \<open>simp_all add: sse_ok_def\<close>)
qed

lemma keeps_frames: "keeps (run_frames tp ms fs)"
proof (induction fs)
  case (Cons f fs)
  then have "keeps (seq (on_frame tp ms f) (run_frames tp ms fs))" by (intro keeps_intros keeps_frame)
  then show ?case by (simp add: keeps_def)
qed (simp add: keeps_def)

lemma run_parts_ok: "sse_ok st \<Longrightarrow> run_parts tp sub ps pending st = Inr (pending', st') \<Longrightarrow> sse_ok st'"
proof (induction ps arbitrary: pending st)
  case (Cons p ps)
  obtain part t where p: "p = (part, t)" by fastforce
  obtain s1 q where s: "run_frames tp (1000 * (t - sub)) q st = Inr s1" "run_parts tp sub ps (last (split_frames (unify_ends (pending @ part)))) s1 = Inr (pending', st')"
    using Cons.prems(2) p by (auto simp: Let_def split: sum.splits)
  show ?case using Cons.IH[OF keepsD[OF keeps_frames Cons.prems(1) s(1)] s(2)] .
qed simp

text \<open>A result is consistent: the time of the first visible output is known exactly when there is an answer, the
  time of the first tool call whenever there is one, the first useful output is the earlier of the two, the tool
  calls are sorted by distinct non-negative indices, and the usage is there when it was required.\<close>

theorem sse_result_is_consistent:
  assumes "parse_sse text_path require_usage submitted ps = Inr r"
  shows "(sr_visible_ms r = None \<longleftrightarrow> sr_answer r = []) \<and> (sr_tools r \<noteq> [] \<longrightarrow> sr_tool_ms r \<noteq> None)
    \<and> sr_useful_ms r = earliest (sr_visible_ms r) (sr_tool_ms r)
    \<and> sorted_wrt (<) (map fst (sr_tools r)) \<and> (\<forall>i\<in>fst ` set (sr_tools r). 0 \<le> i)
    \<and> (require_usage \<longrightarrow> sr_usage r \<noteq> None)"
proof -
  obtain pending st where s: "run_parts text_path submitted ps [] sse_start = Inr (pending, st)"
    "sse_conclude require_usage pending st = Inr r"
    using assms by (auto simp: parse_sse_def split: sum.splits)
  have ok: "sse_ok st" using run_parts_ok[OF _ s(1)] by (simp add: sse_ok_def sse_start_def)
  have "sorted_wrt (<) (map fst (sort_key fst (ss_tools st)))"
    using ok by (simp add: sse_ok_def strict_sorted_iff distinct_map)
  moreover have "set (sort_key fst (ss_tools st)) = set (ss_tools st)" by simp
  ultimately show ?thesis
    using s(2) ok by (auto simp: sse_conclude_def sse_ok_def split: option.splits if_splits)
qed

definition sse_demo :: pystr where
  "sse_demo = json_text ''{|choices|:[{|text|:|4|,|finish_reason|:|stop|}]}''"

lemma sse_demo_read:
  "strict_json sse_demo = Some (VDict [(lit ''choices'', VList [VDict [(lit ''text'', VStr (lit ''4'')),
     (lit ''finish_reason'', VStr (lit ''stop''))]])])"
  by (simp add: sse_demo_def json_text_def lit_def strict_json_def json_loads_def tokens.simps[of _ "_ # _"] tokens.simps[of _ "[]"]
      lex_string.simps[of "_ # _"] lex_one_def structural_def is_json_space_def cons_char_def)

text \<open>A stream of one event and the end marker.\<close>

definition event_stream :: "pystr \<Rightarrow> nat list" where
  "event_stream e = lit ''data:'' @ e @ [10, 10] @ lit ''data:[DONE]'' @ [10, 10]"

definition plain_event :: "pystr \<Rightarrow> bool" where
  "plain_event e \<longleftrightarrow> list_all (\<lambda>c. 32 < c \<and> c < 128) e \<and> take 1 e = [123]"

lemma unify_plain: "13 \<notin> set x \<Longrightarrow> unify_ends x = x"
  by (induction x) (auto split: if_splits)

lemma split_frames_line: "10 \<notin> set x \<Longrightarrow> split_frames (x @ 10 # 10 # r) = x # split_frames r"
proof (induction x)
  case (Cons c x)
  then show ?case by (cases x) auto
qed simp

lemma split_at_plain: "c \<notin> set x \<Longrightarrow> split_at c x = [x]"
  by (induction x) auto

lemma event_frames:
  assumes "plain_event e"
  shows "split_frames (unify_ends (event_stream e)) = [lit ''data:'' @ e, lit ''data:[DONE]'', []]"
proof -
  have n: "10 \<notin> set (lit ''data:'' @ e)" "13 \<notin> set (lit ''data:'' @ e)" "10 \<notin> set (lit ''data:[DONE]'')"
    "13 \<notin> set (lit ''data:[DONE]'')"
    using assms by (auto simp: plain_event_def list_all_iff lit_def)
  have "13 \<notin> set (event_stream e)" using n by (auto simp: event_stream_def)
  then have "unify_ends (event_stream e) = (lit ''data:'' @ e) @ 10 # 10 # lit ''data:[DONE]'' @ 10 # 10 # []"
    by (simp add: unify_plain) (simp add: event_stream_def)
  then show ?thesis using split_frames_line[OF n(1)] split_frames_line[OF n(3), of "[]"] by simp
qed

lemma event_frame_read:
  assumes "plain_event e" "strict_json e = Some (VDict d)" "\<not> ss_done st"
  shows "on_frame tp ms (lit ''data:'' @ e) st = on_event tp ms d st"
proof -
  have "list_all (\<lambda>c. c < 128) (lit ''data:'' @ e)" using assms(1) by (auto simp: plain_event_def list_all_iff lit_def)
  then have u: "utf8_decode (lit ''data:'' @ e) = Some (lit ''data:'' @ e)" by (rule utf8_decode_ascii)
  have l: "split_at 10 (lit ''data:'' @ e) = [lit ''data:'' @ e]"
    by (rule split_at_plain) (use assms(1) in \<open>auto simp: plain_event_def list_all_iff lit_def\<close>)
  obtain r where e: "e = 123 # r" using assms(1) by (cases e) (auto simp: plain_event_def)
  then have "lstrip_of 32 e = e" "e \<noteq> lit ''[DONE]''" by (auto simp: lstrip_of_def lit_def)
  then show ?thesis using u l assms(2,3) by (simp add: on_frame_def starts_def Let_def)
qed

lemma done_frame_read: "\<not> ss_done st \<Longrightarrow> on_frame tp ms (lit ''data:[DONE]'') st = Inr (st\<lparr>ss_done := True\<rparr>)"
proof -
  have "starts ''data:'' (lit ''data:[DONE]'')" "lstrip_of 32 (drop 5 (lit ''data:[DONE]'')) = lit ''[DONE]''"
    "split_at 10 (lit ''data:[DONE]'') = [lit ''data:[DONE]'']" "utf8_decode (lit ''data:[DONE]'') = Some (lit ''data:[DONE]'')"
    by (simp_all add: starts_def lit_def lstrip_of_def)
  then show "\<not> ss_done st \<Longrightarrow> on_frame tp ms (lit ''data:[DONE]'') st = Inr (st\<lparr>ss_done := True\<rparr>)"
    by (simp add: on_frame_def Let_def)
qed

lemma event_stream_read:
  assumes "plain_event e" "strict_json e = Some (VDict d)" "on_event tp (1000 * (t - sub)) d sse_start = Inr st" "\<not> ss_done st"
  shows "parse_sse tp req sub [(event_stream e, t)] = sse_conclude req [] (st\<lparr>ss_done := True\<rparr>)"
proof -
  have "\<not> ss_done sse_start" by (simp add: sse_start_def)
  then show ?thesis
    using assms event_frame_read[OF assms(1,2), of sse_start tp "1000 * (t - sub)"]
    by (simp add: parse_sse_def Let_def event_frames seq_def done_frame_read)
qed

lemmas event_defs = on_event_def has_key_def seq_def on_model_def on_choices_def get_item_def index_zero_def delta_of_def
  get_object_def on_content_def on_reasoning_def on_tools_def on_reason_def on_usage_def on_timings_def sse_start_def

lemma demo_stream_read: "\<exists>r. parse_sse True False 0 [(event_stream sse_demo, 1)] = Inr r"
proof -
  have p: "plain_event sse_demo" by (simp add: sse_demo_def plain_event_def json_text_def lit_def)
  show ?thesis
    by (subst event_stream_read[OF p sse_demo_read]) (simp add: event_defs, simp, simp add: sse_conclude_def)
qed

theorem sse_result_is_consistent_witness:
  "\<exists>r. parse_sse True False 0 [(event_stream sse_demo, 1)] = Inr r \<and> (sr_visible_ms r = None \<longleftrightarrow> sr_answer r = [])"
  using demo_stream_read sse_result_is_consistent by blast

end
