(* ===== verification/SmokeTask.thy ===== *)
theory SmokeTask
  imports HttpReader SmokeUsage SmokeSse
begin

text \<open>
  \<open>start_smoke\<close> of \<open>scripts/gufo_control/smoke_http.py\<close>: waiting for the engine to be ready, checking its
  identity, one completion request and the judgement of its answer. The exchanges and deadline checks come from
  an environment, in the order the worker makes them; the request is a constant below its size limit. Shown here:
  the worker ends after a bounded number of exchanges with at most one completion request, which it sends only to
  the expected model, and it reports success for exactly the right answer only.
\<close>

section \<open>Environment and result\<close>

text \<open>What \<open>_exchange\<close> returns or raises: a response with the times it was submitted and completed and the timed
  parts of its body, a \<open>SmokeError\<close> with the raw bytes, any other exception by its type.\<close>

datatype exchange =
    Answer int headers "(nat list \<times> rat) list" rat rat
  | Failure string "nat list"
  | Raises string

record smoke_env =
  ready_check :: "nat \<Rightarrow> string option"
  ready_reply :: "nat \<Rightarrow> exchange"
  models_reply :: exchange
  post_check :: "string option"
  post_reply :: exchange

record smoke_result =
  sm_success :: bool
  sm_error :: "string option"
  sm_post_attempted :: bool
  sm_responses :: "(string \<times> int option \<times> nat list) list"
  sm_polls :: nat
  sm_connect_timeouts :: nat
  sm_duration_ms :: "rat option"
  sm_metrics :: "usage_report option"
  sm_first_ms :: "rat option"
  sm_answer :: "pystr option"
  sm_finish :: "pystr option"
  sm_usage :: "(pystr \<times> pyval) list option"
  sm_timings :: "(pystr \<times> pyval) list"
  sm_errors :: "string list"
  sm_unavailable :: "string list"
  sm_sent :: "(string \<times> string) list"

text \<open>\<open>sm_sent\<close> records the exchanges for the statements below; the code does not keep it.\<close>

definition smoke_start :: smoke_result where
  "smoke_start = \<lparr>sm_success = False, sm_error = None, sm_post_attempted = False, sm_responses = [], sm_polls = 0,
     sm_connect_timeouts = 0, sm_duration_ms = None, sm_metrics = None, sm_first_ms = None, sm_answer = None,
     sm_finish = None, sm_usage = None, sm_timings = [], sm_errors = [], sm_unavailable = [], sm_sent = []\<rparr>"

text \<open>The exception that ends the worker: a \<open>SmokeError\<close> with its raw response, or another type.\<close>

datatype halt = Smoke string "nat list" | Unexpected string

definition show_int :: "int \<Rightarrow> string" where
  "show_int n = (if n < 0 then ''-'' @ decimal (- n) else decimal n)"

definition json_object :: "nat list \<Rightarrow> (pystr \<times> pyval) list option" where
  "json_object body = (case utf8_decode body of
      None \<Rightarrow> None
    | Some s \<Rightarrow> (case strict_json s of Some (VDict d) \<Rightarrow> Some d | _ \<Rightarrow> None))"

definition body_of :: "(nat list \<times> rat) list \<Rightarrow> nat list" where
  "body_of parts = concat (map fst parts)"

definition capture_response :: "string \<Rightarrow> int option \<Rightarrow> nat list \<Rightarrow> smoke_result \<Rightarrow> smoke_result" where
  "capture_response path status body r = r\<lparr>sm_responses := sm_responses r @ [(path, status, body)]\<rparr>"

definition sending :: "string \<Rightarrow> string \<Rightarrow> smoke_result \<Rightarrow> smoke_result" where
  "sending method path r = r\<lparr>sm_sent := sm_sent r @ [(method, path)]\<rparr>"

definition model_name :: pystr where "model_name = lit ''gufo-flash-next''"
definition max_ready_polls :: nat where "max_ready_polls = 240"

definition not_ready :: "int \<Rightarrow> (pystr \<times> pyval) list \<Rightarrow> bool" where
  "not_ready status d \<longleftrightarrow> status = 503
     \<and> (case get_item d ''error'' of VDict e \<Rightarrow> get_item e ''code'' = VStr (lit ''not_ready'') | _ \<Rightarrow> False)"

section \<open>The arguments\<close>

definition private_key_ok :: "pyval \<Rightarrow> bool" where
  "private_key_ok k = (case k of
      VStr s \<Rightarrow> s \<noteq> [] \<and> length s \<le> 256 \<and> list_all (\<lambda>c. c < 128 \<and> \<not> is_space c) s
    | _ \<Rightarrow> False)"

text \<open>The checks before the worker starts: the exception, or \<open>None\<close>. The first deadline that is not finite ends
  the second check.\<close>

definition smoke_arguments :: "pyval \<Rightarrow> pyval \<Rightarrow> pyval \<Rightarrow> rat \<Rightarrow> string option" where
  "smoke_arguments key startup lifetime now =
     (if \<not> private_key_ok key then Some ''invalid_private_key''
      else (case finite_in (\<lambda>_. True) startup of
          None \<Rightarrow> Some ''OverflowError''
        | Some False \<Rightarrow> Some ''invalid_deadline''
        | Some True \<Rightarrow> (case finite_in (\<lambda>_. True) lifetime of
              None \<Rightarrow> Some ''OverflowError''
            | Some False \<Rightarrow> Some ''invalid_deadline''
            | Some True \<Rightarrow>
                if finite_in (\<lambda>r. r \<le> now) startup = Some True \<or> finite_in (\<lambda>r. r \<le> now) lifetime = Some True
                then Some ''expired_deadline'' else None)))"

section \<open>The worker\<close>

type_synonym smoke_step = "smoke_result \<Rightarrow> (halt + unit) \<times> smoke_result"

fun poll_ready :: "smoke_env \<Rightarrow> nat \<Rightarrow> nat \<Rightarrow> smoke_step" where
  "poll_ready env 0 i r = (Inl (Smoke ''ready_poll_limit'' []), r)"
| "poll_ready env (Suc n) i r0 = (case ready_check env i of
      Some c \<Rightarrow> (Inl (Smoke c []), r0)
    | None \<Rightarrow>
        let r = sending ''GET'' ''/ready'' (r0\<lparr>sm_polls := Suc (sm_polls r0)\<rparr>) in
        (case ready_reply env i of
           Raises e \<Rightarrow> (Inl (Unexpected e), r)
         | Failure c raw \<Rightarrow>
             if c = ''connect_timeout'' then poll_ready env n (Suc i) (r\<lparr>sm_connect_timeouts := Suc (sm_connect_timeouts r)\<rparr>)
             else if c = ''transport_ConnectionRefusedError'' then poll_ready env n (Suc i) r
             else (Inl (Smoke c raw), r)
         | Answer status hs parts sub compl \<Rightarrow>
             let r = capture_response ''/ready'' (Some status) (body_of parts) r in
             (case json_object (body_of parts) of
                None \<Rightarrow> (Inl (Smoke ''malformed_json'' []), r)
              | Some d \<Rightarrow>
                  if not_ready status d then poll_ready env n (Suc i) r
                  else if status \<noteq> 200 then (Inl (Smoke (''ready_http_'' @ show_int status) []), r)
                  else if get_item d ''status'' \<noteq> VStr (lit ''ready'') \<or> get_item d ''model'' \<noteq> VStr model_name
                  then (Inl (Smoke ''wrong_ready_model'' []), r)
                  else (Inr (), r))))"

definition only_model :: "(pystr \<times> pyval) list \<Rightarrow> bool" where
  "only_model d = (case get_item d ''data'' of VList [VDict m] \<Rightarrow> get_item m ''id'' = VStr model_name | _ \<Rightarrow> False)"

definition check_models :: "smoke_env \<Rightarrow> smoke_step" where
  "check_models env r0 =
     (let r = sending ''GET'' ''/v1/models'' r0 in
      case models_reply env of
        Raises e \<Rightarrow> (Inl (Unexpected e), r)
      | Failure c raw \<Rightarrow> (Inl (Smoke c raw), r)
      | Answer status hs parts sub compl \<Rightarrow>
          let r = capture_response ''/v1/models'' (Some status) (body_of parts) r in
          if status \<noteq> 200 then (Inl (Smoke (''models_http_'' @ show_int status) []), r)
          else (case json_object (body_of parts) of
              None \<Rightarrow> (Inl (Smoke ''malformed_json'' []), r)
            | Some d \<Rightarrow> if only_model d then (Inr (), r) else (Inl (Smoke ''wrong_models_identity'' []), r)))"

definition judge_errors :: "pystr \<Rightarrow> pystr \<Rightarrow> rat option \<Rightarrow> string list" where
  "judge_errors visible reason first_ms =
     (if strip visible \<noteq> lit ''4'' then [''wrong_answer''] else [])
     @ (if reason \<noteq> lit ''stop'' then [''incomplete_finish''] else [])
     @ (if first_ms = None then [''no_visible_content''] else [])"

definition usage_value :: "(pystr \<times> pyval) list option \<Rightarrow> pyval" where
  "usage_value u = (case u of None \<Rightarrow> VNone | Some d \<Rightarrow> VDict d)"

definition judge :: "sse_result \<Rightarrow> smoke_step" where
  "judge s r0 = (case validate_usage (usage_value (sr_usage s)) (VDict (sr_timings s)) (VInt 512) (VInt 64) (VStr (lit ''cold'')) of
      Inl e \<Rightarrow> (Inl (Unexpected e), r0)
    | Inr (metrics, problems, unavailable) \<Rightarrow>
        let errors = problems @ judge_errors (sr_answer s) (sr_finish s) (sr_visible_ms s);
            r = r0\<lparr>sm_metrics := metrics, sm_first_ms := sr_visible_ms s, sm_answer := Some (sr_answer s),
                   sm_finish := Some (sr_finish s), sm_usage := sr_usage s, sm_timings := sr_timings s,
                   sm_errors := errors, sm_unavailable := unavailable\<rparr>
        in if errors \<noteq> [] then (Inl (Smoke ''validation_failed'' []), r) else (Inr (), r))"

definition post_completion :: "smoke_env \<Rightarrow> smoke_step" where
  "post_completion env r0 = (case post_check env of
      Some c \<Rightarrow> (Inl (Smoke c []), r0)
    | None \<Rightarrow>
        let r = sending ''POST'' ''/v1/chat/completions'' (r0\<lparr>sm_post_attempted := True\<rparr>) in
        (case post_reply env of
           Raises e \<Rightarrow> (Inl (Unexpected e), r)
         | Failure c raw \<Rightarrow> (Inl (Smoke c raw), r)
         | Answer status hs parts submitted completed \<Rightarrow>
             let r = (capture_response ''/v1/chat/completions'' (Some status) (body_of parts) r)
                       \<lparr>sm_duration_ms := Some (1000 * (completed - submitted))\<rparr> in
             if status \<noteq> 200 then (Inl (Smoke (''completion_http_'' @ show_int status) []), r)
             else if \<not> prefix (lit ''text/event-stream'') (lower (case header_of hs ''content-type'' of None \<Rightarrow> [] | Some v \<Rightarrow> v))
             then (Inl (Smoke ''wrong_completion_content_type'' []), r)
             else (case parse_sse False True submitted parts of
                 Inl e \<Rightarrow> (Inl (Smoke e []), r)
               | Inr s \<Rightarrow> judge s r)))"

definition and_next :: "smoke_step \<Rightarrow> smoke_step \<Rightarrow> smoke_step" where
  "and_next f g r = (case f r of (Inl h, r') \<Rightarrow> (Inl h, r') | (Inr _, r') \<Rightarrow> g r')"

text \<open>The path an exception is reported under is that of the last exchange.\<close>

definition conclude_smoke :: "(halt + unit) \<times> smoke_result \<Rightarrow> smoke_result" where
  "conclude_smoke x = (case x of
      (Inr _, r) \<Rightarrow> r\<lparr>sm_success := True\<rparr>
    | (Inl (Unexpected e), r) \<Rightarrow> r\<lparr>sm_error := Some (''unexpected_'' @ e)\<rparr>
    | (Inl (Smoke c raw), r) \<Rightarrow>
        let r = r\<lparr>sm_error := Some c\<rparr> in
        if raw = [] then r else capture_response (snd (last (sm_sent r))) None raw r)"

definition smoke_work :: "smoke_env \<Rightarrow> smoke_result" where
  "smoke_work env = conclude_smoke
     (and_next (poll_ready env max_ready_polls 0) (and_next (check_models env) (post_completion env)) smoke_start)"

section \<open>What the worker does\<close>

text \<open>The exchanges of the three stages, and the fields they leave alone.\<close>

definition untouched :: "smoke_result \<Rightarrow> smoke_result \<Rightarrow> bool" where
  "untouched r r' \<longleftrightarrow> sm_success r' = sm_success r \<and> sm_error r' = sm_error r"

lemma untouched_refl [simp]: "untouched r r"
  by (simp add: untouched_def)

lemma poll_sent:
  "poll_ready env n i r = (out, r') \<Longrightarrow>
     (\<exists>k\<le>n. sm_sent r' = sm_sent r @ replicate k (''GET'', ''/ready'')) \<and> sm_post_attempted r' = sm_post_attempted r
     \<and> untouched r r'"
proof (induction n arbitrary: i r)
  case (Suc n)
  define r1 where "r1 = sending ''GET'' ''/ready'' (r\<lparr>sm_polls := Suc (sm_polls r)\<rparr>)"
  have r1: "sm_sent r1 = sm_sent r @ [(''GET'', ''/ready'')]" "sm_post_attempted r1 = sm_post_attempted r" "untouched r r1"
    by (simp_all add: r1_def sending_def untouched_def)
  define kept where "kept = (\<lambda>q. sm_sent q = sm_sent r1 \<and> sm_post_attempted q = sm_post_attempted r1 \<and> untouched r1 q)"
  have step: "(\<exists>k\<le>Suc n. sm_sent r' = sm_sent r @ replicate k (''GET'', ''/ready'')) \<and> sm_post_attempted r' = sm_post_attempted r
      \<and> untouched r r'" if q: "kept q" and on: "poll_ready env n j q = (out, r')" for q j
  proof -
    obtain k where "k \<le> n" "sm_sent r' = sm_sent q @ replicate k (''GET'', ''/ready'')" "sm_post_attempted r' = sm_post_attempted q"
      "untouched q r'" using Suc.IH[OF on] by blast
    then show ?thesis
      using q r1 by (auto simp: kept_def untouched_def intro!: exI[of _ "Suc k"])
  qed
  have stop: "(\<exists>k\<le>Suc n. sm_sent r' = sm_sent r @ replicate k (''GET'', ''/ready'')) \<and> sm_post_attempted r' = sm_post_attempted r
      \<and> untouched r r'" if "kept r'"
    using that r1 by (auto simp: kept_def untouched_def intro!: exI[of _ "Suc 0"])
  note run = Suc.prems[unfolded poll_ready.simps Let_def, folded r1_def]
  show ?case
  proof (cases "ready_check env i")
    case (Some c)
    then show ?thesis using run by (auto intro!: exI[of _ 0])
  next
    case None
    show ?thesis
    proof (cases "ready_reply env i")
      case (Raises e)
      then show ?thesis using run None stop by (simp add: kept_def)
    next
      case (Failure c raw)
      consider "c = ''connect_timeout''" | "c = ''transport_ConnectionRefusedError''"
        | "c \<noteq> ''connect_timeout''" "c \<noteq> ''transport_ConnectionRefusedError''" by blast
      then show ?thesis
      proof cases
        case 1
        then have "poll_ready env n (Suc i) (r1\<lparr>sm_connect_timeouts := Suc (sm_connect_timeouts r1)\<rparr>) = (out, r')"
          using run None Failure by simp
        then show ?thesis by (rule step[rotated]) (simp add: kept_def untouched_def)
      next
        case 2
        then have "poll_ready env n (Suc i) r1 = (out, r')" using run None Failure by simp
        then show ?thesis by (rule step[rotated]) (simp add: kept_def)
      next
        case 3
        then show ?thesis using run None Failure stop by (simp add: kept_def)
      qed
    next
      case (Answer status hs parts sub compl)
      let ?q = "capture_response ''/ready'' (Some status) (body_of parts) r1"
      have q: "kept ?q" by (simp add: kept_def capture_response_def untouched_def)
      show ?thesis
      proof (cases "\<exists>d. json_object (body_of parts) = Some d \<and> not_ready status d")
        case True
        then have "poll_ready env n (Suc i) ?q = (out, r')" using run None Answer by auto
        then show ?thesis by (rule step[OF q])
      next
        case False
        then have "r' = ?q" using run None Answer by (auto split: option.splits if_splits)
        then show ?thesis using stop q by simp
      qed
    qed
  qed
qed (auto intro!: exI[of _ 0])

lemma models_sent:
  "check_models env r = (out, r') \<Longrightarrow> sm_sent r' = sm_sent r @ [(''GET'', ''/v1/models'')]
     \<and> sm_post_attempted r' = sm_post_attempted r \<and> untouched r r'"
  by (auto simp: check_models_def sending_def capture_response_def untouched_def Let_def
      split: exchange.splits option.splits if_splits)

lemma judge_keeps:
  "judge s r = (out, r') \<Longrightarrow> sm_sent r' = sm_sent r \<and> sm_post_attempted r' = sm_post_attempted r \<and> untouched r r'"
  by (auto simp: judge_def untouched_def Let_def split: sum.splits if_splits)

lemma post_sent:
  assumes "post_completion env r = (out, r')"
  shows "untouched r r' \<and> (sm_sent r' = sm_sent r \<and> sm_post_attempted r' = sm_post_attempted r \<and> post_check env \<noteq> None
    \<or> sm_sent r' = sm_sent r @ [(''POST'', ''/v1/chat/completions'')] \<and> sm_post_attempted r')"
proof (cases "post_check env")
  case (Some c)
  then show ?thesis using assms by (simp add: post_completion_def)
next
  case None
  define r1 where "r1 = sending ''POST'' ''/v1/chat/completions'' (r\<lparr>sm_post_attempted := True\<rparr>)"
  have r1: "untouched r r1" "sm_sent r1 = sm_sent r @ [(''POST'', ''/v1/chat/completions'')]" "sm_post_attempted r1"
    by (simp_all add: r1_def sending_def untouched_def)
  note run = assms[unfolded post_completion_def Let_def, folded r1_def]
  show ?thesis
  proof (cases "post_reply env")
    case (Answer status hs parts sub compl)
    let ?q = "(capture_response ''/v1/chat/completions'' (Some status) (body_of parts) r1)\<lparr>sm_duration_ms := Some (1000 * (compl - sub))\<rparr>"
    have q: "untouched r ?q" "sm_sent ?q = sm_sent r1" "sm_post_attempted ?q"
      using r1 by (simp_all add: capture_response_def untouched_def)
    have "r' = ?q \<or> (\<exists>s. judge s ?q = (out, r'))"
      using run None Answer by (auto split: sum.splits if_splits option.splits)
    then show ?thesis using q r1 judge_keeps[of _ ?q out r'] by (auto simp: untouched_def)
  qed (use run None r1 in \<open>simp_all\<close>)
qed

text \<open>All the stages together.\<close>

definition stages :: "smoke_env \<Rightarrow> (halt + unit) \<times> smoke_result" where
  "stages env = and_next (poll_ready env max_ready_polls 0) (and_next (check_models env) (post_completion env)) smoke_start"

definition polls_then :: "(string \<times> string) list \<Rightarrow> smoke_result \<Rightarrow> bool" where
  "polls_then rest r \<longleftrightarrow> (\<exists>k\<le>max_ready_polls. sm_sent r = replicate k (''GET'', ''/ready'') @ rest)"

lemma stages_sent:
  assumes "stages env = (out, r)"
  shows "sm_success r = False \<and> sm_error r = None
    \<and> (polls_then [] r \<and> \<not> sm_post_attempted r \<and> out \<noteq> Inr ()
      \<or> polls_then [(''GET'', ''/v1/models'')] r \<and> \<not> sm_post_attempted r \<and> out \<noteq> Inr ()
      \<or> polls_then [(''GET'', ''/v1/models''), (''POST'', ''/v1/chat/completions'')] r \<and> sm_post_attempted r)"
proof -
  obtain o1 r1 where p: "poll_ready env max_ready_polls 0 smoke_start = (o1, r1)" by fastforce
  have r1: "polls_then [] r1" "\<not> sm_post_attempted r1" "sm_success r1 = False" "sm_error r1 = None"
    using poll_sent[OF p] by (auto simp: polls_then_def smoke_start_def untouched_def)
  show ?thesis
  proof (cases o1)
    case (Inl h)
    then show ?thesis using assms r1 p by (auto simp: stages_def and_next_def)
  next
    case o1: (Inr u)
    obtain o2 r2 where m: "check_models env r1 = (o2, r2)" by fastforce
    have r2: "polls_then [(''GET'', ''/v1/models'')] r2" "\<not> sm_post_attempted r2" "sm_success r2 = False" "sm_error r2 = None"
      using models_sent[OF m] r1 by (auto simp: polls_then_def untouched_def)
    show ?thesis
    proof (cases o2)
      case (Inl h)
      then show ?thesis using assms r2 p m o1 by (auto simp: stages_def and_next_def)
    next
      case o2: (Inr u)
      then have r: "post_completion env r2 = (out, r)" using assms p m o1 by (simp add: stages_def and_next_def)
      show ?thesis
      proof (cases "post_check env")
        case (Some c)
        then show ?thesis using r r2 by (auto simp: post_completion_def)
      next
        case None
        then show ?thesis using post_sent[OF r] r2 by (auto simp: polls_then_def untouched_def)
      qed
    qed
  qed
qed

lemma conclude_fields:
  "sm_sent (conclude_smoke x) = sm_sent (snd x)" "sm_post_attempted (conclude_smoke x) = sm_post_attempted (snd x)"
  "sm_success (conclude_smoke x) \<longleftrightarrow> sm_success (snd x) \<or> (\<exists>u. fst x = Inr u)"
  "sm_error (conclude_smoke x) = None \<longleftrightarrow> sm_error (snd x) = None \<and> (\<exists>u. fst x = Inr u)"
  by (cases x; cases "fst x"; force simp: conclude_smoke_def capture_response_def Let_def split: halt.split)+

section \<open>Properties\<close>

text \<open>Whatever the engine and the clock do, the worker ends after at most 240 readiness polls, one model query and
  one completion request, in this order; the request is sent exactly when it is recorded as attempted; and the
  worker reports either success or an error, never both.\<close>

theorem smoke_sends_at_most_one_request:
  "\<exists>k rest. sm_sent (smoke_work env) = replicate k (''GET'', ''/ready'') @ rest \<and> k \<le> 240
    \<and> prefix rest [(''GET'', ''/v1/models''), (''POST'', ''/v1/chat/completions'')]
    \<and> (sm_post_attempted (smoke_work env) \<longleftrightarrow> length rest = 2)
    \<and> (sm_success (smoke_work env) \<longleftrightarrow> sm_error (smoke_work env) = None)"
proof -
  obtain out r where s: "stages env = (out, r)" by fastforce
  have w: "smoke_work env = conclude_smoke (out, r)" using s by (simp add: smoke_work_def stages_def)
  have ok: "sm_success (smoke_work env) \<longleftrightarrow> sm_error (smoke_work env) = None"
    using stages_sent[OF s] by (simp add: w conclude_fields)
  have found: ?thesis if "polls_then rest r" "prefix rest [(''GET'', ''/v1/models''), (''POST'', ''/v1/chat/completions'')]"
    "sm_post_attempted r \<longleftrightarrow> length rest = 2" for rest
    using that ok by (auto simp: polls_then_def max_ready_polls_def w conclude_fields)
  from stages_sent[OF s] consider "polls_then [] r" "\<not> sm_post_attempted r"
    | "polls_then [(''GET'', ''/v1/models'')] r" "\<not> sm_post_attempted r"
    | "polls_then [(''GET'', ''/v1/models''), (''POST'', ''/v1/chat/completions'')] r" "sm_post_attempted r" by blast
  then show ?thesis
    by cases (rule found, assumption, simp_all)+
qed

text \<open>C34. Success means that the engine presented itself as the one expected model, and that the one completion it was
  asked for came with status 200 as an event stream whose answer is \<open>4\<close> up to white space, finished with
  \<open>stop\<close>, with a measured first output and a usage report that accounts for every token within the limits and
  without cached tokens.\<close>

theorem smoke_success_is_earned:
  assumes "sm_success (smoke_work env)"
  shows "\<exists>mh mp ms mc hs parts submitted completed s items rep d.
    models_reply env = Answer 200 mh mp ms mc \<and> json_object (body_of mp) = Some d \<and> only_model d
    \<and> post_reply env = Answer 200 hs parts submitted completed \<and> parse_sse False True submitted parts = Inr s
    \<and> strip (sr_answer s) = lit ''4'' \<and> sr_finish s = lit ''stop'' \<and> sr_visible_ms s \<noteq> None
    \<and> sr_usage s = Some items \<and> accounted 512 64 True items rep
    \<and> sm_answer (smoke_work env) = Some (sr_answer s) \<and> sm_metrics (smoke_work env) = Some rep"
proof -
  obtain out r where s: "stages env = (out, r)" by fastforce
  have w: "smoke_work env = conclude_smoke (out, r)" using s by (simp add: smoke_work_def stages_def)
  have out: "out = Inr ()" using assms stages_sent[OF s] by (auto simp: w conclude_fields)
  obtain r1 r2 where m: "check_models env r1 = (Inr (), r2)" and p: "post_completion env r2 = (Inr (), r)"
    using s out by (auto simp: stages_def and_next_def split: sum.splits prod.splits)
  obtain mh mp ms mc d where models: "models_reply env = Answer 200 mh mp ms mc" "json_object (body_of mp) = Some d" "only_model d"
    using m by (auto simp: check_models_def Let_def split: exchange.splits option.splits if_splits)
  obtain hs parts sub compl q sse where post: "post_reply env = Answer 200 hs parts sub compl"
    "parse_sse False True sub parts = Inr sse" "judge sse q = (Inr (), r)"
    using p by (auto simp: post_completion_def Let_def split: exchange.splits option.splits if_splits sum.splits)
  obtain metrics un where v: "validate_usage (usage_value (sr_usage sse)) (VDict (sr_timings sse)) (VInt 512) (VInt 64) (VStr (lit ''cold''))
      = Inr (metrics, [], un)" "judge_errors (sr_answer sse) (sr_finish sse) (sr_visible_ms sse) = []"
    "sm_answer r = Some (sr_answer sse)" "sm_metrics r = metrics"
    using post(3) by (auto simp: judge_def Let_def split: sum.splits if_splits)
  obtain items rep where u: "usage_value (sr_usage sse) = VDict items" "metrics = Some rep" "accounted 512 64 True items rep"
    using validated_accounted[OF v(1)] by auto
  have "sr_usage sse = Some items" using u(1) by (auto simp: usage_value_def split: option.splits)
  moreover have "strip (sr_answer sse) = lit ''4''" "sr_finish sse = lit ''stop''" "sr_visible_ms sse \<noteq> None"
    using v(2) by (auto simp: judge_errors_def split: if_splits)
  ultimately show ?thesis using models post(1,2) u v(3,4) out by (auto simp: w conclude_smoke_def)
qed

text \<open>An engine that answers at once.\<close>

definition ready_text :: pystr where
  "ready_text = json_text ''{|status|:|ready|,|model|:|gufo-flash-next|}''"

definition models_text :: pystr where
  "models_text = json_text ''{|data|:[{|id|:|gufo-flash-next|}]}''"

definition answer_text :: pystr where
  "answer_text = json_text (''{|choices|:[{|delta|:{|content|:|4|},|finish_reason|:|stop|}],''
     @ ''|usage|:{|prompt_tokens|:20,|completion_tokens|:3,|cached_tokens|:0},|timings|:{|prompt_n|:20}}'')"

definition good_engine :: smoke_env where
  "good_engine = \<lparr>ready_check = (\<lambda>i. None), ready_reply = (\<lambda>i. Answer 200 [] [(ready_text, 1)] 0 1),
     models_reply = Answer 200 [] [(models_text, 2)] 1 2, post_check = None,
     post_reply = Answer 200 [(lit ''content-type'', lit ''text/event-stream'')] [(event_stream answer_text, 4)] 3 5\<rparr>"

lemma ready_text_read:
  "json_object ready_text = Some [(lit ''status'', VStr (lit ''ready'')), (lit ''model'', VStr model_name)]"
proof -
  have "list_all (\<lambda>c. c < 128) ready_text" by (simp add: ready_text_def json_text_def lit_def)
  moreover have "strict_json ready_text = Some (VDict [(lit ''status'', VStr (lit ''ready'')), (lit ''model'', VStr model_name)])"
    by (simp add: ready_text_def model_name_def json_eval)
  ultimately show ?thesis by (simp add: json_object_def utf8_decode_ascii)
qed

lemma models_text_read:
  "json_object models_text = Some [(lit ''data'', VList [VDict [(lit ''id'', VStr model_name)]])]"
proof -
  have "list_all (\<lambda>c. c < 128) models_text" by (simp add: models_text_def json_text_def lit_def)
  moreover have "strict_json models_text = Some (VDict [(lit ''data'', VList [VDict [(lit ''id'', VStr model_name)]])])"
    by (simp add: models_text_def model_name_def json_eval)
  ultimately show ?thesis by (simp add: json_object_def utf8_decode_ascii)
qed

definition answer_usage :: "(pystr \<times> pyval) list" where
  "answer_usage = [(lit ''prompt_tokens'', VInt 20), (lit ''completion_tokens'', VInt 3), (lit ''cached_tokens'', VInt 0)]"

definition answer_event :: "(pystr \<times> pyval) list" where
  "answer_event = [(lit ''choices'', VList [VDict [(lit ''delta'', VDict [(lit ''content'', VStr (lit ''4''))]),
      (lit ''finish_reason'', VStr (lit ''stop''))]]), (lit ''usage'', VDict answer_usage),
     (lit ''timings'', VDict [(lit ''prompt_n'', VInt 20)])]"

lemma answer_text_read: "plain_event answer_text" "strict_json answer_text = Some (VDict answer_event)"
proof -
  show "plain_event answer_text" by (simp add: answer_text_def plain_event_def json_text_def lit_def)
  show "strict_json answer_text = Some (VDict answer_event)"
    by (simp add: answer_text_def answer_event_def answer_usage_def json_eval)
qed

lemma good_answer_parsed:
  "\<exists>s. parse_sse False True 3 [(event_stream answer_text, 4)] = Inr s \<and> sr_answer s = lit ''4'' \<and> sr_finish s = lit ''stop''
     \<and> sr_visible_ms s = Some 1000 \<and> sr_usage s = Some answer_usage \<and> sr_timings s = [(lit ''prompt_n'', VInt 20)]"
  by (subst event_stream_read[OF answer_text_read])
    (simp add: answer_event_def event_defs, simp, simp add: sse_conclude_def)

lemma good_usage_validated:
  "\<exists>rep un. validate_usage (VDict answer_usage) (VDict [(lit ''prompt_n'', VInt 20)]) (VInt 512) (VInt 64) (VStr (lit ''cold''))
     = Inr (rep, [], un)"
  by (simp add: validate_usage_def usage_reading_def report_reading_def answer_usage_def and_then_def
      noting_def noting_all_def note_all_def note_problem_def read_field_def has_key_def get_item_def int_or_none_def
      object_of_def bad_object_def count_checks_def first_known_def differ_def over_def plus_option_def is_true_def
      finish_with_def)

lemma good_engine_succeeds: "sm_success (smoke_work good_engine)"
proof -
  obtain s where s: "parse_sse False True 3 [(event_stream answer_text, 4)] = Inr s" "sr_answer s = lit ''4''"
    "sr_finish s = lit ''stop''" "sr_visible_ms s = Some 1000" "sr_usage s = Some answer_usage"
    "sr_timings s = [(lit ''prompt_n'', VInt 20)]"
    using good_answer_parsed by blast
  obtain rep un where v: "validate_usage (VDict answer_usage) (VDict [(lit ''prompt_n'', VInt 20)]) (VInt 512) (VInt 64)
      (VStr (lit ''cold'')) = Inr (rep, [], un)"
    using good_usage_validated by blast
  have four: "strip (lit ''4'') = lit ''4''" by (simp add: strip_def lit_def is_space_def)
  have j: "\<exists>r'. judge s r = (Inr (), r')" for r
    using s v four by (simp add: judge_def usage_value_def judge_errors_def)
  have "\<exists>r'. poll_ready good_engine max_ready_polls 0 smoke_start = (Inr (), r')"
  proof -
    have "\<exists>r'. poll_ready good_engine (Suc n) 0 smoke_start = (Inr (), r')" for n
      by (simp add: good_engine_def body_of_def ready_text_read not_ready_def get_item_def)
    note polled = this
    have m: "max_ready_polls = Suc 239" by (simp add: max_ready_polls_def)
    show ?thesis unfolding m by (rule polled)
  qed
  moreover have "\<exists>r'. check_models good_engine r = (Inr (), r')" for r
    by (simp add: check_models_def good_engine_def body_of_def models_text_read only_model_def get_item_def)
  moreover have "\<exists>r'. post_completion good_engine r = (Inr (), r')" for r
  proof -
    have "prefix (lit ''text/event-stream'') (lower (lit ''text/event-stream''))" by (simp add: lower_def lower_char_def lit_def)
    then show ?thesis using j s(1) by (simp add: post_completion_def good_engine_def header_of_def Let_def)
  qed
  ultimately have "\<exists>r'. stages good_engine = (Inr (), r')"
    unfolding stages_def and_next_def by (metis (no_types, lifting) old.sum.simps(6) split_conv)
  then show ?thesis by (auto simp: smoke_work_def stages_def[symmetric] conclude_fields)
qed

theorem smoke_success_is_earned_witness:
  "\<exists>s. parse_sse False True 3 [(event_stream answer_text, 4)] = Inr s \<and> strip (sr_answer s) = lit ''4''
     \<and> sm_answer (smoke_work good_engine) = Some (sr_answer s)"
  using smoke_success_is_earned[OF good_engine_succeeds] by (auto simp: good_engine_def)

end
