(* ===== verification/Presentation.thy ===== *)
theory Presentation
  imports PyVal Machines
begin

text \<open>
  \<open>voice/presentation_history.py\<close>: the optional history of what the host has spoken. Grants, receipts and events
  are validated field by field, and a finite outbox hands validated events to a publisher. Shown here: what is
  published are valid events of one owner in the order 1, 2, 3, .. without a gap, at most sixteen of them, and
  after one uncertain attempt nothing is ever published again.
\<close>

section \<open>Grants\<close>

definition hex_text :: "nat \<Rightarrow> pyval \<Rightarrow> bool" where
  "hex_text n v = (case v of
      VStr s \<Rightarrow> length s = n \<and> list_all (\<lambda>c. 48 \<le> c \<and> c \<le> 57 \<or> 97 \<le> c \<and> c \<le> 102) s
    | _ \<Rightarrow> False)"

definition int_within :: "int \<Rightarrow> int \<Rightarrow> pyval \<Rightarrow> bool" where
  "int_within low high v = (case v of VInt i \<Rightarrow> low \<le> i \<and> i \<le> high | _ \<Rightarrow> False)"

definition is_text :: "string \<Rightarrow> pyval \<Rightarrow> bool" where
  "is_text s v \<longleftrightarrow> v = VStr (lit s)"

definition max_safe :: int where "max_safe = 9007199254740991"

definition grant_fields :: "string list" where
  "grant_fields = [''operation'', ''requestId'', ''appInboundId'', ''clientSessionId'', ''userId'', ''callerUserId'',
     ''conversationBinding'', ''nonceSha256'', ''maxAgeSeconds'']"

definition grant_receipt_fields :: "string list" where
  "grant_receipt_fields = [''status'', ''state'', ''requestId'', ''conversationId'', ''nonceSha256'', ''issuedAtMs'',
     ''expiresAtMs'', ''attested'', ''scope'', ''businessAuthority'', ''providerContextUserId'']"

definition text_or_empty :: "pyval \<Rightarrow> pystr" where
  "text_or_empty v = (case v of VStr s \<Rightarrow> s | _ \<Rightarrow> [])"

definition valid_binding :: "pyval \<Rightarrow> bool" where
  "valid_binding v = (case v of
      VDict b \<Rightarrow>
        has_keys b [''source'', ''conversationId'', ''creationMessageId'', ''createRequestId'', ''interactionId'']
        \<and> is_text ''servicenow_create_conversation'' (get_item b ''source'')
        \<and> list_all (\<lambda>k. hex_text 32 (get_item b k)) [''conversationId'', ''creationMessageId'', ''createRequestId'', ''interactionId'']
    | _ \<Rightarrow> False)"

definition valid_grant_request :: "pyval \<Rightarrow> bool" where
  "valid_grant_request v = (case v of
      VDict d \<Rightarrow>
        has_keys d grant_fields
        \<and> is_text ''attest_presentation_history_v1'' (get_item d ''operation'')
        \<and> is_text ''scc-local-voice'' (get_item d ''appInboundId'')
        \<and> list_all (\<lambda>k. hex_text 32 (get_item d k)) [''requestId'', ''clientSessionId'', ''callerUserId'']
        \<and> get_item d ''userId'' = VStr (lit ''voice-'' @ text_or_empty (get_item d ''clientSessionId''))
        \<and> hex_text 64 (get_item d ''nonceSha256'')
        \<and> int_within 60 3600 (get_item d ''maxAgeSeconds'')
        \<and> valid_binding (get_item d ''conversationBinding'')
    | _ \<Rightarrow> False)"

definition int_of :: "pyval \<Rightarrow> int" where
  "int_of v = (case v of VInt i \<Rightarrow> i | _ \<Rightarrow> 0)"

definition dict_items :: "pyval \<Rightarrow> (pystr \<times> pyval) list" where
  "dict_items v = (case v of VDict d \<Rightarrow> d | _ \<Rightarrow> [])"

definition voice_user :: "pyval \<Rightarrow> bool" where
  "voice_user v = (case v of
      VStr s \<Rightarrow> prefix (lit ''voice-'') s \<and> hex_text 32 (VStr (drop 6 s))
    | _ \<Rightarrow> False)"

definition valid_grant_receipt :: "pyval \<Rightarrow> pyval \<Rightarrow> bool" where
  "valid_grant_receipt v request = (case (v, request) of
      (VDict d, VDict r) \<Rightarrow>
        valid_grant_request request \<and> has_keys d grant_receipt_fields
        \<and> is_text ''success'' (get_item d ''status'') \<and> is_text ''presentation_history_grant_attested'' (get_item d ''state'')
        \<and> get_item d ''requestId'' = get_item r ''requestId''
        \<and> get_item d ''conversationId'' = get_item (dict_items (get_item r ''conversationBinding'')) ''conversationId''
        \<and> get_item d ''nonceSha256'' = get_item r ''nonceSha256''
        \<and> voice_user (get_item d ''providerContextUserId'')
        \<and> int_within 1 max_safe (get_item d ''issuedAtMs'') \<and> int_within 1 max_safe (get_item d ''expiresAtMs'')
        \<and> int_of (get_item d ''expiresAtMs'') - int_of (get_item d ''issuedAtMs'') = int_of (get_item r ''maxAgeSeconds'') * 1000
        \<and> get_item d ''attested'' = VBool True \<and> is_text ''presentation_metadata_only'' (get_item d ''scope'')
        \<and> get_item d ''businessAuthority'' = VBool False
    | _ \<Rightarrow> False)"

section \<open>Events\<close>

definition max_events :: nat where "max_events = 16"

definition event_fields :: "string list" where
  "event_fields = [''version'', ''kind'', ''local_output_state'', ''native_request_binding'', ''owner_id'', ''event_id'',
     ''sequence'', ''caller_turn_id'', ''original_asr_sha256'', ''output_epoch'', ''task_revision'',
     ''playback_generation'', ''text'', ''text_sha256'', ''accepted_samples'', ''emitted_samples'']"

type_synonym event = "(pystr \<times> pyval) list"

definition utf16_units :: "pystr \<Rightarrow> nat" where
  "utf16_units s = length s + length (filter (\<lambda>c. 65536 \<le> c) s)"

definition caller_ok :: "pyval \<Rightarrow> pyval \<Rightarrow> bool" where
  "caller_ok turn asr \<longleftrightarrow> turn = VNone \<and> asr = VNone \<or> hex_text 32 turn \<and> hex_text 64 asr"

text \<open>\<open>sha\<close> is the hexadecimal SHA-256 of the UTF-8 encoding of a text. A lone surrogate cannot be encoded.\<close>

definition valid_text :: "(pystr \<Rightarrow> pystr) \<Rightarrow> pyval \<Rightarrow> pyval \<Rightarrow> bool" where
  "valid_text sha v digest = (case v of
      VStr s \<Rightarrow> strip s \<noteq> [] \<and> length s \<le> 2000 \<and> hex_text 64 digest
        \<and> list_all (\<lambda>c. \<not> (55296 \<le> c \<and> c \<le> 57343)) s \<and> utf16_units s \<le> 2000 \<and> utf8_len s \<le> 8000
        \<and> digest = VStr (sha s)
    | _ \<Rightarrow> False)"

definition event_ints :: "(string \<times> int \<times> int) list" where
  "event_ints = [(''version'', 1, 1), (''sequence'', 1, int max_events), (''output_epoch'', 1, 2147483647),
     (''task_revision'', 1, 2147483647), (''playback_generation'', 0, 2147483647), (''accepted_samples'', 1, 43200000),
     (''emitted_samples'', 1, 43200000)]"

definition valid_event :: "(pystr \<Rightarrow> pystr) \<Rightarrow> event \<Rightarrow> bool" where
  "valid_event sha d \<longleftrightarrow>
     has_keys d event_fields
     \<and> list_all (\<lambda>(k, low, high). int_within low high (get_item d k)) event_ints
     \<and> is_text ''local_conversation_history'' (get_item d ''kind'')
     \<and> is_text ''host_emitted'' (get_item d ''local_output_state'')
     \<and> is_text ''unavailable'' (get_item d ''native_request_binding'')
     \<and> hex_text 32 (get_item d ''owner_id'') \<and> hex_text 32 (get_item d ''event_id'')
     \<and> get_item d ''accepted_samples'' = get_item d ''emitted_samples''
     \<and> valid_text sha (get_item d ''text'') (get_item d ''text_sha256'')
     \<and> caller_ok (get_item d ''caller_turn_id'') (get_item d ''original_asr_sha256'')"

text \<open>\<open>validate_event\<close>; \<open>None\<close> is its \<open>ValueError\<close>.\<close>

definition validate_history :: "(pystr \<Rightarrow> pystr) \<Rightarrow> pyval \<Rightarrow> event option" where
  "validate_history sha v = (case v of VDict d \<Rightarrow> if valid_event sha d then Some d else None | _ \<Rightarrow> None)"

definition receipt_fields :: "string list" where
  "receipt_fields = [''status'', ''state'', ''requestId'', ''conversationId'', ''sequence'', ''eventId'', ''textSha256'',
     ''stored'', ''hostEmitted'', ''heard'', ''promptIncluded'']"

definition valid_receipt :: "pyval \<Rightarrow> event \<Rightarrow> pyval \<Rightarrow> pyval \<Rightarrow> bool" where
  "valid_receipt v event conversation request_id = (case v of
      VDict d \<Rightarrow>
        has_keys d receipt_fields
        \<and> is_text ''success'' (get_item d ''status'') \<and> is_text ''presentation_history_stored'' (get_item d ''state'')
        \<and> hex_text 32 (get_item d ''requestId'') \<and> (request_id = VNone \<or> get_item d ''requestId'' = request_id)
        \<and> get_item d ''conversationId'' = conversation
        \<and> as_int (get_item d ''sequence'') \<noteq> None \<and> get_item d ''sequence'' = get_item event ''sequence''
        \<and> get_item d ''eventId'' = get_item event ''event_id'' \<and> get_item d ''textSha256'' = get_item event ''text_sha256''
        \<and> get_item d ''stored'' = VBool True \<and> get_item d ''hostEmitted'' = VBool True
        \<and> get_item d ''heard'' = VBool False \<and> get_item d ''promptIncluded'' = VBool False
    | _ \<Rightarrow> False)"

section \<open>The outbox\<close>

text \<open>Where the writer \<open>run\<close> stands: at the head of its loop, waiting for readiness, for an event, for readiness
  with an event in hand, for the publisher, ended.\<close>

datatype writer = AtLoop | AwaitReady | AwaitEvent | Holding event | Publishing event | Ended

record outbox =
  ob_owner :: pystr
  ob_sequence :: nat
  ob_disabled :: bool
  ob_queue :: "event list"
  ob_writer :: writer
  ob_published :: "event list"

text \<open>\<open>ob_published\<close> lists what was handed to the publisher.\<close>

definition new_outbox :: "pyval \<Rightarrow> outbox option" where
  "new_outbox owner =
     (if hex_text 32 owner
      then Some \<lparr>ob_owner = text_or_empty owner, ob_sequence = 0, ob_disabled = False, ob_queue = [], ob_writer = AtLoop,
                 ob_published = []\<rparr>
      else None)"

definition event_sequence :: "event \<Rightarrow> int" where
  "event_sequence e = int_of (get_item e ''sequence'')"

definition offer :: "(pystr \<Rightarrow> pystr) \<Rightarrow> pyval \<Rightarrow> outbox \<Rightarrow> bool \<times> outbox" where
  "offer sha v b =
     (if ob_disabled b \<or> max_events \<le> ob_sequence b then (False, b)
      else (case validate_history sha v of
          None \<Rightarrow> (False, b)
        | Some e \<Rightarrow>
            if get_item e ''owner_id'' \<noteq> VStr (ob_owner b) \<or> event_sequence e \<noteq> int (ob_sequence b) + 1 then (False, b)
            else if max_events \<le> length (ob_queue b) then (False, b)
            else (True, b\<lparr>ob_queue := ob_queue b @ [e], ob_sequence := nat (event_sequence e)\<rparr>)))"

definition close_outbox :: "outbox \<Rightarrow> outbox" where
  "close_outbox b = b\<lparr>ob_disabled := True, ob_queue := []\<rparr>"

definition end_writer :: "outbox \<Rightarrow> outbox" where
  "end_writer b = (close_outbox b)\<lparr>ob_writer := Ended\<rparr>"

definition start_publishing :: "event \<Rightarrow> outbox \<Rightarrow> outbox" where
  "start_publishing e b = b\<lparr>ob_writer := Publishing e, ob_published := ob_published b @ [e]\<rparr>"

text \<open>One step of \<open>run\<close> between two suspensions. \<open>waits\<close> says whether \<open>wait_ready\<close> is given, \<open>answer\<close> is
  whether what is awaited returned \<open>True\<close> within its time.\<close>

definition writer_step :: "bool \<Rightarrow> bool \<Rightarrow> outbox \<Rightarrow> outbox" where
  "writer_step waits answer b = (case ob_writer b of
      AtLoop \<Rightarrow>
        if ob_disabled b then end_writer b
        else b\<lparr>ob_writer := (if waits then AwaitReady else AwaitEvent)\<rparr>
    | AwaitReady \<Rightarrow> if answer then b\<lparr>ob_writer := AwaitEvent\<rparr> else end_writer b
    | AwaitEvent \<Rightarrow> (case ob_queue b of
          [] \<Rightarrow> b
        | e # q \<Rightarrow>
            let b' = b\<lparr>ob_queue := q\<rparr>
            in if ob_disabled b then end_writer b'
               else if waits then b'\<lparr>ob_writer := Holding e\<rparr> else start_publishing e b')
    | Holding e \<Rightarrow> if answer then start_publishing e b else end_writer b
    | Publishing e \<Rightarrow> (if answer then b else close_outbox b)\<lparr>ob_writer := AtLoop\<rparr>
    | Ended \<Rightarrow> b)"

text \<open>What happens to an outbox: an offer, a step of the writer, \<open>close\<close>, and cancellation of the writer.\<close>

datatype outbox_act = Offer pyval | Step bool | Close | Cancel

fun outbox_do :: "(pystr \<Rightarrow> pystr) \<Rightarrow> bool \<Rightarrow> outbox_act \<Rightarrow> outbox \<Rightarrow> outbox" where
  "outbox_do sha waits (Offer v) b = snd (offer sha v b)"
| "outbox_do sha waits (Step answer) b = writer_step waits answer b"
| "outbox_do sha waits Close b = close_outbox b"
| "outbox_do sha waits Cancel b = end_writer b"

definition outbox_run :: "(pystr \<Rightarrow> pystr) \<Rightarrow> bool \<Rightarrow> outbox_act list \<Rightarrow> outbox \<Rightarrow> outbox" where
  "outbox_run sha waits acts b = fold (outbox_do sha waits) acts b"

section \<open>What is published\<close>

text \<open>The events accepted and not yet handed on.\<close>

definition pending_events :: "outbox \<Rightarrow> event list" where
  "pending_events b = (case ob_writer b of Holding e \<Rightarrow> [e] | _ \<Rightarrow> []) @ ob_queue b"

definition numbered :: "nat \<Rightarrow> event list \<Rightarrow> bool" where
  "numbered n es \<longleftrightarrow> map event_sequence es = map int [1..<Suc n]"

definition outbox_ok :: "(pystr \<Rightarrow> pystr) \<Rightarrow> outbox \<Rightarrow> bool" where
  "outbox_ok sha b \<longleftrightarrow>
     (\<exists>dropped. numbered (ob_sequence b) (ob_published b @ pending_events b @ dropped) \<and> (\<not> ob_disabled b \<longrightarrow> dropped = []))
     \<and> (ob_disabled b \<longrightarrow> ob_queue b = []) \<and> (ob_writer b = Ended \<longrightarrow> ob_disabled b) \<and> ob_sequence b \<le> max_events
     \<and> list_all (\<lambda>e. valid_event sha e \<and> get_item e ''owner_id'' = VStr (ob_owner b)) (ob_published b @ pending_events b)"

lemma new_outbox_ok: "new_outbox owner = Some b \<Longrightarrow> outbox_ok sha b"
  by (auto simp: new_outbox_def outbox_ok_def numbered_def pending_events_def split: if_splits)

lemma numbered_snoc: "numbered n es \<Longrightarrow> event_sequence e = int n + 1 \<Longrightarrow> numbered (Suc n) (es @ [e])"
  by (simp add: numbered_def)

lemma offer_ok:
  assumes "outbox_ok sha b" shows "outbox_ok sha (snd (offer sha v b))"
proof (cases "fst (offer sha v b)")
  case False
  then have "snd (offer sha v b) = b" by (auto simp: offer_def split: option.splits if_splits)
  then show ?thesis using assms by simp
next
  case True
  then obtain e where e: "\<not> ob_disabled b" "ob_sequence b < max_events" "valid_event sha e"
    "get_item e ''owner_id'' = VStr (ob_owner b)" "event_sequence e = int (ob_sequence b) + 1"
    "snd (offer sha v b) = b\<lparr>ob_queue := ob_queue b @ [e], ob_sequence := nat (event_sequence e)\<rparr>"
    by (auto simp: offer_def validate_history_def split: option.splits if_splits pyval.splits)
  let ?b = "b\<lparr>ob_queue := ob_queue b @ [e], ob_sequence := Suc (ob_sequence b)\<rparr>"
  have b: "snd (offer sha v b) = ?b" using e(5,6) by simp
  have p: "pending_events ?b = pending_events b @ [e]" by (simp add: pending_events_def)
  have "numbered (ob_sequence b) (ob_published b @ pending_events b)" using assms e(1) by (auto simp: outbox_ok_def)
  then have "numbered (Suc (ob_sequence b)) (ob_published b @ pending_events ?b @ [])"
    using numbered_snoc[OF _ e(5), of "ob_published b @ pending_events b"] p by simp
  then have "\<exists>dropped. numbered (Suc (ob_sequence b)) (ob_published b @ pending_events ?b @ dropped) \<and> dropped = []" by blast
  then show ?thesis using assms e(1-4) p unfolding b by (simp add: outbox_ok_def)
qed

lemma outbox_close_ok:
  assumes "outbox_ok sha b" shows "outbox_ok sha (close_outbox b)"
proof -
  let ?hold = "case ob_writer b of Holding e \<Rightarrow> [e] | _ \<Rightarrow> []"
  obtain dropped where "numbered (ob_sequence b) (ob_published b @ pending_events b @ dropped)"
    using assms by (auto simp: outbox_ok_def)
  then have "numbered (ob_sequence b) (ob_published b @ ?hold @ (ob_queue b @ dropped))" by (simp add: pending_events_def)
  then show ?thesis using assms by (auto simp: outbox_ok_def close_outbox_def pending_events_def)
qed

lemma end_ok:
  assumes "outbox_ok sha b" shows "outbox_ok sha (end_writer b)"
proof -
  obtain dropped where "numbered (ob_sequence b) (ob_published b @ pending_events b @ dropped)"
    using assms by (auto simp: outbox_ok_def)
  then have "\<exists>rest. numbered (ob_sequence b) (ob_published b @ rest)" by blast
  then show ?thesis using assms by (auto simp: outbox_ok_def end_writer_def close_outbox_def pending_events_def)
qed

text \<open>Steps that only move events along.\<close>

lemma moved_ok:
  assumes "outbox_ok sha b" "ob_published b' @ pending_events b' = ob_published b @ pending_events b"
    "ob_sequence b' = ob_sequence b" "ob_owner b' = ob_owner b" "ob_disabled b' = ob_disabled b"
    "ob_disabled b \<longrightarrow> ob_queue b' = []" "ob_writer b' = Ended \<longrightarrow> ob_disabled b"
  shows "outbox_ok sha b'"
proof -
  have "ob_published b' @ pending_events b' @ d = ob_published b @ pending_events b @ d" for d
    using assms(2) by (metis append.assoc)
  then show ?thesis using assms unfolding outbox_ok_def by metis
qed

lemma writer_step_ok:
  assumes ok: "outbox_ok sha b" shows "outbox_ok sha (writer_step waits answer b)"
proof (cases "ob_writer b")
  case AtLoop
  then show ?thesis
    using end_ok[OF ok] moved_ok[OF ok, of "b\<lparr>ob_writer := (if waits then AwaitReady else AwaitEvent)\<rparr>"] ok
    by (auto simp: writer_step_def pending_events_def outbox_ok_def)
next
  case AwaitReady
  then show ?thesis
    using end_ok[OF ok] moved_ok[OF ok, of "b\<lparr>ob_writer := AwaitEvent\<rparr>"] ok
    by (auto simp: writer_step_def pending_events_def outbox_ok_def)
next
  case AwaitEvent
  show ?thesis
  proof (cases "ob_queue b")
    case (Cons e q)
    then have d: "\<not> ob_disabled b" using ok by (auto simp: outbox_ok_def)
    show ?thesis
      by (rule moved_ok[OF ok])
        (use AwaitEvent Cons d in \<open>simp_all add: writer_step_def pending_events_def start_publishing_def Let_def\<close>)
  qed (use AwaitEvent ok in \<open>simp add: writer_step_def\<close>)
next
  case (Holding e)
  show ?thesis
  proof (cases answer)
    case True
    show ?thesis
      by (rule moved_ok[OF ok])
        (use Holding True ok in \<open>auto simp: writer_step_def pending_events_def start_publishing_def outbox_ok_def\<close>)
  qed (use Holding end_ok[OF ok] in \<open>simp add: writer_step_def\<close>)
next
  case (Publishing e)
  have m: "outbox_ok sha (c\<lparr>ob_writer := AtLoop\<rparr>)" if c: "outbox_ok sha c" "ob_writer c = Publishing e" for c
    by (rule moved_ok[OF c(1)]) (use c in \<open>auto simp: pending_events_def outbox_ok_def\<close>)
  show ?thesis
    using m[OF ok Publishing] m[OF outbox_close_ok[OF ok]] Publishing by (simp add: writer_step_def close_outbox_def)
qed (use ok in \<open>simp add: writer_step_def\<close>)

lemma outbox_do_ok: "outbox_ok sha b \<Longrightarrow> outbox_ok sha (outbox_do sha waits a b)"
  by (cases a) (simp_all add: offer_ok writer_step_ok outbox_close_ok end_ok)

interpretation outbox: component "outbox_do sha waits" "outbox_ok sha" for sha waits
  by unfold_locales (rule outbox_do_ok)

lemma outbox_run_ok: "outbox_ok sha b \<Longrightarrow> outbox_ok sha (outbox_run sha waits acts b)"
  unfolding outbox_run_def by (rule outbox.run_inv)

lemma offer_owner: "ob_owner (snd (offer sha v b)) = ob_owner b"
  by (auto simp: offer_def split: option.split)

lemma step_owner: "ob_owner (writer_step waits answer b) = ob_owner b"
  by (auto simp: writer_step_def end_writer_def close_outbox_def start_publishing_def Let_def split: writer.split list.split)

interpretation owner: component "outbox_do sha waits" "\<lambda>b. ob_owner b = ow" for sha waits ow
proof unfold_locales
  fix b :: outbox and a assume "ob_owner b = ow"
  then show "ob_owner (outbox_do sha waits a b) = ow"
    by (cases a) (simp_all add: offer_owner step_owner end_writer_def close_outbox_def)
qed

lemma run_owner: "ob_owner (outbox_run sha waits acts b) = ob_owner b"
  unfolding outbox_run_def by (rule owner.run_inv) simp

lemma numbered_front: "numbered n (xs @ ys) \<Longrightarrow> numbered (length xs) xs \<and> length xs \<le> n"
proof -
  assume a: "numbered n (xs @ ys)"
  have len: "length xs \<le> n" using arg_cong[OF a[unfolded numbered_def], of length] by (simp split: if_splits)
  have "map event_sequence xs = take (length xs) (map event_sequence (xs @ ys))" by simp
  also have "\<dots> = map int (take (length xs) [1..<Suc n])" using a by (simp add: numbered_def take_map)
  also have "take (length xs) [1..<Suc n] = [1..<Suc (length xs)]" using len by (simp add: take_upt del: upt_Suc)
  finally show ?thesis using len by (simp add: numbered_def)
qed

text \<open>C37. Whatever is offered, however the publisher and the readiness check answer, and whenever the outbox is closed or
  its writer cancelled: what was handed to the publisher are valid events of the outbox's owner with the sequence
  numbers 1, 2, 3, .. without a gap or a repetition, at most sixteen.\<close>

theorem outbox_publishes_in_order:
  assumes "new_outbox owner = Some b0"
  shows "let b = outbox_run sha waits acts b0 in
    map event_sequence (ob_published b) = map int [1..<Suc (length (ob_published b))] \<and> length (ob_published b) \<le> 16
    \<and> list_all (\<lambda>e. valid_event sha e \<and> get_item e ''owner_id'' = owner) (ob_published b)"
proof -
  let ?b = "outbox_run sha waits acts b0"
  have ok: "outbox_ok sha ?b" by (rule outbox_run_ok[OF new_outbox_ok[OF assms]])
  obtain s where owner: "owner = VStr s" "ob_owner b0 = s"
    using assms by (auto simp: new_outbox_def hex_text_def text_or_empty_def split: if_splits pyval.splits)
  have o: "ob_owner ?b = s" using run_owner owner(2) by simp
  obtain ys where "numbered (ob_sequence ?b) (ob_published ?b @ ys)" using ok by (auto simp: outbox_ok_def)
  then have "numbered (length (ob_published ?b)) (ob_published ?b)" "length (ob_published ?b) \<le> ob_sequence ?b"
    using numbered_front by blast+
  moreover have "ob_sequence ?b \<le> 16" using ok by (simp add: outbox_ok_def max_events_def)
  moreover have "list_all (\<lambda>e. valid_event sha e \<and> get_item e ''owner_id'' = owner) (ob_published ?b)"
    using ok o owner(1) by (simp add: outbox_ok_def)
  ultimately show ?thesis unfolding Let_def numbered_def by simp
qed

text \<open>An event for the witnesses; every text has the same digest here.\<close>

definition table :: "string list \<Rightarrow> (string \<Rightarrow> pyval) \<Rightarrow> (pystr \<times> pyval) list" where
  "table ks f = map (\<lambda>k. (lit k, f k)) ks"

lemma get_table: "k \<in> set ks \<Longrightarrow> get_item (table ks f) k = f k"
  by (induction ks) (auto simp: table_def get_item_def)

lemma keys_table: "has_keys (table ks f) ks"
  by (auto simp: table_def has_keys_def)

definition all_a :: "nat \<Rightarrow> pystr" where
  "all_a n = replicate n 97"

definition demo_value :: "string \<Rightarrow> pyval" where
  "demo_value k =
     (if k = ''kind'' then VStr (lit ''local_conversation_history'')
      else if k = ''local_output_state'' then VStr (lit ''host_emitted'')
      else if k = ''native_request_binding'' then VStr (lit ''unavailable'')
      else if k = ''owner_id'' \<or> k = ''event_id'' then VStr (all_a 32)
      else if k = ''caller_turn_id'' \<or> k = ''original_asr_sha256'' then VNone
      else if k = ''text'' then VStr (lit ''Hallo'')
      else if k = ''text_sha256'' then VStr (all_a 64) else VInt 1)"

definition demo_history :: event where
  "demo_history = table event_fields demo_value"

lemma demo_history_items:
  "k \<in> set event_fields \<Longrightarrow> get_item demo_history k = demo_value k"
  by (simp add: demo_history_def get_table)

lemma hex_all_a [simp]: "hex_text n (VStr (all_a n))"
  by (auto simp: hex_text_def all_a_def list_all_iff)

lemma demo_history_valid: "valid_event (\<lambda>_. all_a 64) demo_history"
proof -
  have k: "has_keys demo_history event_fields" by (simp add: demo_history_def keys_table)
  have hallo: "strip (lit ''Hallo'') \<noteq> []" "utf8_len (lit ''Hallo'') \<le> 8000" "utf16_units (lit ''Hallo'') \<le> 2000"
    "list_all (\<lambda>c. \<not> (55296 \<le> c \<and> c \<le> 57343)) (lit ''Hallo'')"
    by (simp_all add: lit_def strip_def is_space_def utf16_units_def)
  have i: "get_item demo_history ''kind'' = VStr (lit ''local_conversation_history'')"
    "get_item demo_history ''local_output_state'' = VStr (lit ''host_emitted'')"
    "get_item demo_history ''native_request_binding'' = VStr (lit ''unavailable'')"
    "get_item demo_history ''owner_id'' = VStr (all_a 32)" "get_item demo_history ''event_id'' = VStr (all_a 32)"
    "get_item demo_history ''caller_turn_id'' = VNone" "get_item demo_history ''original_asr_sha256'' = VNone"
    "get_item demo_history ''text'' = VStr (lit ''Hallo'')" "get_item demo_history ''text_sha256'' = VStr (all_a 64)"
    "get_item demo_history ''accepted_samples'' = VInt 1" "get_item demo_history ''emitted_samples'' = VInt 1"
    "list_all (\<lambda>(n, low, high). int_within low high (get_item demo_history n)) event_ints"
    by (simp_all add: demo_history_items event_fields_def demo_value_def event_ints_def int_within_def max_events_def)
  show ?thesis
    using hallo by (simp add: valid_event_def k i is_text_def caller_ok_def valid_text_def)
qed

lemma demo_history_fields: "get_item demo_history ''owner_id'' = VStr (all_a 32)" "event_sequence demo_history = 1"
  by (simp_all add: demo_history_items event_fields_def demo_value_def event_sequence_def int_of_def)

definition demo_box :: outbox where
  "demo_box = \<lparr>ob_owner = all_a 32, ob_sequence = 0, ob_disabled = False, ob_queue = [], ob_writer = AtLoop, ob_published = []\<rparr>"

lemma demo_box_new: "new_outbox (VStr (all_a 32)) = Some demo_box"
  by (simp add: new_outbox_def demo_box_def text_or_empty_def)

lemma demo_box_run:
  "outbox_run (\<lambda>_. all_a 64) False [Offer (VDict demo_history), Step True, Step True] demo_box
     = demo_box\<lparr>ob_sequence := 1, ob_writer := Publishing demo_history, ob_published := [demo_history]\<rparr>"
  by (simp add: outbox_run_def offer_def demo_box_def validate_history_def demo_history_valid demo_history_fields max_events_def
      writer_step_def start_publishing_def)

theorem outbox_publishes_in_order_witness:
  "map event_sequence (ob_published (outbox_run (\<lambda>_. all_a 64) False [Offer (VDict demo_history), Step True, Step True] demo_box)) = [1]"
  using outbox_publishes_in_order[OF demo_box_new, of "\<lambda>_. all_a 64" False "[Offer (VDict demo_history), Step True, Step True]"]
  by (simp add: Let_def demo_box_run)

text \<open>An outbox that gave up: disabled, with its writer at the end of its loop or ended.\<close>

definition given_up :: "outbox \<Rightarrow> bool" where
  "given_up b \<longleftrightarrow> ob_disabled b \<and> ob_writer b \<in> {AtLoop, Ended}"

interpretation given_up: stopping "outbox_do sha waits" "\<lambda>b. True" given_up "\<lambda>b. (ob_published b, ob_sequence b)"
  for sha waits
proof unfold_locales
  fix b :: outbox and a assume "given_up b"
  then have "given_up (outbox_do sha waits a b) \<and> ob_published (outbox_do sha waits a b) = ob_published b
      \<and> ob_sequence (outbox_do sha waits a b) = ob_sequence b"
    by (cases a) (auto simp: given_up_def offer_def writer_step_def end_writer_def close_outbox_def)
  then show "given_up (outbox_do sha waits a b)"
    and "(ob_published (outbox_do sha waits a b), ob_sequence (outbox_do sha waits a b)) = (ob_published b, ob_sequence b)"
    by simp_all
qed simp_all

text \<open>One uncertain attempt is the last: after the publisher has not confirmed an event in time, whatever happens,
  nothing more is handed to it and nothing more is accepted.\<close>

theorem uncertain_attempt_is_the_last:
  assumes "ob_writer b = Publishing e"
  shows "let b' = outbox_run sha waits acts (writer_step waits False b) in
    ob_published b' = ob_published b \<and> ob_sequence b' = ob_sequence b \<and> ob_disabled b'"
proof -
  have "given_up (writer_step waits False b)"
    and keep: "ob_published (writer_step waits False b) = ob_published b" "ob_sequence (writer_step waits False b) = ob_sequence b"
    using assms by (auto simp: given_up_def writer_step_def close_outbox_def)
  from given_up.run_stopped[OF TrueI this(1), where cs = acts and sha = sha and waits = waits] keep show ?thesis
    by (simp add: outbox_run_def given_up_def)
qed

theorem uncertain_attempt_is_the_last_witness:
  "let b = outbox_run (\<lambda>_. all_a 64) False [Offer (VDict demo_history), Step True, Step True] demo_box in
     ob_published (outbox_run (\<lambda>_. all_a 64) False [Offer (VDict demo_history), Step True, Step True] (writer_step False False b))
       = [demo_history]"
  using uncertain_attempt_is_the_last[of "outbox_run (\<lambda>_. all_a 64) False [Offer (VDict demo_history), Step True, Step True] demo_box"
      demo_history "\<lambda>_. all_a 64" False "[Offer (VDict demo_history), Step True, Step True]"]
  by (simp add: Let_def demo_box_run)

end
