(* ===== verification/AssistantSettings.thy ===== *)
theory AssistantSettings
  imports PyVal
begin

text \<open>
  \<open>voice/native-bridge/assistant_settings.py\<close> and \<open>validate_reference\<close> of \<open>voice_reference_cache.py\<close>: the
  settings of an assistant as an authorized response brings them, validated completely before a call uses them.
  The lemmas say what a valid projection has: configured languages with distinct codes, and trigger phrases that no
  two languages share after normalization.

  \<open>cf\<close> is \<open>str.casefold\<close>, \<open>punct\<close> tells the characters of a Unicode category P*, \<open>float_of\<close> is \<open>float\<close> of a
  string (\<open>None\<close> its \<open>ValueError\<close>), \<open>aware\<close> tells the ISO timestamps with a time zone, \<open>json_bytes\<close> is the length
  of a canonical JSON encoding. \<open>False\<close> and \<open>None\<close> stand for the exception of a validation.
\<close>

section \<open>Field checks\<close>

definition sys_id :: "pyval \<Rightarrow> bool" where
  "sys_id v = (case v of
      VStr s \<Rightarrow> length s = 32 \<and> list_all (\<lambda>c. 48 \<le> c \<and> c \<le> 57 \<or> 97 \<le> c \<and> c \<le> 102) s
    | _ \<Rightarrow> False)"

definition sha_hex :: "pyval \<Rightarrow> bool" where
  "sha_hex v = (case v of
      VStr s \<Rightarrow> length s = 64 \<and> list_all (\<lambda>c. 48 \<le> c \<and> c \<le> 57 \<or> 97 \<le> c \<and> c \<le> 102) s
    | _ \<Rightarrow> False)"

definition object_ok :: "pyval \<Rightarrow> string list \<Rightarrow> string list \<Rightarrow> bool" where
  "object_ok v allowed required = (case v of
      VDict d \<Rightarrow> set (map lit required) \<subseteq> set (map fst d) \<and> set (map fst d) \<subseteq> set (map lit allowed)
    | _ \<Rightarrow> False)"

definition items_of :: "pyval \<Rightarrow> items" where
  "items_of v = (case v of VDict d \<Rightarrow> d | _ \<Rightarrow> [])"

definition plain_text :: "nat \<Rightarrow> bool \<Rightarrow> pyval \<Rightarrow> bool" where
  "plain_text limit may_be_empty v = (case v of
      VStr s \<Rightarrow> length s \<le> limit \<and> (may_be_empty \<or> s \<noteq> []) \<and> list_all (\<lambda>c. 32 \<le> c \<or> c \<in> {9, 10, 13}) s
    | _ \<Rightarrow> False)"

definition text_value :: "pyval \<Rightarrow> pystr" where
  "text_value v = (case v of VStr s \<Rightarrow> s | _ \<Rightarrow> [])"

definition text_if_there :: "items \<Rightarrow> nat \<Rightarrow> string \<Rightarrow> bool" where
  "text_if_there d limit k \<longleftrightarrow> (has_key d k \<longrightarrow> plain_text limit True (get_item d k))"

definition number_in :: "rat \<Rightarrow> rat \<Rightarrow> pyval \<Rightarrow> bool" where
  "number_in low high v = (case v of
      VInt i \<Rightarrow> low \<le> of_int i \<and> of_int i \<le> high
    | VFloat (Fin r) \<Rightarrow> low \<le> r \<and> r \<le> high
    | _ \<Rightarrow> False)"

definition num_of :: "pyval \<Rightarrow> rat option" where
  "num_of v = (case v of VInt i \<Rightarrow> Some (of_int i) | VFloat (Fin r) \<Rightarrow> Some r | _ \<Rightarrow> None)"

definition texts_ok :: "nat \<Rightarrow> nat \<Rightarrow> pyval \<Rightarrow> bool" where
  "texts_ok count len v = (case v of VList xs \<Rightarrow> length xs \<le> count \<and> list_all (plain_text len False) xs | _ \<Rightarrow> False)"

definition falsy :: "pyval \<Rightarrow> bool" where
  "falsy v = (case v of
      VNone \<Rightarrow> True | VBool b \<Rightarrow> \<not> b | VInt i \<Rightarrow> i = 0 | VFloat f \<Rightarrow> f = Fin 0 | VStr s \<Rightarrow> s = [] | VBytes b \<Rightarrow> b = []
    | VList xs \<Rightarrow> xs = [] | VTuple xs \<Rightarrow> xs = [] | VDict d \<Rightarrow> d = [] | VOther \<Rightarrow> False)"

definition agents_ok :: "pyval \<Rightarrow> pyval \<Rightarrow> bool" where
  "agents_ok agent v = (case v of
      VList xs \<Rightarrow> 1 \<le> length xs \<and> length xs \<le> 256 \<and> list_all sys_id xs \<and> agent \<in> set xs
    | _ \<Rightarrow> False)"

section \<open>Language tags\<close>

definition letter_char :: "nat \<Rightarrow> bool" where
  "letter_char c \<longleftrightarrow> 65 \<le> c \<and> c \<le> 90 \<or> 97 \<le> c \<and> c \<le> 122"

definition digit_char :: "nat \<Rightarrow> bool" where
  "digit_char c \<longleftrightarrow> 48 \<le> c \<and> c \<le> 57"

definition letter_or_digit :: "nat \<Rightarrow> bool" where
  "letter_or_digit c \<longleftrightarrow> letter_char c \<or> digit_char c"

definition tag_part :: "(nat \<Rightarrow> bool) \<Rightarrow> nat \<Rightarrow> nat \<Rightarrow> pystr \<Rightarrow> bool" where
  "tag_part P low high s \<longleftrightarrow> low \<le> length s \<and> length s \<le> high \<and> list_all P s"

text \<open>\<open>split('-')\<close>.\<close>

fun hyphen_parts :: "pystr \<Rightarrow> pystr list" where
  "hyphen_parts [] = [[]]"
| "hyphen_parts (c # s) =
     (if c = 45 then [] # hyphen_parts s
      else (case hyphen_parts s of [] \<Rightarrow> [[c]] | p # ps \<Rightarrow> (c # p) # ps))"

text \<open>The parts of a tag in the order of \<open>_LANGUAGE\<close>; each optional part is the only reading of what it takes.\<close>

fun skip_some :: "nat \<Rightarrow> (pystr \<Rightarrow> bool) \<Rightarrow> pystr list \<Rightarrow> pystr list" where
  "skip_some (Suc n) P (p # ps) = (if P p then skip_some n P ps else p # ps)"
| "skip_some _ P ps = ps"

definition private_use :: "pystr list \<Rightarrow> bool" where
  "private_use ps \<longleftrightarrow> (case ps of x # p # r \<Rightarrow> x = [120] \<and> list_all (tag_part letter_or_digit 1 8) (p # r) | _ \<Rightarrow> False)"

definition singleton_part :: "pystr \<Rightarrow> bool" where
  "singleton_part p \<longleftrightarrow> tag_part letter_or_digit 1 1 p \<and> p \<noteq> [120] \<and> p \<noteq> [88]"

function extensions_ok :: "pystr list \<Rightarrow> bool" where
  "extensions_ok ps = (case ps of
      [] \<Rightarrow> True
    | p # r \<Rightarrow>
        if singleton_part p
        then (case r of
            q # r' \<Rightarrow> tag_part letter_or_digit 2 8 q \<and> extensions_ok (dropWhile (tag_part letter_or_digit 2 8) r')
          | [] \<Rightarrow> False)
        else private_use ps)"
  by pat_completeness auto
termination
  by (relation "measure length") (auto intro: less_SucI le_imp_less_Suc[OF length_dropWhile_le])

declare extensions_ok.simps [simp del]

definition variant_part :: "pystr \<Rightarrow> bool" where
  "variant_part p \<longleftrightarrow> tag_part letter_or_digit 5 8 p \<or> tag_part letter_or_digit 4 4 p \<and> digit_char (hd p)"

definition region_part :: "pystr \<Rightarrow> bool" where
  "region_part p \<longleftrightarrow> tag_part letter_char 2 2 p \<or> tag_part digit_char 3 3 p"

definition tag_ok :: "pystr list \<Rightarrow> bool" where
  "tag_ok ps = (case ps of
      [] \<Rightarrow> False
    | p # r \<Rightarrow>
        private_use ps
        \<or> tag_part letter_char 2 8 p
          \<and> extensions_ok (dropWhile variant_part (skip_some 1 region_part (skip_some 1 (tag_part letter_char 4 4)
              (if length p \<le> 3 then skip_some 3 (tag_part letter_char 3 3) r else r)))))"

definition grandfathered :: "pystr list" where
  "grandfathered = map lit [''art-lojban'', ''cel-gaulish'', ''en-gb-oed'', ''i-ami'', ''i-bnn'', ''i-default'', ''i-enochian'',
     ''i-hak'', ''i-klingon'', ''i-lux'', ''i-mingo'', ''i-navajo'', ''i-pwn'', ''i-tao'', ''i-tay'', ''i-tsu'', ''no-bok'', ''no-nyn'',
     ''sgn-be-fr'', ''sgn-be-nl'', ''sgn-ch-de'', ''zh-guoyu'', ''zh-hakka'', ''zh-min'', ''zh-min-nan'', ''zh-xiang'']"

text \<open>\<open>str.lower()\<close> as far as it yields ASCII letters; the Kelvin sign becomes \<open>k\<close>.\<close>

definition tag_lower :: "pystr \<Rightarrow> pystr" where
  "tag_lower s = map (\<lambda>c. if 65 \<le> c \<and> c \<le> 90 then c + 32 else if c = 8490 then 107 else c) s"

fun single_extensions :: "pystr list \<Rightarrow> pystr list \<Rightarrow> bool" where
  "single_extensions seen [] = True"
| "single_extensions seen (p # ps) =
     (if p = [120] then True
      else if length p = 1 then p \<notin> set seen \<and> single_extensions (p # seen) ps
      else single_extensions seen ps)"

definition language_ok :: "pyval \<Rightarrow> bool" where
  "language_ok v = (case v of
      VStr s \<Rightarrow> plain_text 64 False v \<and> (tag_lower s \<in> set grandfathered \<or> tag_ok (hyphen_parts s))
        \<and> single_extensions [] (tl (hyphen_parts (tag_lower s)))
    | _ \<Rightarrow> False)"

section \<open>Spoken choices\<close>

text \<open>\<open>' '.join(text.split())\<close>.\<close>

fun words_from :: "pystr \<Rightarrow> pystr \<Rightarrow> pystr list" where
  "words_from cur [] = (if cur = [] then [] else [cur])"
| "words_from cur (c # s) =
     (if is_space c then (if cur = [] then words_from [] s else cur # words_from [] s) else words_from (cur @ [c]) s)"

definition strip_end :: "pystr \<Rightarrow> pystr" where
  "strip_end s = rev (dropWhile is_space (rev s))"

function drop_punctuation :: "(nat \<Rightarrow> bool) \<Rightarrow> pystr \<Rightarrow> pystr" where
  "drop_punctuation punct s = (if s \<noteq> [] \<and> punct (last s) then drop_punctuation punct (strip_end (butlast s)) else s)"
  by pat_completeness auto
termination
proof (relation "measure (\<lambda>(p, s). length s)")
  fix punct :: "nat \<Rightarrow> bool" and s :: pystr
  assume "s \<noteq> [] \<and> punct (last s)"
  moreover have "length (strip_end (butlast s)) \<le> length (butlast s)"
    unfolding strip_end_def length_rev by (rule order.trans[OF length_dropWhile_le]) simp
  ultimately show "((punct, strip_end (butlast s)), (punct, s)) \<in> measure (\<lambda>(p, s). length s)"
    by (cases s) auto
qed simp

declare drop_punctuation.simps [simp del]

definition language_choice :: "(pystr \<Rightarrow> pystr) \<Rightarrow> (nat \<Rightarrow> bool) \<Rightarrow> pystr \<Rightarrow> pystr" where
  "language_choice cf punct s = drop_punctuation punct (join [32] (words_from [] (cf s)))"

section \<open>References of a voice\<close>

definition max_wav_bytes :: int where "max_wav_bytes = 6291456"

definition reference_fields :: "string list" where
  "reference_fields = [''version'', ''service_id'', ''tts_config_sys_id'', ''voice_id'', ''attachment_sys_id'', ''sha256'',
     ''size_bytes'', ''reference_text'', ''reference_language'', ''provenance'']"

definition provenance_fields :: "string list" where
  "provenance_fields = [''kind'', ''profile_id'', ''consent_scope'', ''confirmed_at_utc'']"

definition clean_text :: "nat \<Rightarrow> nat \<Rightarrow> pyval \<Rightarrow> bool" where
  "clean_text low high v = (case v of
      VStr s \<Rightarrow> low \<le> length s \<and> length s \<le> high \<and> strip s \<noteq> [] \<and> list_all (\<lambda>c. 32 \<le> c) s
    | _ \<Rightarrow> False)"

definition simple_language :: "pyval \<Rightarrow> bool" where
  "simple_language v = (case v of
      VStr s \<Rightarrow> length s \<le> 64 \<and> (case hyphen_parts s of
          [] \<Rightarrow> False
        | p # ps \<Rightarrow> tag_part letter_char 2 3 p \<and> list_all (tag_part letter_or_digit 2 8) ps)
    | _ \<Rightarrow> False)"

definition profile_id :: "pyval \<Rightarrow> bool" where
  "profile_id v = (case v of
      VStr (c # s) \<Rightarrow> letter_or_digit c \<and> length s \<le> 79 \<and> list_all (\<lambda>c. letter_or_digit c \<or> c = 95 \<or> c = 45) s
    | _ \<Rightarrow> False)"

text \<open>\<open>text.replace('Z', '+00:00')\<close>.\<close>

definition zulu :: "pystr \<Rightarrow> pystr" where
  "zulu s = concat (map (\<lambda>c. if c = 90 then lit ''+00:00'' else [c]) s)"

definition provenance_ok :: "(pystr \<Rightarrow> bool) \<Rightarrow> pyval \<Rightarrow> bool" where
  "provenance_ok aware v = (case v of
      VDict p \<Rightarrow>
        has_keys p provenance_fields \<and> get_item p ''kind'' = VStr (lit ''authorized_own_voice'')
        \<and> get_item p ''consent_scope'' = VStr (lit ''local_synthetic_voice_and_servicenow_demo'')
        \<and> profile_id (get_item p ''profile_id'') \<and> clean_text 1 80 (get_item p ''confirmed_at_utc'')
        \<and> aware (zulu (text_value (get_item p ''confirmed_at_utc'')))
    | _ \<Rightarrow> False)"

definition reference_ok :: "(pystr \<Rightarrow> bool) \<Rightarrow> (items \<Rightarrow> nat) \<Rightarrow> pyval \<Rightarrow> pyval \<Rightarrow> pyval \<Rightarrow> pyval \<Rightarrow> bool" where
  "reference_ok aware json_bytes v service config voice = (case v of
      VDict r \<Rightarrow>
        sys_id service \<and> sys_id config \<and> clean_text 1 256 voice \<and> strip (text_value voice) = text_value voice
        \<and> has_keys r reference_fields \<and> get_item r ''version'' = VInt 1 \<and> get_item r ''service_id'' = service
        \<and> get_item r ''tts_config_sys_id'' = config \<and> get_item r ''voice_id'' = voice
        \<and> sys_id (get_item r ''attachment_sys_id'') \<and> sha_hex (get_item r ''sha256'')
        \<and> (case get_item r ''size_bytes'' of VInt n \<Rightarrow> 44 \<le> n \<and> n \<le> max_wav_bytes | _ \<Rightarrow> False)
        \<and> clean_text 5 1500 (get_item r ''reference_text'') \<and> simple_language (get_item r ''reference_language'')
        \<and> provenance_ok aware (get_item r ''provenance'') \<and> json_bytes r \<le> 8192
    | _ \<Rightarrow> False)"

section \<open>The projection\<close>

definition behavior_fields :: "string list" where
  "behavior_fields = [''language'', ''voice_profile'', ''tts_config_sys_id'', ''enable_language_selection'',
     ''enable_dtmf'', ''language_input_selection'', ''max_call_duration_in_minutes'',
     ''user_inactivity_threshold_in_seconds'', ''filler_message_delay_in_seconds'',
     ''noise_suppression_level'', ''persist_context_data'', ''orchestration_mode'',
     ''gateway_mode'', ''number_delivery'', ''identifier_delivery'', ''retry_prefix'',
     ''goodbye_message'', ''voice_max_retries'', ''start_time_in_ms'', ''stop_time_in_ms'',
     ''communication_channel'', ''caller_identification_fields'', ''capture_pre_transfer_details'',
     ''enable_phone_number_based_identification'', ''enable_multifactor_authentication'',
     ''auto_authenticate'', ''disable_auth_v2'', ''primary_authentication_type'',
     ''secondary_authentication_type'', ''step_up_authentication_type'',
     ''primary_identification_type'', ''secondary_identification_type'',
     ''require_auth_for_fallback_record_creation'', ''fallback_option'',
     ''create_ticket_fallback_record_producer_sys_id'', ''mobile_fallback_record_producer'',
     ''push_notification_max_polling_retries'', ''voice_minutes_account_is_locked'',
     ''sip_context_header'', ''transfer_target'']"

definition notice_codes :: "string list" where
  "notice_codes = [''INPUT_LOST'', ''BUSY_AUDIO'', ''BUSY_TEXT'', ''ASR_EMPTY'', ''ASR_FAILED'', ''TURN_FAILED'',
     ''LANGUAGE_RETRY'', ''USER_INACTIVITY'']"

definition required_fields :: "string list" where
  "required_fields = [''version'', ''service_id'', ''context_profile'', ''language'', ''language_selection'', ''tts'',
     ''key_terms'', ''prompt'', ''vad'', ''behavior'']"

text \<open>One language of the list: the folded codes and the normalized phrases seen so far grow.\<close>

definition phrases_of :: "items \<Rightarrow> pystr list" where
  "phrases_of d = (case get_item d ''trigger_phrases'' of VList xs \<Rightarrow> map text_value xs | _ \<Rightarrow> [])"

definition new_phrases :: "pystr list \<Rightarrow> pystr list \<Rightarrow> bool" where
  "new_phrases seen ps \<longleftrightarrow> [] \<notin> set ps \<and> distinct ps \<and> set ps \<inter> set seen = {}"

definition language_entry_ok :: "pyval \<Rightarrow> bool" where
  "language_entry_ok v \<longleftrightarrow>
     object_ok v [''code'', ''display_name'', ''language_selection_prompt'', ''dtmf_language_selection_prompt'',
       ''trigger_phrases'', ''secondary_language_prompt''] [''code'']
     \<and> (let d = items_of v in
        language_ok (get_item d ''code'') \<and> text_if_there d 128 ''display_name''
        \<and> text_if_there d 4000 ''language_selection_prompt'' \<and> text_if_there d 4000 ''dtmf_language_selection_prompt''
        \<and> (has_key d ''secondary_language_prompt'' \<and> get_item d ''secondary_language_prompt'' \<noteq> VNone
           \<longrightarrow> plain_text 4000 True (get_item d ''secondary_language_prompt''))
        \<and> (has_key d ''trigger_phrases'' \<longrightarrow> texts_ok 32 256 (get_item d ''trigger_phrases'')))"

definition code_of :: "pyval \<Rightarrow> pystr" where
  "code_of v = text_value (get_item (items_of v) ''code'')"

fun languages_ok :: "(pystr \<Rightarrow> pystr) \<Rightarrow> (nat \<Rightarrow> bool) \<Rightarrow> pystr list \<Rightarrow> pystr list \<Rightarrow> pyval list \<Rightarrow> bool" where
  "languages_ok cf punct codes phrases [] = True"
| "languages_ok cf punct codes phrases (v # vs) =
     (language_entry_ok v \<and> cf (code_of v) \<notin> set codes
      \<and> new_phrases phrases (map (language_choice cf punct) (phrases_of (items_of v)))
      \<and> languages_ok cf punct (cf (code_of v) # codes)
          (map (language_choice cf punct) (phrases_of (items_of v)) @ phrases) vs)"

definition selection_ok :: "(pystr \<Rightarrow> pystr) \<Rightarrow> (nat \<Rightarrow> bool) \<Rightarrow> pyval \<Rightarrow> bool" where
  "selection_ok cf punct v \<longleftrightarrow>
     object_ok v [''enabled'', ''dtmf_enabled'', ''mode'', ''languages''] [''enabled'', ''dtmf_enabled'', ''languages'']
     \<and> (let d = items_of v in
        get_item d ''enabled'' \<in> {VBool True, VBool False} \<and> get_item d ''dtmf_enabled'' \<in> {VBool True, VBool False}
        \<and> text_if_there d 128 ''mode''
        \<and> (case get_item d ''languages'' of
             VList vs \<Rightarrow> 1 \<le> length vs \<and> length vs \<le> 16 \<and> languages_ok cf punct [] [] vs
           | _ \<Rightarrow> False))"

definition languages_of :: "items \<Rightarrow> pyval list" where
  "languages_of projection = (case get_item (items_of (get_item projection ''language_selection'')) ''languages'' of
      VList vs \<Rightarrow> vs | _ \<Rightarrow> [])"

text \<open>A dict keyed by configured languages, each once.\<close>

definition localized :: "(pystr \<Rightarrow> pystr) \<Rightarrow> pystr list \<Rightarrow> (pyval \<Rightarrow> bool) \<Rightarrow> pyval \<Rightarrow> bool" where
  "localized cf codes P v = (case v of
      VDict d \<Rightarrow> length d \<le> 16 \<and> distinct (map (cf \<circ> fst) d)
        \<and> list_all (\<lambda>(k, e). language_ok (VStr k) \<and> cf k \<in> set codes \<and> P e) d
    | _ \<Rightarrow> False)"

definition notices_ok :: "pyval \<Rightarrow> bool" where
  "notices_ok v \<longleftrightarrow> object_ok v notice_codes [] \<and> list_all (\<lambda>(k, t). plain_text 4000 True t) (items_of v)"

definition phonemes_ok :: "pyval \<Rightarrow> bool" where
  "phonemes_ok v = (case v of
      VList es \<Rightarrow> length es \<le> 256 \<and> list_all (\<lambda>e. object_ok e [''word'', ''phoneme''] [''word'', ''phoneme'']
          \<and> plain_text 128 True (get_item (items_of e) ''word'') \<and> plain_text 256 True (get_item (items_of e) ''phoneme'')) es
    | _ \<Rightarrow> False)"

definition voice_ok :: "(pystr \<Rightarrow> bool) \<Rightarrow> (items \<Rightarrow> nat) \<Rightarrow> pyval \<Rightarrow> pyval \<Rightarrow> bool" where
  "voice_ok aware json_bytes service v \<longleftrightarrow>
     object_ok v [''voice_id'', ''voice_gender'', ''tts_config_sys_id'', ''reference''] []
     \<and> (let d = items_of v in
        text_if_there d 256 ''voice_id'' \<and> text_if_there d 256 ''voice_gender''
        \<and> (has_key d ''tts_config_sys_id'' \<longrightarrow> sys_id (get_item d ''tts_config_sys_id''))
        \<and> (has_key d ''reference'' \<longrightarrow>
             reference_ok aware json_bytes (get_item d ''reference'') service (get_item d ''tts_config_sys_id'') (get_item d ''voice_id'')))"

definition tts_ok :: "(pystr \<Rightarrow> pystr) \<Rightarrow> (pystr \<Rightarrow> bool) \<Rightarrow> (items \<Rightarrow> nat) \<Rightarrow> pystr list \<Rightarrow> pyval \<Rightarrow> pyval \<Rightarrow> bool" where
  "tts_ok cf aware json_bytes codes service v \<longleftrightarrow>
     object_ok v [''voice_profile'', ''voices''] [] \<and> text_if_there (items_of v) 256 ''voice_profile''
     \<and> (has_key (items_of v) ''voices'' \<longrightarrow> localized cf codes (voice_ok aware json_bytes service) (get_item (items_of v) ''voices''))"

definition vad_ok :: "pyval \<Rightarrow> bool" where
  "vad_ok v \<longleftrightarrow> object_ok v [''confidence'', ''min_volume'', ''start_secs'', ''stop_secs''] []
     \<and> list_all (\<lambda>(k, m). has_key (items_of v) k \<longrightarrow> number_in 0 m (get_item (items_of v) k))
         [(''confidence'', 1), (''min_volume'', 32768), (''start_secs'', 20), (''stop_secs'', 20)]"

definition duration_ok :: "(pystr \<Rightarrow> pyfloat option) \<Rightarrow> items \<Rightarrow> bool" where
  "duration_ok float_of b \<longleftrightarrow>
     (let t = text_value (get_item b ''max_call_duration_in_minutes'') in
      t \<noteq> [] \<longrightarrow> (case float_of t of Some (Fin r) \<Rightarrow> 0 < r | _ \<Rightarrow> False))"

definition behavior_ok :: "(pystr \<Rightarrow> pyfloat option) \<Rightarrow> pyval \<Rightarrow> bool" where
  "behavior_ok float_of v \<longleftrightarrow> object_ok v behavior_fields [] \<and> list_all (\<lambda>(k, t). plain_text 4000 True t) (items_of v)
     \<and> duration_ok float_of (items_of v)"

definition one_of :: "string list \<Rightarrow> pyval \<Rightarrow> bool" where
  "one_of ss v \<longleftrightarrow> v \<in> set (map (VStr \<circ> lit) ss)"

definition sources_ok :: "items \<Rightarrow> pyval \<Rightarrow> bool" where
  "sources_ok behavior v = (case v of
      VDict d \<Rightarrow> set (map fst d) \<subseteq> set (map fst behavior) \<and> list_all (\<lambda>(k, s). one_of [''configured'', ''native_default''] s) d
    | _ \<Rightarrow> False)"

definition prompt_ok :: "pyval \<Rightarrow> bool" where
  "prompt_ok v \<longleftrightarrow> object_ok v [''systemMessage'', ''introduction''] []
     \<and> text_if_there (items_of v) 32768 ''systemMessage'' \<and> text_if_there (items_of v) 4000 ''introduction''"

text \<open>The whole \<open>_validate_projection\<close>; \<open>codes_of\<close> are the folded codes of the configured languages.\<close>

definition codes_of :: "(pystr \<Rightarrow> pystr) \<Rightarrow> items \<Rightarrow> pystr list" where
  "codes_of cf projection = map (cf \<circ> code_of) (languages_of projection)"

definition if_there :: "items \<Rightarrow> string \<Rightarrow> (pyval \<Rightarrow> bool) \<Rightarrow> bool" where
  "if_there d k P \<longleftrightarrow> (has_key d k \<longrightarrow> P (get_item d k))"

definition projection_ok ::
  "(pystr \<Rightarrow> pystr) \<Rightarrow> (nat \<Rightarrow> bool) \<Rightarrow> (pystr \<Rightarrow> bool) \<Rightarrow> (items \<Rightarrow> nat) \<Rightarrow> (pystr \<Rightarrow> pyfloat option) \<Rightarrow> pyval \<Rightarrow> pyval \<Rightarrow> bool" where
  "projection_ok cf punct aware json_bytes float_of v service \<longleftrightarrow>
     object_ok v (required_fields @ [''language_source'', ''behavior_sources'', ''notice_messages'', ''phonemes'']) required_fields
     \<and> (let d = items_of v; codes = codes_of cf d in
        get_item d ''version'' = VInt 1 \<and> get_item d ''service_id'' = service \<and> sys_id (get_item d ''context_profile'')
        \<and> language_ok (get_item d ''language'') \<and> selection_ok cf punct (get_item d ''language_selection'')
        \<and> cf (text_value (get_item d ''language'')) \<in> set codes
        \<and> if_there d ''notice_messages'' (localized cf codes notices_ok)
        \<and> if_there d ''phonemes'' (localized cf codes phonemes_ok)
        \<and> tts_ok cf aware json_bytes codes service (get_item d ''tts'')
        \<and> localized cf codes (texts_ok 256 128) (get_item d ''key_terms'')
        \<and> prompt_ok (get_item d ''prompt'') \<and> vad_ok (get_item d ''vad'') \<and> behavior_ok float_of (get_item d ''behavior'')
        \<and> if_there d ''language_source'' (one_of [''configured'', ''tts'', ''native_default''])
        \<and> if_there d ''behavior_sources'' (sources_ok (items_of (get_item d ''behavior''))))"

section \<open>What a valid projection has\<close>

lemma languages_ok_append:
  "languages_ok cf punct codes phrases (us @ v # vs) \<Longrightarrow>
     cf (code_of v) \<notin> set codes \<and> (\<forall>u\<in>set us. cf (code_of u) \<noteq> cf (code_of v))
     \<and> new_phrases phrases (map (language_choice cf punct) (phrases_of (items_of v)))
     \<and> (\<forall>u\<in>set us. \<forall>p\<in>set (phrases_of (items_of u)). language_choice cf punct p
          \<notin> language_choice cf punct ` set (phrases_of (items_of v)))"
proof (induction us arbitrary: codes phrases)
  case Nil
  then show ?case by simp
next
  case (Cons u us)
  let ?n = "map (language_choice cf punct)"
  have "languages_ok cf punct (cf (code_of u) # codes) (?n (phrases_of (items_of u)) @ phrases) (us @ v # vs)"
    using Cons.prems by simp
  from Cons.IH[OF this] show ?case by (auto simp: new_phrases_def)
qed

lemma selection_languages_ok:
  assumes "selection_ok cf punct (get_item d ''language_selection'')"
  shows "languages_ok cf punct [] [] (languages_of d)" and "languages_of d \<noteq> []"
  using assms by (auto simp: selection_ok_def languages_of_def Let_def split: pyval.splits)

lemma projection_selection:
  assumes "projection_ok cf punct aware json_bytes float_of v service"
  shows "selection_ok cf punct (get_item (items_of v) ''language_selection'')"
    and "cf (text_value (get_item (items_of v) ''language'')) \<in> set (codes_of cf (items_of v))"
    and "vad_ok (get_item (items_of v) ''vad'')" and "behavior_ok float_of (get_item (items_of v) ''behavior'')"
    and "get_item (items_of v) ''service_id'' = service"
  using assms by (auto simp: projection_ok_def Let_def)

lemma languages_entry_ok: "languages_ok cf punct codes phrases vs \<Longrightarrow> v \<in> set vs \<Longrightarrow> language_entry_ok v"
  by (induction vs arbitrary: codes phrases) auto

lemma get_item_has_key: "get_item d k \<noteq> VNone \<Longrightarrow> has_key d k"
  by (force simp: get_item_def has_key_def dest: map_of_SomeD split: option.splits)

lemma phrases_short:
  assumes "language_entry_ok v" and "p \<in> set (phrases_of (items_of v))"
  shows "length p \<le> 256"
proof -
  obtain xs where xs: "get_item (items_of v) ''trigger_phrases'' = VList xs" "p \<in> set (map text_value xs)"
    using assms(2) by (cases "get_item (items_of v) ''trigger_phrases''") (auto simp: phrases_of_def)
  have "texts_ok 32 256 (VList xs)"
    using assms(1) get_item_has_key[of "items_of v" "''trigger_phrases''"] xs(1) by (auto simp: language_entry_ok_def Let_def)
  moreover have "plain_text 256 False x \<Longrightarrow> length (text_value x) \<le> 256" for x
    by (cases x) (auto simp: plain_text_def text_value_def)
  ultimately show ?thesis using xs(2) by (auto simp: texts_ok_def list_all_iff)
qed

end
