(* ===== verification/CallSettings.thy ===== *)
theory CallSettings
  imports AssistantSettings Machines
begin

text \<open>
  \<open>CallSettings\<close> of \<open>voice/native-bridge/assistant_settings.py\<close>: a validated projection and the one mutable thing
  about it, the language the caller selected. Shown here: the selected language is always a configured one, every
  configured trigger phrase selects its own language and nothing else changes it, and the timing values a call
  derives from the settings are in their ranges.

  The parameters are those of the projection's validation; \<open>fingerprint\<close> is \<open>reference_fingerprint\<close>. Decimal
  constants of the code are the rationals they are written as.
\<close>

section \<open>The state of a call\<close>

record model_selection =
  ms_version :: int
  ms_status :: pystr
  ms_ids :: "(pystr \<times> pystr) list"
  ms_model_identifier :: pystr
  ms_binding_sha256 :: pystr

record prepared_voice =
  pv_service_id :: pystr
  pv_tts_config_sys_id :: pystr
  pv_selected_voice_id :: pystr
  pv_registry_voice_id :: pystr
  pv_descriptor_sha256 :: pystr
  pv_reference_sha256 :: pystr

record call_settings =
  projection :: items
  selected_language :: pystr
  conversation_model_required :: bool
  conversation_model :: "model_selection option"
  prepared_voices :: "(pystr \<times> prepared_voice) list"

definition model_ids :: "string list" where
  "model_ids = [''capability_id'', ''definition_config_id'', ''definition_id'', ''prompt_binding_id'', ''prompt_id'',
     ''model_config_id'', ''provider_mapping_id'', ''provider_id'', ''implementation_id'']"

definition model_fields :: "string list" where
  "model_fields = [''version'', ''status''] @ model_ids @ [''model_identifier'', ''binding_sha256'']"

definition model_identifier_ok :: "pyval \<Rightarrow> bool" where
  "model_identifier_ok v = (case v of
      VStr (c # s) \<Rightarrow> letter_or_digit c \<and> length s \<le> 99 \<and> list_all (\<lambda>c. letter_or_digit c \<or> c \<in> {95, 46, 45}) s
    | _ \<Rightarrow> False)"

definition from_descriptor :: "pyval \<Rightarrow> model_selection option" where
  "from_descriptor v = (case v of
      VDict d \<Rightarrow>
        if has_keys d model_fields \<and> get_item d ''version'' = VInt 1 \<and> get_item d ''status'' = VStr (lit ''selected'')
          \<and> get_item d ''capability_id'' = VStr (lit ''aca5634f4312121038520464dbb8f236'')
          \<and> list_all (\<lambda>k. sys_id (get_item d k)) model_ids
          \<and> model_identifier_ok (get_item d ''model_identifier'') \<and> sha_hex (get_item d ''binding_sha256'')
        then Some \<lparr>ms_version = 1, ms_status = text_value (get_item d ''status''),
          ms_ids = map (\<lambda>k. (lit k, text_value (get_item d k))) model_ids,
          ms_model_identifier = text_value (get_item d ''model_identifier''),
          ms_binding_sha256 = text_value (get_item d ''binding_sha256'')\<rparr>
        else None
    | _ \<Rightarrow> None)"

definition from_authorized_response ::
  "(pystr \<Rightarrow> pystr) \<Rightarrow> (nat \<Rightarrow> bool) \<Rightarrow> (pystr \<Rightarrow> bool) \<Rightarrow> (items \<Rightarrow> nat) \<Rightarrow> (pystr \<Rightarrow> pyfloat option)
     \<Rightarrow> pyval \<Rightarrow> pyval \<Rightarrow> pyval \<Rightarrow> pyval \<Rightarrow> call_settings option" where
  "from_authorized_response cf punct aware json_bytes float_of data service agent model_version =
     (if model_version \<noteq> VNone \<and> model_version \<noteq> VInt 1 \<or> \<not> sys_id service \<or> \<not> sys_id agent then None
      else case data of
        VDict d \<Rightarrow>
          if \<not> falsy (get_item d ''error'') then None
          else (case get_item d ''result'' of
            VDict result \<Rightarrow>
              if (has_key result ''version'' \<longrightarrow> get_item result ''version'' = VInt 1)
                \<and> agents_ok agent (get_item result ''authorized_agents'')
                \<and> projection_ok cf punct aware json_bytes float_of (get_item result ''assistant_settings'') service
              then let p = items_of (get_item result ''assistant_settings'') in
                Some \<lparr>projection = p, selected_language = text_value (get_item p ''language''),
                  conversation_model_required = (model_version = VInt 1),
                  conversation_model = (if model_version = VInt 1 then from_descriptor (get_item result ''conversation_model'') else None),
                  prepared_voices = []\<rparr>
              else None
          | _ \<Rightarrow> None)
      | _ \<Rightarrow> None)"

section \<open>Language\<close>

abbreviation languages :: "call_settings \<Rightarrow> pyval list" where
  "languages c \<equiv> languages_of (projection c)"

definition primary_language :: "call_settings \<Rightarrow> pystr" where
  "primary_language c = text_value (get_item (projection c) ''language'')"

definition service_of :: "call_settings \<Rightarrow> pystr" where
  "service_of c = text_value (get_item (projection c) ''service_id'')"

definition selection :: "call_settings \<Rightarrow> items" where
  "selection c = items_of (get_item (projection c) ''language_selection'')"

definition selection_mode :: "(pystr \<Rightarrow> pystr) \<Rightarrow> call_settings \<Rightarrow> pystr" where
  "selection_mode cf c = cf (strip (text_value (get_item (selection c) ''mode'')))"

definition unsupported_language_selection :: "(pystr \<Rightarrow> pystr) \<Rightarrow> call_settings \<Rightarrow> bool" where
  "unsupported_language_selection cf c \<longleftrightarrow>
     get_item (selection c) ''enabled'' = VBool True \<and> 1 < length (languages c) \<and> selection_mode cf c = lit ''dtmf''"

definition voice_selection_enabled :: "(pystr \<Rightarrow> pystr) \<Rightarrow> call_settings \<Rightarrow> bool" where
  "voice_selection_enabled cf c \<longleftrightarrow> get_item (selection c) ''enabled'' = VBool True \<and> selection_mode cf c \<noteq> lit ''dtmf''"

text \<open>\<open>next(...)\<close> without a default; \<open>None\<close> is its \<open>StopIteration\<close>.\<close>

definition current_language :: "(pystr \<Rightarrow> pystr) \<Rightarrow> call_settings \<Rightarrow> items option" where
  "current_language cf c =
     map_option items_of (find (\<lambda>v. cf (code_of v) = cf (selected_language c)) (languages c))"

definition item_text :: "items \<Rightarrow> string \<Rightarrow> pystr" where
  "item_text d k = text_value (get_item d k)"

definition selected_language_welcome :: "(pystr \<Rightarrow> pystr) \<Rightarrow> call_settings \<Rightarrow> pystr option" where
  "selected_language_welcome cf c =
     (if length (languages c) < 2 then Some []
      else map_option (\<lambda>d. item_text d ''secondary_language_prompt'') (current_language cf c))"

definition selection_prompt :: "(pystr \<Rightarrow> pystr) \<Rightarrow> call_settings \<Rightarrow> pystr option" where
  "selection_prompt cf c =
     (if \<not> voice_selection_enabled cf c \<or> length (languages c) < 2 then Some []
      else map_option (\<lambda>d. item_text d ''language_selection_prompt'') (current_language cf c))"

definition select_language :: "(pystr \<Rightarrow> pystr) \<Rightarrow> (nat \<Rightarrow> bool) \<Rightarrow> call_settings \<Rightarrow> pyval \<Rightarrow> bool \<times> call_settings" where
  "select_language cf punct c spoken = (case spoken of
      VStr s \<Rightarrow>
        if \<not> voice_selection_enabled cf c \<or> 4000 < length s then (False, c)
        else (case find (\<lambda>v. \<exists>p\<in>set (phrases_of (items_of v)). language_choice cf punct p = language_choice cf punct s) (languages c) of
            Some v \<Rightarrow> (True, c\<lparr>selected_language := code_of v\<rparr>)
          | None \<Rightarrow> (False, c))
    | _ \<Rightarrow> (False, c))"

definition select_dtmf :: "call_settings \<Rightarrow> pystr \<Rightarrow> bool \<times> call_settings" where
  "select_dtmf c digit = (False, c)"

definition select_all :: "(pystr \<Rightarrow> pystr) \<Rightarrow> (nat \<Rightarrow> bool) \<Rightarrow> call_settings \<Rightarrow> pyval list \<Rightarrow> call_settings" where
  "select_all cf punct c spoken = fold (\<lambda>s c. snd (select_language cf punct c s)) spoken c"

section \<open>Texts\<close>

definition configured_text :: "call_settings \<Rightarrow> string \<Rightarrow> pystr" where
  "configured_text c k =
     (if get_item (items_of (get_item (projection c) ''behavior_sources'')) k = VStr (lit ''configured'')
      then item_text (items_of (get_item (projection c) ''behavior'')) k else [])"

definition configured_goodbye :: "call_settings \<Rightarrow> pystr" where
  "configured_goodbye c = configured_text c ''goodbye_message''"

definition configured_retry_prefix :: "call_settings \<Rightarrow> pystr" where
  "configured_retry_prefix c = configured_text c ''retry_prefix''"

definition introduction :: "call_settings \<Rightarrow> pystr" where
  "introduction c = item_text (items_of (get_item (projection c) ''prompt'')) ''introduction''"

definition german_notices :: "(pystr \<times> pystr) list" where
  "german_notices = [
     (lit ''INPUT_LOST'', lit ''Die Mikrofonverbindung wurde unterbrochen. Weitere Antworten werden nicht weitergeleitet. Dieser Anruf wird beendet, sobald die laufende Anfrage abgeschlossen ist.''),
     (lit ''BUSY_AUDIO'', lit ''Die letzte Aufnahme konnte nicht angenommen werden. Bitte warten Sie auf den Abschluss der aktuellen Anfrage.''),
     (lit ''BUSY_TEXT'', lit ''Ihre letzte Antwort wurde erkannt, aber nicht weitergeleitet. Bitte warten Sie auf den Abschluss der aktuellen Anfrage.''),
     (lit ''ASR_EMPTY'', lit ''Ich konnte keine Sprache erkennen. Bitte wiederholen Sie Ihre Antwort.''),
     (lit ''ASR_FAILED'', lit ''Die Spracherkennung ist fehlgeschlagen. Bitte wiederholen Sie Ihre Antwort.''),
     (lit ''TURN_FAILED'', lit ''Der Sprachdialog konnte nicht fortgesetzt werden. Weitere Antworten werden nicht weitergeleitet. Bitte beenden Sie diesen Anruf.''),
     (lit ''LANGUAGE_RETRY'', lit ''Bitte w'' @ [228] @ lit ''hlen Sie eine Sprache.''),
     (lit ''USER_INACTIVITY'', lit ''Ich habe keine Antwort erhalten. Ich beende diesen Anruf. Auf Wiedersehen.'')]"

definition english_notices :: "(pystr \<times> pystr) list" where
  "english_notices = [
     (lit ''INPUT_LOST'', lit ''The microphone connection was interrupted. Further answers will not be sent. This call will end after the current request has finished.''),
     (lit ''BUSY_AUDIO'', lit ''The last recording could not be accepted. Please wait until the current request has finished.''),
     (lit ''BUSY_TEXT'', lit ''Your last answer was recognized but could not be sent. Please wait until the current request has finished.''),
     (lit ''ASR_EMPTY'', lit ''I could not detect speech. Please repeat your answer.''),
     (lit ''ASR_FAILED'', lit ''Speech recognition failed. Please repeat your answer.''),
     (lit ''TURN_FAILED'', lit ''The voice conversation could not continue. Further answers will not be sent. Please end this call.''),
     (lit ''LANGUAGE_RETRY'', lit ''Please choose a language.''),
     (lit ''USER_INACTIVITY'', lit ''I have not received a response. I will end this call. Goodbye.'')]"

definition own_notice :: "pystr \<Rightarrow> pystr \<Rightarrow> pystr" where
  "own_notice language code =
     (case map_of (if language = lit ''de'' then german_notices else if language = lit ''en'' then english_notices else []) code of
        None \<Rightarrow> [] | Some t \<Rightarrow> t)"

text \<open>The entry of a localized dict for the selected language, and the tag_part of a tag before its first hyphen.\<close>

definition localized_entry :: "(pystr \<Rightarrow> pystr) \<Rightarrow> call_settings \<Rightarrow> items \<Rightarrow> pyval option" where
  "localized_entry cf c d = map_option snd (find (\<lambda>(k, v). cf k = cf (selected_language c)) d)"

definition base_language :: "call_settings \<Rightarrow> pystr" where
  "base_language c = hd (hyphen_parts (selected_language c))"

definition notice_text :: "(pystr \<Rightarrow> pystr) \<Rightarrow> call_settings \<Rightarrow> pyval \<Rightarrow> pystr" where
  "notice_text cf c code = (case code of
      VStr s \<Rightarrow>
        if s \<notin> set (map lit notice_codes) then []
        else (let messages = (case localized_entry cf c (items_of (get_item (projection c) ''notice_messages'')) of
                 Some v \<Rightarrow> items_of v | None \<Rightarrow> []) in
          case map_of messages s of
            Some v \<Rightarrow> text_value v
          | None \<Rightarrow>
              if s = lit ''USER_INACTIVITY'' \<and> cf (selected_language c) = cf (primary_language c)
                \<and> get_item (items_of (get_item (projection c) ''behavior_sources'')) ''goodbye_message'' = VStr (lit ''configured'')
              then configured_goodbye c
              else own_notice (cf (base_language c)) s)
    | _ \<Rightarrow> [])"

section \<open>Speech contexts and timing\<close>

definition asr_context :: "(pystr \<Rightarrow> pystr) \<Rightarrow> call_settings \<Rightarrow> pystr \<times> pyval list" where
  "asr_context cf c =
     (tag_lower (base_language c),
      case localized_entry cf c (items_of (get_item (projection c) ''key_terms'')) of Some (VList xs) \<Rightarrow> xs | _ \<Rightarrow> [])"

record tts_context =
  tc_voice_id :: pystr
  tc_language :: pystr
  tc_voice_profile :: pystr
  tc_prepared :: "prepared_voice option"

definition handle_fits :: "(items \<Rightarrow> pystr) \<Rightarrow> call_settings \<Rightarrow> items \<Rightarrow> prepared_voice \<Rightarrow> bool" where
  "handle_fits fingerprint c voice h \<longleftrightarrow>
     (let r = items_of (get_item voice ''reference''); digest = fingerprint r in
      pv_service_id h = service_of c \<and> VStr (pv_tts_config_sys_id h) = get_item voice ''tts_config_sys_id''
      \<and> pv_selected_voice_id h = item_text voice ''voice_id'' \<and> VStr (pv_reference_sha256 h) = get_item r ''sha256''
      \<and> pv_descriptor_sha256 h = digest \<and> pv_registry_voice_id h = lit ''snref-'' @ digest)"

text \<open>\<open>None\<close> is the \<open>RuntimeError\<close> for an unavailable voice.\<close>

definition tts_context_of :: "(pystr \<Rightarrow> pystr) \<Rightarrow> (items \<Rightarrow> pystr) \<Rightarrow> call_settings \<Rightarrow> tts_context option" where
  "tts_context_of cf fingerprint c =
     (let tts = items_of (get_item (projection c) ''tts'');
          voice = (case localized_entry cf c (items_of (get_object tts ''voices'')) of Some v \<Rightarrow> items_of v | None \<Rightarrow> []);
          voice_id = item_text voice ''voice_id'';
          context = \<lparr>tc_voice_id = voice_id, tc_language = selected_language c,
            tc_voice_profile = item_text tts ''voice_profile'', tc_prepared = None\<rparr> in
      if voice_id = [] \<or> strip voice_id \<noteq> voice_id then None
      else if has_key voice ''reference''
      then (case map_of (prepared_voices c) (cf (selected_language c)) of
          None \<Rightarrow> None
        | Some h \<Rightarrow> if handle_fits fingerprint c voice h then Some (context\<lparr>tc_prepared := Some h\<rparr>) else None)
      else Some context)"

text \<open>\<open>round\<close> to the nearest integer, a half to the even one.\<close>

definition round_half_even :: "rat \<Rightarrow> int" where
  "round_half_even r =
     (let n = \<lfloor>r\<rfloor>; f = r - of_int n in if f < 1 / 2 \<or> f = 1 / 2 \<and> even n then n else n + 1)"

definition vad_ms :: "rat \<Rightarrow> call_settings \<Rightarrow> string \<Rightarrow> int option" where
  "vad_ms low c k = (case num_of (get_item (items_of (get_item (projection c) ''vad'')) k) of
      Some r \<Rightarrow> if low \<le> r \<and> r \<le> 2 then Some (round_half_even (r * 1000)) else None
    | None \<Rightarrow> None)"

definition vad_start_ms :: "call_settings \<Rightarrow> int option" where
  "vad_start_ms c = vad_ms (2 / 100) c ''start_secs''"

definition vad_stop_ms :: "call_settings \<Rightarrow> int option" where
  "vad_stop_ms c = vad_ms (2 / 10) c ''stop_secs''"

definition supported_seconds :: "(pystr \<Rightarrow> pyfloat option) \<Rightarrow> call_settings \<Rightarrow> string \<Rightarrow> rat option" where
  "supported_seconds float_of c k =
     (let t = item_text (items_of (get_item (projection c) ''behavior'')) k in
      if t = [] then None
      else (case float_of t of Some (Fin r) \<Rightarrow> if 0 < r \<and> r \<le> 3600 then Some r else None | _ \<Rightarrow> None))"

definition inactivity_seconds :: "(pystr \<Rightarrow> pyfloat option) \<Rightarrow> call_settings \<Rightarrow> rat option" where
  "inactivity_seconds float_of c = supported_seconds float_of c ''user_inactivity_threshold_in_seconds''"

definition filler_delay_seconds :: "(pystr \<Rightarrow> pyfloat option) \<Rightarrow> call_settings \<Rightarrow> rat option" where
  "filler_delay_seconds float_of c = supported_seconds float_of c ''filler_message_delay_in_seconds''"

text \<open>\<open>Inl ()\<close> is the exception of \<open>float\<close>; validation rules it out, as it does the values that are not finite.\<close>

definition max_call_seconds :: "(pystr \<Rightarrow> pyfloat option) \<Rightarrow> call_settings \<Rightarrow> unit + rat option" where
  "max_call_seconds float_of c =
     (let t = item_text (items_of (get_item (projection c) ''behavior'')) ''max_call_duration_in_minutes'' in
      if t = [] then Inr None
      else (case float_of t of Some (Fin r) \<Rightarrow> Inr (Some (min r 60 * 60)) | _ \<Rightarrow> Inl ()))"

definition native_context :: "call_settings \<Rightarrow> (pystr \<times> pystr) list" where
  "native_context c =
     [(lit ''interaction_requester_session_language'', selected_language c), (lit ''interaction_user_language'', selected_language c),
      (lit ''requester_session_language'', selected_language c), (lit ''voice_assistant'', service_of c),
      (lit ''interaction_ai_voice'', lit ''true''),
      (lit ''global_context_profile'', item_text (projection c) ''context_profile'')]"

section \<open>Properties\<close>

lemma authorized_projection:
  assumes "from_authorized_response cf punct aware json_bytes float_of data service agent m = Some c"
  obtains v where "projection_ok cf punct aware json_bytes float_of v service" "projection c = items_of v"
    "selected_language c = primary_language c"
proof -
  obtain d result where d: "data = VDict d" "get_item d ''result'' = VDict result"
    using assms by (cases data; cases "get_item (items_of data) ''result''")
      (auto simp: from_authorized_response_def items_of_def split: if_splits)
  then show ?thesis
    using assms by (intro that[of "get_item result ''assistant_settings''"])
      (auto simp: from_authorized_response_def primary_language_def Let_def split: if_splits)
qed

lemma select_language_projection [simp]: "projection (snd (select_language cf punct c s)) = projection c"
  by (auto simp: select_language_def split: pyval.splits option.splits)

lemma voice_selection_enabled_projection:
  "projection c' = projection c \<Longrightarrow> voice_selection_enabled cf c' = voice_selection_enabled cf c"
  by (simp add: voice_selection_enabled_def selection_def selection_mode_def)

lemma select_language_configured:
  assumes "cf (selected_language c) \<in> set (codes_of cf (projection c))"
  shows "cf (selected_language (snd (select_language cf punct c s))) \<in> set (codes_of cf (projection c))"
  using assms by (auto simp: select_language_def codes_of_def find_Some_iff split: pyval.splits option.splits)

interpretation caller: component "\<lambda>s c. snd (select_language cf punct c s)"
    "\<lambda>c. projection c = p \<and> cf (selected_language c) \<in> set (codes_of cf p)" for cf punct p
  by unfold_locales (auto simp: select_language_configured)

lemma select_all_configured:
  "cf (selected_language c) \<in> set (codes_of cf (projection c)) \<Longrightarrow>
     cf (selected_language (select_all cf punct c spoken)) \<in> set (codes_of cf (projection c))"
  unfolding select_all_def using caller.run_inv[of c "projection c" cf] by blast

interpretation authorized: component "\<lambda>s c. snd (select_language cf punct c s)" "\<lambda>c. projection c = p" for cf punct p
  by unfold_locales simp

lemma select_all_projection [simp]: "projection (select_all cf punct c spoken) = projection c"
  unfolding select_all_def by (rule authorized.run_inv) simp

text \<open>C38. However a caller speaks, the selected language is one of those configured in the authorized settings, so
  the settings of the current language are always found.\<close>

theorem selected_language_is_configured:
  assumes "from_authorized_response cf punct aware json_bytes float_of data service agent m = Some c"
  shows "cf (selected_language (select_all cf punct c spoken)) \<in> set (codes_of cf (projection c))
    \<and> current_language cf (select_all cf punct c spoken) \<noteq> None"
proof -
  obtain v where v: "projection_ok cf punct aware json_bytes float_of v service" "projection c = items_of v"
    "selected_language c = primary_language c" using authorized_projection[OF assms] .
  have "cf (selected_language (select_all cf punct c spoken)) \<in> set (codes_of cf (projection c))"
    using projection_selection(2)[OF v(1)] v(2,3) by (intro select_all_configured) (simp add: primary_language_def)
  then show ?thesis by (auto simp: current_language_def codes_of_def find_None_iff)
qed

lemma find_skip: "\<forall>u\<in>set us. \<not> P u \<Longrightarrow> P v \<Longrightarrow> find P (us @ v # ws) = Some v"
  by (induction us) auto

text \<open>The first language with a phrase is the only one, since phrases are distinct across languages.\<close>

lemma find_phrase:
  assumes "languages_ok cf punct [] [] vs" and "v \<in> set vs" and "p \<in> set (phrases_of (items_of v))"
  shows "find (\<lambda>u. \<exists>q\<in>set (phrases_of (items_of u)). language_choice cf punct q = language_choice cf punct p) vs = Some v"
proof -
  obtain us ws where split: "vs = us @ v # ws" using assms(2) by (meson split_list)
  have "\<not> (\<exists>q\<in>set (phrases_of (items_of u)). language_choice cf punct q = language_choice cf punct p)" if "u \<in> set us" for u
    using languages_ok_append[of cf punct "[]" "[]" us v ws] assms(1,3) that unfolding split by fastforce
  then show ?thesis using assms(3) unfolding split by (intro find_skip) auto
qed

text \<open>When selection by voice is enabled, speaking any trigger phrase of a configured language, up to case, spacing
  and closing punctuation, selects exactly that language, whatever was said before.\<close>

theorem trigger_phrase_selects_its_language:
  assumes "from_authorized_response cf punct aware json_bytes float_of data service agent m = Some c"
    and "voice_selection_enabled cf c" and "v \<in> set (languages_of (projection c))"
    and "p \<in> set (phrases_of (items_of v))" and "language_choice cf punct s = language_choice cf punct p"
    and "length s \<le> 4000"
  shows "select_language cf punct (select_all cf punct c before) (VStr s)
    = (True, (select_all cf punct c before)\<lparr>selected_language := code_of v\<rparr>)"
proof -
  obtain w where w: "projection_ok cf punct aware json_bytes float_of w service" "projection c = items_of w"
    using authorized_projection[OF assms(1)] by metis
  let ?b = "select_all cf punct c before"
  have "languages_ok cf punct [] [] (languages_of (projection c))"
    using selection_languages_ok(1)[OF projection_selection(1)[OF w(1)]] w(2) by simp
  from find_phrase[OF this assms(3,4)] show ?thesis
    using assms(2,5,6) voice_selection_enabled_projection[of ?b c cf] by (simp add: select_language_def)
qed

section \<open>Timing\<close>

lemma round_half_even_between:
  assumes "of_int a \<le> r" and "r \<le> of_int b"
  shows "a \<le> round_half_even r \<and> round_half_even r \<le> b"
proof -
  have low: "a \<le> \<lfloor>r\<rfloor>" using assms(1) by (simp add: le_floor_iff)
  show ?thesis
  proof (cases "\<lfloor>r\<rfloor> = b")
    case True
    then have "r = of_int b" using assms(2) of_int_floor_le[of r] by simp
    then show ?thesis using low by (simp add: round_half_even_def)
  next
    case False
    then have "\<lfloor>r\<rfloor> < b" using assms(2) floor_mono[OF assms(2)] by simp
    then show ?thesis using low by (auto simp: round_half_even_def Let_def)
  qed
qed

lemma vad_ms_between:
  assumes "vad_ms low c k = Some n" and "of_int a \<le> low * 1000"
  shows "a \<le> n \<and> n \<le> 2000"
proof -
  obtain r where r: "low \<le> r" "r \<le> 2" "n = round_half_even (r * 1000)"
    using assms(1) by (auto simp: vad_ms_def split: option.splits if_splits)
  have "of_int a \<le> r * 1000" using assms(2) r(1) by linarith
  moreover have "r * 1000 \<le> of_int 2000" using r(2) by simp
  ultimately show ?thesis using round_half_even_between[of a "r * 1000" 2000] r(3) by simp
qed

lemma supported_seconds_between: "supported_seconds float_of c k = Some r \<Longrightarrow> 0 < r \<and> r \<le> 3600"
  by (auto simp: supported_seconds_def Let_def split: if_splits option.splits pyfloat.splits)

text \<open>With authorized settings every timing value of a call is in its range: the call lasts at most an hour and
  computing its length never fails, voice detection starts within 20 to 2000 ms and stops within 200 to 2000 ms, and
  the inactivity and filler delays are positive and at most an hour.\<close>

theorem call_timing_is_bounded:
  assumes "from_authorized_response cf punct aware json_bytes float_of data service agent m = Some c"
  shows "(\<exists>limit. max_call_seconds float_of c = Inr limit \<and> pred_option (\<lambda>r. 0 < r \<and> r \<le> 3600) limit)
    \<and> pred_option (\<lambda>n. 20 \<le> n \<and> n \<le> 2000) (vad_start_ms c) \<and> pred_option (\<lambda>n. 200 \<le> n \<and> n \<le> 2000) (vad_stop_ms c)
    \<and> pred_option (\<lambda>r. 0 < r \<and> r \<le> 3600) (inactivity_seconds float_of c)
    \<and> pred_option (\<lambda>r. 0 < r \<and> r \<le> 3600) (filler_delay_seconds float_of c)"
proof -
  obtain w where w: "projection_ok cf punct aware json_bytes float_of w service" "projection c = items_of w"
    using authorized_projection[OF assms] by metis
  let ?t = "item_text (items_of (get_item (projection c) ''behavior'')) ''max_call_duration_in_minutes''"
  have duration: "duration_ok float_of (items_of (get_item (projection c) ''behavior''))"
    using projection_selection(4)[OF w(1)] w(2) by (simp add: behavior_ok_def)
  have "\<exists>limit. max_call_seconds float_of c = Inr limit \<and> pred_option (\<lambda>r. 0 < r \<and> r \<le> 3600) limit"
  proof (cases "?t = []")
    case True
    then show ?thesis by (simp add: max_call_seconds_def Let_def)
  next
    case False
    then obtain r where "float_of ?t = Some (Fin r)" "0 < r"
      using duration by (auto simp: duration_ok_def item_text_def Let_def split: option.splits pyfloat.splits)
    then show ?thesis using False by (simp add: max_call_seconds_def Let_def min_def)
  qed
  moreover have "pred_option (\<lambda>n. 20 \<le> n \<and> n \<le> 2000) (vad_start_ms c)"
    using vad_ms_between[of "2 / 100" c "''start_secs''" _ 20] by (auto simp: vad_start_ms_def pred_option_def elem_set)
  moreover have "pred_option (\<lambda>n. 200 \<le> n \<and> n \<le> 2000) (vad_stop_ms c)"
    using vad_ms_between[of "2 / 10" c "''stop_secs''" _ 200] by (auto simp: vad_stop_ms_def pred_option_def elem_set)
  ultimately show ?thesis
    using supported_seconds_between
    by (auto simp: inactivity_seconds_def filler_delay_seconds_def pred_option_def elem_set)
qed

section \<open>An example\<close>

definition demo_lower :: "pystr \<Rightarrow> pystr" where
  "demo_lower s = tag_lower s"

definition demo_language :: "string \<Rightarrow> string \<Rightarrow> pyval" where
  "demo_language code phrase = VDict [(lit ''code'', VStr (lit code)), (lit ''trigger_phrases'', VList [VStr (lit phrase)])]"

definition demo_projection :: pyval where
  "demo_projection = VDict [
     (lit ''version'', VInt 1), (lit ''service_id'', VStr (replicate 32 97)), (lit ''context_profile'', VStr (replicate 32 98)),
     (lit ''language'', VStr (lit ''de-DE'')),
     (lit ''language_selection'', VDict [(lit ''enabled'', VBool True), (lit ''dtmf_enabled'', VBool False),
       (lit ''languages'', VList [demo_language ''de-DE'' ''Deutsch'', demo_language ''en'' ''English please''])]),
     (lit ''tts'', VDict []), (lit ''key_terms'', VDict []), (lit ''prompt'', VDict []),
     (lit ''vad'', VDict [(lit ''start_secs'', VFloat (Fin (3 / 10))), (lit ''stop_secs'', VInt 1)]),
     (lit ''behavior'', VDict [(lit ''max_call_duration_in_minutes'', VStr (lit ''30''))])]"

definition demo_data :: pyval where
  "demo_data = VDict [(lit ''result'', VDict [(lit ''authorized_agents'', VList [VStr (replicate 32 99)]),
     (lit ''assistant_settings'', demo_projection)])]"

definition demo_settings :: call_settings where
  "demo_settings = \<lparr>projection = items_of demo_projection, selected_language = lit ''de-DE'', conversation_model_required = False,
      conversation_model = None, prepared_voices = []\<rparr>"

definition demo_float :: "pystr \<Rightarrow> pyfloat option" where
  "demo_float s = (if s = lit ''30'' then Some (Fin 30) else None)"

lemma demo_tags: "language_ok (VStr (lit ''de-DE''))" "language_ok (VStr (lit ''en''))"
  by (simp_all add: language_ok_def plain_text_def lit_def grandfathered_def tag_lower_def tag_ok_def private_use_def tag_part_def
      letter_char_def digit_char_def region_part_def extensions_ok.simps[of "[]"] numeral_eq_Suc)

lemma demo_ids: "sys_id (VStr (replicate 32 97))" "sys_id (VStr (replicate 32 98))" "sys_id (VStr (replicate 32 99))"
  by (simp_all add: sys_id_def list_all_iff)

lemma demo_phrases: 
  "language_choice demo_lower (\<lambda>c. c = 46) (lit ''Deutsch'') = lit ''deutsch''"
  "language_choice demo_lower (\<lambda>c. c = 46) (lit ''English please'') = lit ''english please''"
  "language_choice demo_lower (\<lambda>c. c = 46) (lit ''english  PLEASE .'') = lit ''english please''"
  by (simp_all add: language_choice_def demo_lower_def tag_lower_def lit_def is_space_def drop_punctuation.simps strip_end_def)

lemma lower_demo: "demo_lower (lit ''de-DE'') = lit ''de-de''" "demo_lower (lit ''en'') = lit ''en''" "demo_lower [] = []"
  by (simp_all add: demo_lower_def tag_lower_def lit_def)

lemma demo_texts: "plain_text 256 False (VStr (lit ''Deutsch''))" "plain_text 256 False (VStr (lit ''English please''))"
  by (simp_all add: plain_text_def lit_def)

lemmas demo_eval = demo_tags demo_ids demo_phrases lower_demo demo_texts

lemma demo_selection_ok: "selection_ok demo_lower (\<lambda>c. c = 46) (VDict [(lit ''enabled'', VBool True), (lit ''dtmf_enabled'', VBool False),
       (lit ''languages'', VList [demo_language ''de-DE'' ''Deutsch'', demo_language ''en'' ''English please''])])"
  by (simp add: selection_ok_def demo_language_def object_ok_def items_of_def get_item_def has_key_def language_entry_ok_def text_if_there_def
    code_of_def text_value_def phrases_of_def new_phrases_def texts_ok_def demo_eval)

lemma has_key_simps: "has_key [] k = False" "has_key ((a, v) # d) k = (lit k = a \<or> has_key d k)"
  by (auto simp: has_key_def)

lemma demo_item: "items_of demo_projection = d \<Longrightarrow> get_item d ''language_selection'' = (VDict [(lit ''enabled'', VBool True), (lit ''dtmf_enabled'', VBool False),
       (lit ''languages'', VList [demo_language ''de-DE'' ''Deutsch'', demo_language ''en'' ''English please''])])"
 by (auto simp: demo_projection_def items_of_def get_item_def)

lemma demo_code: "code_of (demo_language c p) = lit c" "phrases_of (items_of (demo_language c p)) = [lit p]"
  by (simp_all add: demo_language_def code_of_def phrases_of_def items_of_def get_item_def text_value_def)

lemma demo_languages: "languages_of (items_of demo_projection) = [demo_language ''de-DE'' ''Deutsch'', demo_language ''en'' ''English please'']"
  by (simp add: languages_of_def demo_item) (simp add: items_of_def get_item_def)

lemma demo_codes: "codes_of demo_lower (items_of demo_projection) = [lit ''de-de'', lit ''en'']"
  by (simp add: codes_of_def demo_languages demo_code demo_eval)

lemma demo_projection_ok: "projection_ok demo_lower (\<lambda>c. c = 46) (\<lambda>s. True) (\<lambda>d. 0) demo_float demo_projection (VStr (replicate 32 97))"
  unfolding projection_ok_def Let_def demo_codes demo_item[OF refl]
  by (simp add: demo_projection_def object_ok_def required_fields_def items_of_def get_item_def has_key_simps demo_selection_ok if_there_def demo_eval
    text_value_def tts_ok_def localized_def prompt_ok_def vad_ok_def behavior_ok_def behavior_fields_def
    text_if_there_def number_in_def duration_ok_def plain_text_def lit_def[of "''30''"] demo_float_def)

lemma demo_authorized: "from_authorized_response demo_lower (\<lambda>c. c = 46) (\<lambda>s. True) (\<lambda>d. 0) demo_float demo_data (VStr (replicate 32 97)) (VStr (replicate 32 99)) VNone
   = Some demo_settings"
proof -
  have "get_item (items_of demo_projection) ''language'' = VStr (lit ''de-DE'')"
    by (simp add: demo_projection_def items_of_def get_item_def)
  then show ?thesis
    by (simp add: from_authorized_response_def demo_data_def get_item_def[of "[x]" for x] get_item_def[of "[x, y]" for x y] falsy_def has_key_simps agents_ok_def demo_ids text_value_def demo_projection_ok Let_def demo_settings_def)
qed

lemma demo_enabled: "voice_selection_enabled demo_lower
   demo_settings"
  by (simp add: voice_selection_enabled_def selection_def selection_mode_def demo_item demo_settings_def) (simp add: items_of_def get_item_def text_value_def strip_def lower_demo)

theorem selected_language_is_configured_witness:
  "demo_lower (selected_language (select_all demo_lower (\<lambda>c. c = 46) demo_settings [VNone, VStr (lit ''english  PLEASE .'')]))
     \<in> set (codes_of demo_lower (projection demo_settings))"
  using selected_language_is_configured[OF demo_authorized, of "[VNone, VStr (lit ''english  PLEASE .'')]"] by blast

theorem trigger_phrase_selects_its_language_witness:
  "select_language demo_lower (\<lambda>c. c = 46) demo_settings (VStr (lit ''english  PLEASE .''))
     = (True, demo_settings\<lparr>selected_language := lit ''en''\<rparr>)"
  using trigger_phrase_selects_its_language[OF demo_authorized demo_enabled,
    of "demo_language ''en'' ''English please''" "lit ''English please''" "lit ''english  PLEASE .''" "[]"]
  by (simp add: demo_settings_def demo_languages demo_code demo_phrases select_all_def)

theorem call_timing_is_bounded_witness:
  "pred_option (\<lambda>n. 20 \<le> n \<and> n \<le> 2000) (vad_start_ms demo_settings)"
  using call_timing_is_bounded[OF demo_authorized] by blast

end
