(* ===== verification/CallerBinding.thy ===== *)
theory CallerBinding
  imports AssistantSettings Json Bytes Machines
begin

text \<open>
  \<open>voice/caller_binding.py\<close>: the identity of a native caller. The caller's bearer is used for one CREATE of a
  conversation, one refresh and, through a lease split off once, one attestation of the presentation; a failed CREATE
  leaves a receipt that says whether the conversation may exist. Shown here: every failed CREATE has a valid receipt,
  a receipt that denies creation is backed by evidence, a success belongs to the request, and the bearer is released
  at most once for each purpose and never after its deadline.

  \<open>cf\<close> is \<open>str.casefold\<close>. The HTTP client is a \<open>transport\<close>: how far the exchange came and what it brought.
\<close>

section \<open>Identifiers and bearers\<close>

text \<open>What \<open>re.I\<close> identifies: a character class of letters also takes four letters that are not ASCII.\<close>

definition ignore_case :: "nat \<Rightarrow> nat" where
  "ignore_case c = (if 65 \<le> c \<and> c \<le> 90 then c + 32
     else if c = 304 \<or> c = 305 then 105 else if c = 383 then 115 else if c = 8490 then 107 else c)"

definition bearer_char :: "nat \<Rightarrow> bool" where
  "bearer_char c \<longleftrightarrow> letter_or_digit (ignore_case c) \<or> c \<in> {46, 95, 126, 43, 47, 45}"

definition bearer_token :: "pystr \<Rightarrow> bool" where
  "bearer_token s \<longleftrightarrow> takeWhile bearer_char s \<noteq> [] \<and> list_all (\<lambda>c. c = 61) (dropWhile bearer_char s)"

definition valid_authorization :: "pyval \<Rightarrow> bool" where
  "valid_authorization v = (case v of
      VStr s \<Rightarrow> length s \<le> 8192 \<and> map ignore_case (take 7 s) = lit ''bearer '' \<and> bearer_token (drop 7 s)
    | _ \<Rightarrow> False)"

definition caller_url :: pystr where
  "caller_url = lit ''https://soprasteriaassvsdemo14.service-now.com''"

definition create_path :: pystr where
  "create_path = lit ''/api/sn_voice_aia/local_voice_caller/create''"

definition grant_purpose :: "pystr \<times> pystr" where
  "grant_purpose = (caller_url @ lit ''/api/global/scc_voice_context/updates'', lit ''attest_presentation_history_v1'')"

definition caller_service :: pystr where "caller_service = lit ''8aa131d793f787105c8132d47aba1095''"
definition caller_profile :: pystr where "caller_profile = lit ''c623e20f93374354e7f2b9fa6aba1081''"
definition failure_contract :: pystr where "failure_contract = lit ''scc_local_caller_create_v1''"

definition request_fields :: "string list" where
  "request_fields = [''version'', ''requestId'', ''clientSessionId'', ''clientMessageId'']"

definition create_request_ids :: "pyval \<Rightarrow> pystr \<times> pystr \<times> pystr" where
  "create_request_ids v = (case v of
      VDict d \<Rightarrow>
        let r = get_item d ''requestId''; s = get_item d ''clientSessionId''; m = get_item d ''clientMessageId'' in
        if has_keys d request_fields \<and> get_item d ''version'' = VInt 1 \<and> sys_id r \<and> sys_id s \<and> sys_id m
          \<and> distinct [r, s, m]
        then (text_value r, text_value s, text_value m) else ([], [], [])
    | _ \<Rightarrow> ([], [], []))"

section \<open>Receipts of a failed CREATE\<close>

definition failure_stages :: "string list" where
  "failure_stages = [''pre_dispatch_validation'', ''client_open'', ''request_transport'', ''http_status'',
     ''response_encoding'', ''response_type'', ''response_read'', ''response_oversize'', ''response_json'',
     ''transport_close'', ''created_tuple_invalid'', ''cancelled'', ''unexpected'']"

definition dispatch_states :: "string list" where
  "dispatch_states = [''not_dispatched'', ''may_have_dispatched'', ''response_received'']"

record create_receipt =
  cc_reason :: string
  cc_outcome :: string
  cc_stage :: string
  cc_status :: int
  cc_dispatch :: string
  cc_closed :: bool
  cc_contract :: pystr
  cc_request :: pystr
  cc_session :: pystr
  cc_message :: pystr

definition failure_reason :: "int \<Rightarrow> string" where
  "failure_reason status = (if status = 401 then ''caller_create_unauthorized''
     else if status = 403 then ''caller_create_access_denied'' else ''caller_create_unavailable'')"

text \<open>\<open>__post_init__\<close>; the tests of types hold for a record of these types.\<close>

definition create_receipt_ok :: "create_receipt \<Rightarrow> bool" where
  "create_receipt_ok r \<longleftrightarrow>
     (let ids = [cc_request r, cc_session r, cc_message r];
          correlated = list_all (\<lambda>i. sys_id (VStr i)) ids \<and> distinct ids;
          no_dispatch = cc_dispatch r = ''not_dispatched'' \<and> cc_status r = 0;
          rejected = cc_dispatch r = ''response_received'' \<and> cc_status r = 403 \<and> cc_closed r in
      cc_outcome r \<in> {''unknown'', ''not_created''} \<and> cc_stage r \<in> set failure_stages
      \<and> (cc_status r = 0 \<or> 100 \<le> cc_status r \<and> cc_status r \<le> 599) \<and> cc_dispatch r \<in> set dispatch_states
      \<and> (correlated \<or> ids = [[], [], []]) \<and> cc_reason r = failure_reason (cc_status r)
      \<and> (cc_outcome r = ''unknown'' \<longrightarrow> cc_contract r = [])
      \<and> (cc_outcome r = ''not_created'' \<longrightarrow> correlated \<and> cc_contract r = failure_contract \<and> (no_dispatch \<or> rejected)))"

text \<open>\<open>_create_failure\<close>; \<open>None\<close> is the \<open>ValueError\<close> of an invalid receipt.\<close>

definition create_failure :: "pyval \<Rightarrow> string \<Rightarrow> int \<Rightarrow> string \<Rightarrow> bool \<Rightarrow> bool \<Rightarrow> create_receipt option" where
  "create_failure request stage http_status dispatch was_closed negative =
     (let (i, s, m) = create_request_ids request;
          status = (if 100 \<le> http_status \<and> http_status \<le> 599 then http_status else 0);
          no_dispatch = dispatch = ''not_dispatched'' \<and> status = 0;
          rejected = negative \<and> dispatch = ''response_received'' \<and> status = 403 \<and> was_closed;
          not_created = i \<noteq> [] \<and> (no_dispatch \<or> rejected);
          r = \<lparr>cc_reason = failure_reason status, cc_outcome = (if not_created then ''not_created'' else ''unknown''),
            cc_stage = stage, cc_status = status, cc_dispatch = dispatch, cc_closed = was_closed,
            cc_contract = (if not_created then failure_contract else []), cc_request = i, cc_session = s, cc_message = m\<rparr>
      in if create_receipt_ok r then Some r else None)"

section \<open>Answers to a CREATE\<close>

definition denial_fields :: "string list" where
  "denial_fields = [''contract'', ''version'', ''outcome'', ''reason'', ''requestId'', ''clientSessionId'', ''clientMessageId'',
     ''serviceId'', ''contextProfile'']"

definition result_of :: "pyval \<Rightarrow> string \<Rightarrow> string \<Rightarrow> items option" where
  "result_of v status field = (case v of
      VDict d \<Rightarrow>
        (case get_item d ''result'' of
          VDict result \<Rightarrow>
            if has_keys d [''result''] \<and> has_keys result [''status'', field] \<and> get_item result ''status'' = VStr (lit status)
            then (case get_item result field of VDict x \<Rightarrow> Some x | _ \<Rightarrow> None)
            else None
        | _ \<Rightarrow> None)
    | _ \<Rightarrow> None)"

definition valid_denial :: "pyval \<Rightarrow> items \<Rightarrow> bool" where
  "valid_denial v request = (case result_of v ''failure'' ''failure'' of
      None \<Rightarrow> False
    | Some f \<Rightarrow>
        has_keys f denial_fields \<and> get_item f ''contract'' = VStr failure_contract \<and> get_item f ''version'' = VInt 1
        \<and> get_item f ''outcome'' = VStr (lit ''not_created'') \<and> get_item f ''reason'' = VStr (lit ''access_denied'')
        \<and> get_item f ''requestId'' = get_item request ''requestId''
        \<and> get_item f ''clientSessionId'' = get_item request ''clientSessionId''
        \<and> get_item f ''clientMessageId'' = get_item request ''clientMessageId''
        \<and> get_item f ''serviceId'' = VStr caller_service \<and> get_item f ''contextProfile'' = VStr caller_profile)"

definition control_ok :: "pyval \<Rightarrow> bool" where
  "control_ok v = (case v of
      VDict d \<Rightarrow>
        has_keys d [''uiType'', ''actionType'', ''conversationId'', ''interactionId'', ''messageId'']
        \<and> get_item d ''uiType'' = VStr (lit ''ActionMsg'') \<and> get_item d ''actionType'' = VStr (lit ''CreateConversation'')
        \<and> sys_id (get_item d ''conversationId'') \<and> sys_id (get_item d ''interactionId'') \<and> sys_id (get_item d ''messageId'')
    | _ \<Rightarrow> False)"

definition session_ok :: "pyval \<Rightarrow> bool" where
  "session_ok v = (case v of
      VStr s \<Rightarrow> 0 < length s \<and> length s < 256 \<and> strip s = s \<and> list_all (\<lambda>c. 32 \<le> c \<and> c < 127) s
    | _ \<Rightarrow> False)"

definition validated_created :: "pyval \<Rightarrow> items \<Rightarrow> items option" where
  "validated_created v request = (case result_of v ''success'' ''created'' of
      None \<Rightarrow> None
    | Some c \<Rightarrow>
        if object_ok (VDict c) [''requestId'', ''clientSessionId'', ''userId'', ''body'', ''nowSessionId'']
             [''requestId'', ''clientSessionId'', ''userId'', ''body'']
          \<and> get_item c ''requestId'' = get_item request ''requestId''
          \<and> get_item c ''clientSessionId'' = get_item request ''clientSessionId''
          \<and> get_item c ''userId'' = VStr (lit ''voice-'' @ text_value (get_item request ''clientSessionId''))
          \<and> (case get_item c ''body'' of VList [control] \<Rightarrow> control_ok control | _ \<Rightarrow> False)
          \<and> if_there c ''nowSessionId'' session_ok
        then Some c else None)"

section \<open>The exchange\<close>

text \<open>What the peer and the client bring: no client, no answer, or an answer with its status, whether it names an
  encoding, its type, the chunks of its body, whether the body ended without an exception, and whether closing
  response and client succeeded.\<close>

record answer =
  an_status :: int
  an_encoded :: bool
  an_type :: pystr
  an_chunks :: "nat list list"
  an_complete :: bool
  an_closed :: bool

datatype transport = NoClient | NoAnswer | Answered answer

definition json_type :: "pystr \<Rightarrow> bool" where
  "json_type s \<longleftrightarrow> map ignore_case (take 16 s) = lit ''application/json'' \<and> (drop 16 s = [] \<or> drop 16 s = [10] \<or> hd (drop 16 s) = 59)"

fun read_limited :: "nat \<Rightarrow> bool \<Rightarrow> nat list \<Rightarrow> nat list list \<Rightarrow> string + nat list" where
  "read_limited limit ended_well raw [] = (if ended_well then Inr raw else Inl ''response_read'')"
| "read_limited limit ended_well raw (c # cs) =
     (if limit < length (raw @ c) then Inl ''response_oversize'' else read_limited limit ended_well (raw @ c) cs)"

text \<open>The body of an answer with status 200 or 403, \<open>Inl\<close> the stage that failed.\<close>

definition answer_body :: "answer \<Rightarrow> string + pyval" where
  "answer_body a =
     (if an_encoded a then Inl ''response_encoding''
      else if \<not> json_type (an_type a) then Inl ''response_type''
      else (case read_limited (if an_status a = 403 then 4096 else 65536) (an_complete a) [] (an_chunks a) of
          Inl stage \<Rightarrow> Inl stage
        | Inr raw \<Rightarrow>
            (case Option.bind (utf8_decode raw) (json_loads False) of
              None \<Rightarrow> Inl ''response_json''
            | Some v \<Rightarrow> Inr v)))"

definition create_admissible :: "pystr \<Rightarrow> pystr \<Rightarrow> pyval \<Rightarrow> pyval \<Rightarrow> pyval \<Rightarrow> pyval \<Rightarrow> bool" where
  "create_admissible url path token authorization request seconds \<longleftrightarrow>
     path = create_path \<and> valid_authorization authorization \<and> url = caller_url
     \<and> (case token of VStr t \<Rightarrow> 0 < length t \<and> length t \<le> 8192 \<and> \<not> list_ex is_control t | _ \<Rightarrow> False)
     \<and> fst (create_request_ids request) \<noteq> []
     \<and> (case num_of seconds of Some s \<Rightarrow> 0 < s \<and> s \<le> 30 | None \<Rightarrow> False)"

text \<open>\<open>create_native_caller_conversation\<close>, without cancellation from outside.\<close>

definition create_conversation ::
  "pystr \<Rightarrow> pystr \<Rightarrow> pyval \<Rightarrow> pyval \<Rightarrow> pyval \<Rightarrow> pyval \<Rightarrow> transport \<Rightarrow> create_receipt option + items" where
  "create_conversation url path token authorization request seconds transport =
     (if \<not> create_admissible url path token authorization request seconds
      then Inl (create_failure request ''pre_dispatch_validation'' 0 ''not_dispatched'' False False)
      else (case transport of
          NoClient \<Rightarrow> Inl (create_failure request ''client_open'' 0 ''not_dispatched'' False False)
        | NoAnswer \<Rightarrow> Inl (create_failure request ''request_transport'' 0 ''may_have_dispatched'' False False)
        | Answered a \<Rightarrow>
            let failed = (\<lambda>stage was_closed negative. Inl (create_failure request stage (an_status a) ''response_received'' was_closed negative));
                body = (if an_status a = 200 \<or> an_status a = 403 then answer_body a else Inr VNone) in
            (case body of
              Inl stage \<Rightarrow> failed stage False False
            | Inr v \<Rightarrow>
                if \<not> an_closed a then failed ''transport_close'' False False
                else if an_status a \<noteq> 200
                then failed ''http_status'' True (an_status a = 403 \<and> valid_denial v (items_of request))
                else (case validated_created v (items_of request) of
                    Some created \<Rightarrow> Inr created
                  | None \<Rightarrow> failed ''created_tuple_invalid'' True False))))"

section \<open>Who the caller is\<close>

record caller_binding =
  cb_user_id :: pystr
  cb_email :: pystr

definition binding_fields :: "string list" where
  "binding_fields = [''version'', ''service_id'', ''context_profile'', ''user_id'', ''user_name'', ''email'', ''email_mapping_unique'']"

definition user_name_ok :: "(pystr \<Rightarrow> pystr) \<Rightarrow> pyval \<Rightarrow> bool" where
  "user_name_ok cf v = (case v of
      VStr s \<Rightarrow> s \<noteq> [] \<and> strip s = s \<and> length s \<le> 256 \<and> cf s \<noteq> lit ''guest'' \<and> \<not> list_ex is_control s
    | _ \<Rightarrow> False)"

definition email_ok :: "pyval \<Rightarrow> bool" where
  "email_ok v = (case v of
      VStr s \<Rightarrow> 3 \<le> length s \<and> length s \<le> 254 \<and> length (filter (\<lambda>c. c = 64) s) = 1
        \<and> \<not> list_ex (\<lambda>c. is_space c \<or> is_control c \<or> c = 94) s
    | _ \<Rightarrow> False)"

definition validated_binding :: "(pystr \<Rightarrow> pystr) \<Rightarrow> pyval \<Rightarrow> pyval \<Rightarrow> pyval \<Rightarrow> pyval \<Rightarrow> caller_binding option" where
  "validated_binding cf v service agent profile = (case v of
      VDict d \<Rightarrow>
        (case get_item d ''result'' of
          VDict result \<Rightarrow>
            (case (get_item result ''assistant_settings'', get_item result ''caller_binding'') of
              (VDict settings, VDict b) \<Rightarrow>
                if falsy (get_item d ''error'')
                  \<and> agents_ok agent (get_item result ''authorized_agents'')
                  \<and> (case get_item result ''authorized_agents'' of VList xs \<Rightarrow> distinct xs | _ \<Rightarrow> False)
                  \<and> get_item settings ''version'' = VInt 1 \<and> get_item settings ''service_id'' = service
                  \<and> get_item settings ''context_profile'' = profile
                  \<and> has_keys b binding_fields \<and> get_item b ''version'' = VInt 1 \<and> get_item b ''service_id'' = service
                  \<and> get_item b ''context_profile'' = profile \<and> get_item b ''email_mapping_unique'' = VBool True
                  \<and> sys_id (get_item b ''user_id'') \<and> user_name_ok cf (get_item b ''user_name'') \<and> email_ok (get_item b ''email'')
                then Some \<lparr>cb_user_id = text_value (get_item b ''user_id''), cb_email = text_value (get_item b ''email'')\<rparr>
                else None
            | _ \<Rightarrow> None)
        | _ \<Rightarrow> None)
    | _ \<Rightarrow> None)"

text \<open>The conversation a call owns: its three identifiers.\<close>

definition owned_fields :: "string list" where
  "owned_fields = [''conversation_id'', ''interaction_id'', ''create_message_id'']"

definition owned_ok :: "pyval \<Rightarrow> bool" where
  "owned_ok v = (case v of VDict d \<Rightarrow> has_keys d owned_fields \<and> list_all (\<lambda>(k, x). sys_id x) d | _ \<Rightarrow> False)"

definition names_owned :: "items \<Rightarrow> items \<Rightarrow> bool" where
  "names_owned owned d \<longleftrightarrow> list_all (\<lambda>k. get_item d k = get_item owned k) owned_fields"

definition acknowledged :: "pyval \<Rightarrow> pyval \<Rightarrow> items \<Rightarrow> pyval \<Rightarrow> bool" where
  "acknowledged service profile owned v = (case v of
      VDict a \<Rightarrow> has_keys a ([''version'', ''refresh_requested'', ''service_id'', ''context_profile''] @ owned_fields)
        \<and> get_item a ''version'' = VInt 1 \<and> get_item a ''refresh_requested'' = VBool True \<and> get_item a ''service_id'' = service
        \<and> get_item a ''context_profile'' = profile \<and> names_owned owned a
    | _ \<Rightarrow> False)"

record provider_context =
  pc_caller :: pystr
  pc_provider :: pystr
  pc_owned :: "pyval list"

definition provider_user_ok :: "pyval \<Rightarrow> bool" where
  "provider_user_ok v = (case v of VStr s \<Rightarrow> take 6 s = lit ''voice-'' \<and> sys_id (VStr (drop 6 s)) | _ \<Rightarrow> False)"

definition validated_provider_context :: "pyval \<Rightarrow> pyval \<Rightarrow> items \<Rightarrow> caller_binding \<Rightarrow> pyval \<Rightarrow> provider_context option" where
  "validated_provider_context service profile owned caller v = (case v of
      VDict d \<Rightarrow>
        if has_keys d ([''version'', ''status'', ''service_id'', ''context_profile'', ''caller_user_id'', ''provider_user_id''] @ owned_fields)
          \<and> get_item d ''version'' = VInt 1 \<and> get_item d ''status'' = VStr (lit ''available'') \<and> get_item d ''service_id'' = service
          \<and> get_item d ''context_profile'' = profile \<and> get_item d ''caller_user_id'' = VStr (cb_user_id caller)
          \<and> names_owned owned d \<and> provider_user_ok (get_item d ''provider_user_id'')
        then Some \<lparr>pc_caller = cb_user_id caller, pc_provider = text_value (get_item d ''provider_user_id''),
          pc_owned = map (get_item owned) owned_fields\<rparr>
        else None
    | _ \<Rightarrow> None)"

text \<open>\<open>refresh_native_caller_session\<close> on the projection that came back, \<open>None\<close> when fetching it failed.\<close>

definition refresh_session ::
  "(pystr \<Rightarrow> pystr) \<Rightarrow> pyval \<Rightarrow> pyval \<Rightarrow> pyval \<Rightarrow> pyval \<Rightarrow> caller_binding \<Rightarrow> bool \<Rightarrow> pyval option
     \<Rightarrow> provider_context option option" where
  "refresh_session cf service agent profile owned caller wants_context fetched = (case (owned, fetched) of
      (VDict o', Some v) \<Rightarrow>
        if owned_ok owned \<and> validated_binding cf v service agent profile = Some caller
          \<and> acknowledged service profile o' (get_item (items_of (get_item (items_of v) ''result'')) ''conversation_authentication'')
        then Some (if wants_context
          then validated_provider_context service profile o' caller
            (get_item (items_of (get_item (items_of v) ''result'')) ''provider_context_binding'')
          else None)
        else None
    | _ \<Rightarrow> None)"

section \<open>The bearer of a call\<close>

record credential =
  cr_value :: pystr
  cr_deadline :: rat
  cr_armed :: bool
  cr_callback :: bool
  cr_created :: bool
  cr_delegated :: bool

record 'o lease =
  ls_value :: pystr
  ls_deadline :: rat
  ls_owner :: "'o option"
  ls_armed :: bool

definition new_credential :: "pyval \<Rightarrow> pyval \<Rightarrow> bool \<Rightarrow> rat \<Rightarrow> credential option" where
  "new_credential authorization seconds callback now = (case num_of seconds of
      Some s \<Rightarrow>
        if valid_authorization authorization \<and> 0 < s \<and> s \<le> 45
        then Some \<lparr>cr_value = text_value authorization, cr_deadline = now + s, cr_armed = True, cr_callback = callback,
          cr_created = False, cr_delegated = False\<rparr>
        else None
    | None \<Rightarrow> None)"

definition cr_available :: "rat \<Rightarrow> credential \<Rightarrow> bool" where
  "cr_available now c \<longleftrightarrow> cr_value c \<noteq> [] \<and> now < cr_deadline c"

definition cr_clear :: "credential \<Rightarrow> credential" where
  "cr_clear c = c\<lparr>cr_value := [], cr_callback := False, cr_armed := False\<rparr>"

text \<open>What a use releases: the bearer, the seconds left and the deadline; \<open>None\<close> is the exception.\<close>

type_synonym release = "(pystr \<times> rat \<times> rat) option"

definition cr_take :: "rat \<Rightarrow> credential \<Rightarrow> release \<times> credential" where
  "cr_take now c = (if cr_available now c then Some (cr_value c, cr_deadline c - now, cr_deadline c) else None, cr_clear c)"

definition cr_claim :: "rat \<Rightarrow> credential \<Rightarrow> release \<times> credential" where
  "cr_claim now c = (if cr_created c \<or> \<not> cr_available now c then (None, c)
     else (Some (cr_value c, cr_deadline c - now, cr_deadline c), c\<lparr>cr_created := True\<rparr>))"

definition cr_delegate :: "rat \<Rightarrow> 'o option \<Rightarrow> credential \<Rightarrow> 'o lease option \<times> credential" where
  "cr_delegate now owner c = (if cr_delegated c \<or> \<not> cr_available now c \<or> owner = None then (None, c)
     else (Some \<lparr>ls_value = cr_value c, ls_deadline = cr_deadline c, ls_owner = owner, ls_armed = True\<rparr>,
       c\<lparr>cr_delegated := True\<rparr>))"

text \<open>The timer of the event loop; it says whether the callback ran.\<close>

definition cr_expire :: "credential \<Rightarrow> bool \<times> credential" where
  "cr_expire c = (if cr_armed c then (cr_callback c, cr_clear c) else (False, c))"

definition ls_available :: "rat \<Rightarrow> 'o lease \<Rightarrow> bool" where
  "ls_available now l \<longleftrightarrow> ls_value l \<noteq> [] \<and> now < ls_deadline l"

definition ls_clear :: "'o lease \<Rightarrow> 'o lease" where
  "ls_clear l = l\<lparr>ls_value := [], ls_owner := None, ls_armed := False\<rparr>"

definition ls_take :: "rat \<Rightarrow> 'o \<Rightarrow> pystr \<times> pystr \<Rightarrow> 'o lease \<Rightarrow> release \<times> 'o lease" where
  "ls_take now owner purpose l =
     (if ls_owner l = Some owner \<and> purpose = grant_purpose \<and> ls_available now l
      then Some (ls_value l, ls_deadline l - now, ls_deadline l) else None, ls_clear l)"

text \<open>One call's credential, the lease split off it, and what was released so far: the purpose, the time and the bearer.\<close>

datatype purpose = Creating | Refreshing | Attesting

record 'o wallet =
  wa_credential :: credential
  wa_lease :: "'o lease option"
  wa_uses :: "(purpose \<times> rat \<times> pystr) list"

datatype 'o wallet_call =
    UseCreate rat
  | UseRefresh rat
  | Delegate rat "'o option"
  | Attest rat 'o "pystr \<times> pystr"
  | ClearCredential
  | ClearLease
  | CredentialTimer
  | LeaseTimer

definition noting_use :: "purpose \<Rightarrow> rat \<Rightarrow> release \<Rightarrow> (purpose \<times> rat \<times> pystr) list \<Rightarrow> (purpose \<times> rat \<times> pystr) list" where
  "noting_use p now r us = (case r of None \<Rightarrow> us | Some (value, _) \<Rightarrow> us @ [(p, now, value)])"

fun wallet_do :: "'o wallet_call \<Rightarrow> 'o wallet \<Rightarrow> 'o wallet" where
  "wallet_do (UseCreate now) w = (case cr_claim now (wa_credential w) of
     (r, c) \<Rightarrow> w\<lparr>wa_credential := c, wa_uses := noting_use Creating now r (wa_uses w)\<rparr>)"
| "wallet_do (UseRefresh now) w = (case cr_take now (wa_credential w) of
     (r, c) \<Rightarrow> w\<lparr>wa_credential := c, wa_uses := noting_use Refreshing now r (wa_uses w)\<rparr>)"
| "wallet_do (Delegate now owner) w = (case cr_delegate now owner (wa_credential w) of
     (None, c) \<Rightarrow> w\<lparr>wa_credential := c\<rparr>
   | (Some l, c) \<Rightarrow> w\<lparr>wa_credential := c, wa_lease := Some l\<rparr>)"
| "wallet_do (Attest now owner purpose) w = (case wa_lease w of
     None \<Rightarrow> w
   | Some l \<Rightarrow> (case ls_take now owner purpose l of
       (r, l') \<Rightarrow> w\<lparr>wa_lease := Some l', wa_uses := noting_use Attesting now r (wa_uses w)\<rparr>))"
| "wallet_do ClearCredential w = w\<lparr>wa_credential := cr_clear (wa_credential w)\<rparr>"
| "wallet_do ClearLease w = w\<lparr>wa_lease := map_option ls_clear (wa_lease w)\<rparr>"
| "wallet_do CredentialTimer w = w\<lparr>wa_credential := snd (cr_expire (wa_credential w))\<rparr>"
| "wallet_do LeaseTimer w = w\<lparr>wa_lease := map_option (\<lambda>l. if ls_armed l then ls_clear l else l) (wa_lease w)\<rparr>"

definition new_wallet :: "credential \<Rightarrow> 'o wallet" where
  "new_wallet c = \<lparr>wa_credential = c, wa_lease = None, wa_uses = []\<rparr>"

definition uses_for :: "purpose \<Rightarrow> 'o wallet \<Rightarrow> nat" where
  "uses_for p w = length (filter (\<lambda>(q, _). q = p) (wa_uses w))"

section \<open>Receipts are valid and honest\<close>

lemma request_ids_cases:
  obtains (none) "create_request_ids v = ([], [], [])"
  | (ids) r s m where "create_request_ids v = (r, s, m)" "sys_id (VStr r)" "sys_id (VStr s)" "sys_id (VStr m)" "distinct [r, s, m]"
proof (cases "create_request_ids v = ([], [], [])")
  case False
  then obtain d where d: "v = VDict d" by (cases v) (auto simp: create_request_ids_def)
  let ?r = "get_item d ''requestId''" and ?s = "get_item d ''clientSessionId''" and ?m = "get_item d ''clientMessageId''"
  have ok: "sys_id ?r" "sys_id ?s" "sys_id ?m" "distinct [?r, ?s, ?m]"
    and v: "create_request_ids v = (text_value ?r, text_value ?s, text_value ?m)"
    using False unfolding d by (auto simp: create_request_ids_def Let_def split: if_splits)
  have str: "\<exists>t. x = VStr t" if "sys_id x" for x using that by (cases x) (auto simp: sys_id_def)
  obtain a b c where "?r = VStr a" "?s = VStr b" "?m = VStr c" using str ok by metis
  then show thesis using ok v by (intro ids[of a b c]) (auto simp: text_value_def)
qed (rule none)

lemma sys_id_not_empty: "sys_id (VStr s) \<Longrightarrow> s \<noteq> []"
  by (auto simp: sys_id_def)

lemma create_failure_Some:
  assumes "stage \<in> set failure_stages" and "dispatch \<in> set dispatch_states"
  shows "create_failure request stage status dispatch was_closed negative \<noteq> None"
proof (cases rule: request_ids_cases[of request])
  case none
  then show ?thesis
    using assms by (simp add: create_failure_def create_receipt_ok_def Let_def)
next
  case (ids r s m)
  then have "r \<noteq> []" by (simp add: sys_id_not_empty)
  then show ?thesis
    using assms ids by (auto simp: create_failure_def create_receipt_ok_def Let_def)
qed

lemma read_limited_stage: "read_limited limit w raw cs = Inl stage \<Longrightarrow> stage \<in> {''response_read'', ''response_oversize''}"
  by (induction cs arbitrary: raw) (auto split: if_splits)

lemma answer_body_stage: "answer_body a = Inl stage \<Longrightarrow> stage \<in> set failure_stages"
  by (auto simp: answer_body_def failure_stages_def split: if_splits sum.splits option.splits dest!: read_limited_stage)

text \<open>However the exchange of a CREATE ends, a failure is reported by a valid receipt: making the receipt never
  fails itself.\<close>

theorem failed_create_has_valid_receipt:
  "create_conversation url path token authorization request seconds transport \<noteq> Inl None"
proof -
  have ok: "create_failure request stage status dispatch was_closed negative \<noteq> None"
    if "stage \<in> set failure_stages" "dispatch \<in> set dispatch_states" for stage status dispatch was_closed negative
    using create_failure_Some[OF that] .
  have stages: "set [''pre_dispatch_validation'', ''client_open'', ''request_transport'', ''transport_close'', ''http_status'',
      ''created_tuple_invalid''] \<subseteq> set failure_stages"
    "set [''not_dispatched'', ''may_have_dispatched'', ''response_received''] \<subseteq> set dispatch_states"
    by (simp_all add: failure_stages_def dispatch_states_def)
  show ?thesis
    using stages by (auto simp: create_conversation_def Let_def ok answer_body_stage split: transport.split sum.split option.split)
qed

lemma create_failure_outcome:
  assumes "create_failure request stage status dispatch was_closed negative = Some r"
  shows "cc_outcome r = ''not_created'' \<longrightarrow> dispatch = ''not_dispatched'' \<or> negative \<and> dispatch = ''response_received'' \<and> status = 403 \<and> was_closed"
    and "(cc_request r, cc_session r, cc_message r) = create_request_ids request"
  using assms by (cases "create_request_ids request"; force simp: create_failure_def Let_def split: if_splits)+

text \<open>A receipt says that no conversation was created only when the request was refused before any client was
  opened, or when no client could be opened, or when the peer answered 403 with the exact denial of this request and
  the exchange was closed in order; and it names the identifiers of this request.\<close>

theorem not_created_is_proven:
  assumes "create_conversation url path token authorization request seconds transport = Inl (Some r)"
    and "cc_outcome r = ''not_created''"
  shows "(cc_request r, cc_session r, cc_message r) = create_request_ids request
    \<and> (\<not> create_admissible url path token authorization request seconds \<or> transport = NoClient
      \<or> (\<exists>a v. transport = Answered a \<and> an_status a = 403 \<and> an_closed a \<and> answer_body a = Inr v \<and> valid_denial v (items_of request)))"
proof (cases "create_admissible url path token authorization request seconds")
  case False
  then show ?thesis using assms create_failure_outcome(2) by (auto simp: create_conversation_def)
next
  case admissible: True

  show ?thesis
  proof (cases transport)
    case NoClient
    then show ?thesis using assms(1) create_failure_outcome(2) admissible by (auto simp: create_conversation_def)
  next
    case NoAnswer
    then show ?thesis using assms admissible by (auto simp: create_conversation_def dest!: create_failure_outcome(1))
  next
    case (Answered a)
    show ?thesis
      using assms admissible Answered
      by (auto simp: create_conversation_def Let_def create_failure_outcome(2) split: sum.splits if_splits option.splits
          dest: create_failure_outcome(1))
  qed
qed

text \<open>A created conversation is the one this request asked for: the request was admissible, the peer answered 200 and
  the exchange was closed in order, and what it created carries the identifiers of the request.\<close>

theorem created_is_for_this_request:
  assumes "create_conversation url path token authorization request seconds transport = Inr created"
  shows "create_admissible url path token authorization request seconds
    \<and> (\<exists>a v. transport = Answered a \<and> an_status a = 200 \<and> an_closed a \<and> answer_body a = Inr v
        \<and> validated_created v (items_of request) = Some created)
    \<and> get_item created ''requestId'' = VStr (fst (create_request_ids request))"
proof -
  obtain a v where av: "create_admissible url path token authorization request seconds" "transport = Answered a"
    "an_status a = 200" "an_closed a" "answer_body a = Inr v" "validated_created v (items_of request) = Some created"
    using assms by (auto simp: create_conversation_def Let_def split: if_splits transport.splits sum.splits option.splits)
  have ids: "fst (create_request_ids request) \<noteq> []" using av(1) by (simp add: create_admissible_def)
  then obtain d where d: "request = VDict d" by (cases request) (auto simp: create_request_ids_def)
  have "sys_id (get_item d ''requestId'')" "fst (create_request_ids request) = text_value (get_item d ''requestId'')"
    using ids unfolding d by (auto simp: create_request_ids_def Let_def split: if_splits)
  then have "get_item (items_of request) ''requestId'' = VStr (fst (create_request_ids request))"
    unfolding d by (cases "get_item d ''requestId''") (auto simp: sys_id_def text_value_def items_of_def)
  moreover have "get_item created ''requestId'' = get_item (items_of request) ''requestId''"
    using av(6) by (auto simp: validated_created_def split: option.splits if_splits)
  ultimately show ?thesis using av by auto
qed

section \<open>The bearer is released once\<close>

definition wallet_ok :: "pystr \<Rightarrow> rat \<Rightarrow> 'o wallet \<Rightarrow> bool" where
  "wallet_ok bearer deadline w \<longleftrightarrow>
     (let c = wa_credential w in
      uses_for Creating w \<le> (if cr_created c then 1 else 0) \<and> uses_for Refreshing w \<le> (if cr_value c = [] then 1 else 0)
      \<and> uses_for Attesting w \<le> (case wa_lease w of None \<Rightarrow> 0 | Some l \<Rightarrow> if ls_value l = [] then 1 else 0)
      \<and> (wa_lease w \<noteq> None \<longrightarrow> cr_delegated c) \<and> cr_value c \<in> {[], bearer} \<and> cr_deadline c = deadline
      \<and> pred_option (\<lambda>l. ls_value l \<in> {[], bearer} \<and> ls_deadline l = deadline) (wa_lease w)
      \<and> list_all (\<lambda>(p, now, value). now < deadline \<and> value = bearer) (wa_uses w))"

lemma uses_for_simps [simp]:
  "uses_for p (w\<lparr>wa_credential := c\<rparr>) = uses_for p w" "uses_for p (w\<lparr>wa_lease := l\<rparr>) = uses_for p w"
  "uses_for p (w\<lparr>wa_uses := us @ [(q, now, v)]\<rparr>) = uses_for p (w\<lparr>wa_uses := us\<rparr>) + (if p = q then 1 else 0)"
  "uses_for p (w\<lparr>wa_uses := wa_uses w\<rparr>) = uses_for p w"
  by (simp_all add: uses_for_def)

lemmas credential_defs = cr_take_def cr_claim_def cr_delegate_def cr_expire_def cr_clear_def cr_available_def
  ls_take_def ls_clear_def ls_available_def noting_use_def

lemma wallet_step: "wallet_ok bearer deadline w \<Longrightarrow> wallet_ok bearer deadline (wallet_do call w)"
  by (cases call; cases "wa_lease w") (auto simp: wallet_ok_def credential_defs Let_def split: if_splits)

interpretation wallet: component wallet_do "wallet_ok bearer deadline" for bearer deadline
  by unfold_locales (rule wallet_step)

text \<open>A wallet without a bearer releases nothing any more.\<close>

definition erased :: "'o wallet \<Rightarrow> bool" where
  "erased w \<longleftrightarrow> cr_value (wa_credential w) = [] \<and> pred_option (\<lambda>l. ls_value l = []) (wa_lease w)"

interpretation erasure: stopping wallet_do "\<lambda>w. True" erased wa_uses
proof unfold_locales
  fix w :: "'o wallet" and call assume "erased w"
  then have "erased (wallet_do call w) \<and> wa_uses (wallet_do call w) = wa_uses w"
    by (cases call; cases "wa_lease w") (auto simp: erased_def credential_defs split: if_splits)
  then show "erased (wallet_do call w)" "wa_uses (wallet_do call w) = wa_uses w" by simp_all
qed simp

text \<open>C36. Whatever a call does with its credential and at whatever times, the bearer is released at most once for the
  CREATE, at most once for the refresh and at most once for the attestation, always before the one deadline that
  construction set, and never another value; once credential and lease are cleared nothing is released any more.\<close>

theorem bearer_is_released_once:
  assumes "new_credential authorization seconds callback now = Some c"
    and "w = fold wallet_do calls (new_wallet c)"
  shows "uses_for Creating w \<le> 1 \<and> uses_for Refreshing w \<le> 1 \<and> uses_for Attesting w \<le> 1
    \<and> list_all (\<lambda>(p, time, value). time < cr_deadline c \<and> VStr value = authorization) (wa_uses w)
    \<and> cr_deadline c \<le> now + 45
    \<and> wa_uses (fold wallet_do later (wallet_do ClearLease (wallet_do ClearCredential w))) = wa_uses w"
proof -
  obtain a where a: "authorization = VStr a" "cr_value c = a" "cr_deadline c \<le> now + 45"
    using assms(1) by (cases authorization)
      (auto simp: new_credential_def valid_authorization_def text_value_def split: option.splits if_splits)
  have "wallet_ok a (cr_deadline c) (new_wallet c :: 'a wallet)"
    using a(2) by (simp add: wallet_ok_def new_wallet_def uses_for_def Let_def)
  then have ok: "wallet_ok a (cr_deadline c) w" unfolding assms(2) by (rule wallet.run_inv)
  have "erased (wallet_do ClearLease (wallet_do ClearCredential w))"
    by (cases "wa_lease w") (simp_all add: erased_def credential_defs)
  from erasure.run_stopped[OF TrueI this, of later]
  have "wa_uses (fold wallet_do later (wallet_do ClearLease (wallet_do ClearCredential w))) = wa_uses w" by simp
  then show ?thesis
    using ok a by (auto simp: wallet_ok_def Let_def split: if_splits option.splits)
qed

section \<open>An example\<close>

definition demo_id :: "nat \<Rightarrow> pyval" where
  "demo_id c = VStr (replicate 32 c)"

definition demo_request :: pyval where
  "demo_request = VDict [(lit ''version'', VInt 1), (lit ''requestId'', demo_id 97), (lit ''clientSessionId'', demo_id 98),
     (lit ''clientMessageId'', demo_id 99)]"

lemma demo_request_ids: "create_request_ids demo_request = (replicate 32 97, replicate 32 98, replicate 32 99)"
  by (simp add: create_request_ids_def demo_request_def has_keys_def request_fields_def get_item_def demo_id_def sys_id_def
      text_value_def list_all_iff)

lemma demo_bearer: "valid_authorization (VStr (lit ''Bearer abc''))"
  by (simp add: valid_authorization_def bearer_token_def bearer_char_def ignore_case_def letter_or_digit_def letter_char_def
      lit_def)

lemma demo_refused:
  "create_conversation [] create_path (VStr (lit ''t'')) (VStr (lit ''Bearer abc'')) demo_request (VInt 10) NoAnswer
     = Inl (Some \<lparr>cc_reason = ''caller_create_unavailable'', cc_outcome = ''not_created'', cc_stage = ''pre_dispatch_validation'',
         cc_status = 0, cc_dispatch = ''not_dispatched'', cc_closed = False, cc_contract = failure_contract,
         cc_request = replicate 32 97, cc_session = replicate 32 98, cc_message = replicate 32 99\<rparr>)"
  by (simp add: create_conversation_def create_admissible_def caller_url_def create_failure_def demo_request_ids
      create_receipt_ok_def failure_stages_def dispatch_states_def failure_reason_def sys_id_def list_all_iff Let_def)

theorem not_created_is_proven_witness:
  "\<not> create_admissible [] create_path (VStr (lit ''t'')) (VStr (lit ''Bearer abc'')) demo_request (VInt 10)"
  using not_created_is_proven[OF demo_refused] by simp

definition demo_credential :: credential where
  "demo_credential = \<lparr>cr_value = lit ''Bearer abc'', cr_deadline = 50, cr_armed = True, cr_callback = False,
     cr_created = False, cr_delegated = False\<rparr>"

lemma demo_credential_new: "new_credential (VStr (lit ''Bearer abc'')) (VInt 45) False 5 = Some demo_credential"
  by (simp add: new_credential_def num_of_def demo_bearer demo_credential_def text_value_def)

definition demo_wallet :: "unit wallet" where
  "demo_wallet = fold wallet_do [UseCreate 6, UseCreate 7, Delegate 8 (Some ()), UseRefresh 9, UseRefresh 10,
     Attest 11 () grant_purpose, Attest 12 () grant_purpose] (new_wallet demo_credential)"

theorem bearer_is_released_once_witness:
  "wa_uses demo_wallet = [(Creating, 6, lit ''Bearer abc''), (Refreshing, 9, lit ''Bearer abc''), (Attesting, 11, lit ''Bearer abc'')]
   \<and> uses_for Creating demo_wallet \<le> 1"
proof -
  have "wa_uses demo_wallet = [(Creating, 6, lit ''Bearer abc''), (Refreshing, 9, lit ''Bearer abc''), (Attesting, 11, lit ''Bearer abc'')]"
    by (simp add: demo_wallet_def new_wallet_def demo_credential_def credential_defs)
  then show ?thesis using bearer_is_released_once[OF demo_credential_new demo_wallet_def] by blast
qed

definition created_text :: pystr where
  "created_text = 123 # in_quotes (lit ''result'') @ 58 # 123 # in_quotes (lit ''status'') @ 58 # in_quotes (lit ''success'')
     @ 44 # in_quotes (lit ''created'') @ 58 # 123 # in_quotes (lit ''requestId'') @ 58 # in_quotes (replicate 32 97)
     @ 44 # in_quotes (lit ''clientSessionId'') @ 58 # in_quotes (replicate 32 98)
     @ 44 # in_quotes (lit ''userId'') @ 58 # in_quotes (lit ''voice-'' @ replicate 32 98)
     @ 44 # in_quotes (lit ''body'') @ 58 # 91 # 123 # in_quotes (lit ''uiType'') @ 58 # in_quotes (lit ''ActionMsg'')
     @ 44 # in_quotes (lit ''actionType'') @ 58 # in_quotes (lit ''CreateConversation'')
     @ 44 # in_quotes (lit ''conversationId'') @ 58 # in_quotes (replicate 32 99)
     @ 44 # in_quotes (lit ''interactionId'') @ 58 # in_quotes (replicate 32 99)
     @ 44 # in_quotes (lit ''messageId'') @ 58 # in_quotes (replicate 32 99) @ [125, 93, 125, 125, 125]"

definition created_control :: pyval where
  "created_control = VDict [(lit ''uiType'', VStr (lit ''ActionMsg'')), (lit ''actionType'', VStr (lit ''CreateConversation'')),
     (lit ''conversationId'', demo_id 99), (lit ''interactionId'', demo_id 99), (lit ''messageId'', demo_id 99)]"

definition created_items :: items where
  "created_items = [(lit ''requestId'', demo_id 97), (lit ''clientSessionId'', demo_id 98),
     (lit ''userId'', VStr (lit ''voice-'' @ replicate 32 98)), (lit ''body'', VList [created_control])]"

definition created_value :: pyval where
  "created_value = VDict [(lit ''result'', VDict [(lit ''status'', VStr (lit ''success'')), (lit ''created'', VDict created_items)])]"

lemma plain_lits:
  "plain_chars (replicate 32 97)" "plain_chars (replicate 32 98)" "plain_chars (replicate 32 99)"
  "plain_chars (lit ''voice-'' @ replicate 32 98)"
  "list_all (\<lambda>s. plain_chars (lit s)) [''result'', ''status'', ''success'', ''created'', ''requestId'', ''clientSessionId'', ''userId'',
     ''body'', ''uiType'', ''ActionMsg'', ''actionType'', ''CreateConversation'', ''conversationId'', ''interactionId'', ''messageId'']"
  by (simp_all add: plain_chars_def lit_def list_all_iff)

lemma created_text_read: "json_loads False created_text = Some created_value"
  using plain_lits
  by (simp add: json_loads_def created_text_def tokens_in_quotes tokens_structural structural_def tokens.simps[of _ "[]"]
      created_value_def created_items_def created_control_def demo_id_def)

lemma created_text_ascii: "list_all (\<lambda>c. c < 128) created_text" "length created_text < 4096"
  by (simp_all add: created_text_def in_quotes_def lit_def list_all_iff)

lemma created_validated: "validated_created created_value (items_of demo_request) = Some created_items"
  by (simp add: validated_created_def result_of_def created_value_def created_items_def created_control_def has_keys_def
      get_item_def object_ok_def demo_request_def items_of_def demo_id_def text_value_def control_ok_def sys_id_def list_all_iff
      if_there_def has_key_def)

definition created_answer :: answer where
  "created_answer = \<lparr>an_status = 200, an_encoded = False, an_type = lit ''application/json'', an_chunks = [created_text],
     an_complete = True, an_closed = True\<rparr>"

lemma created_body: "answer_body created_answer = Inr created_value"
proof -
  have "json_type (lit ''application/json'')" by (simp add: json_type_def ignore_case_def lit_def)
  then show ?thesis
    using created_text_ascii(2) by (simp add: answer_body_def created_answer_def created_text_read utf8_decode_ascii created_text_ascii(1))
qed

lemma created_example:
  "create_conversation caller_url create_path (VStr (lit ''t'')) (VStr (lit ''Bearer abc'')) demo_request (VInt 10)
     (Answered created_answer) = Inr created_items"
proof -
  have "create_admissible caller_url create_path (VStr (lit ''t'')) (VStr (lit ''Bearer abc'')) demo_request (VInt 10)"
    by (simp add: create_admissible_def demo_bearer demo_request_ids num_of_def is_control_def lit_def[of "''t''"])
  then show ?thesis
    using created_body by (simp add: create_conversation_def created_validated) (simp add: created_answer_def)
qed

theorem created_is_for_this_request_witness:
  "get_item created_items ''requestId'' = VStr (replicate 32 97)"
  using created_is_for_this_request[OF created_example] by (simp add: demo_request_ids)

end
