(* ===== verification/FiniteResponses.thy ===== *)
theory FiniteResponses
  imports SmokeTask SseObserver
begin

text \<open>
  \<open>scripts/gufo_control/finite_responses.py\<close> with \<open>_parse_json_response\<close> of \<open>benchmark_http.py\<close>: the decoding of
  positive responses of a finite qualification, buffered or streamed. Shown here: an accepted stream of the responses
  route is complete and in sequence and its answer is what its deltas say, how the socket cuts it does not matter for
  what is read, and whatever is accepted is within the output limit and from the one model.
\<close>

section \<open>Parts and texts\<close>

definition body_limit :: nat where "body_limit = 7340032"
definition part_limit :: nat where "part_limit = 65536"
definition max_elapsed :: rat where "max_elapsed = 10 ^ 305"
definition messages_route :: pystr where "messages_route = lit ''/v1/messages''"

text \<open>\<open>_body\<close>: an oversized body, then the one JSON object in it.\<close>

definition response_object :: "nat list \<Rightarrow> string + items" where
  "response_object raw =
     (if body_limit < length raw then Inl ''finite_response_body_limit''
      else (case json_object raw of None \<Rightarrow> Inl ''malformed_json'' | Some d \<Rightarrow> Inr d))"

definition output_text :: "pyval \<Rightarrow> string + pystr" where
  "output_text v = (case v of
      VStr s \<Rightarrow>
        if \<not> utf8_encodable s then Inl ''finite_response_text_utf8''
        else if output_limit < utf8_len s then Inl ''finite_response_output_limit'' else Inr s
    | _ \<Rightarrow> Inl ''finite_response_text'')"

definition elapsed_ms :: "rat \<Rightarrow> rat \<Rightarrow> rat option" where
  "elapsed_ms arrived submitted =
     (let e = arrived - submitted in if e < 0 \<or> max_elapsed < e then None else Some (e * 1000))"

fun check_parts :: "rat \<Rightarrow> nat \<Rightarrow> rat \<Rightarrow> (nat list \<times> rat) list \<Rightarrow> string option" where
  "check_parts submitted sz previous [] = None"
| "check_parts submitted sz previous ((part, arrived) # ps) =
     (if part = [] \<or> arrived < previous \<or> elapsed_ms arrived submitted = None then Some ''finite_response_parts''
      else if body_limit < sz + length part then Some ''finite_response_body_limit''
      else check_parts submitted (sz + length part) arrived ps)"

definition parts_error :: "rat \<Rightarrow> (nat list \<times> rat) list \<Rightarrow> string option" where
  "parts_error submitted ps =
     (if submitted < 0 \<or> ps = [] \<or> part_limit < length ps then Some ''finite_response_parts''
      else check_parts submitted 0 submitted ps)"

section \<open>Buffered responses\<close>

definition base_result :: "items \<Rightarrow> pystr \<Rightarrow> string + sse_result" where
  "base_result d s = (case (get_item d ''usage'', get_item d ''timings'') of
      (VDict usage, VDict timings) \<Rightarrow>
        if has_key d ''model'' \<and> (case get_item d ''model'' of VStr m \<Rightarrow> m = [] | _ \<Rightarrow> True) then Inl ''finite_response_model''
        else (case output_text (VStr s) of
            Inl e \<Rightarrow> Inl e
          | Inr s \<Rightarrow> Inr \<lparr>sr_answer = s, sr_reasoning = [], sr_visible_ms = None, sr_tool_ms = None, sr_useful_ms = None,
              sr_finish = lit ''stop'', sr_tools = [], sr_usage = Some usage, sr_timings = timings,
              sr_models = (case get_item d ''model'' of VStr m \<Rightarrow> [m] | _ \<Rightarrow> [])\<rparr>)
    | _ \<Rightarrow> Inl ''finite_response_usage_timings'')"

fun block_texts :: "string \<Rightarrow> nat \<Rightarrow> pyval list \<Rightarrow> string + pystr" where
  "block_texts kind sz [] = Inr []"
| "block_texts kind sz (b # bs) = (case b of
      VDict d \<Rightarrow>
        if get_item d ''type'' \<noteq> VStr (lit kind) then Inl ''finite_response_content''
        else (case output_text (get_item d ''text'') of
            Inl e \<Rightarrow> Inl e
          | Inr s \<Rightarrow>
              if output_limit < sz + utf8_len s then Inl ''finite_response_output_limit''
              else map_sum id (\<lambda>r. s @ r) (block_texts kind (sz + utf8_len s) bs))
    | _ \<Rightarrow> Inl ''finite_response_content'')"

definition text_blocks :: "pyval \<Rightarrow> string \<Rightarrow> string + pystr" where
  "text_blocks v kind = (case v of VList bs \<Rightarrow> block_texts kind 0 bs | _ \<Rightarrow> Inl ''finite_response_content'')"

definition output_item_ok :: "items \<Rightarrow> bool" where
  "output_item_ok d \<longleftrightarrow> get_item d ''type'' = VStr (lit ''message'') \<and> get_item d ''role'' = VStr (lit ''assistant'')
     \<and> get_item d ''status'' = VStr (lit ''completed'')"

fun output_texts :: "pyval list \<Rightarrow> string + pystr" where
  "output_texts [] = Inr []"
| "output_texts (v # vs) = (case v of
      VDict d \<Rightarrow>
        if \<not> output_item_ok d then Inl ''finite_response_content''
        else (case text_blocks (get_item d ''content'') ''output_text'' of
            Inl e \<Rightarrow> Inl e
          | Inr s \<Rightarrow> map_sum id (\<lambda>r. s @ r) (output_texts vs))
    | _ \<Rightarrow> Inl ''finite_response_content'')"

definition read_responses :: "items \<Rightarrow> string + sse_result" where
  "read_responses d =
     (if get_item d ''object'' \<noteq> VStr (lit ''response'') \<or> get_item d ''status'' \<noteq> VStr (lit ''completed'')
        \<or> get_item d ''error'' \<noteq> VNone \<or> get_item d ''incomplete_details'' \<noteq> VNone
      then Inl ''finite_response_terminal''
      else (case get_item d ''output'' of
          VList vs \<Rightarrow> (case output_texts vs of Inl e \<Rightarrow> Inl e | Inr s \<Rightarrow> base_result d s)
        | _ \<Rightarrow> Inl ''finite_response_content''))"

text \<open>\<open>_parse_json_response\<close> on the chat route. The finish reason is compared with strings only, any other value is
  the empty string here.\<close>

definition optional_content :: "pyval \<Rightarrow> pystr option" where
  "optional_content v = (case v of VNone \<Rightarrow> Some [] | VStr s \<Rightarrow> Some s | _ \<Rightarrow> None)"

definition read_chat :: "items \<Rightarrow> string + sse_result" where
  "read_chat d =
     (if has_key d ''error'' then Inl ''json_server_error''
      else (case get_item d ''choices'' of
          VList [VDict choice] \<Rightarrow>
            if \<not> index_zero choice then Inl ''malformed_json_choices''
            else (case get_item choice ''message'' of
                VDict m \<Rightarrow>
                  (case (if has_key m ''tool_calls'' then merge_tool_calls False (get_item m ''tool_calls'') [] else Inr []) of
                    Inl e \<Rightarrow> Inl e
                  | Inr tools \<Rightarrow>
                    (case (optional_content (get_item m ''content''), optional_content (get_item m ''reasoning_content'')) of
                      (Some content, Some reasoning) \<Rightarrow>
                        if has_key d ''model'' \<and> (case get_item d ''model'' of VStr m \<Rightarrow> m = [] | _ \<Rightarrow> True)
                        then Inl ''malformed_response_model''
                        else (case (get_item d ''usage'', get_object d ''timings'') of
                            (VDict usage, VDict timings) \<Rightarrow>
                              Inr \<lparr>sr_answer = content, sr_reasoning = reasoning, sr_visible_ms = None, sr_tool_ms = None,
                                sr_useful_ms = None, sr_finish = (case get_item choice ''finish_reason'' of VStr s \<Rightarrow> s | _ \<Rightarrow> []),
                                sr_tools = tools, sr_usage = Some usage, sr_timings = timings,
                                sr_models = (case get_item d ''model'' of VStr m \<Rightarrow> [m] | _ \<Rightarrow> [])\<rparr>
                          | _ \<Rightarrow> Inl ''missing_or_bad_usage_timings'')
                    | _ \<Rightarrow> Inl ''malformed_json_content''))
              | _ \<Rightarrow> Inl ''malformed_json_message'')
        | _ \<Rightarrow> Inl ''malformed_json_choices''))"

text \<open>\<open>_validate_extracted\<close>: the texts in the order they are checked, and their bytes.\<close>

definition result_texts :: "sse_result \<Rightarrow> pystr list" where
  "result_texts r = sr_answer r # sr_reasoning r # concat (map (\<lambda>(i, t). [tool_name t, tool_args t]) (sr_tools r))"

fun texts_error :: "pystr list \<Rightarrow> string option" where
  "texts_error [] = None"
| "texts_error (s # ss) = (case output_text (VStr s) of Inl e \<Rightarrow> Some e | Inr _ \<Rightarrow> texts_error ss)"

definition validate_extracted :: "sse_result \<Rightarrow> string + sse_result" where
  "validate_extracted r = (case texts_error (result_texts r) of
      Some e \<Rightarrow> Inl e
    | None \<Rightarrow>
        if output_limit < sum_list (map utf8_len (result_texts r)) then Inl ''finite_response_output_limit''
        else if sr_finish r \<notin> {lit ''stop'', lit ''tool_calls''} then Inl ''finite_response_terminal''
        else if list_ex (\<lambda>m. m \<noteq> model_name) (sr_models r) then Inl ''finite_response_model''
        else Inr r)"

definition read_messages :: "items \<Rightarrow> string + sse_result" where
  "read_messages d =
     (if get_item d ''type'' \<noteq> VStr (lit ''message'') \<or> get_item d ''role'' \<noteq> VStr (lit ''assistant'')
        \<or> get_item d ''stop_reason'' \<noteq> VStr (lit ''end_turn'') \<or> has_key d ''error''
      then Inl ''finite_response_terminal''
      else (case text_blocks (get_item d ''content'') ''text'' of Inl e \<Rightarrow> Inl e | Inr s \<Rightarrow> base_result d s))"

definition parse_buffered :: "nat list \<Rightarrow> pystr \<Rightarrow> string + sse_result" where
  "parse_buffered body path = (case response_object body of
      Inl e \<Rightarrow> Inl e
    | Inr d \<Rightarrow>
        (case (if path = chat_route then read_chat d
               else if path = responses_route then read_responses d
               else if path = messages_route then read_messages d
               else Inl ''finite_response_route'') of
          Inl e \<Rightarrow> Inl e
        | Inr r \<Rightarrow> validate_extracted r))"

section \<open>Streams of the responses route\<close>

text \<open>The lines of one frame: names and payload lines in order.\<close>

definition remove_return :: "pystr \<Rightarrow> pystr" where
  "remove_return l = (if l \<noteq> [] \<and> last l = 13 then butlast l else l)"

fun frame_lines :: "pystr list \<Rightarrow> (pystr list \<times> pystr list) option" where
  "frame_lines [] = Some ([], [])"
| "frame_lines (l # ls) =
     (if l = [] \<or> hd l = 58 then frame_lines ls
      else
        let field = takeWhile (\<lambda>c. c \<noteq> 58) l; rest = dropWhile (\<lambda>c. c \<noteq> 58) l;
            content = (if take 1 (tl rest) = [32] then tl (tl rest) else tl rest) in
        if rest = [] \<or> field \<notin> {lit ''event'', lit ''data''} then None
        else map_option (\<lambda>(ns, ps). if field = lit ''event'' then (content # ns, ps) else (ns, content # ps)) (frame_lines ls))"

text \<open>One frame: nothing, an event with its type, or an error.\<close>

definition read_frame :: "nat list \<Rightarrow> string + (pystr \<times> items) option" where
  "read_frame frame = (case utf8_decode frame of
      None \<Rightarrow> Inl ''finite_response_sse_utf8''
    | Some s \<Rightarrow>
        (case frame_lines (map remove_return (split_at 10 s)) of
          None \<Rightarrow> Inl ''finite_response_sse_field''
        | Some (ns, ps) \<Rightarrow>
            if ns = [] \<and> ps = [] then Inr None
            else if length ns \<noteq> 1 \<or> ps = [] then Inl ''finite_response_sse_field''
            else (case strict_json (join [10] ps) of
                Some (VDict d) \<Rightarrow> if get_item d ''type'' = VStr (hd ns) then Inr (Some (hd ns, d)) else Inl ''finite_response_sse_type''
              | _ \<Rightarrow> Inl ''malformed_json'')))"

record stream_state =
  st_output :: pystr
  st_first :: "rat option"
  st_terminal :: "sse_result option"
  st_sequence :: nat

definition stream_start :: stream_state where
  "stream_start = \<lparr>st_output = [], st_first = None, st_terminal = None, st_sequence = 0\<rparr>"

definition auxiliary_events :: "string list" where
  "auxiliary_events = [''response.created'', ''response.in_progress'', ''response.output_item.added'',
     ''response.content_part.added'', ''response.output_text.done'', ''response.content_part.done'', ''response.output_item.done'']"

definition event_kind :: "rat option \<Rightarrow> pystr \<Rightarrow> items \<Rightarrow> stream_state \<Rightarrow> string + stream_state" where
  "event_kind at_ms kind d st =
     (if kind = lit ''response.output_text.delta''
      then (case output_text (get_item d ''delta'') of
          Inl e \<Rightarrow> Inl e
        | Inr s \<Rightarrow>
            if output_limit < utf8_len (st_output st) + utf8_len s then Inl ''finite_response_output_limit''
            else if s \<noteq> [] \<and> st_first st = None \<and> at_ms = None then Inl ''finite_response_sse_timestamp''
            else Inr (st\<lparr>st_output := st_output st @ s,
              st_first := (if s \<noteq> [] \<and> st_first st = None then at_ms else st_first st)\<rparr>))
      else if kind = lit ''response.completed''
      then (case get_item d ''response'' of
          VDict r \<Rightarrow> map_sum id (\<lambda>t. st\<lparr>st_terminal := Some t\<rparr>) (read_responses r)
        | _ \<Rightarrow> Inl ''finite_response_terminal'')
      else if kind \<in> set (map lit auxiliary_events) then Inr st else Inl ''finite_response_sse_event'')"

definition response_model_error :: "items \<Rightarrow> string option" where
  "response_model_error d =
     (if \<not> has_key d ''response'' then None
      else (case get_item d ''response'' of
          VDict r \<Rightarrow> if has_key r ''model'' \<and> get_item r ''model'' \<noteq> VStr model_name then Some ''finite_response_model'' else None
        | _ \<Rightarrow> Some ''finite_response_terminal''))"

definition on_stream_event :: "rat option \<Rightarrow> pystr \<times> items \<Rightarrow> stream_state \<Rightarrow> string + stream_state" where
  "on_stream_event at_ms e st =
     (if st_terminal st \<noteq> None then Inl ''finite_response_sse_after_terminal''
      else if get_item (snd e) ''sequence_number'' \<noteq> VInt (int (st_sequence st)) then Inl ''finite_response_sse_sequence''
      else (case event_kind at_ms (fst e) (snd e) (st\<lparr>st_sequence := st_sequence st + 1\<rparr>) of
          Inl err \<Rightarrow> Inl err
        | Inr st' \<Rightarrow> (case response_model_error (snd e) of Some err \<Rightarrow> Inl err | None \<Rightarrow> Inr st')))"

definition on_stream_frame :: "rat option \<Rightarrow> nat list \<Rightarrow> stream_state \<Rightarrow> string + stream_state" where
  "on_stream_frame at_ms frame st = (case read_frame frame of
      Inl err \<Rightarrow> Inl err
    | Inr None \<Rightarrow> Inr st
    | Inr (Some e) \<Rightarrow> on_stream_event at_ms e st)"

function stream_frames :: "rat option \<Rightarrow> nat list \<Rightarrow> stream_state \<Rightarrow> string + nat list \<times> stream_state" where
  "stream_frames at_ms pending st = (case boundary pending of
      None \<Rightarrow> Inr (pending, st)
    | Some (frame, rest) \<Rightarrow> (case on_stream_frame at_ms frame st of
        Inl err \<Rightarrow> Inl err
      | Inr st' \<Rightarrow> stream_frames at_ms rest st'))"
  by pat_completeness auto
termination
  by (relation "measure (\<lambda>(a, pending, st). length pending)") (auto dest: boundary_shorter)

declare stream_frames.simps [simp del]

fun stream_parts :: "rat \<Rightarrow> (nat list \<times> rat) list \<Rightarrow> nat list \<Rightarrow> stream_state \<Rightarrow> string + nat list \<times> stream_state" where
  "stream_parts submitted [] pending st = Inr (pending, st)"
| "stream_parts submitted ((part, arrived) # ps) pending st =
     (case stream_frames (elapsed_ms arrived submitted) (pending @ part) st of
        Inl err \<Rightarrow> Inl err
      | Inr (rest, st') \<Rightarrow> stream_parts submitted ps rest st')"

definition parse_responses_sse :: "(nat list \<times> rat) list \<Rightarrow> rat \<Rightarrow> string + sse_result" where
  "parse_responses_sse ps submitted = (case parts_error submitted ps of
      Some e \<Rightarrow> Inl e
    | None \<Rightarrow> (case stream_parts submitted ps [] stream_start of
        Inl e \<Rightarrow> Inl e
      | Inr (pending, st) \<Rightarrow>
          if pending \<noteq> [] then Inl ''finite_response_sse_incomplete''
          else (case st_terminal st of
              None \<Rightarrow> Inl ''finite_response_sse_incomplete''
            | Some t \<Rightarrow>
                if sr_answer t \<noteq> st_output st then Inl ''finite_response_sse_text_disagrees''
                else validate_extracted (t\<lparr>sr_visible_ms := st_first st, sr_useful_ms := st_first st\<rparr>))))"

section \<open>Positive responses\<close>

record prepared_post =
  pp_request_id :: pystr
  pp_route :: pystr
  pp_body :: "nat list"
  pp_expected_status :: int

definition tool_fixture :: pystr where
  "tool_fixture = lit ''tool_chat_2304''"

definition one_function_call :: "sse_result \<Rightarrow> bool" where
  "one_function_call r \<longleftrightarrow> sr_finish r = lit ''tool_calls'' \<and> (case sr_tools r of
      [(i, t)] \<Rightarrow> tool_type t = Some (lit ''function'') \<and> tool_id t \<noteq> None \<and> tool_id t \<noteq> Some [] \<and> tool_name t \<noteq> []
        \<and> tool_args t \<noteq> []
    | _ \<Rightarrow> False)"

definition parse_positive_response :: "prepared_post \<Rightarrow> nat list \<Rightarrow> (nat list \<times> rat) list \<Rightarrow> rat \<Rightarrow> string + sse_result" where
  "parse_positive_response post body ps submitted =
     (if pp_expected_status post \<noteq> 200 then Inl ''finite_response_post''
      else if body_limit < length body then Inl ''finite_response_body_limit''
      else (case json_object (pp_body post) of
          None \<Rightarrow> Inl ''malformed_json''
        | Some request \<Rightarrow>
            (case (if has_key request ''stream'' then get_item request ''stream'' else VBool False) of
              VBool streaming \<Rightarrow>
                (case parts_error submitted ps of
                  Some e \<Rightarrow> Inl e
                | None \<Rightarrow>
                    if \<not> streaming then parse_buffered body (pp_route post)
                    else if concat (map fst ps) \<noteq> body then Inl ''finite_response_body_parts_disagree''
                    else if pp_route post = responses_route then parse_responses_sse ps submitted
                    else if pp_route post \<noteq> chat_route then Inl ''finite_response_route''
                    else (case parse_sse False (pp_request_id post \<noteq> tool_fixture) submitted ps of
                        Inl e \<Rightarrow> Inl e
                      | Inr r \<Rightarrow>
                          if sr_timings r = [] then Inl ''finite_response_usage_timings''
                          else if pp_request_id post = tool_fixture \<and> \<not> one_function_call r then Inl ''finite_response_tool_call''
                          else validate_extracted r))
            | _ \<Rightarrow> Inl ''finite_response_stream'')))"

section \<open>How the socket cuts a stream does not matter\<close>

definition clockless :: "stream_state \<Rightarrow> stream_state" where
  "clockless st = st\<lparr>st_first := None\<rparr>"

lemma clockless_iff:
  "clockless st = clockless st' \<longleftrightarrow>
     st_output st = st_output st' \<and> st_terminal st = st_terminal st' \<and> st_sequence st = st_sequence st'"
  by (cases st; cases st') (auto simp: clockless_def)

abbreviation blind :: "string + stream_state \<Rightarrow> string + stream_state" where
  "blind \<equiv> map_sum (\<lambda>e. e) clockless"

abbreviation blind_rest :: "string + nat list \<times> stream_state \<Rightarrow> string + nat list \<times> stream_state" where
  "blind_rest \<equiv> map_sum (\<lambda>e. e) (apsnd clockless)"

text \<open>Two runs at different times from states that differ in the time only.\<close>

lemma event_kind_blind:
  assumes "clockless st = clockless st'" "a \<noteq> None" "b \<noteq> None"
  shows "blind (event_kind a k d st) = blind (event_kind b k d st')"
proof -
  have eq: "st_output st = st_output st'" "st_terminal st = st_terminal st'" "st_sequence st = st_sequence st'"
    using assms(1) by (simp_all add: clockless_iff)
  consider "k = lit ''response.output_text.delta''" | "k = lit ''response.completed''"
    | "k \<noteq> lit ''response.output_text.delta''" "k \<noteq> lit ''response.completed''" by blast
  then show ?thesis
  proof cases
    case 1
    then show ?thesis
      using assms(2,3) eq by (cases "output_text (get_item d ''delta'')") (auto simp: event_kind_def clockless_iff)
  next
    case 2
    have same: "blind (map_sum id (\<lambda>t. st\<lparr>st_terminal := Some t\<rparr>) q) = blind (map_sum id (\<lambda>t. st'\<lparr>st_terminal := Some t\<rparr>) q)" for q
      using eq by (cases q) (auto simp: clockless_iff)
    then show ?thesis
      using 2 by (cases "get_item d ''response''") (simp_all add: event_kind_def)
  next
    case 3
    then show ?thesis using eq by (simp add: event_kind_def clockless_iff)
  qed
qed

lemma on_stream_frame_blind:
  assumes "clockless st = clockless st'" "a \<noteq> None" "b \<noteq> None"
  shows "blind (on_stream_frame a f st) = blind (on_stream_frame b f st')"
proof -
  have "blind (on_stream_event a e st) = blind (on_stream_event b e st')" for e
  proof -
    have eq: "st_terminal st = st_terminal st'" "st_sequence st = st_sequence st'"
      using assms(1) by (simp_all add: clockless_iff)
    have "clockless (st\<lparr>st_sequence := st_sequence st + 1\<rparr>) = clockless (st'\<lparr>st_sequence := st_sequence st' + 1\<rparr>)"
      using assms(1) by (simp add: clockless_iff)
    from event_kind_blind[OF this assms(2,3), of "fst e" "snd e"] show ?thesis
      using eq by (cases "event_kind a (fst e) (snd e) (st\<lparr>st_sequence := st_sequence st + 1\<rparr>)";
          cases "event_kind b (fst e) (snd e) (st'\<lparr>st_sequence := st_sequence st' + 1\<rparr>)")
        (auto simp: on_stream_event_def split: option.split)
  qed
  then show ?thesis using assms(1) by (auto simp: on_stream_frame_def split: sum.split option.split)
qed

lemma stream_frames_blind:
  assumes "clockless st = clockless st'" "a \<noteq> None" "b \<noteq> None"
  shows "blind_rest (stream_frames a p st) = blind_rest (stream_frames b p st')"
  using assms
proof (induction a p st arbitrary: st' rule: stream_frames.induct)
  case (1 a p st)
  show ?case
  proof (cases "boundary p")
    case None
    then show ?thesis using "1.prems" by (simp add: stream_frames.simps[of _ p])
  next
    case (Some fr)
    obtain f r where fr: "fr = (f, r)" by fastforce
    have eq: "blind (on_stream_frame a f st) = blind (on_stream_frame b f st')"
      by (rule on_stream_frame_blind[OF "1.prems"])
    show ?thesis
    proof (cases "on_stream_frame a f st")
      case (Inl e)
      then show ?thesis using eq by (cases "on_stream_frame b f st'") (simp_all add: stream_frames.simps[of _ p] Some fr)
    next
      case (Inr s)
      then obtain s' where s': "on_stream_frame b f st' = Inr s'" "clockless s = clockless s'"
        using eq by (cases "on_stream_frame b f st'") auto
      have "blind_rest (stream_frames a r s) = blind_rest (stream_frames b r s')"
        by (rule "1.IH"[OF Some fr[symmetric] Inr s'(2) "1.prems"(2,3)])
      then show ?thesis using Inr s' by (simp add: stream_frames.simps[of _ p] Some fr)
    qed
  qed
qed

lemma stream_frames_append:
  "stream_frames a (xs @ ys) st = (case stream_frames a xs st of
      Inl e \<Rightarrow> Inl e | Inr (rest, st') \<Rightarrow> stream_frames a (rest @ ys) st')"
proof (induction a xs st rule: stream_frames.induct)
  case (1 a xs st)
  show ?case
  proof (cases "boundary xs")
    case None
    then show ?thesis by (simp add: stream_frames.simps[of _ xs])
  next
    case (Some fr)
    obtain f r where fr: "fr = (f, r)" by fastforce
    have b: "boundary (xs @ ys) = Some (f, r @ ys)" using boundary_append Some fr by simp
    show ?thesis
      using "1.IH"[OF Some fr[symmetric]]
      by (cases "on_stream_frame a f st") (simp_all add: stream_frames.simps[of _ xs] stream_frames.simps[of _ "xs @ ys"] Some fr b)
  qed
qed

lemma stream_frames_done: "stream_frames a xs st = Inr (rest, st') \<Longrightarrow> boundary rest = None"
proof (induction a xs st arbitrary: rest st' rule: stream_frames.induct)
  case (1 a xs st)
  show ?case
  proof (cases "boundary xs")
    case None
    then show ?thesis using "1.prems" by (simp add: stream_frames.simps[of _ xs])
  next
    case (Some fr)
    obtain f r where fr: "fr = (f, r)" by fastforce
    show ?thesis
      using "1.IH"[OF Some fr[symmetric]] "1.prems"
      by (cases "on_stream_frame a f st") (auto simp: stream_frames.simps[of _ xs] Some fr)
  qed
qed

lemma check_parts_timed: "check_parts submitted sz previous ps = None \<Longrightarrow> (p, t) \<in> set ps \<Longrightarrow> elapsed_ms t submitted \<noteq> None"
  by (induction ps arbitrary: sz previous) (auto split: if_splits)

lemma stream_parts_whole:
  assumes "\<forall>(p, t)\<in>set ps. elapsed_ms t submitted \<noteq> None" "boundary pending = None" "clockless st = clockless st'"
  shows "blind_rest (stream_parts submitted ps pending st) = blind_rest (stream_frames (Some 0) (pending @ concat (map fst ps)) st')"
  using assms
proof (induction ps arbitrary: pending st st')
  case Nil
  then show ?case by (simp add: stream_frames.simps)
next
  case (Cons q ps)
  obtain p t where q: "q = (p, t)" by fastforce
  have t: "elapsed_ms t submitted \<noteq> None" using Cons.prems(1) q by auto
  have eq: "blind_rest (stream_frames (elapsed_ms t submitted) (pending @ p) st) = blind_rest (stream_frames (Some 0) (pending @ p) st')"
    by (rule stream_frames_blind[OF Cons.prems(3) t]) simp
  have app: "stream_frames (Some 0) (pending @ concat (map fst (q # ps))) st' = (case stream_frames (Some 0) (pending @ p) st' of
      Inl e \<Rightarrow> Inl e | Inr (rest, st'') \<Rightarrow> stream_frames (Some 0) (rest @ concat (map fst ps)) st'')"
    using stream_frames_append[of "Some 0" "pending @ p" "concat (map fst ps)" st'] by (simp add: q)
  show ?case
  proof (cases "stream_frames (elapsed_ms t submitted) (pending @ p) st")
    case (Inl e)
    then show ?thesis using eq app by (cases "stream_frames (Some 0) (pending @ p) st'") (auto simp: q)
  next
    case (Inr rs)
    obtain rest s where rs: "rs = (rest, s)" by fastforce
    obtain s' where s': "stream_frames (Some 0) (pending @ p) st' = Inr (rest, s')" "clockless s = clockless s'"
      using eq Inr rs by (cases "stream_frames (Some 0) (pending @ p) st'") auto
    have "blind_rest (stream_parts submitted ps rest s) = blind_rest (stream_frames (Some 0) (rest @ concat (map fst ps)) s')"
      using Cons.prems(1) s'(2) stream_frames_done[OF Inr[unfolded rs]] by (intro Cons.IH) auto
    then show ?thesis using Inr rs s' app by (simp add: q)
  qed
qed

text \<open>A result without the times at which output was first seen.\<close>

definition without_times :: "sse_result \<Rightarrow> sse_result" where
  "without_times r = r\<lparr>sr_visible_ms := None, sr_useful_ms := None\<rparr>"

definition conclude_stream :: "string + nat list \<times> stream_state \<Rightarrow> string + sse_result" where
  "conclude_stream x = (case x of
      Inl e \<Rightarrow> Inl e
    | Inr (pending, st) \<Rightarrow>
        if pending \<noteq> [] then Inl ''finite_response_sse_incomplete''
        else (case st_terminal st of
            None \<Rightarrow> Inl ''finite_response_sse_incomplete''
          | Some t \<Rightarrow>
              if sr_answer t \<noteq> st_output st then Inl ''finite_response_sse_text_disagrees''
              else validate_extracted (t\<lparr>sr_visible_ms := st_first st, sr_useful_ms := st_first st\<rparr>)))"

lemma parse_responses_sse_conclude:
  "parts_error submitted ps = None \<Longrightarrow> parse_responses_sse ps submitted = conclude_stream (stream_parts submitted ps [] stream_start)"
  by (simp add: parse_responses_sse_def conclude_stream_def)

lemma validate_without_times:
  "map_sum (\<lambda>e. e) without_times (validate_extracted (t\<lparr>sr_visible_ms := a, sr_useful_ms := b\<rparr>))
     = map_sum (\<lambda>e. e) without_times (validate_extracted (t\<lparr>sr_visible_ms := c, sr_useful_ms := d\<rparr>))"
  by (simp add: validate_extracted_def result_texts_def without_times_def split: option.split)

lemma conclude_blind:
  assumes "blind_rest x = blind_rest y"
  shows "map_sum (\<lambda>e. e) without_times (conclude_stream x) = map_sum (\<lambda>e. e) without_times (conclude_stream y)"
proof (cases x)
  case (Inl e)
  then show ?thesis using assms by (cases y) (auto simp: conclude_stream_def)
next
  case (Inr r)
  then obtain p s s' where xy: "x = Inr (p, s)" "y = Inr (p, s')" "clockless s = clockless s'"
    using assms by (cases y; cases r) auto
  then have "st_output s = st_output s'" "st_terminal s = st_terminal s'" by (simp_all add: clockless_iff)
  then show ?thesis
    using validate_without_times by (auto simp: conclude_stream_def xy split: option.split)
qed

lemma parse_responses_whole:
  assumes "parts_error submitted ps = None"
  shows "map_sum (\<lambda>e. e) without_times (parse_responses_sse ps submitted)
     = map_sum (\<lambda>e. e) without_times (conclude_stream (stream_frames (Some 0) (concat (map fst ps)) stream_start))"
proof -
  have "\<forall>(p, t)\<in>set ps. elapsed_ms t submitted \<noteq> None"
    using assms check_parts_timed by (fastforce simp: parts_error_def split: if_splits)
  from stream_parts_whole[OF this boundary_Nil refl, of stream_start] show ?thesis
    unfolding parse_responses_sse_conclude[OF assms] by (intro conclude_blind) simp
qed

text \<open>C26. Two deliveries of the same bytes that pass the checks on parts are read alike, however the socket cut them and
  whenever the parts arrived: the same error, or results that differ in the first-output times only.\<close>

theorem responses_cutting_is_invisible:
  assumes "parts_error t1 ps = None" and "parts_error t2 qs = None" and "concat (map fst ps) = concat (map fst qs)"
  shows "map_sum (\<lambda>e. e) without_times (parse_responses_sse ps t1) = map_sum (\<lambda>e. e) without_times (parse_responses_sse qs t2)"
  unfolding parse_responses_whole[OF assms(1)] parse_responses_whole[OF assms(2)] assms(3) ..

section \<open>An accepted stream is complete\<close>

text \<open>The events of a byte stream and the bytes behind its last frame.\<close>

function stream_events :: "nat list \<Rightarrow> (pystr \<times> items) list \<times> nat list" where
  "stream_events bytes = (case boundary bytes of
      None \<Rightarrow> ([], bytes)
    | Some (frame, rest) \<Rightarrow> (case read_frame frame of
        Inr (Some e) \<Rightarrow> apfst ((#) e) (stream_events rest)
      | _ \<Rightarrow> stream_events rest))"
  by pat_completeness auto
termination
  by (relation "measure length") (auto dest: boundary_shorter)

declare stream_events.simps [simp del]

fun run_events :: "rat option \<Rightarrow> (pystr \<times> items) list \<Rightarrow> stream_state \<Rightarrow> string + stream_state" where
  "run_events a [] st = Inr st"
| "run_events a (e # es) st = (case on_stream_event a e st of Inl err \<Rightarrow> Inl err | Inr st' \<Rightarrow> run_events a es st')"

lemma stream_frames_events:
  "stream_frames a bytes st = Inr (rest, st') \<Longrightarrow> run_events a (fst (stream_events bytes)) st = Inr st' \<and> rest = snd (stream_events bytes)"
proof (induction a bytes st rule: stream_frames.induct)
  case (1 a bytes st)
  show ?case
  proof (cases "boundary bytes")
    case None
    then show ?thesis using "1.prems" by (auto simp: stream_frames.simps[of _ bytes] stream_events.simps[of rest])
  next
    case (Some fr)
    obtain f r where fr: "fr = (f, r)" by fastforce
    obtain s where s: "on_stream_frame a f st = Inr s" "stream_frames a r s = Inr (rest, st')"
      using "1.prems" by (auto simp: stream_frames.simps[of _ bytes] Some fr split: sum.splits)
    have "run_events a (fst (stream_events r)) s = Inr st' \<and> rest = snd (stream_events r)"
      using "1.IH"[OF Some fr[symmetric] s] .
    then show ?thesis
      using s(1) by (auto simp: stream_events.simps[of bytes] Some fr on_stream_frame_def split: sum.splits option.splits)
  qed
qed

definition delta_text :: "pystr \<times> items \<Rightarrow> pystr" where
  "delta_text e = (if fst e = lit ''response.output_text.delta'' then text_of (get_item (snd e) ''delta'') else [])"

definition completes :: "pystr \<times> items \<Rightarrow> bool" where
  "completes e \<longleftrightarrow> fst e = lit ''response.completed''"

lemma map_sum_Inr: "map_sum id f q = Inr y \<longleftrightarrow> (\<exists>x. q = Inr x \<and> y = f x)"
  by (cases q) auto

lemma on_stream_event_Inr:
  assumes "on_stream_event a e st = Inr st'"
  shows "st_terminal st = None" "get_item (snd e) ''sequence_number'' = VInt (int (st_sequence st))"
    "st_sequence st' = st_sequence st + 1" "st_output st' = st_output st @ delta_text e"
    "st_terminal st' \<noteq> None \<longleftrightarrow> completes e"
proof -
  obtain k where k: "event_kind a (fst e) (snd e) (st\<lparr>st_sequence := st_sequence st + 1\<rparr>) = Inr st'"
    and none: "st_terminal st = None" and sq: "get_item (snd e) ''sequence_number'' = VInt (int (st_sequence st))"
    using assms by (auto simp: on_stream_event_def split: if_splits sum.splits option.splits)
  have out: "output_text v = Inr s \<Longrightarrow> text_of v = s" for v s
    by (auto simp: output_text_def text_of_def split: pyval.splits if_splits)
  show "st_terminal st = None" "get_item (snd e) ''sequence_number'' = VInt (int (st_sequence st))" by (fact none, fact sq)
  show "st_sequence st' = st_sequence st + 1" "st_output st' = st_output st @ delta_text e" "st_terminal st' \<noteq> None \<longleftrightarrow> completes e"
    using k none by (auto simp: event_kind_def delta_text_def completes_def out map_sum_Inr split: if_splits sum.splits pyval.splits)
qed

lemma run_events_Inr:
  assumes "run_events a es st = Inr st'"
  shows "map (\<lambda>e. get_item (snd e) ''sequence_number'') es = map (\<lambda>n. VInt (int n)) [st_sequence st..<st_sequence st + length es]
    \<and> st_output st' = st_output st @ concat (map delta_text es)
    \<and> (st_terminal st = None \<longrightarrow> (st_terminal st' \<noteq> None \<longleftrightarrow> es \<noteq> [] \<and> completes (last es)))
    \<and> (\<forall>e\<in>set (butlast es). \<not> completes e)"
  using assms
proof (induction es arbitrary: st)
  case (Cons e es)
  then obtain s where s: "on_stream_event a e st = Inr s" "run_events a es s = Inr st'" by (auto split: sum.splits)
  note e = on_stream_event_Inr[OF s(1)]
  note IH = Cons.IH[OF s(2)]
  have more: "\<not> completes e" if nonempty: "es \<noteq> []"
  proof -
    obtain e' es' where "es = e' # es'" using nonempty by (cases es) auto
    then obtain s2 where "on_stream_event a e' s = Inr s2" using s(2) by (auto split: sum.splits)
    then have "st_terminal s = None" by (rule on_stream_event_Inr(1))
    then show ?thesis using e(5) by simp
  qed
  have "[st_sequence st..<st_sequence st + length (e # es)] = st_sequence st # [st_sequence s..<st_sequence s + length es]"
    using e(3) by (simp add: upt_conv_Cons del: upt_Suc)
  then show ?case
    using IH e more s(2) by (cases "es = []") (auto simp: s(1))
qed simp

text \<open>C25. What is accepted on the streaming route: the stream ends with a frame boundary, its events are numbered from
  zero without a gap, exactly the last one completes the response, and the answer is the concatenation of the deltas;
  it is at most one megabyte, finished with \<open>stop\<close> or \<open>tool_calls\<close>, and reports no other model.\<close>

theorem accepted_stream_is_complete:
  assumes "parse_responses_sse ps submitted = Inr r"
  shows "\<exists>es. stream_events (concat (map fst ps)) = (es, [])
    \<and> map (\<lambda>e. get_item (snd e) ''sequence_number'') es = map (\<lambda>n. VInt (int n)) [0..<length es]
    \<and> es \<noteq> [] \<and> completes (last es) \<and> (\<forall>e\<in>set (butlast es). \<not> completes e)
    \<and> sr_answer r = concat (map delta_text es) \<and> utf8_len (sr_answer r) \<le> output_limit
    \<and> sr_finish r \<in> {lit ''stop'', lit ''tool_calls''} \<and> (\<forall>m\<in>set (sr_models r). m = model_name)"
proof -
  have ok: "parts_error submitted ps = None" using assms by (simp add: parse_responses_sse_def split: option.splits)
  obtain r' where r': "conclude_stream (stream_frames (Some 0) (concat (map fst ps)) stream_start) = Inr r'"
    "without_times r' = without_times r"
    using parse_responses_whole[OF ok] assms
    by (cases "conclude_stream (stream_frames (Some 0) (concat (map fst ps)) stream_start)") auto
  have same: "sr_answer r = sr_answer r'" "sr_finish r = sr_finish r'" "sr_models r = sr_models r'"
    using r'(2) by (cases r; cases r'; simp add: without_times_def)+
  obtain st t where st: "stream_frames (Some 0) (concat (map fst ps)) stream_start = Inr ([], st)" "st_terminal st = Some t"
    "sr_answer t = st_output st" "validate_extracted (t\<lparr>sr_visible_ms := st_first st, sr_useful_ms := st_first st\<rparr>) = Inr r'"
    using r'(1) by (auto simp: conclude_stream_def split: sum.splits if_splits option.splits)
  have v: "sr_answer r' = st_output st" "utf8_len (sr_answer r') \<le> output_limit" "sr_finish r' \<in> {lit ''stop'', lit ''tool_calls''}"
    "\<forall>m\<in>set (sr_models r'). m = model_name"
    using st(3,4) by (auto simp: validate_extracted_def result_texts_def list_ex_iff split: option.splits if_splits)
  obtain es where es: "stream_events (concat (map fst ps)) = (es, [])" "run_events (Some 0) es stream_start = Inr st"
    using stream_frames_events[OF st(1)] by (cases "stream_events (concat (map fst ps))") auto
  show ?thesis
    using run_events_Inr[OF es(2)] es(1) st(2) v same by (auto simp: stream_start_def)
qed

section \<open>An example\<close>

definition quiet_line :: "nat list \<Rightarrow> bool" where
  "quiet_line l \<longleftrightarrow> list_all (\<lambda>c. c \<noteq> 10 \<and> c \<noteq> 13 \<and> c < 128) l"

lemma boundary_quiet: "quiet_line f \<Longrightarrow> boundary (f @ x) = map_option (apfst (\<lambda>h. f @ h)) (boundary x)"
proof (induction f)
  case Nil
  then show ?case by (cases "boundary x") auto
next
  case (Cons c f)
  then have "cuts (c # f @ x) = None" "quiet_line f" by (simp_all add: cuts_def quiet_line_def)
  then show ?case using Cons.IH by (cases "boundary x") (auto simp: boundary_Cons)
qed

text \<open>A frame of two lines, the name of an event and its payload.\<close>

definition event_frame :: "string \<Rightarrow> pystr \<Rightarrow> nat list" where
  "event_frame name payload = lit ''event: '' @ lit name @ 10 # lit ''data: '' @ payload @ [10, 10]"

lemma split_quiet: "quiet_line l \<Longrightarrow> split_at 10 l = [l]" "quiet_line l \<Longrightarrow> split_at 10 (l @ 10 # r) = l # split_at 10 r"
  by (induction l) (simp_all add: quiet_line_def)

lemma quiet_append [simp]: "quiet_line (a @ b) \<longleftrightarrow> quiet_line a \<and> quiet_line b"
  by (simp add: quiet_line_def)

lemma quiet_marks: "quiet_line (lit ''event: '')" "quiet_line (lit ''data: '')"
  by (simp_all add: quiet_line_def lit_def)

lemma boundary_event_frame:
  assumes "quiet_line (lit name)" "quiet_line payload"
  shows "boundary (event_frame name payload @ r) = Some (lit ''event: '' @ lit name @ 10 # lit ''data: '' @ payload, r)"
proof -
  have e: "boundary (10 # 10 # r) = Some ([], r)" by (simp add: boundary_Cons cuts_def)
  have "boundary (lit ''data: '' @ payload @ 10 # 10 # r) = Some (lit ''data: '' @ payload, r)"
    using boundary_quiet[of "lit ''data: '' @ payload" "10 # 10 # r"] assms(2) quiet_marks e by simp
  then have "boundary (10 # lit ''data: '' @ payload @ 10 # 10 # r) = Some (10 # lit ''data: '' @ payload, r)"
    by (simp add: boundary_Cons cuts_def) (simp add: lit_def)
  then show ?thesis
    using boundary_quiet[of "lit ''event: '' @ lit name" "10 # lit ''data: '' @ payload @ 10 # 10 # r"] assms(1) quiet_marks
    by (simp add: event_frame_def)
qed

lemma quiet_no_return: "quiet_line l \<Longrightarrow> remove_return l = l"
  by (cases l rule: rev_cases) (auto simp: remove_return_def quiet_line_def)

lemma read_event_frame:
  assumes "quiet_line (lit name)" "quiet_line payload" "strict_json payload = Some (VDict d)" "get_item d ''type'' = VStr (lit name)"
  shows "read_frame (lit ''event: '' @ lit name @ 10 # lit ''data: '' @ payload) = Inr (Some (lit name, d))"
proof -
  let ?n = "lit ''event: '' @ lit name" and ?p = "lit ''data: '' @ payload"
  have q: "quiet_line ?n" "quiet_line ?p" using assms(1,2) quiet_marks by simp_all
  have "list_all (\<lambda>c. c < 128) (?n @ 10 # ?p)" using q by (auto simp: quiet_line_def list_all_iff)
  then have u: "utf8_decode (?n @ 10 # ?p) = Some (?n @ 10 # ?p)" by (rule utf8_decode_ascii)
  have l: "map remove_return (split_at 10 (?n @ 10 # ?p)) = [?n, ?p]"
    unfolding split_quiet(2)[OF q(1)] split_quiet(1)[OF q(2)] using q by (simp add: quiet_no_return)
  have f: "frame_lines [?n, ?p] = Some ([lit name], [payload])" by (simp add: lit_def)
  have r: "read_frame (?n @ 10 # ?p) = Inr (Some (lit name, d))"
    unfolding read_frame_def u option.case l f using assms(3,4) by simp
  show ?thesis using r by simp
qed

text \<open>The stream of the answer \<open>4\<close>: one delta and the completed response.\<close>

definition pair_text :: "string \<Rightarrow> string \<Rightarrow> pystr" where
  "pair_text k v = in_quotes (lit k) @ 58 # in_quotes (lit v)"

definition number_text :: "string \<Rightarrow> nat \<Rightarrow> pystr" where
  "number_text k digit = in_quotes (lit k) @ [58, digit, 44]"

definition delta_payload :: pystr where
  "delta_payload = 123 # number_text ''sequence_number'' 48 @ pair_text ''type'' ''response.output_text.delta'' @ 44 # pair_text ''delta'' ''4'' @ [125]"

definition delta_event :: items where
  "delta_event = [(lit ''sequence_number'', VInt 0), (lit ''type'', VStr (lit ''response.output_text.delta'')), (lit ''delta'', VStr (lit ''4''))]"

definition completed_payload :: pystr where
  "completed_payload = 123 # number_text ''sequence_number'' 49 @ pair_text ''type'' ''response.completed'' @ 44 # in_quotes (lit ''response'')
     @ 58 # 123 # pair_text ''object'' ''response'' @ 44 # pair_text ''status'' ''completed'' @ 44 # in_quotes (lit ''output'') @ 58 # 91
     # 123 # pair_text ''type'' ''message'' @ 44 # pair_text ''role'' ''assistant'' @ 44 # pair_text ''status'' ''completed'' @ 44
     # in_quotes (lit ''content'') @ 58 # 91 # 123 # pair_text ''type'' ''output_text'' @ 44 # pair_text ''text'' ''4'' @ 125 # 93 # 125
     # 93 # 44 # in_quotes (lit ''usage'') @ 58 # 123 # 125 # 44 # in_quotes (lit ''timings'') @ [58, 123, 125, 125, 125]"

definition completed_response :: items where
  "completed_response = [(lit ''object'', VStr (lit ''response'')), (lit ''status'', VStr (lit ''completed'')),
     (lit ''output'', VList [VDict [(lit ''type'', VStr (lit ''message'')), (lit ''role'', VStr (lit ''assistant'')),
       (lit ''status'', VStr (lit ''completed'')),
       (lit ''content'', VList [VDict [(lit ''type'', VStr (lit ''output_text'')), (lit ''text'', VStr (lit ''4''))]])]]),
     (lit ''usage'', VDict []), (lit ''timings'', VDict [])]"

definition completed_event :: items where
  "completed_event = [(lit ''sequence_number'', VInt 1), (lit ''type'', VStr (lit ''response.completed'')),
     (lit ''response'', VDict completed_response)]"

lemma plain_names:
  "list_all (\<lambda>s. plain_chars (lit s)) [''sequence_number'', ''type'', ''response.output_text.delta'', ''delta'', ''4'', ''response.completed'',
     ''response'', ''object'', ''status'', ''completed'', ''output'', ''message'', ''role'', ''assistant'', ''content'', ''output_text'',
     ''text'', ''usage'', ''timings'']"
  by (simp add: plain_chars_def lit_def)

lemma no_fraction: "lex_fraction (44 # r) = (None, 44 # r)" "lex_exponent (44 # r) = (None, 44 # r)"
  by (cases r; simp)+

lemma tokens_digit:
  "tokens strict (48 # 44 # r) = map_option ((#) (TValue (VInt 0))) (tokens strict (44 # r))"
  "tokens strict (49 # 44 # r) = map_option ((#) (TValue (VInt 1))) (tokens strict (44 # r))"
  by (simp_all add: tokens.simps[of _ "48 # 44 # r"] tokens.simps[of _ "49 # 44 # r"] lex_one_def structural_def is_json_space_def
      is_digit_def lex_number_def leading_digits_def from_digits_def hex_value_def no_fraction)

lemma payloads_read:
  "strict_json delta_payload = Some (VDict delta_event)" "strict_json completed_payload = Some (VDict completed_event)"
  using plain_names
  by (simp_all add: strict_json_def json_loads_def delta_payload_def completed_payload_def pair_text_def number_text_def
      tokens_in_quotes tokens_structural structural_def tokens_digit tokens.simps[of _ "[]"] delta_event_def completed_event_def
      completed_response_def)

definition demo_stream :: "nat list" where
  "demo_stream = event_frame ''response.output_text.delta'' delta_payload @ event_frame ''response.completed'' completed_payload"

lemma quiet_names:
  "quiet_line (lit ''response.output_text.delta'')" "quiet_line (lit ''response.completed'')"
  "list_all (\<lambda>s. quiet_line (lit s)) [''sequence_number'', ''type'', ''response.output_text.delta'', ''delta'', ''4'', ''response.completed'',
     ''response'', ''object'', ''status'', ''completed'', ''output'', ''message'', ''role'', ''assistant'', ''content'', ''output_text'',
     ''text'', ''usage'', ''timings'']"
  by (simp_all add: quiet_line_def lit_def)

lemma quiet_Cons: "quiet_line (c # l) \<longleftrightarrow> c \<noteq> 10 \<and> c \<noteq> 13 \<and> c < 128 \<and> quiet_line l"
  by (simp add: quiet_line_def)

lemma quiet_payloads: "quiet_line delta_payload" "quiet_line completed_payload"
  using quiet_names(3)
  by (simp_all add: delta_payload_def completed_payload_def pair_text_def number_text_def in_quotes_def quiet_Cons)
    (simp_all add: quiet_line_def)

definition stream_demo_base :: sse_result where
  "stream_demo_base = \<lparr>sr_answer = lit ''4'', sr_reasoning = [], sr_visible_ms = None, sr_tool_ms = None, sr_useful_ms = None,
     sr_finish = lit ''stop'', sr_tools = [], sr_usage = Some [], sr_timings = [], sr_models = []\<rparr>"

lemma demo_text: "output_text (VStr (lit ''4'')) = Inr (lit ''4'')" "utf8_len (lit ''4'') = 1" "output_text (VStr []) = Inr []"
  by (simp_all add: output_text_def utf8_encodable_def lit_def output_limit_def)

lemma demo_response: "read_responses completed_response = Inr stream_demo_base"
  by (simp add: read_responses_def completed_response_def get_item_def output_item_ok_def text_blocks_def demo_text output_limit_def
      base_result_def has_key_def stream_demo_base_def)

definition demo_first :: stream_state where
  "demo_first = \<lparr>st_output = lit ''4'', st_first = Some 1000, st_terminal = None, st_sequence = 1\<rparr>"

lemma stream_demo_frames:
  "on_stream_event (Some 1000) (lit ''response.output_text.delta'', delta_event) stream_start = Inr demo_first"
  "on_stream_event (Some 1000) (lit ''response.completed'', completed_event) demo_first
     = Inr (demo_first\<lparr>st_terminal := Some stream_demo_base, st_sequence := 2\<rparr>)"
  using demo_response
  by (simp_all add: on_stream_event_def delta_event_def completed_event_def get_item_def event_kind_def demo_text demo_first_def
      stream_start_def response_model_error_def has_key_def output_limit_def)
    (simp add: completed_response_def)

lemma demo_parts: "parts_error 0 [(demo_stream, 1)] = None"
proof -
  have "demo_stream \<noteq> []" "length demo_stream \<le> body_limit"
    by (simp_all add: demo_stream_def event_frame_def delta_payload_def completed_payload_def pair_text_def number_text_def
        in_quotes_def body_limit_def)
  then show ?thesis by (simp add: parts_error_def elapsed_ms_def max_elapsed_def part_limit_def)
qed

lemma stream_demo_accepted:
  "parse_responses_sse [(demo_stream, 1)] 0 = Inr (stream_demo_base\<lparr>sr_visible_ms := Some 1000, sr_useful_ms := Some 1000\<rparr>)"
proof -
  have e: "elapsed_ms 1 0 = Some 1000" by (simp add: elapsed_ms_def max_elapsed_def)
  have f: "on_stream_frame a (lit ''event: '' @ lit ''response.output_text.delta'' @ 10 # lit ''data: '' @ delta_payload) st
        = on_stream_event a (lit ''response.output_text.delta'', delta_event) st"
      "on_stream_frame a (lit ''event: '' @ lit ''response.completed'' @ 10 # lit ''data: '' @ completed_payload) st
        = on_stream_event a (lit ''response.completed'', completed_event) st" for a st
    using read_event_frame[OF quiet_names(1) quiet_payloads(1) payloads_read(1)]
      read_event_frame[OF quiet_names(2) quiet_payloads(2) payloads_read(2)]
    by (simp_all add: on_stream_frame_def delta_event_def completed_event_def get_item_def)
  have b: "boundary demo_stream = Some (lit ''event: '' @ lit ''response.output_text.delta'' @ 10 # lit ''data: '' @ delta_payload,
        event_frame ''response.completed'' completed_payload)"
      "boundary (event_frame ''response.completed'' completed_payload)
        = Some (lit ''event: '' @ lit ''response.completed'' @ 10 # lit ''data: '' @ completed_payload, [])"
    using boundary_event_frame[OF quiet_names(1) quiet_payloads(1)] boundary_event_frame[OF quiet_names(2) quiet_payloads(2), of "[]"]
    by (simp_all add: demo_stream_def)
  have "stream_frames (Some 1000) demo_stream stream_start = Inr ([], demo_first\<lparr>st_terminal := Some stream_demo_base, st_sequence := 2\<rparr>)"
    by (simp add: stream_frames.simps[of _ demo_stream] stream_frames.simps[of _ "event_frame _ _"] stream_frames.simps[of _ "[]"] b f stream_demo_frames)
  then show ?thesis
    using demo_parts e
    by (simp add: parse_responses_sse_def demo_first_def stream_demo_base_def validate_extracted_def result_texts_def demo_text output_limit_def)
qed

theorem accepted_stream_is_complete_witness:
  "\<exists>es. stream_events demo_stream = (es, []) \<and> concat (map delta_text es) = lit ''4''"
  using accepted_stream_is_complete[OF stream_demo_accepted] by (auto simp: stream_demo_base_def)

lemma demo_cut: "parts_error 7 [(take 10 demo_stream, 8), (drop 10 demo_stream, 9)] = None"
proof -
  have "demo_stream \<noteq> []" by (simp add: demo_stream_def event_frame_def)
  moreover have "length demo_stream \<le> body_limit" "10 < length demo_stream"
    by (simp_all add: demo_stream_def event_frame_def delta_payload_def completed_payload_def pair_text_def number_text_def
        in_quotes_def body_limit_def)
  ultimately show ?thesis by (simp add: parts_error_def elapsed_ms_def max_elapsed_def part_limit_def min_def)
qed

theorem responses_cutting_is_invisible_witness:
  "map_sum (\<lambda>e. e) without_times (parse_responses_sse [(take 10 demo_stream, 8), (drop 10 demo_stream, 9)] 7)
     = Inr stream_demo_base"
  using responses_cutting_is_invisible[OF demo_cut demo_parts]
  by (simp add: stream_demo_accepted without_times_def stream_demo_base_def)

end
