(* ===== verification/Spec2Isabelle.thy ===== *)
theory Spec2Isabelle
  imports GroundedJobs Playback SpeechGate NoiseGuard SmokePolicy TranscriptGroups GermanNumbers Gguf FiniteLedger
    OutputArbiter SecretCapture SseObserver SmokeTask Presentation CallSettings CallerBinding FiniteResponses
begin

text \<open>
  The repository is a control layer for local language model engines and a voice bridge to them. Two halves of
  its Python code are modelled. \<open>voice/native-bridge\<close> keeps conversations: a journal of business tasks, a worker
  that hands their operations to an executor, and the audio side with playback, speech detection, transcripts and
  the arbiter of spoken output. \<open>scripts/gufo_control\<close> decides whether an engine may start and keep running,
  reads its model file, talks HTTP to it and keeps evidence of bounded runs.

  The parts, their theories and their code:

  \<^item> Shared vocabulary: \<open>Prelude\<close> (strings as code points, results as sums, tables of rows), \<open>PyVal\<close> (dynamically
    typed values and the guards on their types), \<open>Machines\<close> (interfaces), \<open>Bytes\<close> (UTF-8, replacing, splitting).

  \<^item> Task journal, \<open>task_store.py\<close> and \<open>business_tasks.py\<close>: \<open>JsonGuard\<close> (what a payload may be), \<open>BusinessTasks\<close>
    (identifiers and tables of states), \<open>TaskStore\<close> (the tables as records, reading methods, events), \<open>TaskStoreOps\<close>
    (one definition per method that changes state). \<open>TaskStoreEffects\<close> says what each method leaves and changes,
    \<open>TaskStoreSteps\<close> abstracts every method to one of a few core steps, \<open>TaskStoreInv\<close> and \<open>TaskStoreInv2\<close> show the
    invariants of the core steps, \<open>TaskStoreHistory\<close> what holds between an earlier and a later journal, and
    \<open>TaskStoreProps\<close> draws the properties: single flight, at most one dispatch, the life cycle as a refinement,
    idempotent retries, detachment, capacities. \<open>TaskStoreDemo\<close> is a concrete journal for the witnesses.

  \<^item> Conversations, \<open>task_coordinator.py\<close>: \<open>TaskWorker\<close> (output queue, one turn of the executor and its
    endings, and \<open>_run\<close> as a machine whose phases are its awaits, between which other tasks do anything to the journal
    and the attachment) on top of the journal, through the locale \<open>claim_once\<close> that is interpreted on the journal's
    \<open>dispatch\<close>. \<open>TaskRouting\<close> has
    the way of an utterance: what \<open>accept_decision\<close> captures before it waits for the router, the context the router
    sees, and what it does with the router's decision afterwards, with attaching, questions and detaching.
    \<open>TaskRoutingProps\<close> lets anything happen in between (\<open>conversing\<close>) and shows that the journal only makes its own
    steps, that a route decided on a changed context writes nothing, that an acceptance is announced only when recorded.

  \<^item> Grounded answers, \<open>_grounded_read\<close> of \<open>task_store.py\<close>, \<open>grounded_conversation.py\<close> and \<open>_schedule_grounded\<close>,
    \<open>_answer_grounded\<close> of \<open>task_coordinator.py\<close>: \<open>GroundedRead\<close> (the bounded view of one task and its revision),
    \<open>GroundedFresh\<close> (the revision stands for the view: every change of a task is logged), \<open>GroundedAnswers\<close> (the evidence
    offered to the planner, the check of what it selected, the sentences), \<open>GroundedProps\<close> (only evidence is spoken),
    \<open>GroundedOffer\<close> (what is offered passes the check), \<open>GroundedJobs\<close> (scheduling, withdrawal and publication; what is
    published holds of the journal at that moment). The planner is any function of the request.

  \<^item> Audio, \<open>core.py\<close>, \<open>noise_guard.py\<close>, \<open>transcript_groups.py\<close>, \<open>conversation_output.py\<close>: \<open>Playback\<close> (the byte
    buffer with generations), \<open>SpeechGate\<close> (end of speech), \<open>NoiseGuard\<close> (barge-in), \<open>TranscriptGroups\<close> (the ledger of
    responses and transcripts), \<open>OutputArbiter\<close> (priority queue and worker, written as a step function because the
    code yields between chunks). \<open>GermanNumbers\<close> models the number words of \<open>conversation_numbers.py\<close>.

  \<^item> Admission, \<open>admission.py\<close>, \<open>operator_policy.py\<close>, \<open>smoke_policy.py\<close>: \<open>Admission\<close>, \<open>OperatorPolicy\<close>, \<open>SmokePolicy\<close>.
    A decision is the list of reasons against; an empty list admits. \<open>SmokePolicy\<close> covers the fixed and the three service
    profiles; the records a profile must reproduce and the closed pins of a service are parameters.

  \<^item> Model files, \<open>gguf.py\<close>: \<open>Gguf\<close>, a reader over a list of bytes with the limits of the code.

  \<^item> Bounded runs, \<open>finite_ledger.py\<close>, \<open>finite_transport.py\<close>: \<open>FiniteLedger\<close> (an append-only directory of
    reservations, outcomes and latches; every write may fail before, inside or after its record), \<open>SecretCapture\<close> (masking a secret in a stream), \<open>SseObserver\<close> (the observer
    of an event stream with a planned disconnect).

  \<^item> Smoke client, \<open>smoke_http.py\<close>: \<open>HttpReader\<close> (the byte reader, body framing, response heads), \<open>Json\<close> (the strict
    reader of JSON), \<open>SmokeUsage\<close> (token accounting), \<open>SmokeSse\<close> (the stream parser and tool calls), \<open>SmokeTask\<close> (the
    worker).

  \<^item> Presentation, \<open>voice/presentation_history.py\<close>: \<open>Presentation\<close> (validation of grants, receipts and events, and the
    outbox that publishes one event at a time and stops at the first uncertain attempt).

  \<^item> Assistant settings, \<open>assistant_settings.py\<close> and \<open>validate_reference\<close> of \<open>voice_reference_cache.py\<close>:
    \<open>AssistantSettings\<close> (validation of the authorized projection), \<open>CallSettings\<close> (what a call reads from it and the
    selection of its language).

  \<^item> Caller binding, \<open>voice/caller_binding.py\<close>: \<open>CallerBinding\<close> (receipts of a failed CREATE, the exchange of a CREATE
    over a client that is a parameter, validation of bindings and refreshes, the credential of a call and its lease).

  \<^item> Finite responses, \<open>finite_responses.py\<close>: \<open>FiniteResponses\<close> (buffered and streamed decoding; the frames are those of
    \<open>SseObserver\<close>, the JSON is that of \<open>Json\<close>, the chat stream is that of \<open>SmokeSse\<close>).

  Interfaces are locales. \<open>Machines\<close> states what a component promises for one call and what then holds for a history:
  \<open>component\<close> (an invariant), \<open>progressing\<close> (an order in which it only moves forward), \<open>stopping\<close> (a stop that is
  final), \<open>fenced\<close> (a buffer that refuses what names an older epoch). They are interpreted by \<open>Playback\<close>,
  \<open>OutputArbiter\<close> (whose playback generation fences the whole arbiter), \<open>FiniteLedger\<close>, \<open>Presentation\<close>, \<open>CallSettings\<close>
  and \<open>CallerBinding\<close>, whose histories are folds of one call. \<open>claim_once\<close> in \<open>TaskWorker\<close> is the interface between
  the worker and the journal. The states of an operation are ordered by their life cycle, an instance of \<open>order\<close> in
  \<open>TaskStoreHistory\<close>.

  State is a record and every operation a function from state to state, with a sum or an option where the code
  raises; the exception's code is kept. Loops over data are structural or have a termination proof, so that every
  operation is total and no fuel is needed anywhere; the two loops of the code that are bounded by a counter (the
  readiness polls, the retries of the arbiter's worker) keep their counter. Times and floats are rationals, rounding
  is not modelled; byte strings are lists of numbers. SQLite transactions and file locks make an operation atomic,
  which is how it is modelled; interleaving of operations is a sequence of calls, and the invariants hold for every
  sequence.

  Arguments of the definitions stand for what the code does not define: SHA-256 and the canonical encoding of a
  ledger entry, the qualification records of a model, the clock, callbacks of the environment (\<open>valid\<close>, \<open>generation\<close>), the
  outcome of a socket. The properties hold for every choice of them unless a hypothesis says otherwise.

  Not modelled: servers, WebRTC, devices and model inference; processes, job objects and performance counters;
  the prompts and regular expressions of conversation routing; the exchange with the planner of grounded answers and
  its admission to a slot; benchmark and research scripts; launchers of
  third-party engines; the parts of modelled files that only open, lock or sync files, start threads or format
  messages.
\<close>

end
